(* ===== verification/Prelude.thy ===== *)
theory Prelude
  imports Main "HOL-Library.Word"
begin

text \<open>
  The vocabulary every component shares: the exceptions of the library, results
  (\<open>exn + 'a\<close>), operations over a state that may throw and keep their partial
  effects (\<open>eff\<close>), decimal printing as \<open>std::ostream\<close> does it, the searches of
  \<open>std::string\<close>, and the bounded counter every resource limit of the code is an
  instance of.

  Sizes (\<open>std::size_t\<close>) are \<open>nat\<close>: the code guards every subtraction
  before it makes it and compares before it adds, so no size wraps round, and each guard
  is kept in the model exactly as it is written. Strings are char lists, one char per
  byte.
\<close>

section \<open>Exceptions and results\<close>

text \<open>
  \<open>Exception\<close> and \<open>TokenizerException\<close> are the classes of exception.hpp (the
  latter with its line and character number), \<open>StdOutOfRange\<close> is what
  \<open>at()\<close> of an empty string throws, \<open>RuntimeError\<close> is the
  \<open>std::runtime_error\<close> the command line tool throws, and \<open>UserException\<close> stands
  for whatever a callback written by a user of the library throws. The archive reader of
  archive/cista.cpp adds a reason to its exceptions, and archived_template.hpp a public
  category.
\<close>

datatype archive_failure_reason = InvalidArchive | UnsupportedFormat | LimitExceeded

datatype archived_template_error =
  ErrorInvalidArchive | ErrorUnsupportedFormat | ErrorLimitExceeded

datatype exn =
    Exception string
  | TokenizerException string int int
  | StdOutOfRange
  | RuntimeError string
  | ArchiveReadException archive_failure_reason string
  | ArchivedTemplateException archived_template_error string
  | UserException string

fun what :: "exn \<Rightarrow> string" where
  "what (Exception m) = m"
| "what (TokenizerException m l c) = m"
| "what StdOutOfRange = ''out_of_range''"
| "what (RuntimeError m) = m"
| "what (ArchiveReadException r m) = m"
| "what (ArchivedTemplateException r m) = m"
| "what (UserException m) = m"

type_synonym 'a result = "exn + 'a"

fun bind_result :: "'a result \<Rightarrow> ('a \<Rightarrow> 'b result) \<Rightarrow> 'b result" where
  "bind_result (Inl e) f = Inl e"
| "bind_result (Inr x) f = f x"

definition throw_if :: "bool \<Rightarrow> exn \<Rightarrow> unit result" where
  "throw_if b e = (if b then Inl e else Inr ())"

lemma bind_result_Inr_iff:
  "bind_result m f = Inr y \<longleftrightarrow> (\<exists>x. m = Inr x \<and> f x = Inr y)"
  by (cases m) auto

lemma bind_result_Inl_iff:
  "bind_result m f = Inl e \<longleftrightarrow> m = Inl e \<or> (\<exists>x. m = Inr x \<and> f x = Inl e)"
  by (cases m) auto

lemma throw_if_Inr_iff [simp]: "throw_if b e = Inr u \<longleftrightarrow> \<not> b"
  by (simp add: throw_if_def)

lemma throw_if_Inl_iff [simp]: "throw_if b e = Inl e' \<longleftrightarrow> b \<and> e' = e"
  by (auto simp: throw_if_def)

lemma throw_if_False [simp]: "throw_if False e = Inr ()"
  by (simp add: throw_if_def)

lemma throw_if_True [simp]: "throw_if True e = Inl e"
  by (simp add: throw_if_def)

section \<open>Stateful operations that may throw\<close>

text \<open>
  An operation over the state \<open>'s\<close> returns its value or the exception it threw,
  and in both cases the state it left behind: the effects made before a throw stay made,
  as they do in the code. \<open>on_exit\<close> is a scope guard (\<open>RenderScopeExit\<close>,
  or any destructor): its clean-up runs on a normal return and on a throw.
\<close>

type_synonym ('s, 'a) eff = "'s \<Rightarrow> 'a result \<times> 's"

definition ret :: "'a \<Rightarrow> ('s, 'a) eff" where
  "ret x s = (Inr x, s)"

definition throw :: "exn \<Rightarrow> ('s, 'a) eff" where
  "throw e s = (Inl e, s)"

definition bind_eff :: "('s, 'a) eff \<Rightarrow> ('a \<Rightarrow> ('s, 'b) eff) \<Rightarrow> ('s, 'b) eff" where
  "bind_eff m f s = (case m s of (Inl e, s') \<Rightarrow> (Inl e, s') | (Inr x, s') \<Rightarrow> f x s')"

definition then_eff :: "('s, 'a) eff \<Rightarrow> ('s, 'b) eff \<Rightarrow> ('s, 'b) eff" where
  "then_eff m k = bind_eff m (\<lambda>_. k)"

definition reads :: "('s \<Rightarrow> 'a) \<Rightarrow> ('s, 'a) eff" where
  "reads f s = (Inr (f s), s)"

definition writes :: "('s \<Rightarrow> 's) \<Rightarrow> ('s, unit) eff" where
  "writes f s = (Inr (), f s)"

definition throw_when :: "('s \<Rightarrow> bool) \<Rightarrow> exn \<Rightarrow> ('s, unit) eff" where
  "throw_when b e s = (if b s then (Inl e, s) else (Inr (), s))"

definition lift_result :: "'a result \<Rightarrow> ('s, 'a) eff" where
  "lift_result r s = (r, s)"

definition on_exit :: "('s \<Rightarrow> 's) \<Rightarrow> ('s, 'a) eff \<Rightarrow> ('s, 'a) eff" where
  "on_exit f m s = (case m s of (r, s') \<Rightarrow> (r, f s'))"

lemmas eff_defs = ret_def throw_def bind_eff_def then_eff_def reads_def writes_def
  throw_when_def lift_result_def on_exit_def

lemma bind_lift_Inr: "bind_eff (lift_result (Inr x)) f = f x"
  by (simp add: bind_eff_def lift_result_def fun_eq_iff)

lemma bind_eff_Inr_iff:
  "bind_eff m f s = (Inr y, t) \<longleftrightarrow> (\<exists>x u. m s = (Inr x, u) \<and> f x u = (Inr y, t))"
  by (auto simp: bind_eff_def split: prod.splits sum.splits)

lemma then_eff_Inr_iff:
  "then_eff m k s = (Inr y, t) \<longleftrightarrow> (\<exists>x u. m s = (Inr x, u) \<and> k u = (Inr y, t))"
  by (simp add: then_eff_def bind_eff_Inr_iff)

lemma ret_eq_iff [simp]: "ret x s = (r, t) \<longleftrightarrow> r = Inr x \<and> t = s"
  by (auto simp: ret_def)

lemma throw_eq_iff [simp]: "throw e s = (r, t) \<longleftrightarrow> r = Inl e \<and> t = s"
  by (auto simp: throw_def)

lemma reads_eq_iff [simp]: "reads f s = (r, t) \<longleftrightarrow> r = Inr (f s) \<and> t = s"
  by (auto simp: reads_def)

lemma writes_eq_iff [simp]: "writes f s = (r, t) \<longleftrightarrow> r = Inr () \<and> t = f s"
  by (auto simp: writes_def)

lemma throw_when_Inr_iff [simp]: "throw_when b e s = (Inr u, t) \<longleftrightarrow> \<not> b s \<and> t = s"
  by (auto simp: throw_when_def)

lemma lift_result_eq_iff [simp]: "lift_result r s = (r', t) \<longleftrightarrow> r' = r \<and> t = s"
  by (auto simp: lift_result_def)

lemma on_exit_eq_iff: "on_exit f m s = (r, t) \<longleftrightarrow> (\<exists>u. m s = (r, u) \<and> t = f u)"
  by (auto simp: on_exit_def split: prod.splits)

text \<open>
  \<open>steps R m\<close>: whatever \<open>m\<close> does, the state before and the state after are
  related by \<open>R\<close>, whether it returned or threw. The rules in \<open>eff_steps\<close>
  take an operation apart; each component adds the rule of each of its operations.
\<close>

definition steps :: "('s \<Rightarrow> 's \<Rightarrow> bool) \<Rightarrow> ('s, 'a) eff \<Rightarrow> bool" where
  "steps R m \<longleftrightarrow> (\<forall>s. R s (snd (m s)))"

named_theorems eff_steps "rules that take steps R m apart"

lemma stepsD: "steps R m \<Longrightarrow> m s = (r, t) \<Longrightarrow> R s t"
  unfolding steps_def by (metis snd_conv)

lemma stepsI: "(\<And>s r t. m s = (r, t) \<Longrightarrow> R s t) \<Longrightarrow> steps R m"
  unfolding steps_def by (metis prod.collapse)

lemma steps_ret [eff_steps]: "reflp R \<Longrightarrow> steps R (ret x)"
  by (simp add: steps_def ret_def reflpD)

lemma steps_throw [eff_steps]: "reflp R \<Longrightarrow> steps R (throw e)"
  by (simp add: steps_def throw_def reflpD)

lemma steps_reads [eff_steps]: "reflp R \<Longrightarrow> steps R (reads f)"
  by (simp add: steps_def reads_def reflpD)

lemma steps_throw_when [eff_steps]: "reflp R \<Longrightarrow> steps R (throw_when b e)"
  by (simp add: steps_def throw_when_def reflpD)

lemma steps_lift_result [eff_steps]: "reflp R \<Longrightarrow> steps R (lift_result r)"
  by (simp add: steps_def lift_result_def reflpD)

lemma steps_writes: "(\<And>s. R s (f s)) \<Longrightarrow> steps R (writes f)"
  by (simp add: steps_def writes_def)

lemma steps_bind_eff [eff_steps]:
  assumes "transp R" and "steps R m" and "\<And>x. steps R (f x)"
  shows "steps R (bind_eff m f)"
  unfolding steps_def
proof
  fix s
  obtain r s' where m: "m s = (r, s')" by (cases "m s")
  with assms(2) have 1: "R s s'" by (rule stepsD)
  show "R s (snd (bind_eff m f s))"
  proof (cases r)
    case (Inl e)
    with m 1 show ?thesis by (simp add: bind_eff_def)
  next
    case (Inr x)
    have "R s' (snd (f x s'))" using assms(3) by (simp add: steps_def)
    with assms(1) 1 m Inr show ?thesis by (auto simp: bind_eff_def elim: transpE)
  qed
qed

lemma steps_then_eff [eff_steps]:
  "transp R \<Longrightarrow> steps R m \<Longrightarrow> steps R k \<Longrightarrow> steps R (then_eff m k)"
  by (simp add: then_eff_def steps_bind_eff)

lemma steps_if [eff_steps]:
  "(b \<Longrightarrow> steps R m) \<Longrightarrow> (\<not> b \<Longrightarrow> steps R k) \<Longrightarrow> steps R (if b then m else k)"
  by simp

lemma steps_on_exit:
  assumes "\<And>s r t. m s = (r, t) \<Longrightarrow> R s (f t)"
  shows "steps R (on_exit f m)"
  using assms by (auto simp: steps_def on_exit_def split: prod.splits)

text \<open>The same operation \<open>n\<close> times, collecting the values.\<close>

primrec repeat_eff :: "nat \<Rightarrow> ('s, 'a) eff \<Rightarrow> ('s, 'a list) eff" where
  "repeat_eff 0 m = ret []"
| "repeat_eff (Suc n) m = bind_eff m (\<lambda>x. bind_eff (repeat_eff n m) (\<lambda>xs. ret (x # xs)))"

lemma repeat_eff_length: "repeat_eff n m s = (Inr xs, t) \<Longrightarrow> length xs = n"
  by (induction n arbitrary: s xs t) (auto simp: bind_eff_Inr_iff)

text \<open>
  The loop over a list: the operation on each element in turn, until one throws.
\<close>

primrec each_eff :: "('a \<Rightarrow> ('s, unit) eff) \<Rightarrow> 'a list \<Rightarrow> ('s, unit) eff" where
  "each_eff f [] = ret ()"
| "each_eff f (x # xs) = then_eff (f x) (each_eff f xs)"

lemma each_eff_cong [fundef_cong]:
  "xs = ys \<Longrightarrow> (\<And>x. x \<in> set ys \<Longrightarrow> f x = g x) \<Longrightarrow> each_eff f xs = each_eff g ys"
  by (induction ys arbitrary: xs) auto

lemma steps_each_eff [eff_steps]:
  "reflp R \<Longrightarrow> transp R \<Longrightarrow> (\<And>x. x \<in> set xs \<Longrightarrow> steps R (f x)) \<Longrightarrow> steps R (each_eff f xs)"
  by (induction xs) (auto intro!: eff_steps)

section \<open>Decimal printing\<close>

text \<open>\<open>operator<<\<close> on an integer and \<open>std::to_string\<close>.\<close>

definition digit_char :: "nat \<Rightarrow> char" where
  "digit_char d = char_of (48 + d)"

fun show_nat :: "nat \<Rightarrow> string" where
  "show_nat n = (if n < 10 then [digit_char n] else show_nat (n div 10) @ [digit_char (n mod 10)])"

declare show_nat.simps [simp del]

definition show_int :: "int \<Rightarrow> string" where
  "show_int i = (if i < 0 then CHR ''-'' # show_nat (nat (- i)) else show_nat (nat i))"

section \<open>Searching strings\<close>

text \<open>
  The \<open>find\<close> family of \<open>std::string\<close>: \<open>None\<close> is \<open>npos\<close>. A start
  position past the end finds nothing, and a start position of \<open>npos\<close> is passed on
  as \<open>None\<close>.
\<close>

fun find_idx :: "('a \<Rightarrow> bool) \<Rightarrow> 'a list \<Rightarrow> nat option" where
  "find_idx P [] = None"
| "find_idx P (c # cs) = (if P c then Some 0 else map_option Suc (find_idx P cs))"

definition find_from :: "('a \<Rightarrow> bool) \<Rightarrow> 'a list \<Rightarrow> nat option \<Rightarrow> nat option" where
  "find_from P s pos =
     (case pos of None \<Rightarrow> None | Some p \<Rightarrow> map_option (\<lambda>i. p + i) (find_idx P (drop p s)))"

fun find_last_idx :: "('a \<Rightarrow> bool) \<Rightarrow> 'a list \<Rightarrow> nat option" where
  "find_last_idx P [] = None"
| "find_last_idx P (c # cs) =
     (case find_last_idx P cs of Some i \<Rightarrow> Some (Suc i) | None \<Rightarrow> if P c then Some 0 else None)"

fun starts_with :: "'a list \<Rightarrow> 'a list \<Rightarrow> bool" where
  "starts_with [] s = True"
| "starts_with (p # ps) [] = False"
| "starts_with (p # ps) (c # cs) = (p = c \<and> starts_with ps cs)"

fun find_sub :: "'a list \<Rightarrow> 'a list \<Rightarrow> nat option" where
  "find_sub pat [] = (if pat = [] then Some 0 else None)"
| "find_sub pat (c # cs) =
     (if starts_with pat (c # cs) then Some 0 else map_option Suc (find_sub pat cs))"

lemma find_idx_None_iff: "find_idx P s = None \<longleftrightarrow> (\<forall>c\<in>set s. \<not> P c)"
  by (induction s) auto

lemma find_idx_Some_split:
  "find_idx P s = Some i \<Longrightarrow>
     i < length s \<and> P (s ! i) \<and> take i s = takeWhile (\<lambda>c. \<not> P c) s
     \<and> drop i s = dropWhile (\<lambda>c. \<not> P c) s"
proof (induction s arbitrary: i)
  case (Cons c s)
  then show ?case by (cases i) (auto split: if_splits)
qed simp

lemma find_idx_eq:
  "find_idx P s = (if \<exists>c\<in>set s. P c then Some (length (takeWhile (\<lambda>c. \<not> P c) s)) else None)"
  by (induction s) auto

lemma find_last_idx_None_iff: "find_last_idx P s = None \<longleftrightarrow> (\<forall>c\<in>set s. \<not> P c)"
  by (induction s) (auto split: option.splits)

lemma find_last_idx_Some_split:
  "find_last_idx P s = Some i \<Longrightarrow>
     i < length s \<and> P (s ! i) \<and> (\<forall>c\<in>set (drop (Suc i) s). \<not> P c)"
proof (induction s arbitrary: i)
  case (Cons c s)
  then show ?case
    by (cases i) (auto split: option.splits if_splits simp: find_last_idx_None_iff)
qed simp

lemma starts_with_iff: "starts_with p s \<longleftrightarrow> take (length p) s = p"
  by (induction p s rule: starts_with.induct) auto

lemma starts_with_append [simp]: "starts_with p (p @ s)"
  by (simp add: starts_with_iff)

lemma starts_with_ex: "starts_with p s \<longleftrightarrow> (\<exists>r. s = p @ r)"
  by (metis append_eq_conv_conj append_take_drop_id starts_with_iff starts_with_append)

lemma find_sub_Some_split:
  "find_sub pat s = Some i \<Longrightarrow> s = take i s @ pat @ drop (i + length pat) s"
proof (induction s arbitrary: i)
  case Nil
  then show ?case by (simp split: if_splits)
next
  case (Cons c s)
  show ?case
  proof (cases "starts_with pat (c # s)")
    case True
    with Cons.prems have "i = 0" by simp
    with True show ?thesis by (metis add_0 append_take_drop_id starts_with_iff take0 append_Nil)
  next
    case False
    with Cons show ?thesis by auto
  qed
qed

lemma find_sub_bound: "find_sub pat s = Some i \<Longrightarrow> i + length pat \<le> length s"
proof (induction s arbitrary: i)
  case Nil
  then show ?case by (simp split: if_splits)
next
  case (Cons c s)
  show ?case
  proof (cases "starts_with pat (c # s)")
    case True
    with Cons.prems have "i = 0" by simp
    moreover from True obtain r where "c # s = pat @ r" by (auto simp: starts_with_ex)
    ultimately show ?thesis by (metis add_0 le_add1 length_append)
  next
    case False
    with Cons show ?thesis by auto
  qed
qed

definition occurs_in :: "'a list \<Rightarrow> 'a list \<Rightarrow> bool" where
  "occurs_in pat s \<longleftrightarrow> (\<exists>l r. s = l @ pat @ r)"

lemma find_sub_None_iff: "find_sub pat s = None \<longleftrightarrow> \<not> occurs_in pat s"
proof (induction s)
  case Nil
  then show ?case by (simp add: occurs_in_def)
next
  case (Cons c s)
  have "occurs_in pat (c # s) \<longleftrightarrow> starts_with pat (c # s) \<or> occurs_in pat s"
  proof
    assume "occurs_in pat (c # s)"
    then obtain l r where "c # s = l @ pat @ r" by (auto simp: occurs_in_def)
    then show "starts_with pat (c # s) \<or> occurs_in pat s"
      by (cases l) (auto simp: occurs_in_def starts_with_ex)
  next
    assume "starts_with pat (c # s) \<or> occurs_in pat s"
    then show "occurs_in pat (c # s)"
    proof
      assume "starts_with pat (c # s)"
      then show ?thesis by (metis append_Nil occurs_in_def starts_with_ex)
    next
      assume "occurs_in pat s"
      then show ?thesis by (metis append_Cons occurs_in_def)
    qed
  qed
  with Cons show ?case by simp
qed

section \<open>Bounded counters\<close>

text \<open>
  Every resource limit of the code is one test, \<open>used > maximum || amount > maximum -
  used\<close>, followed by \<open>used += amount\<close>. \<open>charge\<close> is that test and that
  addition on the counter alone.
\<close>

definition charge :: "nat \<Rightarrow> nat \<Rightarrow> nat \<Rightarrow> nat option" where
  "charge maximum amount used =
     (if used > maximum \<or> amount > maximum - used then None else Some (used + amount))"

lemma charge_Some_iff: "charge maximum amount used = Some u \<longleftrightarrow> used + amount \<le> maximum \<and> u = used + amount"
  by (auto simp: charge_def)

lemma charge_None_iff: "charge maximum amount used = None \<longleftrightarrow> maximum < used + amount"
  by (auto simp: charge_def)

text \<open>
  The interface of a counter kept in a larger state: an operation \<open>consume\<close> that
  charges it or throws, a reader and the limit. What the components promise is that a
  consumption succeeds exactly when the total still fits, that it then adds the amount,
  and that a refused one leaves the counter alone.
\<close>

locale bounded_counter =
  fixes consume :: "nat \<Rightarrow> ('s, unit) eff"
    and used :: "'s \<Rightarrow> nat"
    and maximum :: "'s \<Rightarrow> nat"
  assumes accepts: "used s + n \<le> maximum s \<Longrightarrow>
      \<exists>t. consume n s = (Inr (), t) \<and> used t = used s + n \<and> maximum t = maximum s"
    and refuses: "maximum s < used s + n \<Longrightarrow> \<exists>e. consume n s = (Inl e, s)"
begin

lemma outcome:
  "(used s + n \<le> maximum s \<and> (\<exists>t. consume n s = (Inr (), t) \<and> used t = used s + n \<and> maximum t = maximum s))
   \<or> (maximum s < used s + n \<and> (\<exists>e. consume n s = (Inl e, s)))"
  using accepts [of s n] refuses [of s n] by (cases "used s + n \<le> maximum s") auto

lemma within:
  "used s \<le> maximum s \<Longrightarrow> used (snd (consume n s)) \<le> maximum (snd (consume n s))"
  using outcome [of s n] by auto

lemma mono: "used s \<le> used (snd (consume n s))"
  using outcome [of s n] by auto

lemma accepted_iff: "(\<exists>t. consume n s = (Inr (), t)) \<longleftrightarrow> used s + n \<le> maximum s"
  using outcome [of s n] by auto

lemma accepted_used: "consume n s = (Inr u, t) \<Longrightarrow> used t = used s + n \<and> used t \<le> maximum t"
  using outcome [of s n] by auto

end

end
