(* ===== verification/Stack.thy ===== *)
theory Stack
  imports Prelude
begin

text \<open>
  src/stack.hpp: the installed \<open>Stack\<close> template, a fixed array with a size, in its
  checked configuration (\<open>MUSTACHE_STACK_UNCHECKED\<close> not defined). The locale
  \<open>lifo\<close> is the abstract stack a client relies on; the array implementation is shown
  to provide it, with the list \<open>contents\<close> as the abstraction.
\<close>

section \<open>The array stack\<close>

record 'a stack =
  stk_size :: int
  stk_elems :: "'a list"

definition MAXSIZE :: "'a stack \<Rightarrow> int" where
  "MAXSIZE st = int (length (stk_elems st))"

text \<open>
  The constructor leaves the array as it finds it: \<open>junk\<close> is its initial contents,
  one element per slot.
\<close>

definition stack_new :: "'a list \<Rightarrow> 'a stack" where
  "stack_new junk = \<lparr>stk_size = 0, stk_elems = junk\<rparr>"

definition stack_clear :: "('a stack, unit) eff" where
  "stack_clear = writes (\<lambda>st. st\<lparr>stk_size := 0\<rparr>)"

definition stack_push_back :: "'a \<Rightarrow> ('a stack, unit) eff" where
  "stack_push_back data =
     then_eff (throw_when (\<lambda>st. stk_size st < 0 \<or> stk_size st \<ge> MAXSIZE st)
                (Exception ''Reached max stack size''))
       (writes (\<lambda>st. st\<lparr>stk_elems := (stk_elems st)[nat (stk_size st) := data],
                        stk_size := stk_size st + 1\<rparr>))"

definition stack_back :: "('a stack, 'a) eff" where
  "stack_back =
     then_eff (throw_when (\<lambda>st. stk_size st \<le> 0) (Exception ''Reached bottom of stack''))
       (reads (\<lambda>st. stk_elems st ! nat (stk_size st - 1)))"

definition stack_pop_back :: "('a stack, 'a) eff" where
  "stack_pop_back =
     then_eff (throw_when (\<lambda>st. stk_size st \<le> 0) (Exception ''Reached bottom of stack''))
       (bind_eff stack_back (\<lambda>v.
          then_eff (writes (\<lambda>st. st\<lparr>stk_size := stk_size st - 1\<rparr>)) (ret v)))"

definition stack_backOffset :: "int \<Rightarrow> ('a stack, 'a) eff" where
  "stack_backOffset off =
     then_eff (throw_when (\<lambda>st. off < 0 \<or> stk_size st \<le> off) (Exception ''Reached bottom of stack''))
       (reads (\<lambda>st. stk_elems st ! nat (stk_size st - 1 - off)))"

definition stack_begin :: "'a stack \<Rightarrow> int" where
  "stack_begin st = 0"

definition stack_end :: "'a stack \<Rightarrow> int" where
  "stack_end st = (if stk_size st > 0 then stk_size st - 1 else 0)"

section \<open>Invariant and abstraction\<close>

definition stack_ok :: "'a stack \<Rightarrow> bool" where
  "stack_ok st \<longleftrightarrow> 0 \<le> stk_size st \<and> stk_size st \<le> MAXSIZE st"

text \<open>The elements, the top first.\<close>

definition contents :: "'a stack \<Rightarrow> 'a list" where
  "contents st = rev (take (nat (stk_size st)) (stk_elems st))"

lemma length_contents: "stack_ok st \<Longrightarrow> length (contents st) = nat (stk_size st)"
  by (simp add: stack_ok_def contents_def MAXSIZE_def nat_le_iff)

lemma contents_Cons:
  assumes "stack_ok st" and "0 < stk_size st"
  shows "contents st = stk_elems st ! nat (stk_size st - 1) # contents (st\<lparr>stk_size := stk_size st - 1\<rparr>)"
proof -
  let ?n = "nat (stk_size st - 1)"
  have n: "nat (stk_size st) = Suc ?n" "?n < length (stk_elems st)"
    using assms by (auto simp: stack_ok_def MAXSIZE_def)
  show ?thesis by (simp add: contents_def n take_Suc_conv_app_nth)
qed

lemma contents_nth:
  assumes "stack_ok st" and "0 \<le> off" and "off < stk_size st"
  shows "contents st ! nat off = stk_elems st ! nat (stk_size st - 1 - off)"
proof -
  have "nat off < nat (stk_size st)" and "nat (stk_size st) \<le> length (stk_elems st)"
    and "nat (stk_size st) - Suc (nat off) = nat (stk_size st - 1 - off)"
    using assms by (auto simp: stack_ok_def MAXSIZE_def)
  moreover have "nat (stk_size st - 1 - off) < nat (stk_size st)"
    using assms by simp
  ultimately show ?thesis by (simp add: contents_def rev_nth)
qed

lemma push_back_result:
  assumes "stack_ok st"
  shows "if int (length (contents st)) < MAXSIZE st
         then \<exists>t. stack_push_back x st = (Inr (), t) \<and> stack_ok t
                \<and> contents t = x # contents st \<and> MAXSIZE t = MAXSIZE st
         else stack_push_back x st = (Inl (Exception ''Reached max stack size''), st)"
proof (cases "stk_size st < MAXSIZE st")
  case True
  with assms have n: "0 \<le> stk_size st" "nat (stk_size st) < length (stk_elems st)"
    by (auto simp: stack_ok_def MAXSIZE_def)
  let ?t = "st\<lparr>stk_elems := (stk_elems st)[nat (stk_size st) := x], stk_size := stk_size st + 1\<rparr>"
  have "stack_push_back x st = (Inr (), ?t)"
    using True n by (auto simp: stack_push_back_def eff_defs)
  moreover have "contents ?t = x # contents st"
    using n by (simp add: contents_def nat_add_distrib take_Suc_conv_app_nth)
  moreover have "stack_ok ?t" and "MAXSIZE ?t = MAXSIZE st"
    using True n by (auto simp: stack_ok_def MAXSIZE_def)
  ultimately show ?thesis using True assms n by (simp add: length_contents)
next
  case False
  with assms show ?thesis
    by (auto simp: stack_push_back_def eff_defs length_contents stack_ok_def)
qed

lemma pop_back_result:
  assumes "stack_ok st"
  shows "case contents st of
           [] \<Rightarrow> stack_pop_back st = (Inl (Exception ''Reached bottom of stack''), st)
         | x # xs \<Rightarrow> \<exists>t. stack_pop_back st = (Inr x, t) \<and> stack_ok t
                       \<and> contents t = xs \<and> MAXSIZE t = MAXSIZE st"
proof (cases "0 < stk_size st")
  case True
  with assms contents_Cons [OF assms True] show ?thesis
    by (auto simp: stack_pop_back_def stack_back_def eff_defs stack_ok_def MAXSIZE_def)
next
  case False
  with assms have "contents st = []" by (simp add: contents_def stack_ok_def)
  with False show ?thesis by (simp add: stack_pop_back_def eff_defs)
qed

section \<open>The interface\<close>

locale lifo =
  fixes push :: "'a \<Rightarrow> ('s, unit) eff"
    and pop :: "('s, 'a) eff"
    and view :: "'s \<Rightarrow> 'a list"
    and capacity :: "'s \<Rightarrow> nat"
    and invar :: "'s \<Rightarrow> bool"
  assumes push_ok: "invar s \<Longrightarrow> length (view s) < capacity s \<Longrightarrow>
      \<exists>t. push x s = (Inr (), t) \<and> invar t \<and> view t = x # view s \<and> capacity t = capacity s"
    and push_full: "invar s \<Longrightarrow> capacity s \<le> length (view s) \<Longrightarrow> \<exists>e. push x s = (Inl e, s)"
    and pop_ok: "invar s \<Longrightarrow> view s = x # xs \<Longrightarrow>
      \<exists>t. pop s = (Inr x, t) \<and> invar t \<and> view t = xs \<and> capacity t = capacity s"
begin

fun push_all :: "'a list \<Rightarrow> ('s, unit) eff" where
  "push_all [] = ret ()"
| "push_all (x # xs) = then_eff (push x) (push_all xs)"

fun pop_n :: "nat \<Rightarrow> ('s, 'a list) eff" where
  "pop_n 0 = ret []"
| "pop_n (Suc n) = bind_eff pop (\<lambda>x. bind_eff (pop_n n) (\<lambda>xs. ret (x # xs)))"

lemma push_all_ok:
  "invar s \<Longrightarrow> length (view s) + length xs \<le> capacity s \<Longrightarrow>
     \<exists>t. push_all xs s = (Inr (), t) \<and> invar t \<and> view t = rev xs @ view s \<and> capacity t = capacity s"
proof (induction xs arbitrary: s)
  case Nil
  then show ?case by (simp add: ret_def)
next
  case (Cons x xs)
  then obtain u where u: "push x s = (Inr (), u)" "invar u" "view u = x # view s" "capacity u = capacity s"
    using push_ok [of s x] by auto
  with Cons.prems have "length (view u) + length xs \<le> capacity u" by simp
  from Cons.IH [OF u(2) this] u show ?case by (auto simp: then_eff_def bind_eff_def)
qed

lemma pop_n_ok:
  "invar s \<Longrightarrow> view s = xs @ ys \<Longrightarrow> \<exists>t. pop_n (length xs) s = (Inr xs, t) \<and> invar t \<and> view t = ys"
proof (induction xs arbitrary: s)
  case Nil
  then show ?case by (simp add: ret_def)
next
  case (Cons x xs)
  then obtain u where u: "pop s = (Inr x, u)" "invar u" "view u = xs @ ys"
    using pop_ok [of s x "xs @ ys"] by auto
  from Cons.IH [OF u(2,3)] u(1) show ?case by (auto simp: bind_eff_def ret_def)
qed

lemma push_pop_reverses:
  assumes "invar s" and "length (view s) + length xs \<le> capacity s"
  shows "\<exists>t u. push_all xs s = (Inr (), t) \<and> pop_n (length xs) t = (Inr (rev xs), u) \<and> view u = view s"
  using push_all_ok [OF assms] pop_n_ok by (metis length_rev)

end

interpretation array_stack: lifo stack_push_back stack_pop_back contents "\<lambda>st. nat (MAXSIZE st)" stack_ok
proof unfold_locales
  fix s :: "'a stack" and x
  assume ok: "stack_ok s"
  show "length (contents s) < nat (MAXSIZE s) \<Longrightarrow>
      \<exists>t. stack_push_back x s = (Inr (), t) \<and> stack_ok t \<and> contents t = x # contents s
        \<and> nat (MAXSIZE t) = nat (MAXSIZE s)"
    using push_back_result [OF ok, of x] by (auto split: if_splits)
  show "nat (MAXSIZE s) \<le> length (contents s) \<Longrightarrow> \<exists>e. stack_push_back x s = (Inl e, s)"
    using push_back_result [OF ok, of x] by (auto split: if_splits)
  fix xs
  show "contents s = x # xs \<Longrightarrow>
      \<exists>t. stack_pop_back s = (Inr x, t) \<and> stack_ok t \<and> contents t = xs \<and> nat (MAXSIZE t) = nat (MAXSIZE s)"
    using pop_back_result [OF ok] by auto
qed

text \<open>
  Elements pushed onto the array stack, as many as fit, come back in reverse order,
  and the rest of the stack is as before.
\<close>

theorem stack_push_pop:
  assumes "stack_ok st" and "int (length (contents st) + length xs) \<le> MAXSIZE st"
  shows "\<exists>t u. array_stack.push_all xs st = (Inr (), t)
    \<and> array_stack.pop_n (length xs) t = (Inr (rev xs), u) \<and> contents u = contents st"
  using assms by (intro array_stack.push_pop_reverses) auto

theorem stack_push_pop_witness:
  "\<exists>t u. array_stack.push_all [1, 2::nat] (stack_new [0, 0, 0]) = (Inr (), t)
    \<and> array_stack.pop_n (length [1, 2::nat]) t = (Inr (rev [1, 2]), u)"
  using stack_push_pop [of "stack_new [0, 0, 0]" "[1, 2::nat]"]
  by (auto simp: stack_ok_def stack_new_def MAXSIZE_def contents_def)

end
