(* ===== verification/Data.thy ===== *)
theory Data
  imports Prelude
begin

text \<open>
  The render data of src/data.hpp and src/data.cpp: the variant, the compatibility
  initialiser, the accessors with their type checks, scalar conversion, and the container
  operations. A map is an association list with at most one entry per key
  (\<open>data_ok\<close>); nothing in the library depends on the iteration order of the code's
  \<open>unordered_map\<close>. Integers are 64-bit words read as signed. A double is its bit
  pattern with the spelling the parser recorded for it; the standard library's shortest
  formatting is the parameter \<open>to_chars\<close>. A lambda is its identity, or a null
  \<open>shared_ptr\<close>; what it does when called is in Lambda.
\<close>

section \<open>Values\<close>

datatype data =
    DNone
  | DString string
  | DList "data list"
  | DMap "(string \<times> data) list"
  | DArray "data list"
  | DLambda "nat option"
  | DBoolean bool
  | DInteger "64 word"
  | DDouble "64 word" string

datatype data_type =
    DTypeNone | DTypeString | DTypeList | DTypeMap | DTypeArray | DTypeLambda | DTypeBoolean
  | DTypeInteger | DTypeDouble

text \<open>\<open>Data::type\<close>; a moved-from value has no storage, and is a null value too.\<close>

fun type_of_data :: "data \<Rightarrow> data_type" where
  "type_of_data DNone = DTypeNone"
| "type_of_data (DString s) = DTypeString"
| "type_of_data (DList ds) = DTypeList"
| "type_of_data (DMap m) = DTypeMap"
| "type_of_data (DArray ds) = DTypeArray"
| "type_of_data (DLambda l) = DTypeLambda"
| "type_of_data (DBoolean b) = DTypeBoolean"
| "type_of_data (DInteger i) = DTypeInteger"
| "type_of_data (DDouble d spelling) = DTypeDouble"

fun typeDescription :: "data_type \<Rightarrow> string" where
  "typeDescription DTypeNone = ''null''"
| "typeDescription DTypeString = ''string''"
| "typeDescription DTypeList = ''list''"
| "typeDescription DTypeMap = ''object''"
| "typeDescription DTypeArray = ''array''"
| "typeDescription DTypeLambda = ''lambda''"
| "typeDescription DTypeBoolean = ''boolean''"
| "typeDescription DTypeInteger = ''integer''"
| "typeDescription DTypeDouble = ''floating-point''"

text \<open>
  \<open>makeStorage\<close>: the size only reserves capacity. The argument is the number of the
  enumerator, since a caller may cast any integer to it.
\<close>

definition makeStorage :: "int \<Rightarrow> int \<Rightarrow> data result" where
  "makeStorage ty sz =
     (if sz < 0 then Inl (Exception ''Invalid data size'')
      else if ty = 0 then Inr DNone
      else if ty = 1 then Inr (DString [])
      else if ty = 2 then Inr (DList [])
      else if ty = 3 then Inr (DMap [])
      else if ty = 4 then Inr (DArray [])
      else if ty = 5 then Inr (DLambda None)
      else if ty = 6 then Inr (DBoolean False)
      else if ty = 7 then Inr (DInteger 0)
      else if ty = 8 then Inr (DDouble 0 [])
      else Inl (Exception ''Unknown data type''))"

text \<open>\<open>init\<close> replaces the value only when the storage could be made.\<close>

definition data_init :: "int \<Rightarrow> int \<Rightarrow> data \<Rightarrow> unit result \<times> data" where
  "data_init ty sz d =
     (case makeStorage ty sz of Inl e \<Rightarrow> (Inl e, d) | Inr d' \<Rightarrow> (Inr (), d'))"

text \<open>\<open>std::isfinite\<close>: the eleven exponent bits are not all ones.\<close>

definition isfinite :: "64 word \<Rightarrow> bool" where
  "isfinite d \<longleftrightarrow> take_bit 11 (drop_bit 52 (unat d)) \<noteq> 2047"

definition data_floating :: "64 word \<Rightarrow> data result" where
  "data_floating d =
     (if \<not> isfinite d then Inl (Exception ''Invalid floating-point data'') else Inr (DDouble d []))"

definition parsedFloating :: "64 word \<Rightarrow> string \<Rightarrow> data result" where
  "parsedFloating d spelling =
     bind_result (data_floating d) (\<lambda>_. Inr (DDouble d spelling))"

definition sharedLambda :: "nat option \<Rightarrow> data result" where
  "sharedLambda l =
     (if l = None then Inl (Exception ''Empty lambda data'') else Inr (DLambda l))"

section \<open>Accessors\<close>

fun isEmpty :: "data \<Rightarrow> bool" where
  "isEmpty DNone = True"
| "isEmpty (DString s) = (s = [])"
| "isEmpty (DList ds) = (ds = [])"
| "isEmpty (DMap m) = (m = [])"
| "isEmpty (DArray ds) = (ds = [])"
| "isEmpty (DLambda l) = (l = None)"
| "isEmpty (DBoolean b) = (\<not> b)"
| "isEmpty (DInteger i) = False"
| "isEmpty (DDouble d spelling) = False"

definition requireStorage :: "data_type \<Rightarrow> string \<Rightarrow> data \<Rightarrow> data result" where
  "requireStorage expected description d =
     (if type_of_data d \<noteq> expected then Inl (Exception (''Data is not '' @ description)) else Inr d)"

definition stringValue :: "data \<Rightarrow> string result" where
  "stringValue d = bind_result (requireStorage DTypeString ''a string'' d)
     (\<lambda>d. case d of DString s \<Rightarrow> Inr s | _ \<Rightarrow> Inr [])"

definition booleanValue :: "data \<Rightarrow> bool result" where
  "booleanValue d = bind_result (requireStorage DTypeBoolean ''a boolean'' d)
     (\<lambda>d. case d of DBoolean b \<Rightarrow> Inr b | _ \<Rightarrow> Inr False)"

definition integerValue :: "data \<Rightarrow> 64 word result" where
  "integerValue d = bind_result (requireStorage DTypeInteger ''an integer'' d)
     (\<lambda>d. case d of DInteger i \<Rightarrow> Inr i | _ \<Rightarrow> Inr 0)"

definition floatingValue :: "data \<Rightarrow> 64 word result" where
  "floatingValue d = bind_result (requireStorage DTypeDouble ''a floating-point number'' d)
     (\<lambda>d. case d of DDouble x spelling \<Rightarrow> Inr x | _ \<Rightarrow> Inr 0)"

definition listItems :: "data \<Rightarrow> data list result" where
  "listItems d = bind_result (requireStorage DTypeList ''a list'' d)
     (\<lambda>d. case d of DList ds \<Rightarrow> Inr ds | _ \<Rightarrow> Inr [])"

definition arrayItems :: "data \<Rightarrow> data list result" where
  "arrayItems d = bind_result (requireStorage DTypeArray ''an array'' d)
     (\<lambda>d. case d of DArray ds \<Rightarrow> Inr ds | _ \<Rightarrow> Inr [])"

definition objectItems :: "data \<Rightarrow> (string \<times> data) list result" where
  "objectItems d = bind_result (requireStorage DTypeMap ''an object'' d)
     (\<lambda>d. case d of DMap m \<Rightarrow> Inr m | _ \<Rightarrow> Inr [])"

definition lambdaValue :: "data \<Rightarrow> nat option" where
  "lambdaValue d = (case d of DLambda l \<Rightarrow> l | _ \<Rightarrow> None)"

fun toString :: "(64 word \<Rightarrow> string) \<Rightarrow> data \<Rightarrow> string result" where
  "toString to_chars DNone = Inr []"
| "toString to_chars (DString s) = Inr s"
| "toString to_chars (DBoolean b) = Inr (if b then ''true'' else [])"
| "toString to_chars (DInteger i) = Inr (show_int (sint i))"
| "toString to_chars (DDouble d spelling) = Inr (if spelling \<noteq> [] then spelling else to_chars d)"
| "toString to_chars d =
     Inl (Exception (''Cannot render '' @ typeDescription (type_of_data d) @ '' data as a scalar''))"

section \<open>Containers\<close>

fun insert_or_assign :: "'k \<Rightarrow> 'v \<Rightarrow> ('k \<times> 'v) list \<Rightarrow> ('k \<times> 'v) list" where
  "insert_or_assign k v [] = [(k, v)]"
| "insert_or_assign k v ((k', v') # m) =
     (if k = k' then (k, v) # m else (k', v') # insert_or_assign k v m)"

definition data_set :: "string \<Rightarrow> data \<Rightarrow> data \<Rightarrow> data result" where
  "data_set key value d =
     bind_result (objectItems d) (\<lambda>m. Inr (DMap (insert_or_assign key value m)))"

definition data_push_back :: "data \<Rightarrow> data \<Rightarrow> data result" where
  "data_push_back value d =
     (case d of
        DList ds \<Rightarrow> Inr (DList (ds @ [value]))
      | DArray ds \<Rightarrow> Inr (DArray (ds @ [value]))
      | _ \<Rightarrow> Inl (Exception ''Data is not a list or array''))"

definition data_find :: "string \<Rightarrow> data \<Rightarrow> data option" where
  "data_find key d = (case d of DMap m \<Rightarrow> map_of m key | _ \<Rightarrow> None)"

section \<open>Invariant and laws\<close>

text \<open>A key has one value at each level.\<close>

fun data_ok :: "data \<Rightarrow> bool" where
  "data_ok (DList ds) = list_all data_ok ds"
| "data_ok (DArray ds) = list_all data_ok ds"
| "data_ok (DMap m) = (distinct (map fst m) \<and> list_all data_ok (map snd m))"
| "data_ok _ = True"

lemma map_of_insert_or_assign: "map_of (insert_or_assign k v m) = (map_of m)(k \<mapsto> v)"
  by (induction m) auto

lemma keys_insert_or_assign: "fst ` set (insert_or_assign k v m) = insert k (fst ` set m)"
  by (induction m rule: insert_or_assign.induct) auto

lemma distinct_insert_or_assign:
  "distinct (map fst m) \<Longrightarrow> distinct (map fst (insert_or_assign k v m))"
proof (induction m)
  case (Cons kv m)
  then show ?case
    using keys_insert_or_assign [of k v m] by (cases kv) (auto simp flip: set_map)
qed simp

lemma values_insert_or_assign:
  "list_all P (map snd m) \<Longrightarrow> P v \<Longrightarrow> list_all P (map snd (insert_or_assign k v m))"
  by (induction m) auto

text \<open>
  The interface of a string map: what a lookup finds after an insertion. The render data
  and every other keyed table of the library provide it.
\<close>

locale keyed_map =
  fixes lookup :: "'k \<Rightarrow> 'm \<Rightarrow> 'v option"
    and insert_kv :: "'k \<Rightarrow> 'v \<Rightarrow> 'm \<Rightarrow> 'm"
    and invar :: "'m \<Rightarrow> bool"
  assumes lookup_insert: "invar m \<Longrightarrow> lookup k (insert_kv k' v m) = (if k = k' then Some v else lookup k m)"
    and insert_invar: "invar m \<Longrightarrow> invar (insert_kv k v m)"
begin

definition insert_all :: "('k \<times> 'v) list \<Rightarrow> 'm \<Rightarrow> 'm" where
  "insert_all kvs m = fold (\<lambda>(k, v). insert_kv k v) kvs m"

lemma insert_all_invar: "invar m \<Longrightarrow> invar (insert_all kvs m)"
  unfolding insert_all_def by (induction kvs arbitrary: m) (auto simp: insert_invar)

lemma lookup_insert_all:
  "invar m \<Longrightarrow> lookup k (insert_all kvs m) =
     (case map_of (rev kvs) k of None \<Rightarrow> lookup k m | Some v \<Rightarrow> Some v)"
proof (induction kvs arbitrary: m)
  case Nil
  then show ?case by (simp add: insert_all_def)
next
  case (Cons kv kvs)
  obtain k' v where kv: "kv = (k', v)" by (cases kv)
  have "lookup k (insert_all (kv # kvs) m) = lookup k (insert_all kvs (insert_kv k' v m))"
    by (simp add: insert_all_def kv)
  also have "\<dots> = (case map_of (rev kvs) k of None \<Rightarrow> lookup k (insert_kv k' v m) | Some w \<Rightarrow> Some w)"
    using Cons insert_invar by blast
  finally show ?case
    using Cons.prems by (auto simp: kv lookup_insert map_add_def split: option.splits)
qed

lemma insert_idem: "invar m \<Longrightarrow> lookup k (insert_kv k' v (insert_kv k' w m)) = lookup k (insert_kv k' v m)"
  by (simp add: lookup_insert insert_invar)

end

interpretation assoc_map: keyed_map "\<lambda>k m. map_of m k" insert_or_assign "\<lambda>m. distinct (map fst m)"
  by unfold_locales (auto simp: map_of_insert_or_assign distinct_insert_or_assign)

lemma data_set_ok:
  "data_ok d \<Longrightarrow> data_ok v \<Longrightarrow> data_set k v d = Inr d' \<Longrightarrow> data_ok d'"
  by (cases d) (auto simp: data_set_def objectItems_def requireStorage_def
      distinct_insert_or_assign values_insert_or_assign)

lemma data_push_back_ok:
  "data_ok d \<Longrightarrow> data_ok v \<Longrightarrow> data_push_back v d = Inr d' \<Longrightarrow> data_ok d'"
  by (cases d) (auto simp: data_push_back_def)

text \<open>
  After a successful \<open>set\<close>, \<open>find\<close> returns the new value for that key and
  what it returned before for every other key; \<open>set\<close> succeeds exactly on objects.
\<close>

theorem data_set_find:
  "(type_of_data d = DTypeMap) = (\<exists>d'. data_set k v d = Inr d'
     \<and> (\<forall>k'. data_find k' d' = (if k' = k then Some v else data_find k' d)))"
  by (cases d) (auto simp: data_set_def objectItems_def requireStorage_def data_find_def
      map_of_insert_or_assign)

end
