(* ===== verification/Data_Object.thy ===== *)
theory Data_Object
  imports Data
begin

text \<open>
  \<open>Data\<close> as an object, from src/data.cpp: a pointer to its storage that is null once the object
  was moved from. Objects are copied, moved, assigned and swapped; every operation of Data has
  its counterpart here, and what an object stands for, \<open>value_of\<close>, is the value the rest of the
  development works with. \<open>std::to_chars\<close> writes into a buffer of 64 characters.
\<close>

section \<open>Objects\<close>

datatype 'o storage_value =
    VNone
  | VString string
  | VList "'o list"
  | VMap "(string \<times> 'o) list"
  | VArray "'o list"
  | VLambda "nat option"
  | VBoolean bool
  | VInteger "64 word"
  | VDouble "64 word"

text \<open>A null pointer, or a storage with its value and the spelling of a parsed number.\<close>

datatype data_object = MovedFrom | Storage "data_object storage_value" string

definition storage_type :: "'o storage_value \<Rightarrow> data_type" where
  "storage_type v =
     (case v of VNone \<Rightarrow> DTypeNone | VString _ \<Rightarrow> DTypeString | VList _ \<Rightarrow> DTypeList | VMap _ \<Rightarrow> DTypeMap
      | VArray _ \<Rightarrow> DTypeArray | VLambda _ \<Rightarrow> DTypeLambda | VBoolean _ \<Rightarrow> DTypeBoolean
      | VInteger _ \<Rightarrow> DTypeInteger | VDouble _ \<Rightarrow> DTypeDouble)"

definition object_type :: "data_object \<Rightarrow> data_type" where
  "object_type d = (case d of MovedFrom \<Rightarrow> DTypeNone | Storage v _ \<Rightarrow> storage_type v)"

section \<open>Construction\<close>

definition new_data :: data_object where
  "new_data = Storage VNone []"

definition object_null :: data_object where "object_null = new_data"

definition object_boolean :: "bool \<Rightarrow> data_object" where "object_boolean v = Storage (VBoolean v) []"

definition object_integer :: "64 word \<Rightarrow> data_object" where "object_integer v = Storage (VInteger v) []"

definition object_floating :: "64 word \<Rightarrow> data_object result" where
  "object_floating v =
     (if \<not> isfinite v then Inl (Exception ''Invalid floating-point data'') else Inr (Storage (VDouble v) []))"

definition set_spelling :: "string \<Rightarrow> data_object \<Rightarrow> data_object" where
  "set_spelling spelling d = (case d of MovedFrom \<Rightarrow> MovedFrom | Storage v _ \<Rightarrow> Storage v spelling)"

definition object_parsedFloating :: "64 word \<Rightarrow> string \<Rightarrow> data_object result" where
  "object_parsedFloating v spelling =
     bind_result (object_floating v) (\<lambda>parsed. Inr (set_spelling spelling parsed))"

definition object_string :: "string \<Rightarrow> data_object" where "object_string v = Storage (VString v) []"

definition object_list :: "data_object list \<Rightarrow> data_object" where "object_list vs = Storage (VList vs) []"

definition object_array :: "data_object list \<Rightarrow> data_object" where "object_array vs = Storage (VArray vs) []"

definition object_object :: "(string \<times> data_object) list \<Rightarrow> data_object" where "object_object vs = Storage (VMap vs) []"

definition object_sharedLambda :: "nat option \<Rightarrow> data_object result" where
  "object_sharedLambda l =
     (if l = None then Inl (Exception ''Empty lambda data'') else Inr (Storage (VLambda l) []))"

definition object_makeStorage :: "int \<Rightarrow> int \<Rightarrow> data_object result" where
  "object_makeStorage ty sz =
     (if sz < 0 then Inl (Exception ''Invalid data size'')
      else if ty = 0 then Inr (Storage VNone [])
      else if ty = 1 then Inr (Storage (VString []) [])
      else if ty = 2 then Inr (Storage (VList []) [])
      else if ty = 3 then Inr (Storage (VMap []) [])
      else if ty = 4 then Inr (Storage (VArray []) [])
      else if ty = 5 then Inr (Storage (VLambda None) [])
      else if ty = 6 then Inr (Storage (VBoolean False) [])
      else if ty = 7 then Inr (Storage (VInteger 0) [])
      else if ty = 8 then Inr (Storage (VDouble 0) [])
      else Inl (Exception ''Unknown data type''))"

definition new_typed_data :: "int \<Rightarrow> int \<Rightarrow> data_object result" where
  "new_typed_data ty sz = object_makeStorage ty sz"

text \<open>
  The copy of an object that was moved from is a null value with a storage. The copy of a
  container copies its elements, so no element of a copy lacks a storage.
\<close>

primrec data_copy :: "data_object \<Rightarrow> data_object" where
  "data_copy MovedFrom = new_data"
| "data_copy (Storage v spelling) = Storage (map_storage_value data_copy v) spelling"

section \<open>Objects in memory\<close>

text \<open>
  Objects by address, none of them part of another. \<open>move_from\<close> constructs an object from one that
  is left without a storage; assigning an object to itself changes nothing, moved or copied.
\<close>

type_synonym objects = "nat \<Rightarrow> data_object"

definition move_from :: "nat \<Rightarrow> objects \<Rightarrow> data_object \<times> objects" where
  "move_from other m = (m other, m(other := MovedFrom))"

definition object_swap :: "nat \<Rightarrow> nat \<Rightarrow> objects \<Rightarrow> objects" where
  "object_swap this other m = m(this := m other, other := m this)"

definition copy_assign :: "nat \<Rightarrow> nat \<Rightarrow> objects \<Rightarrow> objects" where
  "copy_assign this other m = (if this \<noteq> other then let copy = data_copy (m other) in m(this := copy) else m)"

definition move_assign :: "nat \<Rightarrow> nat \<Rightarrow> objects \<Rightarrow> objects" where
  "move_assign this other m = (case move_from other m of (d, m') \<Rightarrow> m'(this := d))"

definition object_init :: "int \<Rightarrow> int \<Rightarrow> nat \<Rightarrow> (objects, unit) eff" where
  "object_init ty sz this m =
     (case object_makeStorage ty sz of Inl e \<Rightarrow> (Inl e, m) | Inr replacement \<Rightarrow> (Inr (), m(this := replacement)))"

section \<open>Accessors\<close>

definition object_isEmpty :: "data_object \<Rightarrow> bool" where
  "object_isEmpty d =
     (case d of
        MovedFrom \<Rightarrow> True
      | Storage v _ \<Rightarrow>
          (case v of VNone \<Rightarrow> True | VString s \<Rightarrow> s = [] | VList ds \<Rightarrow> ds = [] | VMap ds \<Rightarrow> ds = [] | VArray ds \<Rightarrow> ds = []
           | VLambda l \<Rightarrow> l = None | VBoolean b \<Rightarrow> \<not> b | VInteger _ \<Rightarrow> False | VDouble _ \<Rightarrow> False))"

text \<open>The storage of the expected type; an object without a storage has no type but null.\<close>

definition object_requireStorage :: "data_type \<Rightarrow> string \<Rightarrow> data_object \<Rightarrow> data_object storage_value result" where
  "object_requireStorage expected description d =
     (if object_type d \<noteq> expected then Inl (Exception (''Data is not '' @ description))
      else case d of Storage v _ \<Rightarrow> Inr v | MovedFrom \<Rightarrow> Inr VNone)"

definition object_stringValue :: "data_object \<Rightarrow> string result" where
  "object_stringValue d = bind_result (object_requireStorage DTypeString ''a string'' d)
     (\<lambda>v. case v of VString s \<Rightarrow> Inr s | _ \<Rightarrow> Inr [])"

definition object_booleanValue :: "data_object \<Rightarrow> bool result" where
  "object_booleanValue d = bind_result (object_requireStorage DTypeBoolean ''a boolean'' d)
     (\<lambda>v. case v of VBoolean b \<Rightarrow> Inr b | _ \<Rightarrow> Inr False)"

definition object_integerValue :: "data_object \<Rightarrow> 64 word result" where
  "object_integerValue d = bind_result (object_requireStorage DTypeInteger ''an integer'' d)
     (\<lambda>v. case v of VInteger i \<Rightarrow> Inr i | _ \<Rightarrow> Inr 0)"

definition object_floatingValue :: "data_object \<Rightarrow> 64 word result" where
  "object_floatingValue d = bind_result (object_requireStorage DTypeDouble ''a floating-point number'' d)
     (\<lambda>v. case v of VDouble x \<Rightarrow> Inr x | _ \<Rightarrow> Inr 0)"

definition object_listItems :: "data_object \<Rightarrow> data_object list result" where
  "object_listItems d = bind_result (object_requireStorage DTypeList ''a list'' d)
     (\<lambda>v. case v of VList ds \<Rightarrow> Inr ds | _ \<Rightarrow> Inr [])"

definition object_arrayItems :: "data_object \<Rightarrow> data_object list result" where
  "object_arrayItems d = bind_result (object_requireStorage DTypeArray ''an array'' d)
     (\<lambda>v. case v of VArray ds \<Rightarrow> Inr ds | _ \<Rightarrow> Inr [])"

definition object_objectItems :: "data_object \<Rightarrow> (string \<times> data_object) list result" where
  "object_objectItems d = bind_result (object_requireStorage DTypeMap ''an object'' d)
     (\<lambda>v. case v of VMap ds \<Rightarrow> Inr ds | _ \<Rightarrow> Inr [])"

definition object_lambdaValue :: "data_object \<Rightarrow> nat option" where
  "object_lambdaValue d = (case d of Storage (VLambda l) _ \<Rightarrow> l | _ \<Rightarrow> None)"

datatype to_chars_result = ToCharsOk string | ToCharsTooLarge | ToCharsError

definition formatFloating :: "(64 word \<Rightarrow> nat \<Rightarrow> to_chars_result) \<Rightarrow> 64 word \<Rightarrow> string result" where
  "formatFloating to_chars v =
     (case to_chars v 64 of
        ToCharsTooLarge \<Rightarrow> Inl (Exception ''Floating-point formatting buffer is too small'')
      | ToCharsError \<Rightarrow> Inl (Exception ''Failed to format floating-point data'')
      | ToCharsOk text \<Rightarrow> Inr text)"

definition object_toString :: "(64 word \<Rightarrow> nat \<Rightarrow> to_chars_result) \<Rightarrow> data_object \<Rightarrow> string result" where
  "object_toString to_chars d =
     (case object_type d of
        DTypeNone \<Rightarrow> Inr []
      | DTypeString \<Rightarrow> object_stringValue d
      | DTypeBoolean \<Rightarrow> bind_result (object_booleanValue d) (\<lambda>b. Inr (if b then ''true'' else []))
      | DTypeInteger \<Rightarrow> bind_result (object_integerValue d) (\<lambda>i. Inr (show_int (sint i)))
      | DTypeDouble \<Rightarrow>
          (case d of
             Storage _ spelling \<Rightarrow>
               if spelling \<noteq> [] then Inr spelling else bind_result (object_floatingValue d) (formatFloating to_chars)
           | MovedFrom \<Rightarrow> Inr [])
      | ty \<Rightarrow> Inl (Exception (''Cannot render '' @ typeDescription ty @ '' data as a scalar'')))"

section \<open>Containers\<close>

text \<open>The argument was constructed before the call; the object keeps its own spelling.\<close>

definition with_value :: "data_object storage_value \<Rightarrow> data_object \<Rightarrow> data_object" where
  "with_value v d = (case d of MovedFrom \<Rightarrow> MovedFrom | Storage _ spelling \<Rightarrow> Storage v spelling)"

definition object_set :: "string \<Rightarrow> data_object \<Rightarrow> data_object \<Rightarrow> data_object result" where
  "object_set key value d =
     bind_result (object_objectItems d) (\<lambda>ds. Inr (with_value (VMap (insert_or_assign key value ds)) d))"

definition object_push_back :: "data_object \<Rightarrow> data_object \<Rightarrow> data_object result" where
  "object_push_back value d =
     (if object_type d = DTypeList
      then bind_result (object_listItems d) (\<lambda>ds. Inr (with_value (VList (ds @ [value])) d))
      else if object_type d = DTypeArray
      then bind_result (object_arrayItems d) (\<lambda>ds. Inr (with_value (VArray (ds @ [value])) d))
      else Inl (Exception ''Data is not a list or array''))"

definition object_find :: "string \<Rightarrow> data_object \<Rightarrow> data_object option" where
  "object_find key d = (case d of Storage (VMap ds) _ \<Rightarrow> map_of ds key | _ \<Rightarrow> None)"

section \<open>What an object stands for\<close>

text \<open>An object without a storage is a null value; a spelling matters for floating-point values only.\<close>

definition value_of_storage :: "data storage_value \<Rightarrow> string \<Rightarrow> data" where
  "value_of_storage v spelling =
     (case v of VNone \<Rightarrow> DNone | VString s \<Rightarrow> DString s | VList ds \<Rightarrow> DList ds | VMap ds \<Rightarrow> DMap ds | VArray ds \<Rightarrow> DArray ds
      | VLambda l \<Rightarrow> DLambda l | VBoolean b \<Rightarrow> DBoolean b | VInteger i \<Rightarrow> DInteger i | VDouble x \<Rightarrow> DDouble x spelling)"

primrec value_of :: "data_object \<Rightarrow> data" where
  "value_of MovedFrom = DNone"
| "value_of (Storage v spelling) = value_of_storage (map_storage_value value_of v) spelling"

named_theorems object_values "operations on objects and the values they stand for"

lemma value_of_copy [object_values]: "value_of (data_copy d) = value_of d"
proof (induction d)
  case (Storage v spelling)
  then have "map_storage_value (value_of \<circ> data_copy) v = map_storage_value value_of v"
    by (intro storage_value.map_cong0) simp
  then show ?case by (simp add: storage_value.map_comp)
qed (simp add: new_data_def value_of_storage_def)

text \<open>Every part of a copy has a storage.\<close>

inductive complete :: "data_object \<Rightarrow> bool" where
  complete_storage: "(\<And>d. d \<in> set_storage_value v \<Longrightarrow> complete d) \<Longrightarrow> complete (Storage v spelling)"

lemma copy_complete: "complete (data_copy d)"
proof (induction d)
  case MovedFrom
  show ?case by (auto simp: new_data_def intro!: complete_storage)
next
  case (Storage v spelling)
  then show ?case by (auto simp: storage_value.set_map intro!: complete_storage)
qed

lemmas object_defs = object_type_def storage_type_def value_of_storage_def object_requireStorage_def requireStorage_def
  with_value_def

lemma value_type [object_values]: "type_of_data (value_of d) = object_type d"
  by (cases d) (auto simp: object_defs split: storage_value.split)

lemma value_isEmpty [object_values]: "isEmpty (value_of d) = object_isEmpty d"
  by (cases d) (auto simp: object_isEmpty_def object_defs split: storage_value.split)

lemma value_accessors [object_values]:
  "stringValue (value_of d) = object_stringValue d"
  "booleanValue (value_of d) = object_booleanValue d"
  "integerValue (value_of d) = object_integerValue d"
  "floatingValue (value_of d) = object_floatingValue d"
  "lambdaValue (value_of d) = object_lambdaValue d"
  by (cases d; auto simp: object_stringValue_def stringValue_def object_booleanValue_def booleanValue_def
      object_integerValue_def integerValue_def object_floatingValue_def floatingValue_def object_lambdaValue_def
      lambdaValue_def object_defs split: storage_value.split)+

lemma value_items [object_values]:
  "listItems (value_of d) = map_sum id (map value_of) (object_listItems d)"
  "arrayItems (value_of d) = map_sum id (map value_of) (object_arrayItems d)"
  "objectItems (value_of d) = map_sum id (map (map_prod id value_of)) (object_objectItems d)"
  by (cases d; auto simp: object_listItems_def listItems_def object_arrayItems_def arrayItems_def
      object_objectItems_def objectItems_def object_defs split: storage_value.split)+

lemma value_toString [object_values]:
  assumes "\<And>x. to_chars x 64 = ToCharsOk (shortest x)"
  shows "toString shortest (value_of d) = object_toString to_chars d"
  by (cases d) (auto simp: object_toString_def object_defs object_stringValue_def object_booleanValue_def
      object_integerValue_def object_floatingValue_def formatFloating_def assms split: storage_value.split)

lemma value_insert: "map (map_prod id f) (insert_or_assign k v m) = insert_or_assign k (f v) (map (map_prod id f) m)"
  by (induction m rule: insert_or_assign.induct) auto

lemma value_map_of: "map_of (map (map_prod id f) m) k = map_option f (map_of m k)"
  by (induction m) auto

lemma value_set [object_values]: "map_sum id value_of (object_set key v d) = data_set key (value_of v) (value_of d)"
  by (cases d) (auto simp: object_set_def data_set_def object_objectItems_def objectItems_def object_defs value_insert
      split: storage_value.split)

lemma value_push_back [object_values]: "map_sum id value_of (object_push_back v d) = data_push_back (value_of v) (value_of d)"
  by (cases d) (auto simp: object_push_back_def data_push_back_def object_listItems_def object_arrayItems_def object_defs
      split: storage_value.split)

lemma value_find [object_values]: "map_option value_of (object_find key d) = data_find key (value_of d)"
  by (cases d) (auto simp: object_find_def data_find_def object_defs value_map_of split: storage_value.split)

lemma value_makeStorage [object_values]:
  "map_sum id value_of (object_makeStorage ty sz) = makeStorage ty sz"
  "map_sum id value_of (new_typed_data ty sz) = makeStorage ty sz"
  by (simp_all add: new_typed_data_def object_makeStorage_def makeStorage_def value_of_storage_def)

lemma value_factories [object_values]:
  "value_of new_data = DNone" "value_of object_null = DNone" "value_of (object_boolean b) = DBoolean b"
  "value_of (object_integer i) = DInteger i" "value_of (object_string t) = DString t"
  "value_of (object_list ds) = DList (map value_of ds)" "value_of (object_array ds) = DArray (map value_of ds)"
  "value_of (object_object kvs) = DMap (map (map_prod id value_of) kvs)"
  "map_sum id value_of (object_floating x) = data_floating x"
  "map_sum id value_of (object_parsedFloating x spelling) = parsedFloating x spelling"
  "map_sum id value_of (object_sharedLambda l) = sharedLambda l"
  by (simp_all add: new_data_def object_null_def object_boolean_def object_integer_def object_string_def object_list_def
      object_array_def object_object_def object_floating_def object_parsedFloating_def object_sharedLambda_def data_floating_def
      parsedFloating_def sharedLambda_def set_spelling_def value_of_storage_def map_prod_def split_beta)

section \<open>Sequences of calls\<close>

text \<open>
  What a program does with objects at addresses: it assigns, swaps and initialises them, puts
  one into another, by copy or moved, and asks what they are. \<open>Make\<close> assigns an object some
  factory returned. The argument of \<open>set\<close> and \<open>push_back\<close> is constructed before the call, so an
  object that was moved into the argument is empty by then, even when the call throws.
\<close>

datatype object_call =
    Make nat data_object
  | CopyAssign nat nat
  | MoveAssign nat nat
  | Swap nat nat
  | Init nat int int
  | SetCopy nat string nat
  | SetMove nat string nat
  | PushCopy nat nat
  | PushMove nat nat
  | AskType nat
  | AskEmpty nat
  | AskText nat
  | AskString nat
  | AskFind nat string

datatype answer = Done | TypeIs data_type | EmptyIs bool | TextIs string | FoundIs "data option"

definition update_result :: "nat \<Rightarrow> (nat \<Rightarrow> 'd) \<Rightarrow> 'd result \<Rightarrow> answer result \<times> (nat \<Rightarrow> 'd)" where
  "update_result this m r = (case r of Inl e \<Rightarrow> (Inl e, m) | Inr d \<Rightarrow> (Inr Done, m(this := d)))"

fun object_step :: "(64 word \<Rightarrow> nat \<Rightarrow> to_chars_result) \<Rightarrow> object_call \<Rightarrow> (objects, answer) eff" where
  "object_step to_chars (Make a d) m = (Inr Done, m(a := d))"
| "object_step to_chars (CopyAssign a b) m = (Inr Done, copy_assign a b m)"
| "object_step to_chars (MoveAssign a b) m = (Inr Done, move_assign a b m)"
| "object_step to_chars (Swap a b) m = (Inr Done, object_swap a b m)"
| "object_step to_chars (Init a ty sz) m = (case object_init ty sz a m of (r, m') \<Rightarrow> (map_sum id (\<lambda>_. Done) r, m'))"
| "object_step to_chars (SetCopy a key b) m = update_result a m (object_set key (data_copy (m b)) (m a))"
| "object_step to_chars (SetMove a key b) m =
     (case move_from b m of (v, m') \<Rightarrow> update_result a m' (object_set key v (m' a)))"
| "object_step to_chars (PushCopy a b) m = update_result a m (object_push_back (data_copy (m b)) (m a))"
| "object_step to_chars (PushMove a b) m =
     (case move_from b m of (v, m') \<Rightarrow> update_result a m' (object_push_back v (m' a)))"
| "object_step to_chars (AskType a) m = (Inr (TypeIs (object_type (m a))), m)"
| "object_step to_chars (AskEmpty a) m = (Inr (EmptyIs (object_isEmpty (m a))), m)"
| "object_step to_chars (AskText a) m = (map_sum id TextIs (object_toString to_chars (m a)), m)"
| "object_step to_chars (AskString a) m = (map_sum id TextIs (object_stringValue (m a)), m)"
| "object_step to_chars (AskFind a key) m = (Inr (FoundIs (map_option value_of (object_find key (m a)))), m)"

text \<open>The same on values, which are copied and never absent.\<close>

fun value_step :: "(64 word \<Rightarrow> string) \<Rightarrow> object_call \<Rightarrow> (nat \<Rightarrow> data, answer) eff" where
  "value_step shortest (Make a d) m = (Inr Done, m(a := value_of d))"
| "value_step shortest (CopyAssign a b) m = (Inr Done, m(a := m b))"
| "value_step shortest (MoveAssign a b) m = (Inr Done, m(b := DNone, a := m b))"
| "value_step shortest (Swap a b) m = (Inr Done, m(a := m b, b := m a))"
| "value_step shortest (Init a ty sz) m = update_result a m (makeStorage ty sz)"
| "value_step shortest (SetCopy a key b) m = update_result a m (data_set key (m b) (m a))"
| "value_step shortest (SetMove a key b) m =
     update_result a (m(b := DNone)) (data_set key (m b) ((m(b := DNone)) a))"
| "value_step shortest (PushCopy a b) m = update_result a m (data_push_back (m b) (m a))"
| "value_step shortest (PushMove a b) m =
     update_result a (m(b := DNone)) (data_push_back (m b) ((m(b := DNone)) a))"
| "value_step shortest (AskType a) m = (Inr (TypeIs (type_of_data (m a))), m)"
| "value_step shortest (AskEmpty a) m = (Inr (EmptyIs (isEmpty (m a))), m)"
| "value_step shortest (AskText a) m = (map_sum id TextIs (toString shortest (m a)), m)"
| "value_step shortest (AskString a) m = (map_sum id TextIs (stringValue (m a)), m)"
| "value_step shortest (AskFind a key) m = (Inr (FoundIs (data_find key (m a))), m)"

primrec call_all :: "('c \<Rightarrow> 's \<Rightarrow> 'a \<times> 's) \<Rightarrow> 'c list \<Rightarrow> 's \<Rightarrow> 'a list \<times> 's" where
  "call_all f [] s = ([], s)"
| "call_all f (c # cs) s = (case f c s of (r, t) \<Rightarrow> case call_all f cs t of (rs, u) \<Rightarrow> (r # rs, u))"

lemma update_values:
  "map_sum id value_of r = r' \<Longrightarrow>
     update_result a (value_of \<circ> m) r' = map_prod id (\<lambda>m. value_of \<circ> m) (update_result a m r)"
  by (cases r) (auto simp: update_result_def fun_eq_iff)

lemma call_values:
  assumes "\<And>x. to_chars x 64 = ToCharsOk (shortest x)"
  shows "value_step shortest c (value_of \<circ> m) = map_prod id (\<lambda>m. value_of \<circ> m) (object_step to_chars c m)"
proof (cases c)
  case (Init a ty sz)
  have "map_prod (map_sum id (\<lambda>_. Done)) id (object_init ty sz a m) = update_result a m (object_makeStorage ty sz)"
    by (simp add: object_init_def update_result_def split: sum.split)
  then show ?thesis
    using update_values [OF value_makeStorage(1)] by (simp add: Init map_prod_def split_beta)
next
  case (SetCopy a key b)
  then show ?thesis by (simp add: update_values value_set value_of_copy)
next
  case (SetMove a key b)
  then show ?thesis
    using update_values [OF value_set, of a "m(b := MovedFrom)" key "m b" "(m(b := MovedFrom)) a"]
    by (cases "a = b") (simp_all add: move_from_def fun_upd_comp)
next
  case (PushCopy a b)
  then show ?thesis by (simp add: update_values value_push_back value_of_copy)
next
  case (PushMove a b)
  then show ?thesis
    using update_values [OF value_push_back, of a "m(b := MovedFrom)" "m b" "(m(b := MovedFrom)) a"]
    by (cases "a = b") (simp_all add: move_from_def fun_upd_comp)
qed (auto simp: object_values copy_assign_def move_assign_def object_swap_def move_from_def fun_eq_iff
    value_toString [of to_chars shortest, OF assms])

text \<open>
  C36. Objects behave as values: whatever sequence of assignments, moves, swaps, initialisations,
  insertions and questions a program makes, self-assignment and objects that were moved from
  included, every answer and exception is the one the values give, where a moved-from object is
  a null value, and in the end every object stands for the value computed without objects.
\<close>

theorem objects_are_values:
  assumes "\<And>x. to_chars x 64 = ToCharsOk (shortest x)"
  shows "call_all (value_step shortest) calls (value_of \<circ> m) =
     map_prod id (\<lambda>m. value_of \<circ> m) (call_all (object_step to_chars) calls m)"
  by (induction calls arbitrary: m) (simp_all add: call_values [of to_chars shortest, OF assms] split_beta)

text \<open>An array that is moved into itself: the call throws, and the array is gone.\<close>

definition sample_calls :: "object_call list" where
  "sample_calls = [Make 0 (object_array []), PushCopy 0 0, PushMove 0 0, AskEmpty 0]"

theorem objects_are_values_witness:
  "fst (call_all (object_step (\<lambda>x _. ToCharsOk ''0'')) sample_calls (\<lambda>_. new_data))
     = [Inr Done, Inr Done, Inl (Exception ''Data is not a list or array''), Inr (EmptyIs True)]"
proof -
  have "fst (call_all (object_step (\<lambda>x _. ToCharsOk ''0'')) sample_calls (\<lambda>_. new_data))
      = fst (call_all (value_step (\<lambda>_. ''0'')) sample_calls (value_of \<circ> (\<lambda>_. new_data)))"
    by (simp add: objects_are_values [of "\<lambda>x _. ToCharsOk ''0''" "\<lambda>_. ''0''"])
  then show ?thesis
    by (simp add: sample_calls_def update_result_def data_push_back_def object_values)
qed

end
