(* ===== verification/Lambda_Threads.thy ===== *)
theory Lambda_Threads
  imports Prelude
begin

text \<open>
  A callback context that several threads hold, from src/lambda.cpp. The copies of a
  \<open>LambdaRenderContext\<close> share a state with a recursive mutex and the renderer, which the scope
  guard of the callback sets to null. The threads call the context in any order; what matters
  here is when each takes the mutex, tests the renderer and uses it. What a call returns and
  what rendering does, with one thread at a time, is in Lambda and Engine.
\<close>

section \<open>Calls and threads\<close>

text \<open>
  Rendering may run callbacks, which may call the same context again from the same thread or
  wait for another thread to finish: the list holds what they do, in order. \<open>renderTemplate\<close>
  calls \<open>render\<close> while it has the mutex.
\<close>

datatype context_use = UseActive | UseRender "render_item list" | UseTemplate "render_item list" | UseLegacy
and render_item = Nested context_use | Join nat

text \<open>A thread calls the context, waits for another thread, or is the scope guard of the callback.\<close>

datatype context_call = Use context_use | Await nat | Invalidate

text \<open>
  What a thread is in, innermost first: it waits for the mutex, or has it and is about to
  test the renderer, or renders with more to do, or waits for a thread, or is about to reset
  the renderer.
\<close>

datatype context_frame =
    Waiting context_use
  | Testing context_use
  | Rendering "render_item list"
  | Joining nat
  | WaitingToReset
  | Resetting

fun holds_mutex :: "context_frame \<Rightarrow> bool" where
  "holds_mutex (Waiting u) = False"
| "holds_mutex (Testing u) = True"
| "holds_mutex (Rendering us) = True"
| "holds_mutex (Joining v) = False"
| "holds_mutex WaitingToReset = False"
| "holds_mutex Resetting = True"

text \<open>The shared state, and the frames and further calls of each thread.\<close>

record context_system =
  cx_renderer :: bool
  cx_owner :: "nat option"
  cx_count :: nat
  cx_frames :: "nat \<Rightarrow> context_frame list"
  cx_calls :: "nat \<Rightarrow> context_call list"

text \<open>The recursive mutex: its owner may lock it again, and it is free once unlocked as often.\<close>

definition mutex_free :: "nat \<Rightarrow> context_system \<Rightarrow> bool" where
  "mutex_free t s \<longleftrightarrow> cx_owner s = None \<or> cx_owner s = Some t"

definition mutex_lock :: "nat \<Rightarrow> context_system \<Rightarrow> context_system" where
  "mutex_lock t s = s\<lparr>cx_owner := Some t, cx_count := cx_count s + 1\<rparr>"

definition mutex_unlock :: "context_system \<Rightarrow> context_system" where
  "mutex_unlock s = s\<lparr>cx_owner := if cx_count s = 1 then None else cx_owner s, cx_count := cx_count s - 1\<rparr>"

definition to_frames :: "nat \<Rightarrow> context_frame list \<Rightarrow> context_system \<Rightarrow> context_system" where
  "to_frames t fs s = s\<lparr>cx_frames := (cx_frames s)(t := fs)\<rparr>"

definition to_calls :: "nat \<Rightarrow> context_call list \<Rightarrow> context_system \<Rightarrow> context_system" where
  "to_calls t cs s = s\<lparr>cx_calls := (cx_calls s)(t := cs)\<rparr>"

text \<open>A thread with nothing left to do has finished.\<close>

definition idle :: "context_system \<Rightarrow> nat \<Rightarrow> bool" where
  "idle s t \<longleftrightarrow> cx_frames s t = [] \<and> cx_calls s t = []"

text \<open>
  A call that does not render ends once the renderer was tested: \<open>active\<close> and \<open>legacyRenderer\<close>
  return, and everything but \<open>active\<close> throws when the renderer is null. A render returns when all
  it has to do is done, and a thread that waits for another goes on when that one has finished.
  The lock guard of a call gives the mutex back in either case.
\<close>

definition test_ends :: "context_use \<Rightarrow> context_system \<Rightarrow> bool" where
  "test_ends u s \<longleftrightarrow> u = UseActive \<or> u = UseLegacy \<or> \<not> cx_renderer s"

inductive orderly_step :: "nat \<Rightarrow> context_system \<Rightarrow> context_system \<Rightarrow> bool" for t where
  call: "cx_frames s t = [] \<Longrightarrow> cx_calls s t = Use u # cs \<Longrightarrow>
    orderly_step t s (to_calls t cs (to_frames t [Waiting u] s))"
| call_await: "cx_frames s t = [] \<Longrightarrow> cx_calls s t = Await v # cs \<Longrightarrow>
    orderly_step t s (to_calls t cs (to_frames t [Joining v] s))"
| call_invalidate: "cx_frames s t = [] \<Longrightarrow> cx_calls s t = Invalidate # cs \<Longrightarrow>
    orderly_step t s (to_calls t cs (to_frames t [WaitingToReset] s))"
| acquire: "cx_frames s t = Waiting u # fs \<Longrightarrow> mutex_free t s \<Longrightarrow>
    orderly_step t s (to_frames t (Testing u # fs) (mutex_lock t s))"
| acquire_to_reset: "cx_frames s t = WaitingToReset # fs \<Longrightarrow> mutex_free t s \<Longrightarrow>
    orderly_step t s (to_frames t (Resetting # fs) (mutex_lock t s))"
| test: "cx_frames s t = Testing u # fs \<Longrightarrow> test_ends u s \<Longrightarrow>
    orderly_step t s (to_frames t fs (mutex_unlock s))"
| enter: "cx_frames s t = Testing (UseRender us) # fs \<Longrightarrow> cx_renderer s \<Longrightarrow>
    orderly_step t s (to_frames t (Rendering us # fs) s)"
| enter_template: "cx_frames s t = Testing (UseTemplate us) # fs \<Longrightarrow> cx_renderer s \<Longrightarrow>
    orderly_step t s (to_frames t (Rendering [Nested (UseRender us)] # fs) s)"
| nested: "cx_frames s t = Rendering (Nested u # us) # fs \<Longrightarrow>
    orderly_step t s (to_frames t (Waiting u # Rendering us # fs) s)"
| nested_join: "cx_frames s t = Rendering (Join v # us) # fs \<Longrightarrow>
    orderly_step t s (to_frames t (Joining v # Rendering us # fs) s)"
| join: "cx_frames s t = Joining v # fs \<Longrightarrow> idle s v \<Longrightarrow>
    orderly_step t s (to_frames t fs s)"
| leave: "cx_frames s t = Rendering [] # fs \<Longrightarrow>
    orderly_step t s (to_frames t fs (mutex_unlock s))"
| reset: "cx_frames s t = Resetting # fs \<Longrightarrow>
    orderly_step t s (to_frames t fs (mutex_unlock (s\<lparr>cx_renderer := False\<rparr>)))"

text \<open>
  Besides, rendering and tokenizing may throw before all is done. A thread that waits for the
  mutex or for another thread does not throw.
\<close>

inductive context_step :: "nat \<Rightarrow> context_system \<Rightarrow> context_system \<Rightarrow> bool" for t where
  orderly: "orderly_step t s s' \<Longrightarrow> context_step t s s'"
| throws: "cx_frames s t = Rendering us # fs \<Longrightarrow>
    context_step t s (to_frames t fs (mutex_unlock s))"

text \<open>The threads begin with a context that was just created.\<close>

definition context_start :: "(nat \<Rightarrow> context_call list) \<Rightarrow> context_system" where
  "context_start calls =
     \<lparr>cx_renderer = True, cx_owner = None, cx_count = 0, cx_frames = \<lambda>_. [], cx_calls = calls\<rparr>"

inductive context_reachable :: "(nat \<Rightarrow> context_call list) \<Rightarrow> nat \<Rightarrow> context_system \<Rightarrow> bool" for calls where
  reachable_start: "context_reachable calls 0 (context_start calls)"
| reachable_step: "context_reachable calls n s \<Longrightarrow> context_step t s s' \<Longrightarrow> context_reachable calls (Suc n) s'"

section \<open>The invariant\<close>

definition held :: "context_system \<Rightarrow> nat \<Rightarrow> nat" where
  "held s t = length (filter holds_mutex (cx_frames s t))"

text \<open>
  The mutex counts the frames of its owner that hold it, and no other thread has such a frame.
\<close>

definition mutex_inv :: "context_system \<Rightarrow> bool" where
  "mutex_inv s \<longleftrightarrow>
     (\<forall>t. held s t = (if cx_owner s = Some t then cx_count s else 0)) \<and> (cx_owner s = None \<longleftrightarrow> cx_count s = 0)"

text \<open>The scope guard calls the context from outside any of its calls.\<close>

definition guard_frames :: "context_frame list \<Rightarrow> bool" where
  "guard_frames fs \<longleftrightarrow>
     fs = [WaitingToReset] \<or> fs = [Resetting] \<or> WaitingToReset \<notin> set fs \<and> Resetting \<notin> set fs"

definition guard_inv :: "context_system \<Rightarrow> bool" where
  "guard_inv s \<longleftrightarrow> (\<forall>t. guard_frames (cx_frames s t))"

text \<open>Nobody renders with a renderer that was reset.\<close>

definition renders :: "context_frame list \<Rightarrow> bool" where
  "renders fs \<longleftrightarrow> (\<exists>us. Rendering us \<in> set fs)"

definition renderer_inv :: "context_system \<Rightarrow> bool" where
  "renderer_inv s \<longleftrightarrow> cx_renderer s \<or> (\<forall>t. \<not> renders (cx_frames s t))"

definition context_inv :: "context_system \<Rightarrow> bool" where
  "context_inv s \<longleftrightarrow> mutex_inv s \<and> guard_inv s \<and> renderer_inv s"

lemmas system_defs = mutex_lock_def mutex_unlock_def mutex_free_def to_frames_def to_calls_def

lemma context_start_inv: "context_inv (context_start calls)"
  by (simp add: context_inv_def mutex_inv_def guard_inv_def renderer_inv_def context_start_def held_def
      guard_frames_def renders_def)

text \<open>A thread with a frame that holds the mutex is its owner, and the only one with such a frame.\<close>

lemma mutex_owner:
  assumes "mutex_inv s" and "f \<in> set (cx_frames s t)" and "holds_mutex f"
  shows "cx_owner s = Some t" and "0 < cx_count s"
proof -
  have "0 < held s t" using assms(2,3) by (auto simp: held_def filter_empty_conv)
  then show "cx_owner s = Some t" "0 < cx_count s" using assms(1) by (auto simp: mutex_inv_def split: if_splits)
qed

lemma held_simps [simp]:
  "held (to_frames t fs s) u = (if u = t then length (filter holds_mutex fs) else held s u)"
  "held (to_calls t cs s) u = held s u" "held (mutex_lock t s) u = held s u" "held (mutex_unlock s) u = held s u"
  "held (s\<lparr>cx_renderer := b\<rparr>) u = held s u"
  by (simp_all add: held_def system_defs)

lemma mutex_fields [simp]:
  "cx_owner (to_frames t fs s) = cx_owner s" "cx_count (to_frames t fs s) = cx_count s"
  "cx_owner (to_calls t cs s) = cx_owner s" "cx_count (to_calls t cs s) = cx_count s"
  "cx_owner (mutex_lock t s) = Some t" "cx_count (mutex_lock t s) = cx_count s + 1"
  "cx_owner (mutex_unlock s) = (if cx_count s = 1 then None else cx_owner s)" "cx_count (mutex_unlock s) = cx_count s - 1"
  by (simp_all add: system_defs)

lemma mutex_inv_step:
  assumes "context_step t s s'" and inv: "mutex_inv s"
  shows "mutex_inv s'"
proof -
  have count: "held s u = (if cx_owner s = Some u then cx_count s else 0)" for u
    using inv by (simp add: mutex_inv_def)
  have none: "cx_owner s = None \<longleftrightarrow> cx_count s = 0"
    using inv by (simp add: mutex_inv_def)
  have top: "held s t = length (filter holds_mutex (cx_frames s t))" by (simp add: held_def)
  from assms(1) show ?thesis
  proof cases
    case orderly
    then show ?thesis
      by cases (use count count [of t] top none in \<open>auto simp: mutex_inv_def mutex_free_def split: if_splits\<close>)
  next
    case (throws us fs)
    then show ?thesis using count count [of t] top none by (auto simp: mutex_inv_def split: if_splits)
  qed
qed

lemma frames_simps [simp]:
  "cx_frames (to_frames t fs s) u = (if u = t then fs else cx_frames s u)"
  "cx_frames (to_calls t cs s) = cx_frames s" "cx_frames (mutex_lock t s) = cx_frames s"
  "cx_frames (mutex_unlock s) = cx_frames s"
  "cx_renderer (to_frames t fs s) = cx_renderer s" "cx_renderer (to_calls t cs s) = cx_renderer s"
  "cx_renderer (mutex_lock t s) = cx_renderer s" "cx_renderer (mutex_unlock s) = cx_renderer s"
  by (simp_all add: system_defs)

lemma guard_inv_step:
  assumes "context_step t s s'" and "guard_inv s"
  shows "guard_inv s'"
proof -
  have top: "guard_frames (cx_frames s t)" using assms(2) by (simp add: guard_inv_def)
  from assms(1) show ?thesis
  proof cases
    case orderly
    then show ?thesis by cases (use top assms(2) in \<open>auto simp: guard_inv_def guard_frames_def\<close>)
  qed (use top assms(2) in \<open>auto simp: guard_inv_def guard_frames_def\<close>)
qed

lemma orderly_renderer_inv:
  assumes "orderly_step t s s'" and "context_inv s"
  shows "renderer_inv s'"
proof -
  have top: "cx_renderer s \<or> \<not> renders (cx_frames s t)" using assms(2) by (auto simp: context_inv_def renderer_inv_def)
  from assms(1) show ?thesis
  proof cases
    case (reset fs)
    have only: "cx_frames s t = [Resetting]"
      using assms(2) reset by (auto simp: context_inv_def guard_inv_def guard_frames_def dest: spec [of _ t])
    have owner: "cx_owner s = Some u" if "f \<in> set (cx_frames s u)" "holds_mutex f" for f u
      using assms(2) that by (auto simp: context_inv_def intro: mutex_owner)
    have "\<not> renders (cx_frames s u)" for u
      using owner [of Resetting t] owner [of _ u] only by (auto simp: renders_def)
    then show ?thesis using reset only by (auto simp: renderer_inv_def renders_def)
  qed (use top assms(2) in \<open>auto simp: context_inv_def renderer_inv_def renders_def\<close>)
qed

lemma renderer_inv_step:
  assumes "context_step t s s'" and "context_inv s"
  shows "renderer_inv s'"
  using assms(1)
proof cases
  case orderly
  then show ?thesis using assms(2) by (rule orderly_renderer_inv)
next
  case (throws us fs)
  then have "renders (cx_frames s t)" by (auto simp: renders_def)
  then have "cx_renderer s" using assms(2) by (auto simp: context_inv_def renderer_inv_def)
  with throws show ?thesis by (simp add: renderer_inv_def)
qed

text \<open>A context that was reset stays so.\<close>

lemma orderly_stays_reset: "orderly_step t s s' \<Longrightarrow> \<not> cx_renderer s \<Longrightarrow> \<not> cx_renderer s'"
  by (induction rule: orderly_step.cases) simp_all

lemma stays_reset: "context_step t s s' \<Longrightarrow> \<not> cx_renderer s \<Longrightarrow> \<not> cx_renderer s'"
  by (induction rule: context_step.cases) (simp_all add: orderly_stays_reset)

lemma context_inv_step: "context_step t s s' \<Longrightarrow> context_inv s \<Longrightarrow> context_inv s'"
  using mutex_inv_step guard_inv_step renderer_inv_step by (auto simp: context_inv_def)

lemma reachable_inv: "context_reachable calls n s \<Longrightarrow> context_inv s"
  by (induction rule: context_reachable.induct) (blast intro: context_start_inv context_inv_step)+

text \<open>
  C32. A context is used by one thread at a time and never after its callback: in every state the
  threads can reach, however their calls interleave, at most one thread is rendering through
  the context, nobody renders while the guard resets it or once it was reset, and a context that
  was reset stays so.
\<close>

theorem context_use_is_exclusive:
  assumes "context_reachable calls n s"
  shows "(renders (cx_frames s t) \<and> renders (cx_frames s u) \<longrightarrow> t = u)
     \<and> (Resetting \<in> set (cx_frames s t) \<or> \<not> cx_renderer s \<longrightarrow> \<not> renders (cx_frames s u))
     \<and> (\<not> cx_renderer s \<and> context_step t s s' \<longrightarrow> \<not> cx_renderer s')"
proof -
  note inv = reachable_inv [OF assms, unfolded context_inv_def]
  have owner: "cx_owner s = Some v" if "f \<in> set (cx_frames s v)" "holds_mutex f" for f v
    using inv that by (auto intro: mutex_owner)
  have rendering: "cx_owner s = Some v" if "renders (cx_frames s v)" for v
    using that owner by (fastforce simp: renders_def)
  have "\<not> renders (cx_frames s u)" if "Resetting \<in> set (cx_frames s t)"
  proof
    assume "renders (cx_frames s u)"
    then have "u = t" using rendering [of u] owner [OF that] by simp
    then show False
      using \<open>renders (cx_frames s u)\<close> that inv
      by (auto simp: renders_def guard_inv_def guard_frames_def dest: spec [of _ t])
  qed
  moreover have "\<not> cx_renderer s'" if "\<not> cx_renderer s" "context_step t s s'"
    using that stays_reset by blast
  ultimately show ?thesis
    using inv rendering [of t] rendering [of u] by (auto simp: renderer_inv_def)
qed

section \<open>Every call ends\<close>

text \<open>A number that every step of a thread lowers.\<close>

primrec use_weight :: "context_use \<Rightarrow> nat" and item_weight :: "render_item \<Rightarrow> nat" where
  "use_weight UseActive = 2"
| "use_weight (UseRender us) = 3 + sum_list (map Suc (map item_weight us))"
| "use_weight (UseTemplate us) = 7 + sum_list (map Suc (map item_weight us))"
| "use_weight UseLegacy = 2"
| "item_weight (Nested u) = use_weight u"
| "item_weight (Join v) = 1"

fun call_weight :: "context_call \<Rightarrow> nat" where
  "call_weight (Use u) = use_weight u + 1"
| "call_weight (Await v) = 2"
| "call_weight Invalidate = 3"

fun frame_weight :: "context_frame \<Rightarrow> nat" where
  "frame_weight (Waiting u) = use_weight u"
| "frame_weight (Testing u) = use_weight u - 1"
| "frame_weight (Rendering us) = 1 + sum_list (map Suc (map item_weight us))"
| "frame_weight (Joining v) = 1"
| "frame_weight WaitingToReset = 2"
| "frame_weight Resetting = 1"

definition thread_weight :: "context_system \<Rightarrow> nat \<Rightarrow> nat" where
  "thread_weight s t = sum_list (map frame_weight (cx_frames s t)) + sum_list (map call_weight (cx_calls s t))"

lemma use_weight_bound: "2 \<le> use_weight u"
  by (cases u) simp_all

lemma calls_simps [simp]:
  "cx_calls (to_calls t cs s) u = (if u = t then cs else cx_calls s u)" "cx_calls (to_frames t fs s) = cx_calls s"
  "cx_calls (mutex_lock t s) = cx_calls s" "cx_calls (mutex_unlock s) = cx_calls s"
  by (simp_all add: system_defs)

lemma orderly_weight: "orderly_step t s s' \<Longrightarrow> thread_weight s' t < thread_weight s t"
proof (induction rule: orderly_step.cases)
  case (test s u fs)
  then show ?case using use_weight_bound [of u] by (simp add: thread_weight_def)
next
  case (acquire s u fs)
  then show ?case using use_weight_bound [of u] by (simp add: thread_weight_def)
qed (simp_all add: thread_weight_def)

lemma step_weight: "context_step t s s' \<Longrightarrow> thread_weight s' t < thread_weight s t"
proof (induction rule: context_step.cases)
  case (throws s us fs)
  then show ?case by (simp add: thread_weight_def)
qed (simp add: orderly_weight)

lemma step_others:
  assumes "context_step t s s'" and "u \<noteq> t"
  shows "cx_frames s' u = cx_frames s u \<and> cx_calls s' u = cx_calls s u"
  using assms(1)
proof cases
  case orderly
  then show ?thesis by cases (use assms(2) in simp_all)
qed (use assms(2) in simp)

lemma step_busy: "context_step t s s' \<Longrightarrow> \<not> idle s t"
  by (induction rule: context_step.cases) (auto simp: idle_def elim: orderly_step.cases)

lemma run_weight:
  assumes "context_reachable calls n s" and "finite T" and "\<And>t. t \<notin> T \<Longrightarrow> calls t = []"
  shows "n + sum (thread_weight s) T \<le> (\<Sum>t\<in>T. sum_list (map call_weight (calls t))) \<and> (\<forall>t. t \<notin> T \<longrightarrow> idle s t)"
  using assms(1)
proof (induction rule: context_reachable.induct)
  case reachable_start
  then show ?case using assms(3) by (simp add: context_start_def thread_weight_def idle_def)
next
  case (reachable_step n s t s')
  have t: "t \<in> T" using step_busy [OF reachable_step.hyps(2)] reachable_step.IH by blast
  have "sum (thread_weight s') T < sum (thread_weight s) T"
  proof (rule sum_strict_mono_ex1 [OF assms(2)])
    show "\<forall>u\<in>T. thread_weight s' u \<le> thread_weight s u"
      using step_others [OF reachable_step.hyps(2)] step_weight [OF reachable_step.hyps(2)]
      by (metis less_imp_le order_refl thread_weight_def)
    show "\<exists>u\<in>T. thread_weight s' u < thread_weight s u" using t step_weight [OF reachable_step.hyps(2)] by blast
  qed
  moreover have "idle s' u" if "u \<notin> T" for u
    using that t step_others [OF reachable_step.hyps(2), of u] reachable_step.IH by (auto simp: idle_def)
  ultimately show ?case using reachable_step.IH by auto
qed

section \<open>Waiting for other threads\<close>

primrec joins_of_use :: "context_use \<Rightarrow> nat set" and joins_of_item :: "render_item \<Rightarrow> nat set" where
  "joins_of_use UseActive = {}"
| "joins_of_use (UseRender us) = \<Union> (set (map joins_of_item us))"
| "joins_of_use (UseTemplate us) = \<Union> (set (map joins_of_item us))"
| "joins_of_use UseLegacy = {}"
| "joins_of_item (Nested u) = joins_of_use u"
| "joins_of_item (Join v) = {v}"

text \<open>
  The documented handoff: a callback gives its context to a worker and waits for it before it
  returns, outside of its own renders through the context, and nobody waits in a circle.
\<close>

definition handoff :: "(nat \<Rightarrow> nat) \<Rightarrow> nat \<Rightarrow> context_call list \<Rightarrow> bool" where
  "handoff rank t cs \<longleftrightarrow>
     (\<forall>c \<in> set cs. case c of Use u \<Rightarrow> joins_of_use u = {} | Await v \<Rightarrow> rank v < rank t | Invalidate \<Rightarrow> True)"

fun joins_of_frame :: "context_frame \<Rightarrow> nat set" where
  "joins_of_frame (Waiting u) = joins_of_use u"
| "joins_of_frame (Testing u) = joins_of_use u"
| "joins_of_frame (Rendering us) = \<Union> (set (map joins_of_item us))"
| "joins_of_frame (Joining v) = {v}"
| "joins_of_frame WaitingToReset = {}"
| "joins_of_frame Resetting = {}"

definition handoff_frames :: "(nat \<Rightarrow> nat) \<Rightarrow> nat \<Rightarrow> context_frame list \<Rightarrow> bool" where
  "handoff_frames rank t fs \<longleftrightarrow> (\<forall>f \<in> set fs. joins_of_frame f = {}) \<or> (\<exists>v. fs = [Joining v] \<and> rank v < rank t)"

definition handoff_inv :: "(nat \<Rightarrow> nat) \<Rightarrow> context_system \<Rightarrow> bool" where
  "handoff_inv rank s \<longleftrightarrow> (\<forall>t. handoff rank t (cx_calls s t) \<and> handoff_frames rank t (cx_frames s t))"

lemma handoff_inv_step:
  assumes "context_step t s s'" and "handoff_inv rank s"
  shows "handoff_inv rank s'"
proof -
  have top: "handoff rank t (cx_calls s t)" "handoff_frames rank t (cx_frames s t)"
    using assms(2) by (simp_all add: handoff_inv_def)
  have "handoff rank t (cx_calls s' t) \<and> handoff_frames rank t (cx_frames s' t)"
    using assms(1)
  proof cases
    case orderly
    then show ?thesis by cases (use top in \<open>auto simp: handoff_def handoff_frames_def\<close>)
  qed (use top in \<open>auto simp: handoff_def handoff_frames_def\<close>)
  then show ?thesis
    using assms(2) step_others [OF assms(1)] unfolding handoff_inv_def by metis
qed

lemma handoff_reachable:
  assumes "context_reachable calls n s" and "\<And>t. handoff rank t (calls t)"
  shows "handoff_inv rank s"
  using assms(1)
proof (induction rule: context_reachable.induct)
  case reachable_start
  show ?case using assms(2) by (simp add: handoff_inv_def context_start_def handoff_frames_def)
qed (blast intro: handoff_inv_step)

text \<open>
  Without an exception to help it, a thread in a call can go on when it may have the mutex and
  waits for no unfinished thread.
\<close>

lemma frames_move:
  assumes "cx_frames s t \<noteq> []" and "mutex_free t s"
    and "\<And>f. f \<in> set (cx_frames s t) \<Longrightarrow> joins_of_frame f = {} \<or> (\<exists>v. f = Joining v \<and> idle s v)"
  shows "\<exists>s'. orderly_step t s s'"
proof -
  obtain f fs where f: "cx_frames s t = f # fs" using assms(1) by (cases "cx_frames s t") auto
  show ?thesis
  proof (cases f)
    case (Testing u)
    show ?thesis
    proof (cases "test_ends u s")
      case True
      then show ?thesis using orderly_step.test f Testing by blast
    next
      case False
      then show ?thesis using f Testing by (cases u) (auto simp: test_ends_def intro: orderly_step.intros)
    qed
  next
    case (Rendering us)
    show ?thesis
    proof (cases us)
      case Nil
      then show ?thesis using f Rendering orderly_step.leave by blast
    next
      case (Cons i more)
      with f Rendering have "joins_of_item i = {}" using assms(3) [of "Rendering us"] by auto
      then obtain u where "i = Nested u" by (cases i) auto
      then show ?thesis using f Rendering Cons orderly_step.nested by blast
    qed
  next
    case (Joining v)
    with f have "idle s v" using assms(3) [of "Joining v"] by auto
    then show ?thesis using f Joining orderly_step.join by blast
  qed (use f assms(2,3) in \<open>auto intro: orderly_step.intros\<close>)
qed

lemma call_moves: "cx_frames s t = [] \<Longrightarrow> cx_calls s t \<noteq> [] \<Longrightarrow> \<exists>s'. orderly_step t s s'"
proof -
  assume none: "cx_frames s t = []" and "cx_calls s t \<noteq> []"
  then obtain c cs where "cx_calls s t = c # cs" by (cases "cx_calls s t") auto
  with none show ?thesis by (cases c) (blast intro: orderly_step.intros)+
qed

text \<open>
  The owner of the mutex can move; when nobody owns it, a thread of least rank that has not
  finished can.
\<close>

lemma some_thread_moves:
  assumes "mutex_inv s" and "handoff_inv rank s" and "\<not> idle s t"
  shows "\<exists>u s'. orderly_step u s s'"
proof (cases "cx_owner s")
  case (Some v)
  have "0 < held s v" using assms(1) Some by (auto simp: mutex_inv_def)
  then have frames: "\<exists>f \<in> set (cx_frames s v). holds_mutex f" by (auto simp: held_def filter_empty_conv)
  then have "joins_of_frame f = {}" if "f \<in> set (cx_frames s v)" for f
    using assms(2) that by (auto simp: handoff_inv_def handoff_frames_def dest: spec [of _ v])
  moreover have "cx_frames s v \<noteq> []" using frames by auto
  moreover have "mutex_free v s" using Some by (simp add: mutex_free_def)
  ultimately show ?thesis using frames_move [of s v] by blast
next
  case None
  define u where "u = (ARG_MIN rank u. \<not> idle s u)"
  have u: "\<not> idle s u" "\<And>v. \<not> idle s v \<Longrightarrow> rank u \<le> rank v"
    using arg_min_natI [of "\<lambda>u. \<not> idle s u" t rank] arg_min_nat_le [of "\<lambda>u. \<not> idle s u" _ rank] assms(3)
    by (auto simp: u_def)
  show ?thesis
  proof (cases "cx_frames s u = []")
    case True
    with u(1) show ?thesis using call_moves [of s u] by (auto simp: idle_def)
  next
    case False
    have "joins_of_frame f = {} \<or> (\<exists>v. f = Joining v \<and> idle s v)" if "f \<in> set (cx_frames s u)" for f
      using assms(2) that u(2) by (fastforce simp: handoff_inv_def handoff_frames_def dest: spec [of _ u])
    moreover have "mutex_free u s" using None by (simp add: mutex_free_def)
    ultimately show ?thesis using frames_move [OF False] by blast
  qed
qed

text \<open>The reset is due until it happened.\<close>

lemma reset_due:
  assumes "context_reachable calls n s" and "Invalidate \<in> set (calls t)"
  shows "\<not> cx_renderer s \<or> Invalidate \<in> set (cx_calls s t) \<or> WaitingToReset \<in> set (cx_frames s t)
     \<or> Resetting \<in> set (cx_frames s t)"
  using assms(1)
proof (induction rule: context_reachable.induct)
  case reachable_start
  then show ?case using assms(2) by (simp add: context_start_def)
next
  case (reachable_step n s u s')
  show ?case
  proof (cases "u = t")
    case True
    from reachable_step.hyps(2) show ?thesis
      unfolding True
    proof cases
      case orderly
      then show ?thesis using reachable_step.IH by cases auto
    qed (use reachable_step.IH in auto)
  next
    case False
    then have same: "cx_frames s' t = cx_frames s t" "cx_calls s' t = cx_calls s t"
      using step_others [OF reachable_step.hyps(2), of t] by simp_all
    show ?thesis using reachable_step.IH stays_reset [OF reachable_step.hyps(2)] unfolding same by blast
  qed
qed

text \<open>
  C33. Threads that share a context as documented do not hang: when callbacks wait for workers
  only outside of their renders through the context and nobody waits in a circle, a run has a
  bounded number of steps, and as long as some thread has not finished, some thread can go on
  without an exception. Meanwhile the mutex counts exactly the calls of its owner that are past
  their lock, and no other thread has such a call. Where nothing can go on, every call has ended, the mutex is free, and the
  context is reset if its scope guard was among the callers.
\<close>

theorem context_calls_end:
  assumes "context_reachable calls n s" and "finite T" and "\<And>t. t \<notin> T \<Longrightarrow> calls t = []"
    and "\<And>t. handoff rank t (calls t)"
  shows "n \<le> (\<Sum>t\<in>T. sum_list (map call_weight (calls t)))
     \<and> held s t = (if cx_owner s = Some t then cx_count s else 0)
     \<and> (\<not> idle s t \<longrightarrow> (\<exists>u s'. orderly_step u s s'))
     \<and> ((\<forall>t s'. \<not> orderly_step t s s') \<longrightarrow>
          (\<forall>t. idle s t) \<and> cx_owner s = None \<and> (\<forall>t. Invalidate \<in> set (calls t) \<longrightarrow> \<not> cx_renderer s))"
proof -
  have inv: "mutex_inv s" using reachable_inv [OF assms(1)] by (simp add: context_inv_def)
  note moves = some_thread_moves [OF inv handoff_reachable [OF assms(1,4)]]
  have "(\<forall>t. idle s t) \<and> cx_owner s = None \<and> (\<forall>t. Invalidate \<in> set (calls t) \<longrightarrow> \<not> cx_renderer s)"
    if "\<forall>t s'. \<not> orderly_step t s s'"
  proof -
    have idle: "idle s t" for t using moves that by blast
    then have "held s t = 0" for t by (simp add: held_def idle_def)
    then have "cx_owner s = None" using inv by (auto simp: mutex_inv_def split: if_splits)
    moreover have "\<not> cx_renderer s" if "Invalidate \<in> set (calls t)" for t
      using reset_due [OF assms(1) that] idle [of t] by (auto simp: idle_def)
    ultimately show ?thesis using idle by blast
  qed
  moreover have "held s t = (if cx_owner s = Some t then cx_count s else 0)" using inv by (simp add: mutex_inv_def)
  ultimately show ?thesis using run_weight [OF assms(1-3)] moves by auto
qed

section \<open>Two threads\<close>

text \<open>
  A callback renders through its context and waits for a worker before it returns and the guard
  resets the context; the worker asks whether the context is active while the callback renders.
\<close>

definition sample_context_calls :: "nat \<Rightarrow> context_call list" where
  "sample_context_calls t =
     (if t = 0 then [Use (UseRender []), Await 1, Invalidate] else if t = 1 then [Use UseActive] else [])"

lemmas reach_by = reachable_step [OF _ orderly]

definition sample_entered :: context_system where
  "sample_entered =
     to_frames 0 [Rendering []] (to_frames 0 [Testing (UseRender [])] (mutex_lock 0
       (to_calls 0 [Await 1, Invalidate] (to_frames 0 [Waiting (UseRender [])] (context_start sample_context_calls)))))"

definition sample_asked :: context_system where
  "sample_asked = to_calls 1 [] (to_frames 1 [Waiting UseActive] sample_entered)"

definition sample_waiting :: context_system where
  "sample_waiting = to_calls 0 [Invalidate] (to_frames 0 [Joining 1] (to_frames 0 [] (mutex_unlock sample_asked)))"

definition sample_answered :: context_system where
  "sample_answered = to_frames 1 [] (mutex_unlock (to_frames 1 [Testing UseActive] (mutex_lock 1 sample_waiting)))"

definition sample_ended :: context_system where
  "sample_ended =
     to_frames 0 [] (mutex_unlock ((to_frames 0 [Resetting] (mutex_lock 0 (to_calls 0 [] (to_frames 0 [WaitingToReset]
       (to_frames 0 [] sample_answered)))))\<lparr>cx_renderer := False\<rparr>))"

lemmas sample_context_defs = sample_entered_def sample_asked_def sample_waiting_def sample_answered_def
  context_start_def sample_context_calls_def mutex_free_def idle_def

lemma sample_asked_reachable: "context_reachable sample_context_calls 4 sample_asked"
proof -
  let ?called = "to_calls 0 [Await 1, Invalidate] (to_frames 0 [Waiting (UseRender [])] (context_start sample_context_calls))"
  let ?testing = "to_frames 0 [Testing (UseRender [])] (mutex_lock 0 ?called)"
  have "orderly_step 0 (context_start sample_context_calls) ?called"
    by (rule call) (simp_all add: sample_context_defs)
  moreover have "orderly_step 0 ?called ?testing"
    by (rule acquire) (simp_all add: sample_context_defs)
  moreover have "orderly_step 0 ?testing sample_entered"
    unfolding sample_entered_def by (rule enter) (simp_all add: context_start_def)
  moreover have "orderly_step 1 sample_entered sample_asked"
    unfolding sample_asked_def by (rule call) (simp_all add: sample_context_defs)
  ultimately have "context_reachable sample_context_calls (Suc (Suc (Suc (Suc 0)))) sample_asked"
    by (blast intro: reachable_start reach_by)
  then show ?thesis by (simp add: eval_nat_numeral)
qed

lemma sample_answered_reachable: "context_reachable sample_context_calls 8 sample_answered"
proof -
  let ?left = "to_frames 0 [] (mutex_unlock sample_asked)"
  let ?testing = "to_frames 1 [Testing UseActive] (mutex_lock 1 sample_waiting)"
  have "orderly_step 0 sample_asked ?left"
    by (rule leave) (simp add: sample_context_defs)
  moreover have "orderly_step 0 ?left sample_waiting"
    unfolding sample_waiting_def by (rule call_await) (simp_all add: sample_context_defs)
  moreover have "orderly_step 1 sample_waiting ?testing"
    by (rule acquire) (simp_all add: sample_context_defs)
  moreover have "orderly_step 1 ?testing sample_answered"
    unfolding sample_answered_def by (rule test [where u = UseActive]) (simp_all add: test_ends_def)
  ultimately have "context_reachable sample_context_calls (Suc (Suc (Suc (Suc 4)))) sample_answered"
    using sample_asked_reachable by (blast intro: reach_by)
  then show ?thesis by (simp add: eval_nat_numeral)
qed

lemma sample_ended_reachable: "context_reachable sample_context_calls 12 sample_ended"
proof -
  let ?joined = "to_frames 0 [] sample_answered"
  let ?guard = "to_calls 0 [] (to_frames 0 [WaitingToReset] ?joined)"
  let ?resetting = "to_frames 0 [Resetting] (mutex_lock 0 ?guard)"
  have "orderly_step 0 sample_answered ?joined"
    by (rule join [where v = 1]) (simp_all add: sample_context_defs)
  moreover have "orderly_step 0 ?joined ?guard"
    by (rule call_invalidate) (simp_all add: sample_context_defs)
  moreover have "orderly_step 0 ?guard ?resetting"
    by (rule acquire_to_reset) (simp_all add: sample_context_defs)
  moreover have "orderly_step 0 ?resetting sample_ended"
    unfolding sample_ended_def by (rule reset) simp
  ultimately have "context_reachable sample_context_calls (Suc (Suc (Suc (Suc 8)))) sample_ended"
    using sample_answered_reachable by (blast intro: reach_by)
  then show ?thesis by (simp add: eval_nat_numeral)
qed

theorem context_use_is_exclusive_witness:
  "renders (cx_frames sample_asked 0) \<and> \<not> renders (cx_frames sample_asked 1)"
proof -
  have "renders (cx_frames sample_asked 0)" by (simp add: renders_def sample_context_defs)
  with context_use_is_exclusive [OF sample_asked_reachable, of 0 1] show ?thesis by auto
qed

theorem context_calls_end_witness:
  "(\<exists>u s'. orderly_step u sample_asked s') \<and> cx_owner sample_ended = None \<and> \<not> cx_renderer sample_ended"
proof -
  have threads: "t \<notin> {0, 1} \<Longrightarrow> sample_context_calls t = []" "finite {0, 1 :: nat}"
    "handoff (\<lambda>t. 1 - t) t (sample_context_calls t)" for t
    by (simp_all add: sample_context_calls_def handoff_def)
  have "\<not> idle sample_asked 0" by (simp add: sample_context_defs)
  then have "\<exists>u s'. orderly_step u sample_asked s'"
    using context_calls_end [OF sample_asked_reachable threads(2,1,3)] by blast
  moreover have "idle sample_ended t" for t
    by (simp add: sample_ended_def sample_context_defs)
  then have "\<forall>t s'. \<not> orderly_step t sample_ended s'" using step_busy orderly by blast
  moreover have "Invalidate \<in> set (sample_context_calls 0)" by (simp add: sample_context_calls_def)
  ultimately show ?thesis using context_calls_end [OF sample_ended_reachable threads(2,1,3)] by blast
qed

text \<open>
  The condition on waits is needed: a callback that waits for a worker inside a render through
  its own context has the mutex, and when the worker needs it too both wait for ever.
\<close>

definition hanging_calls :: "nat \<Rightarrow> context_call list" where
  "hanging_calls t = (if t = 0 then [Use (UseRender [Join 1])] else if t = 1 then [Use UseActive] else [])"

definition hanging :: context_system where
  "hanging =
     \<lparr>cx_renderer = True, cx_owner = Some 0, cx_count = 1,
      cx_frames = (\<lambda>_. [])(0 := [Joining 1, Rendering []], 1 := [Waiting UseActive]), cx_calls = \<lambda>_. []\<rparr>"

lemma join_inside_render_hangs:
  "context_reachable hanging_calls 5 hanging \<and> \<not> idle hanging 0 \<and> (\<forall>t s'. \<not> context_step t hanging s')"
proof -
  let ?called = "to_calls 0 [] (to_frames 0 [Waiting (UseRender [Join 1])] (context_start hanging_calls))"
  let ?testing = "to_frames 0 [Testing (UseRender [Join 1])] (mutex_lock 0 ?called)"
  let ?entered = "to_frames 0 [Rendering [Join 1]] ?testing"
  let ?joining = "to_frames 0 [Joining 1, Rendering []] ?entered"
  have 1: "orderly_step 0 (context_start hanging_calls) ?called"
    by (rule call) (simp_all add: context_start_def hanging_calls_def)
  have 2: "orderly_step 0 ?called ?testing"
    by (rule acquire) (simp_all add: context_start_def mutex_free_def)
  have 3: "orderly_step 0 ?testing ?entered"
    by (rule enter) (simp_all add: context_start_def)
  have 4: "orderly_step 0 ?entered ?joining"
    by (rule nested_join) simp
  have 5: "orderly_step 1 ?joining (to_calls 1 [] (to_frames 1 [Waiting UseActive] ?joining))"
    by (rule call) (simp_all add: context_start_def hanging_calls_def)
  have "to_calls 1 [] (to_frames 1 [Waiting UseActive] ?joining) = hanging"
    by (simp add: hanging_def system_defs context_start_def hanging_calls_def fun_eq_iff)
  with reach_by [OF reach_by [OF reach_by [OF reach_by [OF reach_by [OF reachable_start 1] 2] 3] 4] 5]
  have "context_reachable hanging_calls (Suc (Suc (Suc (Suc (Suc 0))))) hanging" by simp
  moreover have "\<not> orderly_step t hanging s'" for t s'
    by (rule notI, erule orderly_step.cases) (auto simp: hanging_def mutex_free_def idle_def split: if_splits)
  then have "\<not> context_step t hanging s'" for t s'
    by (auto simp: hanging_def elim!: context_step.cases split: if_splits)
  moreover have "\<not> idle hanging 0" by (simp add: idle_def hanging_def)
  ultimately show ?thesis by (simp add: eval_nat_numeral)
qed

end
