(* ===== verification/Utils.thy ===== *)
theory Utils
  imports Prelude
begin

text \<open>
  src/utils.cpp: trimming, HTML escaping and splitting. Each function is the code's, over
  the string searches of the prelude; \<open>npos\<close> is \<open>None\<close>, and \<open>npos + 1\<close> in
  \<open>trimRight\<close>, which wraps round to 0, is the \<open>None\<close> branch there. The
  lemmas show what each function computes: trimming removes exactly the outer runs,
  escaping can be undone and leaves no markup character, splitting and joining are
  inverse, and tokenizing yields the maximal delimiter-free runs.
\<close>

section \<open>The functions of utils.cpp\<close>

definition whiteSpaces :: string where
  "whiteSpaces = [CHR '' '', CHR 0x0C, CHR 0x0A, CHR 0x0D, CHR 0x09, CHR 0x0B]"

fun stripWhitespace :: "string \<Rightarrow> string \<Rightarrow> string" where
  "stripWhitespace [] chars = []"
| "stripWhitespace (chr # str) chars =
     (if find_idx (\<lambda>c. c = chr) chars = None then chr # stripWhitespace str chars
      else stripWhitespace str chars)"

definition trimRight :: "string \<Rightarrow> string \<Rightarrow> string" where
  "trimRight str trimChars =
     (case find_last_idx (\<lambda>c. c \<notin> set trimChars) str of
        None \<Rightarrow> take 0 str
      | Some pos \<Rightarrow> take (pos + 1) str)"

definition trimLeft :: "string \<Rightarrow> string \<Rightarrow> string" where
  "trimLeft str trimChars =
     (case find_idx (\<lambda>c. c \<notin> set trimChars) str of
        None \<Rightarrow> []
      | Some pos \<Rightarrow> drop pos str)"

definition trim :: "string \<Rightarrow> string \<Rightarrow> string" where
  "trim str trimChars = trimLeft (trimRight str trimChars) trimChars"

definition trimDecimal :: "string \<Rightarrow> string" where
  "trimDecimal str =
     (if length str < 20 then
        (if find_idx (\<lambda>c. c \<notin> set ''0123456789.'') str = None then trimRight str ''0'' else str)
      else str)"

fun escape_char :: "char \<Rightarrow> string" where
  "escape_char c =
     (if c = CHR ''&'' then ''&amp;''
      else if c = CHR 0x22 then ''&quot;''
      else if c = CHR 0x27 then ''&#039;''
      else if c = CHR ''<'' then ''&lt;''
      else if c = CHR ''>'' then ''&gt;''
      else [c])"

fun htmlspecialchars_append :: "string \<Rightarrow> string \<Rightarrow> string" where
  "htmlspecialchars_append [] buf = buf"
| "htmlspecialchars_append (chr # str) buf = htmlspecialchars_append str (buf @ escape_char chr)"

definition htmlspecialchars :: "string option \<Rightarrow> string result" where
  "htmlspecialchars str =
     (case str of
        None \<Rightarrow> Inl (Exception ''Missing HTML input'')
      | Some s \<Rightarrow> Inr (htmlspecialchars_append s []))"

definition htmlspecialchars_append_ptr :: "string option \<Rightarrow> string option \<Rightarrow> string result" where
  "htmlspecialchars_append_ptr str buf =
     (case str of
        None \<Rightarrow> Inl (Exception ''Missing HTML input'')
      | Some s \<Rightarrow>
          (case buf of
             None \<Rightarrow> Inl (Exception ''Missing HTML output'')
           | Some b \<Rightarrow> Inr (htmlspecialchars_append s b)))"

text \<open>
  When input and output of \<open>htmlspecialchars_append\<close> are the same object the code
  escapes a copy of the input first, which is what the function on values does.

  The loop of \<open>explode\<close> from the current start position, which a non-empty
  delimiter moves forward in every round. An empty delimiter never reaches the loop; for
  it the model's loop stops at once, so that it is total.
\<close>

function explode_loop :: "string \<Rightarrow> string \<Rightarrow> nat \<Rightarrow> string list" where
  "explode_loop delimiter str start =
     (case find_sub delimiter (drop start str) of
        Some i \<Rightarrow>
          if delimiter = [] then [drop start str]
          else take i (drop start str) # explode_loop delimiter str (start + i + length delimiter)
      | None \<Rightarrow> [drop start str])"
  by pat_completeness auto
termination
proof (relation "measure (\<lambda>(delimiter, str, start). length str - start)")
  fix delimiter str :: string and start i :: nat
  assume "find_sub delimiter (drop start str) = Some i" and "delimiter \<noteq> []"
  then have "i + length delimiter \<le> length str - start" and "0 < length delimiter"
    using find_sub_bound by fastforce+
  then have "length str - (start + i + length delimiter) < length str - start"
    by linarith
  then show "((delimiter, str, start + i + length delimiter), delimiter, str, start)
      \<in> measure (\<lambda>(delimiter, str, start). length str - start)"
    by simp
qed simp

declare explode_loop.simps [simp del]

definition explode :: "string \<Rightarrow> string \<Rightarrow> string list \<Rightarrow> string list" where
  "explode delimiter str arr =
     (if delimiter = [] then arr else arr @ explode_loop delimiter str 0)"

text \<open>
  \<open>stringTok\<close>: \<open>lastPos\<close> and \<open>pos\<close> are the loop's two positions. The
  substring starts at \<open>lastPos\<close>; it is a position whenever \<open>pos\<close> is one, since
  \<open>pos\<close> is searched for from there. Each round moves \<open>lastPos\<close> forward, so a
  fuel of one more than the length of the string is enough (\<open>stringTok_spec\<close>).
\<close>

definition tok_substr :: "string \<Rightarrow> nat \<Rightarrow> nat option \<Rightarrow> string" where
  "tok_substr str lastPos pos =
     (case pos of None \<Rightarrow> drop lastPos str | Some p \<Rightarrow> take (p - lastPos) (drop lastPos str))"

fun stringTok_loop :: "nat \<Rightarrow> string \<Rightarrow> string \<Rightarrow> nat option \<Rightarrow> nat option \<Rightarrow> string list" where
  "stringTok_loop 0 str delims lastPos pos = []"
| "stringTok_loop (Suc fuel) str delims lastPos pos =
     (if pos \<noteq> None \<or> lastPos \<noteq> None then
        (case lastPos of
           None \<Rightarrow> []
         | Some l \<Rightarrow>
             tok_substr str l pos #
             (let lastPos' = find_from (\<lambda>c. c \<notin> set delims) str pos;
                  pos' = find_from (\<lambda>c. c \<in> set delims) str lastPos'
              in stringTok_loop fuel str delims lastPos' pos'))
      else [])"

definition stringTok :: "string \<Rightarrow> string \<Rightarrow> string list \<Rightarrow> string list" where
  "stringTok str delims tokens =
     (let lastPos = find_from (\<lambda>c. c \<notin> set delims) str (Some 0);
          pos = find_from (\<lambda>c. c \<in> set delims) str lastPos
      in tokens @ stringTok_loop (Suc (length str)) str delims lastPos pos)"

text \<open>The output vectors are pointers; a null one is refused before anything is done.\<close>

definition explode_ptr :: "string \<Rightarrow> string \<Rightarrow> string list option \<Rightarrow> string list result" where
  "explode_ptr delimiter str arr =
     (case arr of
        None \<Rightarrow> Inl (Exception ''Missing split output'')
      | Some a \<Rightarrow> Inr (explode delimiter str a))"

definition stringTok_ptr :: "string \<Rightarrow> string \<Rightarrow> string list option \<Rightarrow> string list result" where
  "stringTok_ptr str delims tokens =
     (case tokens of
        None \<Rightarrow> Inl (Exception ''Missing token output'')
      | Some ts \<Rightarrow> Inr (stringTok str delims ts))"

section \<open>Trimming\<close>

lemma hd_dropWhile_not: "dropWhile P s \<noteq> [] \<Longrightarrow> \<not> P (hd (dropWhile P s))"
  by (rule hd_dropWhile)

lemma take_Suc_find_last:
  assumes "find_last_idx P s = Some i"
  shows "take (Suc i) s = rev (dropWhile (\<lambda>c. \<not> P c) (rev s))"
proof -
  from assms have i: "i < length s" "P (s ! i)" "\<forall>c\<in>set (drop (Suc i) s). \<not> P c"
    by (auto dest: find_last_idx_Some_split)
  have s: "s = take i s @ [s ! i] @ drop (Suc i) s"
    using i(1) by (simp add: id_take_nth_drop)
  have "rev s = rev (drop (Suc i) s) @ s ! i # rev (take i s)"
    by (subst s) (simp add: i(1))
  moreover have "dropWhile (\<lambda>c. \<not> P c) (rev (drop (Suc i) s) @ s ! i # rev (take i s))
      = s ! i # rev (take i s)"
    using i(2,3) by (subst dropWhile_append2) auto
  ultimately have "rev (dropWhile (\<lambda>c. \<not> P c) (rev s)) = take i s @ [s ! i]"
    by simp
  then show ?thesis using i(1) by (simp add: take_Suc_conv_app_nth)
qed

lemma trimRight_eq: "trimRight s cs = rev (dropWhile (\<lambda>c. c \<in> set cs) (rev s))"
proof (cases "find_last_idx (\<lambda>c. c \<notin> set cs) s")
  case None
  then have "\<forall>c\<in>set (rev s). c \<in> set cs" by (simp add: find_last_idx_None_iff)
  then have "dropWhile (\<lambda>c. c \<in> set cs) (rev s) = []" by (simp add: dropWhile_eq_Nil_conv)
  with None show ?thesis by (simp add: trimRight_def)
next
  case (Some i)
  then show ?thesis by (simp add: trimRight_def take_Suc_find_last)
qed

lemma trimLeft_eq: "trimLeft s cs = dropWhile (\<lambda>c. c \<in> set cs) s"
proof (cases "find_idx (\<lambda>c. c \<notin> set cs) s")
  case None
  then have "\<forall>c\<in>set s. c \<in> set cs" by (simp add: find_idx_None_iff)
  then have "dropWhile (\<lambda>c. c \<in> set cs) s = []" by (simp only: dropWhile_eq_Nil_conv)
  then show ?thesis by (simp only: trimLeft_def None option.case)
next
  case (Some i)
  from find_idx_Some_split [OF Some] show ?thesis by (simp add: trimLeft_def Some)
qed

lemma trimRight_prefix: "\<exists>r. s = trimRight s cs @ r \<and> set r \<subseteq> set cs"
proof -
  have "rev s = takeWhile (\<lambda>c. c \<in> set cs) (rev s) @ dropWhile (\<lambda>c. c \<in> set cs) (rev s)"
    by simp
  then have "s = trimRight s cs @ rev (takeWhile (\<lambda>c. c \<in> set cs) (rev s))"
    by (metis rev_append rev_rev_ident trimRight_eq)
  moreover have "set (rev (takeWhile (\<lambda>c. c \<in> set cs) (rev s))) \<subseteq> set cs"
    by (auto dest: set_takeWhileD)
  ultimately show ?thesis by blast
qed

lemma trimRight_last: "trimRight s cs \<noteq> [] \<Longrightarrow> last (trimRight s cs) \<notin> set cs"
  using hd_dropWhile_not [of "\<lambda>c. c \<in> set cs" "rev s"] by (simp only: trimRight_eq last_rev rev_is_Nil_conv not_False_eq_True)

lemma trimLeft_last: "trimLeft s cs \<noteq> [] \<Longrightarrow> last (trimLeft s cs) = last s"
  unfolding trimLeft_eq by (metis dropWhile_eq_drop last_drop drop_all not_le)

lemma trim_outer: "\<exists>l r. s = l @ trim s cs @ r \<and> set l \<subseteq> set cs \<and> set r \<subseteq> set cs"
proof -
  obtain r where r: "s = trimRight s cs @ r" "set r \<subseteq> set cs"
    using trimRight_prefix by blast
  have "trimRight s cs = takeWhile (\<lambda>c. c \<in> set cs) (trimRight s cs) @ trim s cs"
    by (simp add: trim_def trimLeft_eq)
  moreover have "set (takeWhile (\<lambda>c. c \<in> set cs) (trimRight s cs)) \<subseteq> set cs"
    by (auto dest: set_takeWhileD)
  ultimately show ?thesis using r by (metis append.assoc)
qed

lemma trim_ends:
  assumes "trim s cs \<noteq> []"
  shows "hd (trim s cs) \<notin> set cs" and "last (trim s cs) \<notin> set cs"
proof -
  from assms show "hd (trim s cs) \<notin> set cs"
    using hd_dropWhile_not [of "\<lambda>c. c \<in> set cs" "trimRight s cs"] by (simp only: trim_def trimLeft_eq not_False_eq_True)
  from assms have ne: "trimRight s cs \<noteq> []" by (auto simp: trim_def trimLeft_eq)
  from assms have "last (trim s cs) = last (trimRight s cs)"
    by (simp add: trim_def trimLeft_last)
  with trimRight_last [OF ne] show "last (trim s cs) \<notin> set cs" by simp
qed

lemma trim_id:
  assumes "s = [] \<or> hd s \<notin> set cs \<and> last s \<notin> set cs"
  shows "trim s cs = s"
proof (cases "s = []")
  case False
  with assms have "hd s \<notin> set cs" "last s \<notin> set cs" by auto
  with False have "trimRight s cs = s"
    unfolding trimRight_eq by (cases s rule: rev_cases) auto
  with False \<open>hd s \<notin> set cs\<close> show ?thesis
    by (cases s) (auto simp: trim_def trimLeft_eq)
qed (simp add: trim_def trimRight_def trimLeft_def)

lemma length_trim_le: "length (trim s cs) \<le> length s"
  by (metis trim_outer length_append le_add1 le_add2 le_trans)

section \<open>Escaping\<close>

lemma htmlspecialchars_append_eq: "htmlspecialchars_append s buf = buf @ concat (map escape_char s)"
  by (induction s arbitrary: buf) (simp_all del: escape_char.simps)

lemma escape_char_nonempty: "escape_char c \<noteq> []"
  by simp

lemma escape_char_no_markup: "c' \<in> set (escape_char c) \<Longrightarrow> c' \<notin> {CHR 0x22, CHR 0x27, CHR ''<'', CHR ''>''}"
  by (auto split: if_splits)

text \<open>The inverse of the escaping, which reads the five entities back.\<close>

fun unescape :: "string \<Rightarrow> string" where
  "unescape [] = []"
| "unescape (c # s) =
     (if starts_with ''&amp;'' (c # s) then CHR ''&'' # unescape (drop 4 s)
      else if starts_with ''&quot;'' (c # s) then CHR 0x22 # unescape (drop 5 s)
      else if starts_with ''&#039;'' (c # s) then CHR 0x27 # unescape (drop 5 s)
      else if starts_with ''&lt;'' (c # s) then CHR ''<'' # unescape (drop 3 s)
      else if starts_with ''&gt;'' (c # s) then CHR ''>'' # unescape (drop 3 s)
      else c # unescape s)"

declare unescape.simps [simp del]

lemma unescape_escape_char: "unescape (escape_char c @ s) = c # unescape s"
  by (cases "c = CHR ''&''") (simp_all add: unescape.simps)

lemma unescape_escape: "unescape (concat (map escape_char s)) = s"
proof (induction s)
  case (Cons c s)
  then show ?case
    by (simp only: list.map concat.simps unescape_escape_char)
qed (simp add: unescape.simps)

section \<open>Splitting\<close>

fun join :: "'a list \<Rightarrow> 'a list list \<Rightarrow> 'a list" where
  "join d [] = []"
| "join d [p] = p"
| "join d (p # ps) = p @ d @ join d ps"

lemma join_Cons: "ps \<noteq> [] \<Longrightarrow> join d (p # ps) = p @ d @ join d ps"
  by (cases ps) auto

lemma find_sub_first: "find_sub pat s = Some i \<Longrightarrow> j < i \<Longrightarrow> \<not> starts_with pat (drop j s)"
proof (induction s arbitrary: i j)
  case Nil
  then show ?case by (simp split: if_splits)
next
  case (Cons c s)
  then show ?case by (cases j) (auto split: if_splits)
qed

lemma find_sub_before:
  assumes "find_sub pat s = Some i" and "pat \<noteq> []"
  shows "\<not> occurs_in pat (take i s)"
proof
  assume "occurs_in pat (take i s)"
  then obtain l r where lr: "take i s = l @ pat @ r" by (auto simp: occurs_in_def)
  then have "length l < i" using assms(2)
    by (metis add_less_cancel_left length_append length_greater_0_conv length_take
        less_le_trans add.right_neutral min.cobounded2 trans_less_add1)
  moreover have "s = l @ pat @ r @ drop i s"
    using lr by (metis append.assoc append_take_drop_id)
  then have "starts_with pat (drop (length l) s)"
    by (metis append_eq_conv_conj starts_with_append)
  ultimately show False using find_sub_first [OF assms(1)] by blast
qed

lemma explode_loop_nonempty: "explode_loop d s start \<noteq> []"
  by (subst explode_loop.simps) (simp split: option.splits)

lemma explode_loop_join:
  assumes "d \<noteq> []"
  shows "join d (explode_loop d s start) = drop start s"
  using assms
proof (induction d s start rule: explode_loop.induct)
  case (1 d s start)
  show ?case
  proof (cases "find_sub d (drop start s)")
    case None
    then show ?thesis by (subst explode_loop.simps) simp
  next
    case (Some i)
    from find_sub_Some_split [OF Some]
    have "drop start s = take i (drop start s) @ d @ drop (start + i + length d) s"
      by (simp add: add.commute add.left_commute)
    with 1 Some show ?thesis
      by (subst explode_loop.simps) (simp add: join_Cons explode_loop_nonempty)
  qed
qed

lemma explode_loop_parts:
  assumes "d \<noteq> []"
  shows "p \<in> set (explode_loop d s start) \<Longrightarrow> \<not> occurs_in d p"
  using assms
proof (induction d s start rule: explode_loop.induct)
  case (1 d s start)
  show ?case
  proof (cases "find_sub d (drop start s)")
    case None
    with "1.prems" have "p = drop start s" by (simp add: explode_loop.simps [of d s start])
    with None show ?thesis by (simp add: find_sub_None_iff)
  next
    case (Some i)
    with "1.prems" have "p = take i (drop start s) \<or> p \<in> set (explode_loop d s (start + i + length d))"
      by (simp add: explode_loop.simps [of d s start])
    with 1 Some find_sub_before [OF Some] show ?thesis by blast
  qed
qed

text \<open>The maximal runs free of delimiters, in order.\<close>

function tokens_of :: "('a \<Rightarrow> bool) \<Rightarrow> 'a list \<Rightarrow> 'a list list" where
  "tokens_of P s =
     (case dropWhile P s of
        [] \<Rightarrow> []
      | c # cs \<Rightarrow> takeWhile (\<lambda>c. \<not> P c) (c # cs) # tokens_of P (dropWhile (\<lambda>c. \<not> P c) (c # cs)))"
  by pat_completeness auto
termination
proof (relation "measure (\<lambda>(P, s). length s)")
  fix P :: "'a \<Rightarrow> bool" and s c cs
  assume eq: "dropWhile P s = c # cs"
  then have "\<not> P c" using hd_dropWhile_not [of P s] by simp
  then have "length (dropWhile (\<lambda>c. \<not> P c) (c # cs)) \<le> length cs"
    by (simp add: length_dropWhile_le)
  moreover have "length (c # cs) \<le> length s" by (metis eq length_dropWhile_le)
  ultimately show "((P, dropWhile (\<lambda>c. \<not> P c) (c # cs)), P, s) \<in> measure (\<lambda>(P, s). length s)"
    by simp
qed simp

declare tokens_of.simps [simp del]

lemma tokens_of_Nil: "dropWhile P s = [] \<Longrightarrow> tokens_of P s = []"
  by (subst tokens_of.simps) (simp only: list.case)

lemma tokens_of_Cons:
  "dropWhile P s = c # cs \<Longrightarrow> tokens_of P s =
     takeWhile (\<lambda>c. \<not> P c) (c # cs) # tokens_of P (dropWhile (\<lambda>c. \<not> P c) (c # cs))"
  by (subst tokens_of.simps) (simp only: list.case)

lemma find_from_dropWhile:
  assumes "find_from P s (Some p) = Some q"
  shows "p \<le> q" and "q < length s" and "P (s ! q)"
    and "drop q s = dropWhile (\<lambda>c. \<not> P c) (drop p s)"
    and "take (q - p) (drop p s) = takeWhile (\<lambda>c. \<not> P c) (drop p s)"
proof -
  from assms obtain i where i: "find_idx P (drop p s) = Some i" "q = p + i"
    by (auto simp: find_from_def)
  from find_idx_Some_split [OF i(1)] i(2)
  show "p \<le> q" and "q < length s" and "P (s ! q)"
    and "drop q s = dropWhile (\<lambda>c. \<not> P c) (drop p s)"
    and "take (q - p) (drop p s) = takeWhile (\<lambda>c. \<not> P c) (drop p s)"
    by (auto simp: add.commute)
qed

lemma find_from_None: "find_from P s (Some p) = None \<Longrightarrow> \<forall>c\<in>set (drop p s). \<not> P c"
  by (simp add: find_from_def find_idx_None_iff)

lemma tokens_of_dropWhile: "tokens_of P (dropWhile P s) = tokens_of P s"
  by (simp add: tokens_of.simps [of P s] tokens_of.simps [of P "dropWhile P s"])

lemma stringTok_loop_spec:
  assumes "pos = find_from (\<lambda>c. c \<in> set ds) s lastPos"
    and "\<And>l. lastPos = Some l \<Longrightarrow> l < length s \<and> s ! l \<notin> set ds \<and> length s - l < fuel"
    and "0 < fuel"
  shows "stringTok_loop fuel s ds lastPos pos =
     (case lastPos of None \<Rightarrow> [] | Some l \<Rightarrow> tokens_of (\<lambda>c. c \<in> set ds) (drop l s))"
  using assms
proof (induction fuel arbitrary: lastPos pos)
  case (Suc fuel)
  show ?case
  proof (cases lastPos)
    case None
    with Suc.prems show ?thesis by (simp add: find_from_def)
  next
    case (Some l)
    with Suc.prems(2) have l: "l < length s" "s ! l \<notin> set ds" "length s - l < Suc fuel" by auto
    then obtain c cs where c: "drop l s = c # cs" "c \<notin> set ds"
      by (metis Cons_nth_drop_Suc)
    have unfold: "tokens_of (\<lambda>c. c \<in> set ds) (drop l s) =
        takeWhile (\<lambda>c. c \<notin> set ds) (drop l s) #
        tokens_of (\<lambda>c. c \<in> set ds) (dropWhile (\<lambda>c. c \<notin> set ds) (drop l s))"
      using c by (subst tokens_of.simps) simp
    show ?thesis
    proof (cases pos)
      case None
      with Suc.prems(1) Some have "\<forall>c\<in>set (drop l s). c \<notin> set ds"
        by (auto dest!: find_from_None [OF sym])
      then have "takeWhile (\<lambda>c. c \<notin> set ds) (drop l s) = drop l s"
        and "dropWhile (\<lambda>c. c \<notin> set ds) (drop l s) = []"
        by (auto simp: takeWhile_eq_all_conv)
      with None Some unfold show ?thesis
        by (cases fuel) (simp_all add: tok_substr_def find_from_def tokens_of.simps [of _ "[]"])
    next
      case (Some q)
      with Suc.prems(1) \<open>lastPos = Some l\<close>
      have q: "find_from (\<lambda>c. c \<in> set ds) s (Some l) = Some q" by simp
      note qs = find_from_dropWhile [OF q]
      let ?l' = "find_from (\<lambda>c. c \<notin> set ds) s (Some q)"
      have "l \<noteq> q" using qs(3) l(2) by auto
      with qs(1) have lq: "l < q" by simp
      have "stringTok_loop fuel s ds ?l' (find_from (\<lambda>c. c \<in> set ds) s ?l') =
          (case ?l' of None \<Rightarrow> [] | Some l \<Rightarrow> tokens_of (\<lambda>c. c \<in> set ds) (drop l s))"
      proof (rule Suc.IH [OF refl])
        fix l' assume "?l' = Some l'"
        from find_from_dropWhile [OF this] lq l
        show "l' < length s \<and> s ! l' \<notin> set ds \<and> length s - l' < fuel" by auto
      next
        from lq qs(2) l show "0 < fuel" by simp
      qed
      also have "\<dots> = tokens_of (\<lambda>c. c \<in> set ds) (drop q s)"
      proof (cases ?l')
        case None
        from find_from_None [OF None] have "dropWhile (\<lambda>c. c \<in> set ds) (drop q s) = []"
          by (simp add: dropWhile_eq_Nil_conv)
        then show ?thesis by (simp only: None option.case tokens_of_Nil)
      next
        case (Some l')
        from find_from_dropWhile(4) [OF Some] show ?thesis
          by (simp add: Some tokens_of_dropWhile)
      qed
      finally show ?thesis
        using unfold qs(4,5) \<open>lastPos = Some l\<close> Some by (simp add: tok_substr_def Let_def)
    qed
  qed
qed simp

lemma stringTok_eq: "stringTok s ds ts = ts @ tokens_of (\<lambda>c. c \<in> set ds) s"
proof -
  let ?l = "find_from (\<lambda>c. c \<notin> set ds) s (Some 0)"
  have "stringTok_loop (Suc (length s)) s ds ?l (find_from (\<lambda>c. c \<in> set ds) s ?l) =
      (case ?l of None \<Rightarrow> [] | Some l \<Rightarrow> tokens_of (\<lambda>c. c \<in> set ds) (drop l s))"
    by (rule stringTok_loop_spec) (auto dest: find_from_dropWhile)
  also have "\<dots> = tokens_of (\<lambda>c. c \<in> set ds) s"
  proof (cases ?l)
    case None
    from find_from_None [OF None] have "dropWhile (\<lambda>c. c \<in> set ds) s = []"
      by (simp add: dropWhile_eq_Nil_conv)
    then show ?thesis by (simp only: None option.case tokens_of_Nil)
  next
    case (Some l)
    from find_from_dropWhile(4) [OF Some] show ?thesis
      by (simp add: Some tokens_of_dropWhile)
  qed
  finally show ?thesis by (simp add: stringTok_def Let_def)
qed

lemma filter_dropWhile_not: "filter (\<lambda>c. \<not> P c) (dropWhile P s) = filter (\<lambda>c. \<not> P c) s"
  by (induction s) auto

lemma takeWhile_filter_dropWhile:
  "takeWhile Q s @ filter Q (dropWhile Q s) = filter Q s"
  by (induction s) auto

lemma tokens_of_props:
  "(\<forall>t\<in>set (tokens_of P s). t \<noteq> [] \<and> (\<forall>c\<in>set t. \<not> P c))
   \<and> concat (tokens_of P s) = filter (\<lambda>c. \<not> P c) s"
proof (induction P s rule: tokens_of.induct)
  case (1 P s)
  show ?case
  proof (cases "dropWhile P s")
    case Nil
    from filter_dropWhile_not [of P s] have "filter (\<lambda>c. \<not> P c) s = []"
      by (simp only: Nil list.simps filter.simps)
    then show ?thesis by (simp only: tokens_of_Nil [OF Nil] concat.simps list.set) simp
  next
    case (Cons c cs)
    let ?t = "takeWhile (\<lambda>c. \<not> P c) (c # cs)"
    let ?r = "tokens_of P (dropWhile (\<lambda>c. \<not> P c) (c # cs))"
    have "\<not> P c" using hd_dropWhile_not [of P s] Cons by simp
    then have t: "?t \<noteq> []" "\<forall>c\<in>set ?t. \<not> P c"
      by (auto dest: set_takeWhileD)
    note IH = "1.IH" [OF Cons]
    have "concat (?t # ?r) = ?t @ concat ?r" by (rule concat.simps)
    also have "\<dots> = ?t @ filter (\<lambda>c. \<not> P c) (dropWhile (\<lambda>c. \<not> P c) (c # cs))"
      by (simp only: conjunct2 [OF IH])
    also have "\<dots> = filter (\<lambda>c. \<not> P c) (c # cs)"
      by (rule takeWhile_filter_dropWhile)
    also have "\<dots> = filter (\<lambda>c. \<not> P c) s"
      using filter_dropWhile_not [of P s] by (simp only: Cons)
    finally have 2: "concat (tokens_of P s) = filter (\<lambda>c. \<not> P c) s"
      by (subst tokens_of_Cons [OF Cons])
    have "\<forall>u\<in>insert ?t (set ?r). u \<noteq> [] \<and> (\<forall>c\<in>set u. \<not> P c)"
      by (rule ballI, erule insertE, hypsubst, rule conjI [OF t], erule bspec [OF conjunct1 [OF IH]])
    then have "\<forall>u\<in>set (tokens_of P s). u \<noteq> [] \<and> (\<forall>c\<in>set u. \<not> P c)"
      by (subst tokens_of_Cons [OF Cons]) (subst list.set)
    with 2 show ?thesis by (rule conjI [rotated])
  qed
qed

section \<open>What the functions promise\<close>

text \<open>
  Escaping always succeeds on a present string; its output holds no quote and no angle
  bracket, and reading the five entities back gives the input, so no two inputs escape to
  the same text.
\<close>

theorem htmlspecialchars_safe:
  "\<exists>out. htmlspecialchars (Some s) = Inr out
     \<and> set out \<inter> {CHR 0x22, CHR 0x27, CHR ''<'', CHR ''>''} = {} \<and> unescape out = s"
  using escape_char_no_markup
  by (fastforce simp: htmlspecialchars_def htmlspecialchars_append_eq unescape_escape
      simp del: escape_char.simps)

text \<open>
  Trimming removes an outer run of trim characters on each side, nothing else, and
  leaves a string that neither begins nor ends with one.
\<close>

theorem trim_removes_outer_runs:
  assumes "trim s cs \<noteq> []"
  shows "\<exists>l r. s = l @ trim s cs @ r \<and> set l \<subseteq> set cs \<and> set r \<subseteq> set cs
    \<and> hd (trim s cs) \<notin> set cs \<and> last (trim s cs) \<notin> set cs"
  using trim_outer [of s cs] trim_ends [OF assms] by blast

theorem trim_removes_outer_runs_witness:
  "\<exists>l r. '' a b  '' = l @ ''a b'' @ r \<and> set l \<subseteq> set whiteSpaces \<and> set r \<subseteq> set whiteSpaces"
proof -
  have eq: "trim '' a b  '' whiteSpaces = ''a b''" by (simp add: trim_def trimRight_def trimLeft_def whiteSpaces_def)
  have "trim '' a b  '' whiteSpaces \<noteq> []" by (simp add: eq)
  from trim_removes_outer_runs [OF this] show ?thesis unfolding eq by blast
qed

text \<open>
  Splitting at a non-empty delimiter appends pieces that hold no delimiter and that,
  joined with it, are the string again.
\<close>

theorem explode_inverse:
  assumes "delimiter \<noteq> []"
  shows "\<exists>ps. explode_ptr delimiter s (Some arr) = Inr (arr @ ps) \<and> join delimiter ps = s
    \<and> (\<forall>p\<in>set ps. \<not> occurs_in delimiter p)"
  using assms explode_loop_join [of delimiter s 0] explode_loop_parts [of delimiter _ s 0]
  by (auto simp: explode_ptr_def explode_def)

theorem explode_inverse_witness:
  "\<exists>ps. explode_ptr ''.'' ''a.b.'' (Some [''x'']) = Inr ([''x''] @ ps) \<and> join ''.'' ps = ''a.b.''"
  using explode_inverse [of "''.''" "''a.b.''" "[''x'']"] by blast

text \<open>
  Tokenizing appends the maximal runs of characters outside the delimiter set: no
  token is empty or holds a delimiter, and together they keep every other character in
  order.
\<close>

theorem stringTok_tokens:
  "\<exists>ts. stringTok_ptr s delims (Some tokens) = Inr (tokens @ ts) \<and> concat ts = filter (\<lambda>c. c \<notin> set delims) s
     \<and> [] \<notin> set ts \<and> set (concat ts) \<inter> set delims = {}"
  using tokens_of_props [of "\<lambda>c. c \<in> set delims" s] unfolding stringTok_ptr_def stringTok_eq by auto

end
