(* ===== verification/Node.thy ===== *)
theory Node
  imports Utils
begin

unbundle bit_operations_syntax

text \<open>
  The template syntax tree of src/node.hpp and the operations of src/node.cpp that do
  not encode or print it: the enumerators and their bit masks, the constructors,
  \<open>setData\<close>, the moved-from state, \<open>originalSectionText\<close> and
  \<open>discardSource\<close>. Children and partials are owning pointers in the code and may be
  null, so they are options here; the private source metadata (a shared buffer and a
  range in it) is kept as the code has it.
\<close>

section \<open>Enumerators\<close>

datatype node_type =
    TypeNone | TypeRoot | TypeOutput | TypeTag | TypeContainer
  | TypeVariable | TypeNegate | TypeSection | TypeStop | TypeComment | TypePartial
  | TypeInlinePartial
  | TypeHasChildren | TypeHasData | TypeHasNoString | TypeHasDot

fun node_type_value :: "node_type \<Rightarrow> nat" where
  "node_type_value TypeNone = 0"
| "node_type_value TypeRoot = 1"
| "node_type_value TypeOutput = 2"
| "node_type_value TypeTag = 4"
| "node_type_value TypeContainer = 8"
| "node_type_value TypeVariable = 16"
| "node_type_value TypeNegate = 32"
| "node_type_value TypeSection = 64"
| "node_type_value TypeStop = 128"
| "node_type_value TypeComment = 256"
| "node_type_value TypePartial = 512"
| "node_type_value TypeInlinePartial = 1024"
| "node_type_value TypeHasChildren = 1 OR 32 OR 64 OR 1024"
| "node_type_value TypeHasData = 16 OR 32 OR 64 OR 512"
| "node_type_value TypeHasNoString = 0 OR 1 OR 8"
| "node_type_value TypeHasDot = 32 OR 64 OR 128 OR 4 OR 16"

lemma node_type_value_inject: "node_type_value a = node_type_value b \<longleftrightarrow> a = b"
  by (cases a; cases b) simp_all

instantiation node_type :: linorder
begin

definition less_eq_node_type :: "node_type \<Rightarrow> node_type \<Rightarrow> bool" where
  "less_eq_node_type a b \<longleftrightarrow> node_type_value a \<le> node_type_value b"

definition less_node_type :: "node_type \<Rightarrow> node_type \<Rightarrow> bool" where
  "less_node_type a b \<longleftrightarrow> node_type_value a < node_type_value b"

instance
  by standard (auto simp: less_eq_node_type_def less_node_type_def node_type_value_inject)

end

text \<open>\<open>type & mask\<close>, as a condition.\<close>

definition type_and :: "node_type \<Rightarrow> node_type \<Rightarrow> bool" where
  "type_and t m \<longleftrightarrow> node_type_value t AND node_type_value m \<noteq> 0"

text \<open>
  Which of the types a node can really have each mask selects; the four masks themselves
  are enumerators, but no operation of the library gives one to a node.
\<close>

definition plain_type :: "node_type \<Rightarrow> bool" where
  "plain_type t \<longleftrightarrow> t \<notin> {TypeHasChildren, TypeHasData, TypeHasNoString, TypeHasDot}"

lemma type_and_HasChildren:
  "plain_type t \<Longrightarrow> type_and t TypeHasChildren \<longleftrightarrow> t \<in> {TypeRoot, TypeNegate, TypeSection, TypeInlinePartial}"
  by (cases t) (simp_all add: type_and_def plain_type_def)

lemma type_and_HasData:
  "plain_type t \<Longrightarrow> type_and t TypeHasData \<longleftrightarrow> t \<in> {TypeVariable, TypeNegate, TypeSection, TypePartial}"
  by (cases t) (simp_all add: type_and_def plain_type_def)

lemma type_and_HasNoString:
  "plain_type t \<Longrightarrow> type_and t TypeHasNoString \<longleftrightarrow> t \<in> {TypeRoot, TypeContainer}"
  by (cases t) (simp_all add: type_and_def plain_type_def)

lemma type_and_HasDot:
  "plain_type t \<Longrightarrow> type_and t TypeHasDot \<longleftrightarrow> t \<in> {TypeNegate, TypeSection, TypeStop, TypeTag, TypeVariable}"
  by (cases t) (simp_all add: type_and_def plain_type_def)

lemmas type_and_simps = type_and_def

definition FlagNone :: int where "FlagNone = 0"

definition FlagEscape :: int where "FlagEscape = 1"

definition FlagLambdaOnly :: int where "FlagLambdaOnly = 2"

definition FlagPartialIndent :: int where "FlagPartialIndent = 4"

lemmas flag_defs = FlagNone_def FlagEscape_def FlagLambdaOnly_def FlagPartialIndent_def

definition has_flag :: "int \<Rightarrow> int \<Rightarrow> bool" where
  "has_flag flags f \<longleftrightarrow> flags AND f \<noteq> 0"

section \<open>Nodes\<close>

text \<open>
  A source buffer is the string a \<open>shared_ptr\<close> of the tokenizer points to, with the
  identity of that allocation: two nodes share their source when the identities agree.
\<close>

datatype source_buffer = Buffer (buffer_id: nat) (buffer_text: string)

datatype node = Node
  (ntype: node_type)
  (nflags: int)
  (ndata: "string option")
  (dataParts: "string list")
  (children: "node option list")
  (child: "node option")
  (partials: "(string \<times> node option) list")
  (startSequence: "string option")
  (stopSequence: "string option")
  (sectionSource: "source_buffer option")
  (sectionBegin: nat)
  (sectionLength: nat)

text \<open>The default constructor, which is also the state \<open>resetMovedFrom\<close> leaves.\<close>

definition empty_node :: node where
  "empty_node = Node TypeNone FlagNone None [] [] None [] None None None 0 0"

text \<open>\<open>Node::setData\<close>: the parts are kept only for a dotted name.\<close>

definition data_parts_of :: "node_type \<Rightarrow> string \<Rightarrow> string list" where
  "data_parts_of type value =
     (if type_and type TypeHasDot
      then (if find_idx (\<lambda>c. c = CHR ''.'') value \<noteq> None then explode ''.'' value [] else [])
      else [])"

fun setData :: "string \<Rightarrow> node \<Rightarrow> node" where
  "setData value (Node ty fl d dp cs ch ps st sp src b l) =
     Node ty fl (Some value) (data_parts_of ty value) cs ch ps st sp src b l"

definition make_node :: "node_type \<Rightarrow> string \<Rightarrow> int \<Rightarrow> node" where
  "make_node type data flags =
     setData data (Node type flags None [] [] None [] None None None 0 0)"

text \<open>
  The move constructor and move assignment: the target takes every field, the source is
  reset.
\<close>

definition move_node :: "node \<Rightarrow> node \<times> node" where
  "move_node other = (other, empty_node)"

fun set_children :: "node option list \<Rightarrow> node \<Rightarrow> node" where
  "set_children cs (Node ty fl d dp _ ch ps st sp src b l) = Node ty fl d dp cs ch ps st sp src b l"

fun set_partials :: "(string \<times> node option) list \<Rightarrow> node \<Rightarrow> node" where
  "set_partials ps (Node ty fl d dp cs ch _ st sp src b l) = Node ty fl d dp cs ch ps st sp src b l"

text \<open>\<open>parent->children.push_back(node)\<close>\<close>

definition push_child :: "node \<Rightarrow> node \<Rightarrow> node" where
  "push_child c n = set_children (children n @ [Some c]) n"

fun set_delimiters :: "string \<Rightarrow> string \<Rightarrow> node \<Rightarrow> node" where
  "set_delimiters s p (Node ty fl d dp cs ch ps _ _ src b l) =
     Node ty fl d dp cs ch ps (Some s) (Some p) src b l"

fun set_source :: "source_buffer option \<Rightarrow> nat \<Rightarrow> node \<Rightarrow> node" where
  "set_source src b (Node ty fl d dp cs ch ps st sp _ _ l) =
     Node ty fl d dp cs ch ps st sp src b l"

fun set_section_length :: "nat \<Rightarrow> node \<Rightarrow> node" where
  "set_section_length l (Node ty fl d dp cs ch ps st sp src b _) =
     Node ty fl d dp cs ch ps st sp src b l"

text \<open>
  \<open>originalSectionText\<close>: \<open>substr\<close> throws for a start past the end of the
  buffer (in a \<open>noexcept\<close> function, which would terminate the program); the parser
  only records ranges of the buffer, see the tokenizer's invariant. \<open>substr\<close> cuts
  the length at the end of the string, as \<open>take\<close> does.
\<close>

definition originalSectionText :: "node \<Rightarrow> string option" where
  "originalSectionText n =
     (if ntype n \<noteq> TypeSection then None
      else case sectionSource n of
             None \<Rightarrow> None
           | Some src \<Rightarrow> Some (take (sectionLength n) (drop (sectionBegin n) (buffer_text src))))"

section \<open>Walking the tree\<close>

lemma size_children: "Some m \<in> set (children n) \<Longrightarrow> size m < size n"
proof (cases n)
  case (Node ty fl d dp cs ch ps st sp src b l)
  assume "Some m \<in> set (children n)"
  with Node have "Some m \<in> set cs" by simp
  then have le: "size_option size (Some m) \<le> size_list (size_option size) cs"
    by (rule size_list_estimation' [OF _ order_refl])
  with Node show ?thesis by simp
qed

lemma size_children_list [simp]: "size_list (size_option size) (children n) < size n"
  by (cases n) simp

lemma size_child: "child n = Some m \<Longrightarrow> size m < size n"
  by (cases n; cases "child n") simp_all

lemma size_partials: "(k, Some m) \<in> set (partials n) \<Longrightarrow> size m < size n"
proof (cases n)
  case (Node ty fl d dp cs ch ps st sp src b l)
  assume "(k, Some m) \<in> set (partials n)"
  with Node have "(k, Some m) \<in> set ps" by simp
  then have "size_prod (\<lambda>_. 0) (size_option size) (k, Some m)
      \<le> size_list (size_prod (\<lambda>_. 0) (size_option size)) ps"
    by (rule size_list_estimation' [OF _ order_refl])
  with Node show ?thesis by simp
qed

lemma node_induct [case_names node]:
  assumes "\<And>n. (\<And>m. Some m \<in> set (children n) \<Longrightarrow> P m) \<Longrightarrow> P n"
  shows "P n"
proof (induction n rule: measure_induct_rule [where f = size])
  case (less n)
  show ?case by (rule assms, rule less.IH, erule size_children)
qed

text \<open>The nodes of a tree through its children, and its height in nodes.\<close>

function node_count :: "node \<Rightarrow> nat" where
  "node_count n =
     Suc (sum_list (map (\<lambda>c. case c of None \<Rightarrow> 0 | Some m \<Rightarrow> node_count m) (children n)))"
  by pat_completeness auto
termination
  by (relation "measure size") (auto simp: size_children)

declare node_count.simps [simp del]

function node_height :: "node \<Rightarrow> nat" where
  "node_height n =
     Suc (fold max (map (\<lambda>c. case c of None \<Rightarrow> 0 | Some m \<Rightarrow> node_height m) (children n)) 0)"
  by pat_completeness auto
termination
  by (relation "measure size") (auto simp: size_children)

declare node_height.simps [simp del]

lemma fold_max_le_iff: "fold max xs (a::nat) \<le> b \<longleftrightarrow> a \<le> b \<and> (\<forall>x\<in>set xs. x \<le> b)"
  by (induction xs arbitrary: a) auto

lemma node_height_le_iff:
  "node_height n \<le> b \<longleftrightarrow> 1 \<le> b \<and> (\<forall>m. Some m \<in> set (children n) \<longrightarrow> node_height m \<le> b - 1)"
proof -
  have "node_height n \<le> b \<longleftrightarrow>
      1 \<le> b \<and> (\<forall>c\<in>set (children n). (case c of None \<Rightarrow> 0 | Some m \<Rightarrow> node_height m) \<le> b - 1)"
    by (subst node_height.simps) (cases b; simp add: fold_max_le_iff)
  also have "(\<forall>c\<in>set (children n). (case c of None \<Rightarrow> 0 | Some m \<Rightarrow> node_height m) \<le> b - 1)
      \<longleftrightarrow> (\<forall>m. Some m \<in> set (children n) \<longrightarrow> node_height m \<le> b - 1)"
    by (metis (no_types, lifting) le0 option.case_eq_if option.collapse option.sel option.simps(3))
  finally show ?thesis .
qed

lemma node_height_pos: "0 < node_height n"
  by (subst node_height.simps) simp

text \<open>
  \<open>discardSource\<close> gathers the nodes of the tree with a work list (children,
  container children and partials included) and then resets each one's source. Writing to
  the gathered nodes changes exactly these fields throughout the tree, which is what the
  function below returns; the work list itself is \<open>gather\<close>.
\<close>

definition owned_nodes :: "node \<Rightarrow> node list" where
  "owned_nodes n =
     (case child n of None \<Rightarrow> [] | Some c \<Rightarrow> [c])
     @ List.map_filter (\<lambda>c. c) (children n)
     @ List.map_filter snd (partials n)"

lemma owned_nodes_size: "m \<in> set (owned_nodes n) \<Longrightarrow> size m < size n"
  by (auto simp: owned_nodes_def List.map_filter_def size_child size_children size_partials
      split: option.splits)

primrec discardSource :: "node \<Rightarrow> node" where
  "discardSource (Node ty fl d dp cs ch ps st sp src b l) =
     Node ty fl d dp (map (map_option discardSource) cs) (map_option discardSource ch)
       (map (map_prod id (map_option discardSource)) ps) st sp None 0 0"

end
