(* ===== verification/Template_String.thy ===== *)
theory Template_String
  imports Node
begin

text \<open>
  Reconstruction of template source from a tree, \<open>to_template_string\<close> and
  \<open>children_to_template_string\<close> of src/node.cpp, with its three budgets (output
  bytes, nesting depth, visited nodes). The text a tree stands for is also given as a
  plain function; the lemmas show that the budgeted code computes it and say exactly when
  it succeeds.
\<close>

section \<open>The code\<close>

record template_limits =
  tl_maxOutputBytes :: nat
  tl_maxNestingDepth :: nat
  tl_maxNodes :: nat

definition default_template_limits :: template_limits where
  "default_template_limits =
     \<lparr>tl_maxOutputBytes = 64 * 1024 * 1024, tl_maxNestingDepth = 64, tl_maxNodes = 100001\<rparr>"

definition templateStringImplementationMaxDepth :: nat where
  "templateStringImplementationMaxDepth = 256"

text \<open>
  \<open>TemplateStringState\<close>: the visited nodes, and the output under construction (a
  separate reference argument in the code). The limits and the effective depth, the
  smaller of the caller's and the ceiling, are arguments.
\<close>

record template_state =
  ts_nodes :: nat
  ts_output :: string

definition effective_depth :: "template_limits \<Rightarrow> nat \<Rightarrow> nat" where
  "effective_depth limits ceiling = min (tl_maxNestingDepth limits) ceiling"

definition checkTemplateStringBudget :: "template_limits \<Rightarrow> nat \<Rightarrow> nat \<Rightarrow> (template_state, unit) eff" where
  "checkTemplateStringBudget limits maxDepth depth =
     then_eff (throw_when (\<lambda>_. depth \<ge> maxDepth) (Exception ''Template node nesting limit exceeded''))
    (then_eff (throw_when (\<lambda>st. ts_nodes st \<ge> tl_maxNodes limits)
                (Exception ''Template node count limit exceeded''))
       (writes (ts_nodes_update Suc)))"

definition appendTemplateString :: "template_limits \<Rightarrow> string \<Rightarrow> (template_state, unit) eff" where
  "appendTemplateString limits value =
     then_eff (throw_when (\<lambda>st. length (ts_output st) > tl_maxOutputBytes limits
                             \<or> length value > tl_maxOutputBytes limits - length (ts_output st))
                (Exception ''Template reconstruction size limit exceeded''))
       (writes (ts_output_update (\<lambda>out. out @ value)))"

definition requireNodeData :: "node \<Rightarrow> ('s, string) eff" where
  "requireNodeData n =
     (case ndata n of None \<Rightarrow> throw (Exception ''Invalid node without data'') | Some d \<Rightarrow> ret d)"

definition appendNodeData :: "template_limits \<Rightarrow> node \<Rightarrow> (template_state, unit) eff" where
  "appendNodeData limits n = bind_eff (requireNodeData n) (appendTemplateString limits)"

definition appendSigil :: "template_limits \<Rightarrow> node \<Rightarrow> (template_state, unit) eff" where
  "appendSigil limits n =
     then_eff (if ntype n = TypeVariable \<and> \<not> has_flag (nflags n) FlagEscape
               then appendTemplateString limits ''&'' else ret ())
       (if ntype n = TypeNegate then appendTemplateString limits ''^''
        else if ntype n = TypeSection then appendTemplateString limits ''#''
        else if ntype n = TypeStop then appendTemplateString limits ''/''
        else ret ())"

function appendNodeTemplate ::
    "template_limits \<Rightarrow> nat \<Rightarrow> string \<Rightarrow> string \<Rightarrow> node \<Rightarrow> nat \<Rightarrow> (template_state, unit) eff"
  and appendNodeChildren ::
    "template_limits \<Rightarrow> nat \<Rightarrow> string \<Rightarrow> string \<Rightarrow> node option list \<Rightarrow> nat \<Rightarrow> bool \<Rightarrow> (template_state, unit) eff"
where
  "appendNodeTemplate limits maxDepth start stop n depth =
     then_eff (checkTemplateStringBudget limits maxDepth depth)
    (then_eff (throw_when (\<lambda>_. \<not> type_and (ntype n) TypeHasNoString \<and> ndata n = None)
                (Exception ''Invalid node without data''))
    (case ntype n of
       TypeComment \<Rightarrow>
         then_eff (appendTemplateString limits start)
        (then_eff (appendTemplateString limits ''!'')
        (then_eff (appendNodeData limits n)
           (appendTemplateString limits stop)))
     | TypeOutput \<Rightarrow> appendNodeData limits n
     | TypePartial \<Rightarrow>
         then_eff (appendTemplateString limits start)
        (then_eff (appendTemplateString limits ''>'')
        (then_eff (appendNodeData limits n)
           (appendTemplateString limits stop)))
     | TypeRoot \<Rightarrow>
         appendNodeChildren limits maxDepth start stop (children n) (depth + 1) False
     | _ \<Rightarrow>
         if ntype n \<in> {TypeNegate, TypeSection, TypeStop, TypeVariable} then
           then_eff (appendTemplateString limits start)
          (then_eff (appendSigil limits n)
          (then_eff (appendNodeData limits n)
          (then_eff (appendTemplateString limits stop)
             (appendNodeChildren limits maxDepth start stop (children n) (depth + 1) False))))
         else ret ()))"
| "appendNodeChildren limits maxDepth start stop [] depth skipStops = ret ()"
| "appendNodeChildren limits maxDepth start stop (None # cs) depth skipStops =
     throw (Exception ''Invalid null child node'')"
| "appendNodeChildren limits maxDepth start stop (Some c # cs) depth skipStops =
     then_eff (if skipStops \<and> ntype c = TypeStop
               then checkTemplateStringBudget limits maxDepth depth
               else appendNodeTemplate limits maxDepth start stop c depth)
       (appendNodeChildren limits maxDepth start stop cs depth skipStops)"
  by pat_completeness auto
termination
  by (relation "measure (case_sum (\<lambda>(L, D, s, p, n, d). size n)
    (\<lambda>(L, D, s, p, cs, d, b). size_list (size_option size) cs))") simp_all

declare appendNodeTemplate.simps [simp del]

definition childrenTemplateString ::
    "template_limits \<Rightarrow> nat \<Rightarrow> node \<Rightarrow> string \<Rightarrow> string \<Rightarrow> (template_state, unit) eff" where
  "childrenTemplateString limits maxDepth n start stop =
     then_eff (checkTemplateStringBudget limits maxDepth 0)
       (appendNodeChildren limits maxDepth start stop (children n) 1 True)"

definition run_template :: "(template_state, unit) eff \<Rightarrow> string result" where
  "run_template m =
     (case m \<lparr>ts_nodes = 0, ts_output = []\<rparr> of
        (Inl e, _) \<Rightarrow> Inl e
      | (Inr _, st) \<Rightarrow> Inr (ts_output st))"

definition to_template_string :: "node \<Rightarrow> string \<Rightarrow> string \<Rightarrow> template_limits \<Rightarrow> string result" where
  "to_template_string n start stop limits =
     run_template (appendNodeTemplate limits
       (effective_depth limits templateStringImplementationMaxDepth) start stop n 0)"

definition children_to_template_string ::
    "node \<Rightarrow> string \<Rightarrow> string \<Rightarrow> template_limits \<Rightarrow> string result" where
  "children_to_template_string n start stop limits =
     run_template (childrenTemplateString limits
       (effective_depth limits templateStringImplementationMaxDepth) n start stop)"

section \<open>The text a tree stands for\<close>

definition descends :: "node \<Rightarrow> bool" where
  "descends n \<longleftrightarrow> ntype n \<in> {TypeRoot, TypeNegate, TypeSection, TypeStop, TypeVariable}"

definition sigil :: "node \<Rightarrow> string" where
  "sigil n =
     (case ntype n of
        TypeVariable \<Rightarrow> if has_flag (nflags n) FlagEscape then [] else ''&''
      | TypeNegate \<Rightarrow> ''^'' | TypeSection \<Rightarrow> ''#'' | TypeStop \<Rightarrow> ''/''
      | TypeComment \<Rightarrow> ''!'' | TypePartial \<Rightarrow> ''>'' | _ \<Rightarrow> [])"

definition own_text :: "string \<Rightarrow> string \<Rightarrow> node \<Rightarrow> string" where
  "own_text start stop n =
     (if ntype n = TypeOutput then the (ndata n)
      else if ntype n \<in> {TypeVariable, TypeNegate, TypeSection, TypeStop, TypeComment, TypePartial}
      then start @ sigil n @ the (ndata n) @ stop
      else [])"

function node_text :: "string \<Rightarrow> string \<Rightarrow> node \<Rightarrow> string" where
  "node_text start stop n =
     own_text start stop n @
     (if descends n
      then concat (map (\<lambda>c. case c of None \<Rightarrow> [] | Some m \<Rightarrow> node_text start stop m) (children n))
      else [])"
  by pat_completeness auto
termination
  by (relation "measure (\<lambda>(s, p, n). size n)") (auto simp: size_children)

function node_visits :: "node \<Rightarrow> nat" where
  "node_visits n =
     Suc (if descends n
          then sum_list (map (\<lambda>c. case c of None \<Rightarrow> 0 | Some m \<Rightarrow> node_visits m) (children n))
          else 0)"
  by pat_completeness auto
termination
  by (relation "measure size") (auto simp: size_children)

text \<open>No node of the printed part is deeper than \<open>room\<close>, and each can be printed.\<close>

function printable :: "node \<Rightarrow> nat \<Rightarrow> bool" where
  "printable n room \<longleftrightarrow>
     0 < room \<and> (type_and (ntype n) TypeHasNoString \<or> ndata n \<noteq> None)
     \<and> (descends n \<longrightarrow> (\<forall>c\<in>set (children n). case c of None \<Rightarrow> False | Some m \<Rightarrow> printable m (room - 1)))"
  by pat_completeness auto
termination
  by (relation "measure (\<lambda>(n, room). size n)") (auto simp: size_children)

declare node_text.simps [simp del] node_visits.simps [simp del] printable.simps [simp del]

text \<open>The same of a child list, whose closing tags \<open>skipStops\<close> leaves out.\<close>

definition skipped :: "bool \<Rightarrow> node \<Rightarrow> bool" where
  "skipped skipStops n \<longleftrightarrow> skipStops \<and> ntype n = TypeStop"

lemma skipped_False: "skipped False n = False"
  by (simp add: skipped_def)

definition children_text :: "string \<Rightarrow> string \<Rightarrow> bool \<Rightarrow> node option list \<Rightarrow> string" where
  "children_text start stop skipStops cs =
     concat (map (\<lambda>c. case c of None \<Rightarrow> [] | Some m \<Rightarrow>
       if skipped skipStops m then [] else node_text start stop m) cs)"

definition children_visits :: "bool \<Rightarrow> node option list \<Rightarrow> nat" where
  "children_visits skipStops cs =
     sum_list (map (\<lambda>c. case c of None \<Rightarrow> 0 | Some m \<Rightarrow>
       if skipped skipStops m then 1 else node_visits m) cs)"

definition children_printable :: "bool \<Rightarrow> node option list \<Rightarrow> nat \<Rightarrow> bool" where
  "children_printable skipStops cs room \<longleftrightarrow>
     (\<forall>c\<in>set cs. case c of None \<Rightarrow> False | Some m \<Rightarrow>
       if skipped skipStops m then 0 < room else printable m room)"

lemmas children_defs = children_text_def children_visits_def children_printable_def

lemma children_Nil [simp]:
  "children_text start stop sk [] = []" "children_visits sk [] = 0" "children_printable sk [] room"
  by (simp_all add: children_defs)

lemma children_Some [simp]:
  "children_text start stop sk (Some m # cs) =
     (if skipped sk m then [] else node_text start stop m) @ children_text start stop sk cs"
  "children_visits sk (Some m # cs) =
     (if skipped sk m then 1 else node_visits m) + children_visits sk cs"
  "children_printable sk (Some m # cs) room \<longleftrightarrow>
     (if skipped sk m then 0 < room else printable m room) \<and> children_printable sk cs room"
  by (simp_all add: children_defs)

lemma node_text_eq:
  "node_text start stop n = own_text start stop n @
     (if descends n then children_text start stop False (children n) else [])"
  unfolding children_text_def skipped_False if_False by (rule node_text.simps)

lemma node_visits_eq:
  "node_visits n = Suc (if descends n then children_visits False (children n) else 0)"
  unfolding children_visits_def skipped_False if_False by (rule node_visits.simps)

lemma printable_eq:
  "printable n room \<longleftrightarrow> 0 < room \<and> (type_and (ntype n) TypeHasNoString \<or> ndata n \<noteq> None)
     \<and> (descends n \<longrightarrow> children_printable False (children n) (room - 1))"
  unfolding children_printable_def skipped_False if_False by (rule printable.simps)

section \<open>The code computes it\<close>

lemma checkTemplateStringBudget_Inr:
  "checkTemplateStringBudget L D depth st = (Inr u, t) \<longleftrightarrow>
     depth < D \<and> ts_nodes st < tl_maxNodes L \<and> t = ts_nodes_update Suc st"
  by (auto simp: checkTemplateStringBudget_def then_eff_Inr_iff)

lemma appendTemplateString_Inr:
  "appendTemplateString L v st = (Inr u, t) \<longleftrightarrow>
     length (ts_output st) + length v \<le> tl_maxOutputBytes L
     \<and> t = ts_output_update (\<lambda>out. out @ v) st"
  by (auto simp: appendTemplateString_def then_eff_Inr_iff)

lemma appendNodeData_Inr:
  "appendNodeData L n st = (Inr u, t) \<longleftrightarrow>
     (\<exists>d. ndata n = Some d \<and> length (ts_output st) + length d \<le> tl_maxOutputBytes L
        \<and> t = ts_output_update (\<lambda>out. out @ d) st)"
  by (cases "ndata n")
     (auto simp: appendNodeData_def requireNodeData_def bind_eff_Inr_iff appendTemplateString_Inr)

lemmas append_Inr = then_eff_Inr_iff checkTemplateStringBudget_Inr appendTemplateString_Inr
  appendNodeData_Inr

lemma appendSigil_Inr:
  "ntype n \<in> {TypeNegate, TypeSection, TypeStop, TypeVariable} \<Longrightarrow>
   length (ts_output st) \<le> tl_maxOutputBytes L \<Longrightarrow>
   appendSigil L n st = (Inr u, t) \<longleftrightarrow>
     length (ts_output st) + length (sigil n) \<le> tl_maxOutputBytes L
     \<and> t = ts_output_update (\<lambda>out. out @ sigil n) st"
  by (cases "ntype n") (auto simp: appendSigil_def sigil_def append_Inr)

text \<open>
  The whole effect of an append operation: it visits \<open>v\<close> nodes and appends \<open>s\<close>,
  and succeeds exactly when \<open>ok\<close> holds and both budgets last.
\<close>

definition appends :: "template_limits \<Rightarrow> (template_state, unit) eff \<Rightarrow> bool \<Rightarrow> nat \<Rightarrow> string \<Rightarrow> bool" where
  "appends L m ok v s \<longleftrightarrow>
     (\<forall>st t. length (ts_output st) \<le> tl_maxOutputBytes L \<longrightarrow>
        (m st = (Inr (), t)) = (ok \<and> (v = 0 \<or> ts_nodes st + v \<le> tl_maxNodes L)
          \<and> length (ts_output st) + length s \<le> tl_maxOutputBytes L
          \<and> t = st\<lparr>ts_nodes := ts_nodes st + v, ts_output := ts_output st @ s\<rparr>))"

lemma appends_then:
  assumes "appends L m ok v s" and "appends L k ok' v' s'"
  shows "appends L (then_eff m k) (ok \<and> ok') (v + v') (s @ s')"
  unfolding appends_def
proof (intro allI impI)
  fix st t :: template_state
  assume le: "length (ts_output st) \<le> tl_maxOutputBytes L"
  let ?u = "st\<lparr>ts_nodes := ts_nodes st + v, ts_output := ts_output st @ s\<rparr>"
  have m: "m st = (Inr (), u) \<longleftrightarrow> (ok \<and> (v = 0 \<or> ts_nodes st + v \<le> tl_maxNodes L)
      \<and> length (ts_output st) + length s \<le> tl_maxOutputBytes L) \<and> u = ?u" for u
    using assms(1) le unfolding appends_def by simp
  have "then_eff m k st = (Inr (), t) \<longleftrightarrow> (\<exists>u. m st = (Inr (), u) \<and> k u = (Inr (), t))"
    by (auto simp: then_eff_Inr_iff)
  also have "\<dots> \<longleftrightarrow> (ok \<and> (v = 0 \<or> ts_nodes st + v \<le> tl_maxNodes L)
      \<and> length (ts_output st) + length s \<le> tl_maxOutputBytes L) \<and> k ?u = (Inr (), t)"
    unfolding m by blast
  finally show "(then_eff m k st = (Inr (), t)) =
      ((ok \<and> ok') \<and> (v + v' = 0 \<or> ts_nodes st + (v + v') \<le> tl_maxNodes L)
        \<and> length (ts_output st) + length (s @ s') \<le> tl_maxOutputBytes L
        \<and> t = st\<lparr>ts_nodes := ts_nodes st + (v + v'), ts_output := ts_output st @ (s @ s')\<rparr>)"
    using assms(2) unfolding appends_def
    by (cases "length (ts_output ?u) \<le> tl_maxOutputBytes L") (auto simp: add.assoc)
qed

lemma appends_ret: "appends L (ret ()) True 0 []"
  by (auto simp: appends_def)

lemma appends_throw: "appends L (throw e) False v s"
  by (simp add: appends_def)

lemma appends_budget: "appends L (checkTemplateStringBudget L D depth) (depth < D) 1 []"
  by (auto simp: appends_def checkTemplateStringBudget_Inr)

lemma appends_guard: "appends L (throw_when (\<lambda>_. b) e) (\<not> b) 0 []"
  by (auto simp: appends_def)

lemma appends_string: "appends L (appendTemplateString L s) True 0 s"
  by (auto simp: appends_def appendTemplateString_Inr)

lemma appends_data: "appends L (appendNodeData L n) (ndata n \<noteq> None) 0 (the (ndata n))"
  by (auto simp: appends_def appendNodeData_Inr)

lemma appends_sigil:
  "ntype n \<in> {TypeNegate, TypeSection, TypeStop, TypeVariable} \<Longrightarrow>
     appends L (appendSigil L n) True 0 (sigil n)"
  by (auto simp: appends_def appendSigil_Inr)

lemma appends_cong:
  "appends L m ok v s \<Longrightarrow> ok = ok' \<Longrightarrow> (ok' \<Longrightarrow> v = v' \<and> s = s') \<Longrightarrow> appends L m ok' v' s'"
  by (auto simp: appends_def)

lemma type_and_HasNoString_tag:
  "ntype n \<in> {TypeOutput, TypeVariable, TypeNegate, TypeSection, TypeStop, TypeComment, TypePartial}
     \<Longrightarrow> \<not> type_and (ntype n) TypeHasNoString"
  by (auto simp: type_and_def)

lemma appends_node:
  "appends L (appendNodeTemplate L D start stop n depth) (printable n (D - depth))
     (node_visits n) (node_text start stop n)"
  "appends L (appendNodeChildren L D start stop cs depth skip)
     (children_printable skip cs (D - depth)) (children_visits skip cs)
     (children_text start stop skip cs)"
proof (induction L D start stop n depth and L D start stop cs depth skip
    rule: appendNodeTemplate_appendNodeChildren.induct)
  case (1 L D start stop n depth)
  let ?rest = "appendNodeChildren L D start stop (children n) (depth + 1) False"
  have IH: "appends L ?rest (children_printable False (children n) (D - depth - 1))
      (children_visits False (children n)) (children_text start stop False (children n))"
    if "descends n"
    using 1 that by (cases "ntype n") (simp_all add: descends_def)
  note seq = appends_then [OF appends_budget appends_then [OF appends_guard]]
  note eqs = printable_eq node_visits_eq node_text_eq own_text_def descends_def
  consider (tag) "ntype n \<in> {TypeNegate, TypeSection, TypeStop, TypeVariable}"
    | (mark) "ntype n \<in> {TypeComment, TypePartial}"
    | (text_node) "ntype n = TypeOutput"
    | (root) "ntype n = TypeRoot"
    | (none) "ntype n \<notin> {TypeNegate, TypeSection, TypeStop, TypeVariable, TypeComment, TypePartial, TypeOutput, TypeRoot}"
    by auto
  then show ?case
  proof cases
    case tag
    then have d: "descends n" by (auto simp: descends_def)
    have eq: "appendNodeTemplate L D start stop n depth =
        then_eff (checkTemplateStringBudget L D depth)
       (then_eff (throw_when (\<lambda>_. \<not> type_and (ntype n) TypeHasNoString \<and> ndata n = None)
                   (Exception ''Invalid node without data''))
       (then_eff (appendTemplateString L start) (then_eff (appendSigil L n)
       (then_eff (appendNodeData L n) (then_eff (appendTemplateString L stop) ?rest)))))"
      using tag by (subst appendNodeTemplate.simps) auto
    show ?thesis
      unfolding eq
      by (rule appends_cong [OF seq [OF appends_then [OF appends_string appends_then [OF appends_sigil [OF tag]
              appends_then [OF appends_data appends_then [OF appends_string IH [OF d]]]]]]])
         (use tag d type_and_HasNoString_tag [of n] in \<open>auto simp: eqs\<close>)
  next
    case mark
    have eq: "appendNodeTemplate L D start stop n depth =
        then_eff (checkTemplateStringBudget L D depth)
       (then_eff (throw_when (\<lambda>_. \<not> type_and (ntype n) TypeHasNoString \<and> ndata n = None)
                   (Exception ''Invalid node without data''))
       (then_eff (appendTemplateString L start) (then_eff (appendTemplateString L (sigil n))
       (then_eff (appendNodeData L n) (appendTemplateString L stop)))))"
      using mark by (subst appendNodeTemplate.simps) (auto simp: sigil_def)
    show ?thesis
      unfolding eq
      by (rule appends_cong [OF seq [OF appends_then [OF appends_string appends_then [OF appends_string
              appends_then [OF appends_data appends_string]]]]])
         (use mark type_and_HasNoString_tag [of n] in \<open>auto simp: eqs\<close>)
  next
    case text_node
    show ?thesis
      by (subst appendNodeTemplate.simps, rule appends_cong, simp only: text_node node_type.case,
          rule seq [OF appends_data])
         (use text_node type_and_HasNoString_tag [of n] in \<open>auto simp: eqs\<close>)
  next
    case root
    then have d: "descends n" by (simp add: descends_def)
    show ?thesis
      by (subst appendNodeTemplate.simps, rule appends_cong, simp only: root node_type.case,
          rule seq [OF IH [OF d]])
         (use root d in \<open>auto simp: eqs\<close>)
  next
    case none
    have eq: "appendNodeTemplate L D start stop n depth =
        then_eff (checkTemplateStringBudget L D depth)
       (then_eff (throw_when (\<lambda>_. \<not> type_and (ntype n) TypeHasNoString \<and> ndata n = None)
                   (Exception ''Invalid node without data'')) (ret ()))"
      using none by (subst appendNodeTemplate.simps) (cases "ntype n"; simp)
    show ?thesis
      unfolding eq
      by (rule appends_cong [OF seq [OF appends_ret]]) (use none in \<open>auto simp: eqs\<close>)
  qed
next
  case (2 L D start stop depth skip)
  show ?case by (simp add: children_defs appends_ret)
next
  case (3 L D start stop cs depth skip)
  show ?case by (simp add: children_printable_def appends_throw)
next
  case (4 L D start stop c cs depth skip)
  show ?case
  proof (cases "skip \<and> ntype c = TypeStop")
    case True
    then show ?thesis
      using appends_then [OF appends_budget 4(2)]
      by (auto simp: skipped_def elim!: appends_cong)
  next
    case False
    then have "appends L (appendNodeTemplate L D start stop c depth) (printable c (D - depth))
        (node_visits c) (node_text start stop c)"
      by (rule 4(1))
    from appends_then [OF this 4(2)] False show ?thesis
      by (auto simp: skipped_def elim!: appends_cong)
  qed
qed

lemma run_template_Inr:
  assumes "appends L m ok v s" and "0 < v"
  shows "run_template m = Inr out \<longleftrightarrow>
    ok \<and> v \<le> tl_maxNodes L \<and> length s \<le> tl_maxOutputBytes L \<and> out = s"
proof -
  let ?st = "\<lparr>ts_nodes = 0, ts_output = []\<rparr>"
  have "run_template m = Inr out \<longleftrightarrow> (\<exists>t. m ?st = (Inr (), t) \<and> out = ts_output t)"
    by (auto simp: run_template_def split: prod.splits sum.splits)
  also have "\<dots> \<longleftrightarrow> ok \<and> v \<le> tl_maxNodes L \<and> length s \<le> tl_maxOutputBytes L \<and> out = s"
    using assms unfolding appends_def by auto
  finally show ?thesis .
qed

lemma node_visits_pos: "0 < node_visits n"
  by (simp add: node_visits_eq)

lemma to_template_string_Inr:
  "to_template_string n start stop L = Inr out \<longleftrightarrow>
     printable n (effective_depth L 256) \<and> node_visits n \<le> tl_maxNodes L
     \<and> length (node_text start stop n) \<le> tl_maxOutputBytes L \<and> out = node_text start stop n"
  unfolding to_template_string_def templateStringImplementationMaxDepth_def
  using run_template_Inr [OF appends_node(1) [of L _ start stop n 0] node_visits_pos] by simp

text \<open>
  C38. Reconstructing the source of a node succeeds exactly when every printed node has
  its text and lies within the nesting limit (the caller's or the ceiling of 256, the
  smaller), the printed nodes fit the node budget and the whole text fits the output
  budget, and then the result is the text the tree stands for: no prefix is ever returned
  and no limit is exceeded.
\<close>

theorem to_template_string_iff:
  "to_template_string n start stop L = Inr out \<longleftrightarrow>
     printable n (effective_depth L 256) \<and> node_visits n \<le> tl_maxNodes L
     \<and> length (node_text start stop n) \<le> tl_maxOutputBytes L \<and> out = node_text start stop n"
  by (rule to_template_string_Inr)

lemma childrenTemplateString_iff:
  "run_template (childrenTemplateString L D n start stop) = Inr out \<longleftrightarrow>
     0 < D \<and> children_printable True (children n) (D - 1)
     \<and> Suc (children_visits True (children n)) \<le> tl_maxNodes L
     \<and> length (children_text start stop True (children n)) \<le> tl_maxOutputBytes L
     \<and> out = children_text start stop True (children n)"
  unfolding childrenTemplateString_def
  by (subst run_template_Inr [OF appends_then [OF appends_budget appends_node(2)]]) auto

end
