(* ===== verification/Serial.thy ===== *)
theory Serial
  imports Template_String
begin

text \<open>
  The legacy binary format of src/node.cpp: \<open>serializeValue\<close> with its budgets and the
  reader \<open>unserializeOwned\<close>. Every check of the encoder and of the decoder is kept,
  in order. The bytes are 8-bit words; the integers of the header are written and read
  with the code's masks and shifts. The nesting depth of the decoder counts down: its
  argument \<open>room\<close> is \<open>maxNestingDepth - depth\<close>, so \<open>depth >= maxNestingDepth\<close>
  is \<open>room = 0\<close> and the recursion is structural.
\<close>

section \<open>Limits, state and validation\<close>

type_synonym byte = "8 word"

definition byte_of_char :: "char \<Rightarrow> byte" where
  "byte_of_char c = word_of_nat (of_char c)"

definition char_of_byte :: "byte \<Rightarrow> char" where
  "char_of_byte b = char_of (unat b)"

definition serialHeaderSize :: nat where "serialHeaderSize = 14"

definition serialMaxDataSize :: nat where "serialMaxDataSize = 0x00ffffff"

definition serialMaxChildren :: nat where "serialMaxChildren = 0x0000ffff"

record serialization_limits =
  sl_maxInputBytes :: nat
  sl_maxOutputBytes :: nat
  sl_maxNestingDepth :: nat
  sl_maxNodes :: nat
  sl_maxDataPartsPerNode :: nat
  sl_maxDataParts :: nat

definition default_serialization_limits :: serialization_limits where
  "default_serialization_limits =
     \<lparr>sl_maxInputBytes = 64 * 1024 * 1024, sl_maxOutputBytes = 64 * 1024 * 1024,
      sl_maxNestingDepth = 64, sl_maxNodes = 100000,
      sl_maxDataPartsPerNode = 256, sl_maxDataParts = 100000\<rparr>"

text \<open>\<open>SerialState\<close>, shared by the writer (with its output) and the reader (with its position).\<close>

record serial_state =
  ss_nodes :: nat
  ss_dataParts :: nat

record enc_state = serial_state +
  es_output :: "byte list"

record dec_state = serial_state +
  rd_pos :: nat

definition serializable_types :: "node_type list" where
  "serializable_types =
     [TypeRoot, TypeOutput, TypeTag, TypeVariable, TypeNegate, TypeSection, TypeStop,
      TypeComment, TypePartial, TypeInlinePartial]"

definition isSerializableTypeValue :: "nat \<Rightarrow> bool" where
  "isSerializableTypeValue v \<longleftrightarrow> v \<in> set (map node_type_value serializable_types)"

definition isSerializableType :: "node_type \<Rightarrow> bool" where
  "isSerializableType ty = isSerializableTypeValue (node_type_value ty)"

text \<open>\<open>static_cast<Node::Type>\<close> of a value that passed the test above.\<close>

definition node_type_of_value :: "nat \<Rightarrow> node_type" where
  "node_type_of_value v =
     (case List.find (\<lambda>t. node_type_value t = v) serializable_types of
        Some t \<Rightarrow> t | None \<Rightarrow> TypeNone)"

definition typeAllowsChildren :: "node_type \<Rightarrow> bool" where
  "typeAllowsChildren ty = type_and ty TypeHasChildren"

text \<open>
  A negative flag word converts to a \<open>size_t\<close> with its high bits set, which the mask
  test refuses; \<open>AND\<close> and \<open>NOT\<close> on \<open>int\<close> are the two's complement
  operations.
\<close>

definition invalid_flags :: "node_type \<Rightarrow> int \<Rightarrow> bool" where
  "invalid_flags ty flags \<longleftrightarrow>
     (let validFlags = FlagEscape OR FlagLambdaOnly OR FlagPartialIndent
      in flags AND NOT validFlags \<noteq> 0
       \<or> (flags AND FlagLambdaOnly \<noteq> 0 \<and>
           (ty \<noteq> TypeOutput \<or>
             (flags \<noteq> FlagLambdaOnly \<and> flags \<noteq> (FlagLambdaOnly OR FlagPartialIndent))))
       \<or> (flags AND FlagPartialIndent \<noteq> 0 \<and>
           (ty \<noteq> TypeOutput \<or> flags \<noteq> (FlagLambdaOnly OR FlagPartialIndent))))"

definition validateNodeShape :: "node_type \<Rightarrow> int \<Rightarrow> bool \<Rightarrow> nat \<Rightarrow> unit result" where
  "validateNodeShape ty flags hasData nchildren =
     (if \<not> isSerializableType ty then Inl (Exception ''Invalid serial node type'')
      else if invalid_flags ty flags then Inl (Exception ''Invalid serial node flags'')
      else if ty = TypeRoot \<and> hasData then Inl (Exception ''Invalid serial root data'')
      else if ty \<noteq> TypeRoot \<and> \<not> hasData then Inl (Exception ''Invalid serial node data'')
      else if nchildren > 0 \<and> \<not> typeAllowsChildren ty
        then Inl (Exception ''Invalid serial node children'')
      else Inr ())"

definition is_indent :: "char \<Rightarrow> bool" where
  "is_indent c \<longleftrightarrow> c = CHR '' '' \<or> c = CHR 0x09"

definition isPartialIndentationMetadata :: "node \<Rightarrow> bool" where
  "isPartialIndentationMetadata n \<longleftrightarrow>
     ntype n = TypeOutput \<and> nflags n = (FlagLambdaOnly OR FlagPartialIndent)
     \<and> (case ndata n of None \<Rightarrow> False | Some d \<Rightarrow> list_all is_indent d)"

text \<open>The loop over the children; a metadata node takes the partial after it along.\<close>

fun validatePartialIndentationChildren :: "node option list \<Rightarrow> unit result" where
  "validatePartialIndentationChildren [] = Inr ()"
| "validatePartialIndentationChildren (None # cs) = validatePartialIndentationChildren cs"
| "validatePartialIndentationChildren (Some c # cs) =
     (if nflags c AND FlagPartialIndent = 0 then validatePartialIndentationChildren cs
      else if \<not> isPartialIndentationMetadata c
        then Inl (Exception ''Invalid serial partial indentation metadata'')
      else
        (case cs of
           Some p # rest \<Rightarrow>
             if ntype p \<noteq> TypePartial
             then Inl (Exception ''Invalid serial partial indentation metadata'')
             else validatePartialIndentationChildren rest
         | _ \<Rightarrow> Inl (Exception ''Invalid serial partial indentation metadata'')))"

definition checkSerialBudget :: "serialization_limits \<Rightarrow> nat \<Rightarrow> ('a serial_state_scheme, unit) eff" where
  "checkSerialBudget limits room =
     then_eff (throw_when (\<lambda>_. room = 0) (Exception ''Serial node nesting limit exceeded''))
    (then_eff (throw_when (\<lambda>st. ss_nodes st \<ge> sl_maxNodes limits)
                (Exception ''Serial node count limit exceeded''))
       (writes (ss_nodes_update Suc)))"

definition data_part_count :: "string \<Rightarrow> nat" where
  "data_part_count d = count_list d (CHR ''.'') + 1"

definition validateNodeData ::
    "serialization_limits \<Rightarrow> node_type \<Rightarrow> string \<Rightarrow> ('a serial_state_scheme, unit) eff" where
  "validateNodeData limits ty data =
     (if type_and ty TypeHasDot then
        (let parts = data_part_count data
         in then_eff
              (throw_when (\<lambda>st. parts > sl_maxDataPartsPerNode limits
                             \<or> ss_dataParts st > sl_maxDataParts limits
                             \<or> parts > sl_maxDataParts limits - ss_dataParts st)
                (Exception ''Serial data-part limit exceeded''))
              (writes (ss_dataParts_update (\<lambda>n. n + parts))))
      else ret ())"

section \<open>The encoder\<close>

definition ensureOutputSpace :: "serialization_limits \<Rightarrow> nat \<Rightarrow> (enc_state, unit) eff" where
  "ensureOutputSpace limits additional =
     throw_when (\<lambda>st. length (es_output st) > sl_maxOutputBytes limits
                   \<or> additional > sl_maxOutputBytes limits - length (es_output st))
       (Exception ''Serialized AST size limit exceeded'')"

definition push_bytes :: "byte list \<Rightarrow> (enc_state, unit) eff" where
  "push_bytes bs = writes (es_output_update (\<lambda>out. out @ bs))"

definition appendByte :: "serialization_limits \<Rightarrow> nat \<Rightarrow> (enc_state, unit) eff" where
  "appendByte limits value =
     then_eff (ensureOutputSpace limits 1) (push_bytes [word_of_nat value])"

definition appendUint16 :: "serialization_limits \<Rightarrow> nat \<Rightarrow> (enc_state, unit) eff" where
  "appendUint16 limits value =
     then_eff (appendByte limits (drop_bit 8 (value AND 0x0000ff00)))
       (appendByte limits (value AND 0x000000ff))"

definition appendUint24 :: "serialization_limits \<Rightarrow> nat \<Rightarrow> (enc_state, unit) eff" where
  "appendUint24 limits value =
     then_eff (appendByte limits (drop_bit 16 (value AND 0x00ff0000)))
    (then_eff (appendByte limits (drop_bit 8 (value AND 0x0000ff00)))
       (appendByte limits (value AND 0x000000ff)))"

definition appendUint32 :: "serialization_limits \<Rightarrow> nat \<Rightarrow> (enc_state, unit) eff" where
  "appendUint32 limits value =
     then_eff (appendByte limits (drop_bit 24 (value AND 0xff000000)))
    (then_eff (appendByte limits (drop_bit 16 (value AND 0x00ff0000)))
    (then_eff (appendByte limits (drop_bit 8 (value AND 0x0000ff00)))
       (appendByte limits (value AND 0x000000ff))))"

text \<open>\<open>writeUint32\<close> overwrites four bytes the encoder reserved before.\<close>

definition writeUint32 :: "nat \<Rightarrow> nat \<Rightarrow> byte list \<Rightarrow> byte list" where
  "writeUint32 pos value out =
     out[pos := word_of_nat (drop_bit 24 (value AND 0xff000000)),
         pos + 1 := word_of_nat (drop_bit 16 (value AND 0x00ff0000)),
         pos + 2 := word_of_nat (drop_bit 8 (value AND 0x0000ff00)),
         pos + 3 := word_of_nat (value AND 0x000000ff)]"

definition custom_delimiters :: "node \<Rightarrow> bool" where
  "custom_delimiters n \<longleftrightarrow>
     ntype n = TypeSection
     \<and> ((startSequence n \<noteq> None \<and> startSequence n \<noteq> Some ''{{'')
        \<or> (stopSequence n \<noteq> None \<and> stopSequence n \<noteq> Some ''}}''))"

definition dataSize :: "node \<Rightarrow> nat" where
  "dataSize n = (case ndata n of None \<Rightarrow> 0 | Some d \<Rightarrow> length d + 1)"

definition encodeData :: "serialization_limits \<Rightarrow> node \<Rightarrow> (enc_state, unit) eff" where
  "encodeData limits n =
     (case ndata n of
        None \<Rightarrow> ret ()
      | Some d \<Rightarrow>
          then_eff (throw_when (\<lambda>_. length d \<ge> serialMaxDataSize)
                     (Exception ''Serial node data exceeds format limit''))
            (validateNodeData limits (ntype n) d))"

definition encodeHeader :: "serialization_limits \<Rightarrow> node \<Rightarrow> (enc_state, unit) eff" where
  "encodeHeader limits n =
     then_eff (ensureOutputSpace limits (serialHeaderSize + dataSize n))
    (then_eff (appendByte limits (of_char (CHR ''M'')))
    (then_eff (appendByte limits (of_char (CHR ''U'')))
    (then_eff (appendUint16 limits (node_type_value (ntype n)))
    (then_eff (appendByte limits (nat (nflags n)))
    (then_eff (appendUint24 limits (dataSize n))
       (appendUint16 limits (length (children n))))))))"

definition pushData :: "node \<Rightarrow> (enc_state, unit) eff" where
  "pushData n =
     (case ndata n of
        None \<Rightarrow> ret ()
      | Some d \<Rightarrow> push_bytes (map byte_of_char d @ [0]))"

text \<open>
  The last check of \<open>serializeNode\<close>: the format cannot carry original section text
  that reconstruction does not reproduce. The reconstruction's own budget allows the depth
  the children already passed with.
\<close>

definition checkOriginalText :: "serialization_limits \<Rightarrow> node \<Rightarrow> nat \<Rightarrow> (enc_state, unit) eff" where
  "checkOriginalText limits n room =
     (case originalSectionText n of
        None \<Rightarrow> ret ()
      | Some original \<Rightarrow>
          (let rl = \<lparr>tl_maxOutputBytes = sl_maxOutputBytes limits,
                     tl_maxNestingDepth = room, tl_maxNodes = sl_maxNodes limits\<rparr>
           in bind_eff (lift_result (run_template
                  (childrenTemplateString rl (effective_depth rl room) n ''{{'' ''}}'')))
                (\<lambda>text. throw_when (\<lambda>_. text \<noteq> original)
                  (Exception ''Legacy serialization cannot preserve original section text''))))"

function serializeNode :: "serialization_limits \<Rightarrow> node \<Rightarrow> nat \<Rightarrow> bool \<Rightarrow> (enc_state, unit) eff"
  and serializeChildren :: "serialization_limits \<Rightarrow> node option list \<Rightarrow> nat \<Rightarrow> (enc_state, unit) eff"
where
  "serializeNode limits n room partialIndentationMetadata =
     then_eff (checkSerialBudget limits room)
    (then_eff (lift_result (validateNodeShape (ntype n) (nflags n) (ndata n \<noteq> None) (length (children n))))
    (then_eff (throw_when (\<lambda>_. custom_delimiters n)
                (Exception ''Legacy serialization cannot preserve custom section delimiters''))
    (then_eff (throw_when (\<lambda>_. nflags n AND FlagPartialIndent \<noteq> 0 \<and> \<not> partialIndentationMetadata)
                (Exception ''Invalid serial partial indentation metadata''))
    (then_eff (lift_result (validatePartialIndentationChildren (children n)))
    (then_eff (throw_when (\<lambda>_. nflags n < 0) (Exception ''Invalid serial node flags''))
    (then_eff (throw_when (\<lambda>_. length (children n) > serialMaxChildren)
                (Exception ''Serial child count exceeds format limit''))
    (then_eff (encodeData limits n)
    (then_eff (encodeHeader limits n)
    (bind_eff (reads (\<lambda>st. length (es_output st))) (\<lambda>childrenSizePos.
     then_eff (appendUint32 limits 0)
    (then_eff (pushData n)
    (bind_eff (reads (\<lambda>st. length (es_output st))) (\<lambda>childrenStart.
     then_eff (serializeChildren limits (children n) (room - 1))
    (bind_eff (reads (\<lambda>st. length (es_output st) - childrenStart)) (\<lambda>childrenSize.
     then_eff (throw_when (\<lambda>_. childrenSize > 0xffffffff)
                (Exception ''Serial child data exceeds format limit''))
    (then_eff (writes (es_output_update (writeUint32 childrenSizePos childrenSize)))
       (checkOriginalText limits n room)))))))))))))))))"
| "serializeChildren limits [] room = ret ()"
| "serializeChildren limits (None # cs) room = throw (Exception ''Invalid null serial child'')"
| "serializeChildren limits (Some c # cs) room =
     then_eff (serializeNode limits c room (isPartialIndentationMetadata c))
       (serializeChildren limits cs room)"
  by pat_completeness auto
termination
  by (relation "measure (case_sum (\<lambda>(L, n, r, b). size n)
    (\<lambda>(L, cs, r). size_list (size_option size) cs))") simp_all

declare serializeNode.simps [simp del]

definition serializeValue :: "serialization_limits \<Rightarrow> node \<Rightarrow> byte list result" where
  "serializeValue limits n =
     (case serializeNode limits n (sl_maxNestingDepth limits) False
             \<lparr>ss_nodes = 0, ss_dataParts = 0, es_output = []\<rparr> of
        (Inl e, _) \<Rightarrow> Inl e
      | (Inr _, st) \<Rightarrow> Inr (es_output st))"

section \<open>The decoder\<close>

text \<open>
  \<open>SerialReader\<close>: the bytes are an argument, the position is in the state, and every
  read is checked against the enclosing node's end (\<open>limit\<close>).
\<close>

definition rd_remaining :: "byte list \<Rightarrow> nat \<Rightarrow> (dec_state, nat) eff" where
  "rd_remaining bs limit =
     then_eff (throw_when (\<lambda>st. limit > length bs \<or> rd_pos st > limit)
                (Exception ''Invalid serial bounds''))
       (reads (\<lambda>st. limit - rd_pos st))"

definition rd_require :: "byte list \<Rightarrow> nat \<Rightarrow> nat \<Rightarrow> (dec_state, unit) eff" where
  "rd_require bs len limit =
     bind_eff (rd_remaining bs limit)
       (\<lambda>r. throw_when (\<lambda>_. len > r) (Exception ''Truncated serial data''))"

definition readByte :: "byte list \<Rightarrow> nat \<Rightarrow> (dec_state, nat) eff" where
  "readByte bs limit =
     then_eff (rd_require bs 1 limit)
    (bind_eff (reads (\<lambda>st. unat (bs ! rd_pos st))) (\<lambda>b.
     then_eff (writes (rd_pos_update Suc)) (ret b)))"

definition readUint16 :: "byte list \<Rightarrow> nat \<Rightarrow> (dec_state, nat) eff" where
  "readUint16 bs limit =
     bind_eff (readByte bs limit) (\<lambda>b1. bind_eff (readByte bs limit) (\<lambda>b0.
       ret (push_bit 8 b1 OR b0)))"

definition readUint24 :: "byte list \<Rightarrow> nat \<Rightarrow> (dec_state, nat) eff" where
  "readUint24 bs limit =
     bind_eff (readByte bs limit) (\<lambda>b2. bind_eff (readByte bs limit) (\<lambda>b1.
     bind_eff (readByte bs limit) (\<lambda>b0.
       ret ((push_bit 16 b2 OR push_bit 8 b1) OR b0))))"

definition readUint32 :: "byte list \<Rightarrow> nat \<Rightarrow> (dec_state, nat) eff" where
  "readUint32 bs limit =
     bind_eff (readByte bs limit) (\<lambda>b3. bind_eff (readByte bs limit) (\<lambda>b2.
     bind_eff (readByte bs limit) (\<lambda>b1. bind_eff (readByte bs limit) (\<lambda>b0.
       ret (((push_bit 24 b3 OR push_bit 16 b2) OR push_bit 8 b1) OR b0)))))"

definition readString :: "byte list \<Rightarrow> nat \<Rightarrow> nat \<Rightarrow> (dec_state, string) eff" where
  "readString bs len limit =
     then_eff (rd_require bs len limit)
    (bind_eff (reads (\<lambda>st. map char_of_byte (take len (drop (rd_pos st) bs)))) (\<lambda>value.
     then_eff (writes (rd_pos_update (\<lambda>p. p + len))) (ret value)))"

record header =
  hd_type :: nat
  hd_flags :: nat
  hd_dataSize :: nat
  hd_childrenNum :: nat
  hd_childrenSize :: nat

text \<open>
  The second magic byte is read only when the first one matched, as \<open>||\<close> does.
\<close>

definition readHeader :: "byte list \<Rightarrow> nat \<Rightarrow> (dec_state, header) eff" where
  "readHeader bs limit =
     bind_eff (rd_remaining bs limit) (\<lambda>r.
     then_eff (throw_when (\<lambda>_. r < serialHeaderSize) (Exception ''Truncated serial header''))
    (bind_eff (readByte bs limit) (\<lambda>m.
     then_eff (throw_when (\<lambda>_. m \<noteq> of_char (CHR ''M'')) (Exception ''Invalid serial magic''))
    (bind_eff (readByte bs limit) (\<lambda>u.
     then_eff (throw_when (\<lambda>_. u \<noteq> of_char (CHR ''U'')) (Exception ''Invalid serial magic''))
    (bind_eff (readUint16 bs limit) (\<lambda>ty.
     then_eff (throw_when (\<lambda>_. \<not> isSerializableTypeValue ty) (Exception ''Invalid serial node type''))
    (bind_eff (readByte bs limit) (\<lambda>flags.
     bind_eff (readUint24 bs limit) (\<lambda>dsize.
     bind_eff (readUint16 bs limit) (\<lambda>cnum.
     bind_eff (readUint32 bs limit) (\<lambda>csize.
       ret \<lparr>hd_type = ty, hd_flags = flags, hd_dataSize = dsize,
            hd_childrenNum = cnum, hd_childrenSize = csize\<rparr>))))))))))))"

definition readData ::
    "serialization_limits \<Rightarrow> byte list \<Rightarrow> nat \<Rightarrow> node_type \<Rightarrow> nat \<Rightarrow> (dec_state, string option) eff" where
  "readData limits bs limit ty dsize =
     (if dsize > 0 then
        bind_eff (readString bs (dsize - 1) limit) (\<lambda>data.
        bind_eff (readByte bs limit) (\<lambda>z.
        then_eff (throw_when (\<lambda>_. z \<noteq> 0) (Exception ''Invalid serial data terminator''))
       (then_eff (validateNodeData limits ty data) (ret (Some data)))))
      else ret None)"

text \<open>The node the decoder builds; a section gets the default delimiters.\<close>

definition decoded_node :: "node_type \<Rightarrow> int \<Rightarrow> string option \<Rightarrow> node option list \<Rightarrow> node" where
  "decoded_node ty flags data cs =
     (let n0 = Node ty flags None [] [] None [] None None None 0 0;
          n1 = (case data of None \<Rightarrow> n0 | Some d \<Rightarrow> setData d n0);
          n2 = (if ty = TypeSection then set_delimiters ''{{'' ''}}'' n1 else n1)
      in set_children cs n2)"

definition unserializeBody ::
    "(nat \<Rightarrow> (dec_state, node) eff) \<Rightarrow> serialization_limits \<Rightarrow> byte list \<Rightarrow> nat \<Rightarrow> nat \<Rightarrow> (dec_state, node) eff" where
  "unserializeBody decodeChild limits bs room limit =
     then_eff (checkSerialBudget limits room)
    (bind_eff (readHeader bs limit) (\<lambda>h.
     let ty = node_type_of_value (hd_type h); flags = int (hd_flags h) in
     then_eff (lift_result (validateNodeShape ty flags (hd_dataSize h > 0) (hd_childrenNum h)))
    (bind_eff (rd_remaining bs limit) (\<lambda>r.
     then_eff (throw_when (\<lambda>_. hd_dataSize h > r) (Exception ''Truncated serial node data''))
    (bind_eff (readData limits bs limit ty (hd_dataSize h)) (\<lambda>data.
     bind_eff (rd_remaining bs limit) (\<lambda>r.
     then_eff (throw_when (\<lambda>_. hd_childrenSize h > r) (Exception ''Truncated serial child data''))
    (then_eff (throw_when (\<lambda>_. hd_childrenNum h > 0
                  \<and> hd_childrenSize h div serialHeaderSize < hd_childrenNum h)
                (Exception ''Invalid serial child size''))
    (bind_eff (reads (\<lambda>st. rd_pos st + hd_childrenSize h)) (\<lambda>childrenEnd.
     bind_eff (repeat_eff (hd_childrenNum h) (decodeChild childrenEnd)) (\<lambda>cs.
     then_eff (lift_result (validatePartialIndentationChildren (map Some cs)))
    (then_eff (throw_when (\<lambda>st. rd_pos st \<noteq> childrenEnd) (Exception ''Invalid serial child size''))
       (ret (decoded_node ty flags data (map Some cs)))))))))))))))"

primrec unserializeNode ::
    "serialization_limits \<Rightarrow> byte list \<Rightarrow> nat \<Rightarrow> nat \<Rightarrow> (dec_state, node) eff" where
  "unserializeNode limits bs 0 =
     unserializeBody (\<lambda>_. throw (Exception ''Serial node nesting limit exceeded'')) limits bs 0"
| "unserializeNode limits bs (Suc room) =
     unserializeBody (unserializeNode limits bs room) limits bs (Suc room)"

text \<open>
  \<open>unserializeOwnedRange\<close>; a null pointer with a length is the \<open>None\<close> input.
\<close>

definition unserializeOwnedRange ::
    "byte list option \<Rightarrow> nat \<Rightarrow> nat \<Rightarrow> serialization_limits \<Rightarrow> node result" where
  "unserializeOwnedRange serial len offset limits =
     (if serial = None \<and> len \<noteq> 0 then Inl (Exception ''Missing serial data'')
      else if offset > len then Inl (Exception ''Invalid serial offset'')
      else if len - offset > sl_maxInputBytes limits
        then Inl (Exception ''Serialized AST size limit exceeded'')
      else
        (let bs = (case serial of None \<Rightarrow> [] | Some bs \<Rightarrow> bs) in
         case unserializeNode limits bs (sl_maxNestingDepth limits) len
                \<lparr>ss_nodes = 0, ss_dataParts = 0, rd_pos = offset\<rparr> of
           (Inl e, _) \<Rightarrow> Inl e
         | (Inr n, st) \<Rightarrow>
             if nflags n AND FlagPartialIndent \<noteq> 0
             then Inl (Exception ''Invalid serial partial indentation metadata'')
             else if rd_pos st \<noteq> len then Inl (Exception ''Trailing serial data'')
             else Inr n))"

definition unserializeOwned :: "byte list \<Rightarrow> serialization_limits \<Rightarrow> node result" where
  "unserializeOwned serial limits = unserializeOwnedRange (Some serial) (length serial) 0 limits"

text \<open>The legacy entry point also reports the position, which is the end of the input.\<close>

definition unserialize ::
    "byte list option \<Rightarrow> nat \<Rightarrow> nat \<Rightarrow> bool \<Rightarrow> serialization_limits \<Rightarrow> (node \<times> nat) result" where
  "unserialize serial len offset has_vpos limits =
     (if \<not> has_vpos then Inl (Exception ''Missing serial output position'')
      else bind_result (unserializeOwnedRange serial len offset limits) (\<lambda>n. Inr (n, len)))"

end
