(* ===== verification/Serial_Props.thy ===== *)
theory Serial_Props
  imports Serial
begin

text \<open>
  What the legacy format of Serial guarantees. The bytes a tree is encoded to are given as
  a plain function (\<open>encode\<close>), and the trees the format can carry as a predicate
  (\<open>encodable\<close>). The encoder's lemma says it succeeds exactly on those trees within
  its budgets and then writes exactly these bytes; the decoder's two lemmas say that it
  reads these bytes back, and that nothing else decodes. The round trips in both
  directions follow.
\<close>

section \<open>Bytes of header fields\<close>

lemma push_or_add:
  assumes "b < 2 ^ k"
  shows "push_bit k a OR b = a * 2 ^ k + (b::nat)"
proof -
  have "bit b n \<Longrightarrow> n < k" for n
    using assms by (metis bit_take_bit_iff take_bit_nat_eq_self)
  then have "push_bit k a OR b = push_bit k a + b"
    by (intro disjunctive_add [symmetric]) (auto simp: bit_push_bit_iff dest!: leD)
  then show ?thesis by (simp only: push_bit_eq_mult)
qed

lemma masked_byte:
  assumes "m = push_bit k (mask 8)"
  shows "word_of_nat (drop_bit k (v AND m)) = (word_of_nat (v div 2 ^ k) :: byte)"
proof -
  have "drop_bit k (v AND m) = take_bit 8 (drop_bit k v)"
    by (rule bit_eqI) (auto simp: assms bit_simps)
  then show ?thesis by (simp add: word_of_nat_eq_iff drop_bit_eq_div)
qed

lemma masks:
  "(0x000000ff::nat) = push_bit 0 (mask 8)" "(0x0000ff00::nat) = push_bit 8 (mask 8)"
  "(0x00ff0000::nat) = push_bit 16 (mask 8)" "(0xff000000::nat) = push_bit 24 (mask 8)"
  by (simp_all add: push_bit_eq_mult mask_eq_exp_minus_1)

lemmas masked_bytes = masked_byte [OF masks(2)] masked_byte [OF masks(3)] masked_byte [OF masks(4)]

lemma masked_low: "word_of_nat (v AND 0x000000ff) = (word_of_nat v :: byte)"
  using masked_byte [OF masks(1), of v] by simp

text \<open>The big-endian bytes of a header field.\<close>

definition u16 :: "nat \<Rightarrow> byte list" where
  "u16 v = [word_of_nat (v div 2 ^ 8), word_of_nat v]"

definition u24 :: "nat \<Rightarrow> byte list" where
  "u24 v = [word_of_nat (v div 2 ^ 16), word_of_nat (v div 2 ^ 8), word_of_nat v]"

definition u32 :: "nat \<Rightarrow> byte list" where
  "u32 v = [word_of_nat (v div 2 ^ 24), word_of_nat (v div 2 ^ 16), word_of_nat (v div 2 ^ 8), word_of_nat v]"

lemma byte_eq_iff: "(word_of_nat v = (b :: byte)) \<longleftrightarrow> v mod 256 = unat b"
  by (simp add: word_unat_eq_iff unat_of_nat)

lemma unat_byte_less: "unat (b :: byte) < 256"
  using unsigned_less [of b] by simp

lemma split_byte:
  assumes "b < 256"
  shows "v = w * 256 + b \<longleftrightarrow> v div 256 = w \<and> v mod 256 = (b::nat)"
  using assms by auto

lemma split_top: "a < 256 \<Longrightarrow> (v::nat) mod 256 = a \<and> v < 256 \<longleftrightarrow> v = a"
  by auto

lemma less_byte: "(v::nat) < n * 256 \<longleftrightarrow> v div 256 < n"
  by (simp add: div_less_iff_less_mult)

lemma u16_iff: "u16 v = [a, b] \<and> v < 2 ^ 16 \<longleftrightarrow> v = (push_bit 8 (unat a) OR unat b)"
proof -
  have "u16 v = [a, b] \<and> v < 2 ^ 16 \<longleftrightarrow>
      ((v div 256) mod 256 = unat a \<and> v div 256 < 256) \<and> v mod 256 = unat b"
    using less_byte [of v 256] by (auto simp: u16_def byte_eq_iff)
  also have "\<dots> \<longleftrightarrow> v = unat a * 256 + unat b"
    using split_byte [OF unat_byte_less] split_top [OF unat_byte_less] by presburger
  also have "unat a * 256 + unat b = push_bit 8 (unat a) OR unat b"
    using push_or_add [of "unat b" 8 "unat a"] unat_byte_less [of b] by simp
  finally show ?thesis .
qed

lemma u24_iff:
  "u24 v = [a, b, c] \<and> v < 2 ^ 24 \<longleftrightarrow>
     v = ((push_bit 16 (unat a) OR push_bit 8 (unat b)) OR unat c)"
proof -
  have "u24 v = [a, b, c] \<and> v < 2 ^ 24 \<longleftrightarrow>
      (u16 (v div 256) = [a, b] \<and> v div 256 < 2 ^ 16) \<and> v mod 256 = unat c"
    using less_byte [of v "2 ^ 16"] by (auto simp: u16_def u24_def byte_eq_iff div_mult2_eq [symmetric])
  also have "\<dots> \<longleftrightarrow> v = (push_bit 8 (unat a) OR unat b) * 256 + unat c"
    unfolding u16_iff using split_byte [OF unat_byte_less] by presburger
  also have "(push_bit 8 (unat a) OR unat b) * 256 + unat c =
      push_bit 8 (push_bit 8 (unat a) OR unat b) OR unat c"
    using push_or_add [of "unat c" 8 "push_bit 8 (unat a) OR unat b"] unat_byte_less [of c] by simp
  also have "push_bit 8 (push_bit 8 (unat a) OR unat b) = push_bit 16 (unat a) OR push_bit 8 (unat b)"
    by (simp only: push_bit_or push_bit_push_bit) simp
  finally show ?thesis .
qed

lemma u32_iff:
  "u32 v = [a, b, c, d] \<and> v < 2 ^ 32 \<longleftrightarrow>
     v = (((push_bit 24 (unat a) OR push_bit 16 (unat b)) OR push_bit 8 (unat c)) OR unat d)"
proof -
  have "u32 v = [a, b, c, d] \<and> v < 2 ^ 32 \<longleftrightarrow>
      (u24 (v div 256) = [a, b, c] \<and> v div 256 < 2 ^ 24) \<and> v mod 256 = unat d"
    using less_byte [of v "2 ^ 24"] by (auto simp: u24_def u32_def byte_eq_iff div_mult2_eq [symmetric])
  also have "\<dots> \<longleftrightarrow> v = ((push_bit 16 (unat a) OR push_bit 8 (unat b)) OR unat c) * 256 + unat d"
    unfolding u24_iff using split_byte [OF unat_byte_less] by presburger
  also have "((push_bit 16 (unat a) OR push_bit 8 (unat b)) OR unat c) * 256 + unat d =
      push_bit 8 ((push_bit 16 (unat a) OR push_bit 8 (unat b)) OR unat c) OR unat d"
    using push_or_add [of "unat d" 8 "(push_bit 16 (unat a) OR push_bit 8 (unat b)) OR unat c"]
      unat_byte_less [of d] by simp
  also have "push_bit 8 ((push_bit 16 (unat a) OR push_bit 8 (unat b)) OR unat c) =
      (push_bit 24 (unat a) OR push_bit 16 (unat b)) OR push_bit 8 (unat c)"
    by (simp only: push_bit_or push_bit_push_bit) simp
  finally show ?thesis .
qed

lemma char_byte_inverse [simp]: "char_of_byte (byte_of_char c) = c"
  by (simp add: char_of_byte_def byte_of_char_def unat_of_nat)

lemma byte_char_inverse [simp]: "byte_of_char (char_of_byte b) = b"
  using unat_byte_less [of b] by (simp add: char_of_byte_def byte_of_char_def)

section \<open>The bytes of a tree\<close>

definition header_bytes :: "nat \<Rightarrow> nat \<Rightarrow> nat \<Rightarrow> nat \<Rightarrow> byte list" where
  "header_bytes ty fl dsize cnum =
     [word_of_nat (of_char (CHR ''M'')), word_of_nat (of_char (CHR ''U''))]
     @ u16 ty @ [word_of_nat fl] @ u24 dsize @ u16 cnum"

definition data_bytes :: "node \<Rightarrow> byte list" where
  "data_bytes n = (case ndata n of None \<Rightarrow> [] | Some d \<Rightarrow> map byte_of_char d @ [0])"

function encode :: "node \<Rightarrow> byte list" where
  "encode n =
     (let body = concat (map (\<lambda>c. case c of None \<Rightarrow> [] | Some m \<Rightarrow> encode m) (children n))
      in header_bytes (node_type_value (ntype n)) (nat (nflags n)) (dataSize n) (length (children n))
         @ u32 (length body) @ data_bytes n @ body)"
  by pat_completeness auto
termination
  by (relation "measure size") (auto simp: size_children)

declare encode.simps [simp del, code del]

definition encode_children :: "node option list \<Rightarrow> byte list" where
  "encode_children cs = concat (map (\<lambda>c. case c of None \<Rightarrow> [] | Some m \<Rightarrow> encode m) cs)"

definition node_header :: "node \<Rightarrow> byte list" where
  "node_header n =
     header_bytes (node_type_value (ntype n)) (nat (nflags n)) (dataSize n) (length (children n))"

lemma encode_eq:
  "encode n = node_header n @ u32 (length (encode_children (children n))) @ data_bytes n
     @ encode_children (children n)"
  by (subst encode.simps) (simp add: Let_def encode_children_def node_header_def)

declare encode_eq [code]

lemma encode_children_simps [simp, code]:
  "encode_children [] = []"
  "encode_children (None # cs) = encode_children cs"
  "encode_children (Some m # cs) = encode m @ encode_children cs"
  by (simp_all add: encode_children_def)

lemma length_header_bytes [simp]: "length (header_bytes a b c d) = 10"
  by (simp add: header_bytes_def u16_def u24_def)

lemma length_node_header [simp]: "length (node_header n) = 10"
  by (simp add: node_header_def)

lemma length_u32 [simp]: "length (u32 v) = 4"
  by (simp add: u32_def)

lemma length_data_bytes [simp]: "length (data_bytes n) = dataSize n"
  by (simp add: data_bytes_def dataSize_def split: option.split)

text \<open>The resources a tree takes.\<close>

definition own_parts :: "node \<Rightarrow> nat" where
  "own_parts n =
     (case ndata n of None \<Rightarrow> 0
      | Some d \<Rightarrow> if type_and (ntype n) TypeHasDot then data_part_count d else 0)"

function node_parts :: "node \<Rightarrow> nat" where
  "node_parts n = own_parts n
     + sum_list (map (\<lambda>c. case c of None \<Rightarrow> 0 | Some m \<Rightarrow> node_parts m) (children n))"
  by pat_completeness auto
termination
  by (relation "measure size") (auto simp: size_children)

declare node_parts.simps [simp del]

definition children_parts :: "node option list \<Rightarrow> nat" where
  "children_parts cs = sum_list (map (\<lambda>c. case c of None \<Rightarrow> 0 | Some m \<Rightarrow> node_parts m) cs)"

definition children_count :: "node option list \<Rightarrow> nat" where
  "children_count cs = sum_list (map (\<lambda>c. case c of None \<Rightarrow> 0 | Some m \<Rightarrow> node_count m) cs)"

lemma node_parts_eq: "node_parts n = own_parts n + children_parts (children n)"
  by (subst node_parts.simps) (simp add: children_parts_def)

lemma node_count_eq: "node_count n = Suc (children_count (children n))"
  by (subst node_count.simps) (simp add: children_count_def)

lemma children_sums_simps [simp]:
  "children_parts [] = 0" "children_parts (Some m # cs) = node_parts m + children_parts cs"
  "children_count [] = 0" "children_count (Some m # cs) = node_count m + children_count cs"
  by (simp_all add: children_parts_def children_count_def)

text \<open>The conditions one node meets: those of every format reader, and those of the writer only.\<close>

definition shape_ok :: "serialization_limits \<Rightarrow> node \<Rightarrow> bool" where
  "shape_ok L n \<longleftrightarrow>
     validateNodeShape (ntype n) (nflags n) (ndata n \<noteq> None) (length (children n)) = Inr ()
     \<and> validatePartialIndentationChildren (children n) = Inr ()
     \<and> length (children n) \<le> serialMaxChildren
     \<and> (case ndata n of None \<Rightarrow> True | Some d \<Rightarrow> length d < serialMaxDataSize)
     \<and> own_parts n \<le> sl_maxDataPartsPerNode L
     \<and> length (encode_children (children n)) \<le> 0xffffffff"

definition original_ok :: "serialization_limits \<Rightarrow> node \<Rightarrow> nat \<Rightarrow> bool" where
  "original_ok L n room \<longleftrightarrow>
     (case originalSectionText n of
        None \<Rightarrow> True
      | Some original \<Rightarrow>
          run_template (childrenTemplateString
            \<lparr>tl_maxOutputBytes = sl_maxOutputBytes L, tl_maxNestingDepth = room,
             tl_maxNodes = sl_maxNodes L\<rparr> room n ''{{'' ''}}'') = Inr original)"

function encodable :: "serialization_limits \<Rightarrow> node \<Rightarrow> nat \<Rightarrow> bool \<Rightarrow> bool" where
  "encodable L n room metadata \<longleftrightarrow>
     0 < room \<and> shape_ok L n \<and> \<not> custom_delimiters n
     \<and> (nflags n AND FlagPartialIndent \<noteq> 0 \<longrightarrow> metadata) \<and> original_ok L n room
     \<and> (\<forall>c\<in>set (children n). case c of None \<Rightarrow> False
          | Some m \<Rightarrow> encodable L m (room - 1) (isPartialIndentationMetadata m))"
  by pat_completeness auto
termination
  by (relation "measure (\<lambda>(L, n, room, b). size n)") (auto simp: size_children)

declare encodable.simps [simp del]

definition children_encodable :: "serialization_limits \<Rightarrow> node option list \<Rightarrow> nat \<Rightarrow> bool" where
  "children_encodable L cs room \<longleftrightarrow>
     (\<forall>c\<in>set cs. case c of None \<Rightarrow> False
        | Some m \<Rightarrow> encodable L m room (isPartialIndentationMetadata m))"

lemma encodable_eq:
  "encodable L n room metadata \<longleftrightarrow>
     0 < room \<and> shape_ok L n \<and> \<not> custom_delimiters n
     \<and> (nflags n AND FlagPartialIndent \<noteq> 0 \<longrightarrow> metadata) \<and> original_ok L n room
     \<and> children_encodable L (children n) (room - 1)"
  unfolding children_encodable_def by (rule encodable.simps)

lemma children_encodable_simps [simp]:
  "children_encodable L [] room"
  "\<not> children_encodable L (None # cs) room"
  "children_encodable L (Some m # cs) room \<longleftrightarrow>
     encodable L m room (isPartialIndentationMetadata m) \<and> children_encodable L cs room"
  by (simp_all add: children_encodable_def)

section \<open>The encoder\<close>

lemma checkSerialBudget_Inr:
  "checkSerialBudget L room st = (Inr u, t) \<longleftrightarrow>
     0 < room \<and> ss_nodes st < sl_maxNodes L \<and> t = ss_nodes_update Suc st"
  by (auto simp: checkSerialBudget_def then_eff_Inr_iff)

lemma validateNodeData_Inr:
  "validateNodeData L ty d st = (Inr u, t) \<longleftrightarrow>
     (if type_and ty TypeHasDot
      then data_part_count d \<le> sl_maxDataPartsPerNode L
        \<and> ss_dataParts st + data_part_count d \<le> sl_maxDataParts L
        \<and> t = ss_dataParts_update (\<lambda>n. n + data_part_count d) st
      else t = st)"
  by (auto simp: validateNodeData_def then_eff_Inr_iff Let_def)

lemma appendByte_Inr:
  "appendByte L v st = (Inr u, t) \<longleftrightarrow>
     length (es_output st) + 1 \<le> sl_maxOutputBytes L
     \<and> t = es_output_update (\<lambda>out. out @ [word_of_nat v]) st"
  by (auto simp: appendByte_def ensureOutputSpace_def push_bytes_def then_eff_Inr_iff)

lemma appendUint_Inr:
  "appendUint16 L v st = (Inr u, t) \<longleftrightarrow>
     length (es_output st) + 2 \<le> sl_maxOutputBytes L
     \<and> t = es_output_update (\<lambda>out. out @ u16 v) st"
  "appendUint24 L v st = (Inr u, t) \<longleftrightarrow>
     length (es_output st) + 3 \<le> sl_maxOutputBytes L
     \<and> t = es_output_update (\<lambda>out. out @ u24 v) st"
  "appendUint32 L v st = (Inr u, t) \<longleftrightarrow>
     length (es_output st) + 4 \<le> sl_maxOutputBytes L
     \<and> t = es_output_update (\<lambda>out. out @ u32 v) st"
  unfolding appendUint16_def appendUint24_def appendUint32_def then_eff_Inr_iff appendByte_Inr
    u16_def u24_def u32_def masked_bytes masked_low
  by (auto simp: comp_def)

lemma data_part_count_pos [simp]: "0 < data_part_count d" "data_part_count d \<noteq> 0"
  by (simp_all add: data_part_count_def)

lemma encodeData_Inr:
  "encodeData L n st = (Inr u, t) \<longleftrightarrow>
     (case ndata n of None \<Rightarrow> True | Some d \<Rightarrow> length d < serialMaxDataSize)
     \<and> own_parts n \<le> sl_maxDataPartsPerNode L
     \<and> (own_parts n = 0 \<or> ss_dataParts st + own_parts n \<le> sl_maxDataParts L)
     \<and> t = ss_dataParts_update (\<lambda>p. p + own_parts n) st"
  by (cases "ndata n")
     (auto simp: encodeData_def own_parts_def then_eff_Inr_iff validateNodeData_Inr split: if_splits)

lemma encodeHeader_Inr:
  "encodeHeader L n st = (Inr u, t) \<longleftrightarrow>
     length (es_output st) + 14 + dataSize n \<le> sl_maxOutputBytes L
     \<and> t = es_output_update (\<lambda>out. out @ node_header n) st"
  by (auto simp: encodeHeader_def ensureOutputSpace_def then_eff_Inr_iff appendByte_Inr
      appendUint_Inr u16_def u24_def node_header_def header_bytes_def serialHeaderSize_def comp_def)

lemma pushData_Inr:
  "pushData n st = (Inr u, t) \<longleftrightarrow> t = es_output_update (\<lambda>out. out @ data_bytes n) st"
  by (auto simp: pushData_def data_bytes_def push_bytes_def split: option.split)

lemma checkOriginalText_Inr:
  "checkOriginalText L n room st = (Inr u, t) \<longleftrightarrow> original_ok L n room \<and> t = st"
  by (auto simp: checkOriginalText_def original_ok_def effective_depth_def bind_eff_Inr_iff Let_def
      split: option.split)

lemma writeUint32_prefix:
  assumes "length out = p"
  shows "writeUint32 p v (out @ [a, b, c, d] @ rest) = out @ u32 v @ rest"
  unfolding writeUint32_def u32_def masked_bytes masked_low
  using assms by (simp add: list_update_append)

text \<open>
  The whole effect of an operation of the encoder: it accounts for \<open>v\<close> nodes and
  \<open>p\<close> data parts and writes the bytes \<open>s\<close>, and succeeds exactly when
  \<open>ok\<close> holds and the three budgets last.
\<close>

definition emitted :: "enc_state \<Rightarrow> nat \<Rightarrow> nat \<Rightarrow> byte list \<Rightarrow> enc_state" where
  "emitted st v p s =
     st\<lparr>ss_nodes := ss_nodes st + v, ss_dataParts := ss_dataParts st + p,
        es_output := es_output st @ s\<rparr>"

definition affordable :: "serialization_limits \<Rightarrow> enc_state \<Rightarrow> nat \<Rightarrow> nat \<Rightarrow> byte list \<Rightarrow> bool" where
  "affordable L st v p s \<longleftrightarrow>
     (v = 0 \<or> ss_nodes st + v \<le> sl_maxNodes L)
     \<and> (p = 0 \<or> ss_dataParts st + p \<le> sl_maxDataParts L)
     \<and> length (es_output st) + length s \<le> sl_maxOutputBytes L"

definition emits ::
    "serialization_limits \<Rightarrow> (enc_state, unit) eff \<Rightarrow> bool \<Rightarrow> nat \<Rightarrow> nat \<Rightarrow> byte list \<Rightarrow> bool" where
  "emits L m ok v p s \<longleftrightarrow>
     (\<forall>st t. length (es_output st) \<le> sl_maxOutputBytes L \<longrightarrow>
        (m st = (Inr (), t)) = (ok \<and> affordable L st v p s \<and> t = emitted st v p s))"

lemma emitted_simps [simp]:
  "ss_nodes (emitted st v p s) = ss_nodes st + v"
  "ss_dataParts (emitted st v p s) = ss_dataParts st + p"
  "es_output (emitted st v p s) = es_output st @ s"
  "emitted (emitted st v p s) v' p' s' = emitted st (v + v') (p + p') (s @ s')"
  "emitted st 0 0 [] = st"
  by (simp_all add: emitted_def add.assoc)

lemma affordable_emitted:
  "affordable L st v p s \<and> affordable L (emitted st v p s) v' p' s' \<longleftrightarrow>
     affordable L st (v + v') (p + p') (s @ s')"
  by (auto simp: affordable_def)

lemma emitsD:
  "emits L m ok v p s \<Longrightarrow> length (es_output st) \<le> sl_maxOutputBytes L \<Longrightarrow>
     m st = (Inr (), t) \<longleftrightarrow> ok \<and> affordable L st v p s \<and> t = emitted st v p s"
  by (simp add: emits_def)

lemma emits_then:
  assumes "emits L m ok v p s" and "emits L k ok' v' p' s'"
  shows "emits L (then_eff m k) (ok \<and> ok') (v + v') (p + p') (s @ s')"
  unfolding emits_def
proof (intro allI impI)
  fix st t :: enc_state
  assume le: "length (es_output st) \<le> sl_maxOutputBytes L"
  let ?u = "emitted st v p s"
  have "then_eff m k st = (Inr (), t) \<longleftrightarrow> ok \<and> affordable L st v p s \<and> k ?u = (Inr (), t)"
    unfolding then_eff_Inr_iff using emitsD [OF assms(1) le] by auto
  also have "\<dots> \<longleftrightarrow> ok \<and> affordable L st v p s
      \<and> ok' \<and> affordable L ?u v' p' s' \<and> t = emitted ?u v' p' s'"
    using emitsD [OF assms(2), of ?u t] by (auto simp: affordable_def)
  finally show "(then_eff m k st = (Inr (), t)) =
      ((ok \<and> ok') \<and> affordable L st (v + v') (p + p') (s @ s')
        \<and> t = emitted st (v + v') (p + p') (s @ s'))"
    unfolding affordable_emitted [symmetric] by auto
qed

lemma emits_cong:
  "emits L m ok v p s \<Longrightarrow> ok = ok' \<Longrightarrow> (ok' \<Longrightarrow> v = v' \<and> p = p' \<and> s = s') \<Longrightarrow> emits L m ok' v' p' s'"
  by (auto simp: emits_def)

lemma emits_intros:
  "emits L (checkSerialBudget L room) (0 < room) 1 0 []"
  "emits L (throw_when (\<lambda>_. b) e) (\<not> b) 0 0 []"
  "emits L (lift_result r) (r = Inr ()) 0 0 []"
  "emits L (encodeData L n)
     ((case ndata n of None \<Rightarrow> True | Some d \<Rightarrow> length d < serialMaxDataSize)
      \<and> own_parts n \<le> sl_maxDataPartsPerNode L) 0 (own_parts n) []"
  "emits L (ret ()) True 0 0 []"
  by (auto simp: emits_def affordable_def emitted_def checkSerialBudget_Inr encodeData_Inr)

text \<open>
  The reserved size field, the data and the children: the size written back at the end is
  that of the children's bytes.
\<close>

definition encodeTail :: "serialization_limits \<Rightarrow> node \<Rightarrow> nat \<Rightarrow> (enc_state, unit) eff \<Rightarrow> (enc_state, unit) eff" where
  "encodeTail limits n room encodeChildren =
    then_eff (encodeHeader limits n)
    (bind_eff (reads (\<lambda>st. length (es_output st))) (\<lambda>childrenSizePos.
     then_eff (appendUint32 limits 0)
    (then_eff (pushData n)
    (bind_eff (reads (\<lambda>st. length (es_output st))) (\<lambda>childrenStart.
     then_eff encodeChildren
    (bind_eff (reads (\<lambda>st. length (es_output st) - childrenStart)) (\<lambda>childrenSize.
     then_eff (throw_when (\<lambda>_. childrenSize > 0xffffffff)
                (Exception ''Serial child data exceeds format limit''))
    (then_eff (writes (es_output_update (writeUint32 childrenSizePos childrenSize)))
       (checkOriginalText limits n room)))))))))"

lemma emits_tail:
  assumes "emits L m ok v p body"
  shows "emits L (encodeTail L n room m)
    (ok \<and> length body \<le> 0xffffffff \<and> original_ok L n room) v p
    (node_header n @ u32 (length body) @ data_bytes n @ body)"
  unfolding emits_def
proof (intro allI impI)
  fix st t :: enc_state
  assume le: "length (es_output st) \<le> sl_maxOutputBytes L"
  let ?st1 = "emitted st 0 0 (node_header n @ u32 0 @ data_bytes n)"
  let ?patch = "es_output_update (writeUint32 (length (es_output st) + 10) (length body))"
  have patch: "?patch (emitted ?st1 v p body)
      = emitted st v p (node_header n @ u32 (length body) @ data_bytes n @ body)"
    using writeUint32_prefix [of "es_output st @ node_header n" "length (es_output st) + 10" "length body"]
    by (simp add: emitted_def u32_def)
  have st1: "es_output_update (\<lambda>out. out @ data_bytes n) (es_output_update (\<lambda>out. out @ u32 0)
      (es_output_update (\<lambda>out. out @ node_header n) st)) = ?st1"
    by (simp add: emitted_def comp_def)
  have "encodeTail L n room m st = (Inr (), t) \<longleftrightarrow>
      length (es_output st) + 14 + dataSize n \<le> sl_maxOutputBytes L
      \<and> (\<exists>u. m ?st1 = (Inr (), u)
          \<and> length (es_output u) - length (es_output ?st1) \<le> 0xffffffff \<and> original_ok L n room
          \<and> t = es_output_update (writeUint32 (length (es_output st) + 10)
                  (length (es_output u) - length (es_output ?st1))) u)"
    unfolding encodeTail_def then_eff_Inr_iff bind_eff_Inr_iff encodeHeader_Inr appendUint_Inr
      pushData_Inr checkOriginalText_Inr
    by (auto simp flip: st1 simp: add.commute add.left_commute comp_assoc not_less)
  also have "\<dots> \<longleftrightarrow> length (es_output st) + 14 + dataSize n \<le> sl_maxOutputBytes L
      \<and> ok \<and> affordable L ?st1 v p body \<and> length body \<le> 0xffffffff \<and> original_ok L n room
      \<and> t = ?patch (emitted ?st1 v p body)"
  proof (cases "length (es_output st) + 14 + dataSize n \<le> sl_maxOutputBytes L")
    case True
    then have le1: "length (es_output ?st1) \<le> sl_maxOutputBytes L" by simp
    have "length (es_output (emitted ?st1 v p body)) - length (es_output ?st1) = length body" by simp
    then show ?thesis unfolding emitsD [OF assms le1] by metis
  qed blast
  finally show "(encodeTail L n room m st = (Inr (), t)) =
      ((ok \<and> length body \<le> 0xffffffff \<and> original_ok L n room)
       \<and> affordable L st v p (node_header n @ u32 (length body) @ data_bytes n @ body)
       \<and> t = emitted st v p (node_header n @ u32 (length body) @ data_bytes n @ body))"
    unfolding patch by (auto simp: affordable_def)
qed

lemma invalid_flags_range:
  assumes "\<not> invalid_flags ty f"
  shows "0 \<le> f" and "f \<le> 7"
proof -
  have mask: "FlagEscape OR FlagLambdaOnly OR FlagPartialIndent = 7"
    by (simp add: flag_defs)
  from assms have z: "f AND NOT 7 = 0"
    unfolding invalid_flags_def mask Let_def by simp
  have "0 \<le> f AND NOT 7" unfolding z by simp
  then show "0 \<le> f" unfolding and_nonnegative_int_iff by simp
  have "f = (f AND 7) OR (f AND NOT 7)"
    by (rule bit_eqI) (auto simp: bit_simps)
  then have "f = f AND 7" unfolding z by simp
  moreover have "f AND 7 \<le> 7" by (rule AND_upper2') simp_all
  ultimately show "f \<le> 7" by metis
qed

lemma shape_flags_range:
  assumes "validateNodeShape ty f d c = Inr ()"
  shows "0 \<le> f" and "f \<le> 7"
  using assms invalid_flags_range [of ty f] by (auto simp: validateNodeShape_def split: if_splits)

lemma emits_node:
  "emits L (serializeNode L n room pm) (encodable L n room pm) (node_count n) (node_parts n) (encode n)"
  "emits L (serializeChildren L cs room) (children_encodable L cs room)
     (children_count cs) (children_parts cs) (encode_children cs)"
proof (induction L n room pm and L cs room rule: serializeNode_serializeChildren.induct)
  case (1 L n room pm)
  note guard = emits_intros(2) and lifted = emits_intros(3)
  note seq = emits_then [OF emits_intros(1) emits_then [OF lifted emits_then [OF guard emits_then [OF guard
    emits_then [OF lifted emits_then [OF guard emits_then [OF guard
    emits_then [OF emits_intros(4) emits_tail [OF 1]]]]]]]]]
  show ?case
    unfolding serializeNode.simps(1) [of L n] encodeTail_def [symmetric]
    by (rule emits_cong [OF seq])
       (use shape_flags_range [of "ntype n" "nflags n"] in
         \<open>auto simp: encodable_eq shape_ok_def node_count_eq node_parts_eq encode_eq not_less\<close>)
next
  case (2 L room)
  show ?case by (simp add: emits_intros)
next
  case (3 L cs room)
  show ?case by (simp add: emits_def)
next
  case (4 L c cs room)
  show ?case using emits_then [OF 4] by simp
qed

lemma serializeValue_Inr:
  "serializeValue L n = Inr bs \<longleftrightarrow>
     encodable L n (sl_maxNestingDepth L) False \<and> node_count n \<le> sl_maxNodes L
     \<and> node_parts n \<le> sl_maxDataParts L
     \<and> length (encode n) \<le> sl_maxOutputBytes L \<and> bs = encode n"
proof -
  let ?st = "\<lparr>ss_nodes = 0, ss_dataParts = 0, es_output = []\<rparr> :: enc_state"
  have "serializeValue L n = Inr bs \<longleftrightarrow>
      (\<exists>t. serializeNode L n (sl_maxNestingDepth L) False ?st = (Inr (), t) \<and> bs = es_output t)"
    by (auto simp: serializeValue_def split: prod.splits sum.splits)
  also have "\<dots> \<longleftrightarrow> encodable L n (sl_maxNestingDepth L) False
      \<and> affordable L ?st (node_count n) (node_parts n) (encode n) \<and> bs = encode n"
    using emitsD [OF emits_node(1), of ?st L n "sl_maxNestingDepth L" False] by auto
  finally show ?thesis by (auto simp: affordable_def node_count_eq)
qed

text \<open>
  C25. Serialization succeeds exactly on the trees the legacy format can carry (types,
  flags, data and children of every node valid, nesting within the limit, partial
  indentation directly before its partial, default section delimiters, original section
  text reproduced by reconstruction) that also fit the node, data-part and output budgets,
  and then it yields exactly the bytes of the format.
\<close>

theorem serializeValue_iff:
  "serializeValue L n = Inr bs \<longleftrightarrow>
     encodable L n (sl_maxNestingDepth L) False \<and> node_count n \<le> sl_maxNodes L
     \<and> node_parts n \<le> sl_maxDataParts L
     \<and> length (encode n) \<le> sl_maxOutputBytes L \<and> bs = encode n"
  by (rule serializeValue_Inr)

section \<open>The decoder\<close>

lemma rd_remaining_Inr:
  "rd_remaining bs limit st = (Inr r, t) \<longleftrightarrow>
     limit \<le> length bs \<and> rd_pos st \<le> limit \<and> r = limit - rd_pos st \<and> t = st"
  by (auto simp: rd_remaining_def then_eff_Inr_iff)

lemma readByte_Inr:
  "readByte bs limit st = (Inr b, t) \<longleftrightarrow>
     limit \<le> length bs \<and> rd_pos st < limit \<and> b = unat (bs ! rd_pos st) \<and> t = rd_pos_update Suc st"
  by (auto simp: readByte_def rd_require_def then_eff_Inr_iff bind_eff_Inr_iff rd_remaining_Inr)

lemmas read_Inr = then_eff_Inr_iff bind_eff_Inr_iff rd_remaining_Inr readByte_Inr

text \<open>\<open>at_pos bs p s\<close>: the bytes from position \<open>p\<close> on begin with \<open>s\<close>.\<close>

definition at_pos :: "byte list \<Rightarrow> nat \<Rightarrow> byte list \<Rightarrow> bool" where
  "at_pos bs p s \<longleftrightarrow> take (length s) (drop p bs) = s"

lemma at_pos_Nil [simp]: "at_pos bs p []"
  by (simp add: at_pos_def)

lemma at_pos_Cons: "at_pos bs p (x # s) \<longleftrightarrow> p < length bs \<and> bs ! p = x \<and> at_pos bs (Suc p) s"
proof (cases "p < length bs")
  case True
  then show ?thesis unfolding at_pos_def Cons_nth_drop_Suc [OF True, symmetric] by auto
qed (simp add: at_pos_def)

lemma at_pos_append: "at_pos bs p (s @ s') \<longleftrightarrow> at_pos bs p s \<and> at_pos bs (p + length s) s'"
  by (induction s arbitrary: p) (simp_all add: at_pos_Cons)

lemma at_pos_whole: "at_pos bs 0 s \<and> length s = length bs \<longleftrightarrow> s = bs"
  by (auto simp: at_pos_def)

lemma flags_byte_iff: "word_of_nat v = (b::byte) \<and> v < 2 ^ 8 \<longleftrightarrow> v = unat b"
  using split_top [OF unat_byte_less, of v b] by (simp add: byte_eq_iff)

lemma readByte_at:
  "readByte bs limit st = (Inr v, t) \<longleftrightarrow>
     limit \<le> length bs \<and> rd_pos st + 1 \<le> limit \<and> v < 2 ^ 8
     \<and> at_pos bs (rd_pos st) [word_of_nat v] \<and> t = rd_pos_update (\<lambda>p. p + 1) st"
  using flags_byte_iff [of v "bs ! rd_pos st"] by (auto simp: readByte_Inr at_pos_Cons)

lemma readUint16_at:
  "readUint16 bs limit st = (Inr v, t) \<longleftrightarrow>
     limit \<le> length bs \<and> rd_pos st + 2 \<le> limit \<and> v < 2 ^ 16
     \<and> at_pos bs (rd_pos st) (u16 v) \<and> t = rd_pos_update (\<lambda>p. p + 2) st"
proof -
  let ?a = "bs ! (rd_pos st)" and ?b = "bs ! (Suc (rd_pos st))"
  have code: "readUint16 bs limit st = (Inr v, t) \<longleftrightarrow> limit \<le> length bs \<and> rd_pos st + 2 \<le> limit
      \<and> v = (push_bit 8 (unat ?a) OR unat ?b) \<and> t = rd_pos_update (\<lambda>p. p + 2) st"
    unfolding readUint16_def bind_eff_Inr_iff readByte_Inr by (auto simp: comp_def)
  have pos: "at_pos bs (rd_pos st) (u16 v) \<longleftrightarrow> rd_pos st + 2 \<le> length bs \<and> u16 v = [?a, ?b]"
    unfolding u16_def at_pos_Cons by auto
  show ?thesis unfolding code u16_iff [symmetric] pos by auto
qed

lemma readUint24_at:
  "readUint24 bs limit st = (Inr v, t) \<longleftrightarrow>
     limit \<le> length bs \<and> rd_pos st + 3 \<le> limit \<and> v < 2 ^ 24
     \<and> at_pos bs (rd_pos st) (u24 v) \<and> t = rd_pos_update (\<lambda>p. p + 3) st"
proof -
  let ?a = "bs ! (rd_pos st)" and ?b = "bs ! (Suc (rd_pos st))" and ?c = "bs ! (Suc (Suc (rd_pos st)))"
  have code: "readUint24 bs limit st = (Inr v, t) \<longleftrightarrow> limit \<le> length bs \<and> rd_pos st + 3 \<le> limit
      \<and> v = ((push_bit 16 (unat ?a) OR push_bit 8 (unat ?b)) OR unat ?c) \<and> t = rd_pos_update (\<lambda>p. p + 3) st"
    unfolding readUint24_def bind_eff_Inr_iff readByte_Inr by (auto simp: comp_def)
  have pos: "at_pos bs (rd_pos st) (u24 v) \<longleftrightarrow> rd_pos st + 3 \<le> length bs \<and> u24 v = [?a, ?b, ?c]"
    unfolding u24_def at_pos_Cons by auto
  show ?thesis unfolding code u24_iff [symmetric] pos by auto
qed

lemma readUint32_at:
  "readUint32 bs limit st = (Inr v, t) \<longleftrightarrow>
     limit \<le> length bs \<and> rd_pos st + 4 \<le> limit \<and> v < 2 ^ 32
     \<and> at_pos bs (rd_pos st) (u32 v) \<and> t = rd_pos_update (\<lambda>p. p + 4) st"
proof -
  let ?a = "bs ! (rd_pos st)" and ?b = "bs ! (Suc (rd_pos st))" and ?c = "bs ! (Suc (Suc (rd_pos st)))" and ?d = "bs ! (Suc (Suc (Suc (rd_pos st))))"
  have code: "readUint32 bs limit st = (Inr v, t) \<longleftrightarrow> limit \<le> length bs \<and> rd_pos st + 4 \<le> limit
      \<and> v = (((push_bit 24 (unat ?a) OR push_bit 16 (unat ?b)) OR push_bit 8 (unat ?c)) OR unat ?d) \<and> t = rd_pos_update (\<lambda>p. p + 4) st"
    unfolding readUint32_def bind_eff_Inr_iff readByte_Inr by (auto simp: comp_def)
  have pos: "at_pos bs (rd_pos st) (u32 v) \<longleftrightarrow> rd_pos st + 4 \<le> length bs \<and> u32 v = [?a, ?b, ?c, ?d]"
    unfolding u32_def at_pos_Cons by auto
  show ?thesis unfolding code u32_iff [symmetric] pos by auto
qed

lemmas readUint_at = readUint16_at readUint24_at readUint32_at

definition header_ok :: "header \<Rightarrow> bool" where
  "header_ok h \<longleftrightarrow> isSerializableTypeValue (hd_type h) \<and> hd_flags h < 2 ^ 8
     \<and> hd_dataSize h < 2 ^ 24 \<and> hd_childrenNum h < 2 ^ 16 \<and> hd_childrenSize h < 2 ^ 32"

definition bytes_of_header :: "header \<Rightarrow> byte list" where
  "bytes_of_header h =
     header_bytes (hd_type h) (hd_flags h) (hd_dataSize h) (hd_childrenNum h) @ u32 (hd_childrenSize h)"

lemma length_bytes_of_header [simp]: "length (bytes_of_header h) = 14"
  by (simp add: bytes_of_header_def)

lemma bytes_of_header_not_Nil [simp]: "bytes_of_header h \<noteq> []"
  using length_bytes_of_header [of h] by (metis list.size(3) zero_neq_numeral)

lemma serializable_value_bound: "isSerializableTypeValue v \<Longrightarrow> v < 2 ^ 16"
  by (auto simp: isSerializableTypeValue_def serializable_types_def)

lemma at_pos_pair: "at_pos bs p [a, b] \<longleftrightarrow> at_pos bs p [a] \<and> at_pos bs (Suc p) [b]"
  by (auto simp: at_pos_Cons)

lemma u_lengths: "length (u16 v) = 2" "length (u24 v) = 3"
  by (simp_all add: u16_def u24_def)

lemma readHeader_Inr:
  "readHeader bs limit st = (Inr h, t) \<longleftrightarrow>
     limit \<le> length bs \<and> rd_pos st + 14 \<le> limit \<and> header_ok h
     \<and> at_pos bs (rd_pos st) (bytes_of_header h) \<and> t = rd_pos_update (\<lambda>p. p + 14) st"
proof -
  obtain ty fl ds cn cs where h: "h = \<lparr>hd_type = ty, hd_flags = fl, hd_dataSize = ds,
      hd_childrenNum = cn, hd_childrenSize = cs\<rparr>" by (cases h)
  let ?p = "rd_pos st"
  have "readHeader bs limit st = (Inr h, t) \<longleftrightarrow>
     (limit \<le> length bs \<and> ?p + 14 \<le> limit
     \<and> at_pos bs ?p [77] \<and> at_pos bs (Suc ?p) [85]
     \<and> isSerializableTypeValue ty \<and> fl < 2 ^ 8 \<and> ds < 2 ^ 24 \<and> cn < 2 ^ 16 \<and> cs < 2 ^ 32
     \<and> at_pos bs (Suc (Suc ?p)) (u16 ty) \<and> at_pos bs (Suc (Suc (Suc (Suc ?p)))) [word_of_nat fl]
     \<and> at_pos bs (Suc (Suc (Suc (Suc (Suc ?p))))) (u24 ds) \<and> at_pos bs (8 + ?p) (u16 cn)
     \<and> at_pos bs (10 + ?p) (u32 cs) \<and> t = rd_pos_update ((+) 14) st)"
    unfolding readHeader_def then_eff_Inr_iff bind_eff_Inr_iff readUint_at readByte_at rd_remaining_Inr h
    using serializable_value_bound [of ty]
    by (simp add: serialHeaderSize_def comp_def) auto
  also have "\<dots> \<longleftrightarrow> limit \<le> length bs \<and> ?p + 14 \<le> limit \<and> header_ok h
     \<and> at_pos bs ?p (bytes_of_header h) \<and> t = rd_pos_update ((+) 14) st"
    unfolding bytes_of_header_def header_bytes_def at_pos_append header_ok_def h
    by (simp add: at_pos_append at_pos_pair u_lengths add.commute) blast
  moreover have "(\<lambda>p. p + (14::nat)) = (+) 14" by (simp add: fun_eq_iff)
  ultimately show ?thesis by simp
qed

lemma readString_Inr:
  "readString bs len limit st = (Inr s, t) \<longleftrightarrow>
     limit \<le> length bs \<and> rd_pos st + len \<le> limit \<and> length s = len
     \<and> at_pos bs (rd_pos st) (map byte_of_char s) \<and> t = rd_pos_update (\<lambda>p. p + len) st"
proof -
  have "s = map char_of_byte (take len (drop (rd_pos st) bs)) \<longleftrightarrow>
      length s = len \<and> at_pos bs (rd_pos st) (map byte_of_char s)"
    if "rd_pos st + len \<le> length bs"
    using that by (auto simp: at_pos_def comp_def min_def dest: arg_cong [where f = "map char_of_byte"])
  then show ?thesis
    by (auto simp: readString_def rd_require_def read_Inr)
qed

text \<open>The data of a node, and the tree the decoder builds.\<close>

lemma validateNodeData_own:
  assumes "ndata n = Some d"
  shows "validateNodeData L (ntype n) d st = (Inr u, t) \<longleftrightarrow>
     own_parts n \<le> sl_maxDataPartsPerNode L
     \<and> (own_parts n = 0 \<or> ss_dataParts st + own_parts n \<le> sl_maxDataParts L)
     \<and> t = ss_dataParts_update (\<lambda>p. p + own_parts n) st"
  using assms by (cases st) (auto simp: validateNodeData_Inr own_parts_def)

lemma readData_Inr:
  "readData L bs limit (ntype n) dsize st = (Inr (ndata n), t) \<longleftrightarrow>
    dsize = dataSize n \<and> (ndata n = None \<or> (limit \<le> length bs \<and> rd_pos st + dsize \<le> limit))
    \<and> at_pos bs (rd_pos st) (data_bytes n) \<and> own_parts n \<le> sl_maxDataPartsPerNode L
    \<and> (own_parts n = 0 \<or> ss_dataParts st + own_parts n \<le> sl_maxDataParts L)
    \<and> t = st\<lparr>ss_dataParts := ss_dataParts st + own_parts n, rd_pos := rd_pos st + dsize\<rparr>"
proof (cases "ndata n")
  case None
  then show ?thesis
    by (auto simp: readData_def read_Inr dataSize_def data_bytes_def own_parts_def)
next
  case (Some d)
  have z: "unat (b::byte) = 0 \<longleftrightarrow> b = 0" for b by (simp add: unat_eq_0)
  show ?thesis
    unfolding readData_def
    by (cases dsize)
       (auto simp: Some read_Inr readString_Inr validateNodeData_own dataSize_def data_bytes_def
        at_pos_append at_pos_Cons z)
qed

text \<open>
  \<open>legacy n\<close> is what the format keeps of a tree: types, flags, data and children;
  delimiters become the defaults, private source ranges, partials and the container child
  are left out.
\<close>

primrec legacy :: "node \<Rightarrow> node" where
  "legacy (Node ty fl d dp cs ch ps st sp src b l) = decoded_node ty fl d (map (map_option legacy) cs)"

lemma decoded_node_simps [simp]:
  "ntype (decoded_node ty fl d cs) = ty" "nflags (decoded_node ty fl d cs) = fl"
  "ndata (decoded_node ty fl d cs) = d" "children (decoded_node ty fl d cs) = cs"
  "sectionSource (decoded_node ty fl d cs) = None"
  by (cases d; simp add: decoded_node_def Let_def)+

lemma legacy_eq:
  "legacy n = decoded_node (ntype n) (nflags n) (ndata n) (map (map_option legacy) (children n))"
  by (cases n) simp

lemma legacy_simps [simp]:
  "ntype (legacy n) = ntype n" "nflags (legacy n) = nflags n" "ndata (legacy n) = ndata n"
  "children (legacy n) = map (map_option legacy) (children n)" "sectionSource (legacy n) = None"
  by (simp_all add: legacy_eq [of n])

lemma legacy_fixed_iff:
  "legacy n = n \<longleftrightarrow> n = decoded_node (ntype n) (nflags n) (ndata n) (children n)
     \<and> map (map_option legacy) (children n) = children n"
  using legacy_eq [of n] by (metis legacy_simps(4))

lemma decoded_legacy_iff:
  "legacy (decoded_node ty fl d cs) = decoded_node ty fl d cs \<longleftrightarrow> map (map_option legacy) cs = cs"
  by (simp add: legacy_fixed_iff)

lemma legacy_idem [simp]: "legacy (legacy n) = legacy n"
proof (induction n rule: node_induct)
  case (node n)
  have "map_option legacy (map_option legacy c) = map_option legacy c" if "c \<in> set (children n)" for c
    using node that by (cases c) auto
  then show ?case by (simp add: decoded_legacy_iff legacy_eq [of n])
qed

text \<open>Legacy trees as the decoder sees them: every node's shape, and the nesting.\<close>

function wire_ok :: "serialization_limits \<Rightarrow> node \<Rightarrow> nat \<Rightarrow> bool" where
  "wire_ok L n room \<longleftrightarrow> 0 < room \<and> shape_ok L n
     \<and> (\<forall>c\<in>set (children n). case c of None \<Rightarrow> False | Some m \<Rightarrow> wire_ok L m (room - 1))"
  by pat_completeness auto
termination
  by (relation "measure (\<lambda>(L, n, room). size n)") (auto simp: size_children)

declare wire_ok.simps [simp del]

definition children_wire_ok :: "serialization_limits \<Rightarrow> node option list \<Rightarrow> nat \<Rightarrow> bool" where
  "children_wire_ok L cs room \<longleftrightarrow>
     (\<forall>c\<in>set cs. case c of None \<Rightarrow> False | Some m \<Rightarrow> wire_ok L m room)"

lemma wire_ok_eq:
  "wire_ok L n room \<longleftrightarrow> 0 < room \<and> shape_ok L n \<and> children_wire_ok L (children n) (room - 1)"
  unfolding children_wire_ok_def by (rule wire_ok.simps)

lemma children_wire_ok_simps [simp]:
  "children_wire_ok L [] room"
  "children_wire_ok L (Some m # cs) room \<longleftrightarrow> wire_ok L m room \<and> children_wire_ok L cs room"
  by (simp_all add: children_wire_ok_def)

lemma children_wire_ok_Some:
  "children_wire_ok L cs room \<Longrightarrow> \<exists>ms. cs = map Some ms"
proof (induction cs)
  case (Cons c cs)
  then obtain ms m where "cs = map Some ms" "c = Some m"
    by (auto simp: children_wire_ok_def split: option.splits)
  then have "c # cs = map Some (m # ms)" by simp
  then show ?case by (rule exI)
qed simp

text \<open>The effect of decoding one node whose end must not pass \<open>limit\<close>.\<close>

definition decoded :: "dec_state \<Rightarrow> nat \<Rightarrow> nat \<Rightarrow> byte list \<Rightarrow> dec_state" where
  "decoded st v p s =
     st\<lparr>ss_nodes := ss_nodes st + v, ss_dataParts := ss_dataParts st + p,
        rd_pos := rd_pos st + length s\<rparr>"

definition within :: "serialization_limits \<Rightarrow> byte list \<Rightarrow> nat \<Rightarrow> dec_state \<Rightarrow> nat \<Rightarrow> nat \<Rightarrow> byte list \<Rightarrow> bool" where
  "within L bs limit st v p s \<longleftrightarrow>
     (v = 0 \<or> ss_nodes st + v \<le> sl_maxNodes L)
     \<and> (p = 0 \<or> ss_dataParts st + p \<le> sl_maxDataParts L)
     \<and> (s = [] \<or> limit \<le> length bs \<and> rd_pos st + length s \<le> limit)
     \<and> at_pos bs (rd_pos st) s"

definition decodes_nodes ::
    "serialization_limits \<Rightarrow> byte list \<Rightarrow> nat \<Rightarrow> (nat \<Rightarrow> (dec_state, node) eff) \<Rightarrow> bool" where
  "decodes_nodes L bs room dec \<longleftrightarrow>
     (\<forall>limit st n t. (dec limit st = (Inr n, t)) =
        (legacy n = n \<and> wire_ok L n room
         \<and> within L bs limit st (node_count n) (node_parts n) (encode n)
         \<and> t = decoded st (node_count n) (node_parts n) (encode n)))"

lemma decoded_simps [simp]:
  "ss_nodes (decoded st v p s) = ss_nodes st + v"
  "ss_dataParts (decoded st v p s) = ss_dataParts st + p"
  "rd_pos (decoded st v p s) = rd_pos st + length s"
  "decoded (decoded st v p s) v' p' s' = decoded st (v + v') (p + p') (s @ s')"
  "decoded st 0 0 [] = st"
  by (simp_all add: decoded_def add.assoc)

lemma within_decoded:
  "within L bs limit st v p s \<and> within L bs limit (decoded st v p s) v' p' s' \<longleftrightarrow>
     within L bs limit st (v + v') (p + p') (s @ s')"
  by (auto simp: within_def at_pos_append)

lemma repeat_decodes:
  assumes "decodes_nodes L bs room dec"
  shows "repeat_eff k (dec limit) st = (Inr cs, t) \<longleftrightarrow>
    length cs = k \<and> map legacy cs = cs \<and> children_wire_ok L (map Some cs) room
    \<and> within L bs limit st (children_count (map Some cs)) (children_parts (map Some cs))
        (encode_children (map Some cs))
    \<and> t = decoded st (children_count (map Some cs)) (children_parts (map Some cs))
        (encode_children (map Some cs))"
proof (induction k arbitrary: st cs)
  case 0
  then show ?case by (auto simp: within_def)
next
  case (Suc k)
  note dec = assms [unfolded decodes_nodes_def, rule_format]
  show ?case
  proof (cases cs)
    case Nil
    then show ?thesis by (simp add: bind_eff_Inr_iff)
  next
    case (Cons m ms)
    then show ?thesis
      by (simp add: bind_eff_Inr_iff dec Suc.IH flip: within_decoded) blast
  qed
qed

lemma encode_length: "14 \<le> length (encode n)"
  by (simp add: encode_eq)

lemma encode_children_length: "14 * length ms \<le> length (encode_children (map Some ms))"
proof (induction ms)
  case (Cons m ms)
  then show ?case using encode_length [of m] by simp
qed simp

lemma serializable_value_inverse [simp]:
  "isSerializableTypeValue v \<Longrightarrow> node_type_value (node_type_of_value v) = v"
  by (auto simp: isSerializableTypeValue_def serializable_types_def node_type_of_value_def)

lemma serializable_type_inverse [simp]:
  "isSerializableType ty \<Longrightarrow> node_type_of_value (node_type_value ty) = ty"
  by (cases ty) (auto simp: isSerializableType_def isSerializableTypeValue_def
      serializable_types_def node_type_of_value_def)

text \<open>The header of a node's encoding, and back.\<close>

definition header_of :: "node \<Rightarrow> header" where
  "header_of n =
     \<lparr>hd_type = node_type_value (ntype n), hd_flags = nat (nflags n), hd_dataSize = dataSize n,
      hd_childrenNum = length (children n), hd_childrenSize = length (encode_children (children n))\<rparr>"

lemma encode_header: "encode n = bytes_of_header (header_of n) @ data_bytes n @ encode_children (children n)"
  by (simp add: encode_eq bytes_of_header_def header_of_def node_header_def)

lemma shape_ok_header:
  assumes "shape_ok L n"
  shows "header_ok (header_of n)"
proof -
  from assms have "validateNodeShape (ntype n) (nflags n) (ndata n \<noteq> None) (length (children n)) = Inr ()"
    by (simp add: shape_ok_def)
  then have "isSerializableTypeValue (node_type_value (ntype n))" and "0 \<le> nflags n" and "nflags n \<le> 7"
    using shape_flags_range by (auto simp: validateNodeShape_def isSerializableType_def split: if_splits)
  moreover have "dataSize n < 2 ^ 24"
    using assms by (auto simp: shape_ok_def dataSize_def serialMaxDataSize_def split: option.splits)
  ultimately show ?thesis
    using assms by (auto simp: header_ok_def header_of_def shape_ok_def serialMaxChildren_def)
qed

lemma unserializeBody_Inr:
  "unserializeBody dec L bs room limit st = (Inr n, t) \<longleftrightarrow>
    (\<exists>h s1 d s2 cs.
       0 < room \<and> ss_nodes st < sl_maxNodes L
       \<and> readHeader bs limit (ss_nodes_update Suc st) = (Inr h, s1)
       \<and> validateNodeShape (node_type_of_value (hd_type h)) (int (hd_flags h)) (0 < hd_dataSize h)
           (hd_childrenNum h) = Inr ()
       \<and> hd_dataSize h \<le> limit - rd_pos s1
       \<and> readData L bs limit (node_type_of_value (hd_type h)) (hd_dataSize h) s1 = (Inr d, s2)
       \<and> limit \<le> length bs \<and> rd_pos s2 \<le> limit
       \<and> hd_childrenSize h \<le> limit - rd_pos s2
       \<and> (0 < hd_childrenNum h \<longrightarrow> hd_childrenNum h \<le> hd_childrenSize h div 14)
       \<and> repeat_eff (hd_childrenNum h) (dec (rd_pos s2 + hd_childrenSize h)) s2 = (Inr cs, t)
       \<and> validatePartialIndentationChildren (map Some cs) = Inr ()
       \<and> rd_pos t = rd_pos s2 + hd_childrenSize h
       \<and> n = decoded_node (node_type_of_value (hd_type h)) (int (hd_flags h)) d (map Some cs))"
  unfolding unserializeBody_def then_eff_Inr_iff bind_eff_Inr_iff checkSerialBudget_Inr
    rd_remaining_Inr Let_def
  by (auto simp: serialHeaderSize_def readHeader_Inr not_less)

lemma dataSize_pos: "0 < dataSize n \<longleftrightarrow> ndata n \<noteq> None"
  by (simp add: dataSize_def split: option.split)

lemma shape_ok_from_header:
  assumes "header_ok (header_of n)"
    and "validateNodeShape (ntype n) (nflags n) (ndata n \<noteq> None) (length (children n)) = Inr ()"
    and "validatePartialIndentationChildren (children n) = Inr ()"
    and "own_parts n \<le> sl_maxDataPartsPerNode L"
  shows "shape_ok L n"
  using assms by (auto simp: shape_ok_def header_ok_def header_of_def dataSize_def serialMaxDataSize_def
      serialMaxChildren_def split: option.splits)

lemma map_Some_legacy: "map (map_option legacy) (map Some ms) = map Some ms \<longleftrightarrow> map legacy ms = ms"
  by (induction ms) auto

lemma unserializeBody_sound:
  assumes dec: "decodes_nodes L bs (room - 1) dec"
    and run: "unserializeBody dec L bs room limit st = (Inr n, t)"
  shows "legacy n = n \<and> wire_ok L n room
    \<and> within L bs limit st (node_count n) (node_parts n) (encode n)
    \<and> t = decoded st (node_count n) (node_parts n) (encode n)"
proof -
  from run obtain h s1 d s2 cs where
    budget: "0 < room" "ss_nodes st < sl_maxNodes L" and
    head: "readHeader bs limit (ss_nodes_update Suc st) = (Inr h, s1)" and
    shape: "validateNodeShape (node_type_of_value (hd_type h)) (int (hd_flags h)) (0 < hd_dataSize h)
           (hd_childrenNum h) = Inr ()" and
    data: "readData L bs limit (node_type_of_value (hd_type h)) (hd_dataSize h) s1 = (Inr d, s2)" and
    room2: "limit \<le> length bs" "rd_pos s2 \<le> limit" "hd_childrenSize h \<le> limit - rd_pos s2" and
    rep: "repeat_eff (hd_childrenNum h) (dec (rd_pos s2 + hd_childrenSize h)) s2 = (Inr cs, t)" and
    indent: "validatePartialIndentationChildren (map Some cs) = Inr ()" and
    fin: "rd_pos t = rd_pos s2 + hd_childrenSize h" and
    n: "n = decoded_node (node_type_of_value (hd_type h)) (int (hd_flags h)) d (map Some cs)"
    unfolding unserializeBody_Inr by blast
  have n_simps: "ntype n = node_type_of_value (hd_type h)" "nflags n = int (hd_flags h)" "ndata n = d"
    "children n = map Some cs" using n by simp_all
  note head' = head [unfolded readHeader_Inr]
  note data' = data [folded n_simps, unfolded readData_Inr]
  note rep' = rep [unfolded repeat_decodes [OF dec], folded n_simps]
  have "hd_childrenSize h = length (encode_children (children n))" using rep' fin by simp
  then have h: "h = header_of n"
    using head' data' rep' by (auto simp: header_of_def header_ok_def n_simps intro!: header.equality)
  have "0 < hd_dataSize h \<longleftrightarrow> ndata n \<noteq> None" using data' by (simp add: dataSize_pos)
  moreover have "hd_childrenNum h = length (children n)" using rep' n_simps by simp
  ultimately have
    "validateNodeShape (ntype n) (nflags n) (ndata n \<noteq> None) (length (children n)) = Inr ()"
    using shape [folded n_simps] by simp
  then have "shape_ok L n"
    using shape_ok_from_header [of n L] head' data' indent [folded n_simps] h by blast
  then have "wire_ok L n room" using budget rep' by (simp add: wire_ok_eq)
  moreover have "legacy n = n"
    unfolding n decoded_legacy_iff map_Some_legacy using rep' by blast
  moreover have "within L bs limit st (node_count n) (node_parts n) (encode n)"
    using head' data' rep' room2 budget
    by (auto simp: within_def node_count_eq node_parts_eq encode_header at_pos_append h add.commute
        add.left_commute)
  moreover have "t = decoded st (node_count n) (node_parts n) (encode n)"
    using head' data' rep' by (simp add: decoded_def node_count_eq node_parts_eq encode_header)
  ultimately show ?thesis by blast
qed

lemma unserializeBody_complete:
  assumes dec: "decodes_nodes L bs (room - 1) dec"
    and fixed: "legacy n = n" and ok: "wire_ok L n room"
    and fits: "within L bs limit st (node_count n) (node_parts n) (encode n)"
    and t: "t = decoded st (node_count n) (node_parts n) (encode n)"
  shows "unserializeBody dec L bs room limit st = (Inr n, t)"
proof -
  let ?h = "header_of n" and ?body = "encode_children (children n)"
  let ?s1 = "rd_pos_update (\<lambda>p. p + 14) (ss_nodes_update Suc st)"
  let ?s2 = "?s1\<lparr>ss_dataParts := ss_dataParts ?s1 + own_parts n, rd_pos := rd_pos ?s1 + dataSize n\<rparr>"
  from ok have shape: "shape_ok L n" and room: "0 < room" and
    kids: "children_wire_ok L (children n) (room - 1)" by (simp_all add: wire_ok_eq)
  from children_wire_ok_Some [OF kids] obtain cs where cs: "children n = map Some cs" by blast
  from fixed have n: "n = decoded_node (ntype n) (nflags n) (ndata n) (map Some cs)"
    and cs_fixed: "map legacy cs = cs"
    unfolding legacy_fixed_iff [of n] cs map_Some_legacy by blast+
  have vshape: "validateNodeShape (ntype n) (nflags n) (ndata n \<noteq> None) (length (children n)) = Inr ()"
    using shape by (simp add: shape_ok_def)
  then have ty: "node_type_of_value (hd_type ?h) = ntype n" and fl: "int (hd_flags ?h) = nflags n"
    using shape_flags_range [OF vshape] by (auto simp: header_of_def validateNodeShape_def split: if_splits)
  have end_le: "rd_pos st + 14 + dataSize n + length ?body \<le> limit" "limit \<le> length bs"
    using fits by (auto simp: within_def encode_header)
  then have end_le': "dataSize n \<le> limit - (rd_pos st + 14)"
    "length ?body \<le> limit - (rd_pos st + 14 + dataSize n)" by simp_all
  have pos: "at_pos bs (rd_pos st) (bytes_of_header ?h)" "at_pos bs (rd_pos st + 14) (data_bytes n)"
    "at_pos bs (rd_pos st + 14 + dataSize n) ?body"
    using fits by (simp_all add: within_def encode_header at_pos_append)
  have head: "readHeader bs limit (ss_nodes_update Suc st) = (Inr ?h, ?s1)"
    using end_le pos shape_ok_header [OF shape] by (simp add: readHeader_Inr)
  have data: "readData L bs limit (ntype n) (dataSize n) ?s1 = (Inr (ndata n), ?s2)"
    unfolding readData_Inr using end_le pos shape fits
    by (auto simp: shape_ok_def within_def node_parts_eq)
  have rep: "repeat_eff (length cs) (dec (rd_pos ?s2 + length ?body)) ?s2 = (Inr cs, t)"
    unfolding repeat_decodes [OF dec]
    using end_le pos kids fits cs_fixed t
    by (auto simp: cs within_def node_count_eq node_parts_eq decoded_def encode_header add.commute
        add.left_commute)
  have hd: "hd_dataSize ?h = dataSize n" "hd_childrenNum ?h = length cs" "hd_childrenSize ?h = length ?body"
    "hd_dataSize ?h > 0 \<longleftrightarrow> ndata n \<noteq> None"
    by (simp_all add: header_of_def cs dataSize_pos)
  have num: "length cs \<le> length ?body div 14"
    using encode_children_length [of cs] by (simp add: cs)
  have nodes: "ss_nodes st < sl_maxNodes L" using fits by (auto simp: within_def node_count_eq)
  have indent: "validatePartialIndentationChildren (map Some cs) = Inr ()"
    using shape by (simp add: shape_ok_def cs)
  have fin: "rd_pos t = rd_pos ?s2 + length ?body" by (simp add: t encode_header)
  show ?thesis
    unfolding unserializeBody_Inr ty fl hd(4)
    using room nodes head vshape data rep num indent fin n end_le end_le'
    by (rule_tac x = ?h in exI, rule_tac x = ?s1 in exI, rule_tac x = "ndata n" in exI,
        rule_tac x = ?s2 in exI, rule_tac x = cs in exI)
       (simp add: ty fl hd cs dataSize_pos)
qed

lemma wire_ok_pos: "wire_ok L n room \<Longrightarrow> 0 < room"
  by (simp add: wire_ok_eq)

lemma unserializeNode_decodes: "decodes_nodes L bs room (unserializeNode L bs room)"
proof (induction room)
  case 0
  show ?case
    using wire_ok_pos [of L _ 0] by (auto simp: decodes_nodes_def unserializeBody_Inr)
next
  case (Suc room)
  then have dec: "decodes_nodes L bs (Suc room - 1) (unserializeNode L bs room)" by simp
  show ?case
    unfolding decodes_nodes_def unserializeNode.simps
    using unserializeBody_sound [OF dec] unserializeBody_complete [OF dec] by blast
qed

section \<open>Both directions together\<close>

lemma unserializeOwned_Inr:
  "unserializeOwned bs L = Inr n \<longleftrightarrow>
     length bs \<le> sl_maxInputBytes L \<and> legacy n = n \<and> wire_ok L n (sl_maxNestingDepth L)
     \<and> node_count n \<le> sl_maxNodes L \<and> node_parts n \<le> sl_maxDataParts L
     \<and> nflags n AND FlagPartialIndent = 0 \<and> bs = encode n"
proof -
  let ?st = "\<lparr>ss_nodes = 0, ss_dataParts = 0, rd_pos = 0\<rparr> :: dec_state"
  have "unserializeOwned bs L = Inr n \<longleftrightarrow> length bs \<le> sl_maxInputBytes L
      \<and> nflags n AND FlagPartialIndent = 0
      \<and> (\<exists>t. unserializeNode L bs (sl_maxNestingDepth L) (length bs) ?st = (Inr n, t)
           \<and> rd_pos t = length bs)"
    unfolding unserializeOwned_def unserializeOwnedRange_def
    by (auto split: prod.splits sum.splits if_splits)
  also have "\<dots> \<longleftrightarrow> length bs \<le> sl_maxInputBytes L \<and> nflags n AND FlagPartialIndent = 0
      \<and> legacy n = n \<and> wire_ok L n (sl_maxNestingDepth L)
      \<and> within L bs (length bs) ?st (node_count n) (node_parts n) (encode n)
      \<and> length (encode n) = length bs"
    using unserializeNode_decodes [of L bs "sl_maxNestingDepth L"] unfolding decodes_nodes_def by auto
  also have "within L bs (length bs) ?st (node_count n) (node_parts n) (encode n)
      \<and> length (encode n) = length bs \<longleftrightarrow>
      node_count n \<le> sl_maxNodes L \<and> node_parts n \<le> sl_maxDataParts L \<and> bs = encode n"
    using at_pos_whole [of bs "encode n"] by (auto simp: within_def node_count_eq)
  finally show ?thesis by blast
qed

text \<open>
  C10. The decoder accepts exactly the encodings: bytes decode to a tree exactly when they
  are the format's bytes of that tree, the tree holds nothing the format cannot carry, it
  meets the shape rules and the limits, and its root is no indentation metadata. Nothing
  else is accepted: no trailing byte, no wrong size field, no alternative encoding.
\<close>

theorem decoder_accepts_exactly_encodings:
  "unserializeOwned bs L = Inr n \<longleftrightarrow>
     length bs \<le> sl_maxInputBytes L \<and> legacy n = n \<and> wire_ok L n (sl_maxNestingDepth L)
     \<and> node_count n \<le> sl_maxNodes L \<and> node_parts n \<le> sl_maxDataParts L
     \<and> nflags n AND FlagPartialIndent = 0 \<and> bs = encode n"
  by (rule unserializeOwned_Inr)

text \<open>What the format drops does not show in the bytes, the counts or the shape rules.\<close>

lemma encode_legacy [simp]: "encode (legacy n) = encode n"
proof (induction n rule: node_induct)
  case (node n)
  then have "encode_children (map (map_option legacy) (children n)) = encode_children (children n)"
    unfolding encode_children_def map_map
    by (intro arg_cong [where f = concat] map_cong) (auto split: option.split)
  then show ?case by (simp add: encode_eq node_header_def data_bytes_def dataSize_def)
qed

lemma children_encode_legacy [simp]:
  "encode_children (map (map_option legacy) cs) = encode_children cs"
  unfolding encode_children_def map_map
  by (intro arg_cong [where f = concat] map_cong) (auto split: option.split)

lemma own_parts_legacy [simp]: "own_parts (legacy n) = own_parts n"
  by (simp add: own_parts_def split: option.split)

lemma counts_legacy: "node_count (legacy n) = node_count n \<and> node_parts (legacy n) = node_parts n"
proof (induction n rule: node_induct)
  case (node n)
  then have "children_count (map (map_option legacy) (children n)) = children_count (children n)"
    and "children_parts (map (map_option legacy) (children n)) = children_parts (children n)"
    unfolding children_count_def children_parts_def map_map
    by (auto intro!: arg_cong [where f = sum_list] map_cong split: option.split)
  then show ?case by (simp add: node_count_eq node_parts_eq)
qed

lemma metadata_legacy [simp]: "isPartialIndentationMetadata (legacy n) = isPartialIndentationMetadata n"
  by (simp add: isPartialIndentationMetadata_def)

lemma validate_children_legacy [simp]:
  "validatePartialIndentationChildren (map (map_option legacy) cs) = validatePartialIndentationChildren cs"
  by (induction cs rule: validatePartialIndentationChildren.induct) (auto split: list.split option.split)

lemma shape_ok_legacy [simp]: "shape_ok L (legacy n) = shape_ok L n"
  by (simp add: shape_ok_def)

lemma wire_ok_legacy: "encodable L n room pm \<Longrightarrow> wire_ok L (legacy n) room"
proof (induction n arbitrary: room pm rule: node_induct)
  case (node n)
  from node.prems have kids: "children_encodable L (children n) (room - 1)" by (simp add: encodable_eq)
  have "children_wire_ok L (map (map_option legacy) (children n)) (room - 1)"
    unfolding children_wire_ok_def
  proof
    fix c assume "c \<in> set (map (map_option legacy) (children n))"
    then obtain c' where c': "c' \<in> set (children n)" "c = map_option legacy c'" by auto
    with kids obtain m where "c' = Some m" "encodable L m (room - 1) (isPartialIndentationMetadata m)"
      by (auto simp: children_encodable_def split: option.splits)
    with node.IH c' show "case c of None \<Rightarrow> False | Some m \<Rightarrow> wire_ok L m (room - 1)" by auto
  qed
  then show ?case using node.prems by (simp add: encodable_eq wire_ok_eq)
qed

text \<open>
  The shape rules make every marked child metadata, so a tree that decodes can be encoded
  again: it has default delimiters and no original section text.
\<close>

lemma indent_flag_type:
  "shape_ok L c \<Longrightarrow> nflags c AND FlagPartialIndent \<noteq> 0 \<Longrightarrow> ntype c = TypeOutput"
  by (auto simp: shape_ok_def validateNodeShape_def invalid_flags_def Let_def split: if_splits)

lemma validated_child_metadata:
  "validatePartialIndentationChildren cs = Inr () \<Longrightarrow> Some c \<in> set cs \<Longrightarrow>
     shape_ok L c \<Longrightarrow> nflags c AND FlagPartialIndent \<noteq> 0 \<Longrightarrow> isPartialIndentationMetadata c"
proof (induction cs rule: validatePartialIndentationChildren.induct)
  case (3 d cs)
  then show ?case
    using indent_flag_type [of L c]
    by (auto split: if_splits list.splits option.splits)
qed auto

lemma legacy_delimiters: "legacy n = n \<Longrightarrow> \<not> custom_delimiters n"
  by (subst (asm) legacy_fixed_iff, erule conjE, erule ssubst)
     (auto simp: custom_delimiters_def decoded_node_def Let_def split: option.splits)

lemma original_ok_legacy: "legacy n = n \<Longrightarrow> original_ok L n room"
  using legacy_simps(5) [of n] by (simp add: original_ok_def originalSectionText_def)

lemma wire_encodable:
  "legacy n = n \<Longrightarrow> wire_ok L n room \<Longrightarrow> (nflags n AND FlagPartialIndent \<noteq> 0 \<longrightarrow> pm) \<Longrightarrow>
     encodable L n room pm"
proof (induction n arbitrary: room pm rule: node_induct)
  case (node n)
  from node.prems have shape: "shape_ok L n" and room: "0 < room"
    and kids: "children_wire_ok L (children n) (room - 1)" by (simp_all add: wire_ok_eq)
  from node.prems(1) have fixed: "map (map_option legacy) (children n) = children n"
    using legacy_fixed_iff by blast
  have "children_encodable L (children n) (room - 1)"
    unfolding children_encodable_def
  proof
    fix c assume c: "c \<in> set (children n)"
    with kids obtain m where m: "c = Some m" "wire_ok L m (room - 1)"
      by (auto simp: children_wire_ok_def split: option.splits)
    from c fixed have "map_option legacy c = c" by (metis in_set_conv_nth nth_map)
    with m have "legacy m = m" by simp
    moreover have "nflags m AND FlagPartialIndent \<noteq> 0 \<longrightarrow> isPartialIndentationMetadata m"
      using shape c m validated_child_metadata [of "children n" m L]
      by (auto simp: shape_ok_def [of L n] wire_ok_eq)
    ultimately show "case c of None \<Rightarrow> False
        | Some m \<Rightarrow> encodable L m (room - 1) (isPartialIndentationMetadata m)"
      using node.IH c m by simp
  qed
  then show ?case
    using node.prems room shape legacy_delimiters original_ok_legacy by (simp add: encodable_eq)
qed

lemma decode_serialized:
  assumes "serializeValue L n = Inr bs" and "length bs \<le> sl_maxInputBytes L"
  shows "unserializeOwned bs L = Inr (legacy n)"
proof -
  from assms(1) have ok: "encodable L n (sl_maxNestingDepth L) False" by (simp add: serializeValue_Inr)
  then have "nflags n AND FlagPartialIndent = 0" by (simp add: encodable_eq)
  with assms wire_ok_legacy [OF ok] counts_legacy show ?thesis
    unfolding serializeValue_Inr unserializeOwned_Inr by simp
qed

text \<open>
  C26. Decoding what the serializer wrote gives the tree back, as far as the format keeps it
  (types, flags, data, dotted parts, children; default section delimiters).
\<close>

theorem unserialize_serialize:
  assumes "serializeValue L n = Inr bs" and "length bs \<le> sl_maxInputBytes L"
  shows "unserializeOwned bs L = Inr (legacy n)"
  using assms by (rule decode_serialized)

text \<open>A section over a dotted variable and some text, with the bytes it is stored as.\<close>

definition sample_tree :: node where
  "sample_tree =
     push_child (make_node TypeOutput ''t'' FlagNone)
    (push_child (push_child (make_node TypeVariable ''a.b'' FlagEscape)
                  (set_delimiters ''{{'' ''}}'' (make_node TypeSection ''s'' FlagNone)))
       (Node TypeRoot FlagNone None [] [] None [(''p'', None)] None None None 0 0))"

definition sample_limits :: serialization_limits where
  "sample_limits = \<lparr>sl_maxInputBytes = 100, sl_maxOutputBytes = 100, sl_maxNestingDepth = 3,
     sl_maxNodes = 4, sl_maxDataPartsPerNode = 2, sl_maxDataParts = 3\<rparr>"

lemma sample_tree_eq:
  "sample_tree = Node TypeRoot 0 None []
     [Some (Node TypeSection 0 (Some ''s'') []
       [Some (Node TypeVariable 1 (Some ''a.b'') [''a'', ''b''] [] None [] None None None 0 0)]
       None [] (Some ''{{'') (Some ''}}'') None 0 0),
      Some (Node TypeOutput 0 (Some ''t'') [] [] None [] None None None 0 0)]
     None [(''p'', None)] None None None 0 0"
  by (simp add: sample_tree_def make_node_def push_child_def data_parts_of_def type_and_def flag_defs
      explode_def explode_loop.simps)

lemma sample_length: "length (encode sample_tree) = 64"
  by (simp add: sample_tree_eq encode_eq data_bytes_def dataSize_def)

lemma sample_serialized: "serializeValue sample_limits sample_tree = Inr (encode sample_tree)"
  unfolding serializeValue_Inr sample_length
  by (simp add: sample_tree_eq sample_limits_def encodable_eq shape_ok_def node_count_eq node_parts_eq
      isPartialIndentationMetadata_def validateNodeShape_def invalid_flags_def isSerializableType_def
      isSerializableTypeValue_def serializable_types_def serialMaxChildren_def serialMaxDataSize_def
      own_parts_def data_part_count_def typeAllowsChildren_def type_and_def flag_defs
      custom_delimiters_def original_ok_def originalSectionText_def encode_eq data_bytes_def dataSize_def)

lemma sample_fits: "length (encode sample_tree) \<le> sl_maxInputBytes sample_limits"
  unfolding sample_length by (simp add: sample_limits_def)

lemma sample_decoded: "unserializeOwned (encode sample_tree) sample_limits = Inr (legacy sample_tree)"
  by (rule decode_serialized [OF sample_serialized sample_fits])

theorem unserialize_serialize_witness:
  "unserializeOwned (encode sample_tree) sample_limits = Inr (legacy sample_tree)"
  by (rule unserialize_serialize [OF sample_serialized sample_fits])

text \<open>
  Serializing what the decoder read gives the very bytes it was read from, when they
  fit the output budget: a cached template can be rewritten without change.
\<close>

theorem serialize_unserialize:
  assumes "unserializeOwned bs L = Inr n" and "length bs \<le> sl_maxOutputBytes L"
  shows "serializeValue L n = Inr bs"
  using assms wire_encodable [of n L _ False]
  unfolding serializeValue_Inr unserializeOwned_Inr by auto

theorem serialize_unserialize_witness:
  "serializeValue sample_limits (legacy sample_tree) = Inr (encode sample_tree)"
proof (rule serialize_unserialize [OF sample_decoded])
  show "length (encode sample_tree) \<le> sl_maxOutputBytes sample_limits"
    unfolding sample_length by (simp add: sample_limits_def)
qed

lemma template_legacy:
  "node_text start stop (legacy n) = node_text start stop n \<and> node_visits (legacy n) = node_visits n
   \<and> (\<forall>room. printable (legacy n) room = printable n room)"
proof (induction n rule: node_induct)
  case (node n)
  have own: "own_text start stop (legacy n) = own_text start stop n" "descends (legacy n) = descends n"
    by (simp_all add: own_text_def descends_def sigil_def)
  have "children_text start stop False (map (map_option legacy) (children n))
      = children_text start stop False (children n)"
    and "children_visits False (map (map_option legacy) (children n)) = children_visits False (children n)"
    and "children_printable False (map (map_option legacy) (children n)) room
      = children_printable False (children n) room" for room
    using node unfolding children_defs map_map
    by (auto intro!: arg_cong [where f = concat] arg_cong [where f = sum_list] map_cong
        simp: skipped_def split: option.splits)
  with own show ?case by (simp add: node_text_eq node_visits_eq printable_eq)
qed

text \<open>
  A template that went through the serializer and the decoder prints the same source:
  reconstruction succeeds on the decoded tree exactly when it does on the original, with
  the same text, under any limits and delimiters.
\<close>

theorem decoded_template_string:
  assumes "serializeValue L n = Inr bs" and "unserializeOwned bs L = Inr m"
  shows "to_template_string m start stop T = Inr out \<longleftrightarrow> to_template_string n start stop T = Inr out"
proof -
  from assms(2) have "length bs \<le> sl_maxInputBytes L" unfolding unserializeOwned_Inr by blast
  with decode_serialized [OF assms(1)] assms(2) have "m = legacy n" by simp
  then show ?thesis using template_legacy [of start stop n] by (simp add: to_template_string_Inr)
qed

theorem decoded_template_string_witness:
  "to_template_string (legacy sample_tree) ''{{'' ''}}'' default_template_limits = Inr ''{{#s}}{{a.b}}t''"
proof -
  have "to_template_string sample_tree ''{{'' ''}}'' default_template_limits = Inr ''{{#s}}{{a.b}}t''"
    by (simp add: to_template_string_Inr sample_tree_eq printable_eq node_visits_eq node_text_eq
        descends_def own_text_def sigil_def has_flag_def flag_defs skipped_False effective_depth_def
        default_template_limits_def type_and_def)
  with decoded_template_string [OF sample_serialized] sample_decoded show ?thesis by blast
qed

end
