(* ===== verification/Charconv.thy ===== *)
theory Charconv
  imports Prelude
begin

text \<open>
  Numbers in text: the digit scans of the data parsers, and \<open>std::from_chars\<close> on unsigned
  integers as they and the command line use it, with its inverse, the decimal printing of
  the Prelude.
\<close>

section \<open>Reading digits\<close>

text \<open>The scans both parsers make over the spelling of a number.\<close>

definition isDigit :: "char \<Rightarrow> bool" where
  "isDigit c \<longleftrightarrow> of_char CHR ''0'' \<le> (of_char c :: nat) \<and> (of_char c :: nat) \<le> of_char CHR ''9''"

definition skip_digits :: "string \<Rightarrow> nat \<Rightarrow> nat" where
  "skip_digits s position = position + length (takeWhile isDigit (drop position s))"

definition char_at :: "string \<Rightarrow> nat \<Rightarrow> (char \<Rightarrow> bool) \<Rightarrow> bool" where
  "char_at s position P \<longleftrightarrow> position < length s \<and> P (s ! position)"

definition isExponent :: "char \<Rightarrow> bool" where
  "isExponent c \<longleftrightarrow> c = CHR ''e'' \<or> c = CHR ''E''"

section \<open>from_chars\<close>

text \<open>
  \<open>std::from_chars\<close> on an unsigned 64-bit integer: the longest run of digits of the base.
  No digit is an invalid argument; a run whose value does not fit is out of range, whatever
  follows it.
\<close>

definition digit_value :: "char \<Rightarrow> nat option" where
  "digit_value c =
     (let n = of_char c :: nat
      in if 48 \<le> n \<and> n \<le> 57 then Some (n - 48)
         else if 97 \<le> n \<and> n \<le> 122 then Some (n - 87)
         else if 65 \<le> n \<and> n \<le> 90 then Some (n - 55)
         else None)"

definition is_digit_of :: "nat \<Rightarrow> char \<Rightarrow> bool" where
  "is_digit_of base c \<longleftrightarrow> (case digit_value c of None \<Rightarrow> False | Some v \<Rightarrow> v < base)"

definition digits_value :: "nat \<Rightarrow> string \<Rightarrow> nat" where
  "digits_value base ds = foldl (\<lambda>a c. a * base + the (digit_value c)) 0 ds"

datatype chars_result = InvalidArgument | ResultOutOfRange | Converted nat string

definition from_chars :: "nat \<Rightarrow> string \<Rightarrow> chars_result" where
  "from_chars base s =
     (let ds = takeWhile (is_digit_of base) s
      in if ds = [] then InvalidArgument
         else if digits_value base ds \<ge> 2 ^ 64 then ResultOutOfRange
         else Converted (digits_value base ds) (drop (length ds) s))"

section \<open>Reading back what was printed\<close>

lemma digit_value_digit_char: "d < 10 \<Longrightarrow> digit_value (digit_char d) = Some d"
  by (simp add: digit_value_def digit_char_def)

lemma show_nat_nonempty [simp]: "show_nat n \<noteq> []"
  by (subst show_nat.simps) simp

lemma show_nat_digits: "\<forall>c\<in>set (show_nat n). is_digit_of 10 c"
proof (induction n rule: show_nat.induct)
  case (1 n)
  show ?case
  proof (cases "n < 10")
    case True
    then show ?thesis by (subst show_nat.simps) (simp add: is_digit_of_def digit_value_digit_char)
  next
    case False
    with 1 show ?thesis by (subst show_nat.simps) (simp add: is_digit_of_def digit_value_digit_char)
  qed
qed

lemma show_nat_value: "digits_value 10 (show_nat n) = n"
proof (induction n rule: show_nat.induct)
  case (1 n)
  show ?case
  proof (cases "n < 10")
    case True
    then show ?thesis by (subst show_nat.simps) (simp add: digits_value_def digit_value_digit_char)
  next
    case False
    with 1 have "digits_value 10 (show_nat (n div 10)) = n div 10" by simp
    with False show ?thesis
      by (subst show_nat.simps) (simp add: digits_value_def digit_value_digit_char)
  qed
qed

text \<open>Only zero starts with the digit zero.\<close>

lemma show_nat_head: "show_nat n ! 0 = CHR ''0'' \<Longrightarrow> n = 0"
proof (induction n rule: show_nat.induct)
  case (1 n)
  show ?case
  proof (cases "n < 10")
    case True
    then have "char_of (48 + n) = CHR ''0''" using 1 by (simp add: show_nat.simps [of n] digit_char_def)
    then have "(of_char (char_of (48 + n)) :: nat) = of_char (CHR ''0'')" by simp
    with True show ?thesis by simp
  next
    case False
    then have "show_nat n ! 0 = show_nat (n div 10) ! 0"
      by (subst show_nat.simps) (simp add: nth_append)
    with 1 False have "n div 10 = 0" by simp
    with False show ?thesis by simp
  qed
qed

lemma show_nat_no_sign: "show_nat n ! 0 \<noteq> CHR ''-''" "show_nat n ! 0 \<noteq> CHR ''+''"
proof -
  have "show_nat n ! 0 \<in> set (show_nat n)" using show_nat_nonempty [of n] nth_mem by blast
  then have "is_digit_of 10 (show_nat n ! 0)" using show_nat_digits by blast
  then show "show_nat n ! 0 \<noteq> CHR ''-''" "show_nat n ! 0 \<noteq> CHR ''+''"
    by (auto simp: is_digit_of_def digit_value_def)
qed

lemma from_chars_show_nat:
  "from_chars 10 (show_nat n) = (if n \<ge> 2 ^ 64 then ResultOutOfRange else Converted n [])"
proof -
  have "takeWhile (is_digit_of 10) (show_nat n) = show_nat n"
    using show_nat_digits by (simp add: takeWhile_eq_all_conv)
  then show ?thesis unfolding from_chars_def Let_def by (simp only: show_nat_value show_nat_nonempty) simp
qed

end
