(* ===== verification/Parse_Budget.thy ===== *)
theory Parse_Budget
  imports Data Charconv
begin

text \<open>
  The limits of the data parsers and the budget that enforces them: \<open>ParseLimits\<close>
  of src/data.hpp, src/parse_budget.hpp, and the size check of src/data.cpp both parsers
  begin with. The second half says what a value costs and when it fits the limits, which
  is what the JSON and the YAML parser both promise of their results.
\<close>

section \<open>Limits and budget\<close>

record parse_limits =
  pl_maxInputBytes :: nat
  pl_maxNestingDepth :: nat
  pl_maxNodes :: nat
  pl_maxStringBytes :: nat
  pl_maxContainerEntries :: nat

definition default_parse_limits :: parse_limits where
  "default_parse_limits =
     \<lparr>pl_maxInputBytes = 64 * 1024 * 1024, pl_maxNestingDepth = 32, pl_maxNodes = 100000,
      pl_maxStringBytes = 64 * 1024 * 1024, pl_maxContainerEntries = 100000\<rparr>"

definition parseNestingCeiling :: nat where
  "parseNestingCeiling = 256"

record parse_budget =
  pb_nodes :: nat
  pb_stringBytes :: nat
  pb_containerEntries :: nat

definition new_budget :: parse_budget where
  "new_budget = \<lparr>pb_nodes = 0, pb_stringBytes = 0, pb_containerEntries = 0\<rparr>"

definition budget_fail :: "string \<Rightarrow> string \<Rightarrow> exn" where
  "budget_fail format description = Exception (format @ description)"

text \<open>The common test, on the counter it is given.\<close>

definition budget_consume :: "string \<Rightarrow> nat \<Rightarrow> nat \<Rightarrow> nat \<Rightarrow> string \<Rightarrow> nat result" where
  "budget_consume format used amount maximum description =
     (if used > maximum \<or> amount > maximum - used then Inl (budget_fail format description)
      else Inr (used + amount))"

definition addNode :: "parse_limits \<Rightarrow> string \<Rightarrow> nat \<Rightarrow> parse_budget \<Rightarrow> parse_budget result" where
  "addNode limits format depth b =
     (if depth \<ge> pl_maxNestingDepth limits \<or> depth \<ge> parseNestingCeiling
      then Inl (budget_fail format '' nesting limit exceeded'')
      else bind_result (budget_consume format (pb_nodes b) 1 (pl_maxNodes limits) '' node count limit exceeded'')
        (\<lambda>n. Inr (b\<lparr>pb_nodes := n\<rparr>)))"

definition addString :: "parse_limits \<Rightarrow> string \<Rightarrow> nat \<Rightarrow> parse_budget \<Rightarrow> parse_budget result" where
  "addString limits format bytes b =
     bind_result (budget_consume format (pb_stringBytes b) bytes (pl_maxStringBytes limits)
                    '' string byte limit exceeded'')
       (\<lambda>n. Inr (b\<lparr>pb_stringBytes := n\<rparr>))"

definition addContainerEntries :: "parse_limits \<Rightarrow> string \<Rightarrow> nat \<Rightarrow> parse_budget \<Rightarrow> parse_budget result" where
  "addContainerEntries limits format entries b =
     bind_result (budget_consume format (pb_containerEntries b) entries (pl_maxContainerEntries limits)
                    '' container entry limit exceeded'')
       (\<lambda>n. Inr (b\<lparr>pb_containerEntries := n\<rparr>))"

definition checkInputSize :: "string \<Rightarrow> parse_limits \<Rightarrow> string \<Rightarrow> unit result" where
  "checkInputSize input limits format =
     (if length input > pl_maxInputBytes limits
      then Inl (Exception (format @ '' input byte limit exceeded''))
      else if find_idx (\<lambda>c. c = CHR 0x00) input \<noteq> None
      then Inl (Exception (format @ '' input contains NUL byte''))
      else Inr ())"

section \<open>Costs\<close>

text \<open>A cost is a budget too: what a piece of the result adds to each counter.\<close>

definition spend :: "parse_budget \<Rightarrow> parse_budget \<Rightarrow> parse_budget" where
  "spend a b = \<lparr>pb_nodes = pb_nodes a + pb_nodes b, pb_stringBytes = pb_stringBytes a + pb_stringBytes b,
     pb_containerEntries = pb_containerEntries a + pb_containerEntries b\<rparr>"

definition cost :: "nat \<Rightarrow> nat \<Rightarrow> nat \<Rightarrow> parse_budget" where
  "cost n b e = \<lparr>pb_nodes = n, pb_stringBytes = b, pb_containerEntries = e\<rparr>"

definition total :: "parse_budget list \<Rightarrow> parse_budget" where
  "total cs = foldr spend cs (cost 0 0 0)"

definition at_most :: "parse_budget \<Rightarrow> parse_budget \<Rightarrow> bool" where
  "at_most a b \<longleftrightarrow> pb_nodes a \<le> pb_nodes b \<and> pb_stringBytes a \<le> pb_stringBytes b
     \<and> pb_containerEntries a \<le> pb_containerEntries b"

definition budget_within :: "parse_limits \<Rightarrow> parse_budget \<Rightarrow> bool" where
  "budget_within limits b \<longleftrightarrow> pb_nodes b \<le> pl_maxNodes limits \<and> pb_stringBytes b \<le> pl_maxStringBytes limits
     \<and> pb_containerEntries b \<le> pl_maxContainerEntries limits"

definition depth_cap :: "parse_limits \<Rightarrow> nat" where
  "depth_cap limits = min (pl_maxNestingDepth limits) parseNestingCeiling"

lemma spend_select [simp]:
  "pb_nodes (spend a b) = pb_nodes a + pb_nodes b"
  "pb_stringBytes (spend a b) = pb_stringBytes a + pb_stringBytes b"
  "pb_containerEntries (spend a b) = pb_containerEntries a + pb_containerEntries b"
  by (simp_all add: spend_def)

lemma cost_select [simp]:
  "pb_nodes (cost n b e) = n" "pb_stringBytes (cost n b e) = b" "pb_containerEntries (cost n b e) = e"
  by (simp_all add: cost_def)

lemma new_budget_cost [simp]: "new_budget = cost 0 0 0"
  by (simp add: new_budget_def cost_def)

lemma spend_assoc [simp]: "spend (spend a b) c = spend a (spend b c)"
  by (simp add: spend_def)

lemma spend_commute: "spend a b = spend b a"
  by (simp add: spend_def)

lemma spend_zero [simp]: "spend b (cost 0 0 0) = b" "spend (cost 0 0 0) b = b"
  by (simp_all add: spend_def)

lemma spend_cost [simp]: "spend (cost n b e) (cost n' b' e') = cost (n + n') (b + b') (e + e')"
  "spend (cost n b e) (spend (cost n' b' e') c) = spend (cost (n + n') (b + b') (e + e')) c"
  by (simp_all add: spend_def cost_def)

lemma total_simps [simp]:
  "total [] = cost 0 0 0" "total (c # cs) = spend c (total cs)"
  "total (cs @ ds) = spend (total cs) (total ds)"
proof -
  show "total [] = cost 0 0 0" and "total (c # cs) = spend c (total cs)" for c cs
    by (simp_all add: total_def)
  then show "total (cs @ ds) = spend (total cs) (total ds)" by (induction cs) simp_all
qed

lemma at_most_refl [simp]: "at_most a a"
  by (simp add: at_most_def)

lemma at_most_trans: "at_most a b \<Longrightarrow> at_most b c \<Longrightarrow> at_most a c"
  by (auto simp: at_most_def)

lemma at_most_within: "at_most a b \<Longrightarrow> budget_within limits b \<Longrightarrow> budget_within limits a"
  by (auto simp: at_most_def budget_within_def)

lemma within_spend: "budget_within limits (spend a b) \<Longrightarrow> budget_within limits a"
  by (auto simp: budget_within_def)

lemma within_zero [simp]: "budget_within limits (cost 0 0 0)"
  by (simp add: budget_within_def)

text \<open>The three operations, on a budget that is within its limits.\<close>

lemma addNode_iff:
  "budget_within limits b \<Longrightarrow> addNode limits format d b = Inr b' \<longleftrightarrow>
     d < depth_cap limits \<and> budget_within limits (spend b (cost 1 0 0)) \<and> b' = spend b (cost 1 0 0)"
  by (auto simp: addNode_def budget_consume_def budget_within_def depth_cap_def spend_def cost_def
      bind_result_Inr_iff)

lemma addString_iff:
  "budget_within limits b \<Longrightarrow> addString limits format n b = Inr b' \<longleftrightarrow>
     budget_within limits (spend b (cost 0 n 0)) \<and> b' = spend b (cost 0 n 0)"
  by (auto simp: addString_def budget_consume_def budget_within_def spend_def cost_def bind_result_Inr_iff)

lemma addContainerEntries_iff:
  "budget_within limits b \<Longrightarrow> addContainerEntries limits format n b = Inr b' \<longleftrightarrow>
     budget_within limits (spend b (cost 0 0 n)) \<and> b' = spend b (cost 0 0 n)"
  by (auto simp: addContainerEntries_def budget_consume_def budget_within_def spend_def cost_def
      bind_result_Inr_iff)

section \<open>Parsers that hold a budget\<close>

text \<open>
  The interface between the budget and a parser that keeps one in its state: \<open>charge\<close> runs
  an operation on the budget there, and leaves the state alone when it throws. Each parser of
  the library provides it; what a charge does is shown once, here.
\<close>

locale budget_holder =
  fixes charge :: "(parse_budget \<Rightarrow> parse_budget result) \<Rightarrow> ('s, unit) eff"
    and budget :: "'s \<Rightarrow> parse_budget"
    and set_budget :: "parse_budget \<Rightarrow> 's \<Rightarrow> 's"
  assumes charge_accepts: "f (budget s) = Inr b \<Longrightarrow> charge f s = (Inr (), set_budget b s)"
    and charge_refuses: "f (budget s) = Inl e \<Longrightarrow> charge f s = (Inl e, s)"
    and budget_set: "budget (set_budget b s) = b"
begin

lemma charge_eq:
  "charge f s = (case f (budget s) of Inl e \<Rightarrow> (Inl e, s) | Inr b \<Rightarrow> (Inr (), set_budget b s))"
  by (cases "f (budget s)") (simp_all add: charge_accepts charge_refuses)

lemma charge_Inr: "charge f s = (Inr u, t) \<longleftrightarrow> (\<exists>b. f (budget s) = Inr b \<and> t = set_budget b s)"
  by (cases "f (budget s)") (auto simp: charge_accepts charge_refuses)

lemma charge_string:
  "budget_within limits (budget s) \<Longrightarrow> charge (addString limits format n) s = (Inr u, t) \<longleftrightarrow>
     budget_within limits (spend (budget s) (cost 0 n 0)) \<and> t = set_budget (spend (budget s) (cost 0 n 0)) s"
  by (simp add: charge_Inr addString_iff)

lemma charge_entries:
  "budget_within limits (budget s) \<Longrightarrow> charge (addContainerEntries limits format n) s = (Inr u, t) \<longleftrightarrow>
     budget_within limits (spend (budget s) (cost 0 0 n)) \<and> t = set_budget (spend (budget s) (cost 0 0 n)) s"
  by (simp add: charge_Inr addContainerEntries_iff)

lemma charge_node:
  "budget_within limits (budget s) \<Longrightarrow> charge (addNode limits format d) s = (Inr u, t) \<longleftrightarrow>
     d < depth_cap limits \<and> budget_within limits (spend (budget s) (cost 1 0 0)) \<and>
     t = set_budget (spend (budget s) (cost 1 0 0)) s"
  by (simp add: charge_Inr addNode_iff)

end

text \<open>Such a parser has the bounded counters of the Prelude.\<close>

sublocale budget_holder \<subseteq> strings: bounded_counter "\<lambda>n. charge (addString limits format n)"
    "\<lambda>s. pb_stringBytes (budget s)" "\<lambda>_. pl_maxStringBytes limits" for limits format
  by unfold_locales (auto simp: charge_eq budget_set addString_def budget_consume_def)

sublocale budget_holder \<subseteq> entries: bounded_counter "\<lambda>n. charge (addContainerEntries limits format n)"
    "\<lambda>s. pb_containerEntries (budget s)" "\<lambda>_. pl_maxContainerEntries limits" for limits format
  by unfold_locales
    (auto simp: charge_eq budget_set addContainerEntries_def budget_consume_def)

section \<open>What a value costs\<close>

text \<open>
  The nodes along the longest path to a leaf, and what the value adds to each counter: a
  node for each value, the bytes of strings, keys and recorded spellings, and an entry for
  each element and member.
\<close>

fun data_height :: "data \<Rightarrow> nat" where
  "data_height (DList ds) = Suc (foldr max (map data_height ds) 0)"
| "data_height (DArray ds) = Suc (foldr max (map data_height ds) 0)"
| "data_height (DMap m) = Suc (foldr max (map data_height (map snd m)) 0)"
| "data_height _ = 1"

fun data_cost :: "data \<Rightarrow> parse_budget" where
  "data_cost (DString s) = cost 1 (length s) 0"
| "data_cost (DDouble d spelling) = cost 1 (length spelling) 0"
| "data_cost (DList ds) = spend (cost 1 0 (length ds)) (total (map data_cost ds))"
| "data_cost (DArray ds) = spend (cost 1 0 (length ds)) (total (map data_cost ds))"
| "data_cost (DMap m) =
     spend (cost 1 (sum_list (map length (map fst m))) (length m)) (total (map data_cost (map snd m)))"
| "data_cost _ = cost 1 0 0"

definition fits_limits :: "parse_limits \<Rightarrow> data \<Rightarrow> bool" where
  "fits_limits limits d \<longleftrightarrow>
     data_ok d \<and> data_height d \<le> depth_cap limits \<and> budget_within limits (data_cost d)"

lemma foldr_max_le: "foldr max ns 0 \<le> (k::nat) \<longleftrightarrow> list_all (\<lambda>n. n \<le> k) ns"
  by (induction ns) auto

lemma insert_or_assign_cost:
  "at_most (data_cost (DMap (insert_or_assign k v m)))
     (spend (data_cost (DMap m)) (spend (cost 0 (length k) 1) (data_cost v)))"
  by (induction m) (auto simp: at_most_def)

lemma insert_or_assign_height:
  "data_height (DMap (insert_or_assign k v m)) \<le> max (data_height (DMap m)) (Suc (data_height v))"
  by (induction m) (auto simp: max_def split: if_splits)

lemma insert_or_assign_ok:
  "data_ok (DMap m) \<Longrightarrow> data_ok v \<Longrightarrow> data_ok (DMap (insert_or_assign k v m))"
  by (simp add: distinct_insert_or_assign values_insert_or_assign)

lemma insert_all_simps [simp]:
  "assoc_map.insert_all [] m = m"
  "assoc_map.insert_all ((k, v) # kvs) m = assoc_map.insert_all kvs (insert_or_assign k v m)"
  by (simp_all add: assoc_map.insert_all_def)

lemma push_back_cost:
  "data_cost (DArray (ds @ [v])) = spend (data_cost (DArray ds)) (spend (cost 0 0 1) (data_cost v))"
  by (simp add: spend_def cost_def)

lemma push_back_height:
  "data_height (DArray (ds @ [v])) = max (data_height (DArray ds)) (Suc (data_height v))"
  by (induction ds) auto

end
