(* ===== verification/Json.thy ===== *)
theory Json
  imports Parse_Budget
begin

text \<open>
  The JSON parser: src/json_parser.cpp with its entry points of src/data.cpp. The lexer and
  the grammar are those of the external JSON library; what it reports is the parameter \<open>sax\<close>, the
  list of events it sends to the handler for an input and how it ends if the handler accepts
  them all. The handler is modelled whole, so what is shown of it holds for any such list.
\<close>

section \<open>Floating-point spellings\<close>

text \<open>
  The two optional parts: each returns the string, the position after the part, and whether
  there was one; a part without digits is an error.
\<close>

definition normalize_fraction :: "string \<Rightarrow> nat \<Rightarrow> (string \<times> nat \<times> bool) option" where
  "normalize_fraction s position =
     (if char_at s position (\<lambda>c. \<not> isExponent c) then
        (let s' = s[position := CHR ''.'']; fractionStart = position + 1; p = skip_digits s' fractionStart
         in if p = fractionStart then None else Some (s', p, True))
      else Some (s, position, False))"

definition normalize_exponent :: "string \<Rightarrow> nat \<Rightarrow> bool \<Rightarrow> (nat \<times> bool) option" where
  "normalize_exponent s position floatingPoint =
     (if char_at s position isExponent then
        (let p1 = position + 1;
             exponentStart = (if char_at s p1 (\<lambda>c. c = CHR ''+'' \<or> c = CHR ''-'') then p1 + 1 else p1);
             p = skip_digits s exponentStart
         in if p = exponentStart then None else Some (p, True))
      else Some (position, floatingPoint))"

definition normalizeFloatingSpelling :: "string \<Rightarrow> string option" where
  "normalizeFloatingSpelling spelling =
     (let integerStart = (if char_at spelling 0 (\<lambda>c. c = CHR ''-'') then 1 else 0);
          position = skip_digits spelling integerStart
      in if position = integerStart then None
         else case normalize_fraction spelling position of
           None \<Rightarrow> None
         | Some (s, p, fp) \<Rightarrow>
             (case normalize_exponent s p fp of
                None \<Rightarrow> None
              | Some (p', fp') \<Rightarrow> if p' \<noteq> length s \<or> \<not> fp' then None else Some s))"

section \<open>The handler\<close>

datatype json_event =
    JNull | JBoolean bool | JInteger "64 word" | JUnsigned "64 word" | JFloat "64 word" string
  | JString string | JBinary | JStartObject | JKey string | JEndObject | JStartArray | JEndArray
  | JParseError nat string

record json_frame =
  jf_value :: data
  jf_key :: "string option"

text \<open>The innermost open container is the head of the frames.\<close>

record json_builder =
  jb_budget :: parse_budget
  jb_frames :: "json_frame list"
  jb_result :: "data option"

definition new_builder :: json_builder where
  "new_builder = \<lparr>jb_budget = new_budget, jb_frames = [], jb_result = None\<rparr>"

type_synonym 'a jb = "(json_builder, 'a) eff"

definition jb_charge :: "(parse_budget \<Rightarrow> parse_budget result) \<Rightarrow> unit jb" where
  "jb_charge f s =
     (case f (jb_budget s) of Inl e \<Rightarrow> (Inl e, s) | Inr b \<Rightarrow> (Inr (), s\<lparr>jb_budget := b\<rparr>))"

definition invalid_json :: exn where
  "invalid_json = Exception ''Invalid JSON data''"

definition json_range :: exn where
  "json_range = Exception ''JSON integer is outside the supported range''"

definition top_type :: "json_builder \<Rightarrow> data_type option" where
  "top_type s = (case jb_frames s of [] \<Rightarrow> None | f # _ \<Rightarrow> Some (type_of_data (jf_value f)))"

definition jb_beginValue :: "parse_limits \<Rightarrow> unit jb" where
  "jb_beginValue limits =
     then_eff
       (bind_eff (reads top_type) (\<lambda>ty.
          if ty = Some DTypeArray then jb_charge (addContainerEntries limits ''JSON'' 1) else ret ()))
       (bind_eff (reads (\<lambda>s. length (jb_frames s))) (\<lambda>d. jb_charge (addNode limits ''JSON'' d)))"

text \<open>The change of the innermost container when a value is complete.\<close>

definition frame_add :: "data \<Rightarrow> json_frame \<Rightarrow> json_frame result" where
  "frame_add value f =
     (if type_of_data (jf_value f) = DTypeArray
      then bind_result (data_push_back value (jf_value f)) (\<lambda>d. Inr (f\<lparr>jf_value := d\<rparr>))
      else case jf_key f of
        None \<Rightarrow> Inl invalid_json
      | Some k \<Rightarrow>
          if type_of_data (jf_value f) \<noteq> DTypeMap then Inl invalid_json
          else bind_result (data_set k value (jf_value f)) (\<lambda>d. Inr (f\<lparr>jf_value := d, jf_key := None\<rparr>)))"

definition jb_addValue :: "data \<Rightarrow> unit jb" where
  "jb_addValue value s =
     (case jb_frames s of
        [] \<Rightarrow> (if jb_result s \<noteq> None then (Inl invalid_json, s)
               else (Inr (), s\<lparr>jb_result := Some value\<rparr>))
      | f # fs \<Rightarrow>
          (case frame_add value f of
             Inl e \<Rightarrow> (Inl e, s)
           | Inr f' \<Rightarrow> (Inr (), s\<lparr>jb_frames := f' # fs\<rparr>)))"

definition jb_addScalar :: "parse_limits \<Rightarrow> data \<Rightarrow> unit jb" where
  "jb_addScalar limits value = then_eff (jb_beginValue limits) (jb_addValue value)"

definition jb_open :: "data \<Rightarrow> unit jb" where
  "jb_open value = writes (\<lambda>s. s\<lparr>jb_frames := \<lparr>jf_value = value, jf_key = None\<rparr> # jb_frames s\<rparr>)"

definition jb_endContainer :: "data_type \<Rightarrow> bool jb" where
  "jb_endContainer ty = bind_eff (reads jb_frames) (\<lambda>frames.
     case frames of
       [] \<Rightarrow> ret False
     | f # fs \<Rightarrow>
         if type_of_data (jf_value f) \<noteq> ty \<or> jf_key f \<noteq> None then ret False
         else then_eff (writes (\<lambda>s. s\<lparr>jb_frames := fs\<rparr>)) (then_eff (jb_addValue (jf_value f)) (ret True)))"

definition jb_key :: "parse_limits \<Rightarrow> string \<Rightarrow> bool jb" where
  "jb_key limits value = bind_eff (reads jb_frames) (\<lambda>frames.
     case frames of
       [] \<Rightarrow> ret False
     | f # fs \<Rightarrow>
         if type_of_data (jf_value f) \<noteq> DTypeMap \<or> jf_key f \<noteq> None then ret False
         else then_eff (jb_charge (addContainerEntries limits ''JSON'' 1))
           (then_eff (jb_charge (addString limits ''JSON'' (length value)))
             (then_eff (writes (\<lambda>s. s\<lparr>jb_frames := f\<lparr>jf_key := Some value\<rparr> # fs\<rparr>)) (ret True))))"

definition jb_unsigned :: "parse_limits \<Rightarrow> 64 word \<Rightarrow> unit jb" where
  "jb_unsigned limits value =
     then_eff (jb_beginValue limits)
       (if unat value > 2 ^ 63 - 1 then throw json_range else jb_addValue (DInteger value))"

definition jb_float :: "parse_limits \<Rightarrow> 64 word \<Rightarrow> string \<Rightarrow> unit jb" where
  "jb_float limits value spelling =
     then_eff (jb_beginValue limits)
       (case normalizeFloatingSpelling spelling of
          None \<Rightarrow> throw json_range
        | Some normalized \<Rightarrow>
            if \<not> isfinite value then throw (Exception ''Invalid JSON floating-point value'')
            else then_eff (jb_charge (addString limits ''JSON'' (length normalized)))
              (bind_eff (lift_result (parsedFloating value normalized)) jb_addValue))"

definition jb_string :: "parse_limits \<Rightarrow> string \<Rightarrow> unit jb" where
  "jb_string limits value =
     then_eff (jb_beginValue limits)
       (then_eff (jb_charge (addString limits ''JSON'' (length value))) (jb_addValue (DString value)))"

fun jb_event :: "parse_limits \<Rightarrow> json_event \<Rightarrow> bool jb" where
  "jb_event limits JNull = then_eff (jb_addScalar limits DNone) (ret True)"
| "jb_event limits (JBoolean b) = then_eff (jb_addScalar limits (DBoolean b)) (ret True)"
| "jb_event limits (JInteger i) = then_eff (jb_addScalar limits (DInteger i)) (ret True)"
| "jb_event limits (JUnsigned i) = then_eff (jb_unsigned limits i) (ret True)"
| "jb_event limits (JFloat d sp) = then_eff (jb_float limits d sp) (ret True)"
| "jb_event limits (JString s) = then_eff (jb_string limits s) (ret True)"
| "jb_event limits JBinary = ret False"
| "jb_event limits JStartObject =
     then_eff (jb_beginValue limits) (then_eff (jb_open (DMap [])) (ret True))"
| "jb_event limits (JKey k) = jb_key limits k"
| "jb_event limits JEndObject = jb_endContainer DTypeMap"
| "jb_event limits JStartArray =
     then_eff (jb_beginValue limits) (then_eff (jb_open (DArray [])) (ret True))"
| "jb_event limits JEndArray = jb_endContainer DTypeArray"
| "jb_event limits (JParseError position message) =
     throw (Exception (''Invalid JSON data at byte '' @ show_nat position @ '': '' @ message))"

text \<open>The parser stops at the first event the handler does not accept.\<close>

fun jb_run :: "parse_limits \<Rightarrow> json_event list \<Rightarrow> bool jb" where
  "jb_run limits [] = ret True"
| "jb_run limits (e # es) = bind_eff (jb_event limits e) (\<lambda>ok. if ok then jb_run limits es else ret False)"

definition takeResult :: "json_builder \<Rightarrow> data result" where
  "takeResult s =
     (if jb_frames s \<noteq> [] then Inl invalid_json
      else case jb_result s of None \<Rightarrow> Inl invalid_json | Some d \<Rightarrow> Inr d)"

section \<open>Entry points\<close>

text \<open>
  How the JSON library ends when every event was accepted: it reports success, reports
  failure, or throws an exception of its own.
\<close>

datatype sax_end = SaxAccept | SaxReject | SaxThrow string

type_synonym sax_parser = "string \<Rightarrow> json_event list \<times> sax_end"

definition parseJSON :: "sax_parser \<Rightarrow> string \<Rightarrow> parse_limits \<Rightarrow> data result" where
  "parseJSON sax input limits =
     (case sax input of (events, final) \<Rightarrow>
        case jb_run limits events new_builder of
          (Inl e, s) \<Rightarrow> Inl e
        | (Inr ok, s) \<Rightarrow>
            if \<not> ok then Inl invalid_json
            else case final of
              SaxThrow m \<Rightarrow> Inl (Exception (''Invalid JSON data: '' @ m))
            | SaxReject \<Rightarrow> Inl invalid_json
            | SaxAccept \<Rightarrow> takeResult s)"

definition has_bom :: "string \<Rightarrow> bool" where
  "has_bom s \<longleftrightarrow> length s \<ge> 3 \<and> s ! 0 = CHR 0xEF \<and> s ! 1 = CHR 0xBB \<and> s ! 2 = CHR 0xBF"

text \<open>A build without the JSON library has no \<open>sax\<close>.\<close>

definition fromJSON :: "sax_parser option \<Rightarrow> string \<Rightarrow> parse_limits \<Rightarrow> data result" where
  "fromJSON sax input limits =
     (case sax of
        None \<Rightarrow> Inl (Exception ''JSON support is not available'')
      | Some p \<Rightarrow>
          bind_result (checkInputSize input limits ''JSON'') (\<lambda>_.
            if has_bom input then Inl invalid_json else parseJSON p input limits))"

text \<open>The pointer overload reads up to the first NUL.\<close>

definition fromJSON_ptr :: "sax_parser option \<Rightarrow> string option \<Rightarrow> parse_limits \<Rightarrow> data result" where
  "fromJSON_ptr sax input limits =
     (case input of
        None \<Rightarrow> Inl (Exception ''Missing JSON data'')
      | Some s \<Rightarrow> fromJSON sax (takeWhile (\<lambda>c. c \<noteq> CHR 0x00) s) limits)"

text \<open>The overloads with default limits; \<open>createFromJSON\<close> only puts the value on the heap.\<close>

definition fromJSON_default :: "sax_parser option \<Rightarrow> string \<Rightarrow> data result" where
  "fromJSON_default sax input = fromJSON sax input default_parse_limits"

definition fromJSON_ptr_default :: "sax_parser option \<Rightarrow> string option \<Rightarrow> data result" where
  "fromJSON_ptr_default sax input = fromJSON_ptr sax input default_parse_limits"

definition createFromJSON :: "sax_parser option \<Rightarrow> string option \<Rightarrow> parse_limits option \<Rightarrow> data result" where
  "createFromJSON sax input limits =
     (case limits of None \<Rightarrow> fromJSON_ptr_default sax input | Some l \<Rightarrow> fromJSON_ptr sax input l)"

end
