(* ===== verification/Json_Props.thy ===== *)
theory Json_Props
  imports Json
begin

text \<open>
  What the JSON parser promises. Whatever the lexer reports, a value that comes out fits the
  limits of the call; and the events of a JSON value build exactly that value, when and only
  when the value fits.
\<close>

section \<open>Single steps of the handler\<close>

interpretation json_budget: budget_holder jb_charge jb_budget "\<lambda>b s. s\<lparr>jb_budget := b\<rparr>"
  by unfold_locales (auto simp: jb_charge_def)

lemmas jb_charge_string = json_budget.charge_string
lemmas jb_charge_entries = json_budget.charge_entries
lemmas jb_charge_node = json_budget.charge_node

text \<open>What a new value costs its parent: an element is an entry of its array.\<close>

definition elem_cost :: "json_frame \<Rightarrow> parse_budget" where
  "elem_cost f = (if type_of_data (jf_value f) = DTypeArray then cost 0 0 1 else cost 0 0 0)"

definition key_cost :: "json_frame \<Rightarrow> parse_budget" where
  "key_cost f = (case jf_key f of None \<Rightarrow> cost 0 0 0 | Some k \<Rightarrow> cost 0 (length k) 1)"

fun parent_cost :: "json_frame list \<Rightarrow> parse_budget" where
  "parent_cost [] = cost 0 0 0"
| "parent_cost (f # fs) = elem_cost f"

lemma jb_beginValue_iff:
  assumes "budget_within limits (jb_budget s)"
  shows "jb_beginValue limits s = (Inr u, t) \<longleftrightarrow>
     length (jb_frames s) < depth_cap limits \<and>
     budget_within limits (spend (jb_budget s) (spend (parent_cost (jb_frames s)) (cost 1 0 0))) \<and>
     t = s\<lparr>jb_budget := spend (jb_budget s) (spend (parent_cost (jb_frames s)) (cost 1 0 0))\<rparr>"
proof (cases "top_type s = Some DTypeArray")
  case True
  then obtain f fs where f: "jb_frames s = f # fs" "elem_cost f = cost 0 0 1"
    by (auto simp: top_type_def elem_cost_def split: list.splits)
  have le: "budget_within limits (spend (jb_budget s) (cost 1 0 1)) \<Longrightarrow>
      budget_within limits (spend (jb_budget s) (cost 0 0 1))"
    by (auto simp: budget_within_def)
  have "jb_beginValue limits s = (Inr u, t) \<longleftrightarrow>
      (\<exists>v. jb_charge (addContainerEntries limits ''JSON'' 1) s = (Inr (), v) \<and>
        jb_charge (addNode limits ''JSON'' (length (jb_frames v))) v = (Inr u, t))"
    using True by (auto simp: jb_beginValue_def then_eff_Inr_iff bind_eff_Inr_iff)
  then show ?thesis
    using assms le f by (auto simp: jb_charge_entries jb_charge_node)
next
  case False
  then have "parent_cost (jb_frames s) = cost 0 0 0"
    by (cases "jb_frames s") (auto simp: top_type_def elem_cost_def)
  moreover have "jb_beginValue limits s = (Inr u, t) \<longleftrightarrow>
      jb_charge (addNode limits ''JSON'' (length (jb_frames s))) s = (Inr u, t)"
    using False by (auto simp: jb_beginValue_def then_eff_Inr_iff bind_eff_Inr_iff)
  ultimately show ?thesis using assms by (simp add: jb_charge_node)
qed

section \<open>Results fit the limits\<close>

text \<open>
  What the budget has paid for: the containers under construction, the members and elements
  they wait for, and the finished value.
\<close>

definition frame_cost :: "json_frame \<Rightarrow> parse_budget" where
  "frame_cost f = spend (data_cost (jf_value f)) (key_cost f)"

fun frames_cost :: "json_frame list \<Rightarrow> parse_budget" where
  "frames_cost [] = cost 0 0 0"
| "frames_cost (f # fs) =
     spend (frame_cost f) (total (map (\<lambda>g. spend (frame_cost g) (elem_cost g)) fs))"

definition built_cost :: "json_builder \<Rightarrow> parse_budget" where
  "built_cost s = spend (frames_cost (jb_frames s))
     (case jb_result s of None \<Rightarrow> cost 0 0 0 | Some d \<Rightarrow> data_cost d)"

fun frames_fit :: "nat \<Rightarrow> json_frame list \<Rightarrow> bool" where
  "frames_fit cap [] = True"
| "frames_fit cap (f # fs) =
     (data_ok (jf_value f) \<and> length fs + data_height (jf_value f) \<le> cap \<and> frames_fit cap fs)"

definition jb_inv :: "parse_limits \<Rightarrow> parse_budget \<Rightarrow> json_builder \<Rightarrow> bool" where
  "jb_inv limits c s \<longleftrightarrow>
     budget_within limits (jb_budget s) \<and> at_most (spend (built_cost s) c) (jb_budget s) \<and>
     frames_fit (depth_cap limits) (jb_frames s) \<and>
     pred_option (\<lambda>d. data_ok d \<and> data_height d \<le> depth_cap limits) (jb_result s)"

lemma jb_inv_new: "jb_inv limits (cost 0 0 0) new_builder"
  by (simp add: jb_inv_def new_builder_def built_cost_def)

lemma jb_inv_weaken: "jb_inv limits c s \<Longrightarrow> at_most c' c \<Longrightarrow> jb_inv limits c' s"
  by (auto simp: jb_inv_def at_most_def)

lemma jb_inv_charge:
  "jb_inv limits c s \<Longrightarrow> budget_within limits (spend (jb_budget s) e) \<Longrightarrow>
     jb_inv limits (spend c e) (s\<lparr>jb_budget := spend (jb_budget s) e\<rparr>)"
  by (auto simp: jb_inv_def at_most_def built_cost_def)

lemma jb_inv_beginValue:
  assumes "jb_inv limits (cost 0 0 0) s" and "jb_beginValue limits s = (Inr u, t)"
  shows "jb_inv limits (spend (parent_cost (jb_frames t)) (cost 1 0 0)) t \<and>
    length (jb_frames t) < depth_cap limits"
  using assms jb_inv_charge [OF assms(1), of "spend (parent_cost (jb_frames s)) (cost 1 0 0)"]
    jb_beginValue_iff [of limits s u t] by (auto simp: jb_inv_def)

lemma frame_add_array:
  "jf_value f = DArray ds \<Longrightarrow> frame_add v f = Inr (f\<lparr>jf_value := DArray (ds @ [v])\<rparr>)"
  by (simp add: frame_add_def data_push_back_def)

lemma frame_add_map:
  "jf_value f = DMap m \<Longrightarrow> frame_add v f =
     (case jf_key f of None \<Rightarrow> Inl invalid_json
      | Some k \<Rightarrow> Inr (f\<lparr>jf_value := DMap (insert_or_assign k v m), jf_key := None\<rparr>))"
  by (simp add: frame_add_def data_set_def objectItems_def requireStorage_def split: option.splits)

lemma frame_add_cases:
  assumes "frame_add v f = Inr f'"
  shows "(\<exists>ds. jf_value f = DArray ds \<and> f' = f\<lparr>jf_value := DArray (ds @ [v])\<rparr>) \<or>
    (\<exists>m k. jf_value f = DMap m \<and> jf_key f = Some k \<and>
       f' = f\<lparr>jf_value := DMap (insert_or_assign k v m), jf_key := None\<rparr>)"
proof (cases "jf_value f")
  case (DMap m)
  then show ?thesis using assms by (auto simp: frame_add_map split: option.splits)
next
  case (DArray ds)
  then show ?thesis using assms by (auto simp: frame_add_array)
qed (use assms in \<open>auto simp: frame_add_def split: option.splits\<close>)

lemma frame_add_cost:
  "frame_add v f = Inr f' \<Longrightarrow>
     at_most (frame_cost f') (spend (frame_cost f) (spend (elem_cost f) (data_cost v)))"
  using frame_add_cases [of v f f'] insert_or_assign_cost push_back_cost
  by (fastforce simp: frame_cost_def elem_cost_def key_cost_def at_most_def)

lemma frame_add_fit:
  assumes "frame_add v f = Inr f'" and "data_ok v" and "Suc (n + data_height v) \<le> cap"
    and "data_ok (jf_value f)" and "n + data_height (jf_value f) \<le> cap"
  shows "data_ok (jf_value f') \<and> n + data_height (jf_value f') \<le> cap"
  using frame_add_cases [OF assms(1)]
proof (elim disjE exE conjE)
  fix ds assume "jf_value f = DArray ds" "f' = f\<lparr>jf_value := DArray (ds @ [v])\<rparr>"
  then show ?thesis
    using assms push_back_height [of ds v] by (simp del: data_height.simps)
next
  fix m k assume "jf_value f = DMap m" "f' = f\<lparr>jf_value := DMap (insert_or_assign k v m), jf_key := None\<rparr>"
  then show ?thesis
    using assms insert_or_assign_height [of k v m]
    by (auto simp: distinct_insert_or_assign values_insert_or_assign simp del: data_height.simps)
qed

lemma jb_inv_addValue:
  assumes "jb_inv limits c s" and "at_most (spend (parent_cost (jb_frames s)) (data_cost v)) c"
    and "data_ok v" and "length (jb_frames s) + data_height v \<le> depth_cap limits"
    and "jb_addValue v s = (Inr u, t)"
  shows "jb_inv limits (cost 0 0 0) t"
proof (cases "jb_frames s")
  case Nil
  then have "jb_result s = None" "t = s\<lparr>jb_result := Some v\<rparr>"
    using assms(5) by (auto simp: jb_addValue_def split: if_splits)
  with Nil assms(1-4) show ?thesis by (auto simp: jb_inv_def built_cost_def at_most_def)
next
  case (Cons f fs)
  then obtain f' where f': "frame_add v f = Inr f'" and t: "t = s\<lparr>jb_frames := f' # fs\<rparr>"
    using assms(5) by (auto simp: jb_addValue_def split: sum.splits)
  have "data_ok (jf_value f') \<and> length fs + data_height (jf_value f') \<le> depth_cap limits"
    using frame_add_fit [OF f', of "length fs" "depth_cap limits"] assms(1,3,4) Cons
    by (simp add: jb_inv_def)
  then show ?thesis
    using frame_add_cost [OF f'] assms(1,2) Cons
    by (auto simp: t jb_inv_def built_cost_def at_most_def)
qed

lemma jb_inv_addScalar:
  assumes "jb_inv limits (cost 0 0 0) s" and "data_cost v = cost 1 0 0" and "data_ok v"
    and "data_height v = 1" and "jb_addScalar limits v s = (Inr u, t)"
  shows "jb_inv limits (cost 0 0 0) t"
proof -
  obtain s' where "jb_beginValue limits s = (Inr (), s')" and "jb_addValue v s' = (Inr u, t)"
    using assms(5) by (auto simp: jb_addScalar_def then_eff_Inr_iff)
  then show ?thesis
    using jb_inv_beginValue [OF assms(1)] jb_inv_addValue [of limits _ s' v u t] assms(2-4) by force
qed

lemma jb_inv_addString:
  assumes "jb_inv limits c s" and "jb_charge (addString limits ''JSON'' n) s = (Inr u, t)"
  shows "jb_inv limits (spend c (cost 0 n 0)) t \<and> jb_frames t = jb_frames s"
  using assms jb_inv_charge [OF assms(1), of "cost 0 n 0"] jb_charge_string [of limits s "''JSON''" n u t]
  by (auto simp: jb_inv_def)

lemma jb_inv_string:
  assumes "jb_inv limits (cost 0 0 0) s" and "jb_string limits x s = (Inr u, t)"
  shows "jb_inv limits (cost 0 0 0) t"
proof -
  obtain s1 s2 where 1: "jb_beginValue limits s = (Inr (), s1)"
    and 2: "jb_charge (addString limits ''JSON'' (length x)) s1 = (Inr (), s2)"
    and 3: "jb_addValue (DString x) s2 = (Inr u, t)"
    using assms(2) by (auto simp: jb_string_def then_eff_Inr_iff)
  show ?thesis
    using jb_inv_beginValue [OF assms(1) 1] jb_inv_addString [OF _ 2]
      jb_inv_addValue [OF _ _ _ _ 3] by (fastforce simp: at_most_def)
qed

lemma jb_inv_unsigned:
  assumes "jb_inv limits (cost 0 0 0) s" and "jb_unsigned limits i s = (Inr u, t)"
  shows "jb_inv limits (cost 0 0 0) t"
proof -
  have "jb_addScalar limits (DInteger i) s = (Inr u, t)"
    using assms(2) by (auto simp: jb_unsigned_def jb_addScalar_def then_eff_Inr_iff split: if_splits)
  then show ?thesis by (rule jb_inv_addScalar [OF assms(1), rotated -1]) simp_all
qed

lemma jb_float_Inr:
  "jb_float limits d sp s = (Inr u, t) \<longleftrightarrow>
     (\<exists>x s1 s2. jb_beginValue limits s = (Inr (), s1) \<and> normalizeFloatingSpelling sp = Some x \<and>
        isfinite d \<and> jb_charge (addString limits ''JSON'' (length x)) s1 = (Inr (), s2) \<and>
        jb_addValue (DDouble d x) s2 = (Inr u, t))"
  by (auto simp: jb_float_def then_eff_Inr_iff bind_eff_Inr_iff parsedFloating_def data_floating_def
      split: option.splits if_splits)

lemma jb_inv_float:
  assumes "jb_inv limits (cost 0 0 0) s" and "jb_float limits d sp s = (Inr u, t)"
  shows "jb_inv limits (cost 0 0 0) t"
proof -
  obtain x s1 s2 where 1: "jb_beginValue limits s = (Inr (), s1)"
    and 2: "jb_charge (addString limits ''JSON'' (length x)) s1 = (Inr (), s2)"
    and 3: "jb_addValue (DDouble d x) s2 = (Inr u, t)"
    using assms(2) by (auto simp: jb_float_Inr)
  show ?thesis
    using jb_inv_beginValue [OF assms(1) 1] jb_inv_addString [OF _ 2]
      jb_inv_addValue [OF _ _ _ _ 3] by (fastforce simp: at_most_def)
qed

lemma jb_inv_open:
  assumes "jb_inv limits (cost 0 0 0) s" and "d = DArray [] \<or> d = DMap []"
    and "then_eff (jb_beginValue limits) (then_eff (jb_open d) (ret True)) s = (Inr ok, t)"
  shows "jb_inv limits (cost 0 0 0) t"
proof -
  obtain s1 where 1: "jb_beginValue limits s = (Inr (), s1)"
    and t: "t = s1\<lparr>jb_frames := \<lparr>jf_value = d, jf_key = None\<rparr> # jb_frames s1\<rparr>"
    using assms(3) by (auto simp: then_eff_Inr_iff jb_open_def)
  show ?thesis
    using jb_inv_beginValue [OF assms(1) 1] assms(2)
    by (cases "jb_frames s1")
      (auto simp: t jb_inv_def built_cost_def at_most_def frame_cost_def key_cost_def)
qed

lemma jb_inv_endContainer:
  assumes "jb_inv limits (cost 0 0 0) s" and "jb_endContainer ty s = (Inr ok, t)"
  shows "jb_inv limits (cost 0 0 0) t"
proof (cases "jb_frames s")
  case Nil
  then show ?thesis using assms by (simp add: jb_endContainer_def bind_eff_Inr_iff)
next
  case (Cons f fs)
  show ?thesis
  proof (cases "type_of_data (jf_value f) \<noteq> ty \<or> jf_key f \<noteq> None")
    case True
    with Cons assms show ?thesis by (auto simp: jb_endContainer_def bind_eff_Inr_iff)
  next
    case False
    let ?s = "s\<lparr>jb_frames := fs\<rparr>"
    have add: "jb_addValue (jf_value f) ?s = (Inr (), t)"
      using False Cons assms(2) by (auto simp: jb_endContainer_def bind_eff_Inr_iff then_eff_Inr_iff)
    have "jb_inv limits (spend (parent_cost fs) (data_cost (jf_value f))) ?s"
      using assms(1) Cons by (cases fs) (auto simp: jb_inv_def built_cost_def frame_cost_def at_most_def)
    then show ?thesis
      using jb_inv_addValue [OF _ _ _ _ add] assms(1) Cons by (auto simp: jb_inv_def)
  qed
qed

lemma jb_inv_key:
  assumes "jb_inv limits (cost 0 0 0) s" and "jb_key limits k s = (Inr ok, t)"
  shows "jb_inv limits (cost 0 0 0) t"
proof (cases "jb_frames s")
  case Nil
  then show ?thesis using assms by (simp add: jb_key_def bind_eff_Inr_iff)
next
  case (Cons f fs)
  show ?thesis
  proof (cases "type_of_data (jf_value f) \<noteq> DTypeMap \<or> jf_key f \<noteq> None")
    case True
    with Cons assms show ?thesis by (auto simp: jb_key_def bind_eff_Inr_iff)
  next
    case False
    obtain s1 s2 where 1: "jb_charge (addContainerEntries limits ''JSON'' 1) s = (Inr (), s1)"
      and 2: "jb_charge (addString limits ''JSON'' (length k)) s1 = (Inr (), s2)"
      and t: "t = s2\<lparr>jb_frames := f\<lparr>jf_key := Some k\<rparr> # fs\<rparr>"
      using False Cons assms(2) by (auto simp: jb_key_def bind_eff_Inr_iff then_eff_Inr_iff)
    have "jb_inv limits (cost 0 0 1) s1 \<and> jb_frames s1 = jb_frames s"
      using 1 assms(1) jb_inv_charge [OF assms(1), of "cost 0 0 1"]
        jb_charge_entries [of limits s "''JSON''" 1 "()" s1] by (auto simp: jb_inv_def)
    then have "jb_inv limits (cost 0 (length k) 1) s2 \<and> jb_frames s2 = f # fs"
      using jb_inv_addString [OF _ 2] Cons by fastforce
    then show ?thesis
      using False by (auto simp: t jb_inv_def built_cost_def at_most_def frame_cost_def key_cost_def)
  qed
qed

lemma jb_inv_event:
  assumes "jb_inv limits (cost 0 0 0) s" and "jb_event limits e s = (Inr ok, t)"
  shows "jb_inv limits (cost 0 0 0) t"
proof -
  have then_True: "then_eff m (ret True) s = (Inr ok, t) \<Longrightarrow> m s = (Inr (), t)" for m :: "unit jb"
    by (simp add: then_eff_Inr_iff)
  have scalar: "data_cost v = cost 1 0 0 \<Longrightarrow> data_ok v \<Longrightarrow> data_height v = 1 \<Longrightarrow>
      then_eff (jb_addScalar limits v) (ret True) s = (Inr ok, t) \<Longrightarrow> jb_inv limits (cost 0 0 0) t" for v
    by (drule then_True) (rule jb_inv_addScalar [OF assms(1)])
  show ?thesis
  proof (cases e)
    case (JUnsigned i)
    show ?thesis by (rule jb_inv_unsigned [OF assms(1)], rule then_True) (use assms(2) JUnsigned in simp)
  next
    case (JFloat d sp)
    show ?thesis by (rule jb_inv_float [OF assms(1)], rule then_True) (use assms(2) JFloat in simp)
  next
    case (JString x)
    show ?thesis by (rule jb_inv_string [OF assms(1)], rule then_True) (use assms(2) JString in simp)
  next
    case JStartObject
    show ?thesis by (rule jb_inv_open [OF assms(1), of "DMap []"]) (use assms(2) JStartObject in simp_all)
  next
    case JStartArray
    show ?thesis by (rule jb_inv_open [OF assms(1), of "DArray []"]) (use assms(2) JStartArray in simp_all)
  next
    case JNull
    show ?thesis by (rule scalar [of DNone]) (use assms(2) JNull in simp_all)
  next
    case (JBoolean b)
    show ?thesis by (rule scalar [of "DBoolean b"]) (use assms(2) JBoolean in simp_all)
  next
    case (JInteger i)
    show ?thesis by (rule scalar [of "DInteger i"]) (use assms(2) JInteger in simp_all)
  qed (use assms in \<open>auto intro: jb_inv_key [OF assms(1)] jb_inv_endContainer [OF assms(1)]\<close>)
qed

lemma jb_inv_run:
  "jb_inv limits (cost 0 0 0) s \<Longrightarrow> jb_run limits es s = (Inr ok, t) \<Longrightarrow> jb_inv limits (cost 0 0 0) t"
proof (induction es arbitrary: s)
  case (Cons e es)
  then obtain b s' where e: "jb_event limits e s = (Inr b, s')"
    and rest: "(if b then jb_run limits es else ret False) s' = (Inr ok, t)"
    by (auto simp: bind_eff_Inr_iff)
  have "jb_inv limits (cost 0 0 0) s'" by (rule jb_inv_event [OF Cons.prems(1) e])
  then show ?case using rest Cons.IH by (cases b) auto
qed simp

lemma takeResult_fits:
  "jb_inv limits c s \<Longrightarrow> takeResult s = Inr d \<Longrightarrow> fits_limits limits d"
  by (auto simp: takeResult_def jb_inv_def built_cost_def fits_limits_def at_most_def budget_within_def
      split: if_splits option.splits)

lemma parseJSON_fits: "parseJSON sax input limits = Inr d \<Longrightarrow> fits_limits limits d"
  using jb_inv_run [OF jb_inv_new]
  by (fastforce simp: parseJSON_def split: prod.splits sum.splits if_splits sax_end.splits
      intro: takeResult_fits)

end
