(* ===== verification/Json_Values.thy ===== *)
theory Json_Values
  imports Json_Props
begin

text \<open>
  The specification of the JSON handler: JSON values as trees, the events a conforming
  parser reports for one, the data it stands for and what it costs. The handler builds that
  data when and only when the value fits the limits.
\<close>

section \<open>JSON values\<close>

datatype jvalue =
    JVNull
  | JVBoolean bool
  | JVInteger "64 word"
  | JVUnsigned "64 word"
  | JVFloat "64 word" string
  | JVString string
  | JVObject "(string \<times> jvalue) list"
  | JVArray "jvalue list"

fun json_events :: "jvalue \<Rightarrow> json_event list"
  and member_events :: "(string \<times> jvalue) list \<Rightarrow> json_event list"
  and element_events :: "jvalue list \<Rightarrow> json_event list" where
  "json_events JVNull = [JNull]"
| "json_events (JVBoolean b) = [JBoolean b]"
| "json_events (JVInteger i) = [JInteger i]"
| "json_events (JVUnsigned i) = [JUnsigned i]"
| "json_events (JVFloat d sp) = [JFloat d sp]"
| "json_events (JVString s) = [JString s]"
| "json_events (JVObject ms) = JStartObject # member_events ms @ [JEndObject]"
| "json_events (JVArray vs) = JStartArray # element_events vs @ [JEndArray]"
| "member_events [] = []"
| "member_events ((k, v) # ms) = JKey k # json_events v @ member_events ms"
| "element_events [] = []"
| "element_events (v # vs) = json_events v @ element_events vs"

text \<open>The data a value stands for: members are inserted in order, so the last one wins.\<close>

fun jv_data :: "jvalue \<Rightarrow> data option"
  and jv_members :: "(string \<times> jvalue) list \<Rightarrow> (string \<times> data) list option"
  and jv_elements :: "jvalue list \<Rightarrow> data list option" where
  "jv_data JVNull = Some DNone"
| "jv_data (JVBoolean b) = Some (DBoolean b)"
| "jv_data (JVInteger i) = Some (DInteger i)"
| "jv_data (JVUnsigned i) = (if unat i \<le> 2 ^ 63 - 1 then Some (DInteger i) else None)"
| "jv_data (JVFloat d sp) =
     (case normalizeFloatingSpelling sp of
        None \<Rightarrow> None | Some x \<Rightarrow> if isfinite d then Some (DDouble d x) else None)"
| "jv_data (JVString s) = Some (DString s)"
| "jv_data (JVObject ms) =
     (case jv_members ms of None \<Rightarrow> None | Some kvs \<Rightarrow> Some (DMap (assoc_map.insert_all kvs [])))"
| "jv_data (JVArray vs) = map_option DArray (jv_elements vs)"
| "jv_members [] = Some []"
| "jv_members ((k, v) # ms) =
     (case jv_data v of
        None \<Rightarrow> None | Some d \<Rightarrow> map_option (\<lambda>kvs. (k, d) # kvs) (jv_members ms))"
| "jv_elements [] = Some []"
| "jv_elements (v # vs) =
     (case jv_data v of None \<Rightarrow> None | Some d \<Rightarrow> map_option (\<lambda>ds. d # ds) (jv_elements vs))"

fun jv_height :: "jvalue \<Rightarrow> nat"
  and members_height :: "(string \<times> jvalue) list \<Rightarrow> nat"
  and elements_height :: "jvalue list \<Rightarrow> nat" where
  "jv_height (JVObject ms) = Suc (members_height ms)"
| "jv_height (JVArray vs) = Suc (elements_height vs)"
| "jv_height _ = 1"
| "members_height [] = 0"
| "members_height ((k, v) # ms) = max (jv_height v) (members_height ms)"
| "elements_height [] = 0"
| "elements_height (v # vs) = max (jv_height v) (elements_height vs)"

fun jv_cost :: "jvalue \<Rightarrow> parse_budget"
  and members_cost :: "(string \<times> jvalue) list \<Rightarrow> parse_budget"
  and elements_cost :: "jvalue list \<Rightarrow> parse_budget" where
  "jv_cost (JVFloat d sp) =
     cost 1 (case normalizeFloatingSpelling sp of None \<Rightarrow> 0 | Some x \<Rightarrow> length x) 0"
| "jv_cost (JVString s) = cost 1 (length s) 0"
| "jv_cost (JVObject ms) = spend (cost 1 0 0) (members_cost ms)"
| "jv_cost (JVArray vs) = spend (cost 1 0 0) (elements_cost vs)"
| "jv_cost _ = cost 1 0 0"
| "members_cost [] = cost 0 0 0"
| "members_cost ((k, v) # ms) = spend (cost 0 (length k) 1) (spend (jv_cost v) (members_cost ms))"
| "elements_cost [] = cost 0 0 0"
| "elements_cost (v # vs) = spend (cost 0 0 1) (spend (jv_cost v) (elements_cost vs))"

section \<open>Placing a value\<close>

text \<open>The states in which a value may come next, and where it goes.\<close>

definition awaiting_value :: "json_builder \<Rightarrow> bool" where
  "awaiting_value s = (case jb_frames s of
       [] \<Rightarrow> jb_result s = None
     | f # _ \<Rightarrow> (case jf_value f of DArray _ \<Rightarrow> True | DMap _ \<Rightarrow> jf_key f \<noteq> None | _ \<Rightarrow> False))"

definition place :: "data \<Rightarrow> json_builder \<Rightarrow> json_builder" where
  "place d s = snd (jb_addValue d s)"

lemma jb_addValue_place: "awaiting_value s \<Longrightarrow> jb_addValue d s = (r, t) \<longleftrightarrow> r = Inr () \<and> t = place d s"
  by (cases "jb_frames s"; cases "jf_value (hd (jb_frames s))")
    (auto simp: awaiting_value_def place_def jb_addValue_def frame_add_array frame_add_map)

lemma place_budget [simp]: "jb_budget (place d s) = jb_budget s"
  by (auto simp: place_def jb_addValue_def split: list.splits sum.splits)

lemma place_array:
  "jb_frames s = f # fs \<Longrightarrow> jf_value f = DArray ds \<Longrightarrow>
     place d s = s\<lparr>jb_frames := f\<lparr>jf_value := DArray (ds @ [d])\<rparr> # fs\<rparr>"
  by (simp add: place_def jb_addValue_def frame_add_array)

lemma place_map:
  "jb_frames s = f # fs \<Longrightarrow> jf_value f = DMap m \<Longrightarrow> jf_key f = Some k \<Longrightarrow>
     place d s = s\<lparr>jb_frames := f\<lparr>jf_value := DMap (insert_or_assign k d m), jf_key := None\<rparr> # fs\<rparr>"
  by (simp add: place_def jb_addValue_def frame_add_map)

lemma place_root: "jb_frames s = [] \<Longrightarrow> jb_result s = None \<Longrightarrow> place d s = s\<lparr>jb_result := Some d\<rparr>"
  by (simp add: place_def jb_addValue_def)

lemma awaiting_value_budget [simp]: "awaiting_value (s\<lparr>jb_budget := b\<rparr>) = awaiting_value s"
  by (cases "jb_frames s") (simp_all add: awaiting_value_def)

section \<open>Running the events of a value\<close>

lemma jb_run_Cons_True:
  "jb_run limits (e # es) s = (Inr True, t) \<longleftrightarrow>
     (\<exists>u. jb_event limits e s = (Inr True, u) \<and> jb_run limits es u = (Inr True, t))"
  by (auto simp: bind_eff_Inr_iff split: if_splits)

lemma jb_run_append_True:
  "jb_run limits (es @ es') s = (Inr True, t) \<longleftrightarrow>
     (\<exists>u. jb_run limits es s = (Inr True, u) \<and> jb_run limits es' u = (Inr True, t))"
proof (induction es arbitrary: s)
  case (Cons e es)
  then show ?case by (simp only: append_Cons jb_run_Cons_True) blast
qed simp

text \<open>The state after a value of the given data and cost.\<close>

definition after_value :: "data \<Rightarrow> parse_budget \<Rightarrow> json_builder \<Rightarrow> json_builder" where
  "after_value d c s =
     place d (s\<lparr>jb_budget := spend (jb_budget s) (spend (parent_cost (jb_frames s)) c)\<rparr>)"

definition value_affordable :: "parse_limits \<Rightarrow> parse_budget \<Rightarrow> json_builder \<Rightarrow> bool" where
  "value_affordable limits c s \<longleftrightarrow>
     budget_within limits (spend (jb_budget s) (spend (parent_cost (jb_frames s)) c))"

lemma within_spend2: "budget_within limits (spend b (spend c (spend d e))) \<Longrightarrow> budget_within limits (spend b (spend c d))"
  by (simp add: budget_within_def)

lemma run_scalar:
  assumes "awaiting_value s" and "budget_within limits (jb_budget s)"
  shows "then_eff (jb_addScalar limits d) (ret True) s = (Inr True, t) \<longleftrightarrow>
    length (jb_frames s) < depth_cap limits \<and> value_affordable limits (cost 1 0 0) s
    \<and> t = after_value d (cost 1 0 0) s"
  using assms
  by (auto simp: jb_addScalar_def then_eff_Inr_iff jb_beginValue_iff jb_addValue_place value_affordable_def
      after_value_def)

lemma run_charged:
  assumes "awaiting_value s" and "budget_within limits (jb_budget s)"
  shows "(\<exists>s1 s2. jb_beginValue limits s = (Inr (), s1)
      \<and> jb_charge (addString limits ''JSON'' n) s1 = (Inr (), s2) \<and> jb_addValue d s2 = (Inr (), t))
    \<longleftrightarrow> length (jb_frames s) < depth_cap limits \<and> value_affordable limits (cost 1 n 0) s
    \<and> t = after_value d (cost 1 n 0) s"
proof -
  have "budget_within limits (spend (jb_budget s) (spend (parent_cost (jb_frames s)) (cost 1 n 0))) \<Longrightarrow>
      budget_within limits (spend (jb_budget s) (spend (parent_cost (jb_frames s)) (cost 1 0 0)))"
    by (simp add: budget_within_def)
  with assms show ?thesis
    by (auto simp: jb_beginValue_iff jb_charge_string jb_addValue_place value_affordable_def after_value_def)
qed

lemma jb_key_True:
  assumes "jb_frames s = \<lparr>jf_value = DMap m, jf_key = None\<rparr> # fs" and "budget_within limits (jb_budget s)"
  shows "jb_key limits k s = (Inr True, t) \<longleftrightarrow>
    budget_within limits (spend (jb_budget s) (cost 0 (length k) 1)) \<and>
    t = s\<lparr>jb_budget := spend (jb_budget s) (cost 0 (length k) 1),
          jb_frames := \<lparr>jf_value = DMap m, jf_key = Some k\<rparr> # fs\<rparr>"
proof -
  have "budget_within limits (spend (jb_budget s) (cost 0 (length k) 1)) \<Longrightarrow>
      budget_within limits (spend (jb_budget s) (cost 0 0 1))"
    by (simp add: budget_within_def)
  with assms show ?thesis
    by (auto simp: jb_key_def bind_eff_Inr_iff then_eff_Inr_iff jb_charge_entries jb_charge_string)
qed

lemma run_open:
  assumes "budget_within limits (jb_budget s)"
  shows "then_eff (jb_beginValue limits) (then_eff (jb_open d) (ret True)) s = (Inr True, t) \<longleftrightarrow>
    length (jb_frames s) < depth_cap limits \<and> value_affordable limits (cost 1 0 0) s \<and>
    t = s\<lparr>jb_budget := spend (jb_budget s) (spend (parent_cost (jb_frames s)) (cost 1 0 0)),
          jb_frames := \<lparr>jf_value = d, jf_key = None\<rparr> # jb_frames s\<rparr>"
  using assms by (auto simp: then_eff_Inr_iff jb_beginValue_iff value_affordable_def jb_open_def)

lemma run_close:
  assumes "awaiting_value (s\<lparr>jb_frames := fs\<rparr>)" and "jb_frames s = \<lparr>jf_value = d, jf_key = None\<rparr> # fs"
    and "type_of_data d = ty"
  shows "jb_endContainer ty s = (Inr True, t) \<longleftrightarrow> t = place d (s\<lparr>jb_frames := fs\<rparr>)"
  using assms
  by (auto simp: jb_endContainer_def bind_eff_Inr_iff then_eff_Inr_iff jb_addValue_place)

text \<open>What the induction shows of a value, of the rest of an object, and of an array.\<close>

definition runs_value :: "parse_limits \<Rightarrow> jvalue \<Rightarrow> bool" where
  "runs_value limits v \<longleftrightarrow> (\<forall>s t. awaiting_value s \<longrightarrow> budget_within limits (jb_budget s) \<longrightarrow>
     (jb_run limits (json_events v) s = (Inr True, t)) =
       (length (jb_frames s) + jv_height v \<le> depth_cap limits \<and> value_affordable limits (jv_cost v) s \<and>
        (\<exists>d. jv_data v = Some d \<and> t = after_value d (jv_cost v) s)))"

lemma runs_valueD:
  "runs_value limits v \<Longrightarrow> awaiting_value s \<Longrightarrow> budget_within limits (jb_budget s) \<Longrightarrow>
     (jb_run limits (json_events v) s = (Inr True, t)) =
       (length (jb_frames s) + jv_height v \<le> depth_cap limits \<and> value_affordable limits (jv_cost v) s \<and>
        (\<exists>d. jv_data v = Some d \<and> t = after_value d (jv_cost v) s))"
  by (simp add: runs_value_def)

definition runs_members :: "parse_limits \<Rightarrow> (string \<times> jvalue) list \<Rightarrow> bool" where
  "runs_members limits ms \<longleftrightarrow> (\<forall>s t m fs. jb_frames s = \<lparr>jf_value = DMap m, jf_key = None\<rparr> # fs \<longrightarrow>
     budget_within limits (jb_budget s) \<longrightarrow> length (jb_frames s) \<le> depth_cap limits \<longrightarrow>
     (jb_run limits (member_events ms) s = (Inr True, t)) =
       (length (jb_frames s) + members_height ms \<le> depth_cap limits \<and>
        budget_within limits (spend (jb_budget s) (members_cost ms)) \<and>
        (\<exists>kvs. jv_members ms = Some kvs \<and>
           t = s\<lparr>jb_budget := spend (jb_budget s) (members_cost ms),
                 jb_frames := \<lparr>jf_value = DMap (assoc_map.insert_all kvs m), jf_key = None\<rparr> # fs\<rparr>)))"

lemma runs_membersD:
  "runs_members limits ms \<Longrightarrow> jb_frames s = \<lparr>jf_value = DMap m, jf_key = None\<rparr> # fs \<Longrightarrow>
     budget_within limits (jb_budget s) \<Longrightarrow> length (jb_frames s) \<le> depth_cap limits \<Longrightarrow>
     (jb_run limits (member_events ms) s = (Inr True, t)) =
       (length (jb_frames s) + members_height ms \<le> depth_cap limits \<and>
        budget_within limits (spend (jb_budget s) (members_cost ms)) \<and>
        (\<exists>kvs. jv_members ms = Some kvs \<and>
           t = s\<lparr>jb_budget := spend (jb_budget s) (members_cost ms),
                 jb_frames := \<lparr>jf_value = DMap (assoc_map.insert_all kvs m), jf_key = None\<rparr> # fs\<rparr>))"
  by (simp add: runs_members_def)

definition runs_elements :: "parse_limits \<Rightarrow> jvalue list \<Rightarrow> bool" where
  "runs_elements limits vs \<longleftrightarrow> (\<forall>s t ds fs. jb_frames s = \<lparr>jf_value = DArray ds, jf_key = None\<rparr> # fs \<longrightarrow>
     budget_within limits (jb_budget s) \<longrightarrow> length (jb_frames s) \<le> depth_cap limits \<longrightarrow>
     (jb_run limits (element_events vs) s = (Inr True, t)) =
       (length (jb_frames s) + elements_height vs \<le> depth_cap limits \<and>
        budget_within limits (spend (jb_budget s) (elements_cost vs)) \<and>
        (\<exists>es. jv_elements vs = Some es \<and>
           t = s\<lparr>jb_budget := spend (jb_budget s) (elements_cost vs),
                 jb_frames := \<lparr>jf_value = DArray (ds @ es), jf_key = None\<rparr> # fs\<rparr>)))"

lemma runs_elementsD:
  "runs_elements limits vs \<Longrightarrow> jb_frames s = \<lparr>jf_value = DArray ds, jf_key = None\<rparr> # fs \<Longrightarrow>
     budget_within limits (jb_budget s) \<Longrightarrow> length (jb_frames s) \<le> depth_cap limits \<Longrightarrow>
     (jb_run limits (element_events vs) s = (Inr True, t)) =
       (length (jb_frames s) + elements_height vs \<le> depth_cap limits \<and>
        budget_within limits (spend (jb_budget s) (elements_cost vs)) \<and>
        (\<exists>es. jv_elements vs = Some es \<and>
           t = s\<lparr>jb_budget := spend (jb_budget s) (elements_cost vs),
                 jb_frames := \<lparr>jf_value = DArray (ds @ es), jf_key = None\<rparr> # fs\<rparr>))"
  by (simp add: runs_elements_def)

lemma runs_members_Cons:
  assumes "runs_value limits v" and "runs_members limits ms"
  shows "runs_members limits ((k, v) # ms)"
  unfolding runs_members_def
proof (intro allI impI)
  fix s t :: json_builder and m fs
  assume fr: "jb_frames s = \<lparr>jf_value = DMap m, jf_key = None\<rparr> # fs" and w: "budget_within limits (jb_budget s)"
    and len: "length (jb_frames s) \<le> depth_cap limits"
  let ?A = "budget_within limits (spend (jb_budget s) (cost 0 (length k) 1))"
  define s1 where "s1 = s\<lparr>jb_budget := spend (jb_budget s) (cost 0 (length k) 1),
          jb_frames := \<lparr>jf_value = DMap m, jf_key = Some k\<rparr> # fs\<rparr>"
  define s2 where "s2 d = s\<lparr>jb_budget := spend (jb_budget s) (spend (cost 0 (length k) 1) (jv_cost v)),
          jb_frames := \<lparr>jf_value = DMap (insert_or_assign k d m), jf_key = None\<rparr> # fs\<rparr>" for d
  have after: "after_value d (jv_cost v) s1 = s2 d" for d
    by (simp add: after_value_def s1_def s2_def place_map elem_cost_def)
  have "jb_run limits (member_events ((k, v) # ms)) s = (Inr True, t) \<longleftrightarrow>
      ?A \<and> (\<exists>u. jb_run limits (json_events v) s1 = (Inr True, u) \<and>
        jb_run limits (member_events ms) u = (Inr True, t))"
    unfolding member_events.simps jb_run_Cons_True jb_run_append_True
    using jb_key_True [OF fr w, of k] by (auto simp: s1_def)
  also have "\<dots> \<longleftrightarrow> ?A \<and> length (jb_frames s) + jv_height v \<le> depth_cap limits \<and>
      value_affordable limits (jv_cost v) s1 \<and>
      (\<exists>d. jv_data v = Some d \<and> jb_run limits (member_events ms) (s2 d) = (Inr True, t))"
  proof (cases ?A)
    case True
    then have s1: "awaiting_value s1" "budget_within limits (jb_budget s1)"
      and len1: "length (jb_frames s1) = length (jb_frames s)"
      using fr by (simp_all add: s1_def awaiting_value_def)
    have "jb_run limits (json_events v) s1 = (Inr True, u) \<longleftrightarrow>
        length (jb_frames s) + jv_height v \<le> depth_cap limits \<and> value_affordable limits (jv_cost v) s1 \<and>
        (\<exists>d. jv_data v = Some d \<and> u = s2 d)" for u
      by (simp only: runs_valueD [OF assms(1) s1] after len1)
    then show ?thesis using True by (auto simp only: simp_thms ex_simps)
  qed simp
  also have "\<dots> \<longleftrightarrow> length (jb_frames s) + members_height ((k, v) # ms) \<le> depth_cap limits \<and>
        budget_within limits (spend (jb_budget s) (members_cost ((k, v) # ms))) \<and>
        (\<exists>kvs. jv_members ((k, v) # ms) = Some kvs \<and>
           t = s\<lparr>jb_budget := spend (jb_budget s) (members_cost ((k, v) # ms)),
                 jb_frames := \<lparr>jf_value = DMap (assoc_map.insert_all kvs m), jf_key = None\<rparr> # fs\<rparr>)"
  proof (cases "value_affordable limits (jv_cost v) s1 \<and> ?A")
    case True
    then have w2: "budget_within limits (jb_budget (s2 d))" for d
      by (simp add: value_affordable_def s1_def s2_def elem_cost_def)
    have "jb_run limits (member_events ms) (s2 d) = (Inr True, t) \<longleftrightarrow>
       (length (jb_frames (s2 d)) + members_height ms \<le> depth_cap limits \<and>
        budget_within limits (spend (jb_budget (s2 d)) (members_cost ms)) \<and>
        (\<exists>kvs. jv_members ms = Some kvs \<and>
           t = (s2 d)\<lparr>jb_budget := spend (jb_budget (s2 d)) (members_cost ms),
                 jb_frames := \<lparr>jf_value = DMap (assoc_map.insert_all kvs (insert_or_assign k d m)),
                               jf_key = None\<rparr> # fs\<rparr>))" for d
      by (rule runs_membersD [OF assms(2) _ w2]) (use len fr in \<open>simp_all add: s2_def\<close>)
    with True show ?thesis
      using fr by (cases "jv_data v") (auto simp: s2_def)
  next
    case False
    then show ?thesis by (auto simp: value_affordable_def s1_def elem_cost_def budget_within_def)
  qed
  finally show "(jb_run limits (member_events ((k, v) # ms)) s = (Inr True, t)) =
       (length (jb_frames s) + members_height ((k, v) # ms) \<le> depth_cap limits \<and>
        budget_within limits (spend (jb_budget s) (members_cost ((k, v) # ms))) \<and>
        (\<exists>kvs. jv_members ((k, v) # ms) = Some kvs \<and>
           t = s\<lparr>jb_budget := spend (jb_budget s) (members_cost ((k, v) # ms)),
                 jb_frames := \<lparr>jf_value = DMap (assoc_map.insert_all kvs m), jf_key = None\<rparr> # fs\<rparr>))" .
qed

lemma runs_elements_Cons:
  assumes "runs_value limits v" and "runs_elements limits vs"
  shows "runs_elements limits (v # vs)"
  unfolding runs_elements_def
proof (intro allI impI)
  fix s t :: json_builder and ds fs
  assume fr: "jb_frames s = \<lparr>jf_value = DArray ds, jf_key = None\<rparr> # fs" and w: "budget_within limits (jb_budget s)"
    and len: "length (jb_frames s) \<le> depth_cap limits"
  define s2 where "s2 d = s\<lparr>jb_budget := spend (jb_budget s) (spend (cost 0 0 1) (jv_cost v)),
          jb_frames := \<lparr>jf_value = DArray (ds @ [d]), jf_key = None\<rparr> # fs\<rparr>" for d
  have after: "after_value d (jv_cost v) s = s2 d" for d
    using fr by (simp add: after_value_def s2_def elem_cost_def place_array)
  have rs: "awaiting_value s" using fr by (simp add: awaiting_value_def)
  have "jb_run limits (element_events (v # vs)) s = (Inr True, t) \<longleftrightarrow>
      length (jb_frames s) + jv_height v \<le> depth_cap limits \<and> value_affordable limits (jv_cost v) s \<and>
      (\<exists>d. jv_data v = Some d \<and> jb_run limits (element_events vs) (s2 d) = (Inr True, t))"
    unfolding element_events.simps jb_run_append_True
    by (auto simp only: runs_valueD [OF assms(1) rs w] after simp_thms ex_simps)
  also have "\<dots> \<longleftrightarrow> length (jb_frames s) + elements_height (v # vs) \<le> depth_cap limits \<and>
        budget_within limits (spend (jb_budget s) (elements_cost (v # vs))) \<and>
        (\<exists>es. jv_elements (v # vs) = Some es \<and>
           t = s\<lparr>jb_budget := spend (jb_budget s) (elements_cost (v # vs)),
                 jb_frames := \<lparr>jf_value = DArray (ds @ es), jf_key = None\<rparr> # fs\<rparr>)"
  proof (cases "value_affordable limits (jv_cost v) s")
    case True
    then have w2: "budget_within limits (jb_budget (s2 d))" for d
      using fr by (simp add: value_affordable_def s2_def elem_cost_def)
    have "jb_run limits (element_events vs) (s2 d) = (Inr True, t) \<longleftrightarrow>
       (length (jb_frames (s2 d)) + elements_height vs \<le> depth_cap limits \<and>
        budget_within limits (spend (jb_budget (s2 d)) (elements_cost vs)) \<and>
        (\<exists>es. jv_elements vs = Some es \<and>
           t = (s2 d)\<lparr>jb_budget := spend (jb_budget (s2 d)) (elements_cost vs),
                 jb_frames := \<lparr>jf_value = DArray ((ds @ [d]) @ es), jf_key = None\<rparr> # fs\<rparr>))" for d
      by (rule runs_elementsD [OF assms(2) _ w2]) (use len fr in \<open>simp_all add: s2_def\<close>)
    with True show ?thesis
      using fr by (cases "jv_data v") (auto simp: s2_def)
  next
    case False
    then show ?thesis using fr by (auto simp: value_affordable_def elem_cost_def budget_within_def)
  qed
  finally show "(jb_run limits (element_events (v # vs)) s = (Inr True, t)) =
       (length (jb_frames s) + elements_height (v # vs) \<le> depth_cap limits \<and>
        budget_within limits (spend (jb_budget s) (elements_cost (v # vs))) \<and>
        (\<exists>es. jv_elements (v # vs) = Some es \<and>
           t = s\<lparr>jb_budget := spend (jb_budget s) (elements_cost (v # vs)),
                 jb_frames := \<lparr>jf_value = DArray (ds @ es), jf_key = None\<rparr> # fs\<rparr>))" .
qed

lemma ret_True_iff: "then_eff m (ret True) s = (Inr True, t) \<longleftrightarrow> m s = (Inr (), t)"
  by (simp add: then_eff_Inr_iff)

lemma jb_run_single: "jb_run limits [e] s = (Inr True, t) \<longleftrightarrow> jb_event limits e s = (Inr True, t)"
  unfolding jb_run_Cons_True by simp

lemma runs_scalar:
  assumes "\<And>s. jb_event limits e s = then_eff (jb_addScalar limits d) (ret True) s"
    and "json_events v = [e]" and "jv_height v = 1" and "jv_cost v = cost 1 0 0" and "jv_data v = Some d"
  shows "runs_value limits v"
  unfolding runs_value_def
  by (simp add: assms jb_run_single run_scalar Suc_le_eq del: jb_run.simps)

lemma runs_string: "runs_value limits (JVString x)"
  unfolding runs_value_def
proof (intro allI impI)
  fix s t assume "awaiting_value s" "budget_within limits (jb_budget s)"
  from run_charged [OF this, of "length x" "DString x" t]
  show "(jb_run limits (json_events (JVString x)) s = (Inr True, t)) =
       (length (jb_frames s) + jv_height (JVString x) \<le> depth_cap limits \<and>
        value_affordable limits (jv_cost (JVString x)) s \<and>
        (\<exists>d. jv_data (JVString x) = Some d \<and> t = after_value d (jv_cost (JVString x)) s))"
    unfolding json_events.simps jb_run_single jb_event.simps ret_True_iff jb_string_def then_eff_Inr_iff
    by auto
qed

lemma runs_float: "runs_value limits (JVFloat d sp)"
  unfolding runs_value_def
proof (intro allI impI)
  fix s t assume awaiting_value: "awaiting_value s" "budget_within limits (jb_budget s)"
  show "(jb_run limits (json_events (JVFloat d sp)) s = (Inr True, t)) =
       (length (jb_frames s) + jv_height (JVFloat d sp) \<le> depth_cap limits \<and>
        value_affordable limits (jv_cost (JVFloat d sp)) s \<and>
        (\<exists>x. jv_data (JVFloat d sp) = Some x \<and> t = after_value x (jv_cost (JVFloat d sp)) s))"
  proof (cases "normalizeFloatingSpelling sp")
    case (Some x)
    then show ?thesis
      using run_charged [OF awaiting_value, of "length x" "DDouble d x" t]
      unfolding json_events.simps jb_run_single jb_event.simps ret_True_iff jb_float_Inr by auto
  qed (auto simp: jb_run_single ret_True_iff jb_float_Inr simp del: jb_run.simps)
qed

lemma runs_unsigned: "runs_value limits (JVUnsigned i)"
proof (cases "unat i \<le> 2 ^ 63 - 1")
  case True
  show ?thesis
    by (rule runs_scalar [of _ "JUnsigned i" "DInteger i"])
      (use True in \<open>auto simp: jb_unsigned_def jb_addScalar_def fun_eq_iff\<close>)
next
  case False
  then show ?thesis
    by (auto simp: runs_value_def jb_run_single ret_True_iff jb_unsigned_def then_eff_Inr_iff
        simp del: jb_run.simps)
qed

lemma runs_nothing: "runs_members limits []" "runs_elements limits []"
  by (auto simp: runs_members_def runs_elements_def)

lemma runs_object:
  assumes "runs_members limits ms"
  shows "runs_value limits (JVObject ms)"
  unfolding runs_value_def
proof (intro allI impI)
  fix s t assume awaiting_value: "awaiting_value s" and w: "budget_within limits (jb_budget s)"
  define s1 where "s1 = s\<lparr>jb_budget := spend (jb_budget s) (spend (parent_cost (jb_frames s)) (cost 1 0 0)),
          jb_frames := \<lparr>jf_value = DMap [], jf_key = None\<rparr> # jb_frames s\<rparr>"
  have fr1: "jb_frames s1 = \<lparr>jf_value = DMap [], jf_key = None\<rparr> # jb_frames s"
    by (simp add: s1_def)
  have close: "jb_endContainer DTypeMap u = (Inr True, t) \<longleftrightarrow> t = place d (u\<lparr>jb_frames := jb_frames s\<rparr>)"
    if "jb_frames u = \<lparr>jf_value = d, jf_key = None\<rparr> # jb_frames s" "type_of_data d = DTypeMap"
      "jb_result u = jb_result s" for u d
    by (rule run_close) (use awaiting_value that in \<open>auto simp: awaiting_value_def split: list.splits\<close>)
  have "jb_run limits (json_events (JVObject ms)) s = (Inr True, t) \<longleftrightarrow>
      length (jb_frames s) < depth_cap limits \<and> value_affordable limits (cost 1 0 0) s \<and>
      (\<exists>u. jb_run limits (member_events ms) s1 = (Inr True, u) \<and> jb_endContainer DTypeMap u = (Inr True, t))"
    unfolding json_events.simps jb_run_Cons_True jb_run_append_True jb_event.simps run_open [OF w]
    by (auto simp: s1_def)
  also have "\<dots> \<longleftrightarrow> length (jb_frames s) + jv_height (JVObject ms) \<le> depth_cap limits \<and>
        value_affordable limits (jv_cost (JVObject ms)) s \<and>
        (\<exists>d. jv_data (JVObject ms) = Some d \<and> t = after_value d (jv_cost (JVObject ms)) s)"
  proof (cases "length (jb_frames s) < depth_cap limits \<and> value_affordable limits (cost 1 0 0) s")
    case True
    then have "budget_within limits (jb_budget s1)" "length (jb_frames s1) \<le> depth_cap limits"
      by (simp_all add: s1_def value_affordable_def)
    from runs_membersD [OF assms fr1 this]
    show ?thesis
      using True by (cases "jv_members ms") (auto simp: close s1_def value_affordable_def after_value_def)
  next
    case False
    then show ?thesis by (auto simp: value_affordable_def budget_within_def)
  qed
  finally show "(jb_run limits (json_events (JVObject ms)) s = (Inr True, t)) =
       (length (jb_frames s) + jv_height (JVObject ms) \<le> depth_cap limits \<and>
        value_affordable limits (jv_cost (JVObject ms)) s \<and>
        (\<exists>d. jv_data (JVObject ms) = Some d \<and> t = after_value d (jv_cost (JVObject ms)) s))" .
qed

lemma runs_array:
  assumes "runs_elements limits vs"
  shows "runs_value limits (JVArray vs)"
  unfolding runs_value_def
proof (intro allI impI)
  fix s t assume awaiting_value: "awaiting_value s" and w: "budget_within limits (jb_budget s)"
  define s1 where "s1 = s\<lparr>jb_budget := spend (jb_budget s) (spend (parent_cost (jb_frames s)) (cost 1 0 0)),
          jb_frames := \<lparr>jf_value = DArray [], jf_key = None\<rparr> # jb_frames s\<rparr>"
  have fr1: "jb_frames s1 = \<lparr>jf_value = DArray [], jf_key = None\<rparr> # jb_frames s"
    by (simp add: s1_def)
  have close: "jb_endContainer DTypeArray u = (Inr True, t) \<longleftrightarrow> t = place d (u\<lparr>jb_frames := jb_frames s\<rparr>)"
    if "jb_frames u = \<lparr>jf_value = d, jf_key = None\<rparr> # jb_frames s" "type_of_data d = DTypeArray"
      "jb_result u = jb_result s" for u d
    by (rule run_close) (use awaiting_value that in \<open>auto simp: awaiting_value_def split: list.splits\<close>)
  have "jb_run limits (json_events (JVArray vs)) s = (Inr True, t) \<longleftrightarrow>
      length (jb_frames s) < depth_cap limits \<and> value_affordable limits (cost 1 0 0) s \<and>
      (\<exists>u. jb_run limits (element_events vs) s1 = (Inr True, u) \<and> jb_endContainer DTypeArray u = (Inr True, t))"
    unfolding json_events.simps jb_run_Cons_True jb_run_append_True jb_event.simps run_open [OF w]
    by (auto simp: s1_def)
  also have "\<dots> \<longleftrightarrow> length (jb_frames s) + jv_height (JVArray vs) \<le> depth_cap limits \<and>
        value_affordable limits (jv_cost (JVArray vs)) s \<and>
        (\<exists>d. jv_data (JVArray vs) = Some d \<and> t = after_value d (jv_cost (JVArray vs)) s)"
  proof (cases "length (jb_frames s) < depth_cap limits \<and> value_affordable limits (cost 1 0 0) s")
    case True
    then have "budget_within limits (jb_budget s1)" "length (jb_frames s1) \<le> depth_cap limits"
      by (simp_all add: s1_def value_affordable_def)
    from runs_elementsD [OF assms fr1 this]
    show ?thesis
      using True by (cases "jv_elements vs") (auto simp: close s1_def value_affordable_def after_value_def)
  next
    case False
    then show ?thesis by (auto simp: value_affordable_def budget_within_def)
  qed
  finally show "(jb_run limits (json_events (JVArray vs)) s = (Inr True, t)) =
       (length (jb_frames s) + jv_height (JVArray vs) \<le> depth_cap limits \<and>
        value_affordable limits (jv_cost (JVArray vs)) s \<and>
        (\<exists>d. jv_data (JVArray vs) = Some d \<and> t = after_value d (jv_cost (JVArray vs)) s))" .
qed

lemma runs_all: "runs_value limits v" "runs_members limits ms" "runs_elements limits vs"
proof (induction v and ms and vs rule: json_events_member_events_element_events.induct)
  case 1 show ?case by (rule runs_scalar [of _ JNull DNone]) simp_all
next
  case (2 b) show ?case by (rule runs_scalar [of _ "JBoolean b" "DBoolean b"]) simp_all
next
  case (3 i) show ?case by (rule runs_scalar [of _ "JInteger i" "DInteger i"]) simp_all
qed (simp_all add: runs_unsigned runs_float runs_string runs_object runs_array runs_nothing
    runs_members_Cons runs_elements_Cons)

section \<open>What the parser returns\<close>

lemma parseJSON_value_iff:
  assumes "sax input = (json_events v, SaxAccept)"
  shows "parseJSON sax input limits = Inr d \<longleftrightarrow>
    jv_data v = Some d \<and> jv_height v \<le> depth_cap limits \<and> budget_within limits (jv_cost v)"
proof -
  have "parseJSON sax input limits = Inr d \<longleftrightarrow>
      (\<exists>t. jb_run limits (json_events v) new_builder = (Inr True, t) \<and> takeResult t = Inr d)"
    using assms by (auto simp: parseJSON_def split: prod.splits sum.splits)
  moreover have "takeResult \<lparr>jb_budget = b, jb_frames = [], jb_result = Some x\<rparr> = Inr x" for b x
    by (simp add: takeResult_def)
  ultimately show ?thesis
    using runs_valueD [OF runs_all(1), of new_builder limits v]
    by (auto simp: awaiting_value_def new_builder_def value_affordable_def after_value_def place_root)
qed

lemma jv_members_rel:
  "jv_members ms = Some kvs \<Longrightarrow> list_all2 (\<lambda>(k, v) (k', d). k = k' \<and> jv_data v = Some d) ms kvs"
  by (induction ms arbitrary: kvs) (auto split: option.splits)

lemma map_of_rel:
  "list_all2 (\<lambda>(k, v) (k', d). k = k' \<and> f v = Some d) ms kvs \<Longrightarrow>
     map_of kvs k = Option.bind (map_of ms k) f"
  by (induction rule: list_all2_induct) auto

text \<open>
  C9. Given the events of a JSON value, the parser returns data exactly when the value has
  one (no integer above the signed range, no spelling or number the handler refuses), its
  nesting is within the limit and the ceiling, and its nodes, string bytes and container
  entries are within the budget; and then the data is the one the value stands for.
\<close>

theorem parseJSON_of_value:
  assumes "sax input = (json_events v, SaxAccept)"
  shows "(\<exists>e. parseJSON sax input limits = Inl e) =
      (jv_data v = None \<or> depth_cap limits < jv_height v \<or> \<not> budget_within limits (jv_cost v))
    \<and> (parseJSON sax input limits = Inr d) =
      (jv_data v = Some d \<and> jv_height v \<le> depth_cap limits \<and> budget_within limits (jv_cost v))"
proof -
  have "(\<exists>e. parseJSON sax input limits = Inl e) \<longleftrightarrow> (\<forall>d. parseJSON sax input limits \<noteq> Inr d)"
    by (cases "parseJSON sax input limits") auto
  with parseJSON_value_iff [of sax input v limits] assms show ?thesis by auto
qed

theorem parseJSON_of_value_witness:
  "parseJSON (\<lambda>_. (json_events (JVObject [(''a'', JVUnsigned 1), (''a'', JVArray [JVNull])]), SaxAccept))
     [] default_parse_limits = Inr (DMap [(''a'', DArray [DNone])])"
  by (subst parseJSON_of_value [OF refl, THEN conjunct2])
    (simp add: default_parse_limits_def depth_cap_def parseNestingCeiling_def budget_within_def)

text \<open>
  When an object is parsed, each of its keys is bound to the data of its last member in
  the text, and no other key is bound.
\<close>

theorem parseJSON_last_member_wins:
  assumes "sax input = (json_events (JVObject ms), SaxAccept)"
    and "parseJSON sax input limits = Inr d"
  shows "data_find k d = Option.bind (map_of (rev ms) k) jv_data"
proof -
  obtain kvs where kvs: "jv_members ms = Some kvs" and d: "d = DMap (assoc_map.insert_all kvs [])"
    using assms(2) parseJSON_value_iff [of sax input "JVObject ms" limits d] assms(1)
    by (auto split: option.splits)
  have "data_find k d = map_of (rev kvs) k"
    using assoc_map.lookup_insert_all [where m = "[]" and kvs = kvs and k = k] by (simp add: d data_find_def split: option.splits)
  also have "\<dots> = Option.bind (map_of (rev ms) k) jv_data"
    by (rule map_of_rel) (use jv_members_rel [OF kvs] in simp)
  finally show ?thesis .
qed

theorem parseJSON_last_member_wins_witness:
  "data_find ''k'' (DMap [(''k'', DBoolean True)]) = Some (DBoolean True)"
proof -
  let ?ms = "[(''k'', JVNull), (''k'', JVBoolean True)]"
  have "parseJSON (\<lambda>_. (json_events (JVObject ?ms), SaxAccept)) [] default_parse_limits =
      Inr (DMap [(''k'', DBoolean True)])"
    by (subst parseJSON_value_iff [OF refl])
      (simp add: default_parse_limits_def depth_cap_def parseNestingCeiling_def budget_within_def)
  from parseJSON_last_member_wins [OF refl this, of "''k''"] show ?thesis by simp
qed

text \<open>
  C19. Whatever the JSON library reports for an input, the data a successful parse returns has
  one value per key at each level, is no deeper than the limit and the ceiling of 256, and its
  nodes, string bytes and container entries are within the limits.
\<close>

theorem fromJSON_within_limits:
  assumes "fromJSON sax input limits = Inr d"
  shows "length input \<le> pl_maxInputBytes limits \<and> data_ok d
    \<and> data_height d \<le> min (pl_maxNestingDepth limits) 256 \<and> budget_within limits (data_cost d)"
  using assms parseJSON_fits
  by (fastforce simp: fromJSON_def fits_limits_def depth_cap_def parseNestingCeiling_def
      bind_result_Inr_iff checkInputSize_def split: option.splits if_splits)

theorem fromJSON_within_limits_witness:
  "data_height (DArray [DNone]) \<le> 32 \<and> budget_within default_parse_limits (data_cost (DArray [DNone]))"
  using fromJSON_within_limits [of "Some (\<lambda>_. ([JStartArray, JNull, JEndArray], SaxAccept))" "''[null]''"
      default_parse_limits "DArray [DNone]"]
  by (simp add: fromJSON_def checkInputSize_def default_parse_limits_def has_bom_def parseJSON_def
      eff_defs jb_addScalar_def jb_beginValue_def top_type_def jb_charge_def addNode_def
      addContainerEntries_def budget_consume_def parseNestingCeiling_def new_builder_def
      jb_open_def jb_endContainer_def jb_addValue_def frame_add_def data_push_back_def takeResult_def)

end
