(* ===== verification/Yaml.thy ===== *)
theory Yaml
  imports Parse_Budget
begin

text \<open>
  The YAML parser of src/data.cpp: the preflight over the event stream, the resolution of
  scalars, and the conversion of a composed document with its cycle check. libyaml is the
  parameter: the record \<open>libyaml\<close> gives, for an input, what its event parser and its
  document loader return. \<open>extract\<close> is the extraction of a \<open>double\<close> from a stream in
  the classic locale: the value and what is left of the text.
\<close>

section \<open>Preflight\<close>

datatype yaml_event =
    YNoEvent | YStreamStart | YStreamEnd | YDocumentStart | YDocumentEnd | YAlias | YScalar nat
  | YSequenceStart | YMappingStart | YSequenceEnd | YMappingEnd | YUnknownEvent

datatype container_type = YSequence | YMapping

record yaml_container =
  yc_type :: container_type
  yc_expectingKey :: bool

text \<open>The innermost open container is the head.\<close>

record preflight =
  yp_budget :: parse_budget
  yp_containers :: "yaml_container list"
  yp_sawRoot :: bool
  yp_completedDocuments :: nat

definition new_preflight :: preflight where
  "new_preflight =
     \<lparr>yp_budget = new_budget, yp_containers = [], yp_sawRoot = False, yp_completedDocuments = 0\<rparr>"

type_synonym 'a yp = "(preflight, 'a) eff"

definition yaml_parse_failed :: exn where
  "yaml_parse_failed = Exception ''Failed to parse yaml document''"

definition invalid_key :: exn where
  "invalid_key = Exception ''Invalid yaml object key''"

definition yp_charge :: "(parse_budget \<Rightarrow> parse_budget result) \<Rightarrow> unit yp" where
  "yp_charge f s =
     (case f (yp_budget s) of Inl e \<Rightarrow> (Inl e, s) | Inr b \<Rightarrow> (Inr (), s\<lparr>yp_budget := b\<rparr>))"

definition expectingMappingKey :: "preflight \<Rightarrow> bool" where
  "expectingMappingKey s =
     (case yp_containers s of [] \<Rightarrow> False | c # _ \<Rightarrow> yc_type c = YMapping \<and> yc_expectingKey c)"

definition set_expectingKey :: "bool \<Rightarrow> preflight \<Rightarrow> preflight" where
  "set_expectingKey b s =
     (case yp_containers s of
        [] \<Rightarrow> s | c # cs \<Rightarrow> s\<lparr>yp_containers := c\<lparr>yc_expectingKey := b\<rparr> # cs\<rparr>)"

definition yp_beginValue :: "parse_limits \<Rightarrow> unit yp" where
  "yp_beginValue limits =
     then_eff
       (bind_eff (reads yp_containers) (\<lambda>cs.
          case cs of
            [] \<Rightarrow> then_eff (throw_when yp_sawRoot yaml_parse_failed)
                    (writes (\<lambda>s. s\<lparr>yp_sawRoot := True\<rparr>))
          | c # _ \<Rightarrow>
              if yc_type c = YSequence then yp_charge (addContainerEntries limits ''YAML'' 1)
              else if yc_expectingKey c then throw invalid_key else ret ()))
       (bind_eff (reads (\<lambda>s. length (yp_containers s))) (\<lambda>d. yp_charge (addNode limits ''YAML'' d)))"

definition yp_finishValue :: "unit yp" where
  "yp_finishValue = writes (\<lambda>s.
     case yp_containers s of
       [] \<Rightarrow> s
     | c # cs \<Rightarrow> if yc_type c = YMapping \<and> \<not> yc_expectingKey c then set_expectingKey True s else s)"

definition consumeAlias :: "parse_limits \<Rightarrow> unit yp" where
  "consumeAlias limits = bind_eff (reads expectingMappingKey) (\<lambda>key.
     if key then then_eff (yp_charge (addContainerEntries limits ''YAML'' 1)) (writes (set_expectingKey False))
     else then_eff (yp_beginValue limits) yp_finishValue)"

definition consumeScalar :: "parse_limits \<Rightarrow> nat \<Rightarrow> unit yp" where
  "consumeScalar limits len = bind_eff (reads expectingMappingKey) (\<lambda>key.
     if key then
       then_eff (yp_charge (addContainerEntries limits ''YAML'' 1))
         (then_eff (yp_charge (addString limits ''YAML'' len)) (writes (set_expectingKey False)))
     else
       then_eff (yp_beginValue limits)
         (then_eff (yp_charge (addString limits ''YAML'' len)) yp_finishValue))"

definition startContainer :: "parse_limits \<Rightarrow> container_type \<Rightarrow> unit yp" where
  "startContainer limits ty =
     then_eff (throw_when expectingMappingKey invalid_key)
       (then_eff (yp_beginValue limits)
         (writes (\<lambda>s. s\<lparr>yp_containers :=
            \<lparr>yc_type = ty, yc_expectingKey = (ty = YMapping)\<rparr> # yp_containers s\<rparr>)))"

definition yp_endContainer :: "container_type \<Rightarrow> unit yp" where
  "yp_endContainer expected = bind_eff (reads yp_containers) (\<lambda>cs.
     case cs of
       [] \<Rightarrow> throw yaml_parse_failed
     | c # rest \<Rightarrow>
         if yc_type c \<noteq> expected \<or> (expected = YMapping \<and> \<not> yc_expectingKey c)
         then throw yaml_parse_failed
         else then_eff (writes (\<lambda>s. s\<lparr>yp_containers := rest\<rparr>)) yp_finishValue)"

text \<open>One event; the value says whether the stream is at its end.\<close>

fun handle :: "parse_limits \<Rightarrow> yaml_event \<Rightarrow> bool yp" where
  "handle limits YNoEvent = ret False"
| "handle limits YStreamStart = ret False"
| "handle limits YStreamEnd = ret True"
| "handle limits YDocumentStart =
     then_eff (throw_when (\<lambda>s. yp_completedDocuments s \<noteq> 0)
       (Exception ''Multiple YAML documents are not supported'')) (ret False)"
| "handle limits YDocumentEnd =
     then_eff (throw_when (\<lambda>s. yp_containers s \<noteq> []) yaml_parse_failed)
       (then_eff (writes (\<lambda>s. s\<lparr>yp_completedDocuments := yp_completedDocuments s + 1\<rparr>)) (ret False))"
| "handle limits YAlias = then_eff (consumeAlias limits) (ret False)"
| "handle limits (YScalar len) = then_eff (consumeScalar limits len) (ret False)"
| "handle limits YSequenceStart = then_eff (startContainer limits YSequence) (ret False)"
| "handle limits YMappingStart = then_eff (startContainer limits YMapping) (ret False)"
| "handle limits YSequenceEnd = then_eff (yp_endContainer YSequence) (ret False)"
| "handle limits YMappingEnd = then_eff (yp_endContainer YMapping) (ret False)"
| "handle limits YUnknownEvent = throw (Exception ''Unknown yaml event'')"

text \<open>
  The loop over the events the parser produces before it fails; a stream that ends is left
  at its end event.
\<close>

fun preflight_loop :: "parse_limits \<Rightarrow> yaml_event list \<Rightarrow> unit yp" where
  "preflight_loop limits [] =
     bind_eff (reads yp_completedDocuments) (\<lambda>n.
       throw (if n \<noteq> 0 then Exception ''Invalid trailing YAML content'' else yaml_parse_failed))"
| "preflight_loop limits (e # es) =
     bind_eff (handle limits e) (\<lambda>finished. if finished then ret () else preflight_loop limits es)"

section \<open>Scalars\<close>

definition isYAMLNull :: "string \<Rightarrow> bool" where
  "isYAMLNull value \<longleftrightarrow> value = [] \<or> value \<in> set [''~'', ''null'', ''Null'', ''NULL'']"

definition resolveYAMLBoolean :: "string \<Rightarrow> bool option" where
  "resolveYAMLBoolean value =
     (if value \<in> set [''y'', ''Y'', ''yes'', ''Yes'', ''YES'', ''true'', ''True'', ''TRUE'', ''on'', ''On'', ''ON'']
      then Some True
      else if value \<in> set [''n'', ''N'', ''no'', ''No'', ''NO'', ''false'', ''False'', ''FALSE'', ''off'', ''Off'', ''OFF'']
      then Some False
      else None)"

type_synonym extraction = "string \<Rightarrow> (64 word \<times> string) option"

definition isSpace :: "char \<Rightarrow> bool" where
  "isSpace c \<longleftrightarrow> c = CHR '' '' \<or> (of_char c :: nat) \<in> {9..13}"

definition parseYAMLSimpleDouble :: "extraction \<Rightarrow> string \<Rightarrow> 64 word option" where
  "parseYAMLSimpleDouble extract text =
     (case extract text of
        None \<Rightarrow> None
      | Some (value, rest) \<Rightarrow> if dropWhile isSpace rest \<noteq> [] then None else Some value)"

text \<open>The code's 0, 1 and 2, the second with the integer it stored.\<close>

datatype integer_result = NotAnInteger | AnInteger "64 word" | IntegerOutOfRange

text \<open>The base and where the digits start, from the offset after the sign.\<close>

definition integer_base :: "string \<Rightarrow> nat \<Rightarrow> nat \<times> nat" where
  "integer_base value offset =
     (if length value - offset \<ge> 2 \<and> value ! offset = CHR ''0'' then
        (let marker = value ! (offset + 1)
         in if marker = CHR ''x'' then (16, offset + 2)
            else if marker = CHR ''b'' then (2, offset + 2)
            else (8, offset + 1))
      else (10, offset))"

definition sign_offset :: "string \<Rightarrow> nat" where
  "sign_offset value = (if char_at value 0 (\<lambda>c. c = CHR ''+'' \<or> c = CHR ''-'') then 1 else 0)"

definition parseYAMLInteger :: "string \<Rightarrow> integer_result" where
  "parseYAMLInteger value =
     (let negative = char_at value 0 (\<lambda>c. c = CHR ''-'')
      in case integer_base value (sign_offset value) of (base, offset) \<Rightarrow>
         if offset \<ge> length value then NotAnInteger
         else case from_chars base (drop offset value) of
           ResultOutOfRange \<Rightarrow> IntegerOutOfRange
         | InvalidArgument \<Rightarrow> NotAnInteger
         | Converted magnitude rest \<Rightarrow>
             if rest \<noteq> [] then NotAnInteger
             else (let limit = (if negative then 2 ^ 63 - 1 + 1 else 2 ^ 63 - 1) in
               if magnitude > limit then IntegerOutOfRange
               else if negative \<and> magnitude = limit then AnInteger 0x8000000000000000
               else AnInteger (if negative then - word_of_nat magnitude else word_of_nat magnitude)))"

text \<open>The shape \<open>parseYAMLFloat\<close> asks for before it converts.\<close>

definition float_exponent_end :: "string \<Rightarrow> nat \<Rightarrow> nat option" where
  "float_exponent_end value position =
     (if char_at value position isExponent then
        (if \<not> char_at value (position + 1) (\<lambda>c. c = CHR ''+'' \<or> c = CHR ''-'') then None
         else (let start = position + 2; stop = skip_digits value start
               in if stop = start then None else Some stop))
      else Some position)"

definition yaml_float_shape :: "string \<Rightarrow> bool" where
  "yaml_float_shape value =
     (let offset = sign_offset value;
          point = skip_digits value offset
      in char_at value point (\<lambda>c. c = CHR ''.'') \<and>
         (let position = skip_digits value (point + 1)
          in (point - offset) + (position - (point + 1)) \<noteq> 0 \<and>
             float_exponent_end value position = Some (length value)))"

definition parseYAMLFloat :: "extraction \<Rightarrow> string \<Rightarrow> 64 word option" where
  "parseYAMLFloat extract value =
     (if \<not> yaml_float_shape value then None else parseYAMLSimpleDouble extract value)"

definition tag_bool :: string where "tag_bool = ''tag:yaml.org,2002:bool''"
definition tag_int :: string where "tag_int = ''tag:yaml.org,2002:int''"
definition tag_float :: string where "tag_float = ''tag:yaml.org,2002:float''"
definition tag_null :: string where "tag_null = ''tag:yaml.org,2002:null''"
definition tag_str :: string where "tag_str = ''tag:yaml.org,2002:str''"

definition or_else :: "'a option \<Rightarrow> 'a option \<Rightarrow> 'a option" where
  "or_else a b = (case a of None \<Rightarrow> b | Some x \<Rightarrow> Some x)"

definition floating_or_string :: "64 word option \<Rightarrow> string \<Rightarrow> data result" where
  "floating_or_string floating value =
     (case floating of None \<Rightarrow> Inr (DString value) | Some d \<Rightarrow> parsedFloating d value)"

definition resolveTaggedScalar :: "extraction \<Rightarrow> string \<Rightarrow> string \<Rightarrow> data result" where
  "resolveTaggedScalar extract tag value =
     (if tag = tag_bool then
        (case resolveYAMLBoolean value of Some b \<Rightarrow> Inr (DBoolean b) | None \<Rightarrow> Inr (DString value))
      else if tag = tag_int then
        (case parseYAMLInteger value of
           AnInteger i \<Rightarrow> Inr (DInteger i)
         | IntegerOutOfRange \<Rightarrow> floating_or_string (parseYAMLSimpleDouble extract value) value
         | NotAnInteger \<Rightarrow> Inr (DString value))
      else if tag = tag_float then
        floating_or_string (or_else (parseYAMLFloat extract value) (parseYAMLSimpleDouble extract value)) value
      else if tag = tag_null then Inr DNone
      else Inr (DString value))"

definition resolveScalar :: "extraction \<Rightarrow> string \<Rightarrow> data result" where
  "resolveScalar extract value =
     (if isYAMLNull value then Inr DNone
      else case resolveYAMLBoolean value of
        Some b \<Rightarrow> Inr (DBoolean b)
      | None \<Rightarrow>
          (case parseYAMLInteger value of
             AnInteger i \<Rightarrow> Inr (DInteger i)
           | r \<Rightarrow> floating_or_string
               (or_else (parseYAMLFloat extract value)
                  (if r = IntegerOutOfRange then parseYAMLSimpleDouble extract value else None)) value))"

section \<open>Documents\<close>

text \<open>
  A node is named by its address; \<open>yd_get\<close> is \<open>yaml_document_get_node\<close>, which gives no
  node for an index out of range. A scalar has its text, its tag if it has one, and whether it
  was written plain; a mapping its pairs and a sequence its items, as node indices.
\<close>

datatype yaml_node =
    YScalarNode string "string option" bool
  | YMappingNode "(int \<times> int) list"
  | YSequenceNode "int list"
  | YOtherNode

record yaml_document =
  yd_root :: "nat option"
  yd_get :: "int \<Rightarrow> nat option"
  yd_node :: "nat \<Rightarrow> yaml_node"

record yaml_build =
  yb_budget :: parse_budget
  yb_active :: "nat set"

type_synonym 'a yb = "(yaml_build, 'a) eff"

definition yb_charge :: "(parse_budget \<Rightarrow> parse_budget result) \<Rightarrow> unit yb" where
  "yb_charge f s =
     (case f (yb_budget s) of Inl e \<Rightarrow> (Inl e, s) | Inr b \<Rightarrow> (Inr (), s\<lparr>yb_budget := b\<rparr>))"

text \<open>\<open>ActiveYAMLNode\<close>: entered before and left after, on a throw too.\<close>

definition with_active :: "nat \<Rightarrow> 'a yb \<Rightarrow> 'a yb" where
  "with_active node m =
     then_eff (throw_when (\<lambda>s. node \<in> yb_active s) (Exception ''YAML alias cycle detected''))
       (then_eff (writes (\<lambda>s. s\<lparr>yb_active := insert node (yb_active s)\<rparr>))
         (on_exit (\<lambda>s. s\<lparr>yb_active := yb_active s - {node}\<rparr>) m))"

definition scalar_data :: "extraction \<Rightarrow> string \<Rightarrow> string option \<Rightarrow> bool \<Rightarrow> data result" where
  "scalar_data extract scalar tag plain =
     (let t = (case tag of None \<Rightarrow> [] | Some x \<Rightarrow> x)
      in if t = tag_bool \<or> t = tag_int \<or> t = tag_float \<or> t = tag_null
         then resolveTaggedScalar extract t scalar
         else if plain \<and> (t = [] \<or> t = tag_str) then resolveScalar extract scalar
         else Inr (DString scalar))"

definition int_max :: nat where "int_max = 2 ^ 31 - 1"

text \<open>
  The loops over the pairs and the items. \<open>child\<close> is \<open>createFromNode\<close> one level deeper, on
  the node pointer it is given.
\<close>

definition scalar_key :: "yaml_document \<Rightarrow> int \<Rightarrow> string option" where
  "scalar_key doc i =
     (case yd_get doc i of
        None \<Rightarrow> None
      | Some k \<Rightarrow> (case yd_node doc k of YScalarNode key _ _ \<Rightarrow> Some key | _ \<Rightarrow> None))"

fun mapping_loop :: "parse_limits \<Rightarrow> yaml_document \<Rightarrow> (nat option \<Rightarrow> data yb) \<Rightarrow> (int \<times> int) list \<Rightarrow> data \<Rightarrow> data yb" where
  "mapping_loop limits doc child [] result = ret result"
| "mapping_loop limits doc child ((k, v) # ps) result =
     (case scalar_key doc k of
        None \<Rightarrow> throw invalid_key
      | Some key \<Rightarrow>
          then_eff (yb_charge (addString limits ''YAML'' (length key)))
            (bind_eff (child (yd_get doc v)) (\<lambda>value.
              bind_eff (lift_result (data_set key value result)) (mapping_loop limits doc child ps))))"

fun sequence_loop :: "yaml_document \<Rightarrow> (nat option \<Rightarrow> data yb) \<Rightarrow> int list \<Rightarrow> data \<Rightarrow> data yb" where
  "sequence_loop doc child [] result = ret result"
| "sequence_loop doc child (i # is) result =
     bind_eff (child (yd_get doc i)) (\<lambda>value.
       bind_eff (lift_result (data_push_back value result)) (sequence_loop doc child is))"

definition create_switch ::
  "parse_limits \<Rightarrow> extraction \<Rightarrow> yaml_document \<Rightarrow> (nat option \<Rightarrow> data yb) \<Rightarrow> nat \<Rightarrow> data yb" where
  "create_switch limits extract doc child node =
     (case yd_node doc node of
        YScalarNode scalar tag plain \<Rightarrow>
          then_eff (yb_charge (addString limits ''YAML'' (length scalar)))
            (lift_result (scalar_data extract scalar tag plain))
      | YMappingNode pairs \<Rightarrow>
          then_eff (yb_charge (addContainerEntries limits ''YAML'' (length pairs)))
            (then_eff (throw_when (\<lambda>_. length pairs > int_max) (Exception ''YAML object is too large''))
              (bind_eff (lift_result (makeStorage 3 (int (length pairs))))
                (mapping_loop limits doc child pairs)))
      | YSequenceNode items \<Rightarrow>
          then_eff (yb_charge (addContainerEntries limits ''YAML'' (length items)))
            (then_eff (throw_when (\<lambda>_. length items > int_max) (Exception ''YAML array is too large''))
              (bind_eff (lift_result (makeStorage 4 (int (length items))))
                (sequence_loop doc child items)))
      | YOtherNode \<Rightarrow> throw (Exception ''Unknown yaml type''))"

definition create_body ::
  "parse_limits \<Rightarrow> extraction \<Rightarrow> yaml_document \<Rightarrow> (nat option \<Rightarrow> data yb) \<Rightarrow> nat option \<Rightarrow> nat \<Rightarrow> data yb" where
  "create_body limits extract doc child node depth =
     (case node of
        None \<Rightarrow> throw (Exception ''Missing yaml node'')
      | Some n \<Rightarrow>
          then_eff (yb_charge (addNode limits ''YAML'' depth))
            (with_active n (create_switch limits extract doc child n)))"

text \<open>
  The recursion, with as many levels as it is given. \<open>addNode\<close> refuses every depth from the
  ceiling on, so the last level is never reached: the code has no throw there, and more levels
  than \<open>createFromNode\<close> takes change nothing (\<open>create_level_more\<close> in Yaml_Cycles).
\<close>

primrec create_level ::
  "nat \<Rightarrow> parse_limits \<Rightarrow> extraction \<Rightarrow> yaml_document \<Rightarrow> nat option \<Rightarrow> nat \<Rightarrow> data yb" where
  "create_level 0 limits extract doc node depth = throw (Exception ''YAML nesting limit exceeded'')"
| "create_level (Suc n) limits extract doc node depth =
     create_body limits extract doc (\<lambda>c. create_level n limits extract doc c (depth + 1)) node depth"

definition createFromNode :: "parse_limits \<Rightarrow> extraction \<Rightarrow> yaml_document \<Rightarrow> nat option \<Rightarrow> nat \<Rightarrow> data yb" where
  "createFromNode limits extract doc node depth =
     create_level (parseNestingCeiling + 1 - depth) limits extract doc node depth"

section \<open>Entry points\<close>

text \<open>
  What libyaml does with an input: whether each of the two parsers could be made, the events
  the first produces before it fails, and the documents the second loads, one after the
  other, or \<open>None\<close> where loading fails.
\<close>

record libyaml =
  ly_initialize :: bool
  ly_initialize_again :: bool
  ly_events :: "string \<Rightarrow> yaml_event list"
  ly_load :: "string \<Rightarrow> yaml_document option"
  ly_load_next :: "string \<Rightarrow> yaml_document option"

definition yaml_init_failed :: exn where
  "yaml_init_failed = Exception ''Failed to initialize yaml parser''"

definition preflightYAML :: "libyaml \<Rightarrow> string \<Rightarrow> parse_limits \<Rightarrow> unit result" where
  "preflightYAML ly input limits =
     (if \<not> ly_initialize ly then Inl yaml_init_failed
      else case preflight_loop limits (ly_events ly input) new_preflight of
        (Inl e, s) \<Rightarrow> Inl e
      | (Inr u, s) \<Rightarrow> if \<not> yp_sawRoot s then Inl (Exception ''Empty yaml document'') else Inr ())"

definition convert_document :: "libyaml \<Rightarrow> extraction \<Rightarrow> string \<Rightarrow> parse_limits \<Rightarrow> data result" where
  "convert_document ly extract input limits =
     (case ly_load ly input of
        None \<Rightarrow> Inl yaml_parse_failed
      | Some doc \<Rightarrow>
          (case yd_root doc of
             None \<Rightarrow> Inl (Exception ''Empty yaml document'')
           | Some root \<Rightarrow>
               bind_result
                 (fst (createFromNode limits extract doc (Some root) 0 \<lparr>yb_budget = new_budget, yb_active = {}\<rparr>))
                 (\<lambda>data.
                    case ly_load_next ly input of
                      None \<Rightarrow> Inl (Exception ''Invalid trailing YAML content'')
                    | Some trailing \<Rightarrow>
                        if yd_root trailing \<noteq> None
                        then Inl (Exception ''Multiple YAML documents are not supported'')
                        else Inr data)))"

text \<open>A build without libyaml has no parser.\<close>

definition fromYAML :: "libyaml option \<Rightarrow> extraction \<Rightarrow> string \<Rightarrow> parse_limits \<Rightarrow> data result" where
  "fromYAML lib extract input limits =
     (case lib of
        None \<Rightarrow> Inl (Exception ''YAML support is not available'')
      | Some ly \<Rightarrow>
          bind_result (checkInputSize input limits ''YAML'') (\<lambda>_.
            bind_result (preflightYAML ly input limits) (\<lambda>_.
              if \<not> ly_initialize_again ly then Inl yaml_init_failed
              else convert_document ly extract input limits)))"

definition fromYAML_ptr :: "libyaml option \<Rightarrow> extraction \<Rightarrow> string option \<Rightarrow> parse_limits \<Rightarrow> data result" where
  "fromYAML_ptr lib extract input limits =
     (case input of
        None \<Rightarrow> Inl (Exception ''Missing YAML data'')
      | Some s \<Rightarrow> fromYAML lib extract (takeWhile (\<lambda>c. c \<noteq> CHR 0x00) s) limits)"

text \<open>The overloads with default limits; \<open>createFromYAML\<close> only puts the value on the heap.\<close>

definition fromYAML_default :: "libyaml option \<Rightarrow> extraction \<Rightarrow> string \<Rightarrow> data result" where
  "fromYAML_default lib extract input = fromYAML lib extract input default_parse_limits"

definition fromYAML_ptr_default :: "libyaml option \<Rightarrow> extraction \<Rightarrow> string option \<Rightarrow> data result" where
  "fromYAML_ptr_default lib extract input = fromYAML_ptr lib extract input default_parse_limits"

definition createFromYAML ::
    "libyaml option \<Rightarrow> extraction \<Rightarrow> string option \<Rightarrow> parse_limits option \<Rightarrow> data result" where
  "createFromYAML lib extract input limits =
     (case limits of
        None \<Rightarrow> fromYAML_ptr_default lib extract input | Some l \<Rightarrow> fromYAML_ptr lib extract input l)"

end
