(* ===== verification/Yaml_Props.thy ===== *)
theory Yaml_Props
  imports Yaml
begin

text \<open>
  What the scalars and the preflight of the YAML parser promise: integers are read back from
  the spelling the library prints, and what passes the preflight is paid for by the budget.
\<close>

section \<open>Integers\<close>

lemma integer_base_show_nat:
  "drop off v = show_nat n \<Longrightarrow> off \<le> length v \<Longrightarrow> integer_base v off = (10, off)"
proof -
  assume d: "drop off v = show_nat n" and off: "off \<le> length v"
  have "\<not> (length v - off \<ge> 2 \<and> v ! off = CHR ''0'')"
  proof
    assume a: "length v - off \<ge> 2 \<and> v ! off = CHR ''0''"
    then have "off < length v" by linarith
    then have "show_nat n ! 0 = CHR ''0''" using a d nth_drop [of off v 0] by simp
    then have "n = 0" by (rule show_nat_head)
    then have "length (drop off v) = 1" using d by (simp add: show_nat.simps [of 0])
    then show False using a by simp
  qed
  then show "integer_base v off = (10, off)" unfolding integer_base_def by (simp only: if_False)
qed

lemma parse_negative:
  "parseYAMLInteger (CHR ''-'' # show_nat n) =
     (if n \<le> 2 ^ 63 then AnInteger (- word_of_nat n) else IntegerOutOfRange)"
proof -
  have b: "integer_base (CHR ''-'' # show_nat n) 1 = (10, 1)"
    by (rule integer_base_show_nat [where n = n]) simp_all
  show ?thesis
    by (auto simp: parseYAMLInteger_def b [simplified] sign_offset_def char_at_def from_chars_show_nat
        Let_def simp del: word_of_nat_eq_0_iff)
qed

lemma parse_nonnegative:
  "parseYAMLInteger (show_nat n) = (if n < 2 ^ 63 then AnInteger (word_of_nat n) else IntegerOutOfRange)"
proof -
  have b: "integer_base (show_nat n) 0 = (10, 0)"
    by (rule integer_base_show_nat [where n = n]) simp_all
  show ?thesis
    using show_nat_no_sign [of n]
    by (auto simp: parseYAMLInteger_def b sign_offset_def char_at_def from_chars_show_nat Let_def)
qed

text \<open>
  Reading the decimal spelling of an integer gives that integer when it is within the
  64-bit signed range, the two ends included, and is reported as out of range otherwise.
\<close>

lemma parseYAMLInteger_show_int:
  "parseYAMLInteger (show_int i) =
     (if - (2 ^ 63) \<le> i \<and> i < 2 ^ 63 then AnInteger (word_of_int i) else IntegerOutOfRange)"
proof (cases "i < 0")
  case True
  define n where "n = nat (- i)"
  have "i = - int n" "show_int i = CHR ''-'' # show_nat n" using True by (simp_all add: n_def show_int_def)
  then show ?thesis by (simp only: parse_negative) (auto simp: wi_hom_neg [symmetric])
next
  case False
  define n where "n = nat i"
  have "i = int n" "show_int i = show_nat n" using False by (simp_all add: n_def show_int_def)
  then show ?thesis by (simp only: parse_nonnegative) auto
qed

section \<open>The preflight\<close>

interpretation yaml_preflight_budget: budget_holder yp_charge yp_budget "\<lambda>b s. s\<lparr>yp_budget := b\<rparr>"
  by unfold_locales (auto simp: yp_charge_def)

text \<open>What an event makes the document composer build: a node, and the bytes of its text.\<close>

fun event_nodes :: "yaml_event \<Rightarrow> nat" where
  "event_nodes YAlias = 1"
| "event_nodes (YScalar n) = 1"
| "event_nodes YSequenceStart = 1"
| "event_nodes YMappingStart = 1"
| "event_nodes _ = 0"

fun event_bytes :: "yaml_event \<Rightarrow> nat" where
  "event_bytes (YScalar n) = n"
| "event_bytes _ = 0"

text \<open>A step that keeps the budget within its limits and pays for so many nodes and bytes.\<close>

definition pays :: "parse_limits \<Rightarrow> nat \<Rightarrow> nat \<Rightarrow> preflight \<Rightarrow> preflight \<Rightarrow> bool" where
  "pays limits n b s t \<longleftrightarrow> budget_within limits (yp_budget t) \<and>
     pb_nodes (yp_budget s) + pb_containerEntries (yp_budget s) + n
       \<le> pb_nodes (yp_budget t) + pb_containerEntries (yp_budget t) \<and>
     pb_stringBytes (yp_budget s) + b \<le> pb_stringBytes (yp_budget t)"

lemma pays_trans: "pays limits n b s t \<Longrightarrow> pays limits n' b' t u \<Longrightarrow> pays limits (n + n') (b + b') s u"
  by (simp add: pays_def)

lemma pays_same: "budget_within limits (yp_budget s) \<Longrightarrow> yp_budget t = yp_budget s \<Longrightarrow> pays limits 0 0 s t"
  by (simp add: pays_def)

lemma set_expectingKey_budget [simp]: "yp_budget (set_expectingKey b s) = yp_budget s"
  by (simp add: set_expectingKey_def split: list.split)

lemma finishValue_budget: "yp_finishValue s = (Inr u, t) \<Longrightarrow> yp_budget t = yp_budget s"
  by (auto simp: yp_finishValue_def split: list.splits if_splits)

lemma charge_entries_pays:
  assumes "budget_within limits (yp_budget s)" and "yp_charge (addContainerEntries limits f n) s = (Inr u, t)"
  shows "pays limits n 0 s t"
  using assms yaml_preflight_budget.charge_entries [of limits s f n u t] by (auto simp: pays_def)

lemma charge_string_pays:
  assumes "budget_within limits (yp_budget s)" and "yp_charge (addString limits f n) s = (Inr u, t)"
  shows "pays limits 0 n s t"
  using assms yaml_preflight_budget.charge_string [of limits s f n u t] by (auto simp: pays_def)

lemma charge_node_pays:
  assumes "budget_within limits (yp_budget s)" and "yp_charge (addNode limits f d) s = (Inr u, t)"
  shows "pays limits 1 0 s t"
  using assms yaml_preflight_budget.charge_node [of limits s f d u t] by (auto simp: pays_def)

lemma pays_within: "pays limits n b s t \<Longrightarrow> budget_within limits (yp_budget t)"
  by (simp add: pays_def)

lemma pays_any: "pays limits n b s t \<Longrightarrow> pays limits 0 0 s t"
  by (simp add: pays_def)

lemma beginValue_pays:
  assumes w: "budget_within limits (yp_budget s)" and run: "yp_beginValue limits s = (Inr u, t)"
  shows "pays limits 1 0 s t"
proof -
  obtain v where v: "pays limits 0 0 s v" and node: "yp_charge (addNode limits ''YAML'' (length (yp_containers v))) v = (Inr u, t)"
  proof (cases "yp_containers s")
    case Nil
    with run have "yp_charge (addNode limits ''YAML'' 0) (s\<lparr>yp_sawRoot := True\<rparr>) = (Inr u, t)"
      by (auto simp: yp_beginValue_def then_eff_Inr_iff bind_eff_Inr_iff)
    moreover have "pays limits 0 0 s (s\<lparr>yp_sawRoot := True\<rparr>)" using w by (simp add: pays_same)
    ultimately show ?thesis using that [of "s\<lparr>yp_sawRoot := True\<rparr>"] Nil by simp
  next
    case (Cons c cs)
    show ?thesis
    proof (cases "yc_type c = YSequence")
      case True
      with run Cons obtain y v where e: "yp_charge (addContainerEntries limits ''YAML'' 1) s = (Inr y, v)"
        and n: "yp_charge (addNode limits ''YAML'' (length (yp_containers v))) v = (Inr u, t)"
        by (auto simp: yp_beginValue_def then_eff_Inr_iff bind_eff_Inr_iff)
      from that [OF pays_any [OF charge_entries_pays [OF w e]] n] show ?thesis .
    next
      case False
      with run Cons have "yp_charge (addNode limits ''YAML'' (length (yp_containers s))) s = (Inr u, t)"
        by (auto simp: yp_beginValue_def then_eff_Inr_iff bind_eff_Inr_iff split: if_splits)
      with that [OF pays_same [OF w]] show ?thesis by blast
    qed
  qed
  from charge_node_pays [OF pays_within [OF v] node] pays_trans [OF v] show ?thesis by fastforce
qed

lemma pays_budget: "pays limits n b s t \<Longrightarrow> yp_budget u = yp_budget t \<Longrightarrow> pays limits n b s u"
  by (simp add: pays_def)

lemma consumeAlias_pays:
  assumes w: "budget_within limits (yp_budget s)" and run: "consumeAlias limits s = (Inr u, t)"
  shows "pays limits 1 0 s t"
proof (cases "expectingMappingKey s")
  case True
  with run obtain y v where "yp_charge (addContainerEntries limits ''YAML'' 1) s = (Inr y, v)"
    and "yp_budget t = yp_budget v"
    by (auto simp: consumeAlias_def bind_eff_Inr_iff then_eff_Inr_iff)
  then show ?thesis using charge_entries_pays [OF w] pays_budget by blast
next
  case False
  with run obtain y v where "yp_beginValue limits s = (Inr y, v)" and "yp_budget t = yp_budget v"
    by (auto simp: consumeAlias_def bind_eff_Inr_iff then_eff_Inr_iff dest!: finishValue_budget)
  then show ?thesis using beginValue_pays [OF w] pays_budget by blast
qed

lemma consumeScalar_pays:
  assumes w: "budget_within limits (yp_budget s)" and run: "consumeScalar limits n s = (Inr u, t)"
  shows "pays limits 1 n s t"
proof -
  have "\<exists>v x y. pays limits 1 0 s v \<and> yp_charge (addString limits ''YAML'' n) v = (Inr y, x)
    \<and> yp_budget t = yp_budget x"
  proof (cases "expectingMappingKey s")
    case True
    with run obtain z v x y where "yp_charge (addContainerEntries limits ''YAML'' 1) s = (Inr z, v)"
      and "yp_charge (addString limits ''YAML'' n) v = (Inr y, x)" and "yp_budget t = yp_budget x"
      by (auto simp: consumeScalar_def bind_eff_Inr_iff then_eff_Inr_iff)
    then show ?thesis using charge_entries_pays [OF w] by blast
  next
    case False
    with run obtain z v x y where "yp_beginValue limits s = (Inr z, v)"
      and "yp_charge (addString limits ''YAML'' n) v = (Inr y, x)" and "yp_budget t = yp_budget x"
      by (auto simp: consumeScalar_def bind_eff_Inr_iff then_eff_Inr_iff dest!: finishValue_budget)
    then show ?thesis using beginValue_pays [OF w] by blast
  qed
  then obtain v x y where v: "pays limits 1 0 s v"
    and x: "yp_charge (addString limits ''YAML'' n) v = (Inr y, x)" and t: "yp_budget t = yp_budget x" by blast
  from pays_trans [OF v charge_string_pays [OF pays_within [OF v] x]] t show ?thesis by (simp add: pays_def)
qed

lemma startContainer_pays:
  assumes w: "budget_within limits (yp_budget s)" and run: "startContainer limits ty s = (Inr u, t)"
  shows "pays limits 1 0 s t"
  using run beginValue_pays [OF w]
  by (auto simp: startContainer_def then_eff_Inr_iff pays_def)

lemma yp_endContainer_pays:
  assumes w: "budget_within limits (yp_budget s)" and run: "yp_endContainer ty s = (Inr u, t)"
  shows "pays limits 0 0 s t"
proof -
  have "yp_budget t = yp_budget s"
    using run
    by (auto simp: yp_endContainer_def bind_eff_Inr_iff then_eff_Inr_iff split: list.splits if_splits
        dest!: finishValue_budget)
  with w show ?thesis by (rule pays_same)
qed

lemma handle_pays:
  assumes w: "budget_within limits (yp_budget s)" and run: "handle limits e s = (Inr finished, t)"
  shows "pays limits (event_nodes e) (event_bytes e) s t \<and> (finished \<longleftrightarrow> e = YStreamEnd)"
  using run consumeAlias_pays [OF w] consumeScalar_pays [OF w] startContainer_pays [OF w]
    yp_endContainer_pays [OF w] pays_same [OF w]
  by (cases e) (auto simp: then_eff_Inr_iff)

lemma preflight_loop_pays:
  "budget_within limits (yp_budget s) \<Longrightarrow> preflight_loop limits es s = (Inr u, t) \<Longrightarrow>
     YStreamEnd \<in> set es \<and>
     pays limits (sum_list (map event_nodes (takeWhile (\<lambda>e. e \<noteq> YStreamEnd) es)))
       (sum_list (map event_bytes (takeWhile (\<lambda>e. e \<noteq> YStreamEnd) es))) s t"
proof (induction es arbitrary: s)
  case Nil
  then show ?case by (simp add: bind_eff_Inr_iff)
next
  case (Cons e es)
  then obtain finished v where v: "handle limits e s = (Inr finished, v)"
    and rest: "(if finished then ret () else preflight_loop limits es) v = (Inr u, t)"
    by (auto simp: bind_eff_Inr_iff)
  note e = handle_pays [OF Cons.prems(1) v]
  show ?case
  proof (cases finished)
    case True
    with e rest show ?thesis by auto
  next
    case False
    with rest Cons.IH [OF pays_within, of "event_nodes e" "event_bytes e" s v] e
    show ?thesis using pays_trans by auto
  qed
qed

text \<open>
  C22. A preflight that passes has seen the end of the stream, and what the composer will build
  from the events before it is bounded by the limits of the call: the nodes by the node and
  entry limits together, and the bytes of all scalars by the string limit.
\<close>

theorem preflight_bounds_composition:
  assumes "preflightYAML ly input limits = Inr ()"
  shows "YStreamEnd \<in> set (ly_events ly input)
    \<and> sum_list (map event_nodes (takeWhile (\<lambda>e. e \<noteq> YStreamEnd) (ly_events ly input)))
        \<le> pl_maxNodes limits + pl_maxContainerEntries limits
    \<and> sum_list (map event_bytes (takeWhile (\<lambda>e. e \<noteq> YStreamEnd) (ly_events ly input)))
        \<le> pl_maxStringBytes limits"
proof -
  obtain t where "preflight_loop limits (ly_events ly input) new_preflight = (Inr (), t)"
    using assms by (auto simp: preflightYAML_def split: prod.splits sum.splits if_splits)
  moreover have "budget_within limits (yp_budget new_preflight)" by (simp add: new_preflight_def)
  ultimately show ?thesis
    using preflight_loop_pays [of limits new_preflight "ly_events ly input" "()" t]
    by (auto simp: pays_def budget_within_def new_preflight_def)
qed

theorem preflight_bounds_composition_witness:
  "sum_list (map event_nodes (takeWhile (\<lambda>e. e \<noteq> YStreamEnd)
      [YStreamStart, YDocumentStart, YMappingStart, YScalar 1, YAlias, YMappingEnd, YDocumentEnd, YStreamEnd]))
     \<le> 100000 + 100000"
proof -
  let ?ly = "\<lparr>ly_initialize = True, ly_initialize_again = True,
      ly_events = (\<lambda>_. [YStreamStart, YDocumentStart, YMappingStart, YScalar 1, YAlias, YMappingEnd,
        YDocumentEnd, YStreamEnd]),
      ly_load = (\<lambda>_. None), ly_load_next = (\<lambda>_. None)\<rparr>"
  have "preflightYAML ?ly [] default_parse_limits = Inr ()"
    by (simp add: preflightYAML_def new_preflight_def eff_defs default_parse_limits_def
        startContainer_def expectingMappingKey_def yp_beginValue_def yp_charge_def addNode_def addString_def
        addContainerEntries_def budget_consume_def parseNestingCeiling_def consumeScalar_def consumeAlias_def
        yp_finishValue_def yp_endContainer_def set_expectingKey_def)
  from preflight_bounds_composition [OF this] show ?thesis by (simp add: default_parse_limits_def)
qed

end
