(* ===== verification/Yaml_Spec.thy ===== *)
theory Yaml_Spec
  imports Yaml_Props
begin

text \<open>
  The specification of the document conversion. A node of a document unfolds to a tree when
  following its indices ends; aliases are copied at each use. The conversion succeeds exactly
  on the nodes that unfold to a tree that fits the limits, and then it gives the tree's data.
\<close>

section \<open>Trees\<close>

datatype ytree =
    YTScalar string "string option" bool
  | YTMapping "(string \<times> ytree) list"
  | YTSequence "ytree list"

inductive unfolds :: "yaml_document \<Rightarrow> nat \<Rightarrow> ytree \<Rightarrow> bool" for doc where
  unfolds_scalar: "yd_node doc n = YScalarNode s tag plain \<Longrightarrow> unfolds doc n (YTScalar s tag plain)"
| unfolds_mapping: "yd_node doc n = YMappingNode ps \<Longrightarrow> length ps \<le> int_max \<Longrightarrow>
    list_all2 (\<lambda>p kt. scalar_key doc (fst p) = Some (fst kt) \<and>
      (\<exists>c. yd_get doc (snd p) = Some c \<and> unfolds doc c (snd kt))) ps kts \<Longrightarrow>
    unfolds doc n (YTMapping kts)"
| unfolds_sequence: "yd_node doc n = YSequenceNode items \<Longrightarrow> length items \<le> int_max \<Longrightarrow>
    list_all2 (\<lambda>i t. \<exists>c. yd_get doc i = Some c \<and> unfolds doc c t) items ts \<Longrightarrow>
    unfolds doc n (YTSequence ts)"


fun yt_data :: "extraction \<Rightarrow> ytree \<Rightarrow> data option"
  and yt_members :: "extraction \<Rightarrow> (string \<times> ytree) list \<Rightarrow> (string \<times> data) list option"
  and yt_elements :: "extraction \<Rightarrow> ytree list \<Rightarrow> data list option" where
  "yt_data ex (YTScalar s tag plain) =
     (case scalar_data ex s tag plain of Inl e \<Rightarrow> None | Inr d \<Rightarrow> Some d)"
| "yt_data ex (YTMapping kts) =
     (case yt_members ex kts of None \<Rightarrow> None | Some kvs \<Rightarrow> Some (DMap (assoc_map.insert_all kvs [])))"
| "yt_data ex (YTSequence ts) = map_option DArray (yt_elements ex ts)"
| "yt_members ex [] = Some []"
| "yt_members ex ((k, t) # kts) =
     (case yt_data ex t of
        None \<Rightarrow> None | Some d \<Rightarrow> map_option (\<lambda>kvs. (k, d) # kvs) (yt_members ex kts))"
| "yt_elements ex [] = Some []"
| "yt_elements ex (t # ts) =
     (case yt_data ex t of None \<Rightarrow> None | Some d \<Rightarrow> map_option (\<lambda>ds. d # ds) (yt_elements ex ts))"

fun yt_height :: "ytree \<Rightarrow> nat"
  and yt_members_height :: "(string \<times> ytree) list \<Rightarrow> nat"
  and yt_elements_height :: "ytree list \<Rightarrow> nat" where
  "yt_height (YTScalar s tag plain) = 1"
| "yt_height (YTMapping kts) = Suc (yt_members_height kts)"
| "yt_height (YTSequence ts) = Suc (yt_elements_height ts)"
| "yt_members_height [] = 0"
| "yt_members_height ((k, t) # kts) = max (yt_height t) (yt_members_height kts)"
| "yt_elements_height [] = 0"
| "yt_elements_height (t # ts) = max (yt_height t) (yt_elements_height ts)"

fun yt_cost :: "ytree \<Rightarrow> parse_budget"
  and yt_members_cost :: "(string \<times> ytree) list \<Rightarrow> parse_budget"
  and yt_elements_cost :: "ytree list \<Rightarrow> parse_budget" where
  "yt_cost (YTScalar s tag plain) = cost 1 (length s) 0"
| "yt_cost (YTMapping kts) = spend (cost 1 0 (length kts)) (yt_members_cost kts)"
| "yt_cost (YTSequence ts) = spend (cost 1 0 (length ts)) (yt_elements_cost ts)"
| "yt_members_cost [] = cost 0 0 0"
| "yt_members_cost ((k, t) # kts) = spend (cost 0 (length k) 0) (spend (yt_cost t) (yt_members_cost kts))"
| "yt_elements_cost [] = cost 0 0 0"
| "yt_elements_cost (t # ts) = spend (yt_cost t) (yt_elements_cost ts)"

lemma yt_height_pos: "0 < yt_height t"
  by (cases t) simp_all

lemma yt_members_height_ge: "(k, t) \<in> set kts \<Longrightarrow> yt_height t \<le> yt_members_height kts"
  by (induction kts) auto

lemma yt_elements_height_ge: "t \<in> set ts \<Longrightarrow> yt_height t \<le> yt_elements_height ts"
  by (induction ts) auto

text \<open>A node unfolds to one tree at most.\<close>

lemma list_all2_unique:
  "list_all2 P xs ys \<Longrightarrow> list_all2 Q xs zs \<Longrightarrow> (\<And>x y z. P x y \<Longrightarrow> Q x z \<Longrightarrow> y = z) \<Longrightarrow> ys = zs"
proof (induction xs arbitrary: ys zs)
  case (Cons x xs)
  then show ?case by (auto simp: list_all2_Cons1)
qed simp

lemma unfolds_unique: "unfolds doc n t \<Longrightarrow> unfolds doc n t' \<Longrightarrow> t' = t"
proof (induction arbitrary: t' rule: unfolds.induct)
  case (unfolds_scalar n s tag plain)
  from unfolds_scalar(2,1) show ?case by (cases rule: unfolds.cases) auto
next
  case (unfolds_mapping n ps kts)
  from unfolds_mapping(4,1) obtain kts' where t': "t' = YTMapping kts'" and
    l: "list_all2 (\<lambda>p kt. scalar_key doc (fst p) = Some (fst kt) \<and>
      (\<exists>c. yd_get doc (snd p) = Some c \<and> unfolds doc c (snd kt))) ps kts'"
    by (cases rule: unfolds.cases) auto
  have "kts' = kts"
    by (rule list_all2_unique [OF l unfolds_mapping(3)]) (auto intro!: prod_eqI)
  then show ?case by (simp add: t')
next
  case (unfolds_sequence n items ts)
  from unfolds_sequence(4,1) obtain ts' where t': "t' = YTSequence ts'" and
    l: "list_all2 (\<lambda>i t. \<exists>c. yd_get doc i = Some c \<and> unfolds doc c t) items ts'"
    by (cases rule: unfolds.cases) auto
  have "ts' = ts"
    by (rule list_all2_unique [OF l unfolds_sequence(3)]) auto
  then show ?case by (simp add: t')
qed

section \<open>A tree's data fits when the tree does\<close>

lemma insert_all_height:
  "data_height (DMap (assoc_map.insert_all kvs m)) \<le>
     max (data_height (DMap m)) (Suc (foldr max (map (\<lambda>kv. data_height (snd kv)) kvs) 0))"
proof (induction kvs arbitrary: m)
  case (Cons kv kvs)
  obtain k v where kv: "kv = (k, v)" by (cases kv)
  show ?case
    using Cons [of "insert_or_assign k v m"] insert_or_assign_height [of k v m]
    by (simp add: kv del: data_height.simps)
qed simp

lemma insert_all_cost:
  "at_most (data_cost (DMap (assoc_map.insert_all kvs m)))
     (spend (data_cost (DMap m)) (total (map (\<lambda>kv. spend (cost 0 (length (fst kv)) 1) (data_cost (snd kv))) kvs)))"
proof (induction kvs arbitrary: m)
  case (Cons kv kvs)
  obtain k v where kv: "kv = (k, v)" by (cases kv)
  show ?case
    using Cons [of "insert_or_assign k v m"] insert_or_assign_cost [of k v m]
    by (auto simp: kv at_most_def simp del: data_cost.simps)
qed simp

lemma insert_all_ok:
  "data_ok (DMap m) \<Longrightarrow> list_all (\<lambda>kv. data_ok (snd kv)) kvs \<Longrightarrow> data_ok (DMap (assoc_map.insert_all kvs m))"
proof (induction kvs arbitrary: m)
  case (Cons kv kvs)
  obtain k v where kv: "kv = (k, v)" by (cases kv)
  show ?case
    using Cons.prems Cons.IH [OF insert_or_assign_ok] by (simp add: kv del: data_ok.simps)
qed simp

lemma parsedFloating_Inr: "parsedFloating x s = Inr d \<Longrightarrow> d = DDouble x s"
  by (auto simp: parsedFloating_def data_floating_def split: if_splits)

lemma floating_or_string_Inr:
  "floating_or_string f s = Inr d \<Longrightarrow> data_ok d \<and> data_height d = 1 \<and> at_most (data_cost d) (cost 1 (length s) 0)"
  by (auto simp: floating_or_string_def at_most_def dest!: parsedFloating_Inr split: option.splits)

lemma scalar_data_fits:
  "scalar_data ex s tag plain = Inr d \<Longrightarrow>
     data_ok d \<and> data_height d = 1 \<and> at_most (data_cost d) (cost 1 (length s) 0)"
  by (auto simp: scalar_data_def Let_def resolveTaggedScalar_def resolveScalar_def at_most_def
      split: if_splits option.splits integer_result.splits dest: floating_or_string_Inr)

lemma yt_fits:
  "yt_data ex t = Some d \<Longrightarrow> data_ok d \<and> data_height d \<le> yt_height t \<and> at_most (data_cost d) (yt_cost t)"
  "yt_members ex kts = Some kvs \<Longrightarrow> list_all (\<lambda>kv. data_ok (snd kv)) kvs
     \<and> foldr max (map (\<lambda>kv. data_height (snd kv)) kvs) 0 \<le> yt_members_height kts
     \<and> at_most (total (map (\<lambda>kv. spend (cost 0 (length (fst kv)) 1) (data_cost (snd kv))) kvs))
         (spend (cost 0 0 (length kts)) (yt_members_cost kts))"
  "yt_elements ex ts = Some ds \<Longrightarrow> list_all data_ok ds
     \<and> foldr max (map data_height ds) 0 \<le> yt_elements_height ts \<and> length ds = length ts
     \<and> at_most (total (map data_cost ds)) (yt_elements_cost ts)"
proof (induction ex t and ex kts and ex ts arbitrary: d and kvs and ds
    rule: yt_data_yt_members_yt_elements.induct)
  case (1 ex s tag plain)
  then show ?case using scalar_data_fits [of ex s tag plain d] by (auto split: sum.splits)
next
  case (2 ex kts)
  then obtain kvs where kvs: "yt_members ex kts = Some kvs" and d: "d = DMap (assoc_map.insert_all kvs [])"
    by (auto split: option.splits)
  show ?case
    using 2(1) [OF kvs] insert_all_height [of kvs "[]"] insert_all_cost [of kvs "[]"] insert_all_ok [of "[]" kvs]
    by (auto simp: d at_most_def)
next
  case (3 ex ts)
  then show ?case by (auto simp: at_most_def)
next
  case (5 ex k t kts)
  then show ?case by (fastforce simp: at_most_def split: option.splits)
next
  case (7 ex t ts)
  then show ?case by (fastforce simp: at_most_def split: option.splits)
qed simp_all

section \<open>A conversion that succeeds unfolds its node\<close>

interpretation yaml_build_budget: budget_holder yb_charge yb_budget "\<lambda>b s. s\<lparr>yb_budget := b\<rparr>"
  by unfold_locales (auto simp: yb_charge_def)

definition spent :: "parse_budget \<Rightarrow> yaml_build \<Rightarrow> yaml_build" where
  "spent c s = s\<lparr>yb_budget := spend (yb_budget s) c\<rparr>"

lemma spent_simps [simp]:
  "yb_budget (spent c s) = spend (yb_budget s) c" "yb_active (spent c s) = yb_active s"
  "spent d (spent c s) = spent (spend c d) s" "spent (cost 0 0 0) s = s"
  by (simp_all add: spent_def)

lemma spent_active: "(spent c s)\<lparr>yb_active := A\<rparr> = spent c (s\<lparr>yb_active := A\<rparr>)"
  by (simp add: spent_def)

lemma with_active_Inr:
  "with_active n m s = (Inr d, t) \<longleftrightarrow> n \<notin> yb_active s \<and>
     (\<exists>u. m (s\<lparr>yb_active := insert n (yb_active s)\<rparr>) = (Inr d, u) \<and> t = u\<lparr>yb_active := yb_active u - {n}\<rparr>)"
  by (auto simp: with_active_def then_eff_Inr_iff on_exit_eq_iff)

definition pair_unfolds :: "yaml_document \<Rightarrow> int \<times> int \<Rightarrow> string \<times> ytree \<Rightarrow> bool" where
  "pair_unfolds doc p kt \<longleftrightarrow> scalar_key doc (fst p) = Some (fst kt) \<and>
     (\<exists>c. yd_get doc (snd p) = Some c \<and> unfolds doc c (snd kt))"

definition item_unfolds :: "yaml_document \<Rightarrow> int \<Rightarrow> ytree \<Rightarrow> bool" where
  "item_unfolds doc i t \<longleftrightarrow> (\<exists>c. yd_get doc i = Some c \<and> unfolds doc c t)"

definition child_sound ::
  "parse_limits \<Rightarrow> extraction \<Rightarrow> yaml_document \<Rightarrow> (nat option \<Rightarrow> data yb) \<Rightarrow> nat \<Rightarrow> bool" where
  "child_sound limits ex doc child k \<longleftrightarrow> (\<forall>c s d t. budget_within limits (yb_budget s) \<longrightarrow>
     child c s = (Inr d, t) \<longrightarrow>
     (\<exists>n tr. c = Some n \<and> unfolds doc n tr \<and> yt_data ex tr = Some d \<and> k + yt_height tr \<le> depth_cap limits \<and>
        budget_within limits (spend (yb_budget s) (yt_cost tr)) \<and> t = spent (yt_cost tr) s))"

lemma child_soundE:
  assumes "child_sound limits ex doc child k" and "budget_within limits (yb_budget s)" and "child c s = (Inr d, t)"
  obtains n tr where "c = Some n" and "unfolds doc n tr" and "yt_data ex tr = Some d"
    and "k + yt_height tr \<le> depth_cap limits"
    and "budget_within limits (spend (yb_budget s) (yt_cost tr))" and "t = spent (yt_cost tr) s"
  using assms unfolding child_sound_def by blast

lemma data_set_map: "data_set k v (DMap m) = Inr (DMap (insert_or_assign k v m))"
  by (simp add: data_set_def objectItems_def requireStorage_def)

lemma data_push_array: "data_push_back v (DArray ds) = Inr (DArray (ds @ [v]))"
  by (simp add: data_push_back_def)

lemma mapping_loop_sound:
  assumes "child_sound limits ex doc child k" and "k \<le> depth_cap limits"
  shows "budget_within limits (yb_budget s) \<Longrightarrow> mapping_loop limits doc child ps (DMap m) s = (Inr d, t) \<Longrightarrow>
    \<exists>kts kvs. list_all2 (pair_unfolds doc) ps kts \<and> yt_members ex kts = Some kvs \<and>
      d = DMap (assoc_map.insert_all kvs m) \<and> k + yt_members_height kts \<le> depth_cap limits \<and>
      budget_within limits (spend (yb_budget s) (yt_members_cost kts)) \<and> t = spent (yt_members_cost kts) s"
proof (induction ps arbitrary: m s)
  case Nil
  then show ?case using assms(2) by auto
next
  case (Cons p ps)
  obtain i j where p: "p = (i, j)" by (cases p)
  obtain key where key: "scalar_key doc i = Some key"
    using Cons.prems(2) by (auto simp: p split: option.splits)
  define s1 where "s1 = spent (cost 0 (length key) 0) s"
  obtain v s2 where w1: "budget_within limits (yb_budget s1)" and child: "child (yd_get doc j) s1 = (Inr v, s2)"
    and rest: "mapping_loop limits doc child ps (DMap (insert_or_assign key v m)) s2 = (Inr d, t)"
    using Cons.prems
    by (auto simp: p key then_eff_Inr_iff bind_eff_Inr_iff yaml_build_budget.charge_string data_set_map
        s1_def spent_def)
  obtain n tr where tr: "yd_get doc j = Some n" "unfolds doc n tr" "yt_data ex tr = Some v"
      "k + yt_height tr \<le> depth_cap limits" "budget_within limits (spend (yb_budget s1) (yt_cost tr))"
      "s2 = spent (yt_cost tr) s1"
    by (rule child_soundE [OF assms(1) w1 child])
  have "budget_within limits (yb_budget s2)" using tr by simp
  from Cons.IH [OF this rest] obtain kts kvs where kts: "list_all2 (pair_unfolds doc) ps kts"
      "yt_members ex kts = Some kvs" "d = DMap (assoc_map.insert_all kvs (insert_or_assign key v m))"
      "k + yt_members_height kts \<le> depth_cap limits"
      "budget_within limits (spend (yb_budget s2) (yt_members_cost kts))" "t = spent (yt_members_cost kts) s2"
    by blast
  have "pair_unfolds doc p (key, tr)" using tr key by (simp add: p pair_unfolds_def)
  then show ?case
    by (intro exI [of _ "(key, tr) # kts"] exI [of _ "(key, v) # kvs"])
      (use kts tr in \<open>auto simp: s1_def\<close>)
qed

lemma sequence_loop_sound:
  assumes "child_sound limits ex doc child k" and "k \<le> depth_cap limits"
  shows "budget_within limits (yb_budget s) \<Longrightarrow> sequence_loop doc child is (DArray ds) s = (Inr d, t) \<Longrightarrow>
    \<exists>ts es. list_all2 (item_unfolds doc) is ts \<and> yt_elements ex ts = Some es \<and>
      d = DArray (ds @ es) \<and> k + yt_elements_height ts \<le> depth_cap limits \<and>
      budget_within limits (spend (yb_budget s) (yt_elements_cost ts)) \<and> t = spent (yt_elements_cost ts) s"
proof (induction "is" arbitrary: ds s)
  case Nil
  then show ?case using assms(2) by auto
next
  case (Cons i "is")
  obtain v s2 where child: "child (yd_get doc i) s = (Inr v, s2)"
    and rest: "sequence_loop doc child is (DArray (ds @ [v])) s2 = (Inr d, t)"
    using Cons.prems by (auto simp: bind_eff_Inr_iff data_push_array)
  obtain n tr where tr: "yd_get doc i = Some n" "unfolds doc n tr" "yt_data ex tr = Some v"
      "k + yt_height tr \<le> depth_cap limits" "budget_within limits (spend (yb_budget s) (yt_cost tr))"
      "s2 = spent (yt_cost tr) s"
    by (rule child_soundE [OF assms(1) Cons.prems(1) child])
  have "budget_within limits (yb_budget s2)" using tr by simp
  from Cons.IH [OF this rest] obtain ts es where ts: "list_all2 (item_unfolds doc) is ts"
      "yt_elements ex ts = Some es" "d = DArray ((ds @ [v]) @ es)"
      "k + yt_elements_height ts \<le> depth_cap limits"
      "budget_within limits (spend (yb_budget s2) (yt_elements_cost ts))" "t = spent (yt_elements_cost ts) s2"
    by blast
  have "item_unfolds doc i tr" using tr by (auto simp: item_unfolds_def)
  then show ?case
    by (intro exI [of _ "tr # ts"] exI [of _ "v # es"]) (use ts tr in auto)
qed

lemma unfolds_mapping_pairs:
  "yd_node doc n = YMappingNode ps \<Longrightarrow> length ps \<le> int_max \<Longrightarrow> list_all2 (pair_unfolds doc) ps kts \<Longrightarrow>
     unfolds doc n (YTMapping kts)"
  by (rule unfolds_mapping) (auto simp: pair_unfolds_def [abs_def])

lemma unfolds_sequence_items:
  "yd_node doc n = YSequenceNode items \<Longrightarrow> length items \<le> int_max \<Longrightarrow>
     list_all2 (item_unfolds doc) items ts \<Longrightarrow> unfolds doc n (YTSequence ts)"
  by (rule unfolds_sequence) (auto simp: item_unfolds_def [abs_def])

lemma makeStorage_containers: "makeStorage 3 (int n) = Inr (DMap [])" "makeStorage 4 (int n) = Inr (DArray [])"
  by (simp_all add: makeStorage_def)

text \<open>The value itself, its node being charged.\<close>

lemma create_switch_sound:
  assumes child: "child_sound limits ex doc child (Suc depth)" and depth: "depth < depth_cap limits"
    and w: "budget_within limits (yb_budget (spent (cost 1 0 0) s))"
    and run: "create_switch limits ex doc child n (spent (cost 1 0 0) s) = (Inr d, t)"
  shows "\<exists>tr. unfolds doc n tr \<and> yt_data ex tr = Some d \<and> depth + yt_height tr \<le> depth_cap limits \<and>
    budget_within limits (spend (yb_budget s) (yt_cost tr)) \<and> t = spent (yt_cost tr) s"
proof (cases "yd_node doc n")
  case (YScalarNode x tag plain)
  then have "scalar_data ex x tag plain = Inr d" and "budget_within limits (spend (yb_budget s) (cost 1 (length x) 0))"
    and "t = spent (cost 1 (length x) 0) s"
    using run w by (auto simp: create_switch_def then_eff_Inr_iff yaml_build_budget.charge_string spent_def)
  then show ?thesis using unfolds_scalar [OF YScalarNode] depth by (intro exI [of _ "YTScalar x tag plain"]) simp
next
  case (YMappingNode ps)
  let ?s = "spent (cost 1 0 (length ps)) s"
  have w1: "budget_within limits (yb_budget ?s)" and len: "length ps \<le> int_max"
    and loop: "mapping_loop limits doc child ps (DMap []) ?s = (Inr d, t)"
    using run w YMappingNode
    by (auto simp: create_switch_def then_eff_Inr_iff bind_eff_Inr_iff yaml_build_budget.charge_entries
        makeStorage_containers spent_def)
  from mapping_loop_sound [OF child _ w1 loop] depth obtain kts kvs where
    kts: "list_all2 (pair_unfolds doc) ps kts" "yt_members ex kts = Some kvs"
      "d = DMap (assoc_map.insert_all kvs [])" "Suc depth + yt_members_height kts \<le> depth_cap limits"
      "budget_within limits (spend (yb_budget ?s) (yt_members_cost kts))" "t = spent (yt_members_cost kts) ?s"
    by auto
  have "length kts = length ps" using kts(1) by (simp add: list_all2_lengthD)
  with kts show ?thesis
    using unfolds_mapping_pairs [OF YMappingNode len kts(1)] by (intro exI [of _ "YTMapping kts"]) simp
next
  case (YSequenceNode items)
  let ?s = "spent (cost 1 0 (length items)) s"
  have w1: "budget_within limits (yb_budget ?s)" and len: "length items \<le> int_max"
    and loop: "sequence_loop doc child items (DArray []) ?s = (Inr d, t)"
    using run w YSequenceNode
    by (auto simp: create_switch_def then_eff_Inr_iff bind_eff_Inr_iff yaml_build_budget.charge_entries
        makeStorage_containers spent_def)
  from sequence_loop_sound [OF child _ w1 loop] depth obtain ts es where
    ts: "list_all2 (item_unfolds doc) items ts" "yt_elements ex ts = Some es" "d = DArray es"
      "Suc depth + yt_elements_height ts \<le> depth_cap limits"
      "budget_within limits (spend (yb_budget ?s) (yt_elements_cost ts))" "t = spent (yt_elements_cost ts) ?s"
    by auto
  have "length ts = length items" using ts(1) by (simp add: list_all2_lengthD)
  with ts show ?thesis
    using unfolds_sequence_items [OF YSequenceNode len ts(1)] by (intro exI [of _ "YTSequence ts"]) simp
next
  case YOtherNode
  with run show ?thesis by (simp add: create_switch_def)
qed

lemma create_body_sound:
  assumes child: "child_sound limits ex doc child (Suc depth)"
    and w: "budget_within limits (yb_budget s)" and run: "create_body limits ex doc child c depth s = (Inr d, t)"
  shows "\<exists>n tr. c = Some n \<and> unfolds doc n tr \<and> yt_data ex tr = Some d \<and>
    depth + yt_height tr \<le> depth_cap limits \<and>
    budget_within limits (spend (yb_budget s) (yt_cost tr)) \<and> t = spent (yt_cost tr) s"
proof (cases c)
  case (Some n)
  let ?s = "s\<lparr>yb_active := insert n (yb_active s)\<rparr>"
  obtain u where depth: "depth < depth_cap limits" and w1: "budget_within limits (yb_budget (spent (cost 1 0 0) ?s))"
    and n: "n \<notin> yb_active s"
    and raw: "create_switch limits ex doc child n
        ((spent (cost 1 0 0) s)\<lparr>yb_active := insert n (yb_active s)\<rparr>) = (Inr d, u)"
    and t: "t = u\<lparr>yb_active := yb_active u - {n}\<rparr>"
    using run w
    by (auto simp: Some create_body_def then_eff_Inr_iff yaml_build_budget.charge_node with_active_Inr spent_def)
  from raw have sw: "create_switch limits ex doc child n (spent (cost 1 0 0) ?s) = (Inr d, u)"
    by (simp only: spent_active)
  from create_switch_sound [OF child depth w1 sw] obtain tr where
    "unfolds doc n tr" "yt_data ex tr = Some d" "depth + yt_height tr \<le> depth_cap limits"
    "budget_within limits (spend (yb_budget s) (yt_cost tr))" "u = spent (yt_cost tr) ?s"
    by auto
  then show ?thesis using n by (auto simp: Some t spent_def)
qed (use run in \<open>simp add: create_body_def\<close>)

lemma create_level_sound:
  "child_sound limits ex doc (\<lambda>c. create_level m limits ex doc c depth) depth"
proof (induction m arbitrary: depth)
  case 0
  then show ?case by (simp add: child_sound_def)
next
  case (Suc m)
  have child: "child_sound limits ex doc (\<lambda>c. create_level m limits ex doc c (depth + 1)) (Suc depth)"
    using Suc [of "depth + 1"] by simp
  show ?case
    unfolding child_sound_def create_level.simps
    by (intro allI impI) (rule create_body_sound [OF child])
qed

section \<open>A node that unfolds to a tree that fits is converted\<close>

text \<open>
  The nodes that are active while a node is converted unfold to higher trees, so none of them
  is met again.
\<close>

definition above :: "yaml_document \<Rightarrow> nat set \<Rightarrow> nat \<Rightarrow> bool" where
  "above doc A h \<longleftrightarrow> (\<forall>a\<in>A. \<forall>ta. unfolds doc a ta \<longrightarrow> h < yt_height ta)"

definition child_complete ::
  "parse_limits \<Rightarrow> extraction \<Rightarrow> yaml_document \<Rightarrow> (nat option \<Rightarrow> data yb) \<Rightarrow> nat \<Rightarrow> bool" where
  "child_complete limits ex doc child k \<longleftrightarrow> (\<forall>n tr s d. unfolds doc n tr \<longrightarrow> yt_data ex tr = Some d \<longrightarrow>
     k + yt_height tr \<le> depth_cap limits \<longrightarrow> budget_within limits (spend (yb_budget s) (yt_cost tr)) \<longrightarrow>
     above doc (yb_active s) (yt_height tr) \<longrightarrow> child (Some n) s = (Inr d, spent (yt_cost tr) s))"

lemma above_mono: "above doc A h \<Longrightarrow> h' \<le> h \<Longrightarrow> above doc A h'"
  by (auto simp: above_def dest: le_less_trans)

lemma mapping_loop_complete:
  assumes "child_complete limits ex doc child k"
  shows "list_all2 (pair_unfolds doc) ps kts \<Longrightarrow> yt_members ex kts = Some kvs \<Longrightarrow>
    k + yt_members_height kts \<le> depth_cap limits \<Longrightarrow>
    budget_within limits (spend (yb_budget s) (yt_members_cost kts)) \<Longrightarrow>
    above doc (yb_active s) (yt_members_height kts) \<Longrightarrow>
    mapping_loop limits doc child ps (DMap m) s =
      (Inr (DMap (assoc_map.insert_all kvs m)), spent (yt_members_cost kts) s)"
proof (induction ps kts arbitrary: m s kvs rule: list_all2_induct)
  case (Cons p ps kt kts)
  obtain i j where p: "p = (i, j)" by (cases p)
  obtain key tr where kt: "kt = (key, tr)" by (cases kt)
  obtain v kvs' where v: "yt_data ex tr = Some v" "yt_members ex kts = Some kvs'" "kvs = (key, v) # kvs'"
    using Cons.prems(1) by (auto simp: kt split: option.splits)
  obtain c where key: "scalar_key doc i = Some key" and c: "yd_get doc j = Some c" "unfolds doc c tr"
    using Cons.hyps(1) by (auto simp: pair_unfolds_def p kt)
  let ?s1 = "spent (cost 0 (length key) 0) s" and ?s2 = "spent (spend (cost 0 (length key) 0) (yt_cost tr)) s"
  have w: "budget_within limits (spend (yb_budget s) (cost 0 (length key) 0))" "budget_within limits (yb_budget s)"
      "budget_within limits (spend (yb_budget ?s1) (yt_cost tr))"
    using Cons.prems(3) by (auto simp: kt budget_within_def)
  have ch: "yb_charge (addString limits ''YAML'' (length key)) s = (Inr (), ?s1)"
    using w by (simp add: yaml_build_budget.charge_string spent_def)
  have hs: "yt_height tr \<le> yt_members_height (kt # kts)" "yt_members_height kts \<le> yt_members_height (kt # kts)"
    by (simp_all add: kt)
  have child: "child (yd_get doc j) ?s1 = (Inr v, ?s2)"
    using assms c v w Cons.prems(2,4) hs above_mono [of doc "yb_active s" _ "yt_height tr"]
    by (auto simp: child_complete_def kt)
  have "mapping_loop limits doc child ps (DMap (insert_or_assign key v m)) ?s2 =
      (Inr (DMap (assoc_map.insert_all kvs' (insert_or_assign key v m))), spent (yt_members_cost kts) ?s2)"
    using Cons.IH [OF v(2)] Cons.prems(2,3,4) hs above_mono by (auto simp: kt)
  then show ?case
    using ch child by (simp add: p key kt v(3) then_eff_def bind_eff_def lift_result_def data_set_map)
qed (simp add: eff_defs)

lemma sequence_loop_complete:
  assumes "child_complete limits ex doc child k"
  shows "list_all2 (item_unfolds doc) is ts \<Longrightarrow> yt_elements ex ts = Some es \<Longrightarrow>
    k + yt_elements_height ts \<le> depth_cap limits \<Longrightarrow>
    budget_within limits (spend (yb_budget s) (yt_elements_cost ts)) \<Longrightarrow>
    above doc (yb_active s) (yt_elements_height ts) \<Longrightarrow>
    sequence_loop doc child is (DArray ds) s = (Inr (DArray (ds @ es)), spent (yt_elements_cost ts) s)"
proof (induction "is" ts arbitrary: ds s es rule: list_all2_induct)
  case (Cons i "is" tr ts)
  obtain v es' where v: "yt_data ex tr = Some v" "yt_elements ex ts = Some es'" "es = v # es'"
    using Cons.prems(1) by (auto split: option.splits)
  obtain c where c: "yd_get doc i = Some c" "unfolds doc c tr"
    using Cons.hyps(1) by (auto simp: item_unfolds_def)
  have w: "budget_within limits (spend (yb_budget s) (yt_cost tr))"
    using Cons.prems(3) by (auto simp: budget_within_def)
  have hs: "yt_height tr \<le> yt_elements_height (tr # ts)" "yt_elements_height ts \<le> yt_elements_height (tr # ts)"
    by simp_all
  have child: "child (yd_get doc i) s = (Inr v, spent (yt_cost tr) s)"
    using assms c v w Cons.prems(2,4) hs above_mono [of doc "yb_active s" _ "yt_height tr"]
    by (auto simp: child_complete_def)
  have "sequence_loop doc child is (DArray (ds @ [v])) (spent (yt_cost tr) s) =
      (Inr (DArray ((ds @ [v]) @ es')), spent (yt_elements_cost ts) (spent (yt_cost tr) s))"
    using Cons.IH [OF v(2)] Cons.prems(2,3,4) hs above_mono by auto
  then show ?case
    using child by (simp add: v(3) bind_eff_def lift_result_def data_push_array)
qed (simp add: eff_defs)

lemma create_switch_complete:
  assumes child: "child_complete limits ex doc child (Suc depth)" and unf: "unfolds doc n tr"
    and data: "yt_data ex tr = Some d" and height: "depth + yt_height tr \<le> depth_cap limits"
    and w: "budget_within limits (spend (yb_budget s) (yt_cost tr))"
    and ab: "above doc (yb_active s) (yt_height tr - 1)"
  shows "create_switch limits ex doc child n (spent (cost 1 0 0) s) = (Inr d, spent (yt_cost tr) s)"
  using unf
proof (cases rule: unfolds.cases)
  case (unfolds_scalar x tag plain)
  then have "yb_charge (addString limits ''YAML'' (length x)) (spent (cost 1 0 0) s) =
      (Inr (), spent (cost 1 (length x) 0) s)"
    using w by (subst yaml_build_budget.charge_string) (auto simp: budget_within_def spent_def)
  with unfolds_scalar show ?thesis
    using data by (auto simp: create_switch_def then_eff_def bind_eff_def lift_result_def split: sum.splits)
next
  case (unfolds_mapping ps kts)
  have pairs: "list_all2 (pair_unfolds doc) ps kts"
    using unfolds_mapping(4) by (simp add: pair_unfolds_def [abs_def])
  obtain kvs where kvs: "yt_members ex kts = Some kvs" and d: "d = DMap (assoc_map.insert_all kvs [])"
    using data unfolds_mapping by (auto split: option.splits)
  have len: "length kts = length ps" using pairs by (simp add: list_all2_lengthD)
  have ch: "yb_charge (addContainerEntries limits ''YAML'' (length ps)) (spent (cost 1 0 0) s) =
      (Inr (), spent (cost 1 0 (length ps)) s)"
    using w unfolds_mapping(1) len
    by (subst yaml_build_budget.charge_entries) (auto simp: budget_within_def spent_def)
  have "mapping_loop limits doc child ps (DMap []) (spent (cost 1 0 (length ps)) s) =
      (Inr d, spent (yt_members_cost kts) (spent (cost 1 0 (length ps)) s))"
    unfolding d
    by (rule mapping_loop_complete [OF child pairs kvs]) (use height w ab unfolds_mapping len in auto)
  then show ?thesis
    using unfolds_mapping len ch
    by (simp add: create_switch_def then_eff_def bind_eff_def lift_result_def throw_when_def makeStorage_containers)
next
  case (unfolds_sequence items ts)
  have pairs: "list_all2 (item_unfolds doc) items ts"
    using unfolds_sequence(4) by (simp add: item_unfolds_def [abs_def])
  obtain es where es: "yt_elements ex ts = Some es" and d: "d = DArray ([] @ es)"
    using data unfolds_sequence by auto
  have len: "length ts = length items" using pairs by (simp add: list_all2_lengthD)
  have ch: "yb_charge (addContainerEntries limits ''YAML'' (length items)) (spent (cost 1 0 0) s) =
      (Inr (), spent (cost 1 0 (length items)) s)"
    using w unfolds_sequence(1) len
    by (subst yaml_build_budget.charge_entries) (auto simp: budget_within_def spent_def)
  have "sequence_loop doc child items (DArray []) (spent (cost 1 0 (length items)) s) =
      (Inr d, spent (yt_elements_cost ts) (spent (cost 1 0 (length items)) s))"
    unfolding d
    by (rule sequence_loop_complete [OF child pairs es]) (use height w ab unfolds_sequence len in auto)
  then show ?thesis
    using unfolds_sequence len ch
    by (simp add: create_switch_def then_eff_def bind_eff_def lift_result_def throw_when_def makeStorage_containers)
qed

lemma create_body_complete:
  assumes child: "child_complete limits ex doc child (Suc depth)" and unf: "unfolds doc n tr"
    and data: "yt_data ex tr = Some d" and height: "depth + yt_height tr \<le> depth_cap limits"
    and w: "budget_within limits (spend (yb_budget s) (yt_cost tr))"
    and ab: "above doc (yb_active s) (yt_height tr)"
  shows "create_body limits ex doc child (Some n) depth s = (Inr d, spent (yt_cost tr) s)"
proof -
  let ?s = "s\<lparr>yb_active := insert n (yb_active s)\<rparr>"
  have n: "n \<notin> yb_active s" using ab unf by (auto simp: above_def)
  have node: "1 \<le> pb_nodes (yt_cost tr)" by (cases tr) simp_all
  have ch: "yb_charge (addNode limits ''YAML'' depth) s = (Inr (), spent (cost 1 0 0) s)"
    using w height node yt_height_pos [of tr]
    by (subst yaml_build_budget.charge_node) (auto simp: budget_within_def spent_def)
  have "above doc (yb_active ?s) (yt_height tr - 1)"
    using ab unfolds_unique [OF unf] yt_height_pos [of tr] by (auto simp: above_def intro: less_imp_diff_less)
  then have "create_switch limits ex doc child n (spent (cost 1 0 0) ?s) = (Inr d, spent (yt_cost tr) ?s)"
    using create_switch_complete [OF child unf data height, of ?s] w by simp
  then have "with_active n (create_switch limits ex doc child n) (spent (cost 1 0 0) s) =
      (Inr d, spent (yt_cost tr) s)"
    using n by (simp add: with_active_Inr spent_active)
  then show ?thesis using ch by (simp add: create_body_def then_eff_def bind_eff_def)
qed

lemma create_level_complete:
  "parseNestingCeiling < m + depth \<Longrightarrow>
     child_complete limits ex doc (\<lambda>c. create_level m limits ex doc c depth) depth"
proof (induction m arbitrary: depth)
  case 0
  then show ?case using yt_height_pos by (auto simp: child_complete_def depth_cap_def)
next
  case (Suc m)
  have child: "child_complete limits ex doc (\<lambda>c. create_level m limits ex doc c (depth + 1)) (Suc depth)"
    using Suc.IH [of "depth + 1"] Suc.prems by simp
  show ?case
    unfolding child_complete_def create_level.simps
    by (intro allI impI) (rule create_body_complete [OF child])
qed

text \<open>Both directions, for the root.\<close>

definition root_build :: yaml_build where
  "root_build = \<lparr>yb_budget = new_budget, yb_active = {}\<rparr>"

lemma createFromNode_root:
  "fst (createFromNode limits ex doc (Some n) 0 root_build) = Inr d \<longleftrightarrow>
     (\<exists>tr. unfolds doc n tr \<and> yt_data ex tr = Some d \<and> yt_height tr \<le> depth_cap limits \<and>
        budget_within limits (yt_cost tr))"
proof
  assume "fst (createFromNode limits ex doc (Some n) 0 root_build) = Inr d"
  then obtain t where "create_level (parseNestingCeiling + 1) limits ex doc (Some n) 0 root_build = (Inr d, t)"
    by (cases "createFromNode limits ex doc (Some n) 0 root_build") (auto simp: createFromNode_def)
  from child_soundE [OF create_level_sound _ this]
  show "\<exists>tr. unfolds doc n tr \<and> yt_data ex tr = Some d \<and> yt_height tr \<le> depth_cap limits \<and>
        budget_within limits (yt_cost tr)"
    by (auto simp: root_build_def)
next
  assume "\<exists>tr. unfolds doc n tr \<and> yt_data ex tr = Some d \<and> yt_height tr \<le> depth_cap limits \<and>
        budget_within limits (yt_cost tr)"
  then obtain tr where "unfolds doc n tr" "yt_data ex tr = Some d" "yt_height tr \<le> depth_cap limits"
    "budget_within limits (yt_cost tr)" by blast
  with create_level_complete [of "parseNestingCeiling + 1" 0 limits ex doc]
  have "create_level (parseNestingCeiling + 1) limits ex doc (Some n) 0 root_build = (Inr d, spent (yt_cost tr) root_build)"
    unfolding child_complete_def by (auto simp: root_build_def above_def)
  then show "fst (createFromNode limits ex doc (Some n) 0 root_build) = Inr d"
    by (simp add: createFromNode_def)
qed

lemma fromYAML_Inr_iff:
  "fromYAML (Some ly) ex input limits = Inr d \<longleftrightarrow>
     checkInputSize input limits ''YAML'' = Inr () \<and> preflightYAML ly input limits = Inr () \<and>
     ly_initialize_again ly \<and>
     (\<exists>doc root trailing tr. ly_load ly input = Some doc \<and> yd_root doc = Some root \<and>
        ly_load_next ly input = Some trailing \<and> yd_root trailing = None \<and>
        unfolds doc root tr \<and> yt_data ex tr = Some d \<and> yt_height tr \<le> depth_cap limits \<and>
        budget_within limits (yt_cost tr))"
proof -
  have "convert_document ly ex input limits = Inr d \<longleftrightarrow>
      (\<exists>doc root trailing. ly_load ly input = Some doc \<and> yd_root doc = Some root \<and>
        ly_load_next ly input = Some trailing \<and> yd_root trailing = None \<and>
        fst (createFromNode limits ex doc (Some root) 0 root_build) = Inr d)"
    by (auto simp: convert_document_def root_build_def bind_result_Inr_iff split: option.splits if_splits)
  then show ?thesis by (auto simp: fromYAML_def bind_result_Inr_iff createFromNode_root)
qed

section \<open>Reachable nodes\<close>

definition yaml_child :: "yaml_document \<Rightarrow> nat \<Rightarrow> nat \<Rightarrow> bool" where
  "yaml_child doc a b \<longleftrightarrow>
     (case yd_node doc a of
        YMappingNode ps \<Rightarrow> \<exists>p\<in>set ps. yd_get doc (snd p) = Some b
      | YSequenceNode items \<Rightarrow> \<exists>i\<in>set items. yd_get doc i = Some b
      | _ \<Rightarrow> False)"

lemma list_all2_left: "list_all2 P xs ys \<Longrightarrow> x \<in> set xs \<Longrightarrow> \<exists>y\<in>set ys. P x y"
  by (induction rule: list_all2_induct) auto

lemma unfolds_child:
  assumes "unfolds doc a ta" and "yaml_child doc a b"
  shows "\<exists>tb. unfolds doc b tb \<and> yt_height tb < yt_height ta"
  using assms(1)
proof (cases rule: unfolds.cases)
  case (unfolds_mapping ps kts)
  then obtain p where p: "p \<in> set ps" "yd_get doc (snd p) = Some b"
    using assms(2) by (auto simp: yaml_child_def)
  from list_all2_left [OF unfolds_mapping(4) p(1)] obtain k t where
    "(k, t) \<in> set kts" "unfolds doc b t" using p(2) by auto
  then show ?thesis using yt_members_height_ge [of k t kts] unfolds_mapping(1) by (auto intro: le_imp_less_Suc)
next
  case (unfolds_sequence items ts)
  then obtain i where i: "i \<in> set items" "yd_get doc i = Some b"
    using assms(2) by (auto simp: yaml_child_def)
  from list_all2_left [OF unfolds_sequence(4) i(1)] obtain t where
    "t \<in> set ts" "unfolds doc b t" using i(2) by auto
  then show ?thesis using yt_elements_height_ge [of t ts] unfolds_sequence(1) by (auto intro: le_imp_less_Suc)
qed (use assms(2) in \<open>auto simp: yaml_child_def\<close>)

lemma unfolds_descendant:
  "(yaml_child doc)\<^sup>+\<^sup>+ a b \<Longrightarrow> unfolds doc a ta \<Longrightarrow> \<exists>tb. unfolds doc b tb \<and> yt_height tb < yt_height ta"
proof (induction arbitrary: ta rule: tranclp_induct)
  case (base b)
  then show ?case using unfolds_child by blast
next
  case (step b c)
  then obtain tb where "unfolds doc b tb" "yt_height tb < yt_height ta" by blast
  with step.hyps(2) unfolds_child show ?case by (meson less_trans)
qed

lemma unfolds_no_cycle: "unfolds doc a ta \<Longrightarrow> \<not> (yaml_child doc)\<^sup>+\<^sup>+ a a"
  using unfolds_descendant unfolds_unique by blast

section \<open>What the parser returns\<close>

text \<open>
  C8. The YAML parser returns data exactly when the size check and the preflight pass, the
  first document has a root and the second none, and the root unfolds, aliases copied, to a
  finite tree that fits the nesting limit, the ceiling and the budget; and the data is then
  that of the tree.
\<close>

theorem fromYAML_of_document:
  "(fromYAML (Some ly) ex input limits = Inr d) =
     (checkInputSize input limits ''YAML'' = Inr () \<and> preflightYAML ly input limits = Inr () \<and>
      ly_initialize_again ly \<and>
      (\<exists>doc root trailing tr. ly_load ly input = Some doc \<and> yd_root doc = Some root \<and>
         ly_load_next ly input = Some trailing \<and> yd_root trailing = None \<and>
         unfolds doc root tr \<and> yt_data ex tr = Some d \<and> yt_height tr \<le> depth_cap limits \<and>
         budget_within limits (yt_cost tr)))"
  by (rule fromYAML_Inr_iff)

text \<open>
  C20. The data a successful YAML parse returns has one value per key at each level, is no
  deeper than the limit and the ceiling of 256, and its nodes, string bytes and container
  entries are within the limits, expanded aliases counted.
\<close>

theorem fromYAML_within_limits:
  assumes "fromYAML lib ex input limits = Inr d"
  shows "length input \<le> pl_maxInputBytes limits \<and> data_ok d
    \<and> data_height d \<le> min (pl_maxNestingDepth limits) 256 \<and> budget_within limits (data_cost d)"
proof -
  obtain ly where ly: "lib = Some ly" using assms by (cases lib) (auto simp: fromYAML_def)
  obtain tr where size: "checkInputSize input limits ''YAML'' = Inr ()"
    and tr: "yt_data ex tr = Some d" "yt_height tr \<le> depth_cap limits" "budget_within limits (yt_cost tr)"
    using assms unfolding ly fromYAML_Inr_iff by blast
  show ?thesis
    using size tr(2,3) yt_fits(1) [OF tr(1)] at_most_within
    by (auto simp: checkInputSize_def depth_cap_def parseNestingCeiling_def split: if_splits)
qed

theorem fromYAML_within_limits_witness:
  "data_height (DArray [DBoolean True]) \<le> 32 \<and> budget_within default_parse_limits (data_cost (DArray [DBoolean True]))"
proof -
  let ?doc = "\<lparr>yd_root = Some 1, yd_get = (\<lambda>i. Some (nat i)),
      yd_node = (\<lambda>n. if n = 1 then YSequenceNode [2] else YScalarNode ''yes'' None True)\<rparr>"
  let ?ly = "\<lparr>ly_initialize = True, ly_initialize_again = True,
      ly_events = (\<lambda>_. [YStreamStart, YDocumentStart, YSequenceStart, YScalar 3, YSequenceEnd,
        YDocumentEnd, YStreamEnd]),
      ly_load = (\<lambda>_. Some ?doc), ly_load_next = (\<lambda>_. Some (?doc\<lparr>yd_root := None\<rparr>))\<rparr>"
  have "unfolds ?doc 2 (YTScalar ''yes'' None True)" by (rule unfolds_scalar) simp
  then have "unfolds ?doc 1 (YTSequence [YTScalar ''yes'' None True])"
    by (intro unfolds_sequence [where items = "[2]"]) (auto simp: int_max_def)
  then have "fromYAML (Some ?ly) (\<lambda>_. None) ''[yes]'' default_parse_limits = Inr (DArray [DBoolean True])"
    unfolding fromYAML_Inr_iff
    by (intro conjI exI [of _ ?doc] exI [of _ 1] exI [of _ "?doc\<lparr>yd_root := None\<rparr>"]
          exI [of _ "YTSequence [YTScalar ''yes'' None True]"])
      (simp_all add: checkInputSize_def default_parse_limits_def preflightYAML_def new_preflight_def eff_defs
        startContainer_def expectingMappingKey_def yp_beginValue_def yp_charge_def addNode_def addString_def
        addContainerEntries_def budget_consume_def parseNestingCeiling_def consumeScalar_def yp_finishValue_def
        yp_endContainer_def depth_cap_def budget_within_def scalar_data_def resolveScalar_def isYAMLNull_def
        resolveYAMLBoolean_def tag_bool_def tag_int_def tag_float_def tag_null_def)
  from fromYAML_within_limits [OF this] show ?thesis
    by (simp add: default_parse_limits_def)
qed

end
