(* ===== verification/Yaml_Cycles.thy ===== *)
theory Yaml_Cycles
  imports Yaml_Spec
begin

text \<open>
  Documents with cycles. What a walk along the aliases of a document costs until it comes back
  to a node it is in, that nothing but the alias check stops such a walk when the limits allow
  it, and that no conversion depends on how many levels the recursion was given.
\<close>

section \<open>Walks that come back\<close>

definition yaml_children :: "yaml_document \<Rightarrow> nat \<Rightarrow> nat list" where
  "yaml_children doc n =
     (case yd_node doc n of
        YMappingNode ps \<Rightarrow> List.map_filter (\<lambda>p. yd_get doc (snd p)) ps
      | YSequenceNode items \<Rightarrow> List.map_filter (yd_get doc) items
      | _ \<Rightarrow> [])"

lemma yaml_children_iff: "c \<in> set (yaml_children doc n) \<longleftrightarrow> yaml_child doc n c"
  by (auto simp: yaml_children_def yaml_child_def map_filter_def image_iff split: yaml_node.split) force+

text \<open>
  Every walk from a node is, within so many steps, at a leaf or at a node it has been at, those
  of \<open>A\<close> included.
\<close>

primrec walks_close :: "yaml_document \<Rightarrow> nat \<Rightarrow> nat set \<Rightarrow> nat \<Rightarrow> bool" where
  "walks_close doc 0 A n = (n \<in> A)"
| "walks_close doc (Suc k) A n = (n \<in> A \<or> list_all (walks_close doc k (insert n A)) (yaml_children doc n))"

text \<open>In particular within as many steps as the document has nodes.\<close>

lemma walks_close_finite:
  assumes "finite {b. (yaml_child doc)\<^sup>*\<^sup>* root b}"
  shows "(yaml_child doc)\<^sup>*\<^sup>* root n \<Longrightarrow> card ({b. (yaml_child doc)\<^sup>*\<^sup>* root b} - A) \<le> k \<Longrightarrow> walks_close doc k A n"
proof (induction k arbitrary: A n)
  case 0
  then show ?case using assms by auto
next
  case (Suc k)
  let ?R = "{b. (yaml_child doc)\<^sup>*\<^sup>* root b}"
  show ?case
  proof (cases "n \<in> A")
    case False
    then have "?R - insert n A \<subset> ?R - A" using Suc.prems(1) by blast
    with assms have "card (?R - insert n A) < card (?R - A)" by (simp add: psubset_card_mono)
    then have "walks_close doc k (insert n A) c" if "yaml_child doc n c" for c
      using Suc.IH [of c "insert n A"] Suc.prems that by (simp add: rtranclp.rtrancl_into_rtrancl)
    then show ?thesis by (simp add: list_all_iff yaml_children_iff)
  qed simp
qed

text \<open>What is charged for all walks of so many steps, aliases followed at each use.\<close>

definition content_cost :: "yaml_document \<Rightarrow> (nat \<Rightarrow> parse_budget) \<Rightarrow> nat \<Rightarrow> parse_budget" where
  "content_cost doc f n =
     (case yd_node doc n of
        YScalarNode s tag plain \<Rightarrow> cost 0 (length s) 0
      | YMappingNode ps \<Rightarrow>
          spend (cost 0 0 (length ps))
            (total (map (\<lambda>p. spend (cost 0 (case scalar_key doc (fst p) of None \<Rightarrow> 0 | Some key \<Rightarrow> length key) 0)
              (case yd_get doc (snd p) of None \<Rightarrow> cost 0 0 0 | Some c \<Rightarrow> f c)) ps))
      | YSequenceNode items \<Rightarrow>
          spend (cost 0 0 (length items))
            (total (map (\<lambda>i. case yd_get doc i of None \<Rightarrow> cost 0 0 0 | Some c \<Rightarrow> f c) items))
      | YOtherNode \<Rightarrow> cost 0 0 0)"

primrec walks_cost :: "yaml_document \<Rightarrow> nat \<Rightarrow> nat \<Rightarrow> parse_budget" where
  "walks_cost doc 0 n = cost 1 0 0"
| "walks_cost doc (Suc k) n = spend (cost 1 0 0) (content_cost doc (walks_cost doc k) n)"

text \<open>Nothing is wrong with the node itself: its scalar resolves, its keys are scalars, its children exist.\<close>

definition node_converts :: "extraction \<Rightarrow> yaml_document \<Rightarrow> nat \<Rightarrow> bool" where
  "node_converts ex doc n \<longleftrightarrow>
     (case yd_node doc n of
        YScalarNode s tag plain \<Rightarrow> \<not> isl (scalar_data ex s tag plain)
      | YMappingNode ps \<Rightarrow>
          length ps \<le> int_max \<and> list_all (\<lambda>p. scalar_key doc (fst p) \<noteq> None \<and> yd_get doc (snd p) \<noteq> None) ps
      | YSequenceNode items \<Rightarrow> length items \<le> int_max \<and> list_all (\<lambda>i. yd_get doc i \<noteq> None) items
      | YOtherNode \<Rightarrow> False)"

section \<open>Runs that only a cycle can stop\<close>

text \<open>
  With room for a cost in the budget, and the nodes of \<open>A\<close> being converted: the run returns,
  having spent no more and with those nodes active again, or throws for a cycle.
\<close>

definition only_cycle :: "parse_limits \<Rightarrow> nat set \<Rightarrow> parse_budget \<Rightarrow> 'a yb \<Rightarrow> bool" where
  "only_cycle limits A c m \<longleftrightarrow>
     (\<forall>s. yb_active s = A \<longrightarrow> budget_within limits (spend (yb_budget s) c) \<longrightarrow>
        (case m s of
           (Inl e, t) \<Rightarrow> e = Exception ''YAML alias cycle detected''
         | (Inr x, t) \<Rightarrow> yb_active t = A \<and> at_most (yb_budget t) (spend (yb_budget s) c)))"

named_theorems cycle_rules "rules that take only_cycle apart"

lemma only_cycle_bind [cycle_rules]:
  assumes m: "only_cycle limits A c m" and f: "\<And>x. only_cycle limits A d (f x)"
  shows "only_cycle limits A (spend c d) (bind_eff m f)"
  unfolding only_cycle_def
proof (intro allI impI)
  fix s :: yaml_build assume s: "yb_active s = A" "budget_within limits (spend (yb_budget s) (spend c d))"
  obtain r u where run: "m s = (r, u)" by (cases "m s")
  have "budget_within limits (spend (yb_budget s) c)" using s(2) by (auto simp: budget_within_def)
  with m s(1) have first: "case m s of
      (Inl e, t) \<Rightarrow> e = Exception ''YAML alias cycle detected''
    | (Inr x, t) \<Rightarrow> yb_active t = A \<and> at_most (yb_budget t) (spend (yb_budget s) c)"
    by (simp add: only_cycle_def)
  show "case bind_eff m f s of
      (Inl e, t) \<Rightarrow> e = Exception ''YAML alias cycle detected''
    | (Inr x, t) \<Rightarrow> yb_active t = A \<and> at_most (yb_budget t) (spend (yb_budget s) (spend c d))"
  proof (cases r)
    case (Inl e)
    with run first show ?thesis by (simp add: bind_eff_def)
  next
    case (Inr x)
    have u: "yb_active u = A" "at_most (yb_budget u) (spend (yb_budget s) c)" using first run Inr by auto
    then have "budget_within limits (spend (yb_budget u) d)" using s(2) by (auto simp: budget_within_def at_most_def)
    with f [of x] u(1) have "case f x u of
        (Inl e, t) \<Rightarrow> e = Exception ''YAML alias cycle detected''
      | (Inr y, t) \<Rightarrow> yb_active t = A \<and> at_most (yb_budget t) (spend (yb_budget u) d)"
      by (simp add: only_cycle_def)
    with run Inr u(2) show ?thesis
      by (auto simp: bind_eff_def at_most_def split: prod.splits sum.splits)
  qed
qed

lemma only_cycle_then [cycle_rules]:
  "only_cycle limits A c m \<Longrightarrow> only_cycle limits A d k \<Longrightarrow> only_cycle limits A (spend c d) (then_eff m k)"
  unfolding then_eff_def by (rule only_cycle_bind)

lemma only_cycle_free:
  "only_cycle limits A (cost 0 0 0) (ret x)"
  "only_cycle limits A (cost 0 0 0) (lift_result (Inr x))"
  "\<not> b \<Longrightarrow> only_cycle limits A (cost 0 0 0) (throw_when (\<lambda>_. b) e)"
  by (simp_all add: only_cycle_def ret_def lift_result_def throw_when_def)

lemma only_cycle_charges:
  "only_cycle limits A (cost 0 n 0) (yb_charge (addString limits f n))"
  "only_cycle limits A (cost 0 0 n) (yb_charge (addContainerEntries limits f n))"
  "depth < depth_cap limits \<Longrightarrow> only_cycle limits A (cost 1 0 0) (yb_charge (addNode limits f depth))"
  by (auto simp: only_cycle_def yb_charge_def addString_def addContainerEntries_def addNode_def budget_consume_def
      budget_within_def at_most_def depth_cap_def)

lemma only_cycle_with_active:
  assumes "n \<notin> A \<Longrightarrow> only_cycle limits (insert n A) c m"
  shows "only_cycle limits A c (with_active n m)"
proof (cases "n \<in> A")
  case True
  then show ?thesis by (simp add: only_cycle_def with_active_def eff_defs)
next
  case False
  show ?thesis
    unfolding only_cycle_def
  proof (intro allI impI)
    fix s :: yaml_build assume s: "yb_active s = A" "budget_within limits (spend (yb_budget s) c)"
    let ?s = "s\<lparr>yb_active := insert n A\<rparr>"
    obtain r u where run: "m ?s = (r, u)" by (cases "m ?s")
    then have "with_active n m s = (r, u\<lparr>yb_active := yb_active u - {n}\<rparr>)"
      using False s(1) by (simp add: with_active_def eff_defs on_exit_def)
    moreover have "case m ?s of
        (Inl e, t) \<Rightarrow> e = Exception ''YAML alias cycle detected''
      | (Inr x, t) \<Rightarrow> yb_active t = insert n A \<and> at_most (yb_budget t) (spend (yb_budget ?s) c)"
      using assms [OF False] s(2) unfolding only_cycle_def by (elim allE [of _ ?s]) simp
    ultimately show "case with_active n m s of
        (Inl e, t) \<Rightarrow> e = Exception ''YAML alias cycle detected''
      | (Inr x, t) \<Rightarrow> yb_active t = A \<and> at_most (yb_budget t) (spend (yb_budget s) c)"
      using run False by (auto split: sum.splits)
  qed
qed

section \<open>The conversion\<close>

lemma only_cycle_key:
  assumes "only_cycle limits A c m" and "\<And>x. only_cycle limits A d (f x)"
  shows "only_cycle limits A (spend (spend (cost 0 n 0) c) d)
    (then_eff (yb_charge (addString limits format n)) (bind_eff m f))"
  using only_cycle_then [OF only_cycle_charges(1) only_cycle_bind [OF assms]] by simp

lemma only_cycle_mapping:
  assumes "\<And>p. p \<in> set ps \<Longrightarrow> scalar_key doc (fst p) \<noteq> None \<and>
    (\<exists>c. yd_get doc (snd p) = Some c \<and> only_cycle limits A (f c) (child (Some c)))"
  shows "only_cycle limits A
     (total (map (\<lambda>p. spend (cost 0 (case scalar_key doc (fst p) of None \<Rightarrow> 0 | Some key \<Rightarrow> length key) 0)
        (case yd_get doc (snd p) of None \<Rightarrow> cost 0 0 0 | Some c \<Rightarrow> f c)) ps))
     (mapping_loop limits doc child ps (DMap m))"
  using assms
proof (induction ps arbitrary: m)
  case Nil
  then show ?case by (simp add: only_cycle_free)
next
  case (Cons p ps)
  obtain i j where p: "p = (i, j)" by (cases p)
  obtain key c where c: "scalar_key doc i = Some key" "yd_get doc j = Some c" "only_cycle limits A (f c) (child (Some c))"
    using Cons.prems [of p] by (auto simp: p)
  have rest: "only_cycle limits A
      (total (map (\<lambda>p. spend (cost 0 (case scalar_key doc (fst p) of None \<Rightarrow> 0 | Some key \<Rightarrow> length key) 0)
         (case yd_get doc (snd p) of None \<Rightarrow> cost 0 0 0 | Some c \<Rightarrow> f c)) ps))
      (mapping_loop limits doc child ps (DMap m'))" for m'
    using Cons.prems by (intro Cons.IH) simp
  show ?case
    using only_cycle_key [OF c(3) rest] by (simp add: p c data_set_map bind_lift_Inr)
qed

lemma only_cycle_sequence:
  assumes "\<And>i. i \<in> set items \<Longrightarrow> \<exists>c. yd_get doc i = Some c \<and> only_cycle limits A (f c) (child (Some c))"
  shows "only_cycle limits A
     (total (map (\<lambda>i. case yd_get doc i of None \<Rightarrow> cost 0 0 0 | Some c \<Rightarrow> f c) items))
     (sequence_loop doc child items (DArray ds))"
  using assms
proof (induction items arbitrary: ds)
  case Nil
  then show ?case by (simp add: only_cycle_free)
next
  case (Cons i items)
  obtain c where c: "yd_get doc i = Some c" "only_cycle limits A (f c) (child (Some c))"
    using Cons.prems [of i] by auto
  have rest: "only_cycle limits A
      (total (map (\<lambda>i. case yd_get doc i of None \<Rightarrow> cost 0 0 0 | Some c \<Rightarrow> f c) items))
      (sequence_loop doc child items (DArray ds'))" for ds'
    using Cons.prems by (intro Cons.IH) simp
  show ?case
    using only_cycle_bind [OF c(2) rest] by (simp add: c data_push_array bind_lift_Inr)
qed

lemma only_cycle_free_then:
  "\<not> b \<Longrightarrow> only_cycle limits A c m \<Longrightarrow> only_cycle limits A c (then_eff (throw_when (\<lambda>_. b) e) m)"
  using only_cycle_then [OF only_cycle_free(3)] by fastforce

lemma only_cycle_switch:
  assumes "node_converts ex doc n"
    and child: "\<And>c. yaml_child doc n c \<Longrightarrow> only_cycle limits A (f c) (child (Some c))"
  shows "only_cycle limits A (content_cost doc f n) (create_switch limits ex doc child n)"
proof (cases "yd_node doc n")
  case (YScalarNode s tag plain)
  obtain d where "scalar_data ex s tag plain = Inr d"
    using assms(1) YScalarNode by (cases "scalar_data ex s tag plain") (auto simp: node_converts_def)
  then show ?thesis
    using only_cycle_then [OF only_cycle_charges(1) only_cycle_free(2)]
    by (fastforce simp: YScalarNode content_cost_def create_switch_def)
next
  case (YMappingNode ps)
  have pairs: "length ps \<le> int_max" "\<And>p. p \<in> set ps \<Longrightarrow> scalar_key doc (fst p) \<noteq> None \<and> yd_get doc (snd p) \<noteq> None"
    using assms(1) YMappingNode by (auto simp: node_converts_def list_all_iff)
  have "only_cycle limits A (f c) (child (Some c))" if "p \<in> set ps" "yd_get doc (snd p) = Some c" for p c
    using that YMappingNode by (intro child) (auto simp: yaml_child_def)
  with pairs(2) have "scalar_key doc (fst p) \<noteq> None \<and>
      (\<exists>c. yd_get doc (snd p) = Some c \<and> only_cycle limits A (f c) (child (Some c)))" if "p \<in> set ps" for p
    using that by blast
  note loop = only_cycle_mapping [OF this]
  show ?thesis
    using pairs(1) by (auto simp: YMappingNode content_cost_def create_switch_def makeStorage_containers bind_lift_Inr
        intro!: only_cycle_then only_cycle_charges only_cycle_free_then loop)
next
  case (YSequenceNode items)
  have items: "length items \<le> int_max" "\<And>i. i \<in> set items \<Longrightarrow> yd_get doc i \<noteq> None"
    using assms(1) YSequenceNode by (auto simp: node_converts_def list_all_iff)
  have "only_cycle limits A (f c) (child (Some c))" if "i \<in> set items" "yd_get doc i = Some c" for i c
    using that YSequenceNode by (intro child) (auto simp: yaml_child_def)
  with items(2) have "\<exists>c. yd_get doc i = Some c \<and> only_cycle limits A (f c) (child (Some c))" if "i \<in> set items" for i
    using that by blast
  note loop = only_cycle_sequence [OF this]
  show ?thesis
    using items(1) by (auto simp: YSequenceNode content_cost_def create_switch_def makeStorage_containers bind_lift_Inr
        intro!: only_cycle_then only_cycle_charges only_cycle_free_then loop)
qed (use assms(1) in \<open>simp add: node_converts_def\<close>)

lemma create_body_only_cycle:
  assumes "depth < depth_cap limits" and "n \<notin> A \<Longrightarrow> only_cycle limits (insert n A) c (create_switch limits ex doc child n)"
  shows "only_cycle limits A (spend (cost 1 0 0) c) (create_body limits ex doc child (Some n) depth)"
  using only_cycle_then [OF only_cycle_charges(3) [OF assms(1)] only_cycle_with_active [OF assms(2)]]
  by (simp add: create_body_def)

lemma create_level_only_cycle:
  assumes converts: "\<And>b. (yaml_child doc)\<^sup>*\<^sup>* root b \<Longrightarrow> node_converts ex doc b"
  shows "(yaml_child doc)\<^sup>*\<^sup>* root n \<Longrightarrow> walks_close doc k A n \<Longrightarrow> depth + k < depth_cap limits \<Longrightarrow>
    parseNestingCeiling < levels + depth \<Longrightarrow>
    only_cycle limits A (walks_cost doc k n) (create_level levels limits ex doc (Some n) depth)"
proof (induction k arbitrary: n A depth levels)
  case 0
  then obtain m where m: "levels = Suc m" by (cases levels) (auto simp: depth_cap_def)
  have "only_cycle limits A (spend (cost 1 0 0) (cost 0 0 0)) (create_level levels limits ex doc (Some n) depth)"
    unfolding m create_level.simps by (rule create_body_only_cycle) (use 0 in simp_all)
  then show ?case by simp
next
  case (Suc k)
  then obtain m where m: "levels = Suc m" by (cases levels) (auto simp: depth_cap_def)
  have "only_cycle limits (insert n A) (walks_cost doc k c) (create_level m limits ex doc (Some c) (depth + 1))"
    if "yaml_child doc n c" "n \<notin> A" for c
    using Suc.prems that
    by (intro Suc.IH) (auto simp: m list_all_iff yaml_children_iff intro: rtranclp.rtrancl_into_rtrancl)
  then show ?case
    unfolding m create_level.simps walks_cost.simps
    using Suc.prems(1,3) converts by (intro create_body_only_cycle only_cycle_switch) simp_all
qed

section \<open>Levels\<close>

text \<open>
  The levels of the recursion are enough: \<open>addNode\<close> refuses a node at the ceiling before its
  children are looked at, so further levels change nothing.
\<close>

lemma create_level_more:
  "depth \<le> parseNestingCeiling \<Longrightarrow>
     create_level (parseNestingCeiling + 1 - depth + m) limits ex doc node depth
       = create_level (parseNestingCeiling + 1 - depth) limits ex doc node depth"
proof (induction "parseNestingCeiling - depth" arbitrary: depth node)
  case 0
  then have depth: "depth = parseNestingCeiling" by simp
  show ?case
    by (simp add: depth create_body_def then_eff_def fun_eq_iff bind_eff_def yb_charge_def addNode_def split: option.split)
next
  case (Suc k)
  have less: "depth < parseNestingCeiling" using Suc.hyps(2) by simp
  then have "parseNestingCeiling + 1 - depth = Suc (parseNestingCeiling + 1 - Suc depth)" by simp
  then show ?case using Suc.hyps(1) [of "Suc depth"] Suc.hyps(2) less by simp
qed

section \<open>What the parser does with a cycle\<close>

lemma root_cycle_not_converted:
  assumes "(yaml_child doc)\<^sup>*\<^sup>* root a" and "(yaml_child doc)\<^sup>+\<^sup>+ a a"
  shows "\<not> unfolds doc root tr"
proof
  assume root: "unfolds doc root tr"
  then have "\<exists>ta. unfolds doc a ta"
    using assms(1) unfolds_descendant [of doc root a tr] by (auto dest: rtranclpD)
  with assms(2) unfolds_no_cycle show False by blast
qed

lemma createFromNode_cycle:
  assumes "(yaml_child doc)\<^sup>*\<^sup>* root a" and "(yaml_child doc)\<^sup>+\<^sup>+ a a"
    and "\<And>b. (yaml_child doc)\<^sup>*\<^sup>* root b \<Longrightarrow> node_converts ex doc b"
    and "walks_close doc k {} root" and "k < depth_cap limits" and "budget_within limits (walks_cost doc k root)"
  shows "fst (createFromNode limits ex doc (Some root) 0 root_build) = Inl (Exception ''YAML alias cycle detected'')"
proof -
  have "only_cycle limits {} (walks_cost doc k root) (createFromNode limits ex doc (Some root) 0)"
    unfolding createFromNode_def using assms(4,5)
    by (intro create_level_only_cycle [where root = root] assms(3)) simp_all
  moreover have "fst (createFromNode limits ex doc (Some root) 0 root_build) \<noteq> Inr d" for d
    using root_cycle_not_converted [OF assms(1,2)] by (simp add: createFromNode_root)
  ultimately show ?thesis
    using assms(6) unfolding only_cycle_def
    by (elim allE [of _ root_build]) (auto simp: root_build_def split: prod.splits sum.splits)
qed

text \<open>
  C21. A document in which some node reachable from the root contains itself, however the
  aliases form the cycle, is never converted: the parser throws. It is the alias check that
  stops the walk and not a limit that runs out: when the input passes the preflight, every node
  is convertible on its own, every walk from the root comes back to one of its nodes or ends
  within fewer steps than the nesting limit and the ceiling, and the budgets cover those walks,
  the exception is that of an alias cycle. Nor is it the recursion that ends early: more levels
  than \<open>createFromNode\<close> is given here change nothing.
\<close>

theorem fromYAML_rejects_cycles:
  assumes "ly_load ly input = Some doc" and "yd_root doc = Some root"
    and "(yaml_child doc)\<^sup>*\<^sup>* root a" and "(yaml_child doc)\<^sup>+\<^sup>+ a a"
  shows "(\<exists>e. fromYAML (Some ly) ex input limits = Inl e)
    \<and> (checkInputSize input limits ''YAML'' = Inr () \<and> preflightYAML ly input limits = Inr () \<and> ly_initialize_again ly
        \<and> (\<forall>b. (yaml_child doc)\<^sup>*\<^sup>* root b \<longrightarrow> node_converts ex doc b)
        \<and> walks_close doc k {} root \<and> k < depth_cap limits \<and> budget_within limits (walks_cost doc k root) \<longrightarrow>
       fromYAML (Some ly) ex input limits = Inl (Exception ''YAML alias cycle detected''))
    \<and> (\<forall>levels. create_level (parseNestingCeiling + 1 + levels) limits ex doc (Some root) 0
        = createFromNode limits ex doc (Some root) 0)"
proof (intro conjI allI impI)
  show "\<exists>e. fromYAML (Some ly) ex input limits = Inl e"
    using assms(1,2) root_cycle_not_converted [OF assms(3,4)]
    by (cases "fromYAML (Some ly) ex input limits") (auto simp: fromYAML_Inr_iff)
next
  assume "checkInputSize input limits ''YAML'' = Inr () \<and> preflightYAML ly input limits = Inr () \<and> ly_initialize_again ly
        \<and> (\<forall>b. (yaml_child doc)\<^sup>*\<^sup>* root b \<longrightarrow> node_converts ex doc b)
        \<and> walks_close doc k {} root \<and> k < depth_cap limits \<and> budget_within limits (walks_cost doc k root)"
  then show "fromYAML (Some ly) ex input limits = Inl (Exception ''YAML alias cycle detected'')"
    using createFromNode_cycle [OF assms(3,4), of ex k limits] assms(1,2)
    by (simp add: fromYAML_def convert_document_def root_build_def)
next
  show "create_level (parseNestingCeiling + 1 + levels) limits ex doc (Some root) 0 = createFromNode limits ex doc (Some root) 0"
    for levels
    using create_level_more [of 0 levels] by (simp add: createFromNode_def)
qed

theorem fromYAML_rejects_cycles_witness:
  "fromYAML (Some \<lparr>ly_initialize = True, ly_initialize_again = True,
       ly_events = (\<lambda>_. [YStreamStart, YDocumentStart, YSequenceStart, YAlias, YSequenceEnd, YDocumentEnd,
         YStreamEnd]),
       ly_load = (\<lambda>_. Some \<lparr>yd_root = Some 1, yd_get = (\<lambda>i. Some (nat i)), yd_node = (\<lambda>n. YSequenceNode [1])\<rparr>),
       ly_load_next = (\<lambda>_. None)\<rparr>) (\<lambda>_. None) ''&a [*a]'' default_parse_limits
     = Inl (Exception ''YAML alias cycle detected'')"
    (is "fromYAML (Some ?ly) _ _ _ = _")
proof -
  let ?doc = "\<lparr>yd_root = Some 1, yd_get = (\<lambda>i. Some (nat i)), yd_node = (\<lambda>n. YSequenceNode [1])\<rparr>"
  have "(yaml_child ?doc)\<^sup>+\<^sup>+ 1 1" by (auto simp: yaml_child_def intro!: tranclp.r_into_trancl)
  moreover have "preflightYAML ?ly ''&a [*a]'' default_parse_limits = Inr ()"
    by (simp add: preflightYAML_def new_preflight_def eff_defs default_parse_limits_def
        startContainer_def expectingMappingKey_def yp_beginValue_def yp_charge_def addNode_def addString_def
        addContainerEntries_def budget_consume_def parseNestingCeiling_def consumeScalar_def consumeAlias_def
        yp_finishValue_def yp_endContainer_def set_expectingKey_def)
  moreover have "checkInputSize ''&a [*a]'' default_parse_limits ''YAML'' = Inr ()"
    by (simp add: checkInputSize_def default_parse_limits_def)
  moreover have "walks_close ?doc 1 {} 1" "node_converts ex ?doc b" for ex b
    by (simp_all add: yaml_children_def map_filter_def node_converts_def int_max_def)
  moreover have "1 < depth_cap default_parse_limits" "budget_within default_parse_limits (walks_cost ?doc 1 1)"
    by (simp_all add: depth_cap_def default_parse_limits_def parseNestingCeiling_def content_cost_def budget_within_def)
  ultimately show ?thesis
    using fromYAML_rejects_cycles [of ?ly "''&a [*a]''" ?doc 1 1 "\<lambda>_. None" default_parse_limits 1] by simp
qed

end
