(* ===== verification/Tokenizer.thy ===== *)
theory Tokenizer
  imports Node
begin

text \<open>
  src/tokenizer.cpp: the template parser. Its scan loop looks at one character per round;
  a round is \<open>tokenize_step\<close>, over the record of the loop's variables. The code keeps
  a stack of pointers to the open sections inside the tree under construction; here each
  frame owns its node, and a closed section is put into its parent's children when its
  frame is popped. Since only the innermost open node ever gets children, and nothing is
  returned while a section is open, the two build the same trees. A throw abandons the
  whole parse (the caller's root is replaced last), so a step returns a result.

  Line and character numbers are \<open>int\<close>: they count characters of the input, which
  the input limit keeps far below the code's \<open>int\<close> range.
\<close>

section \<open>The tokenizer and its limits\<close>

record tokenizer =
  tk_startSequence :: string
  tk_stopSequence :: string
  tk_escapeByDefault :: bool

definition new_tokenizer :: tokenizer where
  "new_tokenizer =
     \<lparr>tk_startSequence = ''{{'', tk_stopSequence = ''}}'', tk_escapeByDefault = True\<rparr>"

record tokenizer_limits =
  tkl_maxInputBytes :: nat
  tkl_maxNestingDepth :: nat
  tkl_maxNodes :: nat
  tkl_maxTagBytes :: nat
  tkl_maxDelimiterBytes :: nat

definition default_tokenizer_limits :: tokenizer_limits where
  "default_tokenizer_limits =
     \<lparr>tkl_maxInputBytes = 64 * 1024 * 1024, tkl_maxNestingDepth = 62, tkl_maxNodes = 100000,
      tkl_maxTagBytes = 1024 * 1024, tkl_maxDelimiterBytes = 1024\<rparr>"

definition validateDelimiter :: "string \<Rightarrow> string \<Rightarrow> unit result" where
  "validateDelimiter delimiter name =
     throw_if (delimiter = []) (Exception (''Empty '' @ name @ '' delimiter''))"

definition setStartSequence :: "string \<Rightarrow> tokenizer \<Rightarrow> tokenizer result" where
  "setStartSequence start tk =
     bind_result (validateDelimiter start ''start'') (\<lambda>_. Inr (tk\<lparr>tk_startSequence := start\<rparr>))"

definition setStopSequence :: "string \<Rightarrow> tokenizer \<Rightarrow> tokenizer result" where
  "setStopSequence stop tk =
     bind_result (validateDelimiter stop ''stop'') (\<lambda>_. Inr (tk\<lparr>tk_stopSequence := stop\<rparr>))"

text \<open>
  The pointer overloads: a null pointer is \<open>None\<close>, the bytes from the pointer on are
  its string, and a length of 0 reads up to the first NUL.
\<close>

definition c_view :: "string \<Rightarrow> int \<Rightarrow> string" where
  "c_view bytes len =
     (if len = 0 then takeWhile (\<lambda>c. c \<noteq> CHR 0x00) bytes else take (nat len) bytes)"

definition setStartSequence_ptr :: "string option \<Rightarrow> int \<Rightarrow> tokenizer \<Rightarrow> tokenizer result" where
  "setStartSequence_ptr start len tk =
     (case start of
        None \<Rightarrow> Inl (Exception ''Missing start delimiter'')
      | Some s \<Rightarrow>
          if len < 0 then Inl (Exception ''Invalid start delimiter length'')
          else setStartSequence (c_view s len) tk)"

definition setStopSequence_ptr :: "string option \<Rightarrow> int \<Rightarrow> tokenizer \<Rightarrow> tokenizer result" where
  "setStopSequence_ptr stop len tk =
     (case stop of
        None \<Rightarrow> Inl (Exception ''Missing stop delimiter'')
      | Some s \<Rightarrow>
          if len < 0 then Inl (Exception ''Invalid stop delimiter length'')
          else setStopSequence (c_view s len) tk)"

definition setEscapeByDefault :: "bool \<Rightarrow> tokenizer \<Rightarrow> tokenizer" where
  "setEscapeByDefault flag tk = tk\<lparr>tk_escapeByDefault := flag\<rparr>"

section \<open>Looking at the input\<close>

definition matchesAt :: "string \<Rightarrow> nat \<Rightarrow> string \<Rightarrow> bool" where
  "matchesAt input position sequence \<longleftrightarrow>
     position \<le> length input \<and> length sequence \<le> length input - position
     \<and> take (length sequence) (drop position input) = sequence"

definition isStandaloneIndent :: "char \<Rightarrow> bool" where
  "isStandaloneIndent value \<longleftrightarrow> value = CHR '' '' \<or> value = CHR 0x09"

definition skip_indent :: "string \<Rightarrow> nat \<Rightarrow> nat" where
  "skip_indent input position = position + length (takeWhile isStandaloneIndent (drop position input))"

definition standaloneLineEnd :: "string \<Rightarrow> nat \<Rightarrow> nat option" where
  "standaloneLineEnd input tagEnd =
     (let position = skip_indent input tagEnd in
      if position < length input then
        (if input ! position = CHR 0x0A then Some (position + 1)
         else if input ! position = CHR 0x0D \<and> position + 1 < length input
                 \<and> input ! (position + 1) = CHR 0x0A
         then Some (position + 2)
         else None)
      else Some position)"

definition isStandaloneType :: "node_type \<Rightarrow> bool" where
  "isStandaloneType ty \<longleftrightarrow>
     ty = TypeSection \<or> ty = TypeNegate \<or> ty = TypeStop \<or> ty = TypeComment \<or> ty = TypePartial"

section \<open>The state of the scan loop\<close>

record parse_frame =
  pf_node :: node
  pf_lineNo :: int
  pf_charNo :: int

record tok_state =
  t_start :: string
  t_stop :: string
  t_buffer :: string
  t_outputBeforeTag :: string
  t_skipUntil :: "nat option"
  t_lineNo :: int
  t_charNo :: int
  t_lineStart :: nat
  t_linePrefixIsIndent :: bool
  t_inTag :: bool
  t_inTripleTag :: bool
  t_startLineNo :: int
  t_startCharNo :: int
  t_tagStart :: nat
  t_tagIndentationBytes :: nat
  t_tagPrefixIsIndent :: bool
  t_source :: "source_buffer option"
  t_frames :: "parse_frame list"
  t_nodeCount :: nat

text \<open>The innermost open node is the first frame; the root's frame is the last.\<close>

definition parsed_root :: node where
  "parsed_root = Node TypeRoot FlagNone None [] [] None [] None None None 0 0"

definition initial_state :: "tokenizer \<Rightarrow> tok_state" where
  "initial_state tk =
     \<lparr>t_start = tk_startSequence tk, t_stop = tk_stopSequence tk, t_buffer = [],
      t_outputBeforeTag = [], t_skipUntil = None, t_lineNo = 1, t_charNo = 0, t_lineStart = 0,
      t_linePrefixIsIndent = True, t_inTag = False, t_inTripleTag = False, t_startLineNo = 0,
      t_startCharNo = 0, t_tagStart = 0, t_tagIndentationBytes = 0, t_tagPrefixIsIndent = False,
      t_source = None,
      t_frames = [\<lparr>pf_node = parsed_root, pf_lineNo = 0, pf_charNo = 0\<rparr>], t_nodeCount = 0\<rparr>"

text \<open>\<open>nodeStack.back().node\<close>, and a change of it.\<close>

fun top_node :: "parse_frame list \<Rightarrow> node" where
  "top_node [] = empty_node"
| "top_node (f # fs) = pf_node f"

fun map_top :: "(node \<Rightarrow> node) \<Rightarrow> parse_frame list \<Rightarrow> parse_frame list" where
  "map_top g [] = []"
| "map_top g (f # fs) = pf_node_update g f # fs"

definition appendNode :: "tokenizer_limits \<Rightarrow> node \<Rightarrow> int \<Rightarrow> int \<Rightarrow> tok_state \<Rightarrow> tok_state result" where
  "appendNode limits n lineNo charNo st =
     (if t_nodeCount st \<ge> tkl_maxNodes limits
      then Inl (TokenizerException ''Template node count limit exceeded'' lineNo charNo)
      else Inr (st\<lparr>t_frames := map_top (push_child n) (t_frames st), t_nodeCount := Suc (t_nodeCount st)\<rparr>))"

text \<open>The same for a node that stays open: it gets a frame of its own.\<close>

definition openNode :: "tokenizer_limits \<Rightarrow> node \<Rightarrow> int \<Rightarrow> int \<Rightarrow> tok_state \<Rightarrow> tok_state result" where
  "openNode limits n lineNo charNo st =
     (if t_nodeCount st \<ge> tkl_maxNodes limits
      then Inl (TokenizerException ''Template node count limit exceeded'' lineNo charNo)
      else Inr (st\<lparr>t_frames := \<lparr>pf_node = n, pf_lineNo = lineNo, pf_charNo = charNo\<rparr> # t_frames st,
                   t_nodeCount := Suc (t_nodeCount st)\<rparr>))"

fun close_top :: "parse_frame list \<Rightarrow> parse_frame list" where
  "close_top (f # fs) = map_top (push_child (pf_node f)) fs"
| "close_top [] = []"

definition appendSourceOnlyOutput ::
    "tokenizer_limits \<Rightarrow> string \<Rightarrow> int \<Rightarrow> bool \<Rightarrow> int \<Rightarrow> int \<Rightarrow> tok_state \<Rightarrow> tok_state result" where
  "appendSourceOnlyOutput limits out flags preserveEmpty lineNo charNo st =
     (if out = [] \<and> \<not> preserveEmpty then Inr st
      else appendNode limits (make_node TypeOutput out flags) lineNo charNo st)"

definition at_position :: "int \<Rightarrow> int \<Rightarrow> string" where
  "at_position lineNo charNo = show_int lineNo @ '':'' @ show_int charNo"

section \<open>Tags\<close>

text \<open>The state just before \<open>tmpl[pos]\<close>, and the line and character numbers.\<close>

definition track_position :: "string \<Rightarrow> nat \<Rightarrow> tok_state \<Rightarrow> tok_state" where
  "track_position tmpl pos st =
     (let st1 =
        (if pos > 0 then
           (if tmpl ! (pos - 1) = CHR 0x0A
            then st\<lparr>t_lineStart := pos, t_linePrefixIsIndent := True\<rparr>
            else if \<not> isStandaloneIndent (tmpl ! (pos - 1))
            then st\<lparr>t_linePrefixIsIndent := False\<rparr>
            else st)
         else st)
      in (if tmpl ! pos = CHR 0x0A
          then st1\<lparr>t_lineNo := t_lineNo st1 + 1, t_charNo := 0\<rparr>
          else st1\<lparr>t_charNo := t_charNo st1 + 1\<rparr>))"

definition open_tag :: "string \<Rightarrow> nat \<Rightarrow> tok_state \<Rightarrow> tok_state" where
  "open_tag tmpl pos st =
     (let triple = t_start st = ''{{'' \<and> matchesAt tmpl (pos + 2) ''{''
      in st\<lparr>t_outputBeforeTag := t_buffer st, t_buffer := t_outputBeforeTag st, t_inTag := True,
            t_skipUntil := Some (pos + length (t_start st) - 1 + (if triple then 1 else 0)),
            t_tagStart := pos, t_tagPrefixIsIndent := t_linePrefixIsIndent st,
            t_tagIndentationBytes := pos - t_lineStart st,
            t_startLineNo := t_lineNo st, t_startCharNo := t_charNo st,
            t_inTripleTag := triple \<or> t_inTripleTag st\<rparr>)"

text \<open>
  What the first character of the trimmed tag says: the type, the flags, and for a
  delimiter tag the new delimiters (\<open>skip\<close> is set).
\<close>

record tag_class =
  tc_type :: node_type
  tc_flags :: int
  tc_delimiters :: "(string \<times> string) option"

definition delimiter_tag :: "tokenizer_limits \<Rightarrow> string \<Rightarrow> int \<Rightarrow> int \<Rightarrow> (string \<times> string) result" where
  "delimiter_tag limits buffer lineNo charNo =
     (if last buffer \<noteq> CHR ''='' then
        Inl (TokenizerException (''Missing closing delimiter (=) in tag starting at ''
               @ at_position lineNo charNo) lineNo charNo)
      else
        (let delims = stringTok (trim buffer (whiteSpaces @ ''='')) whiteSpaces [] in
         if length delims \<noteq> 2 \<or> length (delims ! 0) < 1 \<or> length (delims ! 1) < 1 then
           Inl (TokenizerException (''Invalid delimiter format in tag starting at ''
                  @ at_position lineNo charNo) lineNo charNo)
         else if length (delims ! 0) > tkl_maxDelimiterBytes limits
              \<or> length (delims ! 1) > tkl_maxDelimiterBytes limits then
           Inl (TokenizerException ''Template delimiter size limit exceeded'' lineNo charNo)
         else Inr (delims ! 0, delims ! 1)))"

definition classify_tag :: "tokenizer_limits \<Rightarrow> string \<Rightarrow> int \<Rightarrow> int \<Rightarrow> tag_class result" where
  "classify_tag limits buffer lineNo charNo =
     (let plain = (\<lambda>ty fl. Inr \<lparr>tc_type = ty, tc_flags = fl, tc_delimiters = None\<rparr>);
          c = hd buffer
      in if c = CHR ''&'' then plain TypeVariable (FlagNone XOR FlagEscape)
         else if c = CHR ''^'' then plain TypeNegate FlagNone
         else if c = CHR ''#'' then plain TypeSection FlagNone
         else if c = CHR ''/'' then plain TypeStop FlagNone
         else if c = CHR ''!'' then plain TypeComment FlagNone
         else if c = CHR ''>'' then plain TypePartial FlagNone
         else if c = CHR ''='' then
           bind_result (delimiter_tag limits buffer lineNo charNo) (\<lambda>d.
             Inr \<lparr>tc_type = TypeVariable, tc_flags = FlagNone, tc_delimiters = Some d\<rparr>)
         else plain TypeVariable FlagNone)"

text \<open>
  The name and the flags of the node: the sigil is taken off, and a variable's escape flag
  is flipped for a triple tag and for \<open>_escapeByDefault\<close>.
\<close>

definition tag_name :: "tag_class \<Rightarrow> string \<Rightarrow> string" where
  "tag_name tc buffer =
     (if tc_type tc \<noteq> TypeVariable \<or> tc_flags tc \<noteq> 0 then trim (drop 1 buffer) whiteSpaces else buffer)"

definition tag_flags :: "tokenizer \<Rightarrow> tag_class \<Rightarrow> bool \<Rightarrow> int" where
  "tag_flags tk tc inTripleTag =
     (if tc_type tc = TypeVariable \<or> tc_type tc = TypeTag then
        (let f1 = (if inTripleTag then tc_flags tc XOR FlagEscape else tc_flags tc)
         in (if tk_escapeByDefault tk then f1 XOR FlagEscape else f1))
      else tc_flags tc)"

text \<open>The checks of an opening tag (nesting) and of a closing tag (an open section of that name).\<close>

definition check_nesting ::
    "tokenizer_limits \<Rightarrow> node_type \<Rightarrow> string \<Rightarrow> tok_state \<Rightarrow> unit result" where
  "check_nesting limits ty name st =
     (if type_and ty TypeHasChildren then
        throw_if (length (t_frames st) - 1 \<ge> tkl_maxNestingDepth limits)
          (TokenizerException ''Template nesting limit exceeded'' (t_startLineNo st) (t_startCharNo st))
      else if ty = TypeStop then
        (if length (t_frames st) \<le> 1 then
           Inl (TokenizerException (''Extra closing section '' @ [CHR 0x27] @ name @ [CHR 0x27]
                  @ '' at '' @ at_position (t_startLineNo st) (t_startCharNo st))
                (t_startLineNo st) (t_startCharNo st))
         else
           (let open_data = ndata (top_node (t_frames st)) in
            throw_if (open_data \<noteq> Some name)
              (TokenizerException (''Mismatched closing section '' @ [CHR 0x27] @ name @ [CHR 0x27]
                  @ '' at '' @ at_position (t_startLineNo st) (t_startCharNo st)
                  @ ''; expected '' @ [CHR 0x27] @ (case open_data of None \<Rightarrow> [] | Some d \<Rightarrow> d) @ [CHR 0x27]
                  @ '' opened at '' @ at_position (pf_lineNo (hd (t_frames st))) (pf_charNo (hd (t_frames st))))
                (t_startLineNo st) (t_startCharNo st))))
      else Inr ())"

text \<open>
  The node of the tag: a section remembers its delimiters and where its text begins, and
  the source is shared by all sections of the template (\<open>fresh\<close> is the identity of
  that allocation).
\<close>

definition ensure_source :: "nat \<Rightarrow> string \<Rightarrow> tok_state \<Rightarrow> tok_state" where
  "ensure_source fresh tmpl st =
     (if t_source st = None then st\<lparr>t_source := Some (Buffer fresh tmpl)\<rparr> else st)"

definition section_node :: "nat \<Rightarrow> tok_state \<Rightarrow> node \<Rightarrow> node" where
  "section_node tagEnd st n =
     set_source (t_source st)
       (tagEnd + (if t_inTripleTag st \<and> t_stop st = ''}}'' then 1 else 0))
       (set_delimiters (t_start st) (t_stop st) n)"

definition close_section_range :: "tok_state \<Rightarrow> tok_state" where
  "close_section_range st =
     (if ntype (top_node (t_frames st)) = TypeSection
      then st\<lparr>t_frames := map_top (\<lambda>n. set_section_length (t_tagStart st - sectionBegin n) n) (t_frames st)\<rparr>
      else st)"

definition append_tag ::
    "nat \<Rightarrow> tokenizer_limits \<Rightarrow> string \<Rightarrow> nat \<Rightarrow> node_type \<Rightarrow> node \<Rightarrow> tok_state \<Rightarrow> tok_state result" where
  "append_tag fresh limits tmpl tagEnd ty n st =
     (let line = t_startLineNo st; chr = t_startCharNo st in
      if ty = TypeSection then
        (let st' = ensure_source fresh tmpl st
         in openNode limits (section_node tagEnd st' n) line chr st')
      else if type_and ty TypeHasChildren then openNode limits n line chr st
      else if ty = TypeStop then
        bind_result (appendNode limits n line chr (close_section_range st))
          (\<lambda>st'. Inr (st'\<lparr>t_frames := close_top (t_frames st')\<rparr>))
      else appendNode limits n line chr st)"

definition process_tag ::
    "tokenizer \<Rightarrow> nat \<Rightarrow> tokenizer_limits \<Rightarrow> string \<Rightarrow> nat \<Rightarrow> tag_class \<Rightarrow> tok_state \<Rightarrow> tok_state result" where
  "process_tag tk fresh limits tmpl tagEnd tc st =
     (let name = tag_name tc (t_buffer st); flags = tag_flags tk tc (t_inTripleTag st)
      in bind_result (check_nesting limits (tc_type tc) name st) (\<lambda>_.
           append_tag fresh limits tmpl tagEnd (tc_type tc) (make_node (tc_type tc) name flags) st))"

text \<open>
  A standalone tag takes the indentation before it out of the pending output. The pending
  output is then published, and the indentation kept as source-only text.
\<close>

definition standalone_end :: "string \<Rightarrow> nat \<Rightarrow> tag_class \<Rightarrow> tok_state \<Rightarrow> nat option" where
  "standalone_end tmpl tagEnd tc st =
     (if (\<not> t_inTripleTag st \<and> (tc_delimiters tc \<noteq> None \<or> isStandaloneType (tc_type tc)))
         \<and> t_tagPrefixIsIndent st
      then standaloneLineEnd tmpl tagEnd else None)"

definition strip_indentation :: "nat option \<Rightarrow> tok_state \<Rightarrow> tok_state result" where
  "strip_indentation standalone st =
     (if standalone = None then Inr st
      else if t_tagIndentationBytes st > length (t_outputBeforeTag st) then
        Inl (TokenizerException ''Invalid standalone parser state'' (t_startLineNo st) (t_startCharNo st))
      else Inr (st\<lparr>t_outputBeforeTag :=
             take (length (t_outputBeforeTag st) - t_tagIndentationBytes st) (t_outputBeforeTag st)\<rparr>))"

definition publish_output :: "tokenizer_limits \<Rightarrow> tok_state \<Rightarrow> tok_state result" where
  "publish_output limits st =
     bind_result
       (if t_outputBeforeTag st \<noteq> []
        then appendNode limits (make_node TypeOutput (t_outputBeforeTag st) FlagNone)
               (t_startLineNo st) (t_startCharNo st) st
        else Inr st)
       (\<lambda>st. Inr (st\<lparr>t_outputBeforeTag := []\<rparr>))"

definition publish_indentation ::
    "tokenizer_limits \<Rightarrow> string \<Rightarrow> tag_class \<Rightarrow> nat option \<Rightarrow> tok_state \<Rightarrow> tok_state result" where
  "publish_indentation limits tmpl tc standalone st =
     (if standalone = None then Inr st
      else appendSourceOnlyOutput limits
             (take (t_tagIndentationBytes st) (drop (t_tagStart st - t_tagIndentationBytes st) tmpl))
             (FlagLambdaOnly OR (if tc_type tc = TypePartial then FlagPartialIndent else FlagNone))
             True (t_startLineNo st) (t_startCharNo st) st)"

definition publish_line_end ::
    "tokenizer_limits \<Rightarrow> string \<Rightarrow> nat \<Rightarrow> nat option \<Rightarrow> tok_state \<Rightarrow> tok_state result" where
  "publish_line_end limits tmpl tagEnd standalone st =
     (case standalone of
        None \<Rightarrow> Inr st
      | Some e \<Rightarrow> appendSourceOnlyOutput limits (take (e - tagEnd) (drop tagEnd tmpl)) FlagLambdaOnly
                   False (t_lineNo st) (t_charNo st) st)"

definition finish_tag :: "string \<Rightarrow> nat \<Rightarrow> nat \<Rightarrow> bool \<Rightarrow> nat option \<Rightarrow> tok_state \<Rightarrow> tok_state result" where
  "finish_tag tmpl pos tagEnd skip standalone st =
     (let triple_close = \<not> skip \<and> t_inTripleTag st \<and> t_stop st = ''}}'' in
      if triple_close \<and> \<not> matchesAt tmpl (pos + 2) ''}'' then
        Inl (TokenizerException (''Missing closing triple mustache delimiter at ''
               @ at_position (t_lineNo st) (t_charNo st) @ '' in tag starting at ''
               @ at_position (t_startLineNo st) (t_startCharNo st)) (t_lineNo st) (t_charNo st))
      else Inr (st\<lparr>t_buffer := [], t_inTag := False,
             t_skipUntil := Some ((case standalone of None \<Rightarrow> tagEnd - 1 | Some e \<Rightarrow> e - 1)
                                    + (if triple_close then 1 else 0)),
             t_inTripleTag := False, t_startLineNo := t_lineNo st, t_startCharNo := t_charNo st\<rparr>))"

definition set_tag_delimiters :: "tag_class \<Rightarrow> tok_state \<Rightarrow> tok_state" where
  "set_tag_delimiters tc st =
     (case tc_delimiters tc of
        None \<Rightarrow> st
      | Some (start, stop) \<Rightarrow> st\<lparr>t_start := start, t_stop := stop\<rparr>)"

definition close_tag ::
    "tokenizer \<Rightarrow> nat \<Rightarrow> tokenizer_limits \<Rightarrow> string \<Rightarrow> nat \<Rightarrow> tok_state \<Rightarrow> tok_state result" where
  "close_tag tk fresh limits tmpl pos st0 =
     (let st = st0\<lparr>t_buffer := trim (t_buffer st0) whiteSpaces\<rparr>;
          tagEnd = pos + length (t_stop st)
      in if t_buffer st = [] then
           Inl (TokenizerException (''Empty tag at '' @ at_position (t_startLineNo st) (t_startCharNo st))
                (t_startLineNo st) (t_startCharNo st))
         else
           bind_result (classify_tag limits (t_buffer st) (t_startLineNo st) (t_startCharNo st)) (\<lambda>tc.
           let st = set_tag_delimiters tc st; skip = tc_delimiters tc \<noteq> None;
               standalone = standalone_end tmpl tagEnd tc st
           in bind_result (strip_indentation standalone st) (\<lambda>st.
              bind_result (publish_output limits st) (\<lambda>st.
              bind_result (publish_indentation limits tmpl tc standalone st) (\<lambda>st.
              bind_result (if skip then Inr st else process_tag tk fresh limits tmpl tagEnd tc st) (\<lambda>st.
              bind_result (publish_line_end limits tmpl tagEnd standalone st) (\<lambda>st.
              finish_tag tmpl pos tagEnd skip standalone st)))))))"

section \<open>The scan loop\<close>

definition append_char :: "tokenizer_limits \<Rightarrow> string \<Rightarrow> nat \<Rightarrow> tok_state \<Rightarrow> tok_state result" where
  "append_char limits tmpl pos st =
     (if t_skipUntil st = None then
        (if t_inTag st \<and> length (t_buffer st) \<ge> tkl_maxTagBytes limits
         then Inl (TokenizerException ''Template tag size limit exceeded'' (t_lineNo st) (t_charNo st))
         else Inr (st\<lparr>t_buffer := t_buffer st @ [tmpl ! pos]\<rparr>))
      else Inr st)"

definition scan_char ::
    "tokenizer \<Rightarrow> nat \<Rightarrow> tokenizer_limits \<Rightarrow> string \<Rightarrow> nat \<Rightarrow> tok_state \<Rightarrow> tok_state result" where
  "scan_char tk fresh limits tmpl pos st =
     (if \<not> t_inTag st then
        (if tmpl ! pos = hd (t_start st) \<and> matchesAt tmpl pos (t_start st)
         then Inr (open_tag tmpl pos st) else Inr st)
      else
        (if tmpl ! pos = hd (t_stop st) \<and> matchesAt tmpl pos (t_stop st)
         then close_tag tk fresh limits tmpl pos st else Inr st))"

definition tokenize_step ::
    "tokenizer \<Rightarrow> nat \<Rightarrow> tokenizer_limits \<Rightarrow> string \<Rightarrow> nat \<Rightarrow> tok_state \<Rightarrow> tok_state result" where
  "tokenize_step tk fresh limits tmpl pos st0 =
     (let st = track_position tmpl pos st0 in
      if (case t_skipUntil st of None \<Rightarrow> False | Some u \<Rightarrow> pos \<le> u) then Inr st
      else bind_result (scan_char tk fresh limits tmpl pos (st\<lparr>t_skipUntil := None\<rparr>))
             (append_char limits tmpl pos))"

fun tokenize_loop ::
    "tokenizer \<Rightarrow> nat \<Rightarrow> tokenizer_limits \<Rightarrow> string \<Rightarrow> nat list \<Rightarrow> tok_state \<Rightarrow> tok_state result" where
  "tokenize_loop tk fresh limits tmpl [] st = Inr st"
| "tokenize_loop tk fresh limits tmpl (pos # ps) st =
     bind_result (tokenize_step tk fresh limits tmpl pos st) (tokenize_loop tk fresh limits tmpl ps)"

text \<open>
  After the loop: nothing may be open, and the text after the last tag becomes an output
  node of its own, which (unlike the others) is given its data without \<open>setData\<close>.
\<close>

definition tail_node :: "bool \<Rightarrow> string \<Rightarrow> node" where
  "tail_node escapeOutput buffer =
     Node TypeOutput FlagNone
       (Some (if escapeOutput then htmlspecialchars_append buffer [] else buffer))
       [] [] None [] None None None 0 0"

definition tokenize_end :: "tokenizer_limits \<Rightarrow> bool \<Rightarrow> tok_state \<Rightarrow> node result" where
  "tokenize_end limits escapeOutput st =
     (if t_inTag st then
        Inl (TokenizerException (''Unclosed tag at end of template, starting at ''
               @ at_position (t_startLineNo st) (t_startCharNo st)) (t_startLineNo st) (t_startCharNo st))
      else if length (t_frames st) > 1 then
        Inl (TokenizerException (''Unclosed section at end of template, depth was ''
               @ show_nat (length (t_frames st) - 1)) (- 1) (- 1))
      else
        bind_result
          (if length (t_buffer st) > 0
           then appendNode limits (tail_node escapeOutput (t_buffer st)) (t_lineNo st) (t_charNo st) st
           else Inr st)
          (\<lambda>st. Inr (top_node (t_frames st))))"

text \<open>
  \<open>tokenize\<close>: a null root is \<open>None\<close>. The value is the new root: everything the
  old one held but its partials is replaced.
\<close>

definition tokenize ::
    "tokenizer \<Rightarrow> nat \<Rightarrow> string \<Rightarrow> node option \<Rightarrow> tokenizer_limits \<Rightarrow> bool \<Rightarrow> node result" where
  "tokenize tk fresh tmpl root limits escapeOutput =
     (case root of
        None \<Rightarrow> Inl (Exception ''Missing token root'')
      | Some r \<Rightarrow>
          if length tmpl > tkl_maxInputBytes limits
          then Inl (TokenizerException ''Template input size limit exceeded'' 0 0)
          else if length (tk_startSequence tk) > tkl_maxDelimiterBytes limits
               \<or> length (tk_stopSequence tk) > tkl_maxDelimiterBytes limits
          then Inl (TokenizerException ''Template delimiter size limit exceeded'' 0 0)
          else if tk_startSequence tk = [] \<or> tk_stopSequence tk = [] then Inl StdOutOfRange
          else
            bind_result (tokenize_loop tk fresh limits tmpl [0..<length tmpl] (initial_state tk)) (\<lambda>st.
            bind_result (tokenize_end limits escapeOutput st) (\<lambda>parsed.
              Inr (set_partials (partials r) parsed))))"

text \<open>The overloads that take the template by pointer.\<close>

definition tokenize_ptr ::
    "tokenizer \<Rightarrow> nat \<Rightarrow> string option \<Rightarrow> node option \<Rightarrow> tokenizer_limits \<Rightarrow> bool \<Rightarrow> node result" where
  "tokenize_ptr tk fresh tmpl root limits escapeOutput =
     (case tmpl of
        None \<Rightarrow> Inl (Exception ''Missing template'')
      | Some t \<Rightarrow> tokenize tk fresh t root limits escapeOutput)"

end
