(* ===== verification/Renderer.thy ===== *)
theory Renderer
  imports Tokenizer Data
begin

text \<open>
  The renderer of src/renderer.hpp and src/renderer.cpp: its configuration and the working
  state of one render, the public operations that set it up, the budgets, and every
  operation that writes output. The traversal that drives them is in Engine, callbacks are
  in Lambda.

  Pointers: a \<open>std::string *\<close> is the number of a string in \<open>r_strings\<close>, so
  that two operations writing through the same pointer write to the same string; trees and
  data are immutable during a render (the header says so) and are passed as values, with
  \<open>None\<close> for a null pointer. \<open>_stack.back()\<close> and
  \<open>_indentationStack.back()\<close> are the heads of their lists. The last group of fields
  is what lies outside the \<open>Renderer\<close> object: the strings, the callback contexts
  handed out so far, the registry of active engines, allocation identities, and the state
  \<open>'w\<close> the user's callbacks keep.
\<close>

section \<open>The state\<close>

datatype LambdaStringMode = ModeTemplate | ModeLiteral

record render_limits =
  maxOutputBytes :: nat
  maxNestingDepth :: nat
  maxNodeVisits :: nat
  maxLambdaTemplateBytes :: nat

definition renderNestingCeiling :: nat where
  "renderNestingCeiling = 256"

definition default_render_limits :: render_limits where
  "default_render_limits =
     \<lparr>maxOutputBytes = 64 * 1024 * 1024, maxNestingDepth = renderNestingCeiling,
      maxNodeVisits = 1000000, maxLambdaTemplateBytes = 64 * 1024 * 1024\<rparr>"

record indentation_frame =
  if_components :: "string list"
  if_atLineStart :: bool

definition new_frame :: "string list \<Rightarrow> indentation_frame" where
  "new_frame components = \<lparr>if_components = components, if_atLineStart = True\<rparr>"

text \<open>
  The shared state of a \<open>LambdaRenderContext\<close>: whether its renderer pointer is still
  set, and the section's delimiters and escape flag.
\<close>

record render_context =
  rc_active :: bool
  rc_start :: string
  rc_stop :: string
  rc_escapeOutput :: bool

text \<open>An entry of the registry \<open>Renderer::ActiveEngineScope\<close>.\<close>

record engine_scope =
  es_id :: nat
  es_renderer :: nat
  es_engine :: nat

type_synonym partial_map = "(string \<times> node option) list"

text \<open>
  A lookup of partials: the compiled resolver of a renderer, or the whole source of an
  engine. No partial of that name is \<open>None\<close>; the lookup itself may throw.
\<close>

type_synonym partial_lookup = "string \<Rightarrow> node option result"

record 'w renderer =
  r_node :: "node option"
  r_data :: "data option"
  r_stack :: "data list"
  r_partials :: "partial_map option"
  r_partialResolver :: "partial_lookup option"
  r_output :: "nat option"
  r_limits :: render_limits
  r_lambdaStringMode :: LambdaStringMode
  r_outputBytes :: nat
  r_nodeVisits :: nat
  r_lambdaTemplateBytes :: nat
  r_indentationStack :: "indentation_frame list"
  r_activeDepth :: nat
  r_rendering :: bool
  r_lambdaCallbackDepth :: nat
  r_strictPaths :: bool
  r_strings :: "nat \<Rightarrow> string"
  r_nextString :: nat
  r_contexts :: "render_context list"
  r_scopes :: "engine_scope list"
  r_nextId :: nat
  r_world :: 'w

type_synonym ('w, 'a) rend = "('w renderer, 'a) eff"

text \<open>The constructor, in a given surrounding state.\<close>

definition new_renderer :: "(nat \<Rightarrow> string) \<Rightarrow> nat \<Rightarrow> engine_scope list \<Rightarrow> 'w \<Rightarrow> 'w renderer" where
  "new_renderer strings nextString scopes world =
     \<lparr>r_node = None, r_data = None, r_stack = [], r_partials = None, r_partialResolver = None,
      r_output = None, r_limits = default_render_limits, r_lambdaStringMode = ModeTemplate,
      r_outputBytes = 0, r_nodeVisits = 0, r_lambdaTemplateBytes = 0, r_indentationStack = [],
      r_activeDepth = 0, r_rendering = False, r_lambdaCallbackDepth = 0, r_strictPaths = False,
      r_strings = strings, r_nextString = nextString, r_contexts = [], r_scopes = scopes,
      r_nextId = 0, r_world = world\<rparr>"

section \<open>Setting a renderer up\<close>

definition already_rendering :: "('w, unit) rend" where
  "already_rendering = throw_when r_rendering (Exception ''Renderer is already rendering'')"

text \<open>The mode is passed by number, since a caller may cast any integer to the enumeration.\<close>

definition setLambdaStringMode :: "int \<Rightarrow> ('w, unit) rend" where
  "setLambdaStringMode mode =
     then_eff already_rendering
       (if mode \<noteq> 0 \<and> mode \<noteq> 1 then throw (Exception ''Invalid lambda string mode'')
        else writes (\<lambda>s. s\<lparr>r_lambdaStringMode := (if mode = 0 then ModeTemplate else ModeLiteral)\<rparr>))"

definition renderer_clear :: "('w, unit) rend" where
  "renderer_clear =
     then_eff already_rendering
       (writes (\<lambda>s. s\<lparr>r_node := None, r_data := None, r_stack := [], r_partials := None,
          r_partialResolver := None, r_output := None, r_outputBytes := 0, r_nodeVisits := 0,
          r_lambdaTemplateBytes := 0, r_indentationStack := [], r_activeDepth := 0,
          r_rendering := False, r_lambdaCallbackDepth := 0\<rparr>))"

definition renderer_init ::
    "node option \<Rightarrow> data option \<Rightarrow> partial_map option \<Rightarrow> nat option \<Rightarrow> render_limits \<Rightarrow> ('w, unit) rend" where
  "renderer_init node data ps out limits =
     then_eff already_rendering
       (then_eff renderer_clear
         (writes (\<lambda>s. s\<lparr>r_node := node, r_data := data,
            r_partials := (case ps of None \<Rightarrow> r_partials s
                           | Some m \<Rightarrow> if length m > 0 then Some m else r_partials s),
            r_output := out, r_limits := limits\<rparr>)))"

definition renderer_init_default ::
    "node option \<Rightarrow> data option \<Rightarrow> partial_map option \<Rightarrow> nat option \<Rightarrow> ('w, unit) rend" where
  "renderer_init_default node data ps out = renderer_init node data ps out default_render_limits"

definition setNode :: "node option \<Rightarrow> ('w, unit) rend" where
  "setNode node = then_eff already_rendering (writes (\<lambda>s. s\<lparr>r_node := node\<rparr>))"

definition renderer_setData :: "data option \<Rightarrow> ('w, unit) rend" where
  "renderer_setData data = then_eff already_rendering (writes (\<lambda>s. s\<lparr>r_data := data\<rparr>))"

definition setPartials :: "partial_map option \<Rightarrow> ('w, unit) rend" where
  "setPartials ps = then_eff already_rendering (writes (\<lambda>s. s\<lparr>r_partials := ps\<rparr>))"

definition setOutput :: "nat option \<Rightarrow> ('w, unit) rend" where
  "setOutput out = then_eff already_rendering (writes (\<lambda>s. s\<lparr>r_output := out\<rparr>))"

definition setPartialResolver :: "partial_lookup option \<Rightarrow> ('w, unit) rend" where
  "setPartialResolver resolver =
     then_eff already_rendering (writes (\<lambda>s. s\<lparr>r_partialResolver := resolver\<rparr>))"

section \<open>Strings and budgets\<close>

definition output_limit :: exn where
  "output_limit = Exception ''Render output byte limit exceeded''"

definition lambda_limit :: exn where
  "lambda_limit = Exception ''Render lambda template byte limit exceeded''"

definition visit_limit :: exn where
  "visit_limit = Exception ''Render node visit limit exceeded''"

definition nesting_limit :: exn where
  "nesting_limit = Exception ''Render nesting limit exceeded''"

text \<open>A new empty local string, and appending to a string.\<close>

definition new_string :: "('w, nat) rend" where
  "new_string = bind_eff (reads r_nextString) (\<lambda>b.
     then_eff (writes (\<lambda>s. s\<lparr>r_strings := (r_strings s)(b := []), r_nextString := Suc b\<rparr>)) (ret b))"

definition string_append :: "nat \<Rightarrow> string \<Rightarrow> ('w, unit) rend" where
  "string_append b v = writes (\<lambda>s. s\<lparr>r_strings := (r_strings s)(b := r_strings s b @ v)\<rparr>)"

definition consumeOutputBytes :: "nat \<Rightarrow> ('w, unit) rend" where
  "consumeOutputBytes bytes =
     then_eff (throw_when (\<lambda>s. r_outputBytes s > maxOutputBytes (r_limits s)
                  \<or> bytes > maxOutputBytes (r_limits s) - r_outputBytes s) output_limit)
       (writes (\<lambda>s. s\<lparr>r_outputBytes := r_outputBytes s + bytes\<rparr>))"

definition consumeLambdaTemplate :: "nat \<Rightarrow> ('w, unit) rend" where
  "consumeLambdaTemplate bytes =
     then_eff (throw_when (\<lambda>s. r_lambdaTemplateBytes s > maxLambdaTemplateBytes (r_limits s)
                  \<or> bytes > maxLambdaTemplateBytes (r_limits s) - r_lambdaTemplateBytes s) lambda_limit)
       (writes (\<lambda>s. s\<lparr>r_lambdaTemplateBytes := r_lambdaTemplateBytes s + bytes\<rparr>))"

definition consumeNodeVisit :: "('w, unit) rend" where
  "consumeNodeVisit =
     then_eff (throw_when (\<lambda>s. r_nodeVisits s \<ge> maxNodeVisits (r_limits s)) visit_limit)
       (writes (\<lambda>s. s\<lparr>r_nodeVisits := r_nodeVisits s + 1\<rparr>))"

text \<open>\<open>max\<close> is \<open>std::string::max_size()\<close>, which the implementation chooses.\<close>

definition output_maximum :: "nat \<Rightarrow> 'w renderer \<Rightarrow> nat" where
  "output_maximum mx s = min (maxOutputBytes (r_limits s)) mx"

definition with_output :: "(nat \<Rightarrow> ('w, unit) rend) \<Rightarrow> ('w, unit) rend" where
  "with_output f = bind_eff (reads r_output) (\<lambda>out.
     case out of None \<Rightarrow> throw (Exception ''Missing output buffer'') | Some b \<Rightarrow> f b)"

definition append_out :: "nat \<Rightarrow> string \<Rightarrow> ('w, unit) rend" where
  "append_out mx v = with_output (\<lambda>b.
     then_eff (throw_when (\<lambda>s. length (r_strings s b) > output_maximum mx s
                  \<or> length v > output_maximum mx s - length (r_strings s b)) output_limit)
       (then_eff (consumeOutputBytes (length v))
         (if v \<noteq> [] then string_append b v else ret ())))"

section \<open>Escaped output\<close>

fun escapedValue :: "char \<Rightarrow> string" where
  "escapedValue c =
     (if c = CHR ''&'' then ''&amp;''
      else if c = CHR 0x22 then ''&quot;''
      else if c = CHR 0x27 then ''&#039;''
      else if c = CHR ''<'' then ''&lt;''
      else if c = CHR ''>'' then ''&gt;''
      else [])"

declare escapedValue.simps [simp del]

text \<open>The first loop adds up the sizes as long as they fit, the second writes.\<close>

fun escape_addition :: "nat \<Rightarrow> nat \<Rightarrow> string \<Rightarrow> nat option" where
  "escape_addition available addition [] = Some addition"
| "escape_addition available addition (c # cs) =
     (let bytes = (if escapedValue c = [] then 1 else length (escapedValue c)) in
      if bytes > available - addition then None
      else escape_addition available (addition + bytes) cs)"

fun escape_into :: "string \<Rightarrow> string \<Rightarrow> string" where
  "escape_into [] buf = buf"
| "escape_into (c # cs) buf =
     escape_into cs (if escapedValue c = [] then buf @ [c] else buf @ escapedValue c)"

text \<open>
  When the value is the output string itself the code takes a copy first, which a value
  already is.
\<close>

definition append_escaped :: "nat \<Rightarrow> string \<Rightarrow> bool \<Rightarrow> ('w, unit) rend" where
  "append_escaped mx v inputAlreadyCounted = with_output (\<lambda>b.
     then_eff (throw_when (\<lambda>s. length (r_strings s b) > output_maximum mx s) output_limit)
       (bind_eff (reads (\<lambda>s. escape_addition (output_maximum mx s - length (r_strings s b)) 0 v)) (\<lambda>r.
          case r of
            None \<Rightarrow> throw output_limit
          | Some addition \<Rightarrow>
              then_eff (consumeOutputBytes (if inputAlreadyCounted then addition - length v else addition))
                (writes (\<lambda>s. s\<lparr>r_strings := (r_strings s)(b := escape_into v (r_strings s b))\<rparr>)))))"

section \<open>Indentation\<close>

fun set_line_start :: "bool \<Rightarrow> indentation_frame list \<Rightarrow> indentation_frame list" where
  "set_line_start b [] = []"
| "set_line_start b (f # fs) = f\<lparr>if_atLineStart := b\<rparr> # fs"

definition write_line_start :: "bool \<Rightarrow> ('w, unit) rend" where
  "write_line_start b = writes (\<lambda>s. s\<lparr>r_indentationStack := set_line_start b (r_indentationStack s)\<rparr>)"

definition appendIndentation :: "nat \<Rightarrow> indentation_frame \<Rightarrow> ('w, unit) rend" where
  "appendIndentation mx frame = each_eff (append_out mx) (if_components frame)"

text \<open>The indentation of a line, when the frame is at the start of one.\<close>

definition begin_line :: "nat \<Rightarrow> ('w, unit) rend" where
  "begin_line mx = bind_eff (reads r_indentationStack) (\<lambda>frames.
     case frames of
       [] \<Rightarrow> ret ()
     | frame # _ \<Rightarrow>
         (if if_atLineStart frame then then_eff (appendIndentation mx frame) (write_line_start False)
          else ret ()))"

text \<open>The loop of \<open>_appendTemplateOutput\<close> from the current offset.\<close>

function append_lines :: "nat \<Rightarrow> string \<Rightarrow> ('w, unit) rend" where
  "append_lines mx v =
     (if v = [] then ret ()
      else then_eff (begin_line mx)
        (case find_idx (\<lambda>c. c = CHR 0x0A) v of
           None \<Rightarrow> append_out mx v
         | Some newline \<Rightarrow>
             then_eff (append_out mx (take (newline + 1) v))
               (then_eff (write_line_start True) (append_lines mx (drop (newline + 1) v)))))"
  by pat_completeness auto
termination
  by (relation "measure (\<lambda>(mx, v). length v)") auto

declare append_lines.simps [simp del]

definition appendTemplateOutput :: "nat \<Rightarrow> string \<Rightarrow> ('w, unit) rend" where
  "appendTemplateOutput mx v = bind_eff (reads r_indentationStack) (\<lambda>frames.
     if frames = [] then append_out mx v else append_lines mx v)"

definition consumeTemplateSource :: "string \<Rightarrow> ('w, unit) rend" where
  "consumeTemplateSource v = bind_eff (reads r_indentationStack) (\<lambda>frames.
     case frames of
       [] \<Rightarrow> ret ()
     | frame # _ \<Rightarrow>
         (if v = [] then write_line_start False
          else write_line_start (fold (\<lambda>c _. c = CHR 0x0A) v (if_atLineStart frame))))"

definition beginTemplateTag :: "nat \<Rightarrow> ('w, unit) rend" where
  "beginTemplateTag mx = begin_line mx"

section \<open>Templates from lambdas\<close>

lemma size_child_option: "c \<in> set (children n) \<Longrightarrow> size_option size c < size n"
  by (rule le_less_trans [OF size_list_estimation' [OF _ order_refl]]) (assumption, simp)

function consumeLambdaNodes :: "node option \<Rightarrow> ('w, unit) rend" where
  "consumeLambdaNodes None = throw (Exception ''Invalid null child node'')"
| "consumeLambdaNodes (Some n) =
     then_eff consumeNodeVisit
       (then_eff (case child n of None \<Rightarrow> ret () | Some c \<Rightarrow> consumeLambdaNodes (Some c))
         (each_eff consumeLambdaNodes (children n)))"
  by pat_completeness auto
termination
  by (relation "measure (size_option size)") (auto simp: size_child size_child_option less_SucI)

declare consumeLambdaNodes.simps [simp del]

definition fresh_id :: "('w, nat) rend" where
  "fresh_id = bind_eff (reads r_nextId) (\<lambda>i.
     then_eff (writes (\<lambda>s. s\<lparr>r_nextId := Suc i\<rparr>)) (ret i))"

text \<open>
  The limits of a parse inside a render: the node budget left is the parser's node limit,
  and an error that comes from that limit is reported as the renderer's.
\<close>

definition lambda_tokenizer_limits :: "'w renderer \<Rightarrow> tokenizer_limits" where
  "lambda_tokenizer_limits s =
     default_tokenizer_limits\<lparr>tkl_maxInputBytes := maxLambdaTemplateBytes (r_limits s),
       tkl_maxNodes := min (tkl_maxNodes default_tokenizer_limits)
                         (maxNodeVisits (r_limits s) - r_nodeVisits s - 1)\<rparr>"

definition limited_by_render_budget :: "'w renderer \<Rightarrow> bool" where
  "limited_by_render_budget s \<longleftrightarrow>
     maxNodeVisits (r_limits s) - r_nodeVisits s - 1 \<le> tkl_maxNodes default_tokenizer_limits"

fun remap_tokenizer_error :: "bool \<Rightarrow> exn \<Rightarrow> exn" where
  "remap_tokenizer_error limited (TokenizerException m l c) =
     (if limited \<and> m = ''Template node count limit exceeded'' then visit_limit
      else TokenizerException m l c)"
| "remap_tokenizer_error limited e = e"

definition tokenizeLambda ::
    "tokenizer option \<Rightarrow> string \<Rightarrow> node option \<Rightarrow> bool \<Rightarrow> ('w, node) rend" where
  "tokenizeLambda tk source root escapeOutput =
     (case tk of
        None \<Rightarrow> throw (Exception ''Missing lambda tokenizer state'')
      | Some tk' \<Rightarrow>
          (if root = None then throw (Exception ''Missing lambda tokenizer state'')
           else then_eff (throw_when (\<lambda>s. r_nodeVisits s \<ge> maxNodeVisits (r_limits s)) visit_limit)
             (bind_eff fresh_id (\<lambda>fresh.
              bind_eff (reads (\<lambda>s. case tokenize tk' fresh source root (lambda_tokenizer_limits s) escapeOutput of
                                     Inl e \<Rightarrow> Inl (remap_tokenizer_error (limited_by_render_budget s) e)
                                   | Inr n \<Rightarrow> Inr n)) (\<lambda>r.
              bind_eff (lift_result r) (\<lambda>n.
              then_eff (consumeLambdaNodes (Some n)) (ret n)))))))"

text \<open>The local string a section's source is rebuilt in is passed as a value.\<close>

definition appendLambdaTemplate :: "nat \<Rightarrow> string option \<Rightarrow> string \<Rightarrow> ('w, string) rend" where
  "appendLambdaTemplate mx output v =
     (case output of
        None \<Rightarrow> throw (Exception ''Missing lambda template buffer'')
      | Some out \<Rightarrow>
          (if length out > mx \<or> length v > mx - length out then throw lambda_limit
           else then_eff (consumeLambdaTemplate (length v)) (ret (out @ v))))"

end
