(* ===== verification/Lambda.thy ===== *)
theory Lambda
  imports Renderer
begin

text \<open>
  The callback interface of src/lambda.hpp and src/lambda.cpp: results with an explicit
  interpretation, the callback's rendering context, the virtual functions with the default
  implementation of each, and the registry of active engines of src/render_engine.hpp.

  What a callback does is the user's code, so it is data here: a \<open>callback\<close> is a tree
  of the calls it makes into the library, branching on each answer, which ends in a result
  or a throw. It may keep state of its own between calls (\<open>'w\<close>), catch the exceptions
  the library throws at it, hold on to contexts of other frames, and call any public
  operation of the renderer it was handed. The library's answers are computed by the
  interpreter in Engine. Strings the callback does not own are read-only to it.
\<close>

section \<open>Results\<close>

datatype LambdaResultKind = KindInherit | KindLiteral | KindTemplate

record lambda_result =
  lr_kind :: LambdaResultKind
  lr_text :: string

definition fromString :: "string \<Rightarrow> lambda_result" where
  "fromString text = \<lparr>lr_kind = KindInherit, lr_text = text\<rparr>"

definition literal_result :: "string \<Rightarrow> lambda_result" where
  "literal_result text = \<lparr>lr_kind = KindLiteral, lr_text = text\<rparr>"

definition templateSource :: "string \<Rightarrow> lambda_result" where
  "templateSource text = \<lparr>lr_kind = KindTemplate, lr_text = text\<rparr>"

section \<open>Callbacks\<close>

text \<open>The public operations that set a renderer up, as a callback may try to call them.\<close>

datatype 'w renderer_call =
    CallClear
  | CallInit "node option" "data option" "partial_map option" "nat option" render_limits
  | CallSetNode "node option"
  | CallSetData "data option"
  | CallSetPartials "partial_map option"
  | CallSetOutput "nat option"
  | CallSetLambdaStringMode int

text \<open>
  \<open>CtxRender\<close> is \<open>render\<close> into a string of the callback, \<open>CtxRenderOwned\<close> the
  overload that returns the text, \<open>CtxRenderTemplate\<close> is \<open>renderTemplate\<close>,
  \<open>LegacyRenderer\<close> asks the context for the renderer pointer,
  \<open>RenderForLambda\<close> and \<open>RenderAgain\<close> are \<open>renderForLambda\<close> and
  \<open>render\<close> on such a pointer.
\<close>

datatype ('w, 'a) callback =
    Return 'a
  | Throw exn
  | GetWorld "'w \<Rightarrow> ('w, 'a) callback"
  | SetWorld 'w "('w, 'a) callback"
  | NewString string "nat \<Rightarrow> ('w, 'a) callback"
  | ReadString nat "string \<Rightarrow> ('w, 'a) callback"
  | CtxActive nat "bool \<Rightarrow> ('w, 'a) callback"
  | CtxRender nat node nat "unit result \<Rightarrow> ('w, 'a) callback"
  | CtxRenderOwned nat node "string result \<Rightarrow> ('w, 'a) callback"
  | CtxRenderTemplate nat string "lambda_result result \<Rightarrow> ('w, 'a) callback"
  | LegacyRenderer nat "unit result \<Rightarrow> ('w, 'a) callback"
  | RenderForLambda "node option" "nat option" "unit result \<Rightarrow> ('w, 'a) callback"
  | RenderAgain "unit result \<Rightarrow> ('w, 'a) callback"
  | RendererCall "'w renderer_call" "unit result \<Rightarrow> ('w, 'a) callback"

primrec bind_callback :: "('w, 'a) callback \<Rightarrow> ('a \<Rightarrow> ('w, 'b) callback) \<Rightarrow> ('w, 'b) callback" where
  "bind_callback (Return x) f = f x"
| "bind_callback (Throw e) f = Throw e"
| "bind_callback (GetWorld k) f = GetWorld (\<lambda>w. bind_callback (k w) f)"
| "bind_callback (SetWorld w k) f = SetWorld w (bind_callback k f)"
| "bind_callback (NewString s k) f = NewString s (\<lambda>b. bind_callback (k b) f)"
| "bind_callback (ReadString b k) f = ReadString b (\<lambda>s. bind_callback (k s) f)"
| "bind_callback (CtxActive c k) f = CtxActive c (\<lambda>b. bind_callback (k b) f)"
| "bind_callback (CtxRender c n b k) f = CtxRender c n b (\<lambda>r. bind_callback (k r) f)"
| "bind_callback (CtxRenderOwned c n k) f = CtxRenderOwned c n (\<lambda>r. bind_callback (k r) f)"
| "bind_callback (CtxRenderTemplate c s k) f = CtxRenderTemplate c s (\<lambda>r. bind_callback (k r) f)"
| "bind_callback (LegacyRenderer c k) f = LegacyRenderer c (\<lambda>r. bind_callback (k r) f)"
| "bind_callback (RenderForLambda n b k) f = RenderForLambda n b (\<lambda>r. bind_callback (k r) f)"
| "bind_callback (RenderAgain k) f = RenderAgain (\<lambda>r. bind_callback (k r) f)"
| "bind_callback (RendererCall c k) f = RendererCall c (\<lambda>r. bind_callback (k r) f)"

section \<open>The virtual functions\<close>

text \<open>
  A \<open>Lambda\<close> object: the overrides its class defines, \<open>None\<close> where it inherits the
  default. The text argument is the callback's own copy.
\<close>

record 'w lambda_impl =
  li_invoke :: "('w, string) callback option"
  li_invokeLegacy :: "(string \<Rightarrow> ('w, string) callback) option"
  li_invokeScoped :: "(string \<Rightarrow> nat \<Rightarrow> ('w, string) callback) option"
  li_invokeResult :: "('w, lambda_result) callback option"
  li_invokeSectionResult :: "(string \<Rightarrow> nat \<Rightarrow> ('w, lambda_result) callback) option"

definition lambda_invoke :: "'w lambda_impl \<Rightarrow> ('w, string) callback" where
  "lambda_invoke l =
     (case li_invoke l of
        Some f \<Rightarrow> f
      | None \<Rightarrow> Throw (Exception ''Interpolation lambda callback is not implemented''))"

definition lambda_invoke_legacy :: "'w lambda_impl \<Rightarrow> string \<Rightarrow> ('w, string) callback" where
  "lambda_invoke_legacy l text =
     (case li_invokeLegacy l of
        Some f \<Rightarrow> f text
      | None \<Rightarrow> Throw (Exception ''Legacy section lambda callback is not implemented''))"

text \<open>The adapter to the legacy callback asks the context for the renderer first.\<close>

definition lambda_invoke_scoped :: "'w lambda_impl \<Rightarrow> string \<Rightarrow> nat \<Rightarrow> ('w, string) callback" where
  "lambda_invoke_scoped l text ctx =
     (case li_invokeScoped l of
        Some f \<Rightarrow> f text ctx
      | None \<Rightarrow> LegacyRenderer ctx (\<lambda>r.
          case r of Inl e \<Rightarrow> Throw e | Inr u \<Rightarrow> lambda_invoke_legacy l text))"

definition lambda_invokeResult :: "'w lambda_impl \<Rightarrow> ('w, lambda_result) callback" where
  "lambda_invokeResult l =
     (case li_invokeResult l of
        Some f \<Rightarrow> f
      | None \<Rightarrow> bind_callback (lambda_invoke l) (\<lambda>s. Return (fromString s)))"

definition lambda_invokeSectionResult ::
    "'w lambda_impl \<Rightarrow> string \<Rightarrow> nat \<Rightarrow> ('w, lambda_result) callback" where
  "lambda_invokeSectionResult l text ctx =
     (case li_invokeSectionResult l of
        Some f \<Rightarrow> f text ctx
      | None \<Rightarrow> bind_callback (lambda_invoke_scoped l text ctx) (\<lambda>s. Return (fromString s)))"

section \<open>Contexts\<close>

definition inactive :: exn where
  "inactive = Exception ''Lambda render context is no longer active''"

text \<open>
  A context is the number of its shared state; any other number stands for a default
  constructed context, which has none.
\<close>

definition context_state :: "nat \<Rightarrow> 'w renderer \<Rightarrow> render_context option" where
  "context_state c s = (if c < length (r_contexts s) then Some (r_contexts s ! c) else None)"

definition context_active :: "nat \<Rightarrow> 'w renderer \<Rightarrow> bool" where
  "context_active c s = (case context_state c s of None \<Rightarrow> False | Some st \<Rightarrow> rc_active st)"

definition new_context :: "string \<Rightarrow> string \<Rightarrow> bool \<Rightarrow> ('w, nat) rend" where
  "new_context start stop escapeOutput =
     bind_eff (reads (\<lambda>s. length (r_contexts s))) (\<lambda>c.
       then_eff (writes (\<lambda>s. s\<lparr>r_contexts := r_contexts s @
           [\<lparr>rc_active = True, rc_start = start, rc_stop = stop, rc_escapeOutput = escapeOutput\<rparr>]\<rparr>))
         (ret c))"

definition context_invalidate :: "nat \<Rightarrow> 'w renderer \<Rightarrow> 'w renderer" where
  "context_invalidate c s =
     s\<lparr>r_contexts := (r_contexts s)[c := (r_contexts s ! c)\<lparr>rc_active := False\<rparr>]\<rparr>"

text \<open>The test every operation of a context begins with.\<close>

definition require_active :: "nat \<Rightarrow> ('w, render_context) rend" where
  "require_active c = bind_eff (reads (context_state c)) (\<lambda>st.
     case st of
       None \<Rightarrow> throw inactive
     | Some x \<Rightarrow> if \<not> rc_active x then throw inactive else ret x)"

definition legacyRenderer :: "nat \<Rightarrow> ('w, unit) rend" where
  "legacyRenderer c = bind_eff (require_active c) (\<lambda>_. ret ())"

section \<open>The registry of active engines\<close>

text \<open>
  The process-wide list of scopes, the current one first. A scope is taken out wherever it
  stands in the list, as callbacks may end in any order.
\<close>

definition scope_push :: "engine_scope \<Rightarrow> engine_scope list \<Rightarrow> engine_scope list" where
  "scope_push e current = e # current"

fun scope_remove :: "nat \<Rightarrow> engine_scope list \<Rightarrow> engine_scope list" where
  "scope_remove i [] = []"
| "scope_remove i (e # es) = (if es_id e = i then es else e # scope_remove i es)"

fun scope_find :: "nat \<Rightarrow> engine_scope list \<Rightarrow> nat option" where
  "scope_find r [] = None"
| "scope_find r (e # es) = (if es_renderer e = r then Some (es_engine e) else scope_find r es)"

lemma scope_remove_push [simp]: "scope_remove (es_id e) (scope_push e es) = es"
  by (simp add: scope_push_def)

lemma scope_find_push: "scope_find r (scope_push e es) = (if es_renderer e = r then Some (es_engine e) else scope_find r es)"
  by (simp add: scope_push_def)

end
