(* ===== verification/Engine.thy ===== *)
theory Engine
  imports Lambda
begin

text \<open>
  The render engine of src/render_engine.hpp with the entry points of src/renderer.cpp that
  drive it: partial lookup, data lookup, sections, values, partials, section lambdas with
  their source text, the interpreter of callbacks, and the traversal \<open>renderNode\<close>.

  \<open>renderNode\<close> calls itself one level deeper, directly or through a callback that
  renders. One level is \<open>renderNode_body\<close>, over the renderer \<open>rec\<close> of the next;
  \<open>render_level n\<close> puts \<open>n\<close> levels together. The nesting ceiling of the code is
  256 active nodes, so \<open>renderNode\<close> uses 257 levels; that a larger number changes
  nothing, so that the levels never run out, is proved in Engine_Props.
\<close>

section \<open>The surroundings of an engine\<close>

text \<open>
  What the engine is given from outside: how the standard library prints a double, the
  user's lambda objects by identity, \<open>std::string::max_size()\<close>, and the addresses of
  the renderer and of the engine.
\<close>

record 'w render_env =
  env_to_chars :: "64 word \<Rightarrow> string"
  env_lambdas :: "nat \<Rightarrow> 'w lambda_impl"
  env_max_size :: nat
  env_renderer :: nat
  env_engine :: nat

text \<open>
  The renderer of a node at a depth, with the indentation of a standalone partial and the
  mark of a node that carries it. The null node is \<open>None\<close>.
\<close>

type_synonym 'w node_renderer = "node option \<Rightarrow> nat \<Rightarrow> string option \<Rightarrow> bool \<Rightarrow> ('w, unit) rend"

section \<open>Partials\<close>

definition lookup_partial :: "string \<Rightarrow> partial_map \<Rightarrow> node option" where
  "lookup_partial key m = (case map_of m key of None \<Rightarrow> None | Some p \<Rightarrow> p)"

text \<open>
  \<open>OwnedPartialSource\<close>: the compiled resolver first, then the caller's map, then the
  partials of the root. A null entry counts as absent.
\<close>

definition owned_partials ::
    "partial_lookup option \<Rightarrow> partial_map option \<Rightarrow> node option \<Rightarrow> partial_lookup" where
  "owned_partials resolver external root key =
     bind_result (case resolver of None \<Rightarrow> Inr None | Some f \<Rightarrow> f key) (\<lambda>resolved.
       case resolved of
         Some p \<Rightarrow> Inr (Some p)
       | None \<Rightarrow>
           (case (case external of None \<Rightarrow> None | Some m \<Rightarrow> lookup_partial key m) of
              Some p \<Rightarrow> Inr (Some p)
            | None \<Rightarrow> Inr (case root of None \<Rightarrow> None | Some r \<Rightarrow> lookup_partial key (partials r))))"

definition isPartialIndentation :: "string \<Rightarrow> bool" where
  "isPartialIndentation value \<longleftrightarrow> list_all (\<lambda>c. c = CHR '' '' \<or> c = CHR 0x09) value"

definition invalid_indentation :: exn where
  "invalid_indentation = Exception ''Invalid standalone partial indentation metadata''"

definition indentation_flags :: int where
  "indentation_flags = FlagLambdaOnly OR FlagPartialIndent"

definition indentation_metadata :: "node \<Rightarrow> bool" where
  "indentation_metadata n \<longleftrightarrow>
     ntype n = TypeOutput \<and> nflags n = indentation_flags
     \<and> (case ndata n of None \<Rightarrow> False | Some d \<Rightarrow> isPartialIndentation d)"

definition validatePartialIndentation :: "node option \<Rightarrow> node option \<Rightarrow> string option result" where
  "validatePartialIndentation c nextChild =
     (case c of
        None \<Rightarrow> Inr None
      | Some n \<Rightarrow>
          if \<not> has_flag (nflags n) FlagPartialIndent then Inr None
          else if \<not> indentation_metadata n
                  \<or> (case nextChild of None \<Rightarrow> True | Some m \<Rightarrow> ntype m \<noteq> TypePartial)
          then Inl invalid_indentation
          else Inr (ndata n))"

definition head_child :: "node option list \<Rightarrow> node option" where
  "head_child cs = (case cs of [] \<Rightarrow> None | c # _ \<Rightarrow> c)"

section \<open>Children\<close>

text \<open>
  A standalone partial is rendered with the indentation its metadata node holds, and both
  are consumed.
\<close>

fun renderChildren :: "'w node_renderer \<Rightarrow> nat \<Rightarrow> node option list \<Rightarrow> ('w, unit) rend" where
  "renderChildren rec depth [] = ret ()"
| "renderChildren rec depth (c # rest) =
     bind_eff (lift_result (validatePartialIndentation c (head_child rest))) (\<lambda>ind.
       if ind = None then then_eff (rec c (depth + 1) None False) (renderChildren rec depth rest)
       else then_eff (rec c (depth + 1) None True)
              (then_eff (rec (head_child rest) (depth + 1) ind False)
                (renderChildren rec depth (tl rest))))"

section \<open>The source text of a section\<close>

definition nesting_check :: "nat \<Rightarrow> ('w, unit) rend" where
  "nesting_check depth =
     throw_when (\<lambda>s. depth \<ge> maxNestingDepth (r_limits s) \<or> depth \<ge> renderNestingCeiling) nesting_limit"

definition requireNodeData :: "node \<Rightarrow> string result" where
  "requireNodeData n =
     (case ndata n of None \<Rightarrow> Inl (Exception ''Invalid node without data'') | Some d \<Rightarrow> Inr d)"

text \<open>The loop over children that both text functions have, over the function for one child.\<close>

fun append_children ::
    "(node option \<Rightarrow> string \<Rightarrow> ('w, string) rend) \<Rightarrow> node option list \<Rightarrow> string \<Rightarrow> ('w, string) rend" where
  "append_children f [] out = ret out"
| "append_children f (c # rest) out =
     bind_eff (lift_result (validatePartialIndentation c (head_child rest))) (\<lambda>_.
       bind_eff (f c out) (append_children f rest))"

lemma append_children_cong [fundef_cong]:
  "cs = ds \<Longrightarrow> out = out' \<Longrightarrow> (\<And>c out. c \<in> set ds \<Longrightarrow> f c out = g c out) \<Longrightarrow>
     append_children f cs out = append_children g ds out'"
proof (induction ds arbitrary: cs out out')
  case (Cons d ds)
  then have "append_children f ds = append_children g ds" by (intro ext) auto
  with Cons.prems show ?case by simp
qed simp

text \<open>The pieces the printed tag consists of, in order; none for the other types.\<close>

fun lambda_sigil :: "node_type \<Rightarrow> int \<Rightarrow> string list" where
  "lambda_sigil ty flags =
     (if ty = TypeVariable \<and> \<not> has_flag flags FlagEscape then [''&''] else [])
     @ (if ty = TypeNegate then [''^''] else if ty = TypeSection then [''#'']
        else if ty = TypeStop then [''/''] else [])"

declare lambda_sigil.simps [simp del]

fun append_pieces :: "nat \<Rightarrow> string list \<Rightarrow> string \<Rightarrow> ('w, string) rend" where
  "append_pieces mx [] out = ret out"
| "append_pieces mx (p # ps) out = bind_eff (appendLambdaTemplate mx (Some out) p) (append_pieces mx ps)"

definition append_tag_text ::
    "nat \<Rightarrow> string list \<Rightarrow> node \<Rightarrow> string list \<Rightarrow> string \<Rightarrow> ('w, string) rend" where
  "append_tag_text mx before n after out =
     bind_eff (append_pieces mx before out) (\<lambda>out.
     bind_eff (lift_result (requireNodeData n)) (\<lambda>d.
     append_pieces mx (d # after) out))"

definition appendLambdaTag :: "nat \<Rightarrow> string \<Rightarrow> string \<Rightarrow> node \<Rightarrow> string \<Rightarrow> ('w, string) rend" where
  "appendLambdaTag mx start stop n out =
     (let ty = ntype n in
      if ty = TypeComment then append_tag_text mx [start, ''!''] n [stop] out
      else if ty = TypeOutput then append_tag_text mx [] n [] out
      else if ty = TypePartial then append_tag_text mx [start, ''>''] n [stop] out
      else if ty \<in> {TypeNegate, TypeSection, TypeStop, TypeVariable}
      then append_tag_text mx (start # lambda_sigil ty (nflags n)) n [stop] out
      else if ty \<in> {TypeRoot, TypeNone, TypeTag, TypeContainer, TypeInlinePartial} then ret out
      else throw (Exception ''Unknown tree node type''))"

definition appends_children :: "node_type \<Rightarrow> bool" where
  "appends_children ty \<longleftrightarrow> ty \<in> {TypeNegate, TypeSection, TypeStop, TypeVariable, TypeRoot}"

function appendLambdaNodeTemplate ::
    "nat \<Rightarrow> string \<Rightarrow> string \<Rightarrow> nat \<Rightarrow> node option \<Rightarrow> string \<Rightarrow> ('w, string) rend" where
  "appendLambdaNodeTemplate mx start stop depth None out = throw (Exception ''Invalid null child node'')"
| "appendLambdaNodeTemplate mx start stop depth (Some n) out =
     then_eff (nesting_check depth)
       (then_eff consumeNodeVisit
         (if \<not> type_and (ntype n) TypeHasNoString \<and> ndata n = None
          then throw (Exception ''Invalid node without data'')
          else bind_eff (appendLambdaTag mx start stop n out) (\<lambda>out'.
            if appends_children (ntype n)
            then append_children (appendLambdaNodeTemplate mx start stop (depth + 1)) (children n) out'
            else ret out')))"
  by pat_completeness auto
termination
  by (relation "measure (\<lambda>(mx, start, stop, depth, n, out). size_option size n)")
    (auto simp: size_child_option less_SucI)

declare appendLambdaNodeTemplate.simps [simp del]

definition section_child ::
    "nat \<Rightarrow> string \<Rightarrow> string \<Rightarrow> nat \<Rightarrow> node option \<Rightarrow> string \<Rightarrow> ('w, string) rend" where
  "section_child mx start stop depth c out =
     (case c of
        None \<Rightarrow> throw (Exception ''Invalid null child node'')
      | Some n \<Rightarrow>
          if ntype n = TypeStop
          then then_eff (nesting_check (depth + 1)) (then_eff consumeNodeVisit (ret out))
          else appendLambdaNodeTemplate mx start stop (depth + 1) c out)"

definition lambdaSectionText :: "nat \<Rightarrow> node \<Rightarrow> string \<Rightarrow> string \<Rightarrow> nat \<Rightarrow> ('w, string) rend" where
  "lambdaSectionText mx n start stop depth =
     (case originalSectionText n of
        Some original \<Rightarrow> appendLambdaTemplate mx (Some []) original
      | None \<Rightarrow> append_children (section_child mx start stop depth) (children n) [])"

section \<open>Data lookup\<close>

definition findInMap :: "data option \<Rightarrow> string \<Rightarrow> data option" where
  "findInMap d key =
     (case d of
        None \<Rightarrow> None
      | Some x \<Rightarrow> if type_of_data x \<noteq> DTypeMap then None else data_find key x)"

fun search_contexts :: "string \<Rightarrow> data list \<Rightarrow> data option" where
  "search_contexts key [] = None"
| "search_contexts key (d # ds) =
     (case findInMap (Some d) key of Some r \<Rightarrow> Some r | None \<Rightarrow> search_contexts key ds)"

fun walk_parts :: "data option \<Rightarrow> string list \<Rightarrow> data option" where
  "walk_parts None ps = None"
| "walk_parts (Some r) [] = Some r"
| "walk_parts (Some r) (p # ps) =
     (if type_of_data r \<noteq> DTypeMap then None else walk_parts (findInMap (Some r) p) ps)"

text \<open>\<open>renderNode\<close> has checked that the stack is not empty.\<close>

definition data_lookup :: "bool \<Rightarrow> data list \<Rightarrow> node \<Rightarrow> data option result" where
  "data_lookup strict contexts n =
     (case ndata n of
        None \<Rightarrow> Inl (Exception ''Invalid node without data'')
      | Some name \<Rightarrow>
          Inr (if name = ''.'' then Some (hd contexts)
               else if strict then findInMap (Some (hd contexts)) name
               else (case dataParts n of
                       [] \<Rightarrow> search_contexts name contexts
                     | p # ps \<Rightarrow> walk_parts (search_contexts p contexts) ps)))"

section \<open>Scope guards\<close>

text \<open>
  Each guarded region of the code: set, run, and restore on the way out, normal or not.
\<close>

definition with_indentation :: "string list \<Rightarrow> ('w, 'a) rend \<Rightarrow> ('w, 'a) rend" where
  "with_indentation components m =
     then_eff (writes (\<lambda>s. s\<lparr>r_indentationStack := new_frame components # r_indentationStack s\<rparr>))
       (on_exit (\<lambda>s. s\<lparr>r_indentationStack := tl (r_indentationStack s)\<rparr>) m)"

definition with_context :: "data \<Rightarrow> ('w, 'a) rend \<Rightarrow> ('w, 'a) rend" where
  "with_context d m =
     then_eff (writes (\<lambda>s. s\<lparr>r_stack := d # r_stack s\<rparr>))
       (on_exit (\<lambda>s. s\<lparr>r_stack := tl (r_stack s)\<rparr>) m)"

definition to_output :: "nat \<Rightarrow> ('w, 'a) rend \<Rightarrow> ('w, 'a) rend" where
  "to_output b m = bind_eff (reads r_output) (\<lambda>parent.
     then_eff (writes (\<lambda>s. s\<lparr>r_output := Some b\<rparr>))
       (on_exit (\<lambda>s. s\<lparr>r_output := parent\<rparr>) m))"

definition at_depth :: "nat \<Rightarrow> ('w, 'a) rend \<Rightarrow> ('w, 'a) rend" where
  "at_depth depth m = bind_eff (reads r_activeDepth) (\<lambda>parent.
     then_eff (writes (\<lambda>s. s\<lparr>r_activeDepth := depth\<rparr>))
       (on_exit (\<lambda>s. s\<lparr>r_activeDepth := parent\<rparr>) m))"

text \<open>The scope of a section callback: registry entry, context, callback depth.\<close>

definition with_scope :: "nat \<Rightarrow> nat \<Rightarrow> ('w, 'a) rend \<Rightarrow> ('w, 'a) rend" where
  "with_scope self engine m = bind_eff fresh_id (\<lambda>i.
     then_eff (writes (\<lambda>s. s\<lparr>r_scopes :=
         scope_push \<lparr>es_id = i, es_renderer = self, es_engine = engine\<rparr> (r_scopes s)\<rparr>))
       (on_exit (\<lambda>s. s\<lparr>r_scopes := scope_remove i (r_scopes s)\<rparr>) m))"

definition with_callback_frame :: "nat \<Rightarrow> ('w, 'a) rend \<Rightarrow> ('w, 'a) rend" where
  "with_callback_frame c m =
     then_eff (writes (\<lambda>s. s\<lparr>r_lambdaCallbackDepth := r_lambdaCallbackDepth s + 1\<rparr>))
       (on_exit (\<lambda>s. (context_invalidate c s)\<lparr>r_lambdaCallbackDepth := r_lambdaCallbackDepth s - 1\<rparr>) m)"

section \<open>Rendering from a callback\<close>

definition renderForLambda ::
    "'w render_env \<Rightarrow> 'w node_renderer \<Rightarrow> node option \<Rightarrow> nat option \<Rightarrow> ('w, unit) rend" where
  "renderForLambda E rec n out =
     then_eff (throw_when (\<lambda>s. \<not> r_rendering s \<or> r_lambdaCallbackDepth s = 0)
                (Exception ''Lambda renderer is no longer active''))
       (if n = None then throw (Exception ''Empty tree node'')
        else (case out of
          None \<Rightarrow> throw (Exception ''Missing output buffer'')
        | Some b \<Rightarrow> to_output b
            (then_eff (throw_when (\<lambda>s. length (r_strings s b) > maxOutputBytes (r_limits s)) output_limit)
              (with_indentation []
                (then_eff (throw_when (\<lambda>s. scope_find (env_renderer E) (r_scopes s) = None)
                             (Exception ''Missing active render engine''))
                  (bind_eff (reads r_activeDepth) (\<lambda>d. rec n (d + 1) None False)))))))"

definition context_render ::
    "'w render_env \<Rightarrow> 'w node_renderer \<Rightarrow> nat \<Rightarrow> node \<Rightarrow> nat \<Rightarrow> ('w, unit) rend" where
  "context_render E rec c n b =
     bind_eff (require_active c) (\<lambda>_. renderForLambda E rec (Some n) (Some b))"

definition context_render_owned ::
    "'w render_env \<Rightarrow> 'w node_renderer \<Rightarrow> nat \<Rightarrow> node \<Rightarrow> ('w, string) rend" where
  "context_render_owned E rec c n =
     bind_eff new_string (\<lambda>b. then_eff (context_render E rec c n b) (reads (\<lambda>s. r_strings s b)))"

definition context_renderResult ::
    "'w render_env \<Rightarrow> 'w node_renderer \<Rightarrow> nat \<Rightarrow> node \<Rightarrow> ('w, lambda_result) rend" where
  "context_renderResult E rec c n =
     bind_eff (context_render_owned E rec c n) (\<lambda>text. ret (literal_result text))"

definition context_renderTemplate ::
    "'w render_env \<Rightarrow> 'w node_renderer \<Rightarrow> nat \<Rightarrow> string \<Rightarrow> ('w, lambda_result) rend" where
  "context_renderTemplate E rec c source =
     bind_eff (require_active c) (\<lambda>st.
     then_eff (consumeLambdaTemplate (length source))
       (bind_eff (lift_result (bind_result (setStartSequence (rc_start st) new_tokenizer)
                                (setStopSequence (rc_stop st)))) (\<lambda>tk.
        bind_eff (tokenizeLambda (Some tk) source (Some empty_node) (rc_escapeOutput st)) (\<lambda>n.
        context_renderResult E rec c n))))"

section \<open>The root\<close>

text \<open>Reserving capacity for an empty output has no effect the model could show.\<close>

definition begin_render :: "'w renderer \<Rightarrow> 'w renderer" where
  "begin_render s =
     s\<lparr>r_rendering := True,
       r_outputBytes := (case r_output s of None \<Rightarrow> 0 | Some b \<Rightarrow> length (r_strings s b)),
       r_nodeVisits := 0, r_lambdaTemplateBytes := 0, r_indentationStack := [], r_activeDepth := 0,
       r_lambdaCallbackDepth := 0, r_stack := []\<rparr>"

definition end_render :: "'w renderer \<Rightarrow> 'w renderer" where
  "end_render s =
     s\<lparr>r_stack := [], r_indentationStack := [], r_activeDepth := 0, r_lambdaCallbackDepth := 0,
       r_rendering := False\<rparr>"

definition push_root_data :: "'w renderer \<Rightarrow> 'w renderer" where
  "push_root_data s = s\<lparr>r_stack := (case r_data s of None \<Rightarrow> [] | Some d \<Rightarrow> [d])\<rparr>"

definition renderRoot :: "'w node_renderer \<Rightarrow> node option \<Rightarrow> ('w, unit) rend" where
  "renderRoot rec root =
     then_eff already_rendering
       (if root = None then throw (Exception ''Empty tree'')
        else then_eff (throw_when (\<lambda>s. r_data s = None) (Exception ''Empty data''))
          (with_output (\<lambda>b.
            then_eff (throw_when (\<lambda>s. length (r_strings s b) > maxOutputBytes (r_limits s)) output_limit)
              (then_eff (writes begin_render)
                (on_exit end_render
                  (then_eff (writes push_root_data) (rec root 0 None False)))))))"

section \<open>The interpreter of callbacks\<close>

definition run_renderer_call :: "'w renderer_call \<Rightarrow> ('w, unit) rend" where
  "run_renderer_call c =
     (case c of
        CallClear \<Rightarrow> renderer_clear
      | CallInit n d ps out limits \<Rightarrow> renderer_init n d ps out limits
      | CallSetNode n \<Rightarrow> setNode n
      | CallSetData d \<Rightarrow> renderer_setData d
      | CallSetPartials ps \<Rightarrow> setPartials ps
      | CallSetOutput out \<Rightarrow> setOutput out
      | CallSetLambdaStringMode m \<Rightarrow> setLambdaStringMode m)"

text \<open>A call whose exception the callback sees, and may catch.\<close>

definition attempt :: "('s, 'a) eff \<Rightarrow> ('s, 'a result) eff" where
  "attempt m s = (case m s of (r, s') \<Rightarrow> (Inr r, s'))"

primrec run_callback ::
    "'w render_env \<Rightarrow> 'w node_renderer \<Rightarrow> ('w, 'a) callback \<Rightarrow> ('w, 'a) rend" where
  "run_callback E rec (Return x) = ret x"
| "run_callback E rec (Throw e) = throw e"
| "run_callback E rec (GetWorld k) = bind_eff (reads r_world) (\<lambda>w. run_callback E rec (k w))"
| "run_callback E rec (SetWorld w k) =
     then_eff (writes (\<lambda>s. s\<lparr>r_world := w\<rparr>)) (run_callback E rec k)"
| "run_callback E rec (NewString v k) =
     bind_eff new_string (\<lambda>b. then_eff (string_append b v) (run_callback E rec (k b)))"
| "run_callback E rec (ReadString b k) =
     bind_eff (reads (\<lambda>s. r_strings s b)) (\<lambda>v. run_callback E rec (k v))"
| "run_callback E rec (CtxActive c k) =
     bind_eff (reads (context_active c)) (\<lambda>b. run_callback E rec (k b))"
| "run_callback E rec (CtxRender c n b k) =
     bind_eff (attempt (context_render E rec c n b)) (\<lambda>r. run_callback E rec (k r))"
| "run_callback E rec (CtxRenderOwned c n k) =
     bind_eff (attempt (context_render_owned E rec c n)) (\<lambda>r. run_callback E rec (k r))"
| "run_callback E rec (CtxRenderTemplate c source k) =
     bind_eff (attempt (context_renderTemplate E rec c source)) (\<lambda>r. run_callback E rec (k r))"
| "run_callback E rec (LegacyRenderer c k) =
     bind_eff (attempt (legacyRenderer c)) (\<lambda>r. run_callback E rec (k r))"
| "run_callback E rec (RenderForLambda n out k) =
     bind_eff (attempt (renderForLambda E rec n out)) (\<lambda>r. run_callback E rec (k r))"
| "run_callback E rec (RenderAgain k) =
     bind_eff (attempt (bind_eff (reads r_node) (renderRoot rec))) (\<lambda>r. run_callback E rec (k r))"
| "run_callback E rec (RendererCall c k) =
     bind_eff (attempt (run_renderer_call c)) (\<lambda>r. run_callback E rec (k r))"

definition invokeSectionLambda ::
    "'w render_env \<Rightarrow> 'w node_renderer \<Rightarrow> nat option \<Rightarrow> string \<Rightarrow> string \<Rightarrow> string \<Rightarrow> bool
       \<Rightarrow> ('w, lambda_result) rend" where
  "invokeSectionLambda E rec l text start stop escapeOutput =
     (case l of
        None \<Rightarrow> throw (Exception ''Missing section lambda'')
      | Some i \<Rightarrow> with_scope (env_renderer E) (env_engine E)
          (bind_eff (new_context start stop escapeOutput) (\<lambda>c.
             with_callback_frame c
               (run_callback E rec (lambda_invokeSectionResult (env_lambdas E i) text c)))))"

section \<open>Values, sections, partials\<close>

definition isLiteralResult :: "LambdaStringMode \<Rightarrow> lambda_result \<Rightarrow> bool" where
  "isLiteralResult mode result \<longleftrightarrow>
     lr_kind result = KindLiteral \<or> (lr_kind result = KindInherit \<and> mode = ModeLiteral)"

definition append_value :: "'w render_env \<Rightarrow> node \<Rightarrow> string \<Rightarrow> ('w, unit) rend" where
  "append_value E n v =
     (if has_flag (nflags n) FlagEscape then append_escaped (env_max_size E) v False
      else append_out (env_max_size E) v)"

definition renderLambdaTemplate ::
    "'w render_env \<Rightarrow> 'w node_renderer \<Rightarrow> node \<Rightarrow> nat \<Rightarrow> node \<Rightarrow> ('w, unit) rend" where
  "renderLambdaTemplate E rec n depth parsed =
     with_indentation []
       (if has_flag (nflags n) FlagEscape
        then bind_eff new_string (\<lambda>b.
               then_eff (to_output b (rec (Some parsed) (depth + 1) None False))
                 (bind_eff (reads (\<lambda>s. r_strings s b)) (\<lambda>evaluated.
                    append_escaped (env_max_size E) evaluated True)))
        else rec (Some parsed) (depth + 1) None False)"

definition renderValueLambda ::
    "'w render_env \<Rightarrow> 'w node_renderer \<Rightarrow> node \<Rightarrow> nat \<Rightarrow> nat \<Rightarrow> ('w, unit) rend" where
  "renderValueLambda E rec n i depth =
     bind_eff (run_callback E rec (lambda_invokeResult (env_lambdas E i))) (\<lambda>result.
     bind_eff (reads r_lambdaStringMode) (\<lambda>mode.
       if isLiteralResult mode result then append_value E n (lr_text result)
       else then_eff (consumeLambdaTemplate (length (lr_text result)))
         (bind_eff (tokenizeLambda (Some new_tokenizer) (lr_text result) (Some empty_node) False)
           (renderLambdaTemplate E rec n depth))))"

text \<open>A null lambda is an empty value, which is not rendered.\<close>

definition renderValue ::
    "'w render_env \<Rightarrow> 'w node_renderer \<Rightarrow> node \<Rightarrow> data \<Rightarrow> nat \<Rightarrow> ('w, unit) rend" where
  "renderValue E rec n value depth =
     (case value of
        DString v \<Rightarrow> append_value E n v
      | DBoolean b \<Rightarrow> bind_eff (lift_result (toString (env_to_chars E) value)) (append_value E n)
      | DInteger i \<Rightarrow> bind_eff (lift_result (toString (env_to_chars E) value)) (append_value E n)
      | DDouble d sp \<Rightarrow> bind_eff (lift_result (toString (env_to_chars E) value)) (append_value E n)
      | DLambda l \<Rightarrow> (case l of None \<Rightarrow> ret () | Some i \<Rightarrow> renderValueLambda E rec n i depth)
      | _ \<Rightarrow> ret ())"

definition renderSectionLambda ::
    "'w render_env \<Rightarrow> 'w node_renderer \<Rightarrow> node \<Rightarrow> nat option \<Rightarrow> nat \<Rightarrow> ('w, unit) rend" where
  "renderSectionLambda E rec n l depth =
     (case (startSequence n, stopSequence n) of
        (Some start, Some stop) \<Rightarrow>
          bind_eff (lambdaSectionText (env_max_size E) n start stop depth) (\<lambda>text.
          bind_eff (invokeSectionLambda E rec l text start stop (has_flag (nflags n) FlagEscape)) (\<lambda>result.
          bind_eff (reads r_lambdaStringMode) (\<lambda>mode.
            if isLiteralResult mode result then append_out (env_max_size E) (lr_text result)
            else then_eff (consumeLambdaTemplate (length (lr_text result)))
              (bind_eff (lift_result (bind_result (setStartSequence start new_tokenizer)
                                        (setStopSequence stop))) (\<lambda>tk.
               bind_eff (tokenizeLambda (Some tk) (lr_text result) (Some empty_node)
                           (has_flag (nflags n) FlagEscape)) (\<lambda>parsed.
               with_indentation [] (rec (Some parsed) (depth + 1) None False)))))))
      | _ \<Rightarrow> throw (Exception ''Missing section delimiters''))"

definition renderSection ::
    "'w render_env \<Rightarrow> 'w node_renderer \<Rightarrow> node \<Rightarrow> data \<Rightarrow> nat \<Rightarrow> (data \<Rightarrow> ('w, unit) rend)
       \<Rightarrow> ('w, unit) rend" where
  "renderSection E rec n value depth renderWithContext =
     (case value of
        DList ds \<Rightarrow> each_eff renderWithContext ds
      | DArray ds \<Rightarrow> each_eff renderWithContext ds
      | DLambda l \<Rightarrow> renderSectionLambda E rec n l depth
      | DNone \<Rightarrow> ret ()
      | _ \<Rightarrow> renderWithContext value)"

definition partial_indentation :: "string option \<Rightarrow> indentation_frame list \<Rightarrow> string list" where
  "partial_indentation ind frames =
     (case ind of
        None \<Rightarrow> []
      | Some v \<Rightarrow> (case frames of [] \<Rightarrow> [] | f # _ \<Rightarrow> if_components f) @ (if v \<noteq> [] then [v] else []))"

definition renderPartial ::
    "'w render_env \<Rightarrow> partial_lookup \<Rightarrow> 'w node_renderer \<Rightarrow> node \<Rightarrow> nat \<Rightarrow> string option
       \<Rightarrow> ('w, unit) rend" where
  "renderPartial E partial_source rec n depth ind =
     then_eff (beginTemplateTag (env_max_size E))
       (case ndata n of
          None \<Rightarrow> throw (Exception ''Invalid node without data'')
        | Some name \<Rightarrow>
            bind_eff (reads (\<lambda>s. partial_indentation ind (r_indentationStack s))) (\<lambda>indentation.
              bind_eff (lift_result (partial_source name)) (\<lambda>found.
                case found of
                  None \<Rightarrow> ret ()
                | Some p \<Rightarrow> with_indentation indentation (rec (Some p) (depth + 1) None False))))"

section \<open>Nodes\<close>

definition value_is_empty :: "data option \<Rightarrow> bool" where
  "value_is_empty value = (case value of None \<Rightarrow> True | Some d \<Rightarrow> isEmpty d)"

definition renderNode_switch ::
    "'w render_env \<Rightarrow> partial_lookup \<Rightarrow> 'w node_renderer \<Rightarrow> node \<Rightarrow> nat \<Rightarrow> string option
       \<Rightarrow> data option \<Rightarrow> ('w, unit) rend" where
  "renderNode_switch E partial_source rec n depth ind value =
     (let mx = env_max_size E;
          renderWithContext = (\<lambda>d. with_context d (renderChildren rec depth (children n)))
      in case ntype n of
        TypeNone \<Rightarrow> ret ()
      | TypeComment \<Rightarrow> beginTemplateTag mx
      | TypeStop \<Rightarrow> beginTemplateTag mx
      | TypeInlinePartial \<Rightarrow> beginTemplateTag mx
      | TypeRoot \<Rightarrow> renderChildren rec depth (children n)
      | TypeOutput \<Rightarrow>
          (case ndata n of
             None \<Rightarrow> ret ()
           | Some v \<Rightarrow> if has_flag (nflags n) FlagLambdaOnly then consumeTemplateSource v
                       else appendTemplateOutput mx v)
      | TypeContainer \<Rightarrow>
          (if child n = None then throw (Exception ''Empty container node'')
           else rec (child n) (depth + 1) None False)
      | TypeTag \<Rightarrow> then_eff (beginTemplateTag mx)
          (case value of
             None \<Rightarrow> ret ()
           | Some d \<Rightarrow> if isEmpty d then ret () else renderValue E rec n d depth)
      | TypeVariable \<Rightarrow> then_eff (beginTemplateTag mx)
          (case value of
             None \<Rightarrow> ret ()
           | Some d \<Rightarrow> if isEmpty d then ret () else renderValue E rec n d depth)
      | TypeNegate \<Rightarrow> then_eff (beginTemplateTag mx)
          (if value_is_empty value then renderChildren rec depth (children n) else ret ())
      | TypeSection \<Rightarrow> then_eff (beginTemplateTag mx)
          (case value of
             None \<Rightarrow> ret ()
           | Some d \<Rightarrow> if isEmpty d then ret () else renderSection E rec n d depth renderWithContext)
      | TypePartial \<Rightarrow> renderPartial E partial_source rec n depth ind
      | _ \<Rightarrow> throw (Exception ''Unknown tree node type''))"

text \<open>The value of a node that has data, looked up with the current context stack.\<close>

definition node_value :: "node \<Rightarrow> ('w, data option) rend" where
  "node_value n =
     (if type_and (ntype n) TypeHasData
      then bind_eff (reads (\<lambda>s. data_lookup (r_strictPaths s) (r_stack s) n)) lift_result
      else ret None)"

definition renderNode_body ::
    "'w render_env \<Rightarrow> partial_lookup \<Rightarrow> 'w node_renderer \<Rightarrow> 'w node_renderer" where
  "renderNode_body E partial_source rec node depth ind metadata =
     (case node of
        None \<Rightarrow> throw (Exception ''Empty tree node'')
      | Some n \<Rightarrow>
          then_eff (nesting_check depth)
            (then_eff consumeNodeVisit
              (if has_flag (nflags n) FlagPartialIndent \<and> \<not> (metadata \<and> indentation_metadata n)
               then throw invalid_indentation
               else at_depth depth
                 (then_eff (throw_when (\<lambda>s. r_stack s = []) (Exception ''Whoops, empty data''))
                   (if \<not> type_and (ntype n) TypeHasNoString \<and> ndata n = None
                    then throw (Exception ''Whoops, empty tag'')
                    else bind_eff (node_value n)
                      (renderNode_switch E partial_source rec n depth ind))))))"

text \<open>Levels of nesting; the throw at level 0 is never reached.\<close>

primrec render_level ::
    "'w render_env \<Rightarrow> partial_lookup \<Rightarrow> nat \<Rightarrow> 'w node_renderer" where
  "render_level E partial_source 0 = (\<lambda>node depth ind metadata. throw nesting_limit)"
| "render_level E partial_source (Suc n) = renderNode_body E partial_source (render_level E partial_source n)"

definition render_levels :: nat where
  "render_levels = Suc renderNestingCeiling"

definition renderNode :: "'w render_env \<Rightarrow> partial_lookup \<Rightarrow> 'w node_renderer" where
  "renderNode E partial_source = render_level E partial_source render_levels"

text \<open>\<open>Renderer::render\<close>: the owned partial source over the renderer's fields.\<close>

definition renderer_render :: "'w render_env \<Rightarrow> ('w, unit) rend" where
  "renderer_render E =
     bind_eff (reads (\<lambda>s. owned_partials (r_partialResolver s) (r_partials s) (r_node s))) (\<lambda>partial_source.
     bind_eff (reads r_node) (renderRoot (renderNode E partial_source)))"

end
