(* ===== verification/Facade.thy ===== *)
theory Facade
  imports Engine Charconv
begin

text \<open>
  The public face of the library: \<open>Mustache\<close> of src/mustache.hpp and src/mustache.cpp, which
  holds a tokenizer and a renderer, and the compiled templates of src/compiled_template.cpp.
  A handle to a compiled template is the parsed tree it shares, or \<open>None\<close> when it is empty; a
  \<open>PartialMap\<close> is an association list. A renderer the library makes for one call lives in
  the same surroundings as its caller: strings, contexts, active engines and user state go
  in and come back.
\<close>

section \<open>The version number\<close>

text \<open>The scan: the three components, the one being read, and whether it has a digit.\<close>

fun encode_scan :: "nat list \<Rightarrow> nat \<Rightarrow> bool \<Rightarrow> string \<Rightarrow> (nat list \<times> nat \<times> bool) option" where
  "encode_scan components component hasDigit [] = Some (components, component, hasDigit)"
| "encode_scan components component hasDigit (v # vs) =
     (if isDigit v then
        (let digit = of_char v - 48 in
         if components ! component > (2 ^ 64 - 1 - digit) div 10 then None
         else encode_scan (components[component := components ! component * 10 + digit]) component True vs)
      else if v = CHR ''.'' \<and> hasDigit \<and> component < 2 then encode_scan components (component + 1) False vs
      else None)"

definition maxEncoded :: nat where
  "maxEncoded = 2 ^ 31 - 1"

definition encodeVersion :: "string \<Rightarrow> int" where
  "encodeVersion version =
     (case encode_scan [0, 0, 0] 0 False version of
        None \<Rightarrow> -1
      | Some (components, component, hasDigit) \<Rightarrow>
          if component \<noteq> 2 \<or> \<not> hasDigit then -1
          else if components ! 0 > maxEncoded div 10000 then -1
          else (let encoded = components ! 0 * 10000
            in if components ! 1 > (maxEncoded - encoded) div 100 then -1
               else (let encoded = encoded + components ! 1 * 100
                 in if components ! 2 > maxEncoded - encoded then -1
                    else int (encoded + components ! 2))))"

section \<open>Mustache\<close>

record 'w mustache =
  m_tokenizer :: tokenizer
  m_renderer :: "'w renderer"

text \<open>A renderer made in given surroundings, and the surroundings it leaves.\<close>

definition fresh_renderer :: "'w renderer \<Rightarrow> 'w renderer" where
  "fresh_renderer s =
     (new_renderer (r_strings s) (r_nextString s) (r_scopes s) (r_world s))
       \<lparr>r_contexts := r_contexts s, r_nextId := r_nextId s\<rparr>"

definition leave_surroundings :: "'w renderer \<Rightarrow> 'w renderer \<Rightarrow> 'w renderer" where
  "leave_surroundings t s =
     s\<lparr>r_strings := r_strings t, r_nextString := r_nextString t, r_contexts := r_contexts t,
       r_scopes := r_scopes t, r_nextId := r_nextId t, r_world := r_world t\<rparr>"

definition new_mustache :: "'w renderer \<Rightarrow> 'w mustache" where
  "new_mustache s = \<lparr>m_tokenizer = new_tokenizer, m_renderer = fresh_renderer s\<rparr>"

definition on_renderer :: "('w, 'a) rend \<Rightarrow> ('w mustache, 'a) eff" where
  "on_renderer f m = (case f (m_renderer m) of (r, s) \<Rightarrow> (r, m\<lparr>m_renderer := s\<rparr>))"

definition mustache_setLambdaStringMode :: "int \<Rightarrow> ('w mustache, unit) eff" where
  "mustache_setLambdaStringMode mode = on_renderer (setLambdaStringMode mode)"

text \<open>Tokenizing does not escape by itself: \<open>escapeOutput\<close> is false by default.\<close>

definition mustache_tokenize_ptr ::
    "'w mustache \<Rightarrow> nat \<Rightarrow> string option \<Rightarrow> node option \<Rightarrow> tokenizer_limits \<Rightarrow> node result" where
  "mustache_tokenize_ptr m fresh tmpl root limits =
     tokenize_ptr (m_tokenizer m) fresh tmpl root limits False"

definition mustache_tokenize ::
    "'w mustache \<Rightarrow> nat \<Rightarrow> string \<Rightarrow> node option \<Rightarrow> tokenizer_limits \<Rightarrow> node result" where
  "mustache_tokenize m fresh tmpl root limits = tokenize (m_tokenizer m) fresh tmpl root limits False"

definition mustache_render ::
    "'w render_env \<Rightarrow> node option \<Rightarrow> data option \<Rightarrow> partial_map option \<Rightarrow> nat option \<Rightarrow> render_limits
       \<Rightarrow> ('w mustache, unit) eff" where
  "mustache_render E node data ps out limits =
     on_renderer (then_eff (renderer_init node data ps out limits) (renderer_render E))"

definition with_tokenizer :: "(tokenizer \<Rightarrow> tokenizer result) \<Rightarrow> 'w mustache \<Rightarrow> 'w mustache result" where
  "with_tokenizer f m = bind_result (f (m_tokenizer m)) (\<lambda>tk. Inr (m\<lparr>m_tokenizer := tk\<rparr>))"

definition mustache_setStartSequence :: "string \<Rightarrow> 'w mustache \<Rightarrow> 'w mustache result" where
  "mustache_setStartSequence start = with_tokenizer (setStartSequence start)"

definition mustache_setStopSequence :: "string \<Rightarrow> 'w mustache \<Rightarrow> 'w mustache result" where
  "mustache_setStopSequence stop = with_tokenizer (setStopSequence stop)"

text \<open>
  The pointer overloads check the pointer and the length, and pass a length of 0 to the
  tokenizer's own pointer overload.
\<close>

definition mustache_setStartSequence_ptr :: "string option \<Rightarrow> int \<Rightarrow> 'w mustache \<Rightarrow> 'w mustache result" where
  "mustache_setStartSequence_ptr start len m =
     (case start of
        None \<Rightarrow> Inl (Exception ''Missing start delimiter'')
      | Some s \<Rightarrow>
          if len < 0 then Inl (Exception ''Invalid start delimiter length'')
          else if len = 0 then with_tokenizer (setStartSequence_ptr (Some s) 0) m
          else mustache_setStartSequence (take (nat len) s) m)"

definition mustache_setStopSequence_ptr :: "string option \<Rightarrow> int \<Rightarrow> 'w mustache \<Rightarrow> 'w mustache result" where
  "mustache_setStopSequence_ptr stop len m =
     (case stop of
        None \<Rightarrow> Inl (Exception ''Missing stop delimiter'')
      | Some s \<Rightarrow>
          if len < 0 then Inl (Exception ''Invalid stop delimiter length'')
          else if len = 0 then with_tokenizer (setStopSequence_ptr (Some s) 0) m
          else mustache_setStopSequence (take (nat len) s) m)"

definition mustache_setEscapeByDefault :: "bool \<Rightarrow> 'w mustache \<Rightarrow> 'w mustache" where
  "mustache_setEscapeByDefault flag m = m\<lparr>m_tokenizer := setEscapeByDefault flag (m_tokenizer m)\<rparr>"

section \<open>Compiled templates\<close>

type_synonym compiled = "node option"
type_synonym compiled_partials = "(string \<times> compiled) list"

definition compiled_empty :: "compiled \<Rightarrow> bool" where
  "compiled_empty c = (c = None)"

text \<open>\<open>State::root\<close> is a default constructed node before the template is parsed into it.\<close>

definition mustache_compile :: "'w mustache \<Rightarrow> nat \<Rightarrow> string \<Rightarrow> tokenizer_limits \<Rightarrow> compiled result" where
  "mustache_compile m fresh source limits =
     bind_result (tokenize (m_tokenizer m) fresh source (Some empty_node) limits False) (\<lambda>root. Inr (Some root))"

text \<open>The resolver: an absent partial is not an error, an empty handle is.\<close>

definition compiled_resolver :: "compiled_partials \<Rightarrow> partial_lookup" where
  "compiled_resolver ps name =
     (case map_of ps name of
        None \<Rightarrow> Inr None
      | Some partial \<Rightarrow>
          if compiled_empty partial then Inl (Exception ''Empty compiled partial'') else Inr partial)"

definition mode_number :: "LambdaStringMode \<Rightarrow> int" where
  "mode_number mode = (case mode of ModeTemplate \<Rightarrow> 0 | ModeLiteral \<Rightarrow> 1)"

text \<open>What the call does with the renderer it made, writing to its own string \<open>out\<close>.\<close>

definition compiled_setup ::
    "LambdaStringMode \<Rightarrow> node \<Rightarrow> data \<Rightarrow> compiled_partials \<Rightarrow> render_limits \<Rightarrow> nat \<Rightarrow> ('w, unit) rend" where
  "compiled_setup mode root data ps limits out =
     then_eff (setLambdaStringMode (mode_number mode))
       (then_eff (renderer_init (Some root) (Some data) None (Some out) limits)
         (setPartialResolver (Some (compiled_resolver ps))))"

definition compiled_call ::
    "'w render_env \<Rightarrow> LambdaStringMode \<Rightarrow> node \<Rightarrow> data \<Rightarrow> compiled_partials \<Rightarrow> render_limits
       \<Rightarrow> ('w, string) rend" where
  "compiled_call E mode root data ps limits =
     bind_eff new_string (\<lambda>out.
       then_eff (compiled_setup mode root data ps limits out)
         (then_eff (renderer_render E) (reads (\<lambda>s. r_strings s out))))"

definition render_compiled ::
    "'w render_env \<Rightarrow> compiled \<Rightarrow> data \<Rightarrow> compiled_partials \<Rightarrow> render_limits \<Rightarrow> ('w mustache, string) eff" where
  "render_compiled E compiled data ps limits m =
     (if compiled_empty compiled then (Inl (Exception ''Empty compiled template''), m)
      else case compiled_call E (r_lambdaStringMode (m_renderer m)) (the compiled) data ps limits
             (fresh_renderer (m_renderer m)) of
        (r, t) \<Rightarrow> (r, m\<lparr>m_renderer := leave_surroundings t (m_renderer m)\<rparr>))"

text \<open>The free functions make a \<open>Mustache\<close> for the call.\<close>

definition compile :: "nat \<Rightarrow> string \<Rightarrow> tokenizer_limits \<Rightarrow> compiled result" where
  "compile fresh source limits =
     mustache_compile (new_mustache (new_renderer (\<lambda>_. []) 0 [] ())) fresh source limits"

definition render_with_mode ::
    "'w render_env \<Rightarrow> compiled \<Rightarrow> data \<Rightarrow> compiled_partials \<Rightarrow> render_limits \<Rightarrow> int \<Rightarrow> ('w, string) rend" where
  "render_with_mode E compiled data ps limits mode s =
     (case then_eff (mustache_setLambdaStringMode mode) (render_compiled E compiled data ps limits) (new_mustache s) of
        (r, m) \<Rightarrow> (r, leave_surroundings (m_renderer m) s))"

definition render_free ::
    "'w render_env \<Rightarrow> compiled \<Rightarrow> data \<Rightarrow> compiled_partials \<Rightarrow> render_limits \<Rightarrow> ('w, string) rend" where
  "render_free E compiled data ps limits s =
     (case render_compiled E compiled data ps limits (new_mustache s) of
        (r, m) \<Rightarrow> (r, leave_surroundings (m_renderer m) s))"

text \<open>The overloads without partials, without limits, or without both, as methods and as functions.\<close>

definition render_compiled_plain :: "'w render_env \<Rightarrow> compiled \<Rightarrow> data \<Rightarrow> ('w mustache, string) eff" where
  "render_compiled_plain E compiled data = render_compiled E compiled data [] default_render_limits"

definition render_compiled_limits ::
    "'w render_env \<Rightarrow> compiled \<Rightarrow> data \<Rightarrow> render_limits \<Rightarrow> ('w mustache, string) eff" where
  "render_compiled_limits E compiled data limits = render_compiled E compiled data [] limits"

definition render_compiled_partials ::
    "'w render_env \<Rightarrow> compiled \<Rightarrow> data \<Rightarrow> compiled_partials \<Rightarrow> ('w mustache, string) eff" where
  "render_compiled_partials E compiled data ps = render_compiled E compiled data ps default_render_limits"

definition render_free_plain :: "'w render_env \<Rightarrow> compiled \<Rightarrow> data \<Rightarrow> ('w, string) rend" where
  "render_free_plain E compiled data = render_free E compiled data [] default_render_limits"

definition render_free_limits :: "'w render_env \<Rightarrow> compiled \<Rightarrow> data \<Rightarrow> render_limits \<Rightarrow> ('w, string) rend" where
  "render_free_limits E compiled data limits = render_free E compiled data [] limits"

definition render_free_partials ::
    "'w render_env \<Rightarrow> compiled \<Rightarrow> data \<Rightarrow> compiled_partials \<Rightarrow> ('w, string) rend" where
  "render_free_partials E compiled data ps = render_free E compiled data ps default_render_limits"

definition render_with_mode_limits ::
    "'w render_env \<Rightarrow> compiled \<Rightarrow> data \<Rightarrow> render_limits \<Rightarrow> int \<Rightarrow> ('w, string) rend" where
  "render_with_mode_limits E compiled data limits mode = render_with_mode E compiled data [] limits mode"

end
