(* ===== verification/Cli.thy ===== *)
theory Cli
  imports Facade Json Yaml
begin

text \<open>
  The command line tool of src/bin/cli.cpp: its options, the files it reads, the format of
  the data, rendering, output, and the exit code with what is reported. What the tool is
  built with and runs on is the parameter \<open>cli_build\<close>: the parsers of the data libraries or
  their absence, the version, and the text of a system error. Files and streams are the
  state. A file to read either cannot be opened, with an error number, or gives its bytes and
  then ends or fails; a file to write either cannot be created or has room for so many bytes;
  a stream has room for so many bytes and fails beyond them.
\<close>

section \<open>Options\<close>

datatype cli_action = ActionRender | ActionHelp | ActionVersion

datatype data_format = FormatJson | FormatYaml

record cli_options =
  o_action :: cli_action
  o_templatePath :: string
  o_dataPath :: string
  o_outputPath :: string
  o_partialPaths :: "(string \<times> string) list"
  o_repetitions :: nat
  o_repetitionsSet :: bool
  o_deprecatedReadable :: bool

definition default_options :: cli_options where
  "default_options =
     \<lparr>o_action = ActionRender, o_templatePath = [], o_dataPath = [], o_outputPath = [],
      o_partialPaths = [], o_repetitions = 1, o_repetitionsSet = False, o_deprecatedReadable = False\<rparr>"

definition maxRepetitions :: nat where
  "maxRepetitions = 1000000"

text \<open>
  The value of an option at an index, with the index of the last argument it used, or
  \<open>None\<close> when the argument is not this option: the value is the next argument, the rest of a
  short option, or what follows the equals sign of a long one.
\<close>

definition requires_argument :: "string \<Rightarrow> exn" where
  "requires_argument name = RuntimeError (''Option '' @ name @ '' requires an argument'')"

definition does_not_use_equals :: "string \<Rightarrow> string \<Rightarrow> exn" where
  "does_not_use_equals shortOption longOption =
     RuntimeError (''Option '' @ shortOption @ '' does not use '' @ [CHR 0x27] @ ''='' @ [CHR 0x27] @
       ''; separate its value or use '' @ longOption @ ''=<value>'')"

definition readOptionValue ::
    "string list \<Rightarrow> nat \<Rightarrow> string \<Rightarrow> string \<Rightarrow> (nat \<times> string) option result" where
  "readOptionValue arguments index shortOption longOption =
     (let argument = arguments ! index in
      bind_result
        (if argument = shortOption \<or> argument = longOption then
           (if index + 1 \<ge> length arguments
            then Inl (requires_argument argument)
            else Inr (Some (index + 1, arguments ! (index + 1))))
         else if length argument > length shortOption \<and> starts_with shortOption argument then
           (let value = drop (length shortOption) argument in
            if hd value = CHR ''=''
            then Inl (does_not_use_equals shortOption longOption)
            else Inr (Some (index, value)))
         else if starts_with (longOption @ ''='') argument
           then Inr (Some (index, drop (length longOption + 1) argument))
         else Inr None)
        (\<lambda>found. case found of
             Some (i, value) \<Rightarrow>
               if value = [] then Inl (requires_argument shortOption)
               else Inr (Some (i, value))
           | None \<Rightarrow> Inr None))"

definition repetitions_range :: "string \<Rightarrow> exn" where
  "repetitions_range value =
     RuntimeError (''Render count must be between 1 and '' @ show_nat maxRepetitions @ '': '' @ value)"

definition parseRepetitions :: "string \<Rightarrow> nat result" where
  "parseRepetitions value =
     (case from_chars 10 value of
        ResultOutOfRange \<Rightarrow> Inl (repetitions_range value)
      | InvalidArgument \<Rightarrow> Inl (RuntimeError (''Render count must be a positive integer: '' @ value))
      | Converted repetitions rest \<Rightarrow>
          if rest \<noteq> [] then Inl (RuntimeError (''Render count must be a positive integer: '' @ value))
          else if repetitions = 0 \<or> repetitions > maxRepetitions then Inl (repetitions_range value)
          else Inr repetitions)"

text \<open>
  \<open>std::map\<close> with string keys: an association list in the order of the keys, bytes compared
  as unsigned. \<open>emplace\<close> leaves a present key alone and says so.
\<close>

fun string_less :: "string \<Rightarrow> string \<Rightarrow> bool" where
  "string_less a [] = False"
| "string_less [] (d # ds) = True"
| "string_less (c # cs) (d # ds) =
     ((of_char c :: nat) < of_char d \<or> (c = d \<and> string_less cs ds))"

fun map_emplace :: "string \<Rightarrow> 'v \<Rightarrow> (string \<times> 'v) list \<Rightarrow> (string \<times> 'v) list option" where
  "map_emplace k v [] = Some [(k, v)]"
| "map_emplace k v ((k', v') # m) =
     (if k = k' then None
      else if string_less k k' then Some ((k, v) # (k', v') # m)
      else map_option (\<lambda>m'. (k', v') # m') (map_emplace k v m))"

definition addPartial :: "string \<Rightarrow> cli_options \<Rightarrow> cli_options result" where
  "addPartial value opt =
     (case find_idx (\<lambda>c. c = CHR ''='') value of
        None \<Rightarrow> Inl (RuntimeError (''Partial must use the form <name>=<file>: '' @ value))
      | Some separator \<Rightarrow>
          if separator = 0 \<or> separator + 1 = length value
          then Inl (RuntimeError (''Partial must use the form <name>=<file>: '' @ value))
          else (let name = take separator value; path = drop (separator + 1) value in
            case map_emplace name path (o_partialPaths opt) of
              None \<Rightarrow> Inl (RuntimeError (''Duplicate partial name: '' @ name))
            | Some m \<Rightarrow> Inr (opt\<lparr>o_partialPaths := m\<rparr>)))"

datatype option_kind = OptTemplate | OptData | OptOutput | OptRepeat | OptPartial

definition value_options :: "(string \<times> string \<times> option_kind) list" where
  "value_options =
     [(''-t'', ''--template'', OptTemplate), (''-d'', ''--data'', OptData), (''-o'', ''--output'', OptOutput),
      (''-n'', ''--repeat'', OptRepeat), (''-l'', ''--partial'', OptPartial)]"

text \<open>The chain of attempts, in the code's order.\<close>

fun match_option ::
    "(string \<times> string \<times> option_kind) list \<Rightarrow> string list \<Rightarrow> nat \<Rightarrow> (option_kind \<times> nat \<times> string) option result" where
  "match_option [] arguments index = Inr None"
| "match_option ((short, long, kind) # rest) arguments index =
     bind_result (readOptionValue arguments index short long) (\<lambda>found.
       case found of
         Some (i, value) \<Rightarrow> Inr (Some (kind, i, value))
       | None \<Rightarrow> match_option rest arguments index)"

fun apply_option :: "option_kind \<Rightarrow> string \<Rightarrow> cli_options \<Rightarrow> cli_options result" where
  "apply_option OptTemplate value opt =
     (if o_templatePath opt \<noteq> [] then Inl (RuntimeError ''Template file was specified more than once'')
      else Inr (opt\<lparr>o_templatePath := value\<rparr>))"
| "apply_option OptData value opt =
     (if o_dataPath opt \<noteq> [] then Inl (RuntimeError ''Data file was specified more than once'')
      else Inr (opt\<lparr>o_dataPath := value\<rparr>))"
| "apply_option OptOutput value opt =
     (if o_outputPath opt \<noteq> [] then Inl (RuntimeError ''Output file was specified more than once'')
      else Inr (opt\<lparr>o_outputPath := value\<rparr>))"
| "apply_option OptRepeat value opt =
     (if o_repetitionsSet opt then Inl (RuntimeError ''Render count was specified more than once'')
      else bind_result (parseRepetitions value)
        (\<lambda>n. Inr (opt\<lparr>o_repetitions := n, o_repetitionsSet := True\<rparr>)))"
| "apply_option OptPartial value opt = addPartial value opt"

lemma readOptionValue_index:
  "readOptionValue arguments index short long = Inr (Some (i, v)) \<Longrightarrow> index \<le> i"
  by (auto simp: readOptionValue_def Let_def bind_result_Inr_iff split: if_splits option.splits)

lemma match_option_index:
  "match_option opts arguments index = Inr (Some (k, i, v)) \<Longrightarrow> index \<le> i"
  by (induction opts arguments index rule: match_option.induct)
    (auto simp: bind_result_Inr_iff split: option.splits dest: readOptionValue_index)

definition finish_options :: "cli_options \<Rightarrow> cli_options result" where
  "finish_options opt =
     (if o_templatePath opt = [] then Inl (RuntimeError ''A template file is required; use -t <file>'') else Inr opt)"

function parse_loop :: "string list \<Rightarrow> nat \<Rightarrow> cli_options \<Rightarrow> bool \<Rightarrow> cli_options result" where
  "parse_loop arguments index opt endOfOptions =
     (if index \<ge> length arguments then finish_options opt
      else (let argument = arguments ! index in
        if \<not> endOfOptions \<and> argument = ''--'' then parse_loop arguments (index + 1) opt True
        else if endOfOptions then Inl (RuntimeError (''Unexpected argument: '' @ argument))
        else if argument = ''-h'' \<or> argument = ''--help'' then Inr (opt\<lparr>o_action := ActionHelp\<rparr>)
        else if argument = ''-v'' \<or> argument = ''--version'' then Inr (opt\<lparr>o_action := ActionVersion\<rparr>)
        else if argument = ''-r'' then parse_loop arguments (index + 1) (opt\<lparr>o_deprecatedReadable := True\<rparr>) endOfOptions
        else case match_option value_options arguments index of
          Inl e \<Rightarrow> Inl e
        | Inr None \<Rightarrow>
            if argument \<noteq> [] \<and> hd argument = CHR ''-''
            then Inl (RuntimeError (''Unknown option: '' @ argument))
            else Inl (RuntimeError (''Unexpected argument: '' @ argument))
        | Inr (Some (kind, i, value)) \<Rightarrow>
            (case apply_option kind value opt of
               Inl e \<Rightarrow> Inl e
             | Inr opt' \<Rightarrow> parse_loop arguments (i + 1) opt' endOfOptions)))"
  by pat_completeness auto

termination
  by (relation "measure (\<lambda>(arguments, index, opt, e). length arguments - index)")
    (auto dest!: match_option_index)

declare parse_loop.simps [simp del]

definition parseOptions :: "string list \<Rightarrow> cli_options result" where
  "parseOptions arguments = parse_loop arguments 0 default_options False"

section \<open>Files and streams\<close>

datatype read_outcome = CannotOpen int | Readable string bool

record ostream =
  os_text :: string
  os_room :: nat
  os_failed :: bool

definition put :: "string \<Rightarrow> ostream \<Rightarrow> ostream" where
  "put t s =
     (if os_failed s then s
      else if length t \<le> os_room s then s\<lparr>os_text := os_text s @ t, os_room := os_room s - length t\<rparr>
      else s\<lparr>os_text := os_text s @ take (os_room s) t, os_room := 0, os_failed := True\<rparr>)"

record cli_state =
  cs_read :: "string \<Rightarrow> read_outcome"
  cs_create :: "string \<Rightarrow> int + nat"
  cs_output :: ostream
  cs_error :: ostream

record cli_build =
  cb_sax :: "sax_parser option"
  cb_yaml :: "libyaml option"
  cb_extract :: extraction
  cb_message :: "int \<Rightarrow> string"
  cb_version :: string
  cb_cxx_standard :: nat
  cb_env :: "unit render_env"

type_synonym 'a cli = "(cli_state, 'a) eff"

definition systemMessage :: "cli_build \<Rightarrow> int \<Rightarrow> string" where
  "systemMessage B errorNumber = (if errorNumber = 0 then ''I/O error'' else cb_message B errorNumber)"

definition quoted :: "string \<Rightarrow> string" where
  "quoted s = [CHR 0x27] @ s @ [CHR 0x27]"

definition buffer_size :: nat where
  "buffer_size = 8192"

definition over_limit :: "string \<Rightarrow> string \<Rightarrow> exn" where
  "over_limit description path = RuntimeError (description @ '' exceeds its input byte limit: '' @ path)"

definition cannot_read :: "string \<Rightarrow> string \<Rightarrow> exn" where
  "cannot_read description path = RuntimeError (''Cannot read '' @ description @ '' '' @ quoted path)"

definition cannot_open :: "cli_build \<Rightarrow> int \<Rightarrow> string \<Rightarrow> string \<Rightarrow> exn" where
  "cannot_open B errorNumber description path =
     RuntimeError (''Cannot open '' @ description @ '' '' @ quoted path @ '': '' @ systemMessage B errorNumber)"

text \<open>The loop over the reads: a read that fills the buffer is followed by another.\<close>

function read_loop :: "string \<Rightarrow> string \<Rightarrow> nat \<Rightarrow> string \<Rightarrow> string \<Rightarrow> bool \<Rightarrow> string result" where
  "read_loop path description maxBytes contents rest atEnd =
     (let chunk = take buffer_size rest in
      if chunk \<noteq> [] \<and> (length contents > maxBytes \<or> length chunk > maxBytes - length contents)
      then Inl (over_limit description path)
      else if length chunk < buffer_size then
        (if atEnd then Inr (contents @ chunk)
         else Inl (cannot_read description path))
      else read_loop path description maxBytes (contents @ chunk) (drop buffer_size rest) atEnd)"
  by pat_completeness auto

termination
  by (relation "measure (\<lambda>(path, description, maxBytes, contents, rest, atEnd). length rest)")
    (auto simp: buffer_size_def)

declare read_loop.simps [simp del]

definition readFile :: "cli_build \<Rightarrow> string \<Rightarrow> string \<Rightarrow> nat \<Rightarrow> string cli" where
  "readFile B path description maxBytes = bind_eff (reads (\<lambda>s. cs_read s path)) (\<lambda>f.
     case f of
       CannotOpen errorNumber \<Rightarrow>
         throw (cannot_open B errorNumber description path)
     | Readable bytes atEnd \<Rightarrow> lift_result (read_loop path description maxBytes [] bytes atEnd))"

section \<open>Templates and data\<close>

definition readTemplate :: "cli_build \<Rightarrow> nat \<Rightarrow> string \<Rightarrow> string \<Rightarrow> tokenizer_limits \<Rightarrow> compiled cli" where
  "readTemplate B fresh path description limits =
     bind_eff (readFile B path description (tkl_maxInputBytes limits)) (\<lambda>source.
       case compile fresh source limits of
         Inl (TokenizerException m l c) \<Rightarrow>
           throw (TokenizerException (description @ '' '' @ quoted path @ '': '' @ m) l c)
       | Inl e \<Rightarrow> throw e
       | Inr t \<Rightarrow> ret t)"

definition to_lower :: "char \<Rightarrow> char" where
  "to_lower c =
     (if of_char CHR ''A'' \<le> (of_char c :: nat) \<and> (of_char c :: nat) \<le> of_char CHR ''Z''
      then char_of (of_char c - of_char CHR ''A'' + of_char CHR ''a'' :: nat) else c)"

definition file_extension :: "string \<Rightarrow> string" where
  "file_extension path =
     (let directorySeparator = find_last_idx (\<lambda>c. c = CHR ''/'' \<or> c = CHR 0x5C) path;
          separator = find_last_idx (\<lambda>c. c = CHR ''.'') path
      in case separator of
           None \<Rightarrow> []
         | Some p \<Rightarrow>
             (case directorySeparator of
                None \<Rightarrow> drop p path
              | Some d \<Rightarrow> if p < d then [] else drop p path))"

definition detectDataFormat :: "string \<Rightarrow> data_format result" where
  "detectDataFormat path =
     (let extension = map to_lower (file_extension path) in
      if extension = ''.json'' then Inr FormatJson
      else if extension = ''.yml'' \<or> extension = ''.yaml'' then Inr FormatYaml
      else Inl (RuntimeError (''Unsupported data file type for '' @ quoted path @
             ''; expected .json, .yml, or .yaml'')))"

definition requireDataFormatAvailable :: "cli_build \<Rightarrow> data_format \<Rightarrow> unit result" where
  "requireDataFormatAvailable B format =
     (if cb_sax B = None \<and> format = FormatJson
      then Inl (RuntimeError ''JSON support was not built into this mustachec; rebuild with MUSTACHE_ENABLE_JSON=ON or --with-json=yes'')
      else if cb_yaml B = None \<and> format = FormatYaml
      then Inl (RuntimeError ''YAML support was not built into this mustachec; rebuild with MUSTACHE_ENABLE_YAML=ON or --with-yaml=yes'')
      else Inr ())"

definition parse_data :: "cli_build \<Rightarrow> data_format \<Rightarrow> string \<Rightarrow> parse_limits \<Rightarrow> data result" where
  "parse_data B format source limits =
     (case format of
        FormatJson \<Rightarrow> fromJSON (cb_sax B) source limits
      | FormatYaml \<Rightarrow> fromYAML (cb_yaml B) (cb_extract B) source limits)"

text \<open>The library's own exceptions are reported with the file.\<close>

definition data_error :: "string \<Rightarrow> exn \<Rightarrow> exn" where
  "data_error path e =
     (case e of
        Exception m \<Rightarrow> Exception (''data file '' @ quoted path @ '': '' @ m)
      | TokenizerException m l c \<Rightarrow> Exception (''data file '' @ quoted path @ '': '' @ m)
      | _ \<Rightarrow> e)"

definition cli_readData :: "cli_build \<Rightarrow> string \<Rightarrow> parse_limits \<Rightarrow> data cli" where
  "cli_readData B path limits =
     (if path = [] then ret DNone
      else bind_eff (lift_result (detectDataFormat path)) (\<lambda>format.
        then_eff (lift_result (requireDataFormatAvailable B format))
          (bind_eff (readFile B path ''data file'' (pl_maxInputBytes limits)) (\<lambda>source.
            if source = [] then throw (RuntimeError (''Data file is empty: '' @ path))
            else case parse_data B format source limits of
              Inl e \<Rightarrow> throw (data_error path e)
            | Inr d \<Rightarrow> ret d))))"

fun readPartials :: "cli_build \<Rightarrow> nat \<Rightarrow> (string \<times> string) list \<Rightarrow> tokenizer_limits \<Rightarrow> compiled_partials cli" where
  "readPartials B fresh [] limits = ret []"
| "readPartials B fresh ((name, path) # entries) limits =
     bind_eff (readTemplate B fresh path (''partial '' @ quoted name @ '' file'') limits) (\<lambda>t.
       bind_eff (readPartials B (fresh + 1) entries limits) (\<lambda>ps. ret ((name, t) # ps)))"

section \<open>Rendering and output\<close>

text \<open>Every iteration renders anew; the last result is kept.\<close>

primrec render_repeat ::
    "unit render_env \<Rightarrow> compiled \<Rightarrow> data \<Rightarrow> compiled_partials \<Rightarrow> render_limits \<Rightarrow> nat \<Rightarrow> string \<Rightarrow> (unit, string) rend" where
  "render_repeat E t d ps limits 0 rendered = ret rendered"
| "render_repeat E t d ps limits (Suc n) rendered =
     bind_eff (render_free E t d ps limits) (render_repeat E t d ps limits n)"

definition writeOutput :: "cli_build \<Rightarrow> string \<Rightarrow> string \<Rightarrow> unit cli" where
  "writeOutput B path rendered =
     (if path = [] then
        then_eff (writes (\<lambda>s. s\<lparr>cs_output := put rendered (cs_output s)\<rparr>))
          (throw_when (\<lambda>s. os_failed (cs_output s)) (RuntimeError ''Cannot write rendered output to stdout''))
      else bind_eff (reads (\<lambda>s. cs_create s path)) (\<lambda>f.
        case f of
          Inl errorNumber \<Rightarrow>
            throw (cannot_open B errorNumber ''output file'' path)
        | Inr room \<Rightarrow>
            then_eff (writes (\<lambda>s. s\<lparr>cs_read := (cs_read s)(path := Readable (take room rendered) True)\<rparr>))
              (throw_when (\<lambda>_. length rendered > room)
                (RuntimeError (''Cannot write output file '' @ quoted path)))))"

definition flushStandardOutput :: "unit cli" where
  "flushStandardOutput = throw_when (\<lambda>s. os_failed (cs_output s)) (RuntimeError ''Cannot write to stdout'')"

definition put_line :: "string \<Rightarrow> ostream \<Rightarrow> ostream" where
  "put_line t = put (t @ [CHR 0x0A])"

definition writeDeprecationWarning :: "unit cli" where
  "writeDeprecationWarning =
     then_eff (writes (\<lambda>s. s\<lparr>cs_error := put_line ''mustachec: warning: -r is deprecated and ignored'' (cs_error s)\<rparr>))
       (throw_when (\<lambda>s. os_failed (cs_error s)) (RuntimeError ''Cannot write deprecation warning to stderr''))"

definition cli_render :: "cli_build \<Rightarrow> cli_options \<Rightarrow> int cli" where
  "cli_render B opt =
     bind_eff (readTemplate B 0 (o_templatePath opt) ''template file'' default_tokenizer_limits) (\<lambda>t.
     bind_eff (readPartials B 1 (o_partialPaths opt) default_tokenizer_limits) (\<lambda>ps.
     bind_eff (cli_readData B (o_dataPath opt) default_parse_limits) (\<lambda>d.
     bind_eff (lift_result (fst (render_repeat (cb_env B) t d ps default_render_limits (o_repetitions opt) []
                 (new_renderer (\<lambda>_. []) 0 [] ())))) (\<lambda>rendered.
     then_eff (writeOutput B (o_outputPath opt) rendered) (ret 0)))))"

section \<open>The program\<close>

definition text_lines :: "string list \<Rightarrow> string" where
  "text_lines ls = concat (map (\<lambda>l. l @ [CHR 0x0A]) ls)"

text \<open>The usage text, which depends on the parsers of the build.\<close>

definition usage_lines :: "cli_build \<Rightarrow> string list" where
  "usage_lines B =
     [''Usage: mustachec -t <template> [-d <data>] [options]'',
      []] @
     (case (cb_sax B, cb_yaml B) of
        (Some _, Some _) \<Rightarrow>
          [''Render a Mustache template using JSON or YAML data.'',
           [],
           ''Options:'',
           ''  -t, --template <file>     Template file (required)'',
           ''  -d, --data <file>         JSON or YAML data (default: null)'']
      | (Some _, None) \<Rightarrow>
          [''Render a Mustache template using JSON data.'',
           [],
           ''Options:'',
           ''  -t, --template <file>     Template file (required)'',
           ''  -d, --data <file>         JSON data (default: null)'']
      | (None, Some _) \<Rightarrow>
          [''Render a Mustache template using YAML data.'',
           [],
           ''Options:'',
           ''  -t, --template <file>     Template file (required)'',
           ''  -d, --data <file>         YAML data (default: null)'']
      | (None, None) \<Rightarrow>
          [''Render a Mustache template without external data.'',
           [],
           ''Options:'',
           ''  -t, --template <file>     Template file (required)'',
           ''  -d, --data <file>         External data unavailable in this build'']) @
     [''  -l, --partial <name=file> Add a named partial; may be repeated'',
      ''  -o, --output <file>       Write output to a file instead of stdout'',
      ''  -n, --repeat <count>      Render 1-'' @ show_nat maxRepetitions @ '' times (default: 1)'',
      ''  -r                         Deprecated ignored compatibility option'',
      ''  -h, --help                Show this help'',
      ''  -v, --version             Show version and feature information'']"

definition showUsage :: "cli_build \<Rightarrow> ostream \<Rightarrow> ostream" where
  "showUsage B = put (text_lines (usage_lines B))"

definition version_lines :: "cli_build \<Rightarrow> string list" where
  "version_lines B =
     [''mustachec '' @ cb_version B,
      (if cb_sax B \<noteq> None then ''JSON support: nlohmann/json'' else ''JSON support: none''),
      (if cb_yaml B \<noteq> None then ''YAML support: libyaml'' else ''YAML support: none''),
      ''C++ standard: C++'' @ show_nat (cb_cxx_standard B)]"

definition showVersion :: "cli_build \<Rightarrow> ostream \<Rightarrow> ostream" where
  "showVersion B = put (text_lines (version_lines B))"

text \<open>Reporting is best effort: what the error stream cannot take is lost.\<close>

definition reportFailure :: "string \<Rightarrow> cli_state \<Rightarrow> cli_state" where
  "reportFailure message s = s\<lparr>cs_error := put_line (''mustachec: '' @ message) (cs_error s)\<rparr>"

definition failure_message :: "exn \<Rightarrow> string" where
  "failure_message e =
     (case e of
        TokenizerException m line character \<Rightarrow>
          m @ (if line > 0 \<and> character > 0
               then '' at line '' @ show_int line @ '', character '' @ show_int character else [])
      | _ \<Rightarrow> what e)"

definition run_action :: "cli_build \<Rightarrow> cli_options \<Rightarrow> int cli" where
  "run_action B opt =
     then_eff (if o_deprecatedReadable opt then writeDeprecationWarning else ret ())
       (case o_action opt of
          ActionHelp \<Rightarrow>
            then_eff (writes (\<lambda>s. s\<lparr>cs_output := showUsage B (cs_output s)\<rparr>)) (then_eff flushStandardOutput (ret 0))
        | ActionVersion \<Rightarrow>
            then_eff (writes (\<lambda>s. s\<lparr>cs_output := showVersion B (cs_output s)\<rparr>)) (then_eff flushStandardOutput (ret 0))
        | ActionRender \<Rightarrow> cli_render B opt)"

text \<open>\<open>run\<close> lets no exception out.\<close>

definition run :: "cli_build \<Rightarrow> string list \<Rightarrow> cli_state \<Rightarrow> int \<times> cli_state" where
  "run B arguments s =
     (case bind_eff (lift_result (parseOptions arguments)) (run_action B) s of
        (Inr code, t) \<Rightarrow> (code, t)
      | (Inl e, t) \<Rightarrow> (1, reportFailure (failure_message e) t))"

end
