(* ===== verification/Renderer_Props.thy ===== *)
theory Renderer_Props
  imports Renderer
begin

text \<open>
  What the operations of Renderer compute: the budgets as bounded counters, escaping, the
  output operations on every branch, and that a rendering renderer refuses to be set up.
\<close>

section \<open>The budgets as bounded counters\<close>

interpretation output_counter: bounded_counter consumeOutputBytes r_outputBytes
    "\<lambda>s. maxOutputBytes (r_limits s)"
  by unfold_locales (auto simp: consumeOutputBytes_def eff_defs)

interpretation lambda_counter: bounded_counter consumeLambdaTemplate r_lambdaTemplateBytes
    "\<lambda>s. maxLambdaTemplateBytes (r_limits s)"
  by unfold_locales (auto simp: consumeLambdaTemplate_def eff_defs)

lemma consumeOutputBytes_eq:
  "consumeOutputBytes n s =
     (if r_outputBytes s + n \<le> maxOutputBytes (r_limits s)
      then (Inr (), s\<lparr>r_outputBytes := r_outputBytes s + n\<rparr>) else (Inl output_limit, s))"
  by (auto simp: consumeOutputBytes_def eff_defs)

lemma consumeLambdaTemplate_eq:
  "consumeLambdaTemplate n s =
     (if r_lambdaTemplateBytes s + n \<le> maxLambdaTemplateBytes (r_limits s)
      then (Inr (), s\<lparr>r_lambdaTemplateBytes := r_lambdaTemplateBytes s + n\<rparr>) else (Inl lambda_limit, s))"
  by (auto simp: consumeLambdaTemplate_def eff_defs)

lemma consumeNodeVisit_eq:
  "consumeNodeVisit s =
     (if r_nodeVisits s + 1 \<le> maxNodeVisits (r_limits s)
      then (Inr (), s\<lparr>r_nodeVisits := r_nodeVisits s + 1\<rparr>) else (Inl visit_limit, s))"
  by (auto simp: consumeNodeVisit_def eff_defs)

section \<open>Escaping\<close>

lemma escapedValue_escape_char:
  "(if escapedValue c = [] then [c] else escapedValue c) = escape_char c"
  by (simp add: escapedValue.simps)

lemma escape_into_eq: "escape_into v buf = buf @ concat (map escape_char v)"
proof (induction v arbitrary: buf)
  case (Cons c v)
  have "escape_into (c # v) buf = escape_into v (buf @ (if escapedValue c = [] then [c] else escapedValue c))"
    by simp
  also have "\<dots> = escape_into v (buf @ escape_char c)" by (simp only: escapedValue_escape_char)
  finally show ?case by (simp only: Cons.IH) simp
qed simp

lemma escape_char_length: "(if escapedValue c = [] then 1 else length (escapedValue c)) = length (escape_char c)"
  by (simp add: escapedValue.simps)

lemma escape_addition_eq:
  "addition \<le> available \<Longrightarrow> escape_addition available addition v =
     (if addition + length (concat (map escape_char v)) \<le> available
      then Some (addition + length (concat (map escape_char v))) else None)"
proof (induction v arbitrary: addition)
  case (Cons c v)
  let ?n = "length (escape_char c)"
  have "escape_addition available addition (c # v) =
      (if ?n > available - addition then None else escape_addition available (addition + ?n) v)"
    by (simp only: escape_addition.simps Let_def escape_char_length)
  then show ?case
    using Cons.IH [of "addition + ?n"] Cons.prems
    by (auto simp: add.assoc simp del: escape_char.simps escape_addition.simps)
qed simp

lemma htmlspecialchars_append_concat: "htmlspecialchars_append v buf = buf @ concat (map escape_char v)"
  by (induction v arbitrary: buf) simp_all

lemma escape_char_pos: "0 < length (escape_char c)"
  by simp

lemma concat_escape_length: "length v \<le> length (concat (map escape_char v))"
proof (induction v)
  case (Cons c v)
  have "length (concat (map escape_char (c # v))) = length (escape_char c) + length (concat (map escape_char v))"
    by (simp del: escape_char.simps)
  moreover have "length (c # v) = Suc (length v)" by simp
  ultimately show ?case using Cons.IH escape_char_pos [of c] by linarith
qed simp

section \<open>Output operations\<close>

definition output_text :: "'w renderer \<Rightarrow> string" where
  "output_text s = (case r_output s of None \<Rightarrow> [] | Some b \<Rightarrow> r_strings s b)"

text \<open>The state after \<open>n\<close> charged bytes and \<open>w\<close> written to string \<open>b\<close>.\<close>

definition written :: "nat \<Rightarrow> nat \<Rightarrow> string \<Rightarrow> 'w renderer \<Rightarrow> 'w renderer" where
  "written b n w s =
     s\<lparr>r_outputBytes := r_outputBytes s + n, r_strings := (r_strings s)(b := r_strings s b @ w)\<rparr>"

definition fits :: "nat \<Rightarrow> nat \<Rightarrow> nat \<Rightarrow> string \<Rightarrow> 'w renderer \<Rightarrow> bool" where
  "fits mx b n w s \<longleftrightarrow> length (r_strings s b) + length w \<le> output_maximum mx s
     \<and> r_outputBytes s + n \<le> maxOutputBytes (r_limits s)"

lemma append_out_eq:
  "r_output s = Some b \<Longrightarrow> append_out mx v s =
     (if fits mx b (length v) v s then (Inr (), written b (length v) v s) else (Inl output_limit, s))"
  by (auto simp: append_out_def with_output_def then_eff_def bind_eff_def reads_def throw_when_def
      consumeOutputBytes_eq string_append_def writes_def ret_def fits_def written_def)

lemma append_escaped_eq:
  assumes "r_output s = Some b"
  shows "append_escaped mx v counted s =
     (let w = concat (map escape_char v); n = (if counted then length w - length v else length w) in
      if fits mx b n w s then (Inr (), written b n w s) else (Inl output_limit, s))"
proof (cases "length (r_strings s b) \<le> output_maximum mx s")
  case True
  then show ?thesis
    using assms
    by (auto simp: append_escaped_def with_output_def then_eff_def bind_eff_def reads_def throw_when_def
        throw_def consumeOutputBytes_eq writes_def escape_addition_eq escape_into_eq
        fits_def written_def Let_def simp del: escape_char.simps)
next
  case False
  with assms show ?thesis
    by (simp add: append_escaped_def with_output_def then_eff_def bind_eff_def reads_def throw_when_def
        fits_def Let_def)
qed

lemma append_out_None: "r_output s = None \<Longrightarrow> append_out mx v s = (Inl (Exception ''Missing output buffer''), s)"
  by (simp add: append_out_def with_output_def bind_eff_def reads_def throw_def)

lemma append_escaped_None:
  "r_output s = None \<Longrightarrow> append_escaped mx v c s = (Inl (Exception ''Missing output buffer''), s)"
  by (simp add: append_escaped_def with_output_def bind_eff_def reads_def throw_def)

text \<open>
  C40. Escaped output is the output of \<open>htmlspecialchars\<close>: the operation writes
  exactly the text the escaping function returns, or writes nothing and throws when the
  output limit or the string's maximal size would be passed.
\<close>

theorem append_escaped_htmlspecialchars:
  "\<exists>e. htmlspecialchars (Some v) = Inr e \<and>
     append_escaped mx v False s =
       (case r_output s of
          None \<Rightarrow> (Inl (Exception ''Missing output buffer''), s)
        | Some b \<Rightarrow>
            if fits mx b (length e) e s then (Inr (), written b (length e) e s) else (Inl output_limit, s))"
  by (cases "r_output s")
    (simp_all add: htmlspecialchars_def htmlspecialchars_append_concat append_escaped_eq
      append_escaped_None Let_def del: escape_char.simps)

section \<open>A rendering renderer cannot be set up\<close>

lemma already_rendering_eq:
  "already_rendering s =
     (if r_rendering s then (Inl (Exception ''Renderer is already rendering''), s) else (Inr (), s))"
  by (simp add: already_rendering_def throw_when_def)

lemma refused: "r_rendering s \<Longrightarrow> then_eff already_rendering m s = (Inl (Exception ''Renderer is already rendering''), s)"
  by (simp add: then_eff_def bind_eff_def already_rendering_eq)

text \<open>
  While a render is active every public operation that would change the renderer's
  configuration throws and changes nothing.
\<close>

theorem setup_refused_while_rendering:
  assumes "r_rendering s"
  shows "map (\<lambda>m. m s) [renderer_clear, renderer_init n d ps out limits, renderer_init_default n d ps out,
            setNode n, renderer_setData d, setPartials ps, setOutput out,
            setPartialResolver resolver, setLambdaStringMode mode] =
         replicate 9 (Inl (Exception ''Renderer is already rendering''), s)"
  using assms by (simp add: renderer_clear_def renderer_init_def renderer_init_default_def setNode_def
      renderer_setData_def setPartials_def setOutput_def setPartialResolver_def
      setLambdaStringMode_def refused eval_nat_numeral)

theorem setup_refused_while_rendering_witness:
  "map (\<lambda>m. m ((new_renderer (\<lambda>_. []) 0 [] ())\<lparr>r_rendering := True\<rparr>))
     [renderer_clear, renderer_init None None None (Some 0) default_render_limits,
      renderer_init_default None None None (Some 0), setNode None, renderer_setData None,
      setPartials None, setOutput (Some 0), setPartialResolver None, setLambdaStringMode 1] =
   replicate 9 (Inl (Exception ''Renderer is already rendering''),
     (new_renderer (\<lambda>_. []) 0 [] ())\<lparr>r_rendering := True\<rparr>)"
  by (rule setup_refused_while_rendering) simp

end
