(* ===== verification/Engine_Props.thy ===== *)
theory Engine_Props
  imports Engine Renderer_Props "HOL-Library.Sublist"
begin

text \<open>
  What every operation of a running render keeps, whether it returns or throws, and
  whatever the callbacks do: \<open>render_step\<close>. One rule per operation, in
  \<open>eff_steps\<close>; the traversal's rule follows by induction on its levels. From it come
  the properties of a whole render: its budgets, the state it leaves, the callback contexts
  it retires, and that the levels of nesting suffice.
\<close>

section \<open>The step relation\<close>

text \<open>What is fixed during a render, and what its scope guards restore.\<close>

definition configuration where
  "configuration s = (r_node s, r_data s, r_partials s, r_partialResolver s, r_limits s,
     r_lambdaStringMode s, r_strictPaths s)"

definition scoped where
  "scoped s = (r_stack s, r_output s, map if_components (r_indentationStack s), r_activeDepth s,
     r_rendering s, r_lambdaCallbackDepth s, r_scopes s)"

definition within_budgets :: "'w renderer \<Rightarrow> bool" where
  "within_budgets s \<longleftrightarrow> r_outputBytes s \<le> maxOutputBytes (r_limits s)
     \<and> r_nodeVisits s \<le> maxNodeVisits (r_limits s)
     \<and> r_lambdaTemplateBytes s \<le> maxLambdaTemplateBytes (r_limits s)"

definition counters_grow :: "'w renderer \<Rightarrow> 'w renderer \<Rightarrow> bool" where
  "counters_grow s t \<longleftrightarrow> r_outputBytes s \<le> r_outputBytes t \<and> r_nodeVisits s \<le> r_nodeVisits t
     \<and> r_lambdaTemplateBytes s \<le> r_lambdaTemplateBytes t"

definition contexts_grow :: "'w renderer \<Rightarrow> 'w renderer \<Rightarrow> bool" where
  "contexts_grow s t \<longleftrightarrow>
     (\<exists>new. r_contexts t = r_contexts s @ new \<and> (\<forall>c\<in>set new. \<not> rc_active c))"

text \<open>Strings are only appended to, and never past the output limit.\<close>

definition strings_grow :: "'w renderer \<Rightarrow> 'w renderer \<Rightarrow> bool" where
  "strings_grow s t \<longleftrightarrow> r_nextString s \<le> r_nextString t \<and>
     (\<forall>b < r_nextString s. prefix (r_strings s b) (r_strings t b)
        \<and> (length (r_strings s b) \<le> maxOutputBytes (r_limits s)
             \<longrightarrow> length (r_strings t b) \<le> maxOutputBytes (r_limits s)))"

definition render_step :: "'w renderer \<Rightarrow> 'w renderer \<Rightarrow> bool" where
  "render_step s t \<longleftrightarrow> (r_rendering s \<longrightarrow>
     configuration t = configuration s \<and> scoped t = scoped s
     \<and> (within_budgets s \<longrightarrow> within_budgets t) \<and> counters_grow s t
     \<and> contexts_grow s t \<and> strings_grow s t)"

lemmas step_parts = render_step_def configuration_def scoped_def within_budgets_def
  counters_grow_def contexts_grow_def strings_grow_def

lemma render_stepD:
  assumes "render_step s t" and "r_rendering s"
  shows "configuration t = configuration s" and "scoped t = scoped s"
    and "within_budgets s \<Longrightarrow> within_budgets t" and "counters_grow s t"
    and "contexts_grow s t" and "strings_grow s t" and "r_rendering t"
  using assms by (auto simp: render_step_def scoped_def)

lemma contexts_grow_refl: "contexts_grow s s"
  by (auto simp: contexts_grow_def)

lemma contexts_grow_trans: "contexts_grow s t \<Longrightarrow> contexts_grow t u \<Longrightarrow> contexts_grow s u"
  unfolding contexts_grow_def by (metis UnE append.assoc set_append)

lemma strings_grow_refl: "strings_grow s s"
  by (auto simp: strings_grow_def)

lemma strings_grow_trans:
  assumes "r_limits t = r_limits s" and st: "strings_grow s t" and tu: "strings_grow t u"
  shows "strings_grow s u"
  unfolding strings_grow_def
proof (intro conjI allI impI)
  show "r_nextString s \<le> r_nextString u" using st tu by (simp add: strings_grow_def)
next
  fix b
  assume "b < r_nextString s"
  with st have 1: "prefix (r_strings s b) (r_strings t b)"
      "length (r_strings s b) \<le> maxOutputBytes (r_limits s) \<Longrightarrow>
       length (r_strings t b) \<le> maxOutputBytes (r_limits s)" and "b < r_nextString t"
    by (auto simp: strings_grow_def)
  with tu assms(1) have 2: "prefix (r_strings t b) (r_strings u b)"
      "length (r_strings t b) \<le> maxOutputBytes (r_limits s) \<Longrightarrow>
       length (r_strings u b) \<le> maxOutputBytes (r_limits s)"
    by (auto simp: strings_grow_def)
  from 1(1) 2(1) show "prefix (r_strings s b) (r_strings u b)" by (rule prefix_order.order_trans)
  show "length (r_strings s b) \<le> maxOutputBytes (r_limits s) \<Longrightarrow>
      length (r_strings u b) \<le> maxOutputBytes (r_limits s)"
    using 1(2) 2(2) by blast
qed

lemma reflp_render_step [simp, eff_steps]: "reflp render_step"
  by (simp add: reflp_def render_step_def contexts_grow_refl strings_grow_refl counters_grow_def)

lemma transp_render_step [simp, eff_steps]: "transp render_step"
proof (rule transpI)
  fix s t u :: "'w renderer"
  assume st: "render_step s t" and tu: "render_step t u"
  show "render_step s u"
    unfolding render_step_def
  proof (intro impI conjI)
    assume "r_rendering s"
    note 1 = render_stepD [OF st this] and 2 = render_stepD [OF tu render_stepD(7) [OF st this]]
    from 1 2 show "configuration u = configuration s" "scoped u = scoped s" by simp_all
    from 1(3) 2(3) show "within_budgets s \<Longrightarrow> within_budgets u" by blast
    from 1(4) 2(4) show "counters_grow s u" by (auto simp: counters_grow_def)
    from 1(5) 2(5) show "contexts_grow s u" by (rule contexts_grow_trans)
    have "r_limits t = r_limits s" using 1(1) by (simp add: configuration_def)
    from this 1(6) 2(6) show "strings_grow s u" by (rule strings_grow_trans)
  qed
qed

text \<open>The fields a change leaves alone decide most of the relation.\<close>

lemma render_step_same:
  assumes "configuration t = configuration s" and "scoped t = scoped s"
    and "r_strings t = r_strings s" and "r_nextString t = r_nextString s"
    and "r_contexts t = r_contexts s"
    and "counters_grow s t" and "within_budgets s \<longrightarrow> within_budgets t"
  shows "render_step s t"
  using assms by (simp add: render_step_def contexts_grow_def strings_grow_def)

lemma steps_writes_same:
  assumes "\<And>s. configuration (f s) = configuration s" and "\<And>s. scoped (f s) = scoped s"
    and "\<And>s. r_strings (f s) = r_strings s" and "\<And>s. r_nextString (f s) = r_nextString s"
    and "\<And>s. r_contexts (f s) = r_contexts s"
    and "\<And>s. r_outputBytes (f s) = r_outputBytes s" and "\<And>s. r_nodeVisits (f s) = r_nodeVisits s"
    and "\<And>s. r_lambdaTemplateBytes (f s) = r_lambdaTemplateBytes s"
  shows "steps render_step (writes f)"
proof (rule steps_writes, rule render_step_same)
  fix s
  have "r_limits (f s) = r_limits s" using assms(1) [of s] by (simp add: configuration_def)
  then show "within_budgets s \<longrightarrow> within_budgets (f s)" by (simp add: within_budgets_def assms)
qed (simp_all add: assms counters_grow_def)

section \<open>One rule per operation\<close>

lemma steps_consumeOutputBytes [eff_steps]: "steps render_step (consumeOutputBytes n)"
  by (simp add: steps_def consumeOutputBytes_eq step_parts prefix_order.refl
      contexts_grow_refl [unfolded contexts_grow_def])

lemma steps_consumeLambdaTemplate [eff_steps]: "steps render_step (consumeLambdaTemplate n)"
  by (simp add: steps_def consumeLambdaTemplate_eq step_parts prefix_order.refl
      contexts_grow_refl [unfolded contexts_grow_def])

lemma steps_consumeNodeVisit [eff_steps]: "steps render_step consumeNodeVisit"
  by (simp add: steps_def consumeNodeVisit_eq step_parts prefix_order.refl
      contexts_grow_refl [unfolded contexts_grow_def])

lemma render_step_written:
  "fits mx b n w s \<Longrightarrow> render_step s (written b n w s)"
  by (auto simp: step_parts written_def fits_def output_maximum_def)

lemma steps_append_out [eff_steps]: "steps render_step (append_out mx v)"
  unfolding steps_def
proof
  fix s :: "'w renderer"
  show "render_step s (snd (append_out mx v s))"
    using reflpD [OF reflp_render_step, of s]
    by (cases "r_output s") (simp_all add: append_out_None append_out_eq render_step_written)
qed

lemma steps_append_escaped [eff_steps]: "steps render_step (append_escaped mx v c)"
  unfolding steps_def
proof
  fix s :: "'w renderer"
  show "render_step s (snd (append_escaped mx v c s))"
    using reflpD [OF reflp_render_step, of s]
    by (cases "r_output s")
      (simp_all add: append_escaped_None append_escaped_eq render_step_written Let_def
        del: escape_char.simps)
qed

lemma set_line_start_components [simp]: "map if_components (set_line_start b fs) = map if_components fs"
  by (cases fs) auto

lemma steps_write_line_start [eff_steps]: "steps render_step (write_line_start b)"
  unfolding write_line_start_def
  by (rule steps_writes_same) (simp_all add: configuration_def scoped_def)

lemma steps_fresh_id [eff_steps]: "steps render_step fresh_id"
  unfolding fresh_id_def
  by (intro eff_steps steps_writes_same)
    (simp_all add: configuration_def scoped_def)

lemma steps_new_string [eff_steps]: "steps render_step new_string"
  by (simp add: steps_def new_string_def eff_defs step_parts)

lemma steps_case_option [eff_steps]:
  "steps R f \<Longrightarrow> (\<And>x. steps R (g x)) \<Longrightarrow> steps R (case x of None \<Rightarrow> f | Some y \<Rightarrow> g y)"
  by (cases x) simp_all

lemma steps_case_list [eff_steps]:
  "steps R f \<Longrightarrow> (\<And>y ys. steps R (g y ys)) \<Longrightarrow> steps R (case x of [] \<Rightarrow> f | y # ys \<Rightarrow> g y ys)"
  by (cases x) simp_all

lemma steps_case_sum [eff_steps]:
  "(\<And>y. steps R (f y)) \<Longrightarrow> (\<And>y. steps R (g y)) \<Longrightarrow> steps R (case x of Inl y \<Rightarrow> f y | Inr y \<Rightarrow> g y)"
  by (cases x) simp_all

lemma steps_with_output [eff_steps]: "(\<And>b. steps render_step (f b)) \<Longrightarrow> steps render_step (with_output f)"
  unfolding with_output_def by (intro eff_steps)

lemma steps_already_rendering [eff_steps]: "steps render_step already_rendering"
  unfolding already_rendering_def by (intro eff_steps)

lemma steps_appendIndentation [eff_steps]: "steps render_step (appendIndentation mx f)"
  unfolding appendIndentation_def by (intro eff_steps)

lemma steps_begin_line [eff_steps]: "steps render_step (begin_line mx)"
  unfolding begin_line_def by (intro eff_steps)

lemma steps_append_lines [eff_steps]: "steps render_step (append_lines mx v)"
proof (induction mx v rule: append_lines.induct)
  case (1 mx v)
  show ?case
  proof (cases "find_idx (\<lambda>c. c = CHR 0x0A) v")
    case None
    then show ?thesis by (subst append_lines.simps) (auto intro!: eff_steps)
  next
    case (Some i)
    then show ?thesis
      using 1 by (subst append_lines.simps) (auto intro!: eff_steps)
  qed
qed

lemma steps_appendTemplateOutput [eff_steps]: "steps render_step (appendTemplateOutput mx v)"
  unfolding appendTemplateOutput_def by (intro eff_steps)

lemma steps_consumeTemplateSource [eff_steps]: "steps render_step (consumeTemplateSource v)"
  unfolding consumeTemplateSource_def by (intro eff_steps)

lemma steps_beginTemplateTag [eff_steps]: "steps render_step (beginTemplateTag mx)"
  unfolding beginTemplateTag_def by (rule steps_begin_line)

lemma steps_consumeLambdaNodes [eff_steps]: "steps render_step (consumeLambdaNodes n)"
proof (induction n rule: consumeLambdaNodes.induct)
  case 1
  then show ?case by (simp add: consumeLambdaNodes.simps steps_throw)
next
  case (2 n)
  then show ?case by (subst consumeLambdaNodes.simps) (auto intro!: eff_steps split: option.splits)
qed

lemma steps_tokenizeLambda [eff_steps]: "steps render_step (tokenizeLambda tk source root esc)"
  unfolding tokenizeLambda_def by (intro eff_steps)

lemma steps_appendLambdaTemplate [eff_steps]: "steps render_step (appendLambdaTemplate mx out v)"
  unfolding appendLambdaTemplate_def by (intro eff_steps)

lemma steps_nesting_check [eff_steps]: "steps render_step (nesting_check d)"
  unfolding nesting_check_def by (intro eff_steps)

lemma steps_append_children [eff_steps]:
  "(\<And>c out. c \<in> set cs \<Longrightarrow> steps render_step (f c out)) \<Longrightarrow> steps render_step (append_children f cs out)"
  by (induction cs arbitrary: out) (auto intro!: eff_steps)

lemma steps_append_pieces [eff_steps]: "steps render_step (append_pieces mx ps out)"
  by (induction ps arbitrary: out) (auto intro!: eff_steps)

lemma steps_append_tag_text [eff_steps]: "steps render_step (append_tag_text mx b n a out)"
  unfolding append_tag_text_def by (intro eff_steps)

lemma steps_appendLambdaTag [eff_steps]: "steps render_step (appendLambdaTag mx start stop n out)"
  unfolding appendLambdaTag_def Let_def by (intro eff_steps)

lemma steps_appendLambdaNodeTemplate [eff_steps]:
  "steps render_step (appendLambdaNodeTemplate mx start stop depth n out)"
proof (induction mx start stop depth n out rule: appendLambdaNodeTemplate.induct)
  case (1 mx start stop depth out)
  then show ?case by (simp add: appendLambdaNodeTemplate.simps steps_throw)
next
  case (2 mx start stop depth n out)
  then show ?case by (subst appendLambdaNodeTemplate.simps) (auto intro!: eff_steps)
qed

lemma steps_section_child [eff_steps]: "steps render_step (section_child mx start stop depth c out)"
  unfolding section_child_def by (intro eff_steps)

lemma steps_lambdaSectionText [eff_steps]: "steps render_step (lambdaSectionText mx n start stop depth)"
  unfolding lambdaSectionText_def by (intro eff_steps)

section \<open>Scope guards\<close>

definition same_base :: "'w renderer \<Rightarrow> 'w renderer \<Rightarrow> bool" where
  "same_base s t \<longleftrightarrow> configuration t = configuration s \<and> r_strings t = r_strings s
     \<and> r_nextString t = r_nextString s \<and> r_contexts t = r_contexts s
     \<and> r_outputBytes t = r_outputBytes s \<and> r_nodeVisits t = r_nodeVisits s
     \<and> r_lambdaTemplateBytes t = r_lambdaTemplateBytes s"

text \<open>
  A guarded region: \<open>f\<close> and \<open>g\<close> change scoped fields only, and \<open>g\<close> undoes
  what \<open>f\<close> did as long as the region kept the scoped fields.
\<close>

lemma render_step_guarded:
  assumes m: "render_step s' u" and s': "same_base s s'" and t: "same_base u t"
    and run: "r_rendering s \<Longrightarrow> r_rendering s'"
    and undo: "r_rendering s \<Longrightarrow> scoped u = scoped s' \<Longrightarrow> scoped t = scoped s"
  shows "render_step s t"
  unfolding render_step_def
proof (intro impI conjI)
  assume on: "r_rendering s"
  note 1 = render_stepD [OF m run [OF on]]
  have limits: "r_limits s' = r_limits s" "r_limits t = r_limits u"
    using s' t by (simp_all add: same_base_def configuration_def)
  show "configuration t = configuration s" using 1(1) s' t by (simp add: same_base_def)
  show "scoped t = scoped s" using undo on 1(2) by blast
  show "within_budgets s \<Longrightarrow> within_budgets t"
    using 1(3) s' t limits by (simp add: same_base_def within_budgets_def)
  show "counters_grow s t" using 1(4) s' t by (simp add: same_base_def counters_grow_def)
  show "contexts_grow s t" using 1(5) s' t by (simp add: same_base_def contexts_grow_def)
  show "strings_grow s t" using 1(6) s' t limits by (simp add: same_base_def strings_grow_def)
qed

lemma steps_with_indentation [eff_steps]:
  fixes m :: "('w, 'a) rend"
  assumes "steps render_step m"
  shows "steps render_step (with_indentation cs m)"
proof (rule stepsI)
  fix s t :: "'w renderer" and r :: "'a result"
  let ?s = "s\<lparr>r_indentationStack := new_frame cs # r_indentationStack s\<rparr>"
  assume "with_indentation cs m s = (r, t)"
  then obtain u where m: "m ?s = (r, u)" and t: "t = u\<lparr>r_indentationStack := tl (r_indentationStack u)\<rparr>"
    by (auto simp: with_indentation_def then_eff_def bind_eff_def writes_def on_exit_def split: prod.splits)
  show "render_step s t"
    by (rule render_step_guarded [OF stepsD [OF assms m]])
      (simp_all add: t same_base_def configuration_def scoped_def map_tl new_frame_def)
qed

lemma steps_with_context [eff_steps]:
  fixes m :: "('w, 'a) rend"
  assumes "steps render_step m"
  shows "steps render_step (with_context d m)"
proof (rule stepsI)
  fix s t :: "'w renderer" and r :: "'a result"
  let ?s = "s\<lparr>r_stack := d # r_stack s\<rparr>"
  assume "with_context d m s = (r, t)"
  then obtain u where m: "m ?s = (r, u)" and t: "t = u\<lparr>r_stack := tl (r_stack u)\<rparr>"
    by (auto simp: with_context_def then_eff_def bind_eff_def writes_def on_exit_def split: prod.splits)
  show "render_step s t"
    by (rule render_step_guarded [OF stepsD [OF assms m]])
      (simp_all add: t same_base_def configuration_def scoped_def)
qed

lemma steps_to_output [eff_steps]:
  fixes m :: "('w, 'a) rend"
  assumes "steps render_step m"
  shows "steps render_step (to_output b m)"
proof (rule stepsI)
  fix s t :: "'w renderer" and r :: "'a result"
  let ?s = "s\<lparr>r_output := Some b\<rparr>"
  assume "to_output b m s = (r, t)"
  then obtain u where m: "m ?s = (r, u)" and t: "t = u\<lparr>r_output := r_output s\<rparr>"
    by (auto simp: to_output_def then_eff_def bind_eff_def reads_def writes_def on_exit_def split: prod.splits)
  show "render_step s t"
    by (rule render_step_guarded [OF stepsD [OF assms m]])
      (simp_all add: t same_base_def configuration_def scoped_def)
qed

lemma steps_at_depth [eff_steps]:
  fixes m :: "('w, 'a) rend"
  assumes "steps render_step m"
  shows "steps render_step (at_depth d m)"
proof (rule stepsI)
  fix s t :: "'w renderer" and r :: "'a result"
  let ?s = "s\<lparr>r_activeDepth := d\<rparr>"
  assume "at_depth d m s = (r, t)"
  then obtain u where m: "m ?s = (r, u)" and t: "t = u\<lparr>r_activeDepth := r_activeDepth s\<rparr>"
    by (auto simp: at_depth_def then_eff_def bind_eff_def reads_def writes_def on_exit_def split: prod.splits)
  show "render_step s t"
    by (rule render_step_guarded [OF stepsD [OF assms m]])
      (simp_all add: t same_base_def configuration_def scoped_def)
qed

lemma steps_with_scope [eff_steps]:
  fixes m :: "('w, 'a) rend"
  assumes "steps render_step m"
  shows "steps render_step (with_scope self engine m)"
proof (rule stepsI)
  fix s t :: "'w renderer" and r :: "'a result"
  let ?e = "\<lparr>es_id = r_nextId s, es_renderer = self, es_engine = engine\<rparr>"
  let ?s = "s\<lparr>r_nextId := Suc (r_nextId s), r_scopes := scope_push ?e (r_scopes s)\<rparr>"
  assume "with_scope self engine m s = (r, t)"
  then obtain u where m: "m ?s = (r, u)"
    and t: "t = u\<lparr>r_scopes := scope_remove (r_nextId s) (r_scopes u)\<rparr>"
    by (auto simp: with_scope_def fresh_id_def ret_def then_eff_def bind_eff_def reads_def writes_def
        on_exit_def split: prod.splits)
  show "render_step s t"
    by (rule render_step_guarded [OF stepsD [OF assms m]])
      (simp_all add: t same_base_def configuration_def scoped_def scope_push_def)
qed

text \<open>The callback frame retires its context, so the contexts that are new are inactive.\<close>

definition callback_frame :: "string \<Rightarrow> string \<Rightarrow> bool \<Rightarrow> (nat \<Rightarrow> ('w, 'a) rend) \<Rightarrow> ('w, 'a) rend" where
  "callback_frame start stop esc m =
     bind_eff (new_context start stop esc) (\<lambda>c. with_callback_frame c (m c))"

lemma steps_callback_frame [eff_steps]:
  fixes m :: "nat \<Rightarrow> ('w, 'a) rend"
  assumes "\<And>c. steps render_step (m c)"
  shows "steps render_step (callback_frame start stop esc m)"
proof (rule stepsI)
  fix s t :: "'w renderer" and r :: "'a result"
  let ?c = "length (r_contexts s)"
  let ?x = "\<lparr>rc_active = True, rc_start = start, rc_stop = stop, rc_escapeOutput = esc\<rparr>"
  let ?s = "s\<lparr>r_contexts := r_contexts s @ [?x], r_lambdaCallbackDepth := r_lambdaCallbackDepth s + 1\<rparr>"
  assume "callback_frame start stop esc m s = (r, t)"
  then obtain u where m: "m ?c ?s = (r, u)"
    and t: "t = (context_invalidate ?c u)\<lparr>r_lambdaCallbackDepth := r_lambdaCallbackDepth u - 1\<rparr>"
    by (auto simp: callback_frame_def new_context_def with_callback_frame_def ret_def then_eff_def
        bind_eff_def reads_def writes_def on_exit_def split: prod.splits)
  show "render_step s t"
    unfolding render_step_def
  proof (intro impI conjI)
    assume on: "r_rendering s"
    then have "r_rendering ?s" by simp
    note 1 = render_stepD [OF stepsD [OF assms m] this]
    show "configuration t = configuration s" using 1(1) by (simp add: t context_invalidate_def configuration_def)
    show "scoped t = scoped s" using 1(2) by (simp add: t context_invalidate_def scoped_def)
    show "within_budgets s \<Longrightarrow> within_budgets t"
      using 1(3) by (simp add: t context_invalidate_def within_budgets_def)
    show "counters_grow s t" using 1(4) by (simp add: t context_invalidate_def counters_grow_def)
    show "strings_grow s t" using 1(6) by (simp add: t context_invalidate_def strings_grow_def)
    obtain new where "r_contexts u = r_contexts s @ ?x # new" and new: "\<forall>c\<in>set new. \<not> rc_active c"
      using 1(5) by (auto simp: contexts_grow_def)
    then have "r_contexts t = r_contexts s @ ?x\<lparr>rc_active := False\<rparr> # new"
      by (simp add: t context_invalidate_def)
    with new show "contexts_grow s t" by (auto simp: contexts_grow_def)
  qed
qed

section \<open>Callbacks and nodes\<close>

text \<open>A renderer of nodes that keeps the relation.\<close>

definition sound_rec :: "'w node_renderer \<Rightarrow> bool" where
  "sound_rec rec \<longleftrightarrow> (\<forall>n d i b. steps render_step (rec n d i b))"

lemma sound_recD: "sound_rec rec \<Longrightarrow> steps render_step (rec n d i b)"
  by (simp add: sound_rec_def)

lemma steps_attempt [eff_steps]: "steps R m \<Longrightarrow> steps R (attempt m)"
  by (auto simp: steps_def attempt_def split: prod.splits) (metis snd_conv)

lemma steps_refused [eff_steps]:
  fixes m :: "('w, 'a) rend"
  shows "steps render_step (then_eff already_rendering m)"
proof (rule stepsI)
  fix s t :: "'w renderer" and r :: "'a result"
  assume "then_eff already_rendering m s = (r, t)"
  then show "render_step s t"
    by (cases "r_rendering s") (simp_all add: refused render_step_def contexts_grow_refl
        strings_grow_refl counters_grow_def)
qed

lemma steps_run_renderer_call [eff_steps]: "steps render_step (run_renderer_call c)"
  by (cases c) (simp_all add: run_renderer_call_def renderer_clear_def renderer_init_def setNode_def
      renderer_setData_def setPartials_def setOutput_def setLambdaStringMode_def steps_refused)

lemma steps_renderRoot [eff_steps]: "steps render_step (renderRoot rec root)"
  unfolding renderRoot_def by (rule steps_refused)

lemma steps_require_active [eff_steps]: "steps render_step (require_active c)"
  unfolding require_active_def by (intro eff_steps)

lemma steps_legacyRenderer [eff_steps]: "steps render_step (legacyRenderer c)"
  unfolding legacyRenderer_def by (intro eff_steps)

lemma steps_renderForLambda [eff_steps]:
 
  assumes rec: "sound_rec rec"
  shows "steps render_step (renderForLambda E rec n out)"
  unfolding renderForLambda_def by (intro eff_steps rec sound_recD [OF rec])

lemma steps_context_render [eff_steps]:
 
  assumes rec: "sound_rec rec"
  shows "steps render_step (context_render E rec c n b)"
  unfolding context_render_def by (intro eff_steps rec sound_recD [OF rec])

lemma steps_context_render_owned [eff_steps]:
 
  assumes rec: "sound_rec rec"
  shows "steps render_step (context_render_owned E rec c n)"
  unfolding context_render_owned_def by (intro eff_steps rec sound_recD [OF rec])

lemma steps_context_renderResult [eff_steps]:
 
  assumes rec: "sound_rec rec"
  shows "steps render_step (context_renderResult E rec c n)"
  unfolding context_renderResult_def by (intro eff_steps rec sound_recD [OF rec])

lemma steps_context_renderTemplate [eff_steps]:
 
  assumes rec: "sound_rec rec"
  shows "steps render_step (context_renderTemplate E rec c source)"
  unfolding context_renderTemplate_def by (intro eff_steps rec sound_recD [OF rec])

text \<open>The callback's own new string is not one of the strings there were before.\<close>

lemma steps_user_string [eff_steps]:
  fixes k :: "nat \<Rightarrow> ('w, 'a) rend"
  assumes "\<And>b. steps render_step (k b)"
  shows "steps render_step (bind_eff new_string (\<lambda>b. then_eff (string_append b v) (k b)))"
proof (rule stepsI)
  fix s t :: "'w renderer" and r :: "'a result"
  let ?b = "r_nextString s"
  let ?s = "s\<lparr>r_nextString := Suc ?b, r_strings := (r_strings s)(?b := v)\<rparr>"
  assume "bind_eff new_string (\<lambda>b. then_eff (string_append b v) (k b)) s = (r, t)"
  then have "k ?b ?s = (r, t)"
    by (simp add: new_string_def string_append_def ret_def then_eff_def bind_eff_def reads_def writes_def)
  then have "render_step ?s t" by (rule stepsD [OF assms])
  moreover have "render_step s ?s" by (simp add: step_parts)
  ultimately show "render_step s t" using transp_render_step by (blast dest: transpD)
qed

lemma steps_set_world [eff_steps]: "steps render_step (writes (\<lambda>s. s\<lparr>r_world := w\<rparr>))"
  by (rule steps_writes_same) (simp_all add: configuration_def scoped_def)

lemma steps_run_callback [eff_steps]:
 
  assumes rec: "sound_rec rec"
  shows "steps render_step (run_callback E rec cb)"
  by (induction cb) (simp_all only: run_callback.simps, (intro eff_steps rec sound_recD [OF rec] | simp)+)

lemma steps_invokeSectionLambda [eff_steps]:
 
  assumes rec: "sound_rec rec"
  shows "steps render_step (invokeSectionLambda E rec l text start stop esc)"
  unfolding invokeSectionLambda_def callback_frame_def [symmetric] by (intro eff_steps rec sound_recD [OF rec])

lemma steps_append_value [eff_steps]: "steps render_step (append_value E n v)"
  unfolding append_value_def by (intro eff_steps)

lemma steps_renderLambdaTemplate [eff_steps]:
 
  assumes rec: "sound_rec rec"
  shows "steps render_step (renderLambdaTemplate E rec n depth parsed)"
  unfolding renderLambdaTemplate_def by (intro eff_steps rec sound_recD [OF rec])

lemma steps_renderValueLambda [eff_steps]:
 
  assumes rec: "sound_rec rec"
  shows "steps render_step (renderValueLambda E rec n i depth)"
  unfolding renderValueLambda_def by (intro eff_steps rec sound_recD [OF rec])

lemma steps_renderValue [eff_steps]:
 
  assumes rec: "sound_rec rec"
  shows "steps render_step (renderValue E rec n v depth)"
  unfolding renderValue_def by (cases v) (simp_all only: data.case, (intro eff_steps rec sound_recD [OF rec])+)

lemma steps_renderSectionLambda [eff_steps]:
 
  assumes rec: "sound_rec rec"
  shows "steps render_step (renderSectionLambda E rec n l depth)"
  unfolding renderSectionLambda_def
  by (cases "startSequence n"; cases "stopSequence n") (simp_all, (intro eff_steps rec sound_recD [OF rec])+)

lemma steps_renderSection [eff_steps]:
  assumes rec: "sound_rec rec" and f: "\<And>d. steps render_step (f d)"
  shows "steps render_step (renderSection E rec n v depth f)"
  unfolding renderSection_def by (cases v) (simp_all only: data.case, (intro eff_steps f rec sound_recD [OF rec] | assumption)+)

lemma steps_renderPartial [eff_steps]:
 
  assumes rec: "sound_rec rec"
  shows "steps render_step (renderPartial E P rec n depth ind)"
  unfolding renderPartial_def by (intro eff_steps rec sound_recD [OF rec])

lemma steps_renderChildren [eff_steps]:
  assumes rec: "sound_rec rec"
  shows "steps render_step (renderChildren rec depth cs)"
proof (induction cs rule: length_induct)
  case (1 cs)
  show ?case
  proof (cases cs)
    case Nil
    then show ?thesis by (simp add: steps_ret)
  next
    case (Cons c rest)
    with 1 have "steps render_step (renderChildren rec depth rest)"
      and "steps render_step (renderChildren rec depth (tl rest))" by simp_all
    then show ?thesis
      unfolding Cons renderChildren.simps by (intro eff_steps sound_recD [OF rec])
  qed
qed

lemma steps_node_value [eff_steps]: "steps render_step (node_value n)"
  unfolding node_value_def by (intro eff_steps)

lemma steps_renderNode_switch [eff_steps]:
 
  assumes rec: "sound_rec rec"
  shows "steps render_step (renderNode_switch E P rec n depth ind v)"
  unfolding renderNode_switch_def Let_def
  by (cases "ntype n") (simp_all only: node_type.case, (intro eff_steps rec sound_recD [OF rec] | assumption)+)

lemma sound_renderNode_body:
  assumes rec: "sound_rec rec"
  shows "sound_rec (renderNode_body E P rec)"
  unfolding sound_rec_def [of "renderNode_body E P rec"] renderNode_body_def
  by (intro allI eff_steps rec sound_recD [OF rec])

lemma sound_render_level: "sound_rec (render_level E P n)"
proof (induction n)
  case 0
  show ?case by (simp add: sound_rec_def steps_throw)
next
  case (Suc n)
  then show ?case by (simp add: sound_renderNode_body)
qed

section \<open>The levels of nesting suffice\<close>

text \<open>
  Two operations that do the same in a running render whose innermost active node is at
  depth \<open>d\<close>.
\<close>

definition agree :: "nat \<Rightarrow> ('w, 'a) rend \<Rightarrow> ('w, 'a) rend \<Rightarrow> bool" where
  "agree d m m' \<longleftrightarrow> (\<forall>s. r_rendering s \<longrightarrow> r_activeDepth s = d \<longrightarrow> m s = m' s)"

named_theorems agree_rules "rules that take agree apart"

lemma agree_refl [agree_rules]: "agree d m m"
  by (simp add: agree_def)

lemma agree_bind [agree_rules]:
  fixes m :: "('w, 'a) rend"
  assumes "agree d m m'" and "steps render_step m" and "\<And>x. agree d (f x) (f' x)"
  shows "agree d (bind_eff m f) (bind_eff m' f')"
  unfolding agree_def
proof (intro allI impI)
  fix s :: "'w renderer"
  assume s: "r_rendering s" "r_activeDepth s = d"
  obtain r t where m: "m s = (r, t)" by (cases "m s")
  have "render_step s t" by (rule stepsD [OF assms(2) m])
  with s have t: "r_rendering t" "r_activeDepth t = d" by (simp_all add: render_step_def scoped_def)
  have "m' s = (r, t)" using assms(1) s m by (simp add: agree_def)
  with m t assms(3) show "bind_eff m f s = bind_eff m' f' s"
    by (simp add: bind_eff_def agree_def split: sum.splits)
qed

lemma agree_then [agree_rules]:
  "agree d m m' \<Longrightarrow> steps render_step m \<Longrightarrow> agree d k k' \<Longrightarrow> agree d (then_eff m k) (then_eff m' k')"
  unfolding then_eff_def by (rule agree_bind)

lemma agree_if [agree_rules]: "agree d m m' \<Longrightarrow> agree d k k' \<Longrightarrow> agree d (if b then m else k) (if b then m' else k')"
  by simp

lemma agree_case_option [agree_rules]:
  "agree d f f' \<Longrightarrow> (\<And>x. agree d (g x) (g' x)) \<Longrightarrow>
     agree d (case x of None \<Rightarrow> f | Some y \<Rightarrow> g y) (case x of None \<Rightarrow> f' | Some y \<Rightarrow> g' y)"
  by (cases x) simp_all

lemma agree_attempt [agree_rules]: "agree d m m' \<Longrightarrow> agree d (attempt m) (attempt m')"
  by (simp add: agree_def attempt_def)

lemma agree_each [agree_rules]:
  "(\<And>x. steps render_step (f x)) \<Longrightarrow> (\<And>x. agree d (f x) (f' x)) \<Longrightarrow> agree d (each_eff f xs) (each_eff f' xs)"
  by (induction xs) (auto intro!: agree_rules)

lemma agree_with_indentation [agree_rules]:
  "agree d m m' \<Longrightarrow> agree d (with_indentation cs m) (with_indentation cs m')"
  by (simp add: agree_def with_indentation_def then_eff_def bind_eff_def writes_def on_exit_def)

lemma agree_with_context [agree_rules]:
  "agree d m m' \<Longrightarrow> agree d (with_context x m) (with_context x m')"
  by (simp add: agree_def with_context_def then_eff_def bind_eff_def writes_def on_exit_def)

lemma agree_to_output [agree_rules]: "agree d m m' \<Longrightarrow> agree d (to_output b m) (to_output b m')"
  by (simp add: agree_def to_output_def then_eff_def bind_eff_def reads_def writes_def on_exit_def)

lemma agree_at_depth [agree_rules]: "agree d m m' \<Longrightarrow> agree d0 (at_depth d m) (at_depth d m')"
  by (simp add: agree_def at_depth_def then_eff_def bind_eff_def reads_def writes_def on_exit_def)

lemma agree_with_scope [agree_rules]:
  "agree d m m' \<Longrightarrow> agree d (with_scope self engine m) (with_scope self engine m')"
  by (simp add: agree_def with_scope_def fresh_id_def ret_def then_eff_def bind_eff_def reads_def
      writes_def on_exit_def)

lemma agree_callback_frame [agree_rules]:
  "(\<And>c. agree d (m c) (m' c)) \<Longrightarrow> agree d (callback_frame start stop esc m) (callback_frame start stop esc m')"
  by (simp add: agree_def callback_frame_def new_context_def with_callback_frame_def ret_def
      then_eff_def bind_eff_def reads_def writes_def on_exit_def)

text \<open>
  Two renderers of nodes, sound both, that agree one level below depth \<open>d\<close>. Everything
  the body of \<open>renderNode\<close> does with them at that depth is then the same.
\<close>

definition agree_below :: "nat \<Rightarrow> 'w node_renderer \<Rightarrow> 'w node_renderer \<Rightarrow> bool" where
  "agree_below d rec rec' \<longleftrightarrow> sound_rec rec \<and> (\<forall>n i b. agree d (rec n (d + 1) i b) (rec' n (d + 1) i b))"

lemma agree_belowD: "agree_below d rec rec' \<Longrightarrow> agree d (rec n (d + 1) i b) (rec' n (d + 1) i b)"
  by (simp add: agree_below_def)

lemma agree_below_sound: "agree_below d rec rec' \<Longrightarrow> sound_rec rec"
  by (simp add: agree_below_def)

lemma agree_active_depth [agree_rules]:
  "agree_below d rec rec' \<Longrightarrow>
     agree d (bind_eff (reads r_activeDepth) (\<lambda>k. rec n (k + 1) i b))
             (bind_eff (reads r_activeDepth) (\<lambda>k. rec' n (k + 1) i b))"
  by (simp add: agree_below_def agree_def bind_eff_def reads_def)

lemma agree_refused [agree_rules]: "agree d (then_eff already_rendering m) (then_eff already_rendering m')"
  by (simp add: agree_def refused)

lemma agree_renderForLambda [agree_rules]:
  assumes below: "agree_below d rec rec'"
  shows "agree d (renderForLambda E rec n out) (renderForLambda E rec' n out)"
proof -
  note rec = agree_below_sound [OF below]
  show ?thesis
    unfolding renderForLambda_def
    by (intro agree_rules below rec eff_steps agree_belowD [OF below] sound_recD [OF rec])
qed

lemma agree_context_render [agree_rules]:
  assumes below: "agree_below d rec rec'"
  shows "agree d (context_render E rec c n b) (context_render E rec' c n b)"
proof -
  note rec = agree_below_sound [OF below]
  show ?thesis
    unfolding context_render_def
    by (intro agree_rules below rec eff_steps agree_belowD [OF below] sound_recD [OF rec])
qed

lemma agree_context_render_owned [agree_rules]:
  assumes below: "agree_below d rec rec'"
  shows "agree d (context_render_owned E rec c n) (context_render_owned E rec' c n)"
proof -
  note rec = agree_below_sound [OF below]
  show ?thesis
    unfolding context_render_owned_def
    by (intro agree_rules below rec eff_steps agree_belowD [OF below] sound_recD [OF rec])
qed

lemma agree_context_renderResult [agree_rules]:
  assumes below: "agree_below d rec rec'"
  shows "agree d (context_renderResult E rec c n) (context_renderResult E rec' c n)"
proof -
  note rec = agree_below_sound [OF below]
  show ?thesis
    unfolding context_renderResult_def
    by (intro agree_rules below rec eff_steps agree_belowD [OF below] sound_recD [OF rec])
qed

lemma agree_context_renderTemplate [agree_rules]:
  assumes below: "agree_below d rec rec'"
  shows "agree d (context_renderTemplate E rec c source) (context_renderTemplate E rec' c source)"
proof -
  note rec = agree_below_sound [OF below]
  show ?thesis
    unfolding context_renderTemplate_def
    by (intro agree_rules below rec eff_steps agree_belowD [OF below] sound_recD [OF rec])
qed

lemma agree_renderRoot [agree_rules]:
  assumes below: "agree_below d rec rec'"
  shows "agree d (renderRoot rec root) (renderRoot rec' root)"
proof -
  note rec = agree_below_sound [OF below]
  show ?thesis
    unfolding renderRoot_def
    by (intro agree_rules below rec eff_steps agree_belowD [OF below] sound_recD [OF rec])
qed

lemma agree_user_string:
  "(\<And>b. agree d (k b) (k' b)) \<Longrightarrow>
     agree d (bind_eff new_string (\<lambda>b. then_eff (string_append b v) (k b)))
             (bind_eff new_string (\<lambda>b. then_eff (string_append b v) (k' b)))"
  by (simp add: agree_def new_string_def string_append_def ret_def then_eff_def bind_eff_def
      reads_def writes_def)

lemma agree_run_callback [agree_rules]:
  assumes below: "agree_below d rec rec'"
  shows "agree d (run_callback E rec cb) (run_callback E rec' cb)"
proof -
  note rec = agree_below_sound [OF below]
  show ?thesis
    by (induction cb) (simp_all only: run_callback.simps,
      (rule agree_user_string | rule agree_rules below rec eff_steps
        agree_belowD [OF below] sound_recD [OF rec] | simp)+)
qed

lemma agree_invokeSectionLambda [agree_rules]:
  assumes below: "agree_below d rec rec'"
  shows "agree d (invokeSectionLambda E rec l text start stop esc) (invokeSectionLambda E rec' l text start stop esc)"
proof -
  note rec = agree_below_sound [OF below]
  show ?thesis
    unfolding invokeSectionLambda_def callback_frame_def [symmetric]
    by (intro agree_rules below rec eff_steps agree_belowD [OF below] sound_recD [OF rec])
qed

lemma agree_renderLambdaTemplate [agree_rules]:
  assumes below: "agree_below d rec rec'"
  shows "agree d (renderLambdaTemplate E rec n d parsed) (renderLambdaTemplate E rec' n d parsed)"
proof -
  note rec = agree_below_sound [OF below]
  show ?thesis
    unfolding renderLambdaTemplate_def
    by (intro agree_rules below rec eff_steps agree_belowD [OF below] sound_recD [OF rec])
qed

lemma agree_renderValueLambda [agree_rules]:
  assumes below: "agree_below d rec rec'"
  shows "agree d (renderValueLambda E rec n i d) (renderValueLambda E rec' n i d)"
proof -
  note rec = agree_below_sound [OF below]
  show ?thesis
    unfolding renderValueLambda_def
    by (intro agree_rules below rec eff_steps agree_belowD [OF below] sound_recD [OF rec])
qed

lemma agree_renderValue [agree_rules]:
  assumes below: "agree_below d rec rec'"
  shows "agree d (renderValue E rec n v d) (renderValue E rec' n v d)"
proof -
  note rec = agree_below_sound [OF below]
  show ?thesis
    unfolding renderValue_def
    by (cases v) (simp_all only: data.case, (intro agree_rules below rec eff_steps agree_belowD [OF below] sound_recD [OF rec])+)
qed

lemma agree_renderSectionLambda [agree_rules]:
  assumes below: "agree_below d rec rec'"
  shows "agree d (renderSectionLambda E rec n l d) (renderSectionLambda E rec' n l d)"
proof -
  note rec = agree_below_sound [OF below]
  show ?thesis
    unfolding renderSectionLambda_def
    by (cases "startSequence n"; cases "stopSequence n") (simp_all only: prod.case option.case, (intro agree_rules below rec eff_steps agree_belowD [OF below] sound_recD [OF rec])+)
qed

lemma agree_renderSection [agree_rules]:
  assumes below: "agree_below d rec rec'"
    and f: "\<And>x. steps render_step (f x)" and ff': "\<And>x. agree d (f x) (f' x)"
  shows "agree d (renderSection E rec n v d f) (renderSection E rec' n v d f')"
proof -
  note rec = agree_below_sound [OF below]
  show ?thesis
    unfolding renderSection_def
    by (cases v) (simp_all only: data.case, (intro agree_rules below rec f ff' eff_steps agree_belowD [OF below] sound_recD [OF rec])+)
qed

lemma agree_renderPartial [agree_rules]:
  assumes below: "agree_below d rec rec'"
  shows "agree d (renderPartial E P rec n d ind) (renderPartial E P rec' n d ind)"
proof -
  note rec = agree_below_sound [OF below]
  show ?thesis
    unfolding renderPartial_def
    by (intro agree_rules below rec eff_steps agree_belowD [OF below] sound_recD [OF rec])
qed

lemma agree_renderChildren [agree_rules]:
  assumes below: "agree_below d rec rec'"
  shows "agree d (renderChildren rec d cs) (renderChildren rec' d cs)"
proof (induction cs rule: length_induct)
  case (1 cs)
  note rec = agree_below_sound [OF below]
  show ?case
  proof (cases cs)
    case Nil
    then show ?thesis by (simp add: agree_refl)
  next
    case (Cons c rest)
    with 1 have "agree d (renderChildren rec d rest) (renderChildren rec' d rest)"
      and "agree d (renderChildren rec d (tl rest)) (renderChildren rec' d (tl rest))" by simp_all
    then show ?thesis
      unfolding Cons renderChildren.simps
      by (intro agree_rules eff_steps agree_belowD [OF below] sound_recD [OF rec])
  qed
qed

lemma agree_renderNode_switch [agree_rules]:
  assumes below: "agree_below d rec rec'"
  shows "agree d (renderNode_switch E P rec n d ind v) (renderNode_switch E P rec' n d ind v)"
proof -
  note rec = agree_below_sound [OF below]
  show ?thesis
    unfolding renderNode_switch_def Let_def
    by (cases "ntype n") (simp_all only: node_type.case,
      (intro agree_rules below rec eff_steps agree_belowD [OF below] sound_recD [OF rec])+)
qed

lemma agree_renderNode_body:
  assumes below: "agree_below d rec rec'"
  shows "agree d0 (renderNode_body E P rec node d ind b) (renderNode_body E P rec' node d ind b)"
proof -
  note rec = agree_below_sound [OF below]
  show ?thesis
    unfolding renderNode_body_def
    by (intro agree_rules below rec eff_steps)
qed

text \<open>At the ceiling the body does not look at the next level.\<close>

lemma renderNode_body_ceiling:
  "renderNestingCeiling \<le> d \<Longrightarrow> renderNode_body E P rec node d ind b = renderNode_body E P rec' node d ind b"
  by (cases node) (auto simp: renderNode_body_def nesting_check_def then_eff_def bind_eff_def
      throw_when_def fun_eq_iff)

lemma render_level_agree:
  assumes "renderNestingCeiling < d + n" and "renderNestingCeiling < d + n'" and "0 < n" and "0 < n'"
  shows "agree d0 (render_level E P n node d i b) (render_level E P n' node d i b)"
  using assms
proof (induction n arbitrary: n' d d0 node i b)
  case (Suc m)
  then obtain m' where n': "n' = Suc m'" by (cases n') simp_all
  show ?case
  proof (cases "renderNestingCeiling \<le> d")
    case True
    then have "render_level E P (Suc m) node d i b = render_level E P n' node d i b"
      unfolding n' render_level.simps by (rule renderNode_body_ceiling)
    then show ?thesis by (simp add: agree_refl)
  next
    case False
    with Suc.prems n' have "agree d (render_level E P m k (d + 1) j c) (render_level E P m' k (d + 1) j c)"
      for k j c by (intro Suc.IH) simp_all
    then have "agree_below d (render_level E P m) (render_level E P m')"
      by (simp add: agree_below_def sound_render_level)
    then show ?thesis unfolding n' render_level.simps by (rule agree_renderNode_body)
  qed
qed simp

lemma render_level_enough:
  assumes "render_levels \<le> n"
  shows "renderRoot (render_level E P n) root s = renderRoot (renderNode E P) root s"
proof -
  let ?t = "push_root_data (begin_render s)"
  have "agree 0 (render_level E P n root 0 None False) (renderNode E P root 0 None False)"
    unfolding renderNode_def
    by (rule render_level_agree) (use assms in \<open>simp_all add: render_levels_def renderNestingCeiling_def\<close>)
  moreover have "r_rendering ?t" "r_activeDepth ?t = 0"
    by (simp_all add: push_root_data_def begin_render_def)
  ultimately have eq: "render_level E P n root 0 None False ?t = renderNode E P root 0 None False ?t"
    by (simp add: agree_def)
  then show ?thesis
    by (cases "r_output s")
      (simp_all add: renderRoot_def then_eff_def bind_eff_def already_rendering_eq with_output_def
        throw_when_def reads_def writes_def on_exit_def throw_def)
qed

section \<open>A whole render\<close>

lemma renderRoot_cases:
  assumes "renderRoot rec root s = (r, t)" and rec: "sound_rec rec"
  obtains (refused) e where "r = Inl e" and "t = s"
  | (ran) b u where "\<not> r_rendering s" and "r_output s = Some b"
      and "length (r_strings s b) \<le> maxOutputBytes (r_limits s)"
      and "rec root 0 None False (push_root_data (begin_render s)) = (r, u)"
      and "render_step (push_root_data (begin_render s)) u" and "t = end_render u"
proof -
  have "(\<exists>e. r = Inl e \<and> t = s) \<or> (\<exists>b u. \<not> r_rendering s \<and> r_output s = Some b
      \<and> length (r_strings s b) \<le> maxOutputBytes (r_limits s)
      \<and> rec root 0 None False (push_root_data (begin_render s)) = (r, u) \<and> t = end_render u)"
    using assms(1)
    by (auto simp: renderRoot_def then_eff_def bind_eff_def already_rendering_eq with_output_def
        throw_when_def reads_def writes_def on_exit_def throw_def
        split: if_splits option.splits prod.splits)
  with that stepsD [OF sound_recD [OF rec]] show thesis by blast
qed

lemma renderer_render_eq:
  "renderer_render E s =
     renderRoot (renderNode E (owned_partials (r_partialResolver s) (r_partials s) (r_node s))) (r_node s) s"
  by (simp add: renderer_render_def bind_eff_def reads_def)

lemma sound_renderNode: "sound_rec (renderNode E P)"
  unfolding renderNode_def by (rule sound_render_level)

lemma begin_render_within:
  "r_output s = Some b \<Longrightarrow> length (r_strings s b) \<le> maxOutputBytes (r_limits s) \<Longrightarrow>
     within_budgets (push_root_data (begin_render s))"
  by (simp add: within_budgets_def push_root_data_def begin_render_def)

lemma render_end_state:
  assumes "renderRoot rec root s = (r, t)" and rec: "sound_rec rec" and off: "\<not> r_rendering s"
  shows "configuration t = configuration s \<and> r_output t = r_output s \<and> r_scopes t = r_scopes s
    \<and> contexts_grow s t \<and> strings_grow s t \<and> \<not> r_rendering t
    \<and> (t = s \<or> within_budgets t \<and> r_stack t = [] \<and> r_indentationStack t = []
           \<and> r_activeDepth t = 0 \<and> r_lambdaCallbackDepth t = 0)"
proof (cases rule: renderRoot_cases [OF assms(1) rec])
  case (1 e)
  then show ?thesis using off by (simp add: contexts_grow_refl strings_grow_refl)
next
  case (2 b u)
  let ?s = "push_root_data (begin_render s)"
  have on: "r_rendering ?s" by (simp add: push_root_data_def begin_render_def)
  note k = render_stepD [OF 2(5) on]
  have "within_budgets u" using k(3) begin_render_within [OF 2(2, 3)] by blast
  with k(1,2,5,6) show ?thesis
    by (simp add: 2(6) end_render_def push_root_data_def begin_render_def configuration_def scoped_def
        contexts_grow_def strings_grow_def within_budgets_def)
qed

lemma renderer_render_end_state:
  assumes "\<not> r_rendering s" and "t = snd (renderer_render E s)"
  shows "configuration t = configuration s \<and> r_output t = r_output s \<and> r_scopes t = r_scopes s
    \<and> contexts_grow s t \<and> strings_grow s t \<and> \<not> r_rendering t
    \<and> (t = s \<or> within_budgets t \<and> r_stack t = [] \<and> r_indentationStack t = []
           \<and> r_activeDepth t = 0 \<and> r_lambdaCallbackDepth t = 0)"
proof -
  obtain r where "renderRoot (renderNode E (owned_partials (r_partialResolver s) (r_partials s) (r_node s)))
      (r_node s) s = (r, t)"
    using assms(2) by (cases "renderer_render E s") (simp add: renderer_render_eq)
  then show ?thesis by (rule render_end_state [OF _ sound_renderNode assms(1)])
qed

lemma inactive_context:
  assumes "\<not> context_active c s"
  shows "require_active c s = (Inl inactive, s)"
  using assms by (auto simp: require_active_def bind_eff_def reads_def throw_def context_active_def
      split: option.splits)

lemma grown_context_inactive:
  "contexts_grow s t \<Longrightarrow> length (r_contexts s) \<le> c \<Longrightarrow> \<not> context_active c t"
  by (auto simp: contexts_grow_def context_active_def context_state_def nth_append)

section \<open>Sample render\<close>

text \<open>
  A lambda that renders the variable \<open>x\<close> through its context, twice, and keeps the
  number of its context in the world.
\<close>

definition sample_lambda :: "nat lambda_impl" where
  "sample_lambda = \<lparr>li_invoke = None, li_invokeLegacy = None,
     li_invokeScoped = Some (\<lambda>text c. SetWorld c (CtxRenderTemplate c text (\<lambda>r.
        case r of Inl e \<Rightarrow> Throw e | Inr v \<Rightarrow> Return (lr_text v @ lr_text v)))),
     li_invokeResult = None, li_invokeSectionResult = None\<rparr>"

definition sample_env :: "nat render_env" where
  "sample_env = \<lparr>env_to_chars = (\<lambda>_. ''0''), env_lambdas = (\<lambda>_. sample_lambda),
     env_max_size = 2 ^ 62, env_renderer = 1, env_engine = 1\<rparr>"

definition sample_section :: node where
  "sample_section = Node TypeRoot FlagNone None []
     [Some (Node TypeSection FlagNone (Some ''w'') []
        [Some (make_node TypeVariable ''x'' FlagEscape), Some (make_node TypeStop ''w'' FlagNone)]
        None [] (Some ''{{'') (Some ''}}'') None 0 0)]
     None [] None None None 0 0"

definition sample_renderer :: "nat renderer" where
  "sample_renderer = (new_renderer (\<lambda>_. []) 1 [] 0)\<lparr>r_node := Some sample_section,
     r_data := Some (DMap [(''w'', DLambda (Some 0)), (''x'', DString ''<'')]), r_output := Some 0\<rparr>"

lemma sample_renderer_off: "\<not> r_rendering sample_renderer"
  by (simp add: sample_renderer_def new_renderer_def)

section \<open>Properties of a render\<close>

text \<open>
  C2. Whatever the template, the data and the callbacks are, and whether the render returns
  or throws: unless it was refused at the start, the output, node-visit and lambda-template
  counters end within their limits. Every string there was before, the output among them,
  only grew at its end, and none grew past the output limit.
\<close>

theorem render_respects_limits:
  assumes "\<not> r_rendering s" and "t = snd (renderer_render E s)"
  shows "(t = s \<or> within_budgets t)
    \<and> (\<forall>b < r_nextString s. prefix (r_strings s b) (r_strings t b)
         \<and> (length (r_strings s b) \<le> maxOutputBytes (r_limits s)
              \<longrightarrow> length (r_strings t b) \<le> maxOutputBytes (r_limits s)))"
  using renderer_render_end_state [OF assms] by (auto simp: strings_grow_def)

theorem render_respects_limits_witness:
  "let t = snd (renderer_render sample_env sample_renderer) in
     (t = sample_renderer \<or> within_budgets t) \<and> length (r_strings t 0) \<le> 67108864"
  using render_respects_limits [OF sample_renderer_off refl, of sample_env]
  by (simp add: Let_def sample_renderer_def new_renderer_def default_render_limits_def)

text \<open>
  C7. A render, returning or throwing, leaves the renderer's configuration, its output
  pointer and the registry of active engines as they were; the renderer is not rendering
  any more, and unless it was refused its context and indentation stacks are empty and its
  depths are zero. Every callback context it created is inactive.
\<close>

theorem render_restores_state:
  assumes "\<not> r_rendering s" and "t = snd (renderer_render E s)"
  shows "configuration t = configuration s \<and> r_output t = r_output s \<and> r_scopes t = r_scopes s
    \<and> \<not> r_rendering t
    \<and> (t = s \<or> r_stack t = [] \<and> r_indentationStack t = [] \<and> r_activeDepth t = 0
               \<and> r_lambdaCallbackDepth t = 0)
    \<and> (\<forall>c \<ge> length (r_contexts s). \<not> context_active c t)"
  using renderer_render_end_state [OF assms] grown_context_inactive by blast

theorem render_restores_state_witness:
  "let t = snd (renderer_render sample_env sample_renderer) in
     r_output t = Some 0 \<and> r_scopes t = [] \<and> \<not> r_rendering t \<and> \<not> context_active 0 t"
  using render_restores_state [OF sample_renderer_off refl, of sample_env]
  by (simp add: Let_def sample_renderer_def new_renderer_def)

text \<open>
  C31. A context a callback kept after its render is dead: rendering a node or a template
  through it, or asking it for the renderer, throws and changes no state of the renderer.
\<close>

theorem retained_context_is_dead:
  assumes "\<not> r_rendering s" and "t = snd (renderer_render E s)" and "length (r_contexts s) \<le> c"
  shows "context_render E' rec c n b t = (Inl inactive, t)
    \<and> context_renderTemplate E' rec c source t = (Inl inactive, t)
    \<and> legacyRenderer c t = (Inl inactive, t)"
proof -
  have "contexts_grow s t" using renderer_render_end_state [OF assms(1,2)] by blast
  then have "require_active c t = (Inl inactive, t)"
    using assms(3) by (intro inactive_context grown_context_inactive)
  then show ?thesis
    by (simp add: context_render_def context_renderTemplate_def legacyRenderer_def bind_eff_def)
qed

theorem retained_context_is_dead_witness:
  "legacyRenderer 0 (snd (renderer_render sample_env sample_renderer)) =
     (Inl inactive, snd (renderer_render sample_env sample_renderer))"
proof -
  have "length (r_contexts sample_renderer) \<le> 0" by (simp add: sample_renderer_def new_renderer_def)
  from retained_context_is_dead [OF sample_renderer_off refl this] show ?thesis by blast
qed

text \<open>
  C3. Nothing a callback does in a running render can disturb it: whatever calls it makes
  into the library and whatever it catches, the configuration, the context stack, the
  output pointer, the indentation in force, the depths and the registry are afterwards what
  they were, counters within their limits stay within them, and contexts of its inner
  callbacks are retired.
\<close>

theorem callback_cannot_disturb:
  assumes "r_rendering s" and "t = snd (run_callback E (renderNode E P) cb s)"
  shows "configuration t = configuration s \<and> scoped t = scoped s
    \<and> (within_budgets s \<longrightarrow> within_budgets t) \<and> contexts_grow s t"
proof -
  have "render_step s t"
    using steps_run_callback [where E = E and cb = cb, OF sound_renderNode [of E P]] assms(2) by (simp add: steps_def)
  with assms(1) show ?thesis by (simp add: render_step_def)
qed

theorem callback_cannot_disturb_witness:
  "let s = sample_renderer\<lparr>r_rendering := True\<rparr>;
       t = snd (run_callback sample_env (renderNode sample_env (\<lambda>_. Inr None))
             (RendererCall CallClear (\<lambda>r. Return r)) s)
   in r_node t = Some sample_section \<and> r_rendering t"
proof -
  let ?s = "sample_renderer\<lparr>r_rendering := True\<rparr>"
  have "r_rendering ?s" by simp
  from callback_cannot_disturb [OF this refl, of sample_env "\<lambda>_. Inr None" "RendererCall CallClear (\<lambda>r. Return r)"]
  show ?thesis by (simp add: Let_def configuration_def scoped_def sample_renderer_def)
qed

text \<open>
  C16. The levels of nesting suffice: with any larger number of levels every render comes
  out the same, so the renderer of the model never stops for want of levels and the
  recursion of the code ends at its ceiling of 256 active nodes.
\<close>

theorem render_levels_suffice:
  assumes "render_levels \<le> n"
  shows "renderRoot (render_level E P n) root = renderRoot (renderNode E P) root"
  by (rule ext, rule render_level_enough [OF assms])

theorem render_levels_suffice_witness:
  "renderRoot (render_level sample_env (\<lambda>_. Inr None) 1000) (Some sample_section) sample_renderer =
     renderRoot (renderNode sample_env (\<lambda>_. Inr None)) (Some sample_section) sample_renderer"
  by (simp add: render_levels_suffice render_levels_def renderNestingCeiling_def)

end
