(* ===== verification/Render_Spec.thy ===== *)
theory Render_Spec
  imports Engine_Props
begin

text \<open>
  What a render means, without state: \<open>spec_node\<close> is the text a template stands for in
  a stack of contexts, with the number of nodes it visits, as a pure function. Output,
  budgets, scope guards and the renderer's fields are gone; of the indentation of standalone
  partials only the frames remain, since where a line starts decides what is written.

  \<open>denotes\<close> relates an operation of the engine to its meaning: in a running render it
  returns exactly when the meaning is defined and its visits and text fit the budgets, and
  then it has written that text and changed nothing else. The theorem holds for data without
  lambdas, whose callbacks have no meaning of their own; partials, sections, escaping and
  indentation are covered.
\<close>

section \<open>Meanings\<close>

type_synonym meaning = "indentation_frame list \<Rightarrow> (nat \<times> string \<times> indentation_frame list) option"

definition m_fail :: meaning where
  "m_fail fs = None"

definition m_skip :: meaning where
  "m_skip fs = Some (0, [], fs)"

definition m_text :: "string \<Rightarrow> meaning" where
  "m_text w fs = Some (0, w, fs)"

definition m_visit :: meaning where
  "m_visit fs = Some (1, [], fs)"

definition m_seq :: "meaning \<Rightarrow> meaning \<Rightarrow> meaning" where
  "m_seq m k fs =
     (case m fs of
        None \<Rightarrow> None
      | Some (v, w, fs1) \<Rightarrow>
          (case k fs1 of None \<Rightarrow> None | Some (v', w', fs2) \<Rightarrow> Some (v + v', w @ w', fs2)))"

primrec m_each :: "('a \<Rightarrow> meaning) \<Rightarrow> 'a list \<Rightarrow> meaning" where
  "m_each f [] = m_skip"
| "m_each f (x # xs) = m_seq (f x) (m_each f xs)"

definition m_frame :: "string list \<Rightarrow> meaning \<Rightarrow> meaning" where
  "m_frame components m fs =
     (case m (new_frame components # fs) of
        None \<Rightarrow> None
      | Some (v, w, fs') \<Rightarrow> Some (v, w, tl fs'))"

text \<open>
  Template text inside a partial: the indentation comes before the first character of every
  line, and whether the text ends at the start of a line is remembered.
\<close>

fun indented :: "string \<Rightarrow> bool \<Rightarrow> string \<Rightarrow> string" where
  "indented ind start [] = []"
| "indented ind start (c # cs) = (if start then ind else []) @ c # indented ind (c = CHR 0x0A) cs"

fun ends_line :: "bool \<Rightarrow> string \<Rightarrow> bool" where
  "ends_line start [] = start"
| "ends_line start (c # cs) = ends_line (c = CHR 0x0A) cs"

definition m_output :: "string \<Rightarrow> meaning" where
  "m_output v fs =
     (case fs of
        [] \<Rightarrow> Some (0, v, [])
      | f # rest \<Rightarrow> Some (0, indented (concat (if_components f)) (if_atLineStart f) v,
          f\<lparr>if_atLineStart := ends_line (if_atLineStart f) v\<rparr> # rest))"

definition m_tag :: meaning where
  "m_tag fs =
     (case fs of
        [] \<Rightarrow> Some (0, [], [])
      | f # rest \<Rightarrow> Some (0, if if_atLineStart f then concat (if_components f) else [],
          f\<lparr>if_atLineStart := False\<rparr> # rest))"

text \<open>Source-only text: it moves the line start, and empty text marks a used-up prefix.\<close>

definition m_source :: "string \<Rightarrow> meaning" where
  "m_source v fs =
     (case fs of
        [] \<Rightarrow> Some (0, [], [])
      | f # rest \<Rightarrow> Some (0, [],
          f\<lparr>if_atLineStart := v \<noteq> [] \<and> ends_line (if_atLineStart f) v\<rparr> # rest))"

section \<open>The meaning of a node\<close>

type_synonym meaning_rec = "data list \<Rightarrow> node option \<Rightarrow> string option \<Rightarrow> bool \<Rightarrow> meaning"

fun m_children :: "(node option \<Rightarrow> string option \<Rightarrow> bool \<Rightarrow> meaning) \<Rightarrow> node option list \<Rightarrow> meaning" where
  "m_children f [] = m_skip"
| "m_children f (c # rest) =
     (case validatePartialIndentation c (head_child rest) of
        Inl e \<Rightarrow> m_fail
      | Inr ind \<Rightarrow>
          if ind = None then m_seq (f c None False) (m_children f rest)
          else m_seq (f c None True) (m_seq (f (head_child rest) ind False) (m_children f (tl rest))))"

definition m_scalar :: "node \<Rightarrow> string \<Rightarrow> meaning" where
  "m_scalar n v = m_text (if has_flag (nflags n) FlagEscape then concat (map escape_char v) else v)"

definition m_value :: "(64 word \<Rightarrow> string) \<Rightarrow> node \<Rightarrow> data \<Rightarrow> meaning" where
  "m_value tc n d =
     (case d of
        DString v \<Rightarrow> m_scalar n v
      | DBoolean b \<Rightarrow> m_scalar n (if b then ''true'' else [])
      | DInteger i \<Rightarrow> m_scalar n (show_int (sint i))
      | DDouble x sp \<Rightarrow> m_scalar n (if sp \<noteq> [] then sp else tc x)
      | _ \<Rightarrow> m_skip)"

definition section_contexts :: "data \<Rightarrow> data list" where
  "section_contexts d = (case d of DList ds \<Rightarrow> ds | DArray ds \<Rightarrow> ds | DNone \<Rightarrow> [] | _ \<Rightarrow> [d])"

definition m_partial ::
    "partial_lookup \<Rightarrow> meaning_rec \<Rightarrow> data list \<Rightarrow> node \<Rightarrow> string option \<Rightarrow> meaning" where
  "m_partial P rec ctx n ind = m_seq m_tag (\<lambda>fs.
     case P (the (ndata n)) of
       Inl e \<Rightarrow> m_fail fs
     | Inr None \<Rightarrow> m_skip fs
     | Inr (Some p) \<Rightarrow> m_frame (partial_indentation ind fs) (rec ctx (Some p) None False) fs)"

definition m_lookup :: "bool \<Rightarrow> data list \<Rightarrow> node \<Rightarrow> data option" where
  "m_lookup strict ctx n = (case data_lookup strict ctx n of Inl e \<Rightarrow> None | Inr d \<Rightarrow> d)"

definition m_switch ::
    "(64 word \<Rightarrow> string) \<Rightarrow> bool \<Rightarrow> partial_lookup \<Rightarrow> meaning_rec \<Rightarrow> data list \<Rightarrow> node
       \<Rightarrow> string option \<Rightarrow> meaning" where
  "m_switch tc strict P rec ctx n ind =
     (let value = m_lookup strict ctx n; inner = (\<lambda>ctx. m_children (rec ctx) (children n)) in
      case ntype n of
        TypeNone \<Rightarrow> m_skip
      | TypeComment \<Rightarrow> m_tag
      | TypeStop \<Rightarrow> m_tag
      | TypeInlinePartial \<Rightarrow> m_tag
      | TypeRoot \<Rightarrow> inner ctx
      | TypeOutput \<Rightarrow>
          (if has_flag (nflags n) FlagLambdaOnly then m_source (the (ndata n)) else m_output (the (ndata n)))
      | TypeContainer \<Rightarrow> (if child n = None then m_fail else rec ctx (child n) None False)
      | TypeTag \<Rightarrow> m_tag
      | TypeVariable \<Rightarrow>
          m_seq m_tag (if value_is_empty value then m_skip else m_value tc n (the value))
      | TypeNegate \<Rightarrow> m_seq m_tag (if value_is_empty value then inner ctx else m_skip)
      | TypeSection \<Rightarrow>
          m_seq m_tag (if value_is_empty value then m_skip
                       else m_each (\<lambda>d. inner (d # ctx)) (section_contexts (the value)))
      | TypePartial \<Rightarrow> m_partial P rec ctx n ind
      | _ \<Rightarrow> m_fail)"

text \<open>\<open>D\<close> is the number of levels the limits allow.\<close>

function spec_node ::
    "(64 word \<Rightarrow> string) \<Rightarrow> bool \<Rightarrow> partial_lookup \<Rightarrow> nat \<Rightarrow> nat \<Rightarrow> meaning_rec" where
  "spec_node tc strict P D depth ctx node ind metadata =
     (if D \<le> depth then m_fail
      else case node of
        None \<Rightarrow> m_fail
      | Some n \<Rightarrow>
          if has_flag (nflags n) FlagPartialIndent \<and> \<not> (metadata \<and> indentation_metadata n) then m_fail
          else if \<not> type_and (ntype n) TypeHasNoString \<and> ndata n = None then m_fail
          else m_seq m_visit
            (m_switch tc strict P (\<lambda>c k i b. spec_node tc strict P D (depth + 1) c k i b) ctx n ind))"
  by pat_completeness auto
termination
  by (relation "measure (\<lambda>(tc, strict, P, D, depth, ctx, node, ind, metadata). D - depth)") auto

declare spec_node.simps [simp del]

section \<open>An operation and its meaning\<close>

definition ready :: "nat \<Rightarrow> nat \<Rightarrow> render_limits \<Rightarrow> bool \<Rightarrow> data list \<Rightarrow> 'w renderer \<Rightarrow> bool" where
  "ready mx b L strict ctx s \<longleftrightarrow> r_output s = Some b \<and> r_stack s = ctx \<and> r_limits s = L
     \<and> r_strictPaths s = strict \<and> r_outputBytes s = length (r_strings s b)
     \<and> length (r_strings s b) \<le> min (maxOutputBytes L) mx \<and> r_nodeVisits s \<le> maxNodeVisits L"

definition advance :: "nat \<Rightarrow> nat \<Rightarrow> string \<Rightarrow> indentation_frame list \<Rightarrow> 'w renderer \<Rightarrow> 'w renderer" where
  "advance b v w fs s =
     s\<lparr>r_outputBytes := r_outputBytes s + length w, r_nodeVisits := r_nodeVisits s + v,
       r_indentationStack := fs, r_strings := (r_strings s)(b := r_strings s b @ w)\<rparr>"

definition has_room :: "nat \<Rightarrow> nat \<Rightarrow> render_limits \<Rightarrow> nat \<Rightarrow> string \<Rightarrow> 'w renderer \<Rightarrow> bool" where
  "has_room mx b L v w s \<longleftrightarrow> r_nodeVisits s + v \<le> maxNodeVisits L
     \<and> length (r_strings s b) + length w \<le> min (maxOutputBytes L) mx"

definition fails :: "('s, 'a) eff \<Rightarrow> 's \<Rightarrow> bool" where
  "fails m s \<longleftrightarrow> (\<exists>e. fst (m s) = Inl e)"

definition denotes ::
    "nat \<Rightarrow> nat \<Rightarrow> render_limits \<Rightarrow> bool \<Rightarrow> data list \<Rightarrow> meaning \<Rightarrow> ('w, unit) rend \<Rightarrow> bool" where
  "denotes mx b L strict ctx spec m \<longleftrightarrow> (\<forall>s. ready mx b L strict ctx s \<longrightarrow>
     (case spec (r_indentationStack s) of
        None \<Rightarrow> fails m s
      | Some (v, w, fs) \<Rightarrow>
          if has_room mx b L v w s then m s = (Inr (), advance b v w fs s) else fails m s))"

named_theorems denotes_rules "operations and their meanings"

lemma ready_advance: "ready mx b L st ctx s \<Longrightarrow> has_room mx b L v w s \<Longrightarrow> ready mx b L st ctx (advance b v w fs s)"
  by (simp add: ready_def advance_def has_room_def)

lemma advance_advance: "advance b v' w' fs' (advance b v w fs s) = advance b (v + v') (w @ w') fs' s"
  by (simp add: advance_def)

lemma advance_nothing: "advance b 0 [] (r_indentationStack s) s = s"
  by (simp add: advance_def)

lemma room_nothing: "ready mx b L st ctx s \<Longrightarrow> has_room mx b L 0 [] s"
  by (simp add: ready_def has_room_def)

lemma fails_bind: "fails m s \<Longrightarrow> fails (bind_eff m f) s"
  by (auto simp: fails_def bind_eff_def split: prod.splits)

lemma fails_then: "fails m s \<Longrightarrow> fails (then_eff m k) s"
  by (simp add: then_eff_def fails_bind)

lemma denotesI:
  assumes "\<And>s. ready mx b L st ctx s \<Longrightarrow> spec (r_indentationStack s) = None \<Longrightarrow> fails m s"
    and "\<And>s v w fs. ready mx b L st ctx s \<Longrightarrow> spec (r_indentationStack s) = Some (v, w, fs) \<Longrightarrow>
       if has_room mx b L v w s then m s = (Inr (), advance b v w fs s) else fails m s"
  shows "denotes mx b L st ctx spec m"
  using assms by (fastforce simp: denotes_def split: option.splits prod.splits)

lemma denotes_failD: "denotes mx b L st ctx spec m \<Longrightarrow> ready mx b L st ctx s \<Longrightarrow>
    spec (r_indentationStack s) = None \<Longrightarrow> fails m s"
  by (auto simp: denotes_def split: option.splits)

lemma denotes_SomeD:
  assumes "denotes mx b L st ctx spec m" and "ready mx b L st ctx s"
    and "spec (r_indentationStack s) = Some (v, w, fs)"
  shows "if has_room mx b L v w s then m s = (Inr (), advance b v w fs s) else fails m s"
proof -
  from assms(1,2) have "case spec (r_indentationStack s) of None \<Rightarrow> fails m s
      | Some (v, w, fs) \<Rightarrow> if has_room mx b L v w s then m s = (Inr (), advance b v w fs s) else fails m s"
    unfolding denotes_def by blast
  then show ?thesis by (simp only: assms(3) option.case prod.case)
qed

lemma denotes_cong:
  fixes m m' :: "('w, unit) rend"
  assumes m: "denotes mx b L st ctx spec m" and eq: "\<And>s. ready mx b L st ctx s \<Longrightarrow> m' s = m s"
  shows "denotes mx b L st ctx spec m'"
proof (rule denotesI)
  fix s :: "'w renderer"
  assume s: "ready mx b L st ctx s" and "spec (r_indentationStack s) = None"
  then show "fails m' s" using denotes_failD [OF m s] by (simp add: fails_def eq)
next
  fix s :: "'w renderer" and v w fs
  assume s: "ready mx b L st ctx s" and "spec (r_indentationStack s) = Some (v, w, fs)"
  from denotes_SomeD [OF m this]
  show "if has_room mx b L v w s then m' s = (Inr (), advance b v w fs s) else fails m' s"
    by (simp add: fails_def eq [OF s] split: if_splits)
qed

lemma denotes_then [denotes_rules]:
  fixes m k :: "('w, unit) rend"
  assumes m: "denotes mx b L st ctx spec m" and k: "denotes mx b L st ctx spec' k"
  shows "denotes mx b L st ctx (m_seq spec spec') (then_eff m k)"
proof (rule denotesI)
  fix s :: "'w renderer"
  assume s: "ready mx b L st ctx s" and none: "m_seq spec spec' (r_indentationStack s) = None"
  show "fails (then_eff m k) s"
  proof (cases "spec (r_indentationStack s)")
    case None
    with m s show ?thesis by (intro fails_then denotes_failD)
  next
    case (Some x)
    obtain v w fs where x: "x = (v, w, fs)" by (cases x)
    note sp = denotes_SomeD [OF m s Some [unfolded x]]
    show ?thesis
    proof (cases "has_room mx b L v w s")
      case True
      have "spec' fs = None" using none Some x by (simp add: m_seq_def split: option.splits prod.splits)
      then have "fails k (advance b v w fs s)"
        by (intro denotes_failD [OF k ready_advance [OF s True]]) (simp add: advance_def)
      with sp True show ?thesis by (simp add: fails_def then_eff_def bind_eff_def)
    next
      case False
      with sp show ?thesis by (simp add: fails_then)
    qed
  qed
next
  fix s :: "'w renderer" and v w fs
  assume s: "ready mx b L st ctx s" and some: "m_seq spec spec' (r_indentationStack s) = Some (v, w, fs)"
  then obtain v1 w1 fs1 v2 w2 where 1: "spec (r_indentationStack s) = Some (v1, w1, fs1)"
    and 2: "spec' fs1 = Some (v2, w2, fs)" and vw: "v = v1 + v2" "w = w1 @ w2"
    by (auto simp: m_seq_def split: option.splits prod.splits)
  note sp = denotes_SomeD [OF m s 1]
  show "if has_room mx b L v w s then then_eff m k s = (Inr (), advance b v w fs s)
      else fails (then_eff m k) s"
  proof (cases "has_room mx b L v1 w1 s")
    case True
    let ?s = "advance b v1 w1 fs1 s"
    have "spec' (r_indentationStack ?s) = Some (v2, w2, fs)" using 2 by (simp add: advance_def)
    note k' = denotes_SomeD [OF k ready_advance [OF s True] this]
    have "has_room mx b L v2 w2 ?s = has_room mx b L v w s"
      by (simp add: has_room_def advance_def vw add.assoc)
    moreover have "then_eff m k s = k ?s" using sp True by (simp add: then_eff_def bind_eff_def)
    ultimately show ?thesis using k' by (simp add: advance_advance vw fails_def split: if_splits)
  next
    case False
    then have "\<not> has_room mx b L v w s" by (auto simp: has_room_def vw)
    with False sp show ?thesis by (simp add: fails_then)
  qed
qed

section \<open>Operations\<close>

lemma denotes_ret [denotes_rules]: "denotes mx b L st ctx m_skip (ret ())"
  by (rule denotesI) (auto simp: m_skip_def ret_def advance_nothing room_nothing)

lemma denotes_throw [denotes_rules]: "denotes mx b L st ctx m_fail (throw e)"
  by (rule denotesI) (simp_all add: m_fail_def throw_def fails_def)

lemma denotes_consumeNodeVisit [denotes_rules]: "denotes mx b L st ctx m_visit consumeNodeVisit"
  by (rule denotesI) (auto simp: m_visit_def consumeNodeVisit_eq fails_def has_room_def ready_def advance_def)

lemma denotes_append_out [denotes_rules]: "denotes mx b L st ctx (m_text w) (append_out mx w)"
  by (rule denotesI) (auto simp: m_text_def append_out_eq fails_def has_room_def ready_def advance_def
      fits_def written_def output_maximum_def)

lemma denotes_append_escaped [denotes_rules]:
  "denotes mx b L st ctx (m_text (concat (map escape_char w))) (append_escaped mx w False)"
  by (rule denotesI) (auto simp: m_text_def append_escaped_eq fails_def has_room_def ready_def advance_def
      fits_def written_def output_maximum_def Let_def simp del: escape_char.simps)

lemma m_seq_skip [simp]: "m_seq m_skip m = m" "m_seq m m_skip = m"
  by (auto simp: m_seq_def m_skip_def fun_eq_iff split: option.splits prod.splits)

lemma m_seq_fail [simp]: "m_seq m_fail m = m_fail" "m_seq m m_fail = m_fail"
  by (auto simp: m_seq_def m_fail_def fun_eq_iff split: option.splits)

lemma denotes_each [denotes_rules]:
  "(\<And>x. x \<in> set xs \<Longrightarrow> denotes mx b L st ctx (f x) (g x)) \<Longrightarrow> denotes mx b L st ctx (m_each f xs) (each_eff g xs)"
  by (induction xs) (auto intro!: denotes_rules)

lemma m_each_text: "m_each m_text ws = m_text (concat ws)"
  by (induction ws) (auto simp: m_skip_def m_text_def m_seq_def fun_eq_iff)

lemma denotes_appendIndentation [denotes_rules]:
  "denotes mx b L st ctx (m_text (concat (if_components f))) (appendIndentation mx f)"
  unfolding appendIndentation_def m_each_text [symmetric] by (intro denotes_rules)

lemma bind_reads: "bind_eff (reads f) k s = k (f s) s"
  by (simp add: bind_eff_def reads_def)

lemma fails_bind_reads: "fails (bind_eff (reads f) k) s = fails (k (f s)) s"
  by (simp add: fails_def bind_reads)

lemma denotes_frames_of:
  assumes "\<And>fs. denotes mx b L st ctx (spec fs) (k (g fs))"
  shows "denotes mx b L st ctx (\<lambda>fs. spec fs fs) (bind_eff (reads (\<lambda>s. g (r_indentationStack s))) k)"
  using assms unfolding denotes_def by (simp only: bind_reads fails_bind_reads) blast

lemmas denotes_frames = denotes_frames_of [where g = "\<lambda>fs. fs"]

definition m_start :: "bool \<Rightarrow> meaning" where
  "m_start at fs = Some (0, [], set_line_start at fs)"

lemma denotes_write_line_start [denotes_rules]: "denotes mx b L st ctx (m_start at) (write_line_start at)"
  by (rule denotesI) (auto simp: m_start_def write_line_start_def writes_def has_room_def ready_def advance_def)

lemma denotes_begin_line [denotes_rules]: "denotes mx b L st ctx m_tag (begin_line mx)"
proof -
  have eq: "m_tag = (\<lambda>fs. (case fs of [] \<Rightarrow> m_skip
      | f # rest \<Rightarrow> if if_atLineStart f then m_seq (m_text (concat (if_components f))) (m_start False)
                   else m_skip) fs)"
    by (auto simp: m_tag_def m_skip_def m_seq_def m_text_def m_start_def fun_eq_iff split: list.split)
  show ?thesis
    unfolding begin_line_def
    by (subst eq) (rule denotes_frames, auto intro!: denotes_rules split: list.split)
qed

lemma indented_append: "indented ind at (u @ v) = indented ind at u @ indented ind (ends_line at u) v"
  by (induction u arbitrary: at) auto

lemma ends_line_append: "ends_line at (u @ v) = ends_line (ends_line at u) v"
  by (induction u arbitrary: at) auto

lemma indented_line:
  "\<forall>c\<in>set v. c \<noteq> CHR 0x0A \<Longrightarrow> indented ind False v = v \<and> ends_line False v = False"
  by (induction v) auto

lemma indented_first_line:
  "v \<noteq> [] \<Longrightarrow> \<forall>c\<in>set v. c \<noteq> CHR 0x0A \<Longrightarrow>
     indented ind at v = (if at then ind else []) @ v \<and> \<not> ends_line at v"
  by (cases v) (auto simp: indented_line)

lemma indented_whole_line:
  "\<forall>c\<in>set v. c \<noteq> CHR 0x0A \<Longrightarrow>
     indented ind at (v @ [CHR 0x0A]) = (if at then ind else []) @ v @ [CHR 0x0A] \<and> ends_line at (v @ [CHR 0x0A])"
  by (cases v) (auto simp: indented_append ends_line_append indented_line)

lemma newline_split:
  assumes "find_idx (\<lambda>c. c = CHR 0x0A) v = Some i"
  shows "take (i + 1) v = take i v @ [CHR 0x0A] \<and> (\<forall>c\<in>set (take i v). c \<noteq> CHR 0x0A)"
proof -
  note sp = find_idx_Some_split [OF assms]
  then have "take (i + 1) v = take i v @ [v ! i]" by (simp add: take_Suc_conv_app_nth)
  moreover have "\<forall>c\<in>set (take i v). c \<noteq> CHR 0x0A" using sp by (metis set_takeWhileD)
  ultimately show ?thesis using sp by simp
qed

lemma m_output_empty: "m_output [] = m_skip"
  by (auto simp: m_output_def m_skip_def fun_eq_iff split: list.split)

lemma m_output_last_line:
  "v \<noteq> [] \<Longrightarrow> find_idx (\<lambda>c. c = CHR 0x0A) v = None \<Longrightarrow> m_output v = m_seq m_tag (m_text v)"
  using indented_first_line [of v]
  by (auto simp: m_output_def m_seq_def m_tag_def m_text_def find_idx_None_iff fun_eq_iff split: list.split)

lemma m_output_line:
  assumes "find_idx (\<lambda>c. c = CHR 0x0A) v = Some i"
  shows "m_output v =
     m_seq m_tag (m_seq (m_text (take (i + 1) v)) (m_seq (m_start True) (m_output (drop (i + 1) v))))"
proof
  fix fs
  let ?u = "take (i + 1) v" and ?r = "drop (i + 1) v"
  have "?u = take i v @ [CHR 0x0A]" and nl: "\<forall>c\<in>set (take i v). c \<noteq> CHR 0x0A"
    using newline_split [OF assms] by auto
  then have u: "indented ind at ?u = (if at then ind else []) @ ?u" "ends_line at ?u" for ind at
    using indented_whole_line [OF nl] by simp_all
  have "indented ind at v = (if at then ind else []) @ ?u @ indented ind True ?r"
      "ends_line at v = ends_line True ?r" for ind at
    using indented_append [of ind at ?u ?r] ends_line_append [of at ?u ?r] u by simp_all
  then show "m_output v fs =
      m_seq m_tag (m_seq (m_text ?u) (m_seq (m_start True) (m_output ?r))) fs"
    by (cases fs) (simp_all add: m_output_def m_seq_def m_tag_def m_text_def m_start_def)
qed

lemma denotes_append_lines [denotes_rules]: "denotes mx b L st ctx (m_output v) (append_lines mx v :: ('w, unit) rend)"
proof (induction mx v rule: append_lines.induct)
  case (1 mx v)
  show ?case
  proof (cases "v = []")
    case True
    then show ?thesis
      by (simp add: append_lines.simps [of mx "[]"] m_output_empty denotes_ret)
  next
    case False
    show ?thesis
    proof (cases "find_idx (\<lambda>c. c = CHR 0x0A) v")
      case None
      with False have "(append_lines mx v :: ('w, unit) rend) = then_eff (begin_line mx) (append_out mx v)"
        by (subst append_lines.simps) simp
      then show ?thesis
        unfolding m_output_last_line [OF False None] by (simp only:) (intro denotes_rules)
    next
      case (Some i)
      with False have "(append_lines mx v :: ('w, unit) rend) = then_eff (begin_line mx)
          (then_eff (append_out mx (take (i + 1) v))
            (then_eff (write_line_start True) (append_lines mx (drop (i + 1) v))))"
        by (subst append_lines.simps) simp
      then show ?thesis
        unfolding m_output_line [OF Some] by (simp only:) (intro denotes_rules 1 [OF False Some])
    qed
  qed
qed

lemma denotes_appendTemplateOutput [denotes_rules]:
  "denotes mx b L st ctx (m_output v) (appendTemplateOutput mx v)"
proof -
  have eq: "m_output v = (\<lambda>fs. (if fs = [] then m_text v else m_output v) fs)"
    by (auto simp: m_output_def m_text_def fun_eq_iff)
  show ?thesis
    unfolding appendTemplateOutput_def
    by (subst eq) (rule denotes_frames, auto intro!: denotes_rules)
qed

lemma ends_line_fold: "fold (\<lambda>c _. c = CHR 0x0A) v at = ends_line at v"
  by (induction v arbitrary: at) auto

lemma denotes_consumeTemplateSource [denotes_rules]:
  "denotes mx b L st ctx (m_source v) (consumeTemplateSource v)"
proof -
  have eq: "m_source v = (\<lambda>fs. (case fs of [] \<Rightarrow> m_skip
      | f # rest \<Rightarrow> if v = [] then m_start False else m_start (ends_line (if_atLineStart f) v)) fs)"
    by (auto simp: m_source_def m_skip_def m_start_def fun_eq_iff split: list.split)
  show ?thesis
    unfolding consumeTemplateSource_def ends_line_fold
    by (subst eq) (rule denotes_frames, auto intro!: denotes_rules split: list.split)
qed

lemma denotes_beginTemplateTag [denotes_rules]: "denotes mx b L st ctx m_tag (beginTemplateTag mx)"
  unfolding beginTemplateTag_def by (rule denotes_begin_line)

section \<open>Scopes\<close>

lemma denotes_with_indentation [denotes_rules]:
  fixes m :: "('w, unit) rend"
  assumes m: "denotes mx b L st ctx spec m"
  shows "denotes mx b L st ctx (m_frame cs spec) (with_indentation cs m)"
proof (rule denotesI)
  fix s :: "'w renderer"
  let ?s = "s\<lparr>r_indentationStack := new_frame cs # r_indentationStack s\<rparr>"
  assume s: "ready mx b L st ctx s" and "m_frame cs spec (r_indentationStack s) = None"
  then have "spec (r_indentationStack ?s) = None" by (simp add: m_frame_def split: option.splits prod.splits)
  moreover have "ready mx b L st ctx ?s" using s by (simp add: ready_def)
  ultimately have "fails m ?s" using denotes_failD [OF m] by blast
  then show "fails (with_indentation cs m) s"
    by (auto simp: fails_def with_indentation_def then_eff_def bind_eff_def writes_def on_exit_def
        split: prod.splits)
next
  fix s :: "'w renderer" and v w fs
  let ?s = "s\<lparr>r_indentationStack := new_frame cs # r_indentationStack s\<rparr>"
  assume s: "ready mx b L st ctx s" and "m_frame cs spec (r_indentationStack s) = Some (v, w, fs)"
  then obtain fs' where sp: "spec (r_indentationStack ?s) = Some (v, w, fs')" and fs: "fs = tl fs'"
    by (auto simp: m_frame_def split: option.splits prod.splits)
  have "ready mx b L st ctx ?s" using s by (simp add: ready_def)
  note k = denotes_SomeD [OF m this sp]
  have "has_room mx b L v w ?s = has_room mx b L v w s" by (simp add: has_room_def)
  with k show "if has_room mx b L v w s then with_indentation cs m s = (Inr (), advance b v w fs s)
      else fails (with_indentation cs m) s"
    by (auto simp: fails_def with_indentation_def then_eff_def bind_eff_def writes_def on_exit_def
        advance_def fs split: prod.splits if_splits)
qed

text \<open>Scopes that change a field no meaning depends on, or the contexts.\<close>

lemma denotes_scope:
  fixes m m' :: "('w, unit) rend"
  assumes m: "denotes mx b L st ctx' spec m"
    and eq: "\<And>s. m' s = (case m (f s) of (r, u) \<Rightarrow> (r, g s u))"
    and f: "\<And>s. ready mx b L st ctx s \<Longrightarrow> ready mx b L st ctx' (f s)"
    and frames: "\<And>s. r_indentationStack (f s) = r_indentationStack s"
    and room: "\<And>s v w. has_room mx b L v w (f s) = has_room mx b L v w s"
    and g: "\<And>s v w fs. ready mx b L st ctx s \<Longrightarrow> g s (advance b v w fs (f s)) = advance b v w fs s"
  shows "denotes mx b L st ctx spec m'"
proof (rule denotesI)
  fix s :: "'w renderer"
  assume s: "ready mx b L st ctx s" and "spec (r_indentationStack s) = None"
  then have "fails m (f s)" by (intro denotes_failD [OF m f]) (simp_all add: frames)
  then show "fails m' s" by (auto simp: fails_def eq split: prod.splits)
next
  fix s :: "'w renderer" and v w fs
  assume s: "ready mx b L st ctx s" and "spec (r_indentationStack s) = Some (v, w, fs)"
  then have "spec (r_indentationStack (f s)) = Some (v, w, fs)" by (simp add: frames)
  from denotes_SomeD [OF m f [OF s] this]
  show "if has_room mx b L v w s then m' s = (Inr (), advance b v w fs s) else fails m' s"
    by (auto simp: fails_def eq room g [OF s] split: prod.splits if_splits)
qed

lemma denotes_with_context [denotes_rules]:
  "denotes mx b L st (d # ctx) spec m \<Longrightarrow> denotes mx b L st ctx spec (with_context d m)"
  by (erule denotes_scope [where f = "\<lambda>s. s\<lparr>r_stack := d # r_stack s\<rparr>"
        and g = "\<lambda>s u. u\<lparr>r_stack := tl (r_stack u)\<rparr>"])
    (auto simp: with_context_def then_eff_def bind_eff_def writes_def on_exit_def ready_def has_room_def
      advance_def split: prod.splits)

lemma denotes_at_depth [denotes_rules]:
  "denotes mx b L st ctx spec m \<Longrightarrow> denotes mx b L st ctx spec (at_depth d m)"
  by (erule denotes_scope [where f = "\<lambda>s. s\<lparr>r_activeDepth := d\<rparr>"
        and g = "\<lambda>s u. u\<lparr>r_activeDepth := r_activeDepth s\<rparr>"])
    (auto simp: at_depth_def then_eff_def bind_eff_def reads_def writes_def on_exit_def ready_def
      has_room_def advance_def split: prod.splits)

section \<open>Nodes\<close>

text \<open>Data without lambdas, and what a lookup finds in it.\<close>

fun lambda_free :: "data \<Rightarrow> bool" where
  "lambda_free (DList ds) = list_all lambda_free ds"
| "lambda_free (DArray ds) = list_all lambda_free ds"
| "lambda_free (DMap m) = list_all lambda_free (map snd m)"
| "lambda_free (DLambda l) = False"
| "lambda_free d = True"

lemma lambda_free_find: "lambda_free d \<Longrightarrow> findInMap (Some d) key = Some r \<Longrightarrow> lambda_free r"
  by (cases d) (auto simp: findInMap_def data_find_def list_all_iff dest!: map_of_SomeD)

lemma lambda_free_search:
  "list_all lambda_free ctx \<Longrightarrow> search_contexts key ctx = Some r \<Longrightarrow> lambda_free r"
  by (induction ctx) (auto split: option.splits dest: lambda_free_find)

lemma lambda_free_walk: "walk_parts d ps = Some r \<Longrightarrow> (\<And>x. d = Some x \<Longrightarrow> lambda_free x) \<Longrightarrow> lambda_free r"
proof (induction d ps rule: walk_parts.induct)
  case (3 x p ps)
  then show ?case using lambda_free_find [of x p] by (auto split: if_splits)
qed simp_all

lemma lambda_free_lookup:
  assumes "list_all lambda_free ctx" and "ctx \<noteq> []" and "data_lookup strict ctx n = Inr (Some r)"
  shows "lambda_free r"
proof -
  have hd: "lambda_free (hd ctx)" using assms(1,2) by (cases ctx) auto
  obtain name where "(name = ''.'' \<and> r = hd ctx) \<or> findInMap (Some (hd ctx)) name = Some r
      \<or> search_contexts name ctx = Some r
      \<or> (\<exists>p ps. walk_parts (search_contexts p ctx) ps = Some r)"
    using assms(3) by (auto simp: data_lookup_def split: option.splits if_splits list.splits)
  then show ?thesis
    using hd lambda_free_find lambda_free_search [OF assms(1)] lambda_free_walk by blast
qed

declare bind_lift_Inr [simp]

lemma bind_lift_Inl [simp]: "bind_eff (lift_result (Inl e)) f = throw e"
  by (simp add: bind_eff_def lift_result_def throw_def fun_eq_iff)

lemma bind_ret [simp]: "bind_eff (ret x) f = f x"
  by (simp add: bind_eff_def ret_def fun_eq_iff)

lemma denotes_nesting_check:
  "denotes mx b L st ctx (if min (maxNestingDepth L) renderNestingCeiling \<le> depth then m_fail else m_skip)
     (nesting_check depth)"
  by (rule denotesI) (auto simp: nesting_check_def throw_when_def m_fail_def m_skip_def fails_def ready_def
      has_room_def advance_def split: if_splits)

lemma denotes_check_stack:
  "ctx \<noteq> [] \<Longrightarrow> denotes mx b L st ctx spec k \<Longrightarrow>
     denotes mx b L st ctx spec (then_eff (throw_when (\<lambda>s. r_stack s = []) e) k)"
  by (erule denotes_cong) (simp add: then_eff_def bind_eff_def throw_when_def ready_def)

lemma denotes_node_value:
  fixes f :: "data option \<Rightarrow> ('w, unit) rend"
  assumes "type_and (ntype n) TypeHasData \<Longrightarrow> data_lookup st ctx n = Inr v"
    and "\<not> type_and (ntype n) TypeHasData \<Longrightarrow> v = None"
    and "denotes mx b L st ctx spec (f v)"
  shows "denotes mx b L st ctx spec (bind_eff (node_value n) f)"
proof -
  have "node_value n s = (Inr v, s)" if "ready mx b L st ctx s" for s :: "'w renderer"
    using that assms(1,2)
    by (cases "type_and (ntype n) TypeHasData")
      (simp_all add: node_value_def bind_reads lift_result_def ready_def ret_def)
  then show ?thesis by (intro denotes_cong [OF assms(3)]) (simp add: bind_eff_def)
qed

text \<open>The renderer of a node and the meaning of the node, in some stack of contexts.\<close>

definition denotes_rec ::
    "nat \<Rightarrow> nat \<Rightarrow> render_limits \<Rightarrow> bool \<Rightarrow> meaning_rec \<Rightarrow> 'w node_renderer \<Rightarrow> nat \<Rightarrow> bool" where
  "denotes_rec mx b L st srec rec depth \<longleftrightarrow>
     (\<forall>ctx k i c. ctx \<noteq> [] \<longrightarrow> list_all lambda_free ctx \<longrightarrow>
        denotes mx b L st ctx (srec ctx k i c) (rec k depth i c))"

lemma denotes_recD:
  "denotes_rec mx b L st srec rec depth \<Longrightarrow> ctx \<noteq> [] \<Longrightarrow> list_all lambda_free ctx \<Longrightarrow>
     denotes mx b L st ctx (srec ctx k i c) (rec k depth i c)"
  by (simp add: denotes_rec_def)

lemma denotes_renderChildren:
  assumes rec: "denotes_rec mx b L st srec rec (depth + 1)" and ctx: "ctx \<noteq> []" "list_all lambda_free ctx"
  shows "denotes mx b L st ctx (m_children (srec ctx) cs) (renderChildren rec depth cs)"
proof (induction cs rule: length_induct)
  case (1 cs)
  show ?case
  proof (cases cs)
    case Nil
    then show ?thesis by (simp add: denotes_ret)
  next
    case (Cons c rest)
    with 1 have "denotes mx b L st ctx (m_children (srec ctx) rest) (renderChildren rec depth rest)"
      and "denotes mx b L st ctx (m_children (srec ctx) (tl rest)) (renderChildren rec depth (tl rest))"
      by simp_all
    then show ?thesis
      unfolding Cons renderChildren.simps m_children.simps
      by (cases "validatePartialIndentation c (head_child rest)")
        (auto intro!: denotes_rules denotes_recD [OF rec ctx] denotes_recD [OF rec ctx, simplified])
  qed
qed

lemma denotes_append_value [denotes_rules]:
  "denotes (env_max_size E) b L st ctx (m_scalar n v) (append_value E n v)"
  by (auto simp: m_scalar_def append_value_def intro!: denotes_rules)

lemma denotes_renderValue:
  "lambda_free d \<Longrightarrow>
     denotes (env_max_size E) b L st ctx (m_value (env_to_chars E) n d) (renderValue E rec n d depth)"
  by (cases d) (auto simp: m_value_def renderValue_def intro!: denotes_rules)

lemma lambda_free_contexts: "lambda_free d \<Longrightarrow> x \<in> set (section_contexts d) \<Longrightarrow> lambda_free x"
  by (cases d) (auto simp: section_contexts_def list_all_iff)

lemma denotes_renderSection:
  assumes d: "lambda_free d"
    and f: "\<And>x. lambda_free x \<Longrightarrow> denotes mx b L st ctx (sf x) (f x)"
  shows "denotes mx b L st ctx (m_each sf (section_contexts d)) (renderSection E rec n d depth f)"
proof -
  have "renderSection E rec n d depth f = each_eff f (section_contexts d)"
    using d by (cases d) (simp_all add: renderSection_def section_contexts_def then_eff_def bind_eff_def
        ret_def fun_eq_iff split: prod.split sum.split)
  then show ?thesis by (simp only:) (intro denotes_each f lambda_free_contexts [OF d])
qed

lemma denotes_renderPartial:
  assumes rec: "denotes_rec (env_max_size E) b L st srec rec (depth + 1)"
    and ctx: "ctx \<noteq> []" "list_all lambda_free ctx" and "ndata n \<noteq> None"
  shows "denotes (env_max_size E) b L st ctx (m_partial P srec ctx n ind) (renderPartial E P rec n depth ind)"
proof -
  obtain name where name: "ndata n = Some name" using assms(4) by auto
  have "denotes (env_max_size E) b L st ctx
      (\<lambda>fs. case P name of Inl e \<Rightarrow> m_fail fs | Inr None \<Rightarrow> m_skip fs
         | Inr (Some p) \<Rightarrow> m_frame (partial_indentation ind fs) (srec ctx (Some p) None False) fs)
      (bind_eff (reads (\<lambda>s. partial_indentation ind (r_indentationStack s))) (\<lambda>indentation.
         bind_eff (lift_result (P name)) (\<lambda>found. case found of None \<Rightarrow> ret ()
         | Some p \<Rightarrow> with_indentation indentation (rec (Some p) (depth + 1) None False))))"
  proof (cases "P name")
    case (Inl e)
    have "denotes (env_max_size E) b L st ctx (\<lambda>fs. m_fail fs)
        (bind_eff (reads (\<lambda>s. partial_indentation ind (r_indentationStack s))) (\<lambda>indentation. throw e))"
      by (rule denotes_frames_of) (rule denotes_throw)
    with Inl show ?thesis by simp
  next
    case (Inr found)
    show ?thesis
    proof (cases found)
      case None
      have "denotes (env_max_size E) b L st ctx (\<lambda>fs. m_skip fs)
          (bind_eff (reads (\<lambda>s. partial_indentation ind (r_indentationStack s))) (\<lambda>indentation. ret ()))"
        by (rule denotes_frames_of) (rule denotes_ret)
      with Inr None show ?thesis by simp
    next
      case (Some p)
      show ?thesis
        unfolding Inr Some sum.case option.case bind_lift_Inr
        by (rule denotes_frames_of) (intro denotes_rules denotes_recD [OF rec ctx])
    qed
  qed
  then show ?thesis
    unfolding renderPartial_def m_partial_def name option.case option.sel
    by (rule denotes_then [OF denotes_beginTemplateTag])
qed

lemma has_data_types:
  "type_and TypeVariable TypeHasData" "type_and TypeNegate TypeHasData"
  "type_and TypeSection TypeHasData" "type_and TypePartial TypeHasData"
  "\<not> type_and TypePartial TypeHasNoString" "\<not> type_and TypeOutput TypeHasNoString"
  by (simp_all add: type_and_def)

lemma denotes_children_in:
  assumes rec: "denotes_rec mx b L st srec rec (depth + 1)" and ctx: "list_all lambda_free ctx"
    and d: "lambda_free d"
  shows "denotes mx b L st ctx (m_children (srec (d # ctx)) cs)
     (with_context d (renderChildren rec depth cs))"
  by (rule denotes_with_context, rule denotes_renderChildren [OF rec]) (use ctx d in simp_all)

lemma denotes_switch:
  assumes rec: "denotes_rec (env_max_size E) b L st srec rec (depth + 1)"
    and ctx: "ctx \<noteq> []" "list_all lambda_free ctx"
    and v: "type_and (ntype n) TypeHasData \<Longrightarrow> data_lookup st ctx n = Inr v"
    and v': "\<not> type_and (ntype n) TypeHasData \<Longrightarrow> v = None"
    and data: "\<not> type_and (ntype n) TypeHasNoString \<Longrightarrow> ndata n \<noteq> None"
  shows "denotes (env_max_size E) b L st ctx (m_switch (env_to_chars E) st P srec ctx n ind)
     (renderNode_switch E P rec n depth ind v)"
proof -
  note r = denotes_recD [OF rec ctx] and ch = denotes_renderChildren [OF rec ctx]
  have look: "m_lookup st ctx n = v" if "type_and (ntype n) TypeHasData"
    using v [OF that] by (simp add: m_lookup_def)
  have free: "lambda_free d" if "type_and (ntype n) TypeHasData" and "v = Some d" for d
    using lambda_free_lookup [OF ctx(2,1)] v [OF that(1)] that(2) by blast
  show ?thesis
  proof (cases "ntype n")
    case TypeOutput
    then obtain w where "ndata n = Some w" using data has_data_types by auto
    then show ?thesis by (auto simp: renderNode_switch_def m_switch_def TypeOutput intro!: denotes_rules)
  next
    case TypeContainer
    then show ?thesis
      by (auto simp: renderNode_switch_def m_switch_def intro!: denotes_rules r r [simplified])
  next
    case TypeVariable
    then have h: "type_and (ntype n) TypeHasData" using has_data_types by simp
    show ?thesis
      unfolding renderNode_switch_def m_switch_def Let_def TypeVariable node_type.case look [OF h]
      by (cases v) (auto simp: value_is_empty_def simp del: m_seq_skip
          intro!: denotes_rules denotes_renderValue free h)
  next
    case TypeNegate
    then have h: "type_and (ntype n) TypeHasData" using has_data_types by simp
    show ?thesis
      unfolding renderNode_switch_def m_switch_def Let_def TypeNegate node_type.case look [OF h]
      by (auto simp del: m_seq_skip intro!: denotes_rules ch)
  next
    case TypeSection
    then have h: "type_and (ntype n) TypeHasData" using has_data_types by simp
    show ?thesis
      unfolding renderNode_switch_def m_switch_def Let_def TypeSection node_type.case look [OF h]
      by (cases v) (auto simp: value_is_empty_def simp del: m_seq_skip
          intro!: denotes_rules denotes_renderSection denotes_children_in [OF rec ctx(2)] free h)
  next
    case TypePartial
    then have "ndata n \<noteq> None" using data has_data_types by simp
    with TypePartial show ?thesis
      by (simp add: renderNode_switch_def m_switch_def denotes_renderPartial [OF rec ctx])
  next
    case TypeRoot
    then show ?thesis by (simp add: renderNode_switch_def m_switch_def ch)
  next
    case TypeTag
    then have "v = None" using v' by (simp add: type_and_def)
    with TypeTag show ?thesis
      using denotes_then [OF denotes_beginTemplateTag denotes_ret]
      by (simp add: renderNode_switch_def m_switch_def)
  qed (simp_all add: renderNode_switch_def m_switch_def denotes_rules)
qed

text \<open>
  Of the types that are looked up only the mask \<open>TypeHasChildren\<close> may lack a name, and
  that is no type of a node.
\<close>

lemma nameless_lookup:
  "type_and ty TypeHasData \<Longrightarrow> type_and ty TypeHasNoString \<Longrightarrow> ty = TypeHasChildren"
  by (cases ty) (simp_all add: type_and_def)

lemma denotes_value_switch:
  fixes rec :: "'w node_renderer"
  assumes rec: "denotes_rec (env_max_size E) b L st srec rec (depth + 1)"
    and ctx: "ctx \<noteq> []" "list_all lambda_free ctx"
    and data: "\<not> type_and (ntype n) TypeHasNoString \<Longrightarrow> ndata n \<noteq> None"
  shows "denotes (env_max_size E) b L st ctx (m_switch (env_to_chars E) st P srec ctx n ind)
     (bind_eff (node_value n) (renderNode_switch E P rec n depth ind))"
proof (cases "type_and (ntype n) TypeHasData \<and> ndata n = None")
  case True
  then have ty: "ntype n = TypeHasChildren" using data nameless_lookup [of "ntype n"] by auto
  have "data_lookup st ctx n = Inl (Exception ''Invalid node without data'')"
    using True by (simp add: data_lookup_def)
  then have "fails (node_value n) s" if "ready (env_max_size E) b L st ctx s" for s :: "'w renderer"
    using True that by (simp add: node_value_def bind_reads ready_def fails_def lift_result_def)
  then show ?thesis by (auto intro: denotesI simp: m_switch_def ty m_fail_def fails_bind)
next
  case False
  define v where "v = (if type_and (ntype n) TypeHasData then m_lookup st ctx n else None)"
  have v: "data_lookup st ctx n = Inr v" if "type_and (ntype n) TypeHasData"
    using that False by (auto simp: v_def m_lookup_def data_lookup_def split: option.splits)
  have v': "v = None" if "\<not> type_and (ntype n) TypeHasData" using that by (simp add: v_def)
  show ?thesis
    by (rule denotes_node_value [OF v v']) (assumption, assumption, rule denotes_switch [OF rec ctx v v' data])
qed

text \<open>The traversal, by induction on the levels left below the ceiling.\<close>

lemma denotes_level:
  fixes E :: "'w render_env"
  assumes "renderNestingCeiling < depth + k" and "0 < k"
  shows "denotes_rec (env_max_size E) b L st
     (spec_node (env_to_chars E) st P (min (maxNestingDepth L) renderNestingCeiling) depth)
     (render_level E P k) depth"
  using assms
proof (induction k arbitrary: depth)
  case (Suc k)
  let ?D = "min (maxNestingDepth L) renderNestingCeiling"
  let ?spec = "spec_node (env_to_chars E) st P ?D"
  show ?case
    unfolding denotes_rec_def
  proof (intro allI impI)
    fix ctx :: "data list" and node ind c
    assume ctx: "ctx \<noteq> []" "list_all lambda_free ctx"
    show "denotes (env_max_size E) b L st ctx (?spec depth ctx node ind c)
        (render_level E P (Suc k) node depth ind c)"
    proof (cases node)
      case None
      then have "?spec depth ctx node ind c = m_fail" by (subst spec_node.simps) simp
      with None show ?thesis by (simp add: renderNode_body_def denotes_throw)
    next
      case (Some n)
      show ?thesis
      proof (cases "?D \<le> depth")
        case True
        then have "?spec depth ctx node ind c = m_seq m_fail m_fail" by (subst spec_node.simps) simp
        moreover have "denotes (env_max_size E) b L st ctx m_fail (nesting_check depth :: ('w, unit) rend)"
          using denotes_nesting_check [of "env_max_size E" b L st ctx depth] True by simp
        then have "denotes (env_max_size E) b L st ctx (m_seq m_fail m_fail) (then_eff (nesting_check depth) k)"
          for k :: "('w, unit) rend" by (simp add: denotes_def m_fail_def fails_then)
        ultimately show ?thesis using Some by (simp add: renderNode_body_def)
      next
        case False
        then have check: "denotes (env_max_size E) b L st ctx m_skip (nesting_check depth)"
          using denotes_nesting_check [of "env_max_size E" b L st ctx depth] by simp
        have "depth < renderNestingCeiling" using False by simp
        with Suc.prems have "renderNestingCeiling < depth + 1 + k" "0 < k" by simp_all
        note rec = Suc.IH [OF this]
        let ?rec = "render_level E P k"
        show ?thesis
        proof (cases "has_flag (nflags n) FlagPartialIndent \<and> \<not> (c \<and> indentation_metadata n)
            \<or> \<not> type_and (ntype n) TypeHasNoString \<and> ndata n = None")
          case True
          then have spec: "?spec depth ctx node ind c = m_seq m_skip (m_seq m_visit m_fail)"
            using False Some by (subst spec_node.simps) auto
          have "denotes (env_max_size E) b L st ctx m_fail
              (if has_flag (nflags n) FlagPartialIndent \<and> \<not> (c \<and> indentation_metadata n)
               then throw invalid_indentation
               else at_depth depth (then_eff (throw_when (\<lambda>s. r_stack s = []) (Exception ''Whoops, empty data''))
                 (if \<not> type_and (ntype n) TypeHasNoString \<and> ndata n = None
                  then throw (Exception ''Whoops, empty tag'')
                  else bind_eff (node_value n) (renderNode_switch E P ?rec n depth ind))))"
            using True by (auto intro!: denotes_rules denotes_check_stack ctx)
          then show ?thesis
            unfolding spec by (simp only: Some render_level.simps renderNode_body_def option.case)
              (intro denotes_then check denotes_consumeNodeVisit)
        next
          case ok: False
          then have spec: "?spec depth ctx node ind c = m_seq m_skip (m_seq m_visit
              (m_switch (env_to_chars E) st P (?spec (depth + 1)) ctx n ind))"
            using False Some by (subst spec_node.simps) auto
          have data: "\<not> type_and (ntype n) TypeHasNoString \<Longrightarrow> ndata n \<noteq> None" using ok by auto
          have "denotes (env_max_size E) b L st ctx
              (m_switch (env_to_chars E) st P (?spec (depth + 1)) ctx n ind)
              (if has_flag (nflags n) FlagPartialIndent \<and> \<not> (c \<and> indentation_metadata n)
               then throw invalid_indentation
               else at_depth depth (then_eff (throw_when (\<lambda>s. r_stack s = []) (Exception ''Whoops, empty data''))
                 (if \<not> type_and (ntype n) TypeHasNoString \<and> ndata n = None
                  then throw (Exception ''Whoops, empty tag'')
                  else bind_eff (node_value n) (renderNode_switch E P ?rec n depth ind))))"
            using ok denotes_at_depth [OF denotes_check_stack [OF ctx(1) denotes_value_switch [OF rec ctx data]]]
            by (simp only: de_Morgan_disj if_not_P simp_thms)
          then show ?thesis
            unfolding spec by (simp only: Some render_level.simps renderNode_body_def option.case)
              (intro denotes_then check denotes_consumeNodeVisit)
        qed
      qed
    qed
  qed
qed simp

section \<open>A whole render\<close>

definition render_meaning ::
    "'w render_env \<Rightarrow> 'w renderer \<Rightarrow> data \<Rightarrow> (nat \<times> string) option" where
  "render_meaning E s d =
     map_option (\<lambda>(v, w, fs). (v, w))
       (spec_node (env_to_chars E) (r_strictPaths s)
          (owned_partials (r_partialResolver s) (r_partials s) (r_node s))
          (min (maxNestingDepth (r_limits s)) renderNestingCeiling) 0 [d] (r_node s) None False [])"

lemma render_by_meaning:
  fixes s :: "'w renderer"
  assumes "\<not> r_rendering s" and "r_node s \<noteq> None" and "r_data s = Some d" and d: "lambda_free d"
    and out: "r_output s = Some b"
    and len: "length (r_strings s b) \<le> min (maxOutputBytes (r_limits s)) (env_max_size E)"
  shows "case render_meaning E s d of
       None \<Rightarrow> fails (renderer_render E) s
     | Some (v, w) \<Rightarrow>
         if v \<le> maxNodeVisits (r_limits s)
            \<and> length (r_strings s b) + length w \<le> min (maxOutputBytes (r_limits s)) (env_max_size E)
         then \<exists>t. renderer_render E s = (Inr (), t) \<and> r_strings t = (r_strings s)(b := r_strings s b @ w)
                  \<and> r_nodeVisits t = v
         else fails (renderer_render E) s"
proof -
  let ?P = "owned_partials (r_partialResolver s) (r_partials s) (r_node s)"
  let ?L = "r_limits s"
  let ?spec = "spec_node (env_to_chars E) (r_strictPaths s) ?P (min (maxNestingDepth ?L) renderNestingCeiling) 0
     [d] (r_node s) None False"
  let ?s = "push_root_data (begin_render s)"
  let ?m = "renderNode E ?P (r_node s) 0 None False"
  obtain root where root: "r_node s = Some root" using assms(2) by auto
  have run: "renderer_render E s = (case ?m ?s of (r, u) \<Rightarrow> (r, end_render u))"
    using assms root by (simp add: renderer_render_eq renderRoot_def then_eff_def bind_eff_def
        already_rendering_eq with_output_def throw_when_def reads_def writes_def on_exit_def)
  have ready: "ready (env_max_size E) b ?L (r_strictPaths s) [d] ?s" and frames: "r_indentationStack ?s = []"
    using assms by (simp_all add: ready_def push_root_data_def begin_render_def)
  have em: "denotes (env_max_size E) b ?L (r_strictPaths s) [d] ?spec ?m"
    unfolding renderNode_def using d
    by (intro denotes_recD [OF denotes_level]) (simp_all add: render_levels_def renderNestingCeiling_def)
  show ?thesis
  proof (cases "?spec []")
    case None
    with denotes_failD [OF em ready] frames have "fails ?m ?s" by simp
    then have "fails (renderer_render E) s" by (auto simp: fails_def run split: prod.splits)
    with None show ?thesis by (simp add: render_meaning_def)
  next
    case (Some x)
    obtain v w fs where x: "x = (v, w, fs)" by (cases x)
    with Some frames have "?spec (r_indentationStack ?s) = Some (v, w, fs)" by simp
    note k = denotes_SomeD [OF em ready this]
    have room: "has_room (env_max_size E) b ?L v w ?s \<longleftrightarrow> v \<le> maxNodeVisits ?L
        \<and> length (r_strings s b) + length w \<le> min (maxOutputBytes ?L) (env_max_size E)"
      by (simp add: has_room_def push_root_data_def begin_render_def)
    have "render_meaning E s d = Some (v, w)" using Some x by (simp add: render_meaning_def)
    then show ?thesis
    proof (cases "has_room (env_max_size E) b ?L v w ?s")
      case True
      with k have "renderer_render E s = (Inr (), end_render (advance b v w fs ?s))" by (simp add: run)
      with True room \<open>render_meaning E s d = _\<close> show ?thesis
        by (simp add: end_render_def advance_def push_root_data_def begin_render_def)
    next
      case False
      with k have "fails ?m ?s" by simp
      then have "fails (renderer_render E) s" by (auto simp: fails_def run split: prod.splits)
      with False room \<open>render_meaning E s d = _\<close> show ?thesis by auto
    qed
  qed
qed

text \<open>A template of a section over a list with an escaped variable, an output and a partial.\<close>

definition sample_meaning_renderer :: "nat renderer" where
  "sample_meaning_renderer = (new_renderer (\<lambda>_. []) 1 [] 0)\<lparr>
     r_node := Some (Node TypeRoot FlagNone None []
       [Some (Node TypeSection FlagNone (Some ''l'') []
          [Some (make_node TypeVariable ''x'' FlagEscape), Some (make_node TypeOutput '','' FlagNone)]
          None [] (Some ''{{'') (Some ''}}'') None 0 0),
        Some (make_node TypePartial ''p'' FlagNone)]
       None [(''p'', Some (make_node TypeOutput ''end'' FlagNone))] None None None 0 0),
     r_data := Some (DMap [(''l'', DList [DMap [(''x'', DString ''<'')], DMap [(''x'', DInteger 7)]])]),
     r_output := Some 0\<rparr>"

lemma spec_node_Some:
  "spec_node tc strict P D depth ctx (Some n) ind metadata =
     (if D \<le> depth then m_fail
      else if has_flag (nflags n) FlagPartialIndent \<and> \<not> (metadata \<and> indentation_metadata n) then m_fail
      else if \<not> type_and (ntype n) TypeHasNoString \<and> ndata n = None then m_fail
      else m_seq m_visit
        (m_switch tc strict P (\<lambda>c k i b. spec_node tc strict P D (depth + 1) c k i b) ctx n ind))"
  by (subst spec_node.simps) simp

lemmas meaning_eval = spec_node_Some m_switch_def m_lookup_def data_lookup_def findInMap_def
  data_find_def m_partial_def m_frame_def m_tag_def m_output_def m_scalar_def m_text_def m_visit_def
  m_skip_def m_seq_def m_value_def section_contexts_def value_is_empty_def make_node_def
  data_parts_of_def type_and_def has_flag_def flag_defs validatePartialIndentation_def head_child_def
  new_frame_def partial_indentation_def owned_partials_def lookup_partial_def m_fail_def show_int_def
  show_nat.simps

lemma digit_seven: "digit_char 7 = CHR ''7''"
  by code_simp

lemma sample_meaning:
  "render_meaning sample_env sample_meaning_renderer
     (DMap [(''l'', DList [DMap [(''x'', DString ''<'')], DMap [(''x'', DInteger 7)]])]) =
   Some (8, ''&lt;,7,end'')"
  by (simp add: render_meaning_def sample_meaning_renderer_def new_renderer_def sample_env_def
      default_render_limits_def renderNestingCeiling_def meaning_eval digit_seven Let_def)

text \<open>
  C1. The render of lambda-free data is the meaning of the template: it returns exactly when
  the template has a meaning in the data, within the nesting limits, and its node visits
  and its text fit what is left of the budgets; then the text, with partials, sections,
  escaping and standalone indentation, has been appended to the output and no other string
  was written. In every other case the render throws.
\<close>

theorem render_refines_meaning:
  fixes s :: "'w renderer"
  assumes "\<not> r_rendering s" and "r_node s \<noteq> None" and "r_data s = Some d" and "lambda_free d"
    and "r_output s = Some b"
    and "length (r_strings s b) \<le> min (maxOutputBytes (r_limits s)) (env_max_size E)"
  shows "case render_meaning E s d of
       None \<Rightarrow> fails (renderer_render E) s
     | Some (v, w) \<Rightarrow>
         if v \<le> maxNodeVisits (r_limits s)
            \<and> length (r_strings s b) + length w \<le> min (maxOutputBytes (r_limits s)) (env_max_size E)
         then \<exists>t. renderer_render E s = (Inr (), t) \<and> r_strings t = (r_strings s)(b := r_strings s b @ w)
                  \<and> r_nodeVisits t = v
         else fails (renderer_render E) s"
  by (rule render_by_meaning) (use assms in simp_all)

theorem render_refines_meaning_witness:
  "\<exists>t. renderer_render sample_env sample_meaning_renderer = (Inr (), t) \<and> r_strings t 0 = ''&lt;,7,end''
     \<and> r_nodeVisits t = 8"
proof -
  let ?s = sample_meaning_renderer
  let ?d = "DMap [(''l'', DList [DMap [(''x'', DString ''<'')], DMap [(''x'', DInteger 7)]])]"
  have s: "r_limits ?s = default_render_limits" "r_strings ?s = (\<lambda>_. [])"
    "\<not> r_rendering ?s" "r_node ?s \<noteq> None" "r_data ?s = Some ?d" "r_output ?s = Some 0"
    by (simp_all add: sample_meaning_renderer_def new_renderer_def)
  have max: "env_max_size sample_env = 2 ^ 62" by (simp add: sample_env_def)
  have "lambda_free ?d" by simp
  moreover have "length (r_strings ?s 0) \<le> min (maxOutputBytes (r_limits ?s)) (env_max_size sample_env)"
    by (simp add: s)
  ultimately have "case render_meaning sample_env ?s ?d of
       None \<Rightarrow> fails (renderer_render sample_env) ?s
     | Some (v, w) \<Rightarrow>
         if v \<le> maxNodeVisits (r_limits ?s)
            \<and> length (r_strings ?s 0) + length w \<le> min (maxOutputBytes (r_limits ?s)) (env_max_size sample_env)
         then \<exists>t. renderer_render sample_env ?s = (Inr (), t)
                  \<and> r_strings t = (r_strings ?s)(0 := r_strings ?s 0 @ w) \<and> r_nodeVisits t = v
         else fails (renderer_render sample_env) ?s"
    by (rule render_refines_meaning [OF s(3-5) _ s(6)])
  then show ?thesis
    by (auto simp: sample_meaning s(1,2) max default_render_limits_def)
qed

end
