(* ===== verification/Tokenizer_Props.thy ===== *)
theory Tokenizer_Props
  imports Tokenizer Serial
begin

text \<open>
  What a successful parse returns. The invariant of the scan loop speaks of the frames
  (the open sections and the root), whose closed children are well-formed, counted and
  bounded in height; each operation of a tag keeps it, so the loop does, and at the end it
  gives the shape of the tree.
\<close>

section \<open>Well-formed trees\<close>

definition section_ok :: "nat \<Rightarrow> string \<Rightarrow> node \<Rightarrow> bool" where
  "section_ok fresh tmpl n \<longleftrightarrow>
     (if ntype n = TypeSection
      then startSequence n \<noteq> None \<and> stopSequence n \<noteq> None
        \<and> sectionSource n = Some (Buffer fresh tmpl)
        \<and> sectionBegin n + sectionLength n \<le> length tmpl
      else startSequence n = None \<and> stopSequence n = None \<and> sectionSource n = None)"

text \<open>A section ends with its closing tag, which has its name; there is no other one in it.\<close>

definition is_stop :: "node option \<Rightarrow> bool" where
  "is_stop c \<longleftrightarrow> map_option ntype c = Some TypeStop"

definition closed_ok :: "node \<Rightarrow> bool" where
  "closed_ok n \<longleftrightarrow>
     (if ntype n \<in> {TypeSection, TypeNegate}
      then children n \<noteq> [] \<and> is_stop (last (children n))
        \<and> map_option ndata (last (children n)) = Some (ndata n)
        \<and> list_all (\<lambda>c. \<not> is_stop c) (butlast (children n))
      else if ntype n = TypeRoot then list_all (\<lambda>c. \<not> is_stop c) (children n)
      else children n = [])"

definition parts_ok :: "node \<Rightarrow> bool" where
  "parts_ok n \<longleftrightarrow> dataParts n = (case ndata n of None \<Rightarrow> [] | Some d \<Rightarrow> data_parts_of (ntype n) d)"

definition node_ok :: "nat \<Rightarrow> string \<Rightarrow> node \<Rightarrow> bool" where
  "node_ok fresh tmpl n \<longleftrightarrow>
     validateNodeShape (ntype n) (nflags n) (ndata n \<noteq> None) (length (children n)) = Inr ()
     \<and> validatePartialIndentationChildren (children n) = Inr ()
     \<and> parts_ok n \<and> child n = None \<and> section_ok fresh tmpl n \<and> closed_ok n"

function tree_ok :: "nat \<Rightarrow> string \<Rightarrow> node \<Rightarrow> bool" where
  "tree_ok fresh tmpl n \<longleftrightarrow> node_ok fresh tmpl n
     \<and> (\<forall>c\<in>set (children n). case c of None \<Rightarrow> False | Some m \<Rightarrow> tree_ok fresh tmpl m)"
  by pat_completeness auto
termination
  by (relation "measure (\<lambda>(fresh, tmpl, n). size n)") (auto simp: size_children)

declare tree_ok.simps [simp del]

section \<open>The invariant\<close>

text \<open>
  The children of an open node: closed, of bounded height, no closing tag yet. With
  \<open>pending\<close>, the last one is the indentation of the partial about to be appended.
\<close>

definition child_ok :: "nat \<Rightarrow> string \<Rightarrow> nat \<Rightarrow> node option \<Rightarrow> bool" where
  "child_ok fresh tmpl h c \<longleftrightarrow> (\<exists>m. c = Some m \<and> tree_ok fresh tmpl m \<and> node_height m \<le> h \<and> ntype m \<noteq> TypeStop)"

definition indent_ok :: "bool \<Rightarrow> node option list \<Rightarrow> bool" where
  "indent_ok pending cs \<longleftrightarrow>
     (if pending
      then \<exists>xs m. cs = xs @ [Some m] \<and> validatePartialIndentationChildren xs = Inr ()
             \<and> isPartialIndentationMetadata m
      else validatePartialIndentationChildren cs = Inr ())"

definition body_ok :: "nat \<Rightarrow> string \<Rightarrow> nat \<Rightarrow> bool \<Rightarrow> node \<Rightarrow> bool" where
  "body_ok fresh tmpl h pending n \<longleftrightarrow>
     (\<forall>c\<in>set (children n). child_ok fresh tmpl h c) \<and> indent_ok pending (children n) \<and> child n = None
     \<and> parts_ok n"

definition root_ok :: "node \<Rightarrow> bool" where
  "root_ok n \<longleftrightarrow> ntype n = TypeRoot \<and> nflags n = 0 \<and> ndata n = None
     \<and> startSequence n = None \<and> stopSequence n = None \<and> sectionSource n = None"

definition open_ok :: "nat \<Rightarrow> string \<Rightarrow> node \<Rightarrow> bool" where
  "open_ok fresh tmpl n \<longleftrightarrow>
     ntype n \<in> {TypeSection, TypeNegate} \<and> nflags n = 0 \<and> ndata n \<noteq> None
     \<and> (if ntype n = TypeSection
        then startSequence n \<noteq> None \<and> stopSequence n \<noteq> None
          \<and> sectionSource n = Some (Buffer fresh tmpl) \<and> sectionBegin n \<le> length tmpl
        else startSequence n = None \<and> stopSequence n = None \<and> sectionSource n = None)"

text \<open>A frame over \<open>k\<close> others may have children of height up to \<open>maxNestingDepth - k + 1\<close>.\<close>

fun frames_ok :: "tokenizer_limits \<Rightarrow> nat \<Rightarrow> string \<Rightarrow> bool \<Rightarrow> parse_frame list \<Rightarrow> bool" where
  "frames_ok L fresh tmpl pending [] = False"
| "frames_ok L fresh tmpl pending (f # fs) =
     (body_ok fresh tmpl (tkl_maxNestingDepth L - length fs + 1) pending (pf_node f)
      \<and> (if fs = [] then root_ok (pf_node f)
         else length fs \<le> tkl_maxNestingDepth L \<and> open_ok fresh tmpl (pf_node f)
           \<and> frames_ok L fresh tmpl False fs))"

definition frames_count :: "parse_frame list \<Rightarrow> nat" where
  "frames_count fs = sum_list (map (\<lambda>f. node_count (pf_node f)) fs)"

definition tok_inv :: "tokenizer_limits \<Rightarrow> nat \<Rightarrow> string \<Rightarrow> bool \<Rightarrow> tok_state \<Rightarrow> bool" where
  "tok_inv L fresh tmpl pending st \<longleftrightarrow>
     frames_ok L fresh tmpl pending (t_frames st) \<and> frames_count (t_frames st) = Suc (t_nodeCount st)
     \<and> t_nodeCount st \<le> tkl_maxNodes L \<and> t_tagStart st \<le> length tmpl
     \<and> (\<forall>src. t_source st = Some src \<longrightarrow> src = Buffer fresh tmpl)"

section \<open>Nodes put together\<close>

lemma push_child_simps [simp]:
  "children (push_child c n) = children n @ [Some c]" "ntype (push_child c n) = ntype n"
  "nflags (push_child c n) = nflags n" "ndata (push_child c n) = ndata n"
  "dataParts (push_child c n) = dataParts n" "child (push_child c n) = child n"
  "sectionSource (push_child c n) = sectionSource n" "sectionBegin (push_child c n) = sectionBegin n"
  "sectionLength (push_child c n) = sectionLength n" "startSequence (push_child c n) = startSequence n"
  "stopSequence (push_child c n) = stopSequence n" "partials (push_child c n) = partials n"
  by (cases n; simp add: push_child_def)+

lemma make_node_simps [simp]:
  "children (make_node ty d fl) = []" "ntype (make_node ty d fl) = ty" "nflags (make_node ty d fl) = fl"
  "ndata (make_node ty d fl) = Some d" "startSequence (make_node ty d fl) = None"
  "stopSequence (make_node ty d fl) = None" "dataParts (make_node ty d fl) = data_parts_of ty d"
  "child (make_node ty d fl) = None" "sectionSource (make_node ty d fl) = None"
  "partials (make_node ty d fl) = []"
  by (simp_all add: make_node_def)

lemma parts_ok_simps [simp]:
  "parts_ok (push_child c n) = parts_ok n" "parts_ok (make_node ty d fl)"
  by (auto simp: parts_ok_def split: option.split)

lemma node_count_push [simp]: "node_count (push_child c n) = node_count n + node_count c"
  by (simp add: node_count.simps [of "push_child c n"] node_count.simps [of n])

lemma leaf_simps:
  assumes "children n = []"
  shows "node_count n = 1" and "node_height n = 1"
  using assms by (simp_all add: node_count.simps [of n] node_height.simps [of n])

lemma leaf_tree_ok: "children n = [] \<Longrightarrow> tree_ok fresh tmpl n = node_ok fresh tmpl n"
  by (simp add: tree_ok.simps [of fresh tmpl n])

text \<open>A leaf of each kind the parser makes.\<close>

definition leaf_flags_ok :: "node_type \<Rightarrow> int \<Rightarrow> bool" where
  "leaf_flags_ok ty fl \<longleftrightarrow> fl \<in> {0, 1} \<or> (ty = TypeOutput \<and> fl \<in> {2, 6})"

lemma leaf_flags_valid: "leaf_flags_ok ty fl \<Longrightarrow> \<not> invalid_flags ty fl"
  by (auto simp: leaf_flags_ok_def invalid_flags_def flag_defs)

lemma parsed_type_serializable:
  "ty \<in> {TypeOutput, TypeVariable, TypeStop, TypeComment, TypePartial, TypeSection, TypeNegate, TypeRoot}
     \<Longrightarrow> isSerializableType ty"
  by (auto simp: isSerializableType_def isSerializableTypeValue_def serializable_types_def)

lemma leaf_shape:
  assumes "ty \<in> {TypeOutput, TypeVariable, TypeStop, TypeComment, TypePartial}" and "leaf_flags_ok ty fl"
  shows "validateNodeShape ty fl True 0 = Inr ()"
  using assms(1) leaf_flags_valid [OF assms(2)] parsed_type_serializable [of ty]
  by (auto simp: validateNodeShape_def)

lemma leaf_node_ok:
  assumes "ty \<in> {TypeOutput, TypeVariable, TypeStop, TypeComment, TypePartial}" and "leaf_flags_ok ty fl"
  shows "node_ok fresh tmpl (make_node ty d fl)"
  using assms leaf_shape [OF assms] by (auto simp: node_ok_def section_ok_def closed_ok_def)

lemma tail_node_ok: "node_ok fresh tmpl (tail_node esc s)"
  using leaf_shape [of TypeOutput 0]
  by (simp add: node_ok_def parts_ok_def section_ok_def closed_ok_def tail_node_def leaf_flags_ok_def
      data_parts_of_def type_and_def FlagNone_def)

lemma leaf_child_ok:
  "children n = [] \<Longrightarrow> node_ok fresh tmpl n \<Longrightarrow> ntype n \<noteq> TypeStop \<Longrightarrow> child_ok fresh tmpl (Suc h) (Some n)"
  by (simp add: child_ok_def leaf_tree_ok leaf_simps)

lemma validate_append:
  "validatePartialIndentationChildren xs = Inr () \<Longrightarrow>
     validatePartialIndentationChildren (xs @ ys) = validatePartialIndentationChildren ys"
  by (induction xs rule: validatePartialIndentationChildren.induct)
     (auto split: if_splits list.splits option.splits)

lemma validate_unflagged [simp]:
  "nflags n AND FlagPartialIndent = 0 \<Longrightarrow> validatePartialIndentationChildren [Some n] = Inr ()"
  by simp

section \<open>The operations keep it\<close>

lemma frames_count_simps [simp]:
  "frames_count (f # fs) = node_count (pf_node f) + frames_count fs"
  by (simp add: frames_count_def)

lemma frames_ok_not_Nil: "frames_ok L fresh tmpl pending fs \<Longrightarrow> fs \<noteq> []"
  by auto

lemma root_ok_push [simp]: "root_ok (push_child c n) = root_ok n"
  by (simp add: root_ok_def)

lemma open_ok_push [simp]: "open_ok fresh tmpl (push_child c n) = open_ok fresh tmpl n"
  by (simp add: open_ok_def)

text \<open>Appending a closed node to the innermost open one.\<close>

lemma frames_ok_append:
  assumes "frames_ok L fresh tmpl pending fs"
    and "child_ok fresh tmpl (tkl_maxNestingDepth L - (length fs - 1) + 1) (Some c)"
    and "\<And>cs. indent_ok pending cs \<Longrightarrow> indent_ok pending' (cs @ [Some c])"
  shows "frames_ok L fresh tmpl pending' (map_top (push_child c) fs)"
  using assms by (cases fs) (auto simp: body_ok_def)

lemma frames_count_append:
  "fs \<noteq> [] \<Longrightarrow> frames_count (map_top (push_child c) fs) = frames_count fs + node_count c"
  by (cases fs) simp_all

lemma appendNode_inv:
  assumes "tok_inv L fresh tmpl pending st" and "appendNode L n l c st = Inr st'"
    and "child_ok fresh tmpl (Suc (tkl_maxNestingDepth L - (length (t_frames st) - 1))) (Some n)"
    and "node_count n = 1"
    and "\<And>cs. indent_ok pending cs \<Longrightarrow> indent_ok pending' (cs @ [Some n])"
  shows "tok_inv L fresh tmpl pending' st'"
proof -
  have ne: "t_frames st \<noteq> []" using assms(1) by (auto simp: tok_inv_def)
  show ?thesis
    using assms frames_ok_append [of L fresh tmpl pending "t_frames st" n pending']
    by (auto simp: tok_inv_def appendNode_def frames_count_append [OF ne] split: if_splits)
qed

lemma indent_ok_plain:
  "indent_ok False cs \<Longrightarrow> nflags n AND FlagPartialIndent = 0 \<Longrightarrow> indent_ok False (cs @ [Some n])"
  by (simp add: indent_ok_def validate_append)

lemma indent_ok_metadata:
  "indent_ok False cs \<Longrightarrow> isPartialIndentationMetadata n \<Longrightarrow> indent_ok True (cs @ [Some n])"
  by (simp add: indent_ok_def)

lemma metadata_flag: "isPartialIndentationMetadata n \<Longrightarrow> nflags n AND FlagPartialIndent \<noteq> 0"
  by (auto simp: isPartialIndentationMetadata_def flag_defs)

lemma indent_ok_partial:
  "indent_ok True cs \<Longrightarrow> ntype n = TypePartial \<Longrightarrow> indent_ok False (cs @ [Some n])"
  using metadata_flag by (auto simp: indent_ok_def validate_append)

lemma leaf_appendNode_inv:
  assumes "tok_inv L fresh tmpl False st" and "appendNode L n l c st = Inr st'"
    and "children n = []" and "node_ok fresh tmpl n" and "ntype n \<noteq> TypeStop"
    and "nflags n AND FlagPartialIndent = 0"
  shows "tok_inv L fresh tmpl False st'"
  using appendNode_inv [OF assms(1,2) leaf_child_ok [OF assms(3-5)] leaf_simps(1) [OF assms(3)]]
    indent_ok_plain [OF _ assms(6)] by blast

text \<open>Opening a section.\<close>

lemma openNode_inv:
  assumes "tok_inv L fresh tmpl False st" and "openNode L n l c st = Inr st'"
    and "open_ok fresh tmpl n" and "body_ok fresh tmpl 0 False n" and "children n = []"
    and "length (t_frames st) \<le> tkl_maxNestingDepth L"
  shows "tok_inv L fresh tmpl False st'"
  using assms leaf_simps(1) [OF assms(5)] frames_ok_not_Nil [of L fresh tmpl False "t_frames st"]
  by (auto simp: tok_inv_def openNode_def body_ok_def split: if_splits)

text \<open>Closing one: the frame's node gets its closing tag and becomes a child.\<close>

lemma is_stop_Some [simp]: "is_stop (Some m) \<longleftrightarrow> ntype m = TypeStop" "\<not> is_stop None"
  by (simp_all add: is_stop_def)

lemma closed_section_ok:
  assumes body: "body_ok fresh tmpl h False n" and opn: "open_ok fresh tmpl n"
    and len: "ntype n = TypeSection \<Longrightarrow> sectionBegin n + sectionLength n \<le> length tmpl"
    and stop: "children m = []" "ntype m = TypeStop" "ndata m = ndata n" "node_ok fresh tmpl m"
      "nflags m AND FlagPartialIndent = 0"
  shows "tree_ok fresh tmpl (push_child m n)" and "0 < h \<Longrightarrow> node_height (push_child m n) \<le> Suc h"
proof -
  let ?n = "push_child m n"
  have kids: "\<forall>c\<in>set (children n). child_ok fresh tmpl h c" and indent: "indent_ok False (children n)"
    using body by (simp_all add: body_ok_def)
  have "list_all (\<lambda>c. \<not> is_stop c) (children n)"
    using kids by (auto simp: list_all_iff child_ok_def)
  then have closed: "closed_ok ?n"
    using opn stop(2,3) by (auto simp: closed_ok_def open_ok_def)
  have "validateNodeShape (ntype n) 0 True (Suc (length (children n))) = Inr ()"
    using opn by (auto simp: open_ok_def validateNodeShape_def invalid_flags_def isSerializableType_def
        isSerializableTypeValue_def serializable_types_def typeAllowsChildren_def type_and_def)
  moreover have "validatePartialIndentationChildren (children n @ [Some m]) = Inr ()"
    using indent_ok_plain [OF indent stop(5)] by (simp add: indent_ok_def)
  ultimately have "node_ok fresh tmpl ?n"
    using closed body opn len by (auto simp: node_ok_def body_ok_def open_ok_def section_ok_def)
  then show "tree_ok fresh tmpl ?n"
    using kids stop leaf_tree_ok [of m fresh tmpl]
    by (auto simp: tree_ok.simps [of fresh tmpl ?n] child_ok_def split: option.split)
  show "node_height ?n \<le> Suc h" if "0 < h"
    using that kids leaf_simps(2) [OF stop(1)]
    by (auto simp: node_height_le_iff [of ?n] child_ok_def)
qed

lemma set_section_length_simps [simp]:
  "children (set_section_length l n) = children n" "ntype (set_section_length l n) = ntype n"
  "nflags (set_section_length l n) = nflags n" "ndata (set_section_length l n) = ndata n"
  "child (set_section_length l n) = child n" "parts_ok (set_section_length l n) = parts_ok n"
  "sectionBegin (set_section_length l n) = sectionBegin n" "sectionLength (set_section_length l n) = l"
  "open_ok fresh tmpl (set_section_length l n) = open_ok fresh tmpl n"
  "body_ok fresh tmpl h pending (set_section_length l n) = body_ok fresh tmpl h pending n"
  "node_count (set_section_length l n) = node_count n"
  by (cases n; simp add: parts_ok_def open_ok_def body_ok_def node_count.simps cong: option.case_cong)+

definition ranged :: "tok_state \<Rightarrow> node \<Rightarrow> node" where
  "ranged st n = (if ntype n = TypeSection then set_section_length (t_tagStart st - sectionBegin n) n else n)"

lemma close_section_range_frames:
  "t_frames st = f # fs \<Longrightarrow>
     close_section_range st = st\<lparr>t_frames := pf_node_update (ranged st) f # fs\<rparr>"
  by (cases f) (simp add: close_section_range_def ranged_def)

lemma append_stop_inv:
  assumes inv: "tok_inv L fresh tmpl False st" and open_name: "length (t_frames st) > 1"
      "ndata (top_node (t_frames st)) = Some name"
    and run: "bind_result (appendNode L (make_node TypeStop name 0) l c (close_section_range st))
       (\<lambda>st'. Inr (st'\<lparr>t_frames := close_top (t_frames st')\<rparr>)) = Inr st'"
  shows "tok_inv L fresh tmpl False st'"
proof -
  from open_name obtain f g fs where frames: "t_frames st = f # g # fs"
    by (cases "t_frames st"; cases "tl (t_frames st)") auto
  let ?n = "ranged st (pf_node f)" and ?m = "make_node TypeStop name 0" and ?D = "tkl_maxNestingDepth L"
  have depth: "Suc (length fs) \<le> ?D" and opn: "open_ok fresh tmpl (pf_node f)"
    and body: "body_ok fresh tmpl (?D - Suc (length fs) + 1) False (pf_node f)"
    and below: "frames_ok L fresh tmpl False (g # fs)"
    using inv by (simp_all add: tok_inv_def frames)
  have tag: "t_tagStart st \<le> length tmpl" using inv by (simp add: tok_inv_def)
  have st': "st' = st\<lparr>t_frames := map_top (push_child (push_child ?m ?n)) (g # fs),
      t_nodeCount := Suc (t_nodeCount st)\<rparr>" and room: "t_nodeCount st < tkl_maxNodes L"
    using run by (auto simp: close_section_range_frames [OF frames] appendNode_def bind_result_Inr_iff
        split: if_splits)
  have "tree_ok fresh tmpl (push_child ?m ?n) \<and> node_height (push_child ?m ?n) \<le> Suc (?D - Suc (length fs) + 1)"
  proof -
    have leaf: "node_ok fresh tmpl ?m" by (rule leaf_node_ok) (simp_all add: leaf_flags_ok_def)
    have "body_ok fresh tmpl (?D - Suc (length fs) + 1) False ?n" "open_ok fresh tmpl ?n"
      using body opn by (simp_all add: ranged_def)
    moreover have "sectionBegin ?n + sectionLength ?n \<le> length tmpl" if "ntype ?n = TypeSection"
      using that opn tag by (auto simp: ranged_def open_ok_def)
    ultimately show ?thesis
      using closed_section_ok [of fresh tmpl _ ?n ?m] leaf open_name(2) frames by (simp add: ranged_def)
  qed
  moreover have "ntype ?n \<in> {TypeSection, TypeNegate}" using opn by (auto simp: ranged_def open_ok_def)
  moreover have "nflags ?n = 0" using opn by (auto simp: ranged_def open_ok_def)
  ultimately have "frames_ok L fresh tmpl False (map_top (push_child (push_child ?m ?n)) (g # fs))"
    using depth by (intro frames_ok_append [OF below]) (auto simp: child_ok_def intro!: indent_ok_plain)
  moreover have "node_count (push_child ?m ?n) = node_count (pf_node f) + 1"
    using leaf_simps(1) [of ?m] by (simp add: ranged_def)
  ultimately show ?thesis
    using inv room by (simp add: tok_inv_def st' frames)
qed

section \<open>A whole tag\<close>

lemma tok_inv_cong:
  "t_frames st' = t_frames st \<Longrightarrow> t_nodeCount st' = t_nodeCount st \<Longrightarrow> t_tagStart st' = t_tagStart st
     \<Longrightarrow> t_source st' = t_source st \<Longrightarrow> tok_inv L fresh tmpl pending st' = tok_inv L fresh tmpl pending st"
  by (simp add: tok_inv_def)

lemma classify_tag_cases:
  assumes "classify_tag L buffer l c = Inr tc"
  shows "tc_type tc \<in> {TypeVariable, TypeNegate, TypeSection, TypeStop, TypeComment, TypePartial}
    \<and> tc_flags tc \<in> {0, 1} \<and> (tc_type tc \<noteq> TypeVariable \<longrightarrow> tc_flags tc = 0 \<and> tc_delimiters tc = None)"
  using assms by (auto simp: classify_tag_def Let_def flag_defs bind_result_Inr_iff split: if_splits)

lemma tag_flags_cases:
  assumes "tc_flags tc \<in> {0, 1}" and "tc_type tc \<noteq> TypeVariable \<longrightarrow> tc_flags tc = 0"
  shows "tag_flags tk tc triple \<in> {0, 1} \<and> (tc_type tc \<notin> {TypeVariable, TypeTag} \<longrightarrow> tag_flags tk tc triple = 0)"
  using assms by (auto simp: tag_flags_def Let_def FlagEscape_def)

lemma section_node_simps [simp]:
  "children (section_node e st n) = children n" "ntype (section_node e st n) = ntype n"
  "nflags (section_node e st n) = nflags n" "ndata (section_node e st n) = ndata n"
  "child (section_node e st n) = child n" "parts_ok (section_node e st n) = parts_ok n"
  "sectionSource (section_node e st n) = t_source st"
  "sectionBegin (section_node e st n) = e + (if t_inTripleTag st \<and> t_stop st = ''}}'' then 1 else 0)"
  "startSequence (section_node e st n) = Some (t_start st)"
  "stopSequence (section_node e st n) = Some (t_stop st)"
  by (cases n; simp add: section_node_def parts_ok_def cong: option.case_cong)+

lemma check_nesting_stop:
  "check_nesting L TypeStop name st = Inr () \<Longrightarrow>
     length (t_frames st) > 1 \<and> ndata (top_node (t_frames st)) = Some name"
  by (auto simp: check_nesting_def type_and_def Let_def split: if_splits)

lemma check_nesting_open:
  "ty \<in> {TypeSection, TypeNegate} \<Longrightarrow> tok_inv L fresh tmpl False st \<Longrightarrow> check_nesting L ty name st = Inr () \<Longrightarrow>
     length (t_frames st) \<le> tkl_maxNestingDepth L"
  using frames_ok_not_Nil [of L fresh tmpl False "t_frames st"]
  by (cases "t_frames st") (auto simp: check_nesting_def type_and_def tok_inv_def split: if_splits)

text \<open>
  A partial takes its pending indentation along; any other tag is appended when nothing is
  pending. The position after the tag must lie in the template.
\<close>

lemma process_tag_inv:
  assumes inv: "tok_inv L fresh tmpl (pending \<and> tc_type tc = TypePartial) st"
    and tc: "tc_type tc \<in> {TypeVariable, TypeNegate, TypeSection, TypeStop, TypeComment, TypePartial}"
      "tc_flags tc \<in> {0, 1}" "tc_type tc \<noteq> TypeVariable \<longrightarrow> tc_flags tc = 0"
    and tagEnd: "tagEnd + (if t_inTripleTag st \<and> t_stop st = ''}}'' then 1 else 0) \<le> length tmpl"
    and run: "process_tag tk fresh L tmpl tagEnd tc st = Inr st'"
  shows "tok_inv L fresh tmpl False st'"
proof -
  let ?name = "tag_name tc (t_buffer st)" and ?fl = "tag_flags tk tc (t_inTripleTag st)"
  let ?n = "make_node (tc_type tc) ?name ?fl"
  have fl: "?fl \<in> {0, 1}" "tc_type tc \<noteq> TypeVariable \<Longrightarrow> ?fl = 0"
    using tag_flags_cases [OF tc(2,3), of tk "t_inTripleTag st"] tc(1) by auto
  from run have nest: "check_nesting L (tc_type tc) ?name st = Inr ()"
    and app: "append_tag fresh L tmpl tagEnd (tc_type tc) ?n st = Inr st'"
    by (auto simp: process_tag_def Let_def bind_result_Inr_iff)
  have unflagged: "nflags ?n AND FlagPartialIndent = 0" using fl(1) by (auto simp: FlagPartialIndent_def)
  consider (sect) "tc_type tc = TypeSection" | (negate) "tc_type tc = TypeNegate"
    | (stop) "tc_type tc = TypeStop" | (partial) "tc_type tc = TypePartial"
    | (leaf) "tc_type tc \<in> {TypeVariable, TypeComment}"
    using tc(1) by auto
  then show ?thesis
  proof cases
    case sect
    let ?st = "ensure_source fresh tmpl st"
    have inv': "tok_inv L fresh tmpl False ?st" and src: "t_source ?st = Some (Buffer fresh tmpl)"
      using inv sect by (auto simp: ensure_source_def tok_inv_def)
    from app sect have run': "openNode L (section_node tagEnd ?st ?n) (t_startLineNo st) (t_startCharNo st) ?st = Inr st'"
      by (simp add: append_tag_def Let_def)
    have same: "t_inTripleTag ?st = t_inTripleTag st" "t_stop ?st = t_stop st" "t_frames ?st = t_frames st"
      by (simp_all add: ensure_source_def)
    have "?fl = 0" using fl(2) sect by simp
    then have opn: "open_ok fresh tmpl (section_node tagEnd ?st ?n)"
      and body: "body_ok fresh tmpl 0 False (section_node tagEnd ?st ?n)"
      using sect src tagEnd same by (simp_all add: open_ok_def body_ok_def indent_ok_def)
    have inv0: "tok_inv L fresh tmpl False st" using inv sect by simp
    have "length (t_frames st) \<le> tkl_maxNestingDepth L"
      by (rule check_nesting_open [OF _ inv0 nest]) (simp add: sect)
    then have "length (t_frames ?st) \<le> tkl_maxNestingDepth L" by (simp only: same)
    then show ?thesis by (intro openNode_inv [OF inv' run' opn body]) simp_all
  next
    case negate
    then have run': "openNode L ?n (t_startLineNo st) (t_startCharNo st) st = Inr st'"
      using app by (simp add: append_tag_def Let_def type_and_def)
    have inv0: "tok_inv L fresh tmpl False st" using inv negate by simp
    have "length (t_frames st) \<le> tkl_maxNestingDepth L"
      by (rule check_nesting_open [OF _ inv0 nest]) (simp add: negate)
    moreover have "?fl = 0" using fl(2) negate by simp
    ultimately show ?thesis
      using negate by (intro openNode_inv [OF inv0 run']) (simp_all add: open_ok_def body_ok_def indent_ok_def)
  next
    case stop
    then have zero: "?fl = 0" using fl(2) by simp
    have inv0: "tok_inv L fresh tmpl False st" using inv stop by simp
    have "length (t_frames st) > 1 \<and> ndata (top_node (t_frames st)) = Some ?name"
      by (rule check_nesting_stop) (use nest stop in simp)
    moreover have "bind_result (appendNode L (make_node TypeStop ?name 0) (t_startLineNo st)
        (t_startCharNo st) (close_section_range st))
        (\<lambda>st'. Inr (st'\<lparr>t_frames := close_top (t_frames st')\<rparr>)) = Inr st'"
      using app unfolding zero stop by (simp add: append_tag_def type_and_def)
    ultimately show ?thesis by (blast intro: append_stop_inv [OF inv0])
  next
    case partial
    then have run': "appendNode L ?n (t_startLineNo st) (t_startCharNo st) st = Inr st'"
      using app by (simp add: append_tag_def Let_def type_and_def)
    have ok: "node_ok fresh tmpl ?n" using partial fl by (intro leaf_node_ok) (auto simp: leaf_flags_ok_def)
    have "indent_ok False (cs @ [Some ?n])" if "indent_ok (pending \<and> tc_type tc = TypePartial) cs" for cs
      using that partial indent_ok_plain [OF _ unflagged] indent_ok_partial [of cs ?n] by (cases pending) simp_all
    then show ?thesis
      using partial leaf_simps(1) [of ?n]
      by (intro appendNode_inv [OF inv run' leaf_child_ok [OF _ ok]]) simp_all
  next
    case leaf
    then have run': "appendNode L ?n (t_startLineNo st) (t_startCharNo st) st = Inr st'"
      using app by (auto simp: append_tag_def Let_def type_and_def)
    have ok: "node_ok fresh tmpl ?n" using leaf fl by (intro leaf_node_ok) (auto simp: leaf_flags_ok_def)
    show ?thesis
      using inv leaf unflagged by (intro leaf_appendNode_inv [OF _ run' _ ok]) auto
  qed
qed

text \<open>
  The source-only output around a standalone tag. The indentation of a partial is metadata
  (it is blanks only), which leaves the invariant pending.
\<close>

lemma publish_output_inv:
  assumes "tok_inv L fresh tmpl False st" and "publish_output L st = Inr st'"
  shows "tok_inv L fresh tmpl False st'"
proof -
  from assms(2) obtain u where u: "st' = u\<lparr>t_outputBeforeTag := []\<rparr>"
    and run: "u = st \<or> appendNode L (make_node TypeOutput (t_outputBeforeTag st) FlagNone)
      (t_startLineNo st) (t_startCharNo st) st = Inr u"
    by (auto simp: publish_output_def bind_result_Inr_iff split: if_splits)
  have "node_ok fresh tmpl (make_node TypeOutput (t_outputBeforeTag st) FlagNone)"
    by (rule leaf_node_ok) (simp_all add: leaf_flags_ok_def FlagNone_def)
  then have "tok_inv L fresh tmpl False u"
    using run assms(1) leaf_appendNode_inv by (fastforce simp: FlagNone_def)
  then show ?thesis by (simp add: u tok_inv_def)
qed

lemma publish_indentation_inv:
  assumes inv: "tok_inv L fresh tmpl False st" and run: "publish_indentation L tmpl tc standalone st = Inr st'"
    and blank: "standalone \<noteq> None \<Longrightarrow> list_all is_indent
      (take (t_tagIndentationBytes st) (drop (t_tagStart st - t_tagIndentationBytes st) tmpl))"
  shows "tok_inv L fresh tmpl (standalone \<noteq> None \<and> tc_type tc = TypePartial) st'"
proof (cases "standalone = None")
  case True
  with inv run show ?thesis by (simp add: publish_indentation_def)
next
  case False
  let ?d = "take (t_tagIndentationBytes st) (drop (t_tagStart st - t_tagIndentationBytes st) tmpl)"
  let ?fl = "FlagLambdaOnly OR (if tc_type tc = TypePartial then FlagPartialIndent else FlagNone)"
  let ?n = "make_node TypeOutput ?d ?fl"
  from run False have run': "appendNode L ?n (t_startLineNo st) (t_startCharNo st) st = Inr st'"
    by (simp add: publish_indentation_def appendSourceOnlyOutput_def)
  have ok: "node_ok fresh tmpl ?n" by (rule leaf_node_ok) (auto simp: leaf_flags_ok_def flag_defs)
  have "indent_ok (tc_type tc = TypePartial) (cs @ [Some ?n])" if "indent_ok False cs" for cs
  proof (cases "tc_type tc = TypePartial")
    case True
    then have "isPartialIndentationMetadata ?n"
      using blank False by (simp add: isPartialIndentationMetadata_def)
    with True that indent_ok_metadata show ?thesis by simp
  next
    case False
    with that show ?thesis by (simp add: indent_ok_plain flag_defs)
  qed
  then show ?thesis
    using False leaf_simps(1) [of ?n]
    by (intro appendNode_inv [OF inv run' leaf_child_ok [OF _ ok]]) simp_all
qed

lemma publish_line_end_inv:
  assumes "tok_inv L fresh tmpl False st" and "publish_line_end L tmpl tagEnd standalone st = Inr st'"
  shows "tok_inv L fresh tmpl False st'"
proof (cases "st' = st")
  case False
  then obtain e where run: "appendNode L (make_node TypeOutput (take (e - tagEnd) (drop tagEnd tmpl))
      FlagLambdaOnly) (t_lineNo st) (t_charNo st) st = Inr st'"
    using assms(2) by (auto simp: publish_line_end_def appendSourceOnlyOutput_def split: option.splits if_splits)
  have "node_ok fresh tmpl (make_node TypeOutput (take (e - tagEnd) (drop tagEnd tmpl)) FlagLambdaOnly)"
    by (rule leaf_node_ok) (simp_all add: leaf_flags_ok_def FlagLambdaOnly_def)
  then show ?thesis
    by (rule leaf_appendNode_inv [OF assms(1) run, rotated]) (simp_all add: flag_defs)
qed (use assms(1) in simp)

text \<open>What these operations leave alone.\<close>

definition same_scan :: "tok_state \<Rightarrow> tok_state \<Rightarrow> bool" where
  "same_scan st st' \<longleftrightarrow>
     t_inTripleTag st' = t_inTripleTag st \<and> t_stop st' = t_stop st \<and> t_start st' = t_start st
     \<and> t_tagStart st' = t_tagStart st \<and> t_tagPrefixIsIndent st' = t_tagPrefixIsIndent st
     \<and> t_tagIndentationBytes st' = t_tagIndentationBytes st \<and> t_lineStart st' = t_lineStart st
     \<and> t_linePrefixIsIndent st' = t_linePrefixIsIndent st \<and> t_inTag st' = t_inTag st
     \<and> t_buffer st' = t_buffer st"

lemma same_scan_refl: "same_scan st st"
  by (simp add: same_scan_def)

lemma same_scan_trans: "same_scan st st' \<Longrightarrow> same_scan st' st'' \<Longrightarrow> same_scan st st''"
  by (simp add: same_scan_def)

lemma appendNode_same: "appendNode L n l c st = Inr st' \<Longrightarrow> same_scan st st'"
  by (auto simp: appendNode_def same_scan_def split: if_splits)

lemma openNode_same: "openNode L n l c st = Inr st' \<Longrightarrow> same_scan st st'"
  by (auto simp: openNode_def same_scan_def split: if_splits)

lemma update_same:
  "same_scan st (st\<lparr>t_frames := fs\<rparr>)" "same_scan st (st\<lparr>t_outputBeforeTag := out\<rparr>)"
  "same_scan st (close_section_range st)" "same_scan st (ensure_source fresh tmpl st)"
  by (simp_all add: same_scan_def close_section_range_def ensure_source_def)

lemma append_tag_same:
  assumes "append_tag fresh L tmpl tagEnd ty n st = Inr st'"
  shows "same_scan st st'"
proof (cases "ty = TypeStop")
  case True
  with assms obtain u where "appendNode L n (t_startLineNo st) (t_startCharNo st) (close_section_range st) = Inr u"
    and "st' = u\<lparr>t_frames := close_top (t_frames u)\<rparr>"
    by (auto simp: append_tag_def Let_def type_and_def bind_result_Inr_iff)
  then show ?thesis
    using same_scan_trans [OF update_same(3) same_scan_trans [OF appendNode_same update_same(1)]] by simp
next
  case False
  with assms consider (opened) s m where "openNode L m (t_startLineNo st) (t_startCharNo st) s = Inr st'"
      "s = st \<or> s = ensure_source fresh tmpl st"
    | (leaf) "appendNode L n (t_startLineNo st) (t_startCharNo st) st = Inr st'"
    by (auto simp: append_tag_def Let_def split: if_splits)
  then show ?thesis
  proof cases
    case opened
    then have "same_scan st s" using same_scan_refl update_same(4) by blast
    then show ?thesis by (rule same_scan_trans) (rule openNode_same [OF opened(1)])
  qed (rule appendNode_same)
qed

lemma process_tag_same: "process_tag tk fresh L tmpl tagEnd tc st = Inr st' \<Longrightarrow> same_scan st st'"
  by (auto simp: process_tag_def Let_def bind_result_Inr_iff intro: append_tag_same)

lemma appendSourceOnlyOutput_same:
  "appendSourceOnlyOutput L out fl e l c st = Inr st' \<Longrightarrow> same_scan st st'"
  by (auto simp: appendSourceOnlyOutput_def same_scan_refl appendNode_same split: if_splits)

lemma publish_output_same: "publish_output L st = Inr st' \<Longrightarrow> same_scan st st'"
  by (auto simp: publish_output_def bind_result_Inr_iff update_same split: if_splits
      intro: same_scan_trans [OF appendNode_same update_same(2)])

lemma publish_same:
  "strip_indentation standalone st = Inr st' \<Longrightarrow> same_scan st st'"
  "publish_output L st = Inr st' \<Longrightarrow> same_scan st st'"
  "publish_indentation L tmpl tc standalone st = Inr st' \<Longrightarrow> same_scan st st'"
  "publish_line_end L tmpl tagEnd standalone st = Inr st' \<Longrightarrow> same_scan st st'"
proof -
  show "strip_indentation standalone st = Inr st' \<Longrightarrow> same_scan st st'"
    by (auto simp: strip_indentation_def same_scan_refl update_same split: if_splits)
  show "publish_output L st = Inr st' \<Longrightarrow> same_scan st st'"
    by (rule publish_output_same)
  show "publish_indentation L tmpl tc standalone st = Inr st' \<Longrightarrow> same_scan st st'"
    unfolding publish_indentation_def
    by (cases "standalone = None") (simp_all only: if_True if_False appendSourceOnlyOutput_same,
        simp add: same_scan_refl)
  show "publish_line_end L tmpl tagEnd standalone st = Inr st' \<Longrightarrow> same_scan st st'"
    unfolding publish_line_end_def
    by (cases standalone) (simp_all only: option.case appendSourceOnlyOutput_same, simp add: same_scan_refl)
qed

section \<open>The scan\<close>

definition line_ok :: "string \<Rightarrow> nat \<Rightarrow> tok_state \<Rightarrow> bool" where
  "line_ok tmpl pos st \<longleftrightarrow>
     t_lineStart st \<le> pos
     \<and> (t_linePrefixIsIndent st \<longrightarrow> (\<forall>i. t_lineStart st \<le> i \<and> i < pos \<longrightarrow> is_indent (tmpl ! i)))"

definition prefix_ok :: "string \<Rightarrow> tok_state \<Rightarrow> bool" where
  "prefix_ok tmpl st \<longleftrightarrow>
     (t_tagPrefixIsIndent st \<longrightarrow>
        list_all is_indent (take (t_tagIndentationBytes st) (drop (t_tagStart st - t_tagIndentationBytes st) tmpl)))"

definition scan_inv :: "tokenizer_limits \<Rightarrow> nat \<Rightarrow> string \<Rightarrow> nat \<Rightarrow> tok_state \<Rightarrow> bool" where
  "scan_inv L fresh tmpl pos st \<longleftrightarrow>
     tok_inv L fresh tmpl False st \<and> line_ok tmpl pos st \<and> prefix_ok tmpl st"

lemma matchesAt_bound: "matchesAt s p x \<Longrightarrow> p + length x \<le> length s"
  by (auto simp: matchesAt_def)

lemma scan_inv_cong:
  "t_frames st' = t_frames st \<Longrightarrow> t_nodeCount st' = t_nodeCount st \<Longrightarrow> t_tagStart st' = t_tagStart st
     \<Longrightarrow> t_source st' = t_source st \<Longrightarrow> t_lineStart st' = t_lineStart st
     \<Longrightarrow> t_linePrefixIsIndent st' = t_linePrefixIsIndent st
     \<Longrightarrow> t_tagPrefixIsIndent st' = t_tagPrefixIsIndent st
     \<Longrightarrow> t_tagIndentationBytes st' = t_tagIndentationBytes st
     \<Longrightarrow> scan_inv L fresh tmpl pos st' = scan_inv L fresh tmpl pos st"
  by (simp add: scan_inv_def tok_inv_def line_ok_def prefix_ok_def)

lemma scan_inv_same:
  "same_scan st st' \<Longrightarrow> scan_inv L fresh tmpl pos st \<Longrightarrow> tok_inv L fresh tmpl False st' \<Longrightarrow> scan_inv L fresh tmpl pos st'"
  by (auto simp: scan_inv_def line_ok_def prefix_ok_def same_scan_def)

lemma finish_tag_Inr:
  assumes "finish_tag tmpl pos tagEnd skip standalone st = Inr st'"
  shows "skip \<or> \<not> t_inTripleTag st \<or> t_stop st \<noteq> ''}}'' \<or> pos + 3 \<le> length tmpl"
    and "scan_inv L fresh tmpl p st' = scan_inv L fresh tmpl p st"
proof -
  let ?triple = "\<not> skip \<and> t_inTripleTag st \<and> t_stop st = ''}}''"
  from assms have close: "?triple \<Longrightarrow> matchesAt tmpl (pos + 2) ''}''"
    and st': "\<exists>u. st' = st\<lparr>t_buffer := [], t_inTag := False, t_skipUntil := u, t_inTripleTag := False,
      t_startLineNo := t_lineNo st, t_startCharNo := t_charNo st\<rparr>"
    unfolding finish_tag_def Let_def by (auto split: if_split_asm)
  show "skip \<or> \<not> t_inTripleTag st \<or> t_stop st \<noteq> ''}}'' \<or> pos + 3 \<le> length tmpl"
    using matchesAt_bound [OF close] by (cases skip) auto
  from st' obtain u where "st' = st\<lparr>t_buffer := [], t_inTag := False, t_skipUntil := u,
      t_inTripleTag := False, t_startLineNo := t_lineNo st, t_startCharNo := t_charNo st\<rparr>" by blast
  then show "scan_inv L fresh tmpl p st' = scan_inv L fresh tmpl p st" by (intro scan_inv_cong) simp_all
qed

lemma is_indent_eq: "isStandaloneIndent c = is_indent c"
  by (simp add: isStandaloneIndent_def is_indent_def)

lemma track_position_fields [simp]:
  "t_frames (track_position tmpl pos st) = t_frames st"
  "t_nodeCount (track_position tmpl pos st) = t_nodeCount st"
  "t_tagStart (track_position tmpl pos st) = t_tagStart st"
  "t_source (track_position tmpl pos st) = t_source st"
  "t_tagPrefixIsIndent (track_position tmpl pos st) = t_tagPrefixIsIndent st"
  "t_tagIndentationBytes (track_position tmpl pos st) = t_tagIndentationBytes st"
  "t_inTag (track_position tmpl pos st) = t_inTag st"
  "t_skipUntil (track_position tmpl pos st) = t_skipUntil st"
  "t_start (track_position tmpl pos st) = t_start st"
  "t_stop (track_position tmpl pos st) = t_stop st"
  "t_buffer (track_position tmpl pos st) = t_buffer st"
  "t_outputBeforeTag (track_position tmpl pos st) = t_outputBeforeTag st"
  "t_inTripleTag (track_position tmpl pos st) = t_inTripleTag st"
  by (simp_all add: track_position_def Let_def)

lemma track_position_line:
  "t_lineStart (track_position tmpl pos st) =
     (if 0 < pos \<and> tmpl ! (pos - 1) = CHR 0x0A then pos else t_lineStart st)"
  "t_linePrefixIsIndent (track_position tmpl pos st) \<longleftrightarrow>
     (0 < pos \<and> tmpl ! (pos - 1) = CHR 0x0A
      \<or> t_linePrefixIsIndent st \<and> (pos = 0 \<or> is_indent (tmpl ! (pos - 1))))"
  by (auto simp: track_position_def Let_def is_indent_eq)

lemma track_position_inv:
  assumes "scan_inv L fresh tmpl (pos - 1) st"
  shows "scan_inv L fresh tmpl pos (track_position tmpl pos st)"
proof -
  have line: "line_ok tmpl (pos - 1) st" using assms by (simp add: scan_inv_def)
  have "line_ok tmpl pos (track_position tmpl pos st)"
  proof (cases "0 < pos \<and> tmpl ! (pos - 1) = CHR 0x0A")
    case True
    then show ?thesis by (auto simp: line_ok_def track_position_line)
  next
    case False
    have "is_indent (tmpl ! i)"
      if "t_linePrefixIsIndent (track_position tmpl pos st)" "t_lineStart st \<le> i" "i < pos" for i
      using that line False by (cases "i = pos - 1") (auto simp: line_ok_def track_position_line)
    moreover have "t_lineStart st \<le> pos" using line by (auto simp: line_ok_def)
    ultimately show ?thesis using False by (simp add: line_ok_def track_position_line(1))
  qed
  then show ?thesis using assms by (simp add: scan_inv_def tok_inv_def prefix_ok_def)
qed

lemma open_tag_inv:
  assumes "scan_inv L fresh tmpl pos st" and "pos < length tmpl"
  shows "scan_inv L fresh tmpl pos (open_tag tmpl pos st)"
proof -
  have "list_all is_indent (take (pos - t_lineStart st) (drop (t_lineStart st) tmpl))"
    if "t_linePrefixIsIndent st"
    using assms that by (auto simp: scan_inv_def line_ok_def list_all_length)
  then show ?thesis
    using assms by (auto simp: scan_inv_def tok_inv_def line_ok_def prefix_ok_def open_tag_def Let_def)
qed

lemma strip_indentation_inv:
  "strip_indentation standalone st = Inr st' \<Longrightarrow> tok_inv L fresh tmpl pending st \<Longrightarrow> tok_inv L fresh tmpl pending st'"
  by (auto simp: strip_indentation_def tok_inv_def split: if_splits)

lemma standalone_prefix: "standalone_end tmpl tagEnd tc st \<noteq> None \<Longrightarrow> t_tagPrefixIsIndent st"
  by (simp add: standalone_end_def split: if_splits)

lemma set_tag_delimiters_inv: "scan_inv L fresh tmpl pos (set_tag_delimiters tc st) = scan_inv L fresh tmpl pos st"
  by (rule scan_inv_cong) (auto simp: set_tag_delimiters_def split: option.split prod.split)

lemma close_tag_inv:
  assumes inv: "scan_inv L fresh tmpl pos st0" and stop: "matchesAt tmpl pos (t_stop st0)"
    and run: "close_tag tk fresh L tmpl pos st0 = Inr st'"
  shows "scan_inv L fresh tmpl pos st'"
proof -
  define st where "st = st0\<lparr>t_buffer := trim (t_buffer st0) whiteSpaces\<rparr>"
  let ?e = "pos + length (t_stop st)"
  from run have "bind_result (classify_tag L (t_buffer st) (t_startLineNo st) (t_startCharNo st)) (\<lambda>tc.
     let st = set_tag_delimiters tc st; skip = tc_delimiters tc \<noteq> None;
               standalone = standalone_end tmpl ?e tc st
           in bind_result (strip_indentation standalone st) (\<lambda>st.
              bind_result (publish_output L st) (\<lambda>st.
              bind_result (publish_indentation L tmpl tc standalone st) (\<lambda>st.
              bind_result (if skip then Inr st else process_tag tk fresh L tmpl ?e tc st) (\<lambda>st.
              bind_result (publish_line_end L tmpl ?e standalone st) (\<lambda>st.
              finish_tag tmpl pos ?e skip standalone st)))))) = Inr st'"
    unfolding close_tag_def Let_def st_def by (simp only: sum.distinct split: if_split_asm)
  from this [unfolded bind_result_Inr_iff [of "classify_tag _ _ _ _"]]
  obtain tc where tc: "classify_tag L (t_buffer st) (t_startLineNo st) (t_startCharNo st) = Inr tc"
    and rest: "(let st = set_tag_delimiters tc st; skip = tc_delimiters tc \<noteq> None;
               standalone = standalone_end tmpl ?e tc st
           in bind_result (strip_indentation standalone st) (\<lambda>st.
              bind_result (publish_output L st) (\<lambda>st.
              bind_result (publish_indentation L tmpl tc standalone st) (\<lambda>st.
              bind_result (if skip then Inr st else process_tag tk fresh L tmpl ?e tc st) (\<lambda>st.
              bind_result (publish_line_end L tmpl ?e standalone st) (\<lambda>st.
              finish_tag tmpl pos ?e skip standalone st)))))) = Inr st'"
    by blast
  define s0 where "s0 = set_tag_delimiters tc st"
  let ?skip = "tc_delimiters tc \<noteq> None" and ?sa = "standalone_end tmpl ?e tc s0"
  from rest obtain s1 s2 s3 s4 s5 where runs: "strip_indentation ?sa s0 = Inr s1"
      "publish_output L s1 = Inr s2" "publish_indentation L tmpl tc ?sa s2 = Inr s3"
      "(if ?skip then Inr s3 else process_tag tk fresh L tmpl ?e tc s3) = Inr s4"
      "publish_line_end L tmpl ?e ?sa s4 = Inr s5" "finish_tag tmpl pos ?e ?skip ?sa s5 = Inr st'"
    unfolding Let_def s0_def [symmetric] bind_result_Inr_iff by blast
  note types = classify_tag_cases [OF tc]
  have "scan_inv L fresh tmpl pos st" using inv by (simp add: st_def scan_inv_cong [of "_\<lparr>t_buffer := _\<rparr>"])
  then have inv0: "scan_inv L fresh tmpl pos s0" by (simp add: s0_def set_tag_delimiters_inv)
  note same2 = same_scan_trans [OF publish_same(1) [OF runs(1)] publish_same(2) [OF runs(2)]]
  note same3 = same_scan_trans [OF same2 publish_same(3) [OF runs(3)]]
  have inv2: "tok_inv L fresh tmpl False s2"
    using inv0 by (intro publish_output_inv [OF strip_indentation_inv [OF runs(1)] runs(2)]) (simp add: scan_inv_def)
  have blank: "list_all is_indent (take (t_tagIndentationBytes s2) (drop (t_tagStart s2 - t_tagIndentationBytes s2) tmpl))"
    if "?sa \<noteq> None"
    using standalone_prefix [OF that] inv0 same2 by (simp add: scan_inv_def prefix_ok_def same_scan_def)
  have inv3: "tok_inv L fresh tmpl (?sa \<noteq> None \<and> tc_type tc = TypePartial) s3"
    using inv2 runs(3) blank by (rule publish_indentation_inv)
  have inv4: "tok_inv L fresh tmpl False s4 \<and> same_scan s0 s4"
  proof (cases ?skip)
    case True
    then show ?thesis using inv3 runs(4) types same3 by auto
  next
    case False
    then have proc: "process_tag tk fresh L tmpl ?e tc s3 = Inr s4" using runs(4) by simp
    have same5: "same_scan s3 s5"
      by (rule same_scan_trans [OF process_tag_same [OF proc] publish_same(4) [OF runs(5)]])
    from False have "tc_delimiters tc = None" by blast
    then have "s0 = st" by (simp add: s0_def set_tag_delimiters_def)
    then have "t_stop st = t_stop s3" using same3 by (simp add: same_scan_def)
    moreover have "?e \<le> length tmpl" using matchesAt_bound [OF stop] by (simp add: st_def)
    ultimately have "?e + (if t_inTripleTag s3 \<and> t_stop s3 = ''}}'' then 1 else 0) \<le> length tmpl"
      using finish_tag_Inr(1) [OF runs(6)] False same5 by (auto simp: same_scan_def)
    then have "tok_inv L fresh tmpl False s4"
      using types by (intro process_tag_inv [OF inv3 _ _ _ _ proc]) auto
    then show ?thesis using same_scan_trans [OF same3 process_tag_same [OF proc]] by simp
  qed
  have "tok_inv L fresh tmpl False s5" using inv4 runs(5) publish_line_end_inv by blast
  then have "scan_inv L fresh tmpl pos s5"
    using scan_inv_same [OF same_scan_trans [OF _ publish_same(4) [OF runs(5)]] inv0] inv4 by blast
  then show ?thesis by (simp add: finish_tag_Inr(2) [OF runs(6)])
qed

lemma append_char_inv:
  "append_char L tmpl pos st = Inr st' \<Longrightarrow> scan_inv L fresh tmpl p st \<Longrightarrow> scan_inv L fresh tmpl p st'"
  by (auto simp: append_char_def scan_inv_def tok_inv_def line_ok_def prefix_ok_def split: if_splits)

lemma tokenize_step_inv:
  assumes inv: "scan_inv L fresh tmpl (pos - 1) st" and pos: "pos < length tmpl"
    and run: "tokenize_step tk fresh L tmpl pos st = Inr st'"
  shows "scan_inv L fresh tmpl pos st'"
proof -
  let ?st = "track_position tmpl pos st"
  have inv1: "scan_inv L fresh tmpl pos ?st" using inv by (rule track_position_inv)
  show ?thesis
  proof (cases "case t_skipUntil ?st of None \<Rightarrow> False | Some u \<Rightarrow> pos \<le> u")
    case True
    with run have "st' = ?st" unfolding tokenize_step_def Let_def by simp
    with inv1 show ?thesis by simp
  next
    case False
    let ?st2 = "?st\<lparr>t_skipUntil := None\<rparr>"
    have inv2: "scan_inv L fresh tmpl pos ?st2" using inv1 by (subst scan_inv_cong [of _ ?st]) simp_all
    from False run obtain u where u: "scan_char tk fresh L tmpl pos ?st2 = Inr u"
      and fin: "append_char L tmpl pos u = Inr st'"
      unfolding tokenize_step_def Let_def by (auto simp: bind_result_Inr_iff)
    have "scan_inv L fresh tmpl pos u"
      using u inv2 open_tag_inv [OF inv2 pos] close_tag_inv [OF inv2] by (auto simp: scan_char_def split: if_splits)
    then show ?thesis by (rule append_char_inv [OF fin])
  qed
qed

lemma tokenize_loop_inv:
  "tokenize_loop tk fresh L tmpl ps st = Inr st' \<Longrightarrow> scan_inv L fresh tmpl (p - 1) st \<Longrightarrow>
     ps = [p..<length tmpl] \<Longrightarrow> p \<le> length tmpl \<Longrightarrow> scan_inv L fresh tmpl (length tmpl - 1) st'"
proof (induction ps arbitrary: st p)
  case (Cons q qs)
  then have p: "q = p" "qs = [Suc p..<length tmpl]" "p < length tmpl"
    using Cons.prems(3) [symmetric] unfolding upt_eq_Cons_conv by auto
  from Cons.prems(1) obtain u where "tokenize_step tk fresh L tmpl q st = Inr u"
    and rest: "tokenize_loop tk fresh L tmpl qs u = Inr st'"
    by (auto simp: bind_result_Inr_iff)
  then have "scan_inv L fresh tmpl p u" using Cons.prems(2) p tokenize_step_inv by blast
  then show ?case using Cons.IH [OF rest, of "Suc p"] p by simp
next
  case Nil
  then have "p = length tmpl" by (metis le_neq_implies_less not_Cons_self2 upt_conv_Cons list.distinct(1))
  then show ?case using Nil by simp
qed

lemma initial_inv: "scan_inv L fresh tmpl 0 (initial_state tk)"
  by (simp add: scan_inv_def tok_inv_def line_ok_def prefix_ok_def initial_state_def body_ok_def
      indent_ok_def root_ok_def parsed_root_def parts_ok_def FlagNone_def node_count.simps frames_count_def)

lemma tokenize_end_tree:
  assumes inv: "tok_inv L fresh tmpl False st" and run: "tokenize_end L esc st = Inr n"
  shows "tree_ok fresh tmpl n \<and> node_height n \<le> tkl_maxNestingDepth L + 2
    \<and> node_count n \<le> tkl_maxNodes L + 1 \<and> ntype n = TypeRoot"
proof -
  have one: "length (t_frames st) = 1"
    using run inv frames_ok_not_Nil [of L fresh tmpl False "t_frames st"]
    by (cases "t_frames st") (auto simp: tokenize_end_def tok_inv_def split: if_splits)
  from run one obtain u where n: "n = top_node (t_frames u)" and u: "u = st \<or>
      appendNode L (tail_node esc (t_buffer st)) (t_lineNo st) (t_charNo st) st = Inr u"
    by (auto simp: tokenize_end_def bind_result_Inr_iff split: if_splits)
  have "tok_inv L fresh tmpl False u \<and> length (t_frames u) = 1"
  proof (cases "u = st")
    case False
    with u have app: "appendNode L (tail_node esc (t_buffer st)) (t_lineNo st) (t_charNo st) st = Inr u" by simp
    have "tok_inv L fresh tmpl False u"
      using leaf_appendNode_inv [OF inv app _ tail_node_ok] by (simp add: tail_node_def FlagNone_def)
    moreover have "length (t_frames u) = 1"
      using app one by (cases "t_frames st") (auto simp: appendNode_def split: if_splits)
    ultimately show ?thesis by simp
  qed (use inv one in simp)
  then obtain f where f: "t_frames u = [f]" and inv': "tok_inv L fresh tmpl False u"
    by (auto simp: length_Suc_conv)
  then have n': "n = pf_node f" and body: "body_ok fresh tmpl (tkl_maxNestingDepth L + 1) False n"
    and root: "root_ok n" and count: "node_count n \<le> tkl_maxNodes L + 1"
    using n by (auto simp: tok_inv_def frames_count_def)
  have "validateNodeShape TypeRoot 0 False (length (children n)) = Inr ()"
    by (auto simp: validateNodeShape_def invalid_flags_def parsed_type_serializable typeAllowsChildren_def type_and_def)
  then have "node_ok fresh tmpl n"
    using body root by (auto simp: node_ok_def body_ok_def root_ok_def section_ok_def closed_ok_def
        indent_ok_def child_ok_def list_all_iff)
  then have "tree_ok fresh tmpl n"
    using body by (auto simp: tree_ok.simps [of fresh tmpl n] body_ok_def child_ok_def split: option.split)
  moreover have "node_height n \<le> tkl_maxNestingDepth L + 2"
    using body by (auto simp: node_height_le_iff [of n] body_ok_def child_ok_def)
  ultimately show ?thesis using count root by (simp add: root_ok_def)
qed

lemma set_partials_simps [simp]:
  "children (set_partials ps n) = children n" "ntype (set_partials ps n) = ntype n"
  "nflags (set_partials ps n) = nflags n" "ndata (set_partials ps n) = ndata n"
  "child (set_partials ps n) = child n" "partials (set_partials ps n) = ps"
  "node_ok fresh tmpl (set_partials ps n) = node_ok fresh tmpl n"
  "tree_ok fresh tmpl (set_partials ps n) = tree_ok fresh tmpl n"
  "node_count (set_partials ps n) = node_count n" "node_height (set_partials ps n) = node_height n"
proof -
  show ok: "node_ok fresh tmpl (set_partials ps n) = node_ok fresh tmpl n"
    by (cases n) (simp add: node_ok_def parts_ok_def section_ok_def closed_ok_def cong: option.case_cong)
  have kids: "children (set_partials ps n) = children n" by (cases n) simp
  show "tree_ok fresh tmpl (set_partials ps n) = tree_ok fresh tmpl n"
    by (simp add: tree_ok.simps [of fresh tmpl "set_partials ps n"] tree_ok.simps [of fresh tmpl n] ok kids)
  show "node_count (set_partials ps n) = node_count n"
    by (simp add: node_count.simps [of "set_partials ps n"] node_count.simps [of n] kids)
  show "node_height (set_partials ps n) = node_height n"
    by (simp add: node_height.simps [of "set_partials ps n"] node_height.simps [of n] kids)
qed (cases n; simp)+

lemma tokenize_Inr:
  assumes "tokenize tk fresh tmpl root L esc = Inr n"
  obtains r st parsed where "root = Some r" "length tmpl \<le> tkl_maxInputBytes L"
    "tk_startSequence tk \<noteq> []" "tk_stopSequence tk \<noteq> []"
    "tokenize_loop tk fresh L tmpl [0..<length tmpl] (initial_state tk) = Inr st"
    "tokenize_end L esc st = Inr parsed" "n = set_partials (partials r) parsed"
  using assms by (auto simp: tokenize_def bind_result_Inr_iff split: option.splits if_splits)

lemma tokenize_tree:
  assumes "tokenize tk fresh tmpl root L esc = Inr n"
  shows "tree_ok fresh tmpl n \<and> node_height n \<le> tkl_maxNestingDepth L + 2
    \<and> node_count n \<le> tkl_maxNodes L + 1 \<and> ntype n = TypeRoot"
proof -
  from assms obtain r st parsed where
    loop: "tokenize_loop tk fresh L tmpl [0..<length tmpl] (initial_state tk) = Inr st"
    and fin: "tokenize_end L esc st = Inr parsed" and n: "n = set_partials (partials r) parsed"
    by (rule tokenize_Inr)
  have "scan_inv L fresh tmpl (length tmpl - 1) st"
    by (rule tokenize_loop_inv [OF loop _ refl]) (use initial_inv in simp_all)
  then have "tok_inv L fresh tmpl False st" by (simp add: scan_inv_def)
  from tokenize_end_tree [OF this fin] show ?thesis by (simp add: n)
qed

section \<open>What a parse promises\<close>

definition sample_tokenizer_limits :: tokenizer_limits where
  "sample_tokenizer_limits =
     \<lparr>tkl_maxInputBytes = 40, tkl_maxNestingDepth = 1, tkl_maxNodes = 9, tkl_maxTagBytes = 9,
      tkl_maxDelimiterBytes = 2\<rparr>"

definition sample_template :: string where
  "sample_template = ''a{{#s}}{{{x}}}{{/s}}''"

definition sample_parse :: node where
  "sample_parse =
     Node TypeRoot 0 None []
       [Some (Node TypeOutput 0 (Some ''a'') [] [] None [] None None None 0 0),
        Some (Node TypeSection 0 (Some ''s'') []
          [Some (Node TypeVariable 0 (Some ''x'') [] [] None [] None None None 0 0),
           Some (Node TypeStop 0 (Some ''s'') [] [] None [] None None None 0 0)]
          None [] (Some ''{{'') (Some ''}}'') (Some (Buffer 5 sample_template)) 7 7)]
       None [] None None None 0 0"

lemmas tokenizer_eval = tokenize_def tokenize_step_def scan_char_def append_char_def track_position_def
  open_tag_def close_tag_def classify_tag_def set_tag_delimiters_def standalone_end_def
  strip_indentation_def publish_output_def publish_indentation_def publish_line_end_def finish_tag_def
  process_tag_def append_tag_def check_nesting_def tag_name_def tag_flags_def ensure_source_def
  section_node_def close_section_range_def appendNode_def openNode_def appendSourceOnlyOutput_def
  tokenize_end_def tail_node_def initial_state_def parsed_root_def new_tokenizer_def matchesAt_def
  isStandaloneIndent_def isStandaloneType_def standaloneLineEnd_def skip_indent_def type_and_def
  make_node_def push_child_def data_parts_of_def flag_defs empty_node_def trim_def trimRight_def
  trimLeft_def whiteSpaces_def Let_def

lemma sample_tokenized:
  "tokenize new_tokenizer 5 sample_template (Some empty_node) sample_tokenizer_limits False = Inr sample_parse"
  by (simp add: sample_template_def sample_tokenizer_limits_def upt_rec tokenizer_eval)
     (simp add: sample_parse_def sample_template_def)

text \<open>
  C11. A parsed template is well-formed throughout: its root is a root, every node has a
  type, flags and data the library allows, indentation metadata stands directly before its
  partial, dotted names are split, and every section (inverted or not) ends with the
  closing tag of its own name and holds no other.
\<close>

theorem tokenize_well_formed:
  assumes "tokenize tk fresh tmpl root L esc = Inr n"
  shows "ntype n = TypeRoot \<and> tree_ok fresh tmpl n"
  using tokenize_tree [OF assms] by blast

theorem tokenize_well_formed_witness: "ntype sample_parse = TypeRoot \<and> tree_ok 5 sample_template sample_parse"
  by (rule tokenize_well_formed [OF sample_tokenized])

text \<open>
  C23. Parsing respects its limits: the input is within the input limit, the tree has at
  most the allowed nodes besides the root, and no path is longer than the nesting limit
  plus the root and a leaf. With the default of 62 that is 64, what serialization permits.
\<close>

theorem tokenize_bounded:
  assumes "tokenize tk fresh tmpl root L esc = Inr n"
  shows "length tmpl \<le> tkl_maxInputBytes L \<and> node_count n \<le> tkl_maxNodes L + 1
    \<and> node_height n \<le> tkl_maxNestingDepth L + 2"
proof -
  from assms have "length tmpl \<le> tkl_maxInputBytes L" by (rule tokenize_Inr)
  with tokenize_tree [OF assms] show ?thesis by blast
qed

theorem tokenize_bounded_witness:
  "length sample_template \<le> 40 \<and> node_count sample_parse \<le> 10 \<and> node_height sample_parse \<le> 3"
  using tokenize_bounded [OF sample_tokenized] by (simp add: sample_tokenizer_limits_def)

text \<open>The nodes of a tree.\<close>

inductive subnode :: "node \<Rightarrow> node \<Rightarrow> bool" where
  subnode_refl: "subnode n n"
| subnode_child: "Some c \<in> set (children n) \<Longrightarrow> subnode m c \<Longrightarrow> subnode m n"

inductive_cases subnodeE: "subnode m n"

lemma subnode_tree_ok: "subnode m n \<Longrightarrow> tree_ok fresh tmpl n \<Longrightarrow> tree_ok fresh tmpl m"
proof (induction rule: subnode.induct)
  case (subnode_child c n m)
  then have "tree_ok fresh tmpl c" by (force simp: tree_ok.simps [of fresh tmpl n])
  with subnode_child show ?case by blast
qed

text \<open>
  C24. Every section of a parsed template keeps its original text: reading it stays inside
  the template (\<open>substr\<close> never throws) and yields a piece of the template of exactly the
  recorded length.
\<close>

theorem section_source_in_template:
  assumes "tokenize tk fresh tmpl root L esc = Inr n" and "subnode m n" and "ntype m = TypeSection"
  shows "\<exists>pre text post. tmpl = pre @ text @ post \<and> length pre = sectionBegin m
    \<and> length text = sectionLength m \<and> originalSectionText m = Some text"
proof -
  from subnode_tree_ok [OF assms(2)] tokenize_tree [OF assms(1)] have "tree_ok fresh tmpl m" by blast
  then have "section_ok fresh tmpl m" by (simp add: tree_ok.simps [of fresh tmpl m] node_ok_def)
  with assms(3) obtain src where src: "sectionSource m = Some src" "buffer_text src = tmpl"
    and range: "sectionBegin m + sectionLength m \<le> length tmpl"
    by (auto simp: section_ok_def)
  let ?b = "sectionBegin m" and ?l = "sectionLength m"
  have "tmpl = take ?b tmpl @ take ?l (drop ?b tmpl) @ drop (?l + ?b) tmpl"
    by (metis append_take_drop_id drop_drop)
  then show ?thesis
    using range src assms(3)
    by (intro exI [of _ "take ?b tmpl"] exI [of _ "take ?l (drop ?b tmpl)"] exI [of _ "drop (?l + ?b) tmpl"])
       (auto simp: originalSectionText_def)
qed

theorem section_source_in_template_witness:
  "\<exists>m text. ntype m = TypeSection \<and> length text = sectionLength m \<and> originalSectionText m = Some text"
proof -
  let ?m = "the (children sample_parse ! 1)"
  have "Some ?m \<in> set (children sample_parse)" and type: "ntype ?m = TypeSection"
    by (simp_all add: sample_parse_def)
  then have m: "subnode ?m sample_parse" by (blast intro: subnode.intros)
  from section_source_in_template [OF sample_tokenized m type] type show ?thesis by blast
qed

text \<open>Scanning text in which no tag opens only fills the buffer.\<close>

definition plain_state :: "tokenizer \<Rightarrow> string \<Rightarrow> nat \<Rightarrow> tok_state \<Rightarrow> bool" where
  "plain_state tk tmpl p st \<longleftrightarrow>
     t_buffer st = take p tmpl \<and> \<not> t_inTag st \<and> t_skipUntil st = None \<and> t_nodeCount st = 0
     \<and> t_start st = tk_startSequence tk
     \<and> t_frames st = [\<lparr>pf_node = parsed_root, pf_lineNo = 0, pf_charNo = 0\<rparr>]"

lemma matchesAt_occurs: "matchesAt s p x \<Longrightarrow> occurs_in x s"
  unfolding matchesAt_def occurs_in_def by (metis append_take_drop_id)

lemma plain_step:
  assumes "plain_state tk tmpl p st" and "\<not> occurs_in (tk_startSequence tk) tmpl" and "p < length tmpl"
  shows "\<exists>st'. tokenize_step tk fresh L tmpl p st = Inr st' \<and> plain_state tk tmpl (Suc p) st'"
proof -
  let ?u = "(track_position tmpl p st)\<lparr>t_skipUntil := None\<rparr>"
  have u: "plain_state tk tmpl p ?u" using assms(1) by (simp add: plain_state_def)
  have "\<not> matchesAt tmpl p (t_start ?u)"
    using assms(2) u matchesAt_occurs by (auto simp: plain_state_def)
  then have scan: "scan_char tk fresh L tmpl p ?u = Inr ?u" using u by (simp add: scan_char_def plain_state_def)
  have "append_char L tmpl p ?u = Inr (?u\<lparr>t_buffer := t_buffer ?u @ [tmpl ! p]\<rparr>)"
    using u by (simp add: append_char_def plain_state_def)
  moreover have "plain_state tk tmpl (Suc p) (?u\<lparr>t_buffer := t_buffer ?u @ [tmpl ! p]\<rparr>)"
    using u assms(3) by (simp add: plain_state_def take_Suc_conv_app_nth)
  moreover have "t_skipUntil (track_position tmpl p st) = None" using assms(1) by (simp add: plain_state_def)
  ultimately show ?thesis unfolding tokenize_step_def Let_def by (simp add: scan)
qed

lemma plain_loop:
  "plain_state tk tmpl p st \<Longrightarrow> \<not> occurs_in (tk_startSequence tk) tmpl \<Longrightarrow> p \<le> length tmpl \<Longrightarrow>
     \<exists>st'. tokenize_loop tk fresh L tmpl [p..<length tmpl] st = Inr st' \<and> plain_state tk tmpl (length tmpl) st'"
proof (induction "length tmpl - p" arbitrary: p st)
  case (Suc k)
  then have p: "p < length tmpl" by simp
  from plain_step [OF Suc.prems(1,2) p]
  obtain u where "tokenize_step tk fresh L tmpl p st = Inr u" "plain_state tk tmpl (Suc p) u" by blast
  with Suc p show ?case by (simp add: upt_conv_Cons)
qed simp

lemma plain_text_parse:
  assumes "\<not> occurs_in (tk_startSequence tk) tmpl" and "tk_stopSequence tk \<noteq> []"
    and "length tmpl \<le> tkl_maxInputBytes L" and "0 < tkl_maxNodes L"
    and "length (tk_startSequence tk) \<le> tkl_maxDelimiterBytes L"
    and "length (tk_stopSequence tk) \<le> tkl_maxDelimiterBytes L"
  shows "tokenize tk fresh tmpl (Some r) L esc =
    Inr (set_partials (partials r)
      (set_children (if tmpl = [] then [] else [Some (tail_node esc tmpl)]) parsed_root))"
proof -
  have ne: "tk_startSequence tk \<noteq> []" using assms(1) unfolding occurs_in_def by (metis append_Nil)
  have "plain_state tk tmpl 0 (initial_state tk)" by (simp add: plain_state_def initial_state_def)
  from plain_loop [OF this assms(1)] obtain st where
    loop: "tokenize_loop tk fresh L tmpl [0..<length tmpl] (initial_state tk) = Inr st"
    and st: "plain_state tk tmpl (length tmpl) st" by blast
  have "tokenize_end L esc st = Inr (set_children (if tmpl = [] then [] else [Some (tail_node esc tmpl)]) parsed_root)"
    using st assms(4)
    by (auto simp: tokenize_end_def plain_state_def appendNode_def push_child_def parsed_root_def)
  then show ?thesis using assms ne loop by (simp add: tokenize_def)
qed

text \<open>
  A template in which the start delimiter does not occur is its own text: the parse
  succeeds and yields the root with one output node holding the template (escaped on
  request), or none when the template is empty; the caller's partials stay.
\<close>

theorem tokenize_plain_text:
  assumes "\<not> occurs_in (tk_startSequence tk) tmpl" and "tk_stopSequence tk \<noteq> []"
    and "length tmpl \<le> tkl_maxInputBytes L" and "0 < tkl_maxNodes L"
    and "length (tk_startSequence tk) \<le> tkl_maxDelimiterBytes L"
    and "length (tk_stopSequence tk) \<le> tkl_maxDelimiterBytes L"
  shows "tokenize tk fresh tmpl (Some r) L esc =
    Inr (set_partials (partials r)
      (set_children (if tmpl = [] then [] else [Some (tail_node esc tmpl)]) parsed_root))"
  by (rule plain_text_parse) (use assms in simp_all)

theorem tokenize_plain_text_witness:
  "tokenize new_tokenizer 0 ''a}} < b'' (Some empty_node) sample_tokenizer_limits True =
     Inr (set_children [Some (tail_node True ''a}} < b'')] parsed_root)"
proof -
  have "\<not> occurs_in (tk_startSequence new_tokenizer) ''a}} < b''"
    unfolding find_sub_None_iff [symmetric] by (simp add: new_tokenizer_def)
  from tokenize_plain_text [OF this, of sample_tokenizer_limits 0 empty_node True] show ?thesis
    by (simp add: new_tokenizer_def sample_tokenizer_limits_def empty_node_def parsed_root_def)
qed

end
