(* ===== verification/Facade_Props.thy ===== *)
theory Facade_Props
  imports Facade Render_Spec Tokenizer_Props
begin

text \<open>
  What the public functions promise: the version number is read back from its spelling, a
  compiled template renders to its meaning whatever the \<open>Mustache\<close> did before, and a template
  without tags is its own text from the source to the output.
\<close>

section \<open>The version number\<close>

lemma isDigit_digit_char: "d < 10 \<Longrightarrow> isDigit (digit_char d)" "d < 10 \<Longrightarrow> of_char (digit_char d) = 48 + d"
  by (simp_all add: isDigit_def digit_char_def)

lemma show_nat_isDigit: "\<forall>c\<in>set (show_nat n). isDigit c"
proof (induction n rule: show_nat.induct)
  case (1 n)
  then show ?case by (subst show_nat.simps) (auto simp: isDigit_digit_char)
qed

text \<open>The component after a run of digits.\<close>

definition digits_from :: "nat \<Rightarrow> string \<Rightarrow> nat" where
  "digits_from a ds = foldl (\<lambda>a c. a * 10 + (of_char c - 48)) a ds"

lemma digits_from_ge: "a \<le> digits_from a ds"
proof (induction ds arbitrary: a)
  case (Cons c ds)
  have "a \<le> a * 10 + (of_char c - 48)" by simp
  also have "\<dots> \<le> digits_from (a * 10 + (of_char c - 48)) ds" by (rule Cons.IH)
  finally show ?case by (simp add: digits_from_def)
qed (simp add: digits_from_def)

lemma digits_from_show_nat: "digits_from 0 (show_nat n) = n"
proof (induction n rule: show_nat.induct)
  case (1 n)
  show ?case
  proof (cases "n < 10")
    case True
    then show ?thesis by (subst show_nat.simps) (simp add: digits_from_def isDigit_digit_char)
  next
    case False
    with 1 have "digits_from 0 (show_nat (n div 10)) = n div 10" by simp
    with False show ?thesis
      by (subst show_nat.simps) (simp add: digits_from_def isDigit_digit_char)
  qed
qed

lemma overflow_guard: "(d::nat) \<le> 9 \<Longrightarrow> (2 ^ 64 - 1 - d) div 10 < a \<longleftrightarrow> \<not> a * 10 + d < 2 ^ 64"
  by (auto simp: div_less_iff_less_mult)

lemma encode_scan_run:
  assumes "i < length cs" and "ds \<noteq> []" and "\<forall>c\<in>set ds. isDigit c" and "cs ! i < 2 ^ 64"
  shows "encode_scan cs i h (ds @ rest) =
     (if digits_from (cs ! i) ds < 2 ^ 64 then encode_scan (cs[i := digits_from (cs ! i) ds]) i True rest else None)"
  using assms
proof (induction ds arbitrary: cs h)
  case (Cons c ds)
  let ?d = "of_char c - 48 :: nat"
  let ?a = "cs ! i * 10 + ?d"
  have d9: "?d \<le> 9" and dig: "isDigit c" using Cons.prems(3) by (auto simp: isDigit_def)
  have guard: "cs ! i > (2 ^ 64 - 1 - ?d) div 10 \<longleftrightarrow> \<not> ?a < 2 ^ 64" using d9 by (rule overflow_guard)
  have step: "encode_scan cs i h ((c # ds) @ rest) =
      (if ?a < 2 ^ 64 then encode_scan (cs[i := ?a]) i True (ds @ rest) else None)"
    by (cases "?a < 2 ^ 64")
      (simp_all only: append_Cons encode_scan.simps Let_def guard dig if_True if_False simp_thms)
  show ?case
  proof (cases "?a < 2 ^ 64")
    case False
    then show ?thesis using step digits_from_ge [of ?a ds] by (simp add: digits_from_def)
  next
    case True
    show ?thesis
    proof (cases "ds = []")
      case True
      with step \<open>?a < 2 ^ 64\<close> show ?thesis by (simp add: digits_from_def)
    next
      case False
      with Cons.IH [of "cs[i := ?a]" True] Cons.prems True step show ?thesis
        by (simp add: digits_from_def)
    qed
  qed
qed simp

text \<open>
  The encoding of a version of three decimal components is major times ten thousand plus
  minor times a hundred plus patch when that fits an \<open>int\<close>, and -1 otherwise.
\<close>

theorem encodeVersion_components:
  "encodeVersion (show_nat a @ ''.'' @ show_nat b @ ''.'' @ show_nat c) =
     (let n = a * 10000 + b * 100 + c in if n < 2 ^ 31 then int n else -1)"
proof -
  let ?B = "2 ^ 64 :: nat"
  have run: "i < 3 \<Longrightarrow> encode_scan (cs[i := 0]) i False (show_nat n @ rest) =
      (if n < ?B then encode_scan (cs[i := n]) i True rest else None)" if "length cs = 3" for cs i n rest
    using that encode_scan_run [of i "cs[i := 0]" "show_nat n" False rest] show_nat_isDigit [of n]
    by (simp add: digits_from_show_nat)
  have dot: "\<not> isDigit CHR ''.''" by (simp add: isDigit_def)
  have "encode_scan [0, 0, 0] 0 False (show_nat a @ ''.'' @ show_nat b @ ''.'' @ show_nat c) =
      (if a < ?B \<and> b < ?B \<and> c < ?B then Some ([a, b, c], 2, True) else None)"
    using run [of "[0, 0, 0]" 0 a "''.'' @ show_nat b @ ''.'' @ show_nat c"]
      run [of "[a, 0, 0]" 1 b "''.'' @ show_nat c"] run [of "[a, b, 0]" 2 c "[]"]
    by (simp add: dot numeral_2_eq_2)
  then show ?thesis
    by (auto simp: encodeVersion_def maxEncoded_def Let_def)
qed

section \<open>Compiled templates\<close>

text \<open>The renderer of a call once it is set up, and the meaning of the call.\<close>

definition call_renderer ::
    "'w renderer \<Rightarrow> LambdaStringMode \<Rightarrow> node \<Rightarrow> data \<Rightarrow> compiled_partials \<Rightarrow> render_limits \<Rightarrow> 'w renderer" where
  "call_renderer s mode root data ps limits =
     (fresh_renderer s)
       \<lparr>r_strings := (r_strings s)(r_nextString s := []), r_nextString := Suc (r_nextString s),
        r_lambdaStringMode := mode, r_node := Some root, r_data := Some data,
        r_output := Some (r_nextString s), r_limits := limits,
        r_partialResolver := Some (compiled_resolver ps)\<rparr>"

definition compiled_meaning ::
    "'w render_env \<Rightarrow> node \<Rightarrow> data \<Rightarrow> compiled_partials \<Rightarrow> render_limits \<Rightarrow> (nat \<times> string) option" where
  "compiled_meaning E root data ps limits =
     map_option (\<lambda>(v, w, fs). (v, w))
       (spec_node (env_to_chars E) False (owned_partials (Some (compiled_resolver ps)) None (Some root))
          (min (maxNestingDepth limits) renderNestingCeiling) 0 [data] (Some root) None False [])"

lemma mode_round: "(if mode_number mode = 0 then ModeTemplate else ModeLiteral) = mode"
  "mode_number mode = 0 \<or> mode_number mode = 1"
  by (cases mode; simp add: mode_number_def)+

lemma compiled_call_eq:
  "compiled_call E mode root data ps limits (fresh_renderer s) =
     (case renderer_render E (call_renderer s mode root data ps limits) of
        (Inl e, t) \<Rightarrow> (Inl e, t) | (Inr u, t) \<Rightarrow> (Inr (r_strings t (r_nextString s)), t))"
  using mode_round [of mode]
  by (auto simp: compiled_call_def compiled_setup_def new_string_def setLambdaStringMode_def renderer_init_def
      renderer_clear_def setPartialResolver_def already_rendering_def eff_defs fresh_renderer_def
      new_renderer_def call_renderer_def split: prod.splits sum.splits)

lemma call_renderer_select:
  "\<not> r_rendering (call_renderer s mode root data ps limits)"
  "r_node (call_renderer s mode root data ps limits) = Some root"
  "r_data (call_renderer s mode root data ps limits) = Some data"
  "r_output (call_renderer s mode root data ps limits) = Some (r_nextString s)"
  "r_limits (call_renderer s mode root data ps limits) = limits"
  "r_strings (call_renderer s mode root data ps limits) (r_nextString s) = []"
  by (simp_all add: call_renderer_def fresh_renderer_def new_renderer_def)

lemma call_meaning: "render_meaning E (call_renderer s mode root data ps limits) d = compiled_meaning E root d ps limits"
  by (simp add: render_meaning_def compiled_meaning_def call_renderer_def fresh_renderer_def new_renderer_def)

lemma compiled_call_iff:
  assumes "lambda_free data"
  shows "fst (compiled_call E mode root data ps limits (fresh_renderer s)) = Inr w \<longleftrightarrow>
    (\<exists>v. compiled_meaning E root data ps limits = Some (v, w) \<and> v \<le> maxNodeVisits limits \<and>
       length w \<le> min (maxOutputBytes limits) (env_max_size E))"
proof -
  let ?s = "call_renderer s mode root data ps limits"
  have run: "case compiled_meaning E root data ps limits of
       None \<Rightarrow> fails (renderer_render E) ?s
     | Some (v, w) \<Rightarrow>
         if v \<le> maxNodeVisits (r_limits ?s) \<and>
            length (r_strings ?s (r_nextString s)) + length w \<le> min (maxOutputBytes (r_limits ?s)) (env_max_size E)
         then \<exists>t. renderer_render E ?s = (Inr (), t)
                  \<and> r_strings t = (r_strings ?s)(r_nextString s := r_strings ?s (r_nextString s) @ w)
                  \<and> r_nodeVisits t = v
         else fails (renderer_render E) ?s"
    using render_by_meaning [of ?s data "r_nextString s" E] assms
    by (simp only: call_renderer_select call_meaning) simp
  show ?thesis
  proof (cases "compiled_meaning E root data ps limits")
    case None
    with run show ?thesis by (auto simp: compiled_call_eq fails_def split: prod.splits sum.splits)
  next
    case (Some vw)
    obtain v x where vw: "vw = (v, x)" by (cases vw)
    show ?thesis
    proof (cases "v \<le> maxNodeVisits limits \<and> length x \<le> min (maxOutputBytes limits) (env_max_size E)")
      case True
      with run Some obtain t where "renderer_render E ?s = (Inr (), t)"
        "r_strings t = (r_strings ?s)(r_nextString s := x)"
        by (auto simp: vw call_renderer_select)
      with Some True show ?thesis by (auto simp: compiled_call_eq vw)
    next
      case False
      with run Some have "fails (renderer_render E) ?s" by (auto simp: vw call_renderer_select)
      with Some False show ?thesis
        by (auto simp: compiled_call_eq vw fails_def split: prod.splits sum.splits)
    qed
  qed
qed

text \<open>
  Rendering a compiled template with lambda-free data returns a string exactly when the
  template has a meaning in the data and its visits and its text fit the limits, and the
  string is that meaning: neither the \<open>Mustache\<close> it is called on nor its lambda mode, nor
  what was rendered before, has any part in it.
\<close>

theorem render_compiled_iff:
  assumes "lambda_free data"
  shows "(fst (render_compiled E (Some root) data ps limits m) = Inr w) =
    (\<exists>v. compiled_meaning E root data ps limits = Some (v, w) \<and> v \<le> maxNodeVisits limits \<and>
       length w \<le> min (maxOutputBytes limits) (env_max_size E))"
  using compiled_call_iff [OF assms, of E "r_lambdaStringMode (m_renderer m)" root ps limits "m_renderer m" w]
  by (auto simp: render_compiled_def compiled_empty_def split: prod.splits)

theorem render_compiled_iff_witness:
  "fst (render_compiled sample_env
     (Some (Node TypeRoot FlagNone None [] [Some (make_node TypeVariable ''x'' FlagEscape)] None [] None None None 0 0))
     (DMap [(''x'', DString ''<b'')]) [] default_render_limits
     (new_mustache (new_renderer (\<lambda>_. []) 0 [] 0))) = Inr ''&lt;b''"
  by (subst render_compiled_iff)
    (simp_all add: compiled_meaning_def sample_env_def default_render_limits_def meaning_eval
      renderNestingCeiling_def Let_def)

lemma render_free_iff:
  assumes "lambda_free data"
  shows "fst (render_free E (Some root) data ps limits s) = Inr w \<longleftrightarrow>
    (\<exists>v. compiled_meaning E root data ps limits = Some (v, w) \<and> v \<le> maxNodeVisits limits \<and>
       length w \<le> min (maxOutputBytes limits) (env_max_size E))"
  using compiled_call_iff [OF assms, of E "r_lambdaStringMode (m_renderer (new_mustache s))" root ps limits
      "m_renderer (new_mustache s)" w]
  by (auto simp: render_free_def render_compiled_def compiled_empty_def split: prod.splits)

section \<open>Templates without tags\<close>

definition text_root :: "string \<Rightarrow> node" where
  "text_root text = set_children (if text = [] then [] else [Some (tail_node False text)]) parsed_root"

lemma compile_text:
  assumes "\<not> occurs_in ''{{'' text" and "length text \<le> tkl_maxInputBytes L" and "0 < tkl_maxNodes L"
    and "2 \<le> tkl_maxDelimiterBytes L"
  shows "compile fresh text L = Inr (Some (text_root text))"
proof -
  have "tokenize new_tokenizer fresh text (Some empty_node) L False = Inr (text_root text)"
    using plain_text_parse [of new_tokenizer "text" L fresh empty_node False] assms
    by (simp add: new_tokenizer_def text_root_def empty_node_def parsed_root_def)
  then show ?thesis by (simp add: compile_def mustache_compile_def new_mustache_def)
qed

lemma text_meaning:
  assumes "2 \<le> maxNestingDepth limits"
  shows "compiled_meaning E (text_root text) data ps limits = Some (if text = [] then 1 else 2, text)"
  using assms
  by (simp add: compiled_meaning_def text_root_def parsed_root_def tail_node_def meaning_eval
      renderNestingCeiling_def Let_def)

text \<open>
  A source in which the start delimiter does not occur compiles, and its rendering with
  any lambda-free data and partials is the source itself, whenever source and output are
  within the limits.
\<close>

theorem plain_text_is_itself:
  assumes "\<not> occurs_in ''{{'' text" and "length text \<le> tkl_maxInputBytes L" and "0 < tkl_maxNodes L"
    and "2 \<le> tkl_maxDelimiterBytes L" and "lambda_free data" and "2 \<le> maxNestingDepth limits"
    and "2 \<le> maxNodeVisits limits" and "length text \<le> min (maxOutputBytes limits) (env_max_size E)"
  shows "bind_result (compile fresh text L) (\<lambda>c. fst (render_free E c data ps limits s)) = Inr text"
  using compile_text [OF assms(1-4), of fresh] text_meaning [OF assms(6), of E "text" data ps] assms(7,8)
    render_free_iff [OF assms(5), of E "text_root text" ps limits s "text"]
  by simp

theorem plain_text_is_itself_witness:
  "bind_result (compile 0 ''a }} < b'' default_tokenizer_limits)
     (\<lambda>c. fst (render_free sample_env c DNone [] default_render_limits (new_renderer (\<lambda>_. []) 0 [] 0))) =
   Inr ''a }} < b''"
proof -
  have "\<not> occurs_in ''{{'' ''a }} < b''" unfolding find_sub_None_iff [symmetric] by simp
  then show ?thesis
    by (rule plain_text_is_itself)
      (simp_all add: default_tokenizer_limits_def default_render_limits_def renderNestingCeiling_def sample_env_def)
qed

end
