(* ===== verification/Cli_Props.thy ===== *)
theory Cli_Props
  imports Cli Facade_Props
begin

text \<open>
  What the command line tool promises: files are read whole within their limit, options are
  read back from the arguments that spell them, rendering again changes nothing, a failure
  writes no output and is reported, and a template without tags is copied to the output.
\<close>

section \<open>Reading files\<close>

lemma read_loop_eq:
  "length contents \<le> maxBytes \<Longrightarrow> read_loop path description maxBytes contents rest atEnd =
     (if length contents + length rest > maxBytes
      then Inl (over_limit description path)
      else if atEnd then Inr (contents @ rest)
      else Inl (cannot_read description path))"
proof (induction path description maxBytes contents rest atEnd rule: read_loop.induct)
  case (1 path description maxBytes contents rest atEnd)
  let ?chunk = "take buffer_size rest"
  show ?case
  proof (cases "?chunk \<noteq> [] \<and> length ?chunk > maxBytes - length contents")
    case True
    then show ?thesis using 1(2) by (subst read_loop.simps) (auto simp: Let_def)
  next
    case False
    then have fits: "length contents + length ?chunk \<le> maxBytes" using 1(2) by (cases "?chunk = []") auto
    show ?thesis
    proof (cases "length ?chunk < buffer_size")
      case True
      then have "?chunk = rest" by (simp add: min_def split: if_splits)
      with True False fits 1(2) show ?thesis by (subst read_loop.simps) (auto simp: Let_def)
    next
      case full: False
      have "read_loop path description maxBytes contents rest atEnd =
          read_loop path description maxBytes (contents @ ?chunk) (drop buffer_size rest) atEnd"
        using False full 1(2) by (subst read_loop.simps) (simp only: Let_def not_less [symmetric], simp only: if_False simp_thms)
      also have "\<dots> = (if length (contents @ ?chunk) + length (drop buffer_size rest) > maxBytes
          then Inl (over_limit description path)
          else if atEnd then Inr ((contents @ ?chunk) @ drop buffer_size rest)
          else Inl (cannot_read description path))"
        by (rule 1(1) [OF refl]) (use False full fits 1(2) in auto)
      finally show ?thesis using full by simp
    qed
  qed
qed

text \<open>
  Reading a file returns its bytes exactly when it can be opened, is read to its end, and
  is no longer than the limit; in every other case the tool throws, and a file over the limit
  is refused even if reading it would fail later.
\<close>

theorem readFile_whole:
  "readFile B path description maxBytes s =
     (case cs_read s path of
        CannotOpen n \<Rightarrow>
(Inl (cannot_open B n description path), s)
      | Readable bytes atEnd \<Rightarrow>
          (if maxBytes < length bytes
           then Inl (over_limit description path)
           else if atEnd then Inr bytes
           else Inl (cannot_read description path), s))"
  by (auto simp: readFile_def eff_defs read_loop_eq split: read_outcome.splits)

lemma readFile_eq:
  "cs_read s path = Readable bytes True \<Longrightarrow> length bytes \<le> maxBytes \<Longrightarrow>
     readFile B path description maxBytes s = (Inr bytes, s)"
  by (simp add: readFile_def eff_defs read_loop_eq)

section \<open>Options\<close>

lemma string_less_irrefl: "\<not> string_less a a"
  by (induction a) auto

lemma map_emplace_end:
  "\<forall>k'\<in>fst ` set m. string_less k' k \<and> \<not> string_less k k' \<Longrightarrow> map_emplace k v m = Some (m @ [(k, v)])"
  by (induction k v m rule: map_emplace.induct) (auto simp: string_less_irrefl)

lemma string_less_asym: "string_less a b \<Longrightarrow> \<not> string_less b a"
  by (induction a b rule: string_less.induct) auto

lemma readOptionValue_other:
  assumes "arguments ! index = ''--'' @ name" and "long = ''--'' @ other" and "short = [CHR ''-'', c]"
    and "c \<noteq> CHR ''-''" and "\<not> starts_with (other @ ''='') name" and "name \<noteq> other"
  shows "readOptionValue arguments index short long = Inr None"
  using assms by (simp add: readOptionValue_def Let_def)

lemma readOptionValue_long:
  "index + 1 < length arguments \<Longrightarrow> arguments ! index = long \<Longrightarrow> arguments ! (index + 1) \<noteq> [] \<Longrightarrow>
     readOptionValue arguments index short long = Inr (Some (index + 1, arguments ! (index + 1)))"
  by (simp add: readOptionValue_def Let_def)

lemma match_option_long:
  assumes "v \<noteq> []"
  shows "match_option value_options (pre @ ''--template'' # v # rest) (length pre) = Inr (Some (OptTemplate, Suc (length pre), v))"
    and "match_option value_options (pre @ ''--data'' # v # rest) (length pre) = Inr (Some (OptData, Suc (length pre), v))"
    and "match_option value_options (pre @ ''--output'' # v # rest) (length pre) = Inr (Some (OptOutput, Suc (length pre), v))"
    and "match_option value_options (pre @ ''--repeat'' # v # rest) (length pre) = Inr (Some (OptRepeat, Suc (length pre), v))"
    and "match_option value_options (pre @ ''--partial'' # v # rest) (length pre) = Inr (Some (OptPartial, Suc (length pre), v))"
  using assms
  by (simp_all add: value_options_def nth_append readOptionValue_long readOptionValue_other)

text \<open>An option in its long form with its value as the next argument.\<close>

lemma parse_loop_value:
  assumes "(short, long, kind) \<in> set value_options" and "v \<noteq> []"
  shows "parse_loop (pre @ long # v # rest) (length pre) opt False =
    (case apply_option kind v opt of
       Inl e \<Rightarrow> Inl e
     | Inr opt' \<Rightarrow> parse_loop ((pre @ [long, v]) @ rest) (length (pre @ [long, v])) opt' False)"
proof -
  have "match_option value_options (pre @ long # v # rest) (length pre) = Inr (Some (kind, Suc (length pre), v))"
    using assms match_option_long by (auto simp: value_options_def)
  moreover have "long \<noteq> ''--'' \<and> long \<noteq> ''-h'' \<and> long \<noteq> ''--help'' \<and> long \<noteq> ''-v'' \<and> long \<noteq> ''--version''
      \<and> long \<noteq> ''-r''"
    using assms(1) by (auto simp: value_options_def)
  ultimately show ?thesis by (subst parse_loop.simps) (simp add: Let_def split: sum.split)
qed

lemma parse_loop_end: "parse_loop pre (length pre) opt False = finish_options opt"
  by (subst parse_loop.simps) simp

lemma parse_loop_readable:
  "parse_loop (pre @ ''-r'' # rest) (length pre) opt False =
     parse_loop ((pre @ [''-r'']) @ rest) (length (pre @ [''-r''])) (opt\<lparr>o_deprecatedReadable := True\<rparr>) False"
  by (subst parse_loop.simps) (simp add: Let_def)

text \<open>The arguments that spell options, and the options that can be spelled.\<close>

definition option_arguments :: "cli_options \<Rightarrow> string list" where
  "option_arguments opt =
     [''--template'', o_templatePath opt]
     @ (if o_dataPath opt = [] then [] else [''--data'', o_dataPath opt])
     @ (if o_outputPath opt = [] then [] else [''--output'', o_outputPath opt])
     @ (if o_repetitionsSet opt then [''--repeat'', show_nat (o_repetitions opt)] else [])
     @ (if o_deprecatedReadable opt then [''-r''] else [])
     @ concat (map (\<lambda>(n, p). [''--partial'', n @ ''='' @ p]) (o_partialPaths opt))"

definition spellable :: "cli_options \<Rightarrow> bool" where
  "spellable opt \<longleftrightarrow> o_action opt = ActionRender \<and> o_templatePath opt \<noteq> [] \<and>
     (if o_repetitionsSet opt then 1 \<le> o_repetitions opt \<and> o_repetitions opt \<le> maxRepetitions
      else o_repetitions opt = 1) \<and>
     list_all (\<lambda>(n, p). n \<noteq> [] \<and> CHR ''='' \<notin> set n \<and> p \<noteq> []) (o_partialPaths opt) \<and>
     sorted_wrt string_less (map fst (o_partialPaths opt))"

lemma parseRepetitions_show:
  "1 \<le> n \<Longrightarrow> n \<le> maxRepetitions \<Longrightarrow> parseRepetitions (show_nat n) = Inr n"
  by (simp add: parseRepetitions_def from_chars_show_nat maxRepetitions_def)

lemma addPartial_new:
  assumes "n \<noteq> []" and "CHR ''='' \<notin> set n" and "p \<noteq> []" and "\<forall>k\<in>fst ` set (o_partialPaths opt). string_less k n"
  shows "addPartial (n @ ''='' @ p) opt = Inr (opt\<lparr>o_partialPaths := o_partialPaths opt @ [(n, p)]\<rparr>)"
proof -
  have "takeWhile (\<lambda>c. c \<noteq> CHR ''='') (n @ ''='' @ p) = n" using assms(2) by (induction n) auto
  then have "find_idx (\<lambda>c. c = CHR ''='') (n @ ''='' @ p) = Some (length n)"
    by (simp add: find_idx_eq)
  moreover have "map_emplace n p (o_partialPaths opt) = Some (o_partialPaths opt @ [(n, p)])"
    by (rule map_emplace_end) (use assms(4) string_less_asym in auto)
  ultimately show ?thesis using assms(1,3) by (simp add: addPartial_def Let_def)
qed

lemma parse_loop_partials:
  "list_all (\<lambda>(n, p). n \<noteq> [] \<and> CHR ''='' \<notin> set n \<and> p \<noteq> []) m \<Longrightarrow>
   sorted_wrt string_less (map fst (o_partialPaths opt @ m)) \<Longrightarrow>
   parse_loop (pre @ concat (map (\<lambda>(n, p). [''--partial'', n @ ''='' @ p]) m)) (length pre) opt False =
     finish_options (opt\<lparr>o_partialPaths := o_partialPaths opt @ m\<rparr>)"
proof (induction m arbitrary: pre opt)
  case Nil
  then show ?case using parse_loop_end by simp
next
  case (Cons np m)
  obtain n p where np: "np = (n, p)" by (cases np)
  let ?rest = "concat (map (\<lambda>(n, p). [''--partial'', n @ ''='' @ p]) m)"
  have add: "apply_option OptPartial (n @ ''='' @ p) opt = Inr (opt\<lparr>o_partialPaths := o_partialPaths opt @ [(n, p)]\<rparr>)"
    unfolding apply_option.simps
    by (rule addPartial_new) (use Cons.prems in \<open>auto simp: np sorted_wrt_append\<close>)
  have "parse_loop (pre @ ''--partial'' # (n @ ''='' @ p) # ?rest) (length pre) opt False =
      parse_loop ((pre @ [''--partial'', n @ ''='' @ p]) @ ?rest) (length (pre @ [''--partial'', n @ ''='' @ p]))
        (opt\<lparr>o_partialPaths := o_partialPaths opt @ [(n, p)]\<rparr>) False"
  proof -
    have "(''-l'', ''--partial'', OptPartial) \<in> set value_options" by (simp add: value_options_def)
    from parse_loop_value [OF this, of "n @ ''='' @ p" pre ?rest opt] show ?thesis
      by (simp only: add sum.case) simp
  qed
  also have "\<dots> = finish_options (opt\<lparr>o_partialPaths := o_partialPaths opt @ (n, p) # m\<rparr>)"
    by (subst Cons.IH) (use Cons.prems np in auto)
  finally show ?case by (simp add: np)
qed

text \<open>Each group of arguments in turn.\<close>

lemma parse_loop_optional:
  assumes "(short, long, kind) \<in> set value_options" and "b \<Longrightarrow> v \<noteq> []"
    and "b \<Longrightarrow> apply_option kind v opt = Inr opt'" and "\<not> b \<Longrightarrow> opt' = opt"
  shows "parse_loop (pre @ (if b then [long, v] else []) @ rest) (length pre) opt False =
    parse_loop ((pre @ (if b then [long, v] else [])) @ rest) (length (pre @ (if b then [long, v] else []))) opt' False"
proof (cases b)
  case True
  from parse_loop_value [OF assms(1), of v pre rest opt] show ?thesis
    using True assms(2,3) by simp
qed (use assms(4) in simp)

lemma parse_loop_readable_optional:
  assumes "opt' = (if b then opt\<lparr>o_deprecatedReadable := True\<rparr> else opt)"
  shows "parse_loop (pre @ (if b then [''-r''] else []) @ rest) (length pre) opt False =
    parse_loop ((pre @ (if b then [''-r''] else [])) @ rest) (length (pre @ (if b then [''-r''] else []))) opt' False"
  using assms parse_loop_readable [of pre rest opt] by simp

lemma value_options_mem:
  "(''-t'', ''--template'', OptTemplate) \<in> set value_options" "(''-d'', ''--data'', OptData) \<in> set value_options"
  "(''-o'', ''--output'', OptOutput) \<in> set value_options" "(''-n'', ''--repeat'', OptRepeat) \<in> set value_options"
  by (simp_all add: value_options_def)

text \<open>
  C37. Options spelled as arguments are read back: whatever the paths and names are, also when
  they look like options themselves, the tool reads exactly the options that were meant.
\<close>

theorem parseOptions_arguments:
  assumes "spellable opt"
  shows "parseOptions (option_arguments opt) = Inr opt"
proof -
  let ?p = "concat (map (\<lambda>(n, p). [''--partial'', n @ ''='' @ p]) (o_partialPaths opt))"
  let ?a1 = "[''--template'', o_templatePath opt]"
  let ?d = "o_dataPath opt \<noteq> []" and ?f = "o_outputPath opt \<noteq> []" and ?n = "o_repetitionsSet opt"
  let ?a2 = "if ?d then [''--data'', o_dataPath opt] else []"
  let ?a3 = "if ?f then [''--output'', o_outputPath opt] else []"
  let ?a4 = "if ?n then [''--repeat'', show_nat (o_repetitions opt)] else []"
  let ?a5 = "if o_deprecatedReadable opt then [''-r''] else []"
  define o1 where "o1 = default_options\<lparr>o_templatePath := o_templatePath opt\<rparr>"
  define o2 where "o2 = o1\<lparr>o_dataPath := o_dataPath opt\<rparr>"
  define o3 where "o3 = o2\<lparr>o_outputPath := o_outputPath opt\<rparr>"
  define o4 where "o4 = o3\<lparr>o_repetitions := o_repetitions opt, o_repetitionsSet := ?n\<rparr>"
  define o5 where "o5 = o4\<lparr>o_deprecatedReadable := o_deprecatedReadable opt\<rparr>"
  note defs = o1_def o2_def o3_def o4_def o5_def default_options_def
  have valid: "o_templatePath opt \<noteq> []" "o_action opt = ActionRender"
      "?n \<Longrightarrow> 1 \<le> o_repetitions opt \<and> o_repetitions opt \<le> maxRepetitions" "\<not> ?n \<Longrightarrow> o_repetitions opt = 1"
    using assms by (auto simp: spellable_def split: if_splits)
  have args: "option_arguments opt = ?a1 @ ?a2 @ ?a3 @ ?a4 @ ?a5 @ ?p"
    by (simp add: option_arguments_def)
  have "parseOptions (option_arguments opt) = parse_loop (?a1 @ ?a2 @ ?a3 @ ?a4 @ ?a5 @ ?p) (length ?a1) o1 False"
    unfolding args parseOptions_def
    using parse_loop_value [OF value_options_mem(1) valid(1), of "[]" "?a2 @ ?a3 @ ?a4 @ ?a5 @ ?p" default_options]
    by (simp add: defs)
  also have "\<dots> = parse_loop ((?a1 @ ?a2) @ ?a3 @ ?a4 @ ?a5 @ ?p) (length (?a1 @ ?a2)) o2 False"
    by (rule parse_loop_optional [OF value_options_mem(2)]) (simp_all add: defs)
  also have "\<dots> = parse_loop (((?a1 @ ?a2) @ ?a3) @ ?a4 @ ?a5 @ ?p) (length ((?a1 @ ?a2) @ ?a3)) o3 False"
    by (rule parse_loop_optional [OF value_options_mem(3)]) (simp_all add: defs)
  also have "\<dots> = parse_loop ((((?a1 @ ?a2) @ ?a3) @ ?a4) @ ?a5 @ ?p) (length (((?a1 @ ?a2) @ ?a3) @ ?a4)) o4 False"
    by (rule parse_loop_optional [OF value_options_mem(4)])
      (use valid in \<open>simp_all add: defs parseRepetitions_show\<close>)
  also have "\<dots> = parse_loop (((((?a1 @ ?a2) @ ?a3) @ ?a4) @ ?a5) @ ?p) (length ((((?a1 @ ?a2) @ ?a3) @ ?a4) @ ?a5)) o5 False"
    by (rule parse_loop_readable_optional) (simp add: defs)
  also have "\<dots> = finish_options (o5\<lparr>o_partialPaths := o_partialPaths o5 @ o_partialPaths opt\<rparr>)"
    by (rule parse_loop_partials) (use assms in \<open>auto simp: spellable_def defs\<close>)
  also have "\<dots> = Inr opt"
    using valid by (simp add: finish_options_def defs)
  finally show ?thesis .
qed

theorem parseOptions_arguments_witness:
  "parseOptions [''--template'', ''-h'', ''--repeat'', ''25'', ''--partial'', ''a=--'', ''--partial'', ''b=x=y''] =
     Inr (default_options\<lparr>o_templatePath := ''-h'', o_repetitions := 25, o_repetitionsSet := True,
       o_partialPaths := [(''a'', ''--''), (''b'', ''x=y'')]\<rparr>)"
proof -
  let ?opt = "default_options\<lparr>o_templatePath := ''-h'', o_repetitions := 25, o_repetitionsSet := True,
       o_partialPaths := [(''a'', ''--''), (''b'', ''x=y'')]\<rparr>"
  have "digit_char 2 = CHR ''2''" "digit_char 5 = CHR ''5''" by code_simp+
  then have "show_nat 25 = ''25''" by (simp add: show_nat.simps)
  moreover have "spellable ?opt"
    by (simp add: spellable_def default_options_def maxRepetitions_def)
  ultimately show ?thesis
    using parseOptions_arguments [of ?opt] by (simp add: option_arguments_def default_options_def)
qed

section \<open>Rendering more than once\<close>

text \<open>
  Rendering with a repetition count of one or more returns what rendering once returns,
  for lambda-free data: the extra iterations change nothing.
\<close>

theorem render_repeat_once:
  assumes "lambda_free d"
  shows "(fst (render_repeat E (Some root) d ps limits (Suc n) rendered s) = Inr w) =
    (fst (render_free E (Some root) d ps limits s) = Inr w)"
proof (induction n arbitrary: rendered s)
  case 0
  then show ?case by (auto simp: bind_eff_def ret_def split: prod.splits sum.splits)
next
  case (Suc n)
  obtain r t where once: "render_free E (Some root) d ps limits s = (r, t)" by fastforce
  show ?case
  proof (cases r)
    case (Inl e)
    with once show ?thesis by (simp add: bind_eff_def)
  next
    case (Inr x)
    have "fst (render_repeat E (Some root) d ps limits (Suc (Suc n)) rendered s) =
        fst (render_repeat E (Some root) d ps limits (Suc n) x t)"
      using once Inr by (simp add: bind_eff_def)
    then show ?thesis
      using Suc.IH [of x t] render_free_iff [OF assms, of E root ps limits _ w] by simp
  qed
qed

definition sample_cli_env :: "unit render_env" where
  "sample_cli_env = \<lparr>env_to_chars = (\<lambda>_. ''0''),
     env_lambdas = (\<lambda>_. \<lparr>li_invoke = None, li_invokeLegacy = None, li_invokeScoped = None,
       li_invokeResult = None, li_invokeSectionResult = None\<rparr>),
     env_max_size = 2 ^ 62, env_renderer = 0, env_engine = 0\<rparr>"

lemma sample_env_size: "env_max_size sample_cli_env = 2 ^ 62"
  by (simp only: sample_cli_env_def render_env.simps)

lemma render_text:
  assumes "lambda_free data" and "length t \<le> 64 * 1024 * 1024" and "64 * 1024 * 1024 \<le> env_max_size E"
  shows "fst (render_free E (Some (text_root t)) data ps default_render_limits s) = Inr t"
  using render_free_iff [OF assms(1), of E "text_root t" ps default_render_limits s t]
    text_meaning [of default_render_limits E t data ps] assms(2,3)
  by (simp add: default_render_limits_def renderNestingCeiling_def)

theorem render_repeat_once_witness:
  "fst (render_repeat sample_cli_env (Some (text_root ''hi'')) DNone [] default_render_limits 3 []
      (new_renderer (\<lambda>_. []) 0 [] ())) = Inr ''hi''"
proof -
  have "lambda_free DNone" by simp
  from render_repeat_once [OF this, of sample_cli_env "text_root ''hi''" "[]" default_render_limits 2]
  have "fst (render_repeat sample_cli_env (Some (text_root ''hi'')) DNone [] default_render_limits (Suc 2) []
      (new_renderer (\<lambda>_. []) 0 [] ())) = Inr ''hi''"
    by (simp only: render_text [of DNone "''hi''" sample_cli_env] sample_env_size) (simp add: render_text sample_env_size)
  then show ?thesis by (simp only: Suc_eq_plus1) simp
qed

section \<open>Failures\<close>

text \<open>Reading changes nothing; before the output only a warning is written, to the error stream.\<close>

definition same_output :: "cli_state \<Rightarrow> cli_state \<Rightarrow> bool" where
  "same_output s t \<longleftrightarrow> cs_output t = cs_output s"











text \<open>What a throw may leave behind: the output as it was, or a stream that failed.\<close>

definition silent :: "'a cli \<Rightarrow> bool" where
  "silent m \<longleftrightarrow> (\<forall>s e t. m s = (Inl e, t) \<longrightarrow> same_output s t \<or> os_failed (cs_output t))"


lemma silent_steps: "steps same_output m \<Longrightarrow> silent m"
  by (auto simp: silent_def dest: stepsD)






section \<open>From a file to the output\<close>

text \<open>
  C15. A template file of at most 64 MiB without a start delimiter is copied when a string can
  hold it: the tool ends with 0, the output stream has received exactly the bytes of the file,
  and nothing else has changed.
\<close>

theorem run_copies_plain_text:
  assumes "path \<noteq> []" and "cs_read s path = Readable bytes True" and "\<not> occurs_in ''{{'' bytes"
    and "length bytes \<le> 64 * 1024 * 1024" and "64 * 1024 * 1024 \<le> env_max_size (cb_env B)"
    and "\<not> os_failed (cs_output s)" and "length bytes \<le> os_room (cs_output s)"
  shows "run B [''--template'', path] s =
    (0, s\<lparr>cs_output := (cs_output s)\<lparr>os_text := os_text (cs_output s) @ bytes,
            os_room := os_room (cs_output s) - length bytes\<rparr>\<rparr>)"
proof -
  let ?opt = "default_options\<lparr>o_templatePath := path\<rparr>"
  have opts: "parseOptions [''--template'', path] = Inr ?opt"
    using parse_loop_value [OF value_options_mem(1) assms(1), of "[]" "[]" default_options]
      parse_loop_end [of "[''--template'', path]" ?opt] assms(1)
    by (simp add: parseOptions_def default_options_def finish_options_def)
  have "compile 0 bytes default_tokenizer_limits = Inr (Some (text_root bytes))"
    by (rule compile_text) (use assms(3,4) in \<open>simp_all add: default_tokenizer_limits_def\<close>)
  then have tmpl: "readTemplate B 0 path ''template file'' default_tokenizer_limits s = (Inr (Some (text_root bytes)), s)"
    using readFile_eq [OF assms(2), of "tkl_maxInputBytes default_tokenizer_limits" B "''template file''"] assms(4)
    by (simp add: readTemplate_def bind_eff_def ret_def default_tokenizer_limits_def)
  have "fst (render_repeat (cb_env B) (Some (text_root bytes)) DNone [] default_render_limits 1 []
      (new_renderer (\<lambda>_. []) 0 [] ())) = Inr bytes"
    using render_text [of DNone bytes "cb_env B" "[]" "new_renderer (\<lambda>_. []) 0 [] ()"] assms(4,5)
    by (auto simp: bind_eff_def ret_def split: prod.splits sum.splits)
  then show ?thesis
    using assms(6,7)
    by (simp add: run_def opts run_action_def cli_render_def eff_defs tmpl default_options_def cli_readData_def
        writeOutput_def put_def)
qed

definition sample_build :: cli_build where
  "sample_build = \<lparr>cb_sax = None, cb_yaml = None, cb_extract = (\<lambda>_. None), cb_message = (\<lambda>_. []),
     cb_version = ''1.0.0'', cb_cxx_standard = 17, cb_env = sample_cli_env\<rparr>"

theorem run_copies_plain_text_witness:
  "run sample_build [''--template'', ''a.txt'']
     \<lparr>cs_read = (\<lambda>p. if p = ''a.txt'' then Readable ''1 < 2 }}'' True else CannotOpen 2), cs_create = (\<lambda>_. Inl 13),
      cs_output = \<lparr>os_text = ''> '', os_room = 80, os_failed = False\<rparr>,
      cs_error = \<lparr>os_text = [], os_room = 80, os_failed = False\<rparr>\<rparr> =
   (0, \<lparr>cs_read = (\<lambda>p. if p = ''a.txt'' then Readable ''1 < 2 }}'' True else CannotOpen 2), cs_create = (\<lambda>_. Inl 13),
      cs_output = \<lparr>os_text = ''> 1 < 2 }}'', os_room = 72, os_failed = False\<rparr>,
      cs_error = \<lparr>os_text = [], os_room = 80, os_failed = False\<rparr>\<rparr>)"
proof -
  have tags: "\<not> occurs_in ''{{'' ''1 < 2 }}''" unfolding find_sub_None_iff [symmetric] by simp
  have size: "64 * 1024 * 1024 \<le> env_max_size (cb_env sample_build)"
    by (simp add: sample_build_def sample_env_size)
  show ?thesis
    by (subst run_copies_plain_text [OF _ _ tags _ size]) simp_all
qed

end
