(* ===== verification/Archive_Format.thy ===== *)
theory Archive_Format
  imports Serial
begin

text \<open>
  The outside of an archived template, from src/archive/cista.cpp: the preamble every archive
  begins with, the fingerprint that ties an archive to the layout of the build that wrote it,
  and the checks of the payload's vector headers that come before anything in it is trusted.
  The configuration is that of the library: little-endian, both protections of the payload on.

  What the compiler and the cista library decide (sizes, alignments and member offsets of the
  archived structures, the type version) is the parameter \<open>archive_abi\<close>.
\<close>

section \<open>Limits and failures\<close>

record archive_limits =
  al_maxArchiveBytes :: nat
  al_maxNestingDepth :: nat
  al_maxNodes :: nat
  al_maxTotalStringBytes :: nat
  al_maxDataPartsPerNode :: nat
  al_maxTotalDataParts :: nat

definition default_archive_limits :: archive_limits where
  "default_archive_limits =
     \<lparr>al_maxArchiveBytes = 64 * 1024 * 1024, al_maxNestingDepth = 64, al_maxNodes = 100000,
      al_maxTotalStringBytes = 64 * 1024 * 1024, al_maxDataPartsPerNode = 256,
      al_maxTotalDataParts = 100000\<rparr>"

datatype archive_context = Loading | Writing

definition failArchive :: "archive_context \<Rightarrow> archive_failure_reason \<Rightarrow> string \<Rightarrow> exn" where
  "failArchive context reason message =
     (case context of Loading \<Rightarrow> ArchiveReadException reason message | Writing \<Rightarrow> Exception message)"

definition archive_output_limit :: exn where
  "archive_output_limit = Exception ''Cista archive output byte limit exceeded''"

definition invalid_archive :: "string \<Rightarrow> exn" where
  "invalid_archive message = failArchive Loading InvalidArchive message"

section \<open>Bytes\<close>

definition writeLittleEndian :: "byte list \<Rightarrow> nat \<Rightarrow> 64 word \<Rightarrow> byte list" where
  "writeLittleEndian bytes offset v =
     fold (\<lambda>i bs. bs[offset + i := ucast (drop_bit (i * 8) v)]) [0..<8] bytes"

definition readLittleEndian :: "byte list \<Rightarrow> nat \<Rightarrow> 64 word" where
  "readLittleEndian bytes offset =
     fold (\<lambda>i v. v OR push_bit (i * 8) (ucast (bytes ! (offset + i)))) [0..<8] 0"

section \<open>The fingerprint\<close>

definition archivePreambleSize :: nat where "archivePreambleSize = 24"

definition archivePreambleMagic :: "byte list" where
  "archivePreambleMagic = map byte_of_char ''MUSTARC'' @ [0]"

definition archiveFormatGeneration :: "64 word" where "archiveFormatGeneration = 3"

definition archiveFormatGenerationOffset :: nat where "archiveFormatGenerationOffset = 8"

definition archiveCompatibilityFingerprintOffset :: nat where
  "archiveCompatibilityFingerprintOffset = 16"

definition archiveGraphMagic :: "64 word" where "archiveGraphMagic = 0x4D55535443495354"

definition archiveSchemaVersion :: "32 word" where "archiveSchemaVersion = 2"

definition invalidIndex :: "32 word" where "invalidIndex = 0xFFFFFFFF"

record type_layout =
  tl_sizeof :: nat
  tl_alignof :: nat

record vector_layout =
  vl_vector :: type_layout
  vl_pointer :: type_layout
  vl_el :: nat
  vl_used_size :: nat
  vl_allocated_size :: nat
  vl_self_allocated :: nat
  vl_fill :: "nat list"
  vl_pointer_offset :: nat

text \<open>
  The members of a slice, a node and a partial are listed in the order of the declarations;
  those of the graph, which are read before the graph exists, have a field each.
\<close>

record archive_abi =
  ab_runtime_version :: bool
  ab_integrity :: bool
  ab_data_start :: nat
  ab_hash_t :: type_layout
  ab_void_pointer :: type_layout
  ab_offset_t :: type_layout
  ab_slice :: type_layout
  ab_slice_members :: "nat list"
  ab_node :: type_layout
  ab_node_members :: "nat list"
  ab_partial :: type_layout
  ab_partial_members :: "nat list"
  ab_graph :: type_layout
  ab_graph_header :: "nat list"
  ab_graph_nodes :: nat
  ab_graph_partials :: nat
  ab_graph_strings :: nat
  ab_nodes_vector :: vector_layout
  ab_partials_vector :: vector_layout
  ab_strings_vector :: vector_layout
  ab_type_version :: "64 word"

definition fnv_prime :: "64 word" where "fnv_prime = 1099511628211"

definition fnv_basis :: "64 word" where "fnv_basis = 14695981039346656037"

definition fnv_byte :: "64 word \<Rightarrow> byte \<Rightarrow> 64 word" where
  "fnv_byte hash b = (hash XOR ucast b) * fnv_prime"

definition value_bytes :: "64 word \<Rightarrow> byte list" where
  "value_bytes v = map (\<lambda>i. ucast (drop_bit (i * 8) v)) [0..<8]"

definition appendCompatibilityValue :: "64 word \<Rightarrow> 64 word \<Rightarrow> 64 word" where
  "appendCompatibilityValue hash v = foldl fnv_byte hash (value_bytes v)"

definition appendCompatibilityOffset :: "64 word \<Rightarrow> nat \<Rightarrow> 64 word" where
  "appendCompatibilityOffset hash offset = appendCompatibilityValue hash (of_nat offset)"

definition appendTypeLayout :: "type_layout \<Rightarrow> 64 word \<Rightarrow> 64 word" where
  "appendTypeLayout t hash =
     appendCompatibilityValue (appendCompatibilityValue hash (of_nat (tl_sizeof t))) (of_nat (tl_alignof t))"

definition appendOffsets :: "nat list \<Rightarrow> 64 word \<Rightarrow> 64 word" where
  "appendOffsets offsets hash = foldl appendCompatibilityOffset hash offsets"

definition appendVectorLayout :: "vector_layout \<Rightarrow> 64 word \<Rightarrow> 64 word" where
  "appendVectorLayout v hash =
     appendOffsets ([vl_el v, vl_used_size v, vl_allocated_size v, vl_self_allocated v] @ vl_fill v
                      @ [vl_pointer_offset v])
       (appendTypeLayout (vl_pointer v) (appendTypeLayout (vl_vector v) hash))"

text \<open>
  The representation bits: a version computed at run time goes with the XXH3 checksum, a
  version fixed at compile time with the other. \<open>ab_integrity\<close> says whether the payload has a
  checksum, as it has in every archive of the library.
\<close>

definition archive_representation :: "archive_abi \<Rightarrow> 64 word" where
  "archive_representation abi =
     (if ab_runtime_version abi then push_bit 0 1 else push_bit 1 1)
     OR (if ab_integrity abi
         then push_bit 2 1 OR (if ab_runtime_version abi then push_bit 3 1 else push_bit 4 1)
         else 0)"

definition archiveCompatibilityFingerprint :: "archive_abi \<Rightarrow> 64 word" where
  "archiveCompatibilityFingerprint abi =
     (let hash = appendCompatibilityValue fnv_basis archiveFormatGeneration;
          hash = appendCompatibilityValue hash (ucast archiveSchemaVersion);
          hash = appendCompatibilityValue hash archiveGraphMagic;
          hash = appendCompatibilityValue hash (archive_representation abi);
          hash = appendCompatibilityOffset hash (ab_data_start abi);
          hash = appendTypeLayout (ab_hash_t abi) hash;
          hash = appendCompatibilityValue hash 1;
          hash = appendTypeLayout (ab_void_pointer abi) hash;
          hash = appendTypeLayout (ab_offset_t abi) hash;
          hash = appendOffsets (ab_slice_members abi) (appendTypeLayout (ab_slice abi) hash);
          hash = appendOffsets (ab_node_members abi) (appendTypeLayout (ab_node abi) hash);
          hash = appendOffsets (ab_partial_members abi) (appendTypeLayout (ab_partial abi) hash);
          hash = appendOffsets (ab_graph_header abi @ [ab_graph_nodes abi, ab_graph_partials abi, ab_graph_strings abi])
                   (appendTypeLayout (ab_graph abi) hash);
          hash = appendVectorLayout (ab_nodes_vector abi) hash;
          hash = appendVectorLayout (ab_partials_vector abi) hash;
          hash = appendVectorLayout (ab_strings_vector abi) hash
      in appendCompatibilityValue hash (ab_type_version abi))"

definition archiveCompatibilityTagPrefix :: string where
  "archiveCompatibilityTagPrefix = ''libmustache-cista-v3-''"

definition makeArchiveCompatibilityTag :: "64 word \<Rightarrow> string" where
  "makeArchiveCompatibilityTag fingerprint =
     archiveCompatibilityTagPrefix @
     map (\<lambda>index. ''0123456789abcdef'' ! unat (drop_bit ((15 - index) * 4) fingerprint AND 0xF)) [0..<16]"

definition archivedTemplateCompatibilityTag :: "archive_abi \<Rightarrow> string" where
  "archivedTemplateCompatibilityTag abi = makeArchiveCompatibilityTag (archiveCompatibilityFingerprint abi)"

section \<open>The preamble\<close>

definition frameArchive :: "archive_abi \<Rightarrow> byte list \<Rightarrow> archive_limits \<Rightarrow> byte list result" where
  "frameArchive abi payload limits =
     (if al_maxArchiveBytes limits < archivePreambleSize
         \<or> length payload > al_maxArchiveBytes limits - archivePreambleSize
      then Inl archive_output_limit
      else
        let bytes = archivePreambleMagic @ replicate (archivePreambleSize - length archivePreambleMagic) 0;
            bytes = writeLittleEndian bytes archiveFormatGenerationOffset archiveFormatGeneration;
            bytes = writeLittleEndian bytes archiveCompatibilityFingerprintOffset
                      (archiveCompatibilityFingerprint abi)
        in Inr (bytes @ payload))"

definition readArchivePreamble :: "archive_abi \<Rightarrow> byte list \<Rightarrow> archive_limits \<Rightarrow> byte list result" where
  "readArchivePreamble abi bytes limits =
     (if bytes = [] then Inl (invalid_archive ''Empty Cista archive'')
      else if length bytes > al_maxArchiveBytes limits
        then Inl (failArchive Loading LimitExceeded ''Cista archive input byte limit exceeded'')
      else if length bytes < archivePreambleSize
        then Inl (invalid_archive ''Truncated Cista archive preamble'')
      else if take (length archivePreambleMagic) bytes \<noteq> archivePreambleMagic
        then Inl (invalid_archive ''Invalid Cista archive preamble magic'')
      else if readLittleEndian bytes archiveFormatGenerationOffset \<noteq> archiveFormatGeneration
        then Inl (failArchive Loading UnsupportedFormat ''Unsupported libmustache archive format generation'')
      else if readLittleEndian bytes archiveCompatibilityFingerprintOffset \<noteq> archiveCompatibilityFingerprint abi
        then Inl (failArchive Loading UnsupportedFormat ''Unsupported libmustache archive compatibility'')
      else if length bytes = archivePreambleSize
        then Inl (invalid_archive ''Empty Cista archive payload'')
      else Inr (drop archivePreambleSize bytes))"

section \<open>The payload before it is deserialized\<close>

definition validateArchiveTypeVersion :: "archive_abi \<Rightarrow> byte list \<Rightarrow> archive_context \<Rightarrow> unit result" where
  "validateArchiveTypeVersion abi payload context =
     (if length payload < 8
        then Inl (failArchive context InvalidArchive ''Truncated Cista archive type version'')
      else if readLittleEndian payload 0 \<noteq> ab_type_version abi
        then Inl (failArchive context UnsupportedFormat ''Unsupported Cista archive type version'')
      else Inr ())"

text \<open>A native field of so many bytes, as an unsigned number.\<close>

fun little_endian_value :: "byte list \<Rightarrow> nat" where
  "little_endian_value [] = 0"
| "little_endian_value (b # bs) = unat b + 256 * little_endian_value bs"

definition truncated_graph_header :: exn where
  "truncated_graph_header = invalid_archive ''Truncated Cista archive graph header''"

definition readNativeArchiveField :: "nat \<Rightarrow> byte list \<Rightarrow> nat \<Rightarrow> nat result" where
  "readNativeArchiveField width payload offset =
     (if offset > length payload \<or> width > length payload - offset then Inl truncated_graph_header
      else Inr (little_endian_value (take width (drop offset payload))))"

text \<open>A vector header: the relative offset of its data, two sizes, and the ownership flag.\<close>

record vector_header =
  vh_relativeOffset :: int
  vh_usedSize :: nat
  vh_allocatedSize :: nat
  vh_selfAllocated :: nat

definition null_offset :: int where "null_offset = - (2 ^ 63)"

definition readVectorHeader :: "vector_layout \<Rightarrow> byte list \<Rightarrow> nat \<Rightarrow> vector_header result" where
  "readVectorHeader layout payload vectorOffset =
     bind_result (readNativeArchiveField 8 payload (vectorOffset + vl_el layout + vl_pointer_offset layout)) (\<lambda>rel.
     bind_result (readNativeArchiveField 4 payload (vectorOffset + vl_used_size layout)) (\<lambda>used.
     bind_result (readNativeArchiveField 4 payload (vectorOffset + vl_allocated_size layout)) (\<lambda>allocated.
     bind_result (readNativeArchiveField 1 payload (vectorOffset + vl_self_allocated layout)) (\<lambda>self.
       Inr \<lparr>vh_relativeOffset = sint (word_of_nat rel :: 64 word), vh_usedSize = used,
            vh_allocatedSize = allocated, vh_selfAllocated = self\<rparr>))))"

text \<open>Where the data begins, when the relative offset stays inside the payload.\<close>

definition vector_data_offset :: "nat \<Rightarrow> nat \<Rightarrow> int \<Rightarrow> nat result" where
  "vector_data_offset payload_size pointerOffset rel =
     (if rel < 0 then
        if nat (- (rel + 1)) + 1 > pointerOffset
        then Inl (invalid_archive ''Invalid Cista archive vector pointer'')
        else Inr (pointerOffset - (nat (- (rel + 1)) + 1))
      else if nat rel > payload_size - pointerOffset
        then Inl (invalid_archive ''Invalid Cista archive vector pointer'')
      else Inr (pointerOffset + nat rel))"

definition check_vector_range :: "type_layout \<Rightarrow> nat \<Rightarrow> nat \<Rightarrow> nat \<Rightarrow> nat \<Rightarrow> unit result" where
  "check_vector_range element address payload_size dataOffset usedSize =
     (if usedSize > (2 ^ 64 - 1) div tl_sizeof element
        then Inl (invalid_archive ''Invalid Cista archive vector size'')
      else if dataOffset > payload_size \<or> usedSize * tl_sizeof element > payload_size - dataOffset
        then Inl (invalid_archive ''Invalid Cista archive vector range'')
      else if (address + dataOffset) mod tl_alignof element \<noteq> 0
        then Inl (invalid_archive ''Invalid Cista archive vector alignment'')
      else Inr ())"

definition validateSerializedVector ::
    "type_layout \<Rightarrow> vector_layout \<Rightarrow> nat \<Rightarrow> byte list \<Rightarrow> nat \<Rightarrow> nat \<Rightarrow> unit result" where
  "validateSerializedVector element layout address payload graphOffset vectorOffset =
     bind_result (readVectorHeader layout payload (graphOffset + vectorOffset)) (\<lambda>h.
       if vh_selfAllocated h \<noteq> 0 \<or> vh_allocatedSize h \<noteq> vh_usedSize h
         then Inl (invalid_archive ''Invalid Cista archive vector header'')
       else if vh_relativeOffset h = null_offset
         then throw_if (vh_usedSize h \<noteq> 0) (invalid_archive ''Invalid Cista archive null vector'')
       else if vh_usedSize h = 0
         then Inl (invalid_archive ''Invalid Cista archive empty vector pointer'')
       else
         bind_result (vector_data_offset (length payload)
             (graphOffset + vectorOffset + vl_el layout + vl_pointer_offset layout) (vh_relativeOffset h))
           (\<lambda>dataOffset. check_vector_range element address (length payload) dataOffset (vh_usedSize h)))"

definition byte_layout :: type_layout where
  "byte_layout = \<lparr>tl_sizeof = 1, tl_alignof = 1\<rparr>"

definition validateArchiveGraphLayout :: "archive_abi \<Rightarrow> nat \<Rightarrow> byte list \<Rightarrow> unit result" where
  "validateArchiveGraphLayout abi address payload =
     (if ab_data_start abi > length payload \<or> tl_sizeof (ab_graph abi) > length payload - ab_data_start abi
        then Inl truncated_graph_header
      else
        bind_result (validateSerializedVector (ab_node abi) (ab_nodes_vector abi) address payload
            (ab_data_start abi) (ab_graph_nodes abi)) (\<lambda>_.
        bind_result (validateSerializedVector (ab_partial abi) (ab_partials_vector abi) address payload
            (ab_data_start abi) (ab_graph_partials abi)) (\<lambda>_.
          validateSerializedVector byte_layout (ab_strings_vector abi) address payload
            (ab_data_start abi) (ab_graph_strings abi))))"

end
