(* ===== verification/Archive_Version.thy ===== *)
theory Archive_Version
  imports Archive_Format
begin

text \<open>
  The type version of an archive, from src/archive/cista_version.hpp: a hash of the shape of
  the archived structures, computed at run time in fixed storage so that the public tag, which
  must not throw, needs no allocation. A type met again is hashed by the place of its first
  occurrence. The storage has room for 128 types; more would end the process.

  The hash functions of the cista library and the names the compiler gives to types are
  parameters.
\<close>

section \<open>Types and hashes\<close>

text \<open>
  What the walk sees of a C++ type: how its overloads and compile-time branches classify it,
  the name the library spells it with, and its size. A vector is described by its element
  alone: the overload for vectors never looks at the vector's own name.
\<close>

datatype archive_type =
    VoidPointer string nat
  | PointerTo string nat archive_type
  | Integral string nat
  | Scalar string nat
  | Aggregate string nat "archive_type list"
  | VectorOf archive_type

text \<open>
  The library's hash of a text, and its combination of a hash with one value of a width in
  bytes; several values are combined one after the other.
\<close>

record type_hashing =
  th_hash :: "string \<Rightarrow> 64 word"
  th_combine :: "64 word \<Rightarrow> nat \<Rightarrow> 64 word \<Rightarrow> 64 word"
  th_basis :: "64 word"
  th_static_version :: "64 word"

definition combine_word :: "type_hashing \<Rightarrow> 64 word \<Rightarrow> 64 word \<Rightarrow> 64 word" where
  "combine_word H hash v = th_combine H hash 8 v"

definition combine_text :: "type_hashing \<Rightarrow> 64 word \<Rightarrow> string \<Rightarrow> 64 word" where
  "combine_text H hash t = combine_word H hash (th_hash H t)"

section \<open>The types met so far\<close>

definition archive_type_capacity :: nat where "archive_type_capacity = 128"

text \<open>\<open>add\<close>: the place of a value, and whether it is new; \<open>None\<close> is the end of the process.\<close>

fun first_index :: "64 word \<Rightarrow> 64 word list \<Rightarrow> nat option" where
  "first_index v [] = None"
| "first_index v (w # ws) = (if w = v then Some 0 else map_option Suc (first_index v ws))"

definition type_state_add :: "64 word \<Rightarrow> 64 word list \<Rightarrow> ((nat \<times> bool) \<times> 64 word list) option" where
  "type_state_add v values =
     (case first_index v values of
        Some i \<Rightarrow> Some ((i, False), values)
      | None \<Rightarrow>
          if length values = archive_type_capacity then None
          else Some ((length values, True), values @ [v]))"

section \<open>Names\<close>

text \<open>
  \<open>removeAll\<close>: the scan goes on where a match was cut out, so a match that the cut creates
  further left stays. The strings the code removes are not empty; the guard only makes the
  recursion total.
\<close>

function remove_from :: "string \<Rightarrow> nat \<Rightarrow> string \<Rightarrow> string" where
  "remove_from removed pos name =
     (if removed = [] \<or> pos + length removed > length name then name
      else if take (length removed) (drop pos name) = removed
        then remove_from removed pos (take pos name @ drop (pos + length removed) name)
      else remove_from removed (pos + 1) name)"
  by pat_completeness auto
termination
proof (relation "measure (\<lambda>(removed, pos, name). length name - pos)", goal_cases)
  case (2 removed pos name)
  then have "0 < length removed" and "pos + length removed \<le> length name" by simp_all
  then have "length name - (length removed + pos) < length name - pos" by arith
  with 2 show ?case by simp
next
  case (3 removed pos name)
  then have "0 < length removed" and "pos + length removed \<le> length name" by simp_all
  then have "length name - (pos + 1) < length name - pos" by arith
  with 3 show ?case by simp
qed simp

declare remove_from.simps [simp del]

definition removeAll :: "string \<Rightarrow> string \<Rightarrow> string" where
  "removeAll removed name = remove_from removed 0 name"

definition canonical_type_name :: "string \<Rightarrow> string" where
  "canonical_type_name name =
     removeAll '' '' (removeAll ''const'' (removeAll ''struct''
       (removeAll (''`anonymous-namespace'' @ [CHR 0x27] @ ''::'') (removeAll ''(anonymous namespace)::''
         (removeAll ''{anonymous}::'' name)))))"

definition archiveCanonicalTypeHash :: "type_hashing \<Rightarrow> string \<Rightarrow> nat \<Rightarrow> 64 word" where
  "archiveCanonicalTypeHash H name sz =
     combine_word H (th_hash H (canonical_type_name name)) (of_nat sz)"

section \<open>The walk\<close>

text \<open>A type is entered once; the next time its ordering stands for it.\<close>

definition enter_type ::
    "type_hashing \<Rightarrow> string \<Rightarrow> nat \<Rightarrow> 64 word
       \<Rightarrow> (64 word list \<Rightarrow> (64 word \<times> 64 word list) option)
       \<Rightarrow> 64 word list \<Rightarrow> (64 word \<times> 64 word list) option" where
  "enter_type H name sz hash fresh values =
     (case type_state_add (archiveCanonicalTypeHash H name sz) values of
        None \<Rightarrow> None
      | Some ((place, inserted), values') \<Rightarrow>
          if \<not> inserted then Some (th_combine H hash 4 (of_nat place), values') else fresh values')"

fun archiveRuntimeTypeHash ::
      "type_hashing \<Rightarrow> archive_type \<Rightarrow> 64 word \<Rightarrow> 64 word list \<Rightarrow> (64 word \<times> 64 word list) option"
  and archiveRuntimeFieldsHash ::
      "type_hashing \<Rightarrow> archive_type list \<Rightarrow> 64 word \<Rightarrow> 64 word list \<Rightarrow> (64 word \<times> 64 word list) option"
where
  "archiveRuntimeTypeHash H (VoidPointer name sz) hash values =
     enter_type H name sz hash (\<lambda>vs. Some (combine_text H hash ''void*'', vs)) values"
| "archiveRuntimeTypeHash H (PointerTo name sz t) hash values =
     enter_type H name sz hash (archiveRuntimeTypeHash H t (combine_text H hash ''pointer'')) values"
| "archiveRuntimeTypeHash H (Integral name sz) hash values =
     enter_type H name sz hash
       (\<lambda>vs. Some (combine_word H (combine_text H hash ''i'') (of_nat sz), vs)) values"
| "archiveRuntimeTypeHash H (Scalar name sz) hash values =
     enter_type H name sz hash
       (\<lambda>vs. Some (combine_word H hash (archiveCanonicalTypeHash H name sz), vs)) values"
| "archiveRuntimeTypeHash H (Aggregate name sz ts) hash values =
     enter_type H name sz hash (archiveRuntimeFieldsHash H ts (combine_text H hash ''struct'')) values"
| "archiveRuntimeTypeHash H (VectorOf t) hash values =
     archiveRuntimeTypeHash H t (combine_text H hash ''vector'') values"
| "archiveRuntimeFieldsHash H [] hash values = Some (hash, values)"
| "archiveRuntimeFieldsHash H (t # ts) hash values =
     (case archiveRuntimeTypeHash H t hash values of
        None \<Rightarrow> None
      | Some (hash', values') \<Rightarrow> archiveRuntimeFieldsHash H ts hash' values')"

section \<open>The archived structures\<close>

text \<open>
  The members of the structures in the order of their declarations; \<open>names\<close> is what the
  library spells a type as.
\<close>

definition uint_type :: "(string \<Rightarrow> string) \<Rightarrow> string \<Rightarrow> nat \<Rightarrow> archive_type" where
  "uint_type names t sz = Integral (names t) sz"

definition slice_type :: "archive_abi \<Rightarrow> (string \<Rightarrow> string) \<Rightarrow> archive_type" where
  "slice_type abi names =
     Aggregate (names ''ArchiveSlice'') (tl_sizeof (ab_slice abi))
       [uint_type names ''uint32_t'' 4, uint_type names ''uint32_t'' 4]"

definition node_graph_type :: "archive_abi \<Rightarrow> (string \<Rightarrow> string) \<Rightarrow> archive_type" where
  "node_graph_type abi names =
     Aggregate (names ''ArchiveNode'') (tl_sizeof (ab_node abi))
       (replicate 4 (slice_type abi names)
        @ replicate 2 (uint_type names ''uint32_t'' 4)
        @ replicate 2 (uint_type names ''uint16_t'' 2)
        @ replicate 4 (uint_type names ''uint8_t'' 1))"

definition partial_type :: "archive_abi \<Rightarrow> (string \<Rightarrow> string) \<Rightarrow> archive_type" where
  "partial_type abi names =
     Aggregate (names ''ArchivePartial'') (tl_sizeof (ab_partial abi))
       [slice_type abi names, uint_type names ''uint32_t'' 4]"

definition graph_type :: "archive_abi \<Rightarrow> (string \<Rightarrow> string) \<Rightarrow> archive_type" where
  "graph_type abi names =
     Aggregate (names ''ArchiveGraph'') (tl_sizeof (ab_graph abi))
       [uint_type names ''uint64_t'' 8, uint_type names ''uint32_t'' 4, uint_type names ''uint32_t'' 4,
        uint_type names ''uint64_t'' 8, VectorOf (node_graph_type abi names),
        VectorOf (partial_type abi names), VectorOf (uint_type names ''uint8_t'' 1)]"

definition archiveRuntimeTypeVersion ::
    "type_hashing \<Rightarrow> archive_abi \<Rightarrow> (string \<Rightarrow> string) \<Rightarrow> 64 word option" where
  "archiveRuntimeTypeVersion H abi names =
     map_option fst (archiveRuntimeTypeHash H (graph_type abi names) (th_basis H) [])"

text \<open>Builds without the run-time version use the library's compile-time hash.\<close>

definition archiveTypeVersion ::
    "type_hashing \<Rightarrow> archive_abi \<Rightarrow> (string \<Rightarrow> string) \<Rightarrow> 64 word option" where
  "archiveTypeVersion H abi names =
     (if ab_runtime_version abi then archiveRuntimeTypeVersion H abi names
      else Some (th_static_version H))"

section \<open>Properties\<close>

text \<open>
  A reference for \<open>removeAll\<close> without positions: the matches of the text, from left to right
  and without overlaps, are left out.
\<close>

function strip_all :: "string \<Rightarrow> string \<Rightarrow> string" where
  "strip_all r [] = []"
| "strip_all r (c # cs) =
     (if r \<noteq> [] \<and> take (length r) (c # cs) = r then strip_all r (drop (length r) (c # cs))
      else c # strip_all r cs)"
  by pat_completeness auto
termination
  by (relation "measure (\<lambda>(r, s). length s)") (auto simp: neq_Nil_conv)

lemma strip_all_short:
  assumes "length s < length r"
  shows "strip_all r s = s"
  using assms by (induction r s rule: strip_all.induct) (auto dest: arg_cong [of _ _ length])

lemma remove_from_strip:
  assumes "r \<noteq> []" and "pos \<le> length name"
  shows "remove_from r pos name = take pos name @ strip_all r (drop pos name)"
  using assms
proof (induction r pos name rule: remove_from.induct)
  case (1 r pos name)
  have step: "remove_from r pos name =
      (if pos + length r > length name then name
       else if take (length r) (drop pos name) = r
         then remove_from r pos (take pos name @ drop (pos + length r) name)
       else remove_from r (pos + 1) name)"
    using 1(3) by (subst remove_from.simps) simp
  show ?case
  proof (cases "pos + length r > length name")
    case True
    then show ?thesis using 1(4) by (simp add: step strip_all_short)
  next
    case False
    from 1(3) False have "0 < length r" and "pos + length r \<le> length name" by simp_all
    then have len: "pos < length name" by arith
    then obtain c cs where cs: "drop pos name = c # cs"
      by (cases "drop pos name") auto
    have tail: "drop (Suc pos) name = cs" using cs by (metis drop_Suc list.sel(3) tl_drop)
    have head: "name ! pos = c" using cs len by (metis Cons_nth_drop_Suc list.inject)
    show ?thesis
    proof (cases "take (length r) (drop pos name) = r")
      case True
      have "drop (length r) (c # cs) = drop (pos + length r) name"
        unfolding cs [symmetric] by (simp add: add.commute)
      moreover have "strip_all r (c # cs) = strip_all r (drop (length r) (c # cs))"
        using True 1(3) by (simp add: cs)
      ultimately show ?thesis
        using True False 1(1) 1(3) len by (simp add: step cs)
    next
      case no: False
      have "strip_all r (c # cs) = c # strip_all r cs" using no by (simp add: cs)
      then show ?thesis
        using no False 1(2) 1(3) len by (simp add: step cs tail take_Suc_conv_app_nth head)
    qed
  qed
qed

lemma removeAll_strip_all: "r \<noteq> [] \<Longrightarrow> removeAll r name = strip_all r name"
  by (simp add: removeAll_def remove_from_strip)

lemma strip_all_char: "strip_all [c] s = filter (\<lambda>d. d \<noteq> c) s"
  by (induction s) auto

lemma canonical_type_name_no_space: "CHR '' '' \<notin> set (canonical_type_name name)"
  by (simp add: canonical_type_name_def removeAll_strip_all strip_all_char)

text \<open>The types a walk may enter, counted with repetitions.\<close>

fun type_count :: "archive_type \<Rightarrow> nat" where
  "type_count (VoidPointer name sz) = 1"
| "type_count (PointerTo name sz t) = 1 + type_count t"
| "type_count (Integral name sz) = 1"
| "type_count (Scalar name sz) = 1"
| "type_count (Aggregate name sz ts) = 1 + sum_list (map type_count ts)"
| "type_count (VectorOf t) = type_count t"

definition walk_within :: "nat \<Rightarrow> nat \<Rightarrow> (64 word \<times> 64 word list) option \<Rightarrow> bool" where
  "walk_within used n r \<longleftrightarrow> (\<exists>hash vs. r = Some (hash, vs) \<and> distinct vs \<and> length vs \<le> used + n)"

lemma first_index_None: "first_index v vs = None \<longleftrightarrow> v \<notin> set vs"
  by (induction vs) auto

lemma enter_type_within:
  assumes room: "length vs + (1 + n) \<le> archive_type_capacity" and "distinct vs"
    and fresh: "\<And>ws. distinct ws \<Longrightarrow> length ws = length vs + 1 \<Longrightarrow> walk_within (length ws) n (f ws)"
  shows "walk_within (length vs) (1 + n) (enter_type H name sz hash f vs)"
proof (cases "first_index (archiveCanonicalTypeHash H name sz) vs")
  case (Some i)
  then show ?thesis using assms(2) by (simp add: enter_type_def type_state_add_def walk_within_def)
next
  case None
  then have "distinct (vs @ [archiveCanonicalTypeHash H name sz])"
    using assms(2) by (simp add: first_index_None)
  from fresh [OF this] None room show ?thesis
    by (simp add: enter_type_def type_state_add_def walk_within_def)
qed

lemma walk_within_Some: "walk_within used n (Some (hash, vs)) \<longleftrightarrow> distinct vs \<and> length vs \<le> used + n"
  by (simp add: walk_within_def)

lemma type_walk_within:
  "distinct vs \<Longrightarrow> length vs + type_count t \<le> archive_type_capacity \<Longrightarrow>
     walk_within (length vs) (type_count t) (archiveRuntimeTypeHash H t hash vs)"
  "distinct vs \<Longrightarrow> length vs + sum_list (map type_count ts) \<le> archive_type_capacity \<Longrightarrow>
     walk_within (length vs) (sum_list (map type_count ts)) (archiveRuntimeFieldsHash H ts hash vs)"
proof (induction H t hash vs and H ts hash vs rule: archiveRuntimeTypeHash_archiveRuntimeFieldsHash.induct)
  case (2 H name sz t hash vs)
  have "walk_within (length ws) (type_count t) (archiveRuntimeTypeHash H t (combine_text H hash ''pointer'') ws)"
    if "distinct ws" and "length ws = length vs + 1" for ws
    using 2(1) [of ws] 2(3) that by simp
  from enter_type_within [OF _ 2(2) this] 2(3) show ?case by simp
next
  case (5 H name sz ts hash vs)
  have "walk_within (length ws) (sum_list (map type_count ts))
      (archiveRuntimeFieldsHash H ts (combine_text H hash ''struct'') ws)"
    if "distinct ws" and "length ws = length vs + 1" for ws
    using 5(1) [of ws] 5(3) that by simp
  from enter_type_within [OF _ 5(2) this] 5(3) show ?case by simp
next
  case (8 H t ts hash vs)
  then obtain h ws where w: "archiveRuntimeTypeHash H t hash vs = Some (h, ws)"
      "distinct ws" "length ws \<le> length vs + type_count t"
    by (auto simp: walk_within_def)
  with 8 have "walk_within (length ws) (sum_list (map type_count ts)) (archiveRuntimeFieldsHash H ts h ws)"
    by simp
  with w show ?case by (auto simp: walk_within_def)
qed (auto simp: walk_within_Some intro!: enter_type_within [of _ 0, simplified])

text \<open>
  C35. The run-time type version always exists: the storage for types never runs full, whatever
  the hash function is (even one whose values never collide) and whatever names and sizes the
  compiler gives to the archived structures. The public tag, which is declared not to throw,
  therefore never ends the process.
\<close>

theorem type_version_never_terminates:
  "\<exists>v. archiveTypeVersion H abi names = Some v"
proof -
  have "type_count (graph_type abi names) \<le> archive_type_capacity"
    by (simp add: graph_type_def node_graph_type_def partial_type_def slice_type_def uint_type_def
        archive_type_capacity_def numeral_eq_Suc)
  then have "walk_within 0 (type_count (graph_type abi names))
      (archiveRuntimeTypeHash H (graph_type abi names) (th_basis H) [])"
    using type_walk_within(1) [of "[]" "graph_type abi names" H "th_basis H"] by simp
  then show ?thesis
    by (auto simp: archiveTypeVersion_def archiveRuntimeTypeVersion_def walk_within_def)
qed

end
