(* ===== verification/Archive_Graph.thy ===== *)
theory Archive_Graph
  imports Archive_Format Renderer "HOL-Library.Char_ord" "HOL-Library.List_Lexorder"
begin

text \<open>
  The graph an archive holds, from src/archive/cista_version.hpp and src/archive/cista.cpp:
  flat tables of nodes, partials and string bytes that refer to each other by index. First the
  validator that every archive passes before it is used, then the views the renderer reads a
  validated graph through.

  Strings compare by their bytes, unsigned, as \<open>std::string_view\<close> does; that is the order of
  char lists of the library theories imported here.
\<close>

section \<open>The tables\<close>

record archive_slice =
  as_offset :: "32 word"
  as_length :: "32 word"

record archive_node =
  an_data :: archive_slice
  an_startSequence :: archive_slice
  an_stopSequence :: archive_slice
  an_originalSectionText :: archive_slice
  an_firstChild :: "32 word"
  an_nextSibling :: "32 word"
  an_type :: "16 word"
  an_flags :: "16 word"
  an_presence :: "8 word"
  an_reserved0 :: "8 word"
  an_reserved1 :: "8 word"
  an_reserved2 :: "8 word"

record archive_partial =
  ap_name :: archive_slice
  ap_root :: "32 word"

record archive_graph =
  ag_magic :: "64 word"
  ag_version :: "32 word"
  ag_root :: "32 word"
  ag_serializedSize :: "64 word"
  ag_nodes :: "archive_node list"
  ag_partials :: "archive_partial list"
  ag_strings :: string

definition empty_slice :: archive_slice where
  "empty_slice = \<lparr>as_offset = 0, as_length = 0\<rparr>"

definition new_archive_node :: archive_node where
  "new_archive_node =
     \<lparr>an_data = empty_slice, an_startSequence = empty_slice, an_stopSequence = empty_slice,
      an_originalSectionText = empty_slice, an_firstChild = invalidIndex, an_nextSibling = invalidIndex,
      an_type = 0, an_flags = 0, an_presence = 0, an_reserved0 = 0, an_reserved1 = 0, an_reserved2 = 0\<rparr>"

definition new_archive_graph :: archive_graph where
  "new_archive_graph =
     \<lparr>ag_magic = archiveGraphMagic, ag_version = archiveSchemaVersion, ag_root = 0,
      ag_serializedSize = 0, ag_nodes = [], ag_partials = [], ag_strings = []\<rparr>"

definition HasData :: "8 word" where "HasData = 1"
definition HasStartSequence :: "8 word" where "HasStartSequence = 2"
definition HasStopSequence :: "8 word" where "HasStopSequence = 4"
definition HasOriginalSectionText :: "8 word" where "HasOriginalSectionText = 8"

lemmas presence_defs = HasData_def HasStartSequence_def HasStopSequence_def HasOriginalSectionText_def

definition has_presence :: "archive_node \<Rightarrow> 8 word \<Rightarrow> bool" where
  "has_presence n b \<longleftrightarrow> an_presence n AND b \<noteq> 0"

definition graph_node :: "archive_graph \<Rightarrow> 32 word \<Rightarrow> archive_node" where
  "graph_node g index = ag_nodes g ! unat index"

definition archiveSliceView :: "archive_graph \<Rightarrow> archive_slice \<Rightarrow> string" where
  "archiveSliceView g v =
     (if as_length v = 0 then []
      else take (unat (as_length v)) (drop (unat (as_offset v)) (ag_strings g)))"

section \<open>The validator\<close>

text \<open>
  The working state of \<open>ArchiveValidator\<close>: the state of each node (0 untouched, 1 being
  visited, 2 done) and the two counters.
\<close>

record validator =
  av_states :: "nat list"
  av_nodes :: nat
  av_dataParts :: nat

type_synonym 'a vd = "(validator, 'a) eff"

text \<open>What a validator is made with: graph, limits, context.\<close>

record validation =
  va_graph :: archive_graph
  va_limits :: archive_limits
  va_context :: archive_context

definition av_fail :: "validation \<Rightarrow> archive_failure_reason \<Rightarrow> string \<Rightarrow> exn" where
  "av_fail V reason message = failArchive (va_context V) reason message"

text \<open>The failures by message; only the reason matters to a caller.\<close>

definition av_invalid :: "validation \<Rightarrow> string \<Rightarrow> exn" where
  "av_invalid V message = av_fail V InvalidArchive message"

definition av_exceeded :: "validation \<Rightarrow> string \<Rightarrow> exn" where
  "av_exceeded V message = av_fail V LimitExceeded message"

definition validateString :: "validation \<Rightarrow> archive_slice \<Rightarrow> string result" where
  "validateString V v =
     (if unat (as_offset v) > length (ag_strings (va_graph V))
         \<or> unat (as_length v) > length (ag_strings (va_graph V)) - unat (as_offset v)
      then Inl (av_invalid V ''Invalid Cista archive string range'')
      else Inr (archiveSliceView (va_graph V) v))"

definition node_type_of :: "archive_node \<Rightarrow> node_type" where
  "node_type_of n = node_type_of_value (unat (an_type n))"

definition node_flags_of :: "archive_node \<Rightarrow> int" where
  "node_flags_of n = uint (an_flags n)"

text \<open>Entering a node: bounds, nesting, count, and the mark that keeps trees disjoint.\<close>

definition enterNode :: "validation \<Rightarrow> 32 word \<Rightarrow> nat \<Rightarrow> unit vd" where
  "enterNode V index depth =
     then_eff (throw_when (\<lambda>_. unat index \<ge> length (ag_nodes (va_graph V)))
                (av_invalid V ''Invalid Cista archive node index''))
    (then_eff (throw_when (\<lambda>_. depth \<ge> al_maxNestingDepth (va_limits V) \<or> depth \<ge> renderNestingCeiling)
                (av_exceeded V ''Cista archive nesting limit exceeded''))
    (then_eff (throw_when (\<lambda>s. av_nodes s \<ge> al_maxNodes (va_limits V))
                (av_exceeded V ''Cista archive node count limit exceeded''))
    (then_eff (throw_when (\<lambda>s. av_states s ! unat index \<noteq> 0)
                (av_invalid V ''Cista archive nodes must form disjoint trees''))
       (writes (\<lambda>s. s\<lparr>av_states := (av_states s)[unat index := 1], av_nodes := av_nodes s + 1\<rparr>)))))"

definition validateHeader :: "validation \<Rightarrow> archive_node \<Rightarrow> bool \<Rightarrow> unit result" where
  "validateHeader V n metadata =
     (if \<not> isSerializableTypeValue (unat (an_type n))
        then Inl (av_invalid V ''Invalid Cista archive node type'')
      else if invalid_flags (node_type_of n) (node_flags_of n)
        then Inl (av_invalid V ''Invalid Cista archive node flags'')
      else if has_flag (node_flags_of n) FlagPartialIndent \<and> \<not> metadata
        then Inl (av_invalid V ''Invalid Cista archive partial indentation metadata'')
      else if an_presence n AND NOT (HasData OR HasStartSequence OR HasStopSequence OR HasOriginalSectionText) \<noteq> 0
        then Inl (av_invalid V ''Invalid Cista archive node presence bits'')
      else if an_reserved0 n \<noteq> 0 \<or> an_reserved1 n \<noteq> 0 \<or> an_reserved2 n \<noteq> 0
        then Inl (av_invalid V ''Invalid Cista archive reserved bytes'')
      else Inr ())"

definition validateNodeText :: "validation \<Rightarrow> archive_node \<Rightarrow> string result" where
  "validateNodeText V n =
     (let ty = node_type_of n; hasData = has_presence n HasData in
      if (ty = TypeRoot \<and> hasData) \<or> (ty \<noteq> TypeRoot \<and> \<not> hasData)
        then Inl (av_invalid V ''Invalid Cista archive node data'')
      else bind_result (validateString V (an_data n)) (\<lambda>data.
        if \<not> hasData \<and> (as_offset (an_data n) \<noteq> 0 \<or> as_length (an_data n) \<noteq> 0)
          then Inl (av_invalid V ''Invalid absent Cista archive node data'')
        else if an_firstChild n \<noteq> invalidIndex \<and> \<not> typeAllowsChildren ty
          then Inl (av_invalid V ''Invalid Cista archive node children'')
        else Inr data))"

definition invalid_delimiters :: "archive_node \<Rightarrow> bool" where
  "invalid_delimiters n \<longleftrightarrow>
     (let hasStart = has_presence n HasStartSequence; hasStop = has_presence n HasStopSequence in
        hasStart \<noteq> hasStop \<or> ((hasStart \<or> hasStop) \<and> node_type_of n \<noteq> TypeSection) \<or>
        (\<not> hasStart \<and>
           (as_offset (an_startSequence n) \<noteq> 0 \<or> as_length (an_startSequence n) \<noteq> 0
            \<or> as_offset (an_stopSequence n) \<noteq> 0 \<or> as_length (an_stopSequence n) \<noteq> 0)))"

definition invalid_section_text :: "archive_node \<Rightarrow> bool" where
  "invalid_section_text n \<longleftrightarrow>
     (let hasOriginal = has_presence n HasOriginalSectionText in
        (hasOriginal \<and> node_type_of n \<noteq> TypeSection) \<or>
        (\<not> hasOriginal \<and> (as_offset (an_originalSectionText n) \<noteq> 0
                               \<or> as_length (an_originalSectionText n) \<noteq> 0)))"

definition validateSection :: "validation \<Rightarrow> archive_node \<Rightarrow> unit result" where
  "validateSection V n =
     bind_result (validateString V (an_startSequence n)) (\<lambda>_.
     bind_result (validateString V (an_stopSequence n)) (\<lambda>_.
     bind_result (throw_if (invalid_delimiters n) (av_invalid V ''Invalid Cista archive section delimiters'')) (\<lambda>_.
     bind_result (validateString V (an_originalSectionText n)) (\<lambda>_.
       throw_if (invalid_section_text n) (av_invalid V ''Invalid Cista archive original section text'')))))"

text \<open>The checks of a node before its data parts and children, with its data.\<close>

definition validateFields :: "validation \<Rightarrow> archive_node \<Rightarrow> bool \<Rightarrow> string result" where
  "validateFields V n metadata =
     bind_result (validateHeader V n metadata) (\<lambda>_.
     bind_result (validateNodeText V n) (\<lambda>data.
     bind_result (validateSection V n) (\<lambda>_. Inr data)))"

definition validateDataParts :: "validation \<Rightarrow> node_type \<Rightarrow> string \<Rightarrow> unit vd" where
  "validateDataParts V ty data =
     (if \<not> type_and ty TypeHasDot then ret ()
      else
        then_eff (throw_when (\<lambda>_. data_part_count data > al_maxDataPartsPerNode (va_limits V))
                   (av_exceeded V ''Cista archive per-node data-part limit exceeded''))
       (then_eff (throw_when (\<lambda>s. av_dataParts s > al_maxTotalDataParts (va_limits V)
                     \<or> data_part_count data > al_maxTotalDataParts (va_limits V) - av_dataParts s)
                   (av_exceeded V ''Cista archive data-part limit exceeded''))
          (writes (\<lambda>s. s\<lparr>av_dataParts := av_dataParts s + data_part_count data\<rparr>))))"

text \<open>
  Indentation metadata among the children: an output node of blanks directly before a
  partial.
\<close>

definition invalid_indentation_metadata :: "validation \<Rightarrow> exn" where
  "invalid_indentation_metadata V = av_invalid V ''Invalid Cista archive partial indentation metadata''"

definition validateIndentation :: "validation \<Rightarrow> archive_node \<Rightarrow> bool result" where
  "validateIndentation V c =
     (if \<not> has_flag (node_flags_of c) FlagPartialIndent then Inr False
      else if node_type_of c \<noteq> TypeOutput \<or> node_flags_of c \<noteq> (FlagLambdaOnly OR FlagPartialIndent)
              \<or> \<not> has_presence c HasData \<or> an_nextSibling c = invalidIndex
        then Inl (invalid_indentation_metadata V)
      else bind_result (validateString V (an_data c)) (\<lambda>indentation.
        if \<not> list_all is_indent indentation
           \<or> node_type_of (graph_node (va_graph V) (an_nextSibling c)) \<noteq> TypePartial
        then Inl (invalid_indentation_metadata V)
        else Inr True))"

definition validateChild :: "validation \<Rightarrow> 32 word \<Rightarrow> bool result" where
  "validateChild V index =
     (if unat index \<ge> length (ag_nodes (va_graph V))
        then Inl (av_invalid V ''Invalid Cista archive child index'')
      else
        let c = graph_node (va_graph V) index in
        if an_nextSibling c \<noteq> invalidIndex \<and> unat (an_nextSibling c) \<ge> length (ag_nodes (va_graph V))
          then Inl (av_invalid V ''Invalid Cista archive sibling index'')
        else validateIndentation V c)"

text \<open>
  \<open>validateNode\<close> over the validation of its children, and \<open>validateChildren\<close>, the loop over
  the siblings, which calls it back. The recursion follows indices of the archive, which need
  not be well-founded; what ends it is that every node is marked when it is entered. The first
  argument of \<open>validateChildren\<close> bounds the recursion, and the number of nodes plus one is
  enough, as Archive_Valid shows.
\<close>

definition validateNode :: "(32 word \<Rightarrow> nat \<Rightarrow> unit vd) \<Rightarrow> validation \<Rightarrow> 32 word \<Rightarrow> nat \<Rightarrow> bool \<Rightarrow> unit vd" where
  "validateNode below V index depth metadata =
     then_eff (enterNode V index depth)
       (bind_eff (lift_result (validateFields V (graph_node (va_graph V) index) metadata)) (\<lambda>data.
          then_eff (validateDataParts V (node_type_of (graph_node (va_graph V) index)) data)
         (then_eff (below (an_firstChild (graph_node (va_graph V) index)) depth)
            (writes (\<lambda>s. s\<lparr>av_states := (av_states s)[unat index := 2]\<rparr>)))))"

primrec validateChildren :: "nat \<Rightarrow> validation \<Rightarrow> 32 word \<Rightarrow> nat \<Rightarrow> unit vd" where
  "validateChildren 0 V index depth = throw (av_invalid V ''Cista archive nodes must form disjoint trees'')"
| "validateChildren (Suc n) V index depth =
     (if index = invalidIndex then ret ()
      else bind_eff (lift_result (validateChild V index)) (\<lambda>metadata.
        then_eff (validateNode (validateChildren n V) V index (depth + 1) metadata)
          (validateChildren n V (an_nextSibling (graph_node (va_graph V) index)) depth)))"

definition validation_levels :: "validation \<Rightarrow> nat" where
  "validation_levels V = length (ag_nodes (va_graph V)) + 1"

definition validateTree :: "validation \<Rightarrow> 32 word \<Rightarrow> unit vd" where
  "validateTree V index = validateNode (validateChildren (validation_levels V) V) V index 0 False"

definition validateRoot :: "validation \<Rightarrow> 32 word \<Rightarrow> unit vd" where
  "validateRoot V index =
     then_eff (throw_when (\<lambda>_. unat index \<ge> length (ag_nodes (va_graph V))
                  \<or> unat (an_type (graph_node (va_graph V) index)) \<noteq> node_type_value TypeRoot)
                (av_invalid V ''Invalid Cista archive root''))
    (then_eff (throw_when (\<lambda>_. an_nextSibling (graph_node (va_graph V) index) \<noteq> invalidIndex)
                (av_invalid V ''Invalid Cista archive root sibling''))
       (validateTree V index))"

definition validatePartial :: "validation \<Rightarrow> 32 word \<Rightarrow> unit vd" where
  "validatePartial V index =
     then_eff (throw_when (\<lambda>_. unat index \<ge> length (ag_nodes (va_graph V)))
                (av_invalid V ''Invalid Cista archive partial root''))
    (then_eff (throw_when (\<lambda>_. an_nextSibling (graph_node (va_graph V) index) \<noteq> invalidIndex)
                (av_invalid V ''Invalid Cista archive partial root sibling''))
       (validateTree V index))"

text \<open>The loop over the partials, with the name before the current one.\<close>

fun validatePartials :: "validation \<Rightarrow> string option \<Rightarrow> archive_partial list \<Rightarrow> unit vd" where
  "validatePartials V previous [] = ret ()"
| "validatePartials V previous (p # ps) =
     bind_eff (lift_result (validateString V (ap_name p))) (\<lambda>name.
       if name = [] then throw (av_invalid V ''Invalid empty Cista archive partial name'')
       else if (case previous of None \<Rightarrow> False | Some q \<Rightarrow> \<not> q < name)
         then throw (av_invalid V ''Cista archive partial names are not canonical'')
       else then_eff (validatePartial V (ap_root p)) (validatePartials V (Some name) ps))"

definition validateGraphHeader :: "validation \<Rightarrow> nat \<Rightarrow> unit result" where
  "validateGraphHeader V inputBytes =
     (let g = va_graph V in
      if ag_magic g \<noteq> archiveGraphMagic \<or> ag_nodes g = []
        then Inl (av_invalid V ''Invalid Cista archive header'')
      else if ag_version g \<noteq> archiveSchemaVersion
        then Inl (av_fail V UnsupportedFormat ''Unsupported Cista archive schema version'')
      else if length (ag_nodes g) > al_maxNodes (va_limits V)
        then Inl (av_exceeded V ''Cista archive node count limit exceeded'')
      else if inputBytes \<noteq> 0 \<and> unat (ag_serializedSize g) \<noteq> inputBytes
        then Inl (av_invalid V ''Invalid Cista archive encoded length'')
      else if length (ag_strings g) > al_maxTotalStringBytes (va_limits V)
        then Inl (av_exceeded V ''Cista archive string byte limit exceeded'')
      else Inr ())"

definition new_validator :: "archive_graph \<Rightarrow> validator" where
  "new_validator g = \<lparr>av_states = replicate (length (ag_nodes g)) 0, av_nodes = 0, av_dataParts = 0\<rparr>"

definition validateGraph :: "validation \<Rightarrow> unit vd" where
  "validateGraph V =
     then_eff (validateRoot V (ag_root (va_graph V)))
    (then_eff (validatePartials V None (ag_partials (va_graph V)))
       (throw_when (\<lambda>s. av_nodes s \<noteq> length (ag_nodes (va_graph V)))
          (av_invalid V ''Unreachable Cista archive node'')))"

definition validateArchive ::
    "archive_graph \<Rightarrow> archive_limits \<Rightarrow> nat \<Rightarrow> archive_context \<Rightarrow> unit result" where
  "validateArchive g limits inputBytes context =
     (let V = \<lparr>va_graph = g, va_limits = limits, va_context = context\<rparr> in
      bind_result (validateGraphHeader V inputBytes) (\<lambda>_. fst (validateGraph V (new_validator g))))"

section \<open>Views\<close>

text \<open>
  What \<open>ArchiveNodeView\<close> reads of the node at an index. An absent string is \<open>None\<close>. The
  cursor over the dotted components of a name is the record of its fields; \<open>cursor_values\<close> is
  the loop that reads a value and advances.
\<close>

definition view_string :: "archive_graph \<Rightarrow> archive_node \<Rightarrow> archive_slice \<Rightarrow> 8 word \<Rightarrow> string option" where
  "view_string g n v b = (if \<not> has_presence n b then None else Some (archiveSliceView g v))"

definition view_data :: "archive_graph \<Rightarrow> archive_node \<Rightarrow> string option" where
  "view_data g n = view_string g n (an_data n) HasData"

definition view_startSequence :: "archive_graph \<Rightarrow> archive_node \<Rightarrow> string option" where
  "view_startSequence g n = view_string g n (an_startSequence n) HasStartSequence"

definition view_stopSequence :: "archive_graph \<Rightarrow> archive_node \<Rightarrow> string option" where
  "view_stopSequence g n = view_string g n (an_stopSequence n) HasStopSequence"

definition view_originalSectionText :: "archive_graph \<Rightarrow> archive_node \<Rightarrow> string option" where
  "view_originalSectionText g n = view_string g n (an_originalSectionText n) HasOriginalSectionText"

record part_cursor =
  pc_value :: string
  pc_start :: nat
  pc_stop :: "nat option"
  pc_valid :: bool

definition find_dot :: "string \<Rightarrow> nat \<Rightarrow> nat option" where
  "find_dot v start = find_from (\<lambda>c. c = CHR ''.'') v (Some start)"

definition no_parts :: part_cursor where
  "no_parts = \<lparr>pc_value = [], pc_start = 0, pc_stop = None, pc_valid = False\<rparr>"

definition first_part :: "string \<Rightarrow> part_cursor" where
  "first_part v = \<lparr>pc_value = v, pc_start = 0, pc_stop = find_dot v 0, pc_valid = find_dot v 0 \<noteq> None\<rparr>"

definition part_value :: "part_cursor \<Rightarrow> string" where
  "part_value c =
     take (case pc_stop c of None \<Rightarrow> length (pc_value c) - pc_start c | Some stop \<Rightarrow> stop - pc_start c)
       (drop (pc_start c) (pc_value c))"

definition part_advance :: "part_cursor \<Rightarrow> part_cursor" where
  "part_advance c =
     (case pc_stop c of
        None \<Rightarrow> c\<lparr>pc_valid := False\<rparr>
      | Some stop \<Rightarrow> c\<lparr>pc_start := stop + 1, pc_stop := find_dot (pc_value c) (stop + 1)\<rparr>)"

primrec cursor_values :: "nat \<Rightarrow> part_cursor \<Rightarrow> string list" where
  "cursor_values 0 c = []"
| "cursor_values (Suc n) c = (if pc_valid c then part_value c # cursor_values n (part_advance c) else [])"

definition view_dataParts :: "archive_graph \<Rightarrow> archive_node \<Rightarrow> part_cursor" where
  "view_dataParts g n =
     (if \<not> type_and (node_type_of n) TypeHasDot then no_parts else first_part (archiveSliceView g (an_data n)))"

text \<open>
  The renderer is a template over what these views return. The node it sees through them, with
  the nodes its child cursor runs through: the cursor starts at the first child and follows
  the sibling links to the invalid index. The bound on the recursion is the number of nodes,
  which is enough in a validated graph.
\<close>

definition view_node :: "archive_graph \<Rightarrow> archive_node \<Rightarrow> node list \<Rightarrow> node" where
  "view_node g n cs =
     Node (node_type_of n) (node_flags_of n) (view_data g n)
       (cursor_values (data_part_count (archiveSliceView g (an_data n))) (view_dataParts g n))
       (map Some cs) None [] (view_startSequence g n) (view_stopSequence g n)
       (map_option (Buffer 0) (view_originalSectionText g n)) 0
       (case view_originalSectionText g n of None \<Rightarrow> 0 | Some t \<Rightarrow> length t)"

primrec view_children :: "nat \<Rightarrow> archive_graph \<Rightarrow> 32 word \<Rightarrow> node list" where
  "view_children 0 g index = []"
| "view_children (Suc m) g index =
     (if index = invalidIndex then []
      else view_node g (graph_node g index) (view_children m g (an_firstChild (graph_node g index)))
           # view_children m g (an_nextSibling (graph_node g index)))"

definition archive_view :: "archive_graph \<Rightarrow> 32 word \<Rightarrow> node" where
  "archive_view g index =
     view_node g (graph_node g index)
       (view_children (length (ag_nodes g)) g (an_firstChild (graph_node g index)))"

text \<open>\<open>ArchivePartialSource\<close>: the first partial whose name is not less than the one looked up.\<close>

definition archive_partial_lower_bound :: "archive_graph \<Rightarrow> string \<Rightarrow> archive_partial list" where
  "archive_partial_lower_bound g expected =
     dropWhile (\<lambda>p. archiveSliceView g (ap_name p) < expected) (ag_partials g)"

definition archive_partials :: "archive_graph \<Rightarrow> string \<Rightarrow> node option result" where
  "archive_partials g name =
     (case archive_partial_lower_bound g name of
        [] \<Rightarrow> Inr None
      | p # _ \<Rightarrow>
          if archiveSliceView g (ap_name p) \<noteq> name then Inr None
          else Inr (Some (archive_view g (ap_root p))))"

end
