(* ===== verification/Archive_Build.thy ===== *)
theory Archive_Build
  imports Archive_Graph Facade
begin

text \<open>
  \<open>ArchiveBuilder\<close> of src/archive/cista.cpp: a template and its partials are counted against
  every limit first, and then appended to the tables of a graph. The nodes of a tree take
  consecutive indices, parents before children; a source buffer several sections share is
  stored once.
\<close>

section \<open>State\<close>

text \<open>
  The members of the builder. \<open>sourceOffsets\<close> maps the identity of a source buffer to the
  offset of its text, the invalid index until it is appended.
\<close>

record builder =
  bd_graph :: archive_graph
  bd_sourceOffsets :: "(nat \<times> 32 word) list"
  bd_nodeCount :: nat
  bd_partialCount :: nat
  bd_stringBytes :: nat
  bd_dataParts :: nat

type_synonym 'a bd = "(builder, 'a) eff"

definition new_archive_builder :: builder where
  "new_archive_builder =
     \<lparr>bd_graph = new_archive_graph, bd_sourceOffsets = [], bd_nodeCount = 0, bd_partialCount = 0,
      bd_stringBytes = 0, bd_dataParts = 0\<rparr>"

definition max_uint32 :: nat where "max_uint32 = 2 ^ 32 - 1"

section \<open>Counting\<close>

text \<open>\<open>addMinimum\<close> for a list of amounts, from a size reached so far.\<close>

fun add_minimums :: "nat \<Rightarrow> nat list \<Rightarrow> nat \<Rightarrow> nat result" where
  "add_minimums maximum [] minimum = Inr minimum"
| "add_minimums maximum (a # as) minimum =
     (if minimum > maximum \<or> a > maximum - minimum then Inl archive_output_limit
      else add_minimums maximum as (minimum + a))"

definition minimum_size :: "archive_abi \<Rightarrow> archive_limits \<Rightarrow> builder \<Rightarrow> nat result" where
  "minimum_size abi limits s =
     bind_result (add_minimums (al_maxArchiveBytes limits) [ab_data_start abi, tl_sizeof (ab_graph abi)]
         archivePreambleSize) (\<lambda>minimum.
       if bd_nodeCount s > al_maxArchiveBytes limits div tl_sizeof (ab_node abi)
          \<or> bd_partialCount s > al_maxArchiveBytes limits div tl_sizeof (ab_partial abi)
       then Inl archive_output_limit
       else add_minimums (al_maxArchiveBytes limits)
              [bd_nodeCount s * tl_sizeof (ab_node abi), bd_partialCount s * tl_sizeof (ab_partial abi),
               bd_stringBytes s] minimum)"

definition validateMinimumSize :: "archive_abi \<Rightarrow> archive_limits \<Rightarrow> unit bd" where
  "validateMinimumSize abi limits =
     bind_eff (reads (minimum_size abi limits)) (\<lambda>r. then_eff (lift_result r) (ret ()))"

definition addStringBytes :: "archive_abi \<Rightarrow> archive_limits \<Rightarrow> nat \<Rightarrow> unit bd" where
  "addStringBytes abi limits bytes =
     then_eff (throw_when (\<lambda>s. bd_stringBytes s > max_uint32 \<or> bytes > max_uint32 - bd_stringBytes s)
                (Exception ''Cista archive string bytes exceed format limit''))
    (then_eff (throw_when (\<lambda>s. bd_stringBytes s > al_maxTotalStringBytes limits
                  \<or> bytes > al_maxTotalStringBytes limits - bd_stringBytes s)
                (Exception ''Cista archive string byte limit exceeded''))
    (then_eff (writes (\<lambda>s. s\<lparr>bd_stringBytes := bd_stringBytes s + bytes\<rparr>))
       (validateMinimumSize abi limits)))"

definition addPartialName :: "archive_abi \<Rightarrow> archive_limits \<Rightarrow> string \<Rightarrow> unit bd" where
  "addPartialName abi limits name =
     then_eff (throw_when (\<lambda>s. bd_nodeCount s \<ge> al_maxNodes limits
                  \<or> bd_partialCount s \<ge> al_maxNodes limits - bd_nodeCount s)
                (Exception ''Cista archive node count limit exceeded''))
    (then_eff (throw_when (\<lambda>s. bd_partialCount s = max_uint32)
                (Exception ''Cista archive partial count exceeds format limit''))
    (then_eff (writes (\<lambda>s. s\<lparr>bd_partialCount := bd_partialCount s + 1\<rparr>))
    (then_eff (addStringBytes abi limits (length name))
       (validateMinimumSize abi limits))))"

definition addOptionalBytes :: "archive_abi \<Rightarrow> archive_limits \<Rightarrow> string option \<Rightarrow> unit bd" where
  "addOptionalBytes abi limits v =
     (case v of None \<Rightarrow> ret () | Some t \<Rightarrow> addStringBytes abi limits (length t))"

text \<open>A source buffer is counted the first time one of its sections is met.\<close>

definition countSource :: "archive_abi \<Rightarrow> archive_limits \<Rightarrow> node \<Rightarrow> unit bd" where
  "countSource abi limits n =
     (case (originalSectionText n, sectionSource n) of
        (Some t, Some src) \<Rightarrow>
          bind_eff (reads (\<lambda>s. map_of (bd_sourceOffsets s) (buffer_id src))) (\<lambda>known.
            if known \<noteq> None then ret ()
            else then_eff (addStringBytes abi limits (length (buffer_text src)))
                   (writes (\<lambda>s. s\<lparr>bd_sourceOffsets := (buffer_id src, invalidIndex) # bd_sourceOffsets s\<rparr>)))
      | _ \<Rightarrow> ret ())"

definition countDataParts :: "archive_limits \<Rightarrow> node \<Rightarrow> unit bd" where
  "countDataParts limits n =
     (case ndata n of
        None \<Rightarrow> ret ()
      | Some d \<Rightarrow>
          if \<not> (isSerializableType (ntype n) \<and> type_and (ntype n) TypeHasDot) then ret ()
          else
            then_eff (throw_when (\<lambda>_. data_part_count d > al_maxDataPartsPerNode limits)
                       (Exception ''Cista archive per-node data-part limit exceeded''))
           (then_eff (throw_when (\<lambda>s. bd_dataParts s > al_maxTotalDataParts limits
                         \<or> data_part_count d > al_maxTotalDataParts limits - bd_dataParts s)
                       (Exception ''Cista archive data-part limit exceeded''))
              (writes (\<lambda>s. s\<lparr>bd_dataParts := bd_dataParts s + data_part_count d\<rparr>))))"

definition countFields :: "archive_abi \<Rightarrow> archive_limits \<Rightarrow> nat \<Rightarrow> node \<Rightarrow> unit bd" where
  "countFields abi limits depth n =
     then_eff (throw_when (\<lambda>_. depth \<ge> al_maxNestingDepth limits \<or> depth \<ge> renderNestingCeiling)
                (Exception ''Cista archive nesting limit exceeded''))
    (then_eff (throw_when (\<lambda>s. bd_nodeCount s \<ge> al_maxNodes limits \<or> bd_nodeCount s = max_uint32)
                (Exception ''Cista archive node count limit exceeded''))
    (then_eff (writes (\<lambda>s. s\<lparr>bd_nodeCount := bd_nodeCount s + 1\<rparr>))
    (then_eff (validateMinimumSize abi limits)
    (then_eff (addOptionalBytes abi limits (ndata n))
    (then_eff (addOptionalBytes abi limits (startSequence n))
    (then_eff (addOptionalBytes abi limits (stopSequence n))
    (then_eff (countSource abi limits n)
       (countDataParts limits n))))))))"

definition null_archive_child :: exn where
  "null_archive_child = Exception ''Invalid null Cista archive child''"

function countNode :: "archive_abi \<Rightarrow> archive_limits \<Rightarrow> nat \<Rightarrow> node \<Rightarrow> unit bd" where
  "countNode abi limits depth n =
     then_eff (countFields abi limits depth n)
       (each_eff (\<lambda>c. case c of None \<Rightarrow> throw null_archive_child
                            | Some m \<Rightarrow> countNode abi limits (depth + 1) m) (children n))"
  by pat_completeness auto
termination
  by (relation "measure (\<lambda>(abi, limits, depth, n). size n)") (auto simp: size_children)

declare countNode.simps [simp del]

section \<open>Partials\<close>

text \<open>
  \<open>EffectivePartials\<close>, an ordered map: the association list sorted by key. \<open>effective_put\<close> is
  \<open>emplace\<close> of an absent key and assignment to a present one.
\<close>

type_synonym effective_partials = "(string \<times> node) list"

primrec effective_put :: "string \<Rightarrow> node \<Rightarrow> effective_partials \<Rightarrow> effective_partials" where
  "effective_put k v [] = [(k, v)]"
| "effective_put k v (p # ps) =
     (if k < fst p then (k, v) # p # ps
      else if k = fst p then (k, v) # ps
      else p # effective_put k v ps)"

definition name_if_new ::
    "archive_abi \<Rightarrow> archive_limits \<Rightarrow> string \<Rightarrow> effective_partials \<Rightarrow> unit bd" where
  "name_if_new abi limits k effective =
     (if map_of effective k = None then addPartialName abi limits k else ret ())"

text \<open>The root's own partials: the first of a name counts, a null one does not.\<close>

fun collect_fallback ::
    "archive_abi \<Rightarrow> archive_limits \<Rightarrow> partial_map \<Rightarrow> effective_partials \<Rightarrow> effective_partials bd" where
  "collect_fallback abi limits [] effective = ret effective"
| "collect_fallback abi limits ((k, None) # ps) effective = collect_fallback abi limits ps effective"
| "collect_fallback abi limits ((k, Some p) # ps) effective =
     (if map_of effective k = None
      then then_eff (addPartialName abi limits k)
             (collect_fallback abi limits ps (effective_put k p effective))
      else collect_fallback abi limits ps effective)"

text \<open>The caller's partials replace them; a null one does not mask the root's.\<close>

fun collect_overriding ::
    "archive_abi \<Rightarrow> archive_limits \<Rightarrow> partial_map \<Rightarrow> effective_partials \<Rightarrow> effective_partials bd" where
  "collect_overriding abi limits [] effective = ret effective"
| "collect_overriding abi limits ((k, None) # ps) effective = collect_overriding abi limits ps effective"
| "collect_overriding abi limits ((k, Some p) # ps) effective =
     then_eff (name_if_new abi limits k effective)
       (collect_overriding abi limits ps (effective_put k p effective))"

text \<open>Compiled partials: an empty handle is an error.\<close>

fun collect_compiled ::
    "archive_abi \<Rightarrow> archive_limits \<Rightarrow> compiled_partials \<Rightarrow> effective_partials \<Rightarrow> effective_partials bd" where
  "collect_compiled abi limits [] effective = ret effective"
| "collect_compiled abi limits ((k, c) # ps) effective =
     then_eff (name_if_new abi limits k effective)
       (case c of
          None \<Rightarrow> throw (Exception ''Empty compiled partial'')
        | Some root \<Rightarrow> collect_compiled abi limits ps (effective_put k root effective))"

datatype partial_source = OwnedPartials partial_map | CompiledPartials compiled_partials

definition collectEffectivePartials ::
    "archive_abi \<Rightarrow> archive_limits \<Rightarrow> partial_map \<Rightarrow> partial_source \<Rightarrow> effective_partials bd" where
  "collectEffectivePartials abi limits fallback overriding =
     bind_eff (collect_fallback abi limits fallback []) (\<lambda>effective.
       case overriding of
         OwnedPartials ps \<Rightarrow> collect_overriding abi limits ps effective
       | CompiledPartials ps \<Rightarrow> collect_compiled abi limits ps effective)"

section \<open>Appending\<close>

definition appendString :: "string \<Rightarrow> archive_slice bd" where
  "appendString v =
     bind_eff (reads (\<lambda>s. length (ag_strings (bd_graph s)))) (\<lambda>offset.
       then_eff (writes (\<lambda>s. s\<lparr>bd_graph := (bd_graph s)\<lparr>ag_strings := ag_strings (bd_graph s) @ v\<rparr>\<rparr>))
         (ret \<lparr>as_offset = word_of_nat offset, as_length = word_of_nat (length v)\<rparr>))"

text \<open>A string the node has is appended and put in its field, with its presence bit.\<close>

definition appendPresent ::
    "string option \<Rightarrow> 8 word \<Rightarrow> (archive_slice \<Rightarrow> archive_node \<Rightarrow> archive_node) \<Rightarrow> archive_node
       \<Rightarrow> archive_node bd" where
  "appendPresent v b put n =
     (case v of
        None \<Rightarrow> ret n
      | Some t \<Rightarrow>
          bind_eff (appendString t) (\<lambda>slice. ret (put slice (n\<lparr>an_presence := an_presence n OR b\<rparr>))))"

text \<open>The offset of a source buffer, which is appended the first time it is needed.\<close>

definition sourceOffset :: "source_buffer \<Rightarrow> 32 word bd" where
  "sourceOffset src =
     bind_eff (reads (\<lambda>s. map_of (bd_sourceOffsets s) (buffer_id src))) (\<lambda>known.
       case known of
         None \<Rightarrow> throw StdOutOfRange
       | Some offset \<Rightarrow>
           if offset \<noteq> invalidIndex then ret offset
           else bind_eff (appendString (buffer_text src)) (\<lambda>slice.
             then_eff (writes (\<lambda>s. s\<lparr>bd_sourceOffsets := (buffer_id src, as_offset slice) # bd_sourceOffsets s\<rparr>))
               (ret (as_offset slice))))"

definition appendOriginal :: "node \<Rightarrow> archive_node \<Rightarrow> archive_node bd" where
  "appendOriginal n a =
     (case (originalSectionText n, sectionSource n) of
        (Some t, Some src) \<Rightarrow>
          bind_eff (sourceOffset src) (\<lambda>offset.
            ret (a\<lparr>an_presence := an_presence a OR HasOriginalSectionText,
                   an_originalSectionText :=
                     \<lparr>as_offset = word_of_nat (unat offset + sectionBegin n),
                      as_length = word_of_nat (length t)\<rparr>\<rparr>))
      | _ \<Rightarrow> ret a)"

definition appendFields :: "node \<Rightarrow> archive_node bd" where
  "appendFields n =
     bind_eff (appendPresent (ndata n) HasData (\<lambda>v a. a\<lparr>an_data := v\<rparr>)
       (new_archive_node\<lparr>an_type := word_of_nat (node_type_value (ntype n)),
                         an_flags := word_of_int (nflags n)\<rparr>)) (\<lambda>a.
     bind_eff (appendPresent (startSequence n) HasStartSequence (\<lambda>v a. a\<lparr>an_startSequence := v\<rparr>) a) (\<lambda>a.
     bind_eff (appendPresent (stopSequence n) HasStopSequence (\<lambda>v a. a\<lparr>an_stopSequence := v\<rparr>) a) (\<lambda>a.
       appendOriginal n a)))"

text \<open>
  The loop over the children, with the first and the previous child: each child appended by
  \<open>f\<close> is linked from the one before it.
\<close>

definition set_sibling :: "32 word \<Rightarrow> 32 word \<Rightarrow> builder \<Rightarrow> builder" where
  "set_sibling previous i s =
     s\<lparr>bd_graph := (bd_graph s)\<lparr>ag_nodes := (ag_nodes (bd_graph s))
         [unat previous := (ag_nodes (bd_graph s) ! unat previous)\<lparr>an_nextSibling := i\<rparr>]\<rparr>\<rparr>"

primrec link_children ::
    "('c \<Rightarrow> 32 word bd) \<Rightarrow> 'c list \<Rightarrow> 32 word \<Rightarrow> 32 word \<Rightarrow> 32 word bd" where
  "link_children f [] first previous = ret first"
| "link_children f (c # cs) first previous =
     bind_eff (f c) (\<lambda>i.
       if first = invalidIndex then link_children f cs i i
       else then_eff (writes (set_sibling previous i)) (link_children f cs first i))"

lemma link_children_cong [fundef_cong]:
  assumes "xs = ys" and "\<And>x. x \<in> set ys \<Longrightarrow> f x = g x" and "first = first'" and "previous = previous'"
  shows "link_children f xs first previous = link_children g ys first' previous'"
proof -
  have "link_children f ys a b = link_children g ys a b" if "\<And>x. x \<in> set ys \<Longrightarrow> f x = g x" for a b
    using that by (induction ys arbitrary: a b) (simp_all add: fun_eq_iff bind_eff_def then_eff_def split: sum.splits prod.splits)
  with assms show ?thesis by simp
qed

definition appendable :: "node \<Rightarrow> unit bd" where
  "appendable n =
     then_eff (throw_when (\<lambda>s. length (ag_nodes (bd_graph s)) = max_uint32)
                (Exception ''Cista archive node count exceeds format limit''))
    (then_eff (throw_when (\<lambda>_. child n \<noteq> None)
                (Exception ''Cista archive experiment does not support container nodes''))
    (then_eff (throw_when (\<lambda>_. nflags n < 0 \<or> nflags n > 2 ^ 16 - 1)
                (Exception ''Cista archive node flags exceed format limit''))
       (throw_when (\<lambda>_. \<not> isSerializableType (ntype n))
          (Exception ''Invalid Cista archive node type''))))"

definition emplace_node :: "32 word bd" where
  "emplace_node =
     bind_eff (reads (\<lambda>s. length (ag_nodes (bd_graph s)))) (\<lambda>index.
       then_eff (writes (\<lambda>s. s\<lparr>bd_graph := (bd_graph s)\<lparr>ag_nodes := ag_nodes (bd_graph s) @ [new_archive_node]\<rparr>\<rparr>))
         (ret (word_of_nat index)))"

definition set_node :: "32 word \<Rightarrow> archive_node \<Rightarrow> builder \<Rightarrow> builder" where
  "set_node index a s =
     s\<lparr>bd_graph := (bd_graph s)\<lparr>ag_nodes := (ag_nodes (bd_graph s))[unat index := a]\<rparr>\<rparr>"

text \<open>
  \<open>appendNode\<close>. The nodes were counted before, so no child is null here.
\<close>

function archive_appendNode :: "node \<Rightarrow> 32 word bd" where
  "archive_appendNode n =
     then_eff (appendable n)
       (bind_eff emplace_node (\<lambda>index.
        bind_eff (appendFields n) (\<lambda>a.
        bind_eff (link_children (\<lambda>c. case c of None \<Rightarrow> throw null_archive_child | Some m \<Rightarrow> archive_appendNode m)
                   (children n) invalidIndex invalidIndex) (\<lambda>first.
          then_eff (writes (set_node index (a\<lparr>an_firstChild := first\<rparr>))) (ret index)))))"
  by pat_completeness auto
termination
  by (relation "measure size") (auto simp: size_children)

declare archive_appendNode.simps [simp del]

definition appendPartial :: "string \<times> node \<Rightarrow> unit bd" where
  "appendPartial p =
     bind_eff (appendString (fst p)) (\<lambda>name.
     bind_eff (archive_appendNode (snd p)) (\<lambda>root.
       writes (\<lambda>s. s\<lparr>bd_graph := (bd_graph s)\<lparr>ag_partials :=
         ag_partials (bd_graph s) @ [\<lparr>ap_name = name, ap_root = root\<rparr>]\<rparr>\<rparr>)))"

definition buildWithPartials ::
    "archive_abi \<Rightarrow> archive_limits \<Rightarrow> node \<Rightarrow> partial_source \<Rightarrow> archive_graph bd" where
  "buildWithPartials abi limits root partial_source =
     then_eff (validateMinimumSize abi limits)
    (then_eff (countNode abi limits 0 root)
    (bind_eff (collectEffectivePartials abi limits (partials root) partial_source) (\<lambda>effective.
     then_eff (each_eff (\<lambda>p. countNode abi limits 0 (snd p)) effective)
    (bind_eff (archive_appendNode root) (\<lambda>index.
     then_eff (writes (\<lambda>s. s\<lparr>bd_graph := (bd_graph s)\<lparr>ag_root := index\<rparr>\<rparr>))
    (then_eff (each_eff appendPartial effective)
       (reads bd_graph)))))))"

definition buildArchive ::
    "archive_abi \<Rightarrow> archive_limits \<Rightarrow> node \<Rightarrow> partial_source \<Rightarrow> archive_graph result" where
  "buildArchive abi limits root partial_source = fst (buildWithPartials abi limits root partial_source new_archive_builder)"

end
