(* ===== verification/Archive.thy ===== *)
theory Archive
  imports Archive_Build
begin

text \<open>
  Archived templates from end to end: src/archive/cista.cpp from the two targets the cista
  library writes to up to the public functions of src/archived_template.hpp.

  The cista library is the parameter \<open>archive_codec\<close>: what serializing a graph asks of its
  target, its hash, and what its deserializer makes of a payload, an exception with a text or
  a pointer that may be null. \<open>co_address\<close> is where the bytes of a payload lie in memory.
\<close>

section \<open>Targets of the serializer\<close>

text \<open>
  The serializer appends bytes with an alignment, overwrites bytes at a position, and writes
  the checksum of everything from a position on.
\<close>

datatype cista_request =
    RequestWrite "byte list" nat
  | RequestPatch nat "byte list"
  | RequestChecksum nat nat

record archive_codec =
  co_requests :: "archive_graph \<Rightarrow> cista_request list"
  co_hash :: "byte list \<Rightarrow> 64 word"
  co_deserialize :: "byte list \<Rightarrow> string + archive_graph option"
  co_address :: nat

definition max_offset :: nat where "max_offset = 2 ^ 63 - 1"

definition invalid_write :: exn where
  "invalid_write = Exception ''Invalid Cista archive serializer write''"

text \<open>\<open>alignedSize\<close>, the same in both targets.\<close>

definition alignedSize :: "nat \<Rightarrow> nat \<Rightarrow> nat \<Rightarrow> nat result" where
  "alignedSize maximum used alignment =
     (if alignment \<le> 1 then Inr used
      else if used mod alignment = 0 then Inr used
      else if used > maximum \<or> alignment - used mod alignment > maximum - used then Inl archive_output_limit
      else Inr (used + (alignment - used mod alignment)))"

definition write_start :: "nat \<Rightarrow> nat \<Rightarrow> nat \<Rightarrow> nat \<Rightarrow> nat result" where
  "write_start maximum used amount alignment =
     bind_result (alignedSize maximum used alignment) (\<lambda>start.
       if start > maximum \<or> amount > maximum - start \<or> start > max_offset then Inl archive_output_limit
       else Inr start)"

text \<open>\<open>CistaSizeCounter\<close>: the state is the size reached.\<close>

definition counter_write :: "nat \<Rightarrow> byte list \<Rightarrow> nat \<Rightarrow> (nat, nat) eff" where
  "counter_write maximum bytes alignment used =
     (case write_start maximum used (length bytes) alignment of
        Inl e \<Rightarrow> (Inl e, used)
      | Inr start \<Rightarrow> (Inr start, start + length bytes))"

definition counter_patch :: "nat \<Rightarrow> byte list \<Rightarrow> (nat, unit) eff" where
  "counter_patch pos bytes =
     throw_when (\<lambda>used. pos > used \<or> length bytes > used - pos) invalid_write"

definition counter_request :: "nat \<Rightarrow> cista_request \<Rightarrow> (nat, unit) eff" where
  "counter_request maximum r =
     (case r of
        RequestWrite bytes alignment \<Rightarrow> then_eff (counter_write maximum bytes alignment) (ret ())
      | RequestPatch pos bytes \<Rightarrow> counter_patch pos bytes
      | RequestChecksum pos start \<Rightarrow> counter_patch pos (value_bytes 0))"

text \<open>\<open>CistaBoundedBuffer\<close>: the state is the bytes; padding is zero bytes.\<close>

definition buffer_write :: "nat \<Rightarrow> byte list \<Rightarrow> nat \<Rightarrow> (byte list, nat) eff" where
  "buffer_write maximum bytes alignment buf =
     (case write_start maximum (length buf) (length bytes) alignment of
        Inl e \<Rightarrow> (Inl e, buf)
      | Inr start \<Rightarrow> (Inr start, buf @ replicate (start - length buf) 0 @ bytes))"

definition buffer_patch :: "nat \<Rightarrow> byte list \<Rightarrow> (byte list, unit) eff" where
  "buffer_patch pos bytes =
     then_eff (throw_when (\<lambda>buf. pos > length buf \<or> length bytes > length buf - pos) invalid_write)
       (writes (\<lambda>buf. take pos buf @ bytes @ drop (pos + length bytes) buf))"

definition buffer_checksum :: "archive_codec \<Rightarrow> nat \<Rightarrow> byte list \<Rightarrow> 64 word" where
  "buffer_checksum C start buf = co_hash C (drop start buf)"

definition buffer_request :: "archive_codec \<Rightarrow> nat \<Rightarrow> cista_request \<Rightarrow> (byte list, unit) eff" where
  "buffer_request C maximum r =
     (case r of
        RequestWrite bytes alignment \<Rightarrow> then_eff (buffer_write maximum bytes alignment) (ret ())
      | RequestPatch pos bytes \<Rightarrow> buffer_patch pos bytes
      | RequestChecksum pos start \<Rightarrow>
          bind_eff (reads (buffer_checksum C start)) (\<lambda>h. buffer_patch pos (value_bytes h)))"

definition buffer_release :: "nat \<Rightarrow> byte list \<Rightarrow> byte list result" where
  "buffer_release expected buf =
     (if length buf \<noteq> expected then Inl (Exception ''Cista archive size changed while framing'') else Inr buf)"

definition writeArchiveTypeVersion :: "archive_abi \<Rightarrow> (byte list \<Rightarrow> nat \<Rightarrow> ('s, nat) eff) \<Rightarrow> ('s, unit) eff" where
  "writeArchiveTypeVersion abi write_target =
     bind_eff (write_target (value_bytes (ab_type_version abi)) 0) (\<lambda>start.
       if start \<noteq> 0 then throw (Exception ''Invalid Cista archive type version offset'') else ret ())"

section \<open>Writing\<close>

definition count_payload :: "archive_abi \<Rightarrow> archive_codec \<Rightarrow> nat \<Rightarrow> archive_graph \<Rightarrow> nat result" where
  "count_payload abi C maximum g =
     fst (bind_eff (then_eff (writeArchiveTypeVersion abi (counter_write maximum))
                     (each_eff (counter_request maximum) (co_requests C g)))
            (\<lambda>_. reads (\<lambda>used. used)) 0)"

definition write_payload :: "archive_abi \<Rightarrow> archive_codec \<Rightarrow> nat \<Rightarrow> nat \<Rightarrow> archive_graph \<Rightarrow> byte list result" where
  "write_payload abi C maximum expected g =
     (if expected > maximum then Inl archive_output_limit
      else
        fst (bind_eff (then_eff (writeArchiveTypeVersion abi (buffer_write maximum))
                        (each_eff (buffer_request C maximum) (co_requests C g)))
               (\<lambda>_. bind_eff (reads (buffer_release expected)) lift_result) []))"

definition serializeGraph ::
    "archive_abi \<Rightarrow> archive_codec \<Rightarrow> archive_limits \<Rightarrow> archive_graph \<Rightarrow> byte list result" where
  "serializeGraph abi C limits g =
     (let maximum = al_maxArchiveBytes limits - archivePreambleSize in
      bind_result (validateArchive g limits 0 Writing) (\<lambda>_.
      bind_result (count_payload abi C maximum g) (\<lambda>counted.
      bind_result (write_payload abi C maximum counted (g\<lparr>ag_serializedSize := word_of_nat counted\<rparr>)) (\<lambda>payload.
      bind_result (validateArchiveTypeVersion abi payload Writing) (\<lambda>_.
        frameArchive abi payload limits)))))"

definition serializeCistaArchive ::
    "archive_abi \<Rightarrow> archive_codec \<Rightarrow> node \<Rightarrow> partial_source \<Rightarrow> archive_limits \<Rightarrow> byte list result" where
  "serializeCistaArchive abi C root ps limits =
     (if al_maxArchiveBytes limits < archivePreambleSize then Inl archive_output_limit
      else bind_result (buildArchive abi limits root ps) (serializeGraph abi C limits))"

definition serializeArchivedTemplate ::
    "archive_abi \<Rightarrow> archive_codec \<Rightarrow> node \<Rightarrow> partial_map \<Rightarrow> archive_limits \<Rightarrow> byte list result" where
  "serializeArchivedTemplate abi C root ps limits = serializeCistaArchive abi C root (OwnedPartials ps) limits"

definition serializeArchivedCompiled ::
    "archive_abi \<Rightarrow> archive_codec \<Rightarrow> compiled \<Rightarrow> compiled_partials \<Rightarrow> archive_limits \<Rightarrow> byte list result" where
  "serializeArchivedCompiled abi C compiled ps limits =
     (case compiled of
        None \<Rightarrow> Inl (Exception ''Empty compiled template'')
      | Some root \<Rightarrow> serializeCistaArchive abi C root (CompiledPartials ps) limits)"

section \<open>Reading\<close>

definition deserialize_payload :: "archive_codec \<Rightarrow> byte list \<Rightarrow> archive_graph result" where
  "deserialize_payload C payload =
     (case co_deserialize C payload of
        Inl message \<Rightarrow> Inl (invalid_archive message)
      | Inr None \<Rightarrow> Inl (invalid_archive ''Invalid Cista archive root'')
      | Inr (Some g) \<Rightarrow> Inr g)"

definition readArchive :: "archive_abi \<Rightarrow> archive_codec \<Rightarrow> byte list \<Rightarrow> archive_limits \<Rightarrow> archive_graph result" where
  "readArchive abi C bytes limits =
     bind_result (readArchivePreamble abi bytes limits) (\<lambda>payload.
     bind_result (validateArchiveTypeVersion abi payload Loading) (\<lambda>_.
     bind_result (throw_if (co_address C mod tl_alignof (ab_graph abi) \<noteq> 0)
                    (invalid_archive ''Unaligned Cista archive buffer'')) (\<lambda>_.
     bind_result (validateArchiveGraphLayout abi (co_address C) payload) (\<lambda>_.
     bind_result (deserialize_payload C payload) (\<lambda>g.
     bind_result (validateArchive g limits (length payload) Loading) (\<lambda>_. Inr g))))))"

definition publicArchiveError :: "archive_failure_reason \<Rightarrow> archived_template_error" where
  "publicArchiveError reason =
     (case reason of
        InvalidArchive \<Rightarrow> ErrorInvalidArchive
      | UnsupportedFormat \<Rightarrow> ErrorUnsupportedFormat
      | LimitExceeded \<Rightarrow> ErrorLimitExceeded)"

definition validateProtectedArchive ::
    "archive_abi \<Rightarrow> archive_codec \<Rightarrow> byte list \<Rightarrow> archive_limits \<Rightarrow> archive_graph result" where
  "validateProtectedArchive abi C bytes limits =
     (case readArchive abi C bytes limits of
        Inl (ArchiveReadException reason message) \<Rightarrow>
          Inl (ArchivedTemplateException (publicArchiveError reason) message)
      | r \<Rightarrow> r)"

text \<open>A handle: the owned bytes with the validated graph, or nothing.\<close>

type_synonym archived = "(byte list \<times> archive_graph) option"

definition archived_empty :: "archived \<Rightarrow> bool" where
  "archived_empty a = (a = None)"

definition loadArchivedTemplate ::
    "archive_abi \<Rightarrow> archive_codec \<Rightarrow> byte list \<Rightarrow> archive_limits \<Rightarrow> archived result" where
  "loadArchivedTemplate abi C bytes limits =
     (if length bytes > al_maxArchiveBytes limits
      then Inl (ArchivedTemplateException ErrorLimitExceeded ''Cista archive input byte limit exceeded'')
      else bind_result (validateProtectedArchive abi C bytes limits) (\<lambda>g. Inr (Some (bytes, g))))"

section \<open>Rendering\<close>

definition archived_setup :: "LambdaStringMode \<Rightarrow> data \<Rightarrow> render_limits \<Rightarrow> nat \<Rightarrow> ('w, unit) rend" where
  "archived_setup mode data limits out =
     then_eff (setLambdaStringMode (mode_number mode))
       (renderer_init None (Some data) None (Some out) limits)"

definition renderProtectedArchive ::
    "'w render_env \<Rightarrow> archive_graph \<Rightarrow> data \<Rightarrow> render_limits \<Rightarrow> LambdaStringMode \<Rightarrow> ('w, string) rend" where
  "renderProtectedArchive E g data limits mode =
     bind_eff new_string (\<lambda>out.
       then_eff (archived_setup mode data limits out)
         (then_eff (renderRoot (renderNode E (archive_partials g)) (Some (archive_view g (ag_root g))))
           (reads (\<lambda>s. r_strings s out))))"

definition render_archived ::
    "'w render_env \<Rightarrow> archived \<Rightarrow> data \<Rightarrow> render_limits \<Rightarrow> LambdaStringMode \<Rightarrow> ('w, string) rend" where
  "render_archived E archived data limits mode s =
     (case archived of
        None \<Rightarrow> (Inl (Exception ''Empty archived template''), s)
      | Some (bytes, g) \<Rightarrow>
          (case renderProtectedArchive E g data limits mode (fresh_renderer s) of
             (r, t) \<Rightarrow> (r, leave_surroundings t s)))"

definition render_archived_limits ::
    "'w render_env \<Rightarrow> archived \<Rightarrow> data \<Rightarrow> render_limits \<Rightarrow> ('w, string) rend" where
  "render_archived_limits E archived data limits = render_archived E archived data limits ModeTemplate"

definition render_archived_plain :: "'w render_env \<Rightarrow> archived \<Rightarrow> data \<Rightarrow> ('w, string) rend" where
  "render_archived_plain E archived data = render_archived_limits E archived data default_render_limits"

definition mustache_render_archived_limits ::
    "'w render_env \<Rightarrow> archived \<Rightarrow> data \<Rightarrow> render_limits \<Rightarrow> ('w mustache, string) eff" where
  "mustache_render_archived_limits E archived data limits m =
     on_renderer (render_archived E archived data limits (r_lambdaStringMode (m_renderer m))) m"

definition mustache_render_archived :: "'w render_env \<Rightarrow> archived \<Rightarrow> data \<Rightarrow> ('w mustache, string) eff" where
  "mustache_render_archived E archived data = mustache_render_archived_limits E archived data default_render_limits"

end
