(* ===== verification/Archive_Valid.thy ===== *)
theory Archive_Valid
  imports Archive_Graph
begin

text \<open>
  What the validator of an archive accepts. The indices of a graph are pointers; the trees
  they form are given as index trees, with the relation \<open>chain_at\<close> between the links of the
  graph and a list of sibling trees. The validator accepts exactly the graphs whose nodes are
  the disjoint union of such trees, each node well-formed, within the limits; and the bound on
  its recursion changes no result.
\<close>

section \<open>The recursion ends\<close>

definition marks_grow :: "validator \<Rightarrow> validator \<Rightarrow> bool" where
  "marks_grow s t \<longleftrightarrow> length (av_states t) = length (av_states s)
     \<and> (\<forall>k < length (av_states s). av_states s ! k \<noteq> 0 \<longrightarrow> av_states t ! k \<noteq> 0)"

lemma marks_grow_order [simp]: "reflp marks_grow" "transp marks_grow"
  by (auto simp: marks_grow_def intro!: reflpI transpI)

lemma nth_update_iff: "xs[i := x] ! j = (if i = j \<and> j < length xs then x else xs ! j)"
  by (cases "i < length xs") (auto simp: nth_list_update list_update_beyond)

lemma steps_mark: "c \<noteq> 0 \<Longrightarrow> steps marks_grow (writes (\<lambda>s. s\<lparr>av_states := (av_states s)[i := c]\<rparr>))"
  by (rule steps_writes) (auto simp: marks_grow_def nth_update_iff)

lemma steps_enterNode: "steps marks_grow (enterNode V index depth)"
  by (auto simp: enterNode_def marks_grow_def nth_update_iff intro!: eff_steps steps_writes)

lemma steps_validateDataParts: "steps marks_grow (validateDataParts V ty data)"
  by (auto simp: validateDataParts_def intro!: eff_steps steps_writes) (auto simp: marks_grow_def)

lemma steps_validateNode:
  "(\<And>i d. steps marks_grow (below i d)) \<Longrightarrow> steps marks_grow (validateNode below V index depth metadata)"
  by (auto simp: validateNode_def intro!: eff_steps steps_enterNode steps_validateDataParts steps_mark)

lemma steps_validateChildren: "steps marks_grow (validateChildren n V index depth)"
  by (induction n arbitrary: index depth) (auto intro!: eff_steps steps_validateNode)

definition untouched :: "validator \<Rightarrow> nat" where
  "untouched s = card {k. k < length (av_states s) \<and> av_states s ! k = 0}"

lemma untouched_mono: "marks_grow s t \<Longrightarrow> untouched t \<le> untouched s"
  unfolding untouched_def by (rule card_mono) (auto simp: marks_grow_def)

lemma enterNode_Inr:
  "enterNode V index depth s = (Inr u, t) \<longleftrightarrow>
     unat index < length (ag_nodes (va_graph V)) \<and> depth < al_maxNestingDepth (va_limits V)
     \<and> depth < renderNestingCeiling \<and> av_nodes s < al_maxNodes (va_limits V)
     \<and> av_states s ! unat index = 0
     \<and> t = s\<lparr>av_states := (av_states s)[unat index := 1], av_nodes := av_nodes s + 1\<rparr>"
  by (auto simp: enterNode_def then_eff_Inr_iff)

lemma enterNode_untouched:
  assumes "enterNode V index depth s = (Inr u, t)"
    and "length (av_states s) = length (ag_nodes (va_graph V))"
  shows "untouched t < untouched s"
proof -
  from assms(1) have i: "unat index < length (ag_nodes (va_graph V))" "av_states s ! unat index = 0"
    and t: "t = s\<lparr>av_states := (av_states s)[unat index := 1], av_nodes := av_nodes s + 1\<rparr>"
    by (auto simp: enterNode_Inr)
  show ?thesis
    unfolding untouched_def t
    by (rule psubset_card_mono) (use i assms(2) in \<open>auto simp: nth_list_update\<close>)
qed

lemma bind_eff_cong_at:
  "(\<And>x t. m s = (Inr x, t) \<Longrightarrow> f x t = g x t) \<Longrightarrow> bind_eff m f s = bind_eff m g s"
  by (auto simp: bind_eff_def split: prod.split sum.split)

lemma then_eff_cong_at:
  "(\<And>x t. m s = (Inr x, t) \<Longrightarrow> k t = l t) \<Longrightarrow> then_eff m k s = then_eff m l s"
  unfolding then_eff_def by (rule bind_eff_cong_at)

lemma then_eff_stepsD:
  "then_eff m k s = (Inr y, t) \<Longrightarrow> steps R k \<Longrightarrow> \<exists>x u. m s = (Inr x, u) \<and> R u t"
  by (auto simp: then_eff_Inr_iff dest: stepsD)

text \<open>More levels than there are untouched nodes make no difference.\<close>

lemma validateNode_levels:
  assumes below: "\<And>i d t. untouched t < untouched s \<Longrightarrow>
      length (av_states t) = length (ag_nodes (va_graph V)) \<Longrightarrow> f i d t = g i d t"
    and len: "length (av_states s) = length (ag_nodes (va_graph V))"
  shows "validateNode f V index depth metadata s = validateNode g V index depth metadata s"
  unfolding validateNode_def
proof (rule then_eff_cong_at, rule bind_eff_cong_at, rule then_eff_cong_at)
  fix x t data t' y u
  let ?n = "graph_node (va_graph V) index"
  assume e: "enterNode V index depth s = (Inr x, t)"
    and l: "lift_result (validateFields V ?n metadata) t = (Inr data, t')"
    and p: "validateDataParts V (node_type_of ?n) data t' = (Inr y, u)"
  have "marks_grow t u" using l stepsD [OF steps_validateDataParts p] by simp
  then have "untouched u < untouched s" "length (av_states u) = length (ag_nodes (va_graph V))"
    using enterNode_untouched [OF e len] untouched_mono e len
    by (fastforce, simp add: enterNode_Inr marks_grow_def)
  then show "then_eff (f (an_firstChild ?n) depth) (writes (\<lambda>s. s\<lparr>av_states := (av_states s)[unat index := 2]\<rparr>)) u
      = then_eff (g (an_firstChild ?n) depth) (writes (\<lambda>s. s\<lparr>av_states := (av_states s)[unat index := 2]\<rparr>)) u"
    using below by (simp add: then_eff_def bind_eff_def)
qed

lemma validateNode_entered:
  assumes "validateNode below V index depth metadata s = (Inr u, t)"
    and "\<And>i d. steps marks_grow (below i d)"
    and "length (av_states s) = length (ag_nodes (va_graph V))"
  shows "untouched t < untouched s"
proof -
  obtain x v where e: "enterNode V index depth s = (Inr x, v)" and "marks_grow v t"
  proof (rule exE [OF then_eff_stepsD [OF assms(1) [unfolded validateNode_def]]])
    show "steps marks_grow (bind_eff (lift_result (validateFields V (graph_node (va_graph V) index) metadata))
        (\<lambda>data. then_eff (validateDataParts V (node_type_of (graph_node (va_graph V) index)) data)
           (then_eff (below (an_firstChild (graph_node (va_graph V) index)) depth)
              (writes (\<lambda>s. s\<lparr>av_states := (av_states s)[unat index := 2]\<rparr>)))))"
      by (auto intro!: eff_steps assms(2) steps_validateDataParts steps_mark)
  qed auto
  then show ?thesis using enterNode_untouched [OF e assms(3)] untouched_mono by fastforce
qed

lemma validateChildren_levels:
  "untouched s < n \<Longrightarrow> untouched s < m \<Longrightarrow> length (av_states s) = length (ag_nodes (va_graph V)) \<Longrightarrow>
     validateChildren n V index depth s = validateChildren m V index depth s"
proof (induction n arbitrary: m index depth s)
  case 0
  then show ?case by simp
next
  case (Suc n)
  then obtain m' where m: "m = Suc m'" by (cases m) auto
  have IH: "validateChildren n V i d t = validateChildren m' V i d t"
    if "untouched t < untouched s" "length (av_states t) = length (ag_nodes (va_graph V))" for i d t
    using that Suc.prems m by (intro Suc.IH) auto
  show ?case
  proof (cases "index = invalidIndex")
    case True
    with m show ?thesis by simp
  next
    case False
    have node: "validateNode (validateChildren n V) V index (depth + 1) b s
        = validateNode (validateChildren m' V) V index (depth + 1) b s" for b
      by (rule validateNode_levels) (use IH Suc.prems in auto)
    have "then_eff (validateNode (validateChildren n V) V index (depth + 1) b) (validateChildren n V j depth) s
        = then_eff (validateNode (validateChildren m' V) V index (depth + 1) b) (validateChildren m' V j depth) s" for b j
    proof -
      have "then_eff (validateNode (validateChildren n V) V index (depth + 1) b) (validateChildren n V j depth) s
          = then_eff (validateNode (validateChildren n V) V index (depth + 1) b) (validateChildren m' V j depth) s"
      proof (rule then_eff_cong_at)
        fix x t assume v: "validateNode (validateChildren n V) V index (depth + 1) b s = (Inr x, t)"
        have "marks_grow s t" using stepsD [OF steps_validateNode v] steps_validateChildren by blast
        then show "validateChildren n V j depth t = validateChildren m' V j depth t"
          using validateNode_entered [OF v steps_validateChildren] Suc.prems
          by (intro IH) (simp_all add: marks_grow_def)
      qed
      also have "\<dots> = then_eff (validateNode (validateChildren m' V) V index (depth + 1) b) (validateChildren m' V j depth) s"
        using node [of b] by (simp add: then_eff_def bind_eff_def)
      finally show ?thesis .
    qed
    then show ?thesis
      using False m by (auto intro!: bind_eff_cong_at)
  qed
qed

section \<open>Well-formed nodes\<close>

definition slice_ok :: "archive_graph \<Rightarrow> archive_slice \<Rightarrow> bool" where
  "slice_ok g v \<longleftrightarrow> unat (as_offset v) + unat (as_length v) \<le> length (ag_strings g)"

lemma validateString_Inr: "validateString V v = Inr t \<longleftrightarrow> slice_ok (va_graph V) v \<and> t = archiveSliceView (va_graph V) v"
  by (auto simp: validateString_def slice_ok_def)

definition archive_header_ok :: "archive_node \<Rightarrow> bool \<Rightarrow> bool" where
  "archive_header_ok n metadata \<longleftrightarrow> isSerializableTypeValue (unat (an_type n))
     \<and> \<not> invalid_flags (node_type_of n) (node_flags_of n)
     \<and> (has_flag (node_flags_of n) FlagPartialIndent \<longrightarrow> metadata)
     \<and> an_presence n AND NOT (HasData OR HasStartSequence OR HasStopSequence OR HasOriginalSectionText) = 0
     \<and> an_reserved0 n = 0 \<and> an_reserved1 n = 0 \<and> an_reserved2 n = 0"

lemma validateHeader_Inr: "validateHeader V n metadata = Inr u \<longleftrightarrow> archive_header_ok n metadata"
  by (auto simp: validateHeader_def archive_header_ok_def)

definition fields_ok :: "archive_graph \<Rightarrow> archive_node \<Rightarrow> bool \<Rightarrow> bool" where
  "fields_ok g n metadata \<longleftrightarrow> archive_header_ok n metadata
     \<and> (node_type_of n = TypeRoot \<longleftrightarrow> \<not> has_presence n HasData) \<and> slice_ok g (an_data n)
     \<and> (\<not> has_presence n HasData \<longrightarrow> as_offset (an_data n) = 0 \<and> as_length (an_data n) = 0)
     \<and> (an_firstChild n \<noteq> invalidIndex \<longrightarrow> typeAllowsChildren (node_type_of n))
     \<and> slice_ok g (an_startSequence n) \<and> slice_ok g (an_stopSequence n) \<and> \<not> invalid_delimiters n
     \<and> slice_ok g (an_originalSectionText n) \<and> \<not> invalid_section_text n"

lemma validateNodeText_Inr:
  "validateNodeText V n = Inr d \<longleftrightarrow>
     (node_type_of n = TypeRoot \<longleftrightarrow> \<not> has_presence n HasData) \<and> slice_ok (va_graph V) (an_data n)
     \<and> (\<not> has_presence n HasData \<longrightarrow> as_offset (an_data n) = 0 \<and> as_length (an_data n) = 0)
     \<and> (an_firstChild n \<noteq> invalidIndex \<longrightarrow> typeAllowsChildren (node_type_of n))
     \<and> d = archiveSliceView (va_graph V) (an_data n)"
  by (auto simp: validateNodeText_def Let_def bind_result_Inr_iff validateString_Inr split: if_splits)

lemma validateFields_Inr:
  "validateFields V n metadata = Inr d \<longleftrightarrow>
     fields_ok (va_graph V) n metadata \<and> d = archiveSliceView (va_graph V) (an_data n)"
  by (auto simp: validateFields_def validateSection_def bind_result_Inr_iff validateHeader_Inr
      validateNodeText_Inr validateString_Inr fields_ok_def)

definition indentation_ok :: "archive_graph \<Rightarrow> archive_node \<Rightarrow> bool" where
  "indentation_ok g c \<longleftrightarrow> (has_flag (node_flags_of c) FlagPartialIndent \<longrightarrow>
     node_type_of c = TypeOutput \<and> node_flags_of c = (FlagLambdaOnly OR FlagPartialIndent)
     \<and> has_presence c HasData \<and> an_nextSibling c \<noteq> invalidIndex \<and> slice_ok g (an_data c)
     \<and> list_all is_indent (archiveSliceView g (an_data c))
     \<and> node_type_of (graph_node g (an_nextSibling c)) = TypePartial)"

lemma validateIndentation_Inr:
  "validateIndentation V c = Inr b \<longleftrightarrow>
     indentation_ok (va_graph V) c \<and> b = has_flag (node_flags_of c) FlagPartialIndent"
  by (auto simp: validateIndentation_def indentation_ok_def bind_result_Inr_iff validateString_Inr)

lemma validateChild_Inr:
  "validateChild V i = Inr b \<longleftrightarrow>
     unat i < length (ag_nodes (va_graph V))
     \<and> (an_nextSibling (graph_node (va_graph V) i) \<noteq> invalidIndex \<longrightarrow>
          unat (an_nextSibling (graph_node (va_graph V) i)) < length (ag_nodes (va_graph V)))
     \<and> indentation_ok (va_graph V) (graph_node (va_graph V) i)
     \<and> b = has_flag (node_flags_of (graph_node (va_graph V) i)) FlagPartialIndent"
  by (auto simp: validateChild_def Let_def validateIndentation_Inr)

definition archive_node_parts :: "archive_graph \<Rightarrow> archive_node \<Rightarrow> nat" where
  "archive_node_parts g n =
     (if type_and (node_type_of n) TypeHasDot then data_part_count (archiveSliceView g (an_data n)) else 0)"

lemma validateDataParts_Inr:
  "validateDataParts V (node_type_of n) (archiveSliceView (va_graph V) (an_data n)) s = (Inr u, t) \<longleftrightarrow>
     archive_node_parts (va_graph V) n \<le> al_maxDataPartsPerNode (va_limits V)
     \<and> (archive_node_parts (va_graph V) n = 0 \<or> av_dataParts s + archive_node_parts (va_graph V) n \<le> al_maxTotalDataParts (va_limits V))
     \<and> t = s\<lparr>av_dataParts := av_dataParts s + archive_node_parts (va_graph V) n\<rparr>"
  by (auto simp: validateDataParts_def archive_node_parts_def then_eff_Inr_iff data_part_count_def)

lemmas validated_iffs = trans [OF eq_commute validateFields_Inr] trans [OF eq_commute validateChild_Inr]

section \<open>Index trees\<close>

datatype itree = ITree (root_index: "32 word") (subtrees: "itree list")

text \<open>The links of the graph from an index, as a list of sibling trees.\<close>

fun chain_at :: "archive_graph \<Rightarrow> 32 word \<Rightarrow> itree list \<Rightarrow> bool" where
  "chain_at g i [] = (i = invalidIndex)"
| "chain_at g i (ITree j us # ts) =
     (i = j \<and> j \<noteq> invalidIndex \<and> unat j < length (ag_nodes g)
      \<and> chain_at g (an_firstChild (graph_node g j)) us \<and> chain_at g (an_nextSibling (graph_node g j)) ts)"

fun chain_indices :: "itree list \<Rightarrow> nat list" where
  "chain_indices [] = []"
| "chain_indices (ITree j us # ts) = unat j # chain_indices us @ chain_indices ts"

fun chain_parts :: "archive_graph \<Rightarrow> itree list \<Rightarrow> nat" where
  "chain_parts g [] = 0"
| "chain_parts g (ITree j us # ts) = archive_node_parts g (graph_node g j) + chain_parts g us + chain_parts g ts"

text \<open>Every node of the chain at this depth and below is well-formed and within the limits.\<close>

fun chain_ok :: "archive_graph \<Rightarrow> archive_limits \<Rightarrow> nat \<Rightarrow> itree list \<Rightarrow> bool" where
  "chain_ok g L depth [] = True"
| "chain_ok g L depth (ITree j us # ts) =
     (depth < min (al_maxNestingDepth L) renderNestingCeiling
      \<and> fields_ok g (graph_node g j) (has_flag (node_flags_of (graph_node g j)) FlagPartialIndent)
      \<and> indentation_ok g (graph_node g j)
      \<and> archive_node_parts g (graph_node g j) \<le> al_maxDataPartsPerNode L
      \<and> chain_ok g L (depth + 1) us \<and> chain_ok g L depth ts)"

definition itree_ok :: "archive_graph \<Rightarrow> archive_limits \<Rightarrow> itree \<Rightarrow> bool" where
  "itree_ok g L t \<longleftrightarrow>
     (let n = graph_node g (root_index t) in
        0 < min (al_maxNestingDepth L) renderNestingCeiling \<and> fields_ok g n False
        \<and> archive_node_parts g n \<le> al_maxDataPartsPerNode L \<and> chain_ok g L 1 (subtrees t))"

text \<open>What visiting a set of nodes does to the validator.\<close>

definition marked :: "nat list \<Rightarrow> nat list \<Rightarrow> nat list" where
  "marked ks xs = map (\<lambda>k. if k \<in> set ks then 2 else xs ! k) [0..<length xs]"

definition visited :: "nat list \<Rightarrow> nat \<Rightarrow> validator \<Rightarrow> validator" where
  "visited ks parts s =
     s\<lparr>av_states := marked ks (av_states s), av_nodes := av_nodes s + length ks,
       av_dataParts := av_dataParts s + parts\<rparr>"

definition untouched_at :: "nat list \<Rightarrow> validator \<Rightarrow> bool" where
  "untouched_at ks s \<longleftrightarrow> distinct ks \<and> (\<forall>k\<in>set ks. av_states s ! k = 0)"

definition in_budget :: "validation \<Rightarrow> validator \<Rightarrow> bool" where
  "in_budget V s \<longleftrightarrow> length (av_states s) = length (ag_nodes (va_graph V))
     \<and> av_nodes s \<le> al_maxNodes (va_limits V) \<and> av_dataParts s \<le> al_maxTotalDataParts (va_limits V)"

lemma length_marked [simp]: "length (marked ks xs) = length xs"
  by (simp add: marked_def)

lemma nth_marked: "k < length xs \<Longrightarrow> marked ks xs ! k = (if k \<in> set ks then 2 else xs ! k)"
  by (simp add: marked_def)

lemma marked_Nil [simp]: "marked [] xs = xs"
  by (rule nth_equalityI) (simp_all add: nth_marked)

lemma marked_marked: "marked js (marked ks xs) = marked (ks @ js) xs"
  by (rule nth_equalityI) (auto simp: nth_marked)

lemma marked_enclosed: "(marked ks (xs[k := Suc 0]))[k := 2] = marked (k # ks) xs"
  by (rule nth_equalityI) (auto simp: nth_marked nth_update_iff)

lemma visited_Nil [simp]: "visited [] 0 s = s"
  by (simp add: visited_def)

lemma visited_visited: "visited js q (visited ks p s) = visited (ks @ js) (p + q) s"
  by (simp add: visited_def marked_marked)

section \<open>One node\<close>

definition entered :: "validation \<Rightarrow> 32 word \<Rightarrow> validator \<Rightarrow> validator" where
  "entered V i s =
     s\<lparr>av_states := (av_states s)[unat i := 1], av_nodes := av_nodes s + 1,
       av_dataParts := av_dataParts s + archive_node_parts (va_graph V) (graph_node (va_graph V) i)\<rparr>"

definition node_admitted :: "validation \<Rightarrow> 32 word \<Rightarrow> nat \<Rightarrow> bool \<Rightarrow> validator \<Rightarrow> bool" where
  "node_admitted V i depth metadata s \<longleftrightarrow>
     (let n = graph_node (va_graph V) i; p = archive_node_parts (va_graph V) n in
        unat i < length (ag_nodes (va_graph V))
        \<and> depth < min (al_maxNestingDepth (va_limits V)) renderNestingCeiling
        \<and> av_nodes s < al_maxNodes (va_limits V) \<and> av_states s ! unat i = 0
        \<and> fields_ok (va_graph V) n metadata \<and> p \<le> al_maxDataPartsPerNode (va_limits V)
        \<and> (p = 0 \<or> av_dataParts s + p \<le> al_maxTotalDataParts (va_limits V)))"

lemma validateNode_Inr:
  "validateNode below V i depth metadata s = (Inr (), t) \<longleftrightarrow>
     node_admitted V i depth metadata s
     \<and> (\<exists>u. below (an_firstChild (graph_node (va_graph V) i)) depth (entered V i s) = (Inr (), u)
          \<and> t = u\<lparr>av_states := (av_states u)[unat i := 2]\<rparr>)"
  by (auto simp: validateNode_def node_admitted_def entered_def Let_def then_eff_Inr_iff bind_eff_Inr_iff enterNode_Inr
      validated_iffs validateDataParts_Inr)

lemma untouched_at_entered:
  assumes "unat i < length (av_states s)" and "av_states s ! unat i = 0"
  shows "untouched_at ks (entered V i s) \<longleftrightarrow> untouched_at (unat i # ks) s"
proof -
  have "av_states (entered V i s) ! k = (if k = unat i then 1 else av_states s ! k)" for k
    using assms(1) by (auto simp: entered_def nth_update_iff)
  with assms(2) show ?thesis by (auto simp: untouched_at_def)
qed

lemma visited_entered:
  "(visited ks p (entered V i s))\<lparr>av_states := (av_states (visited ks p (entered V i s)))[unat i := 2]\<rparr>
     = visited (unat i # ks) (archive_node_parts (va_graph V) (graph_node (va_graph V) i) + p) s"
  by (simp add: visited_def entered_def marked_enclosed)

text \<open>What a run over a chain has found.\<close>

definition chain_found :: "validation \<Rightarrow> 32 word \<Rightarrow> nat \<Rightarrow> itree list \<Rightarrow> validator \<Rightarrow> validator \<Rightarrow> bool" where
  "chain_found V i depth ts s t \<longleftrightarrow> chain_at (va_graph V) i ts \<and> chain_ok (va_graph V) (va_limits V) depth ts
     \<and> untouched_at (chain_indices ts) s \<and> t = visited (chain_indices ts) (chain_parts (va_graph V) ts) s \<and> in_budget V t"

lemma within_visited:
  "in_budget V (visited ks p s) \<longleftrightarrow> length (av_states s) = length (ag_nodes (va_graph V))
     \<and> av_nodes s + length ks \<le> al_maxNodes (va_limits V) \<and> av_dataParts s + p \<le> al_maxTotalDataParts (va_limits V)"
  by (simp add: in_budget_def visited_def)

lemma within_entered:
  "in_budget V s \<Longrightarrow> node_admitted V i depth metadata s \<Longrightarrow> in_budget V (entered V i s)"
  by (auto simp: in_budget_def entered_def node_admitted_def Let_def)

lemma validateNode_found:
  assumes below: "\<And>j u. in_budget V (entered V i s) \<Longrightarrow> below j depth (entered V i s) = (Inr (), u) \<Longrightarrow>
      \<exists>us. chain_found V j (depth + 1) us (entered V i s) u"
    and run: "validateNode below V i depth metadata s = (Inr (), t)" and w: "in_budget V s"
  obtains us where "node_admitted V i depth metadata s"
    "chain_at (va_graph V) (an_firstChild (graph_node (va_graph V) i)) us"
    "chain_ok (va_graph V) (va_limits V) (depth + 1) us" "untouched_at (unat i # chain_indices us) s"
    "t = visited (unat i # chain_indices us)
       (archive_node_parts (va_graph V) (graph_node (va_graph V) i) + chain_parts (va_graph V) us) s"
    "in_budget V t"
proof -
  from run obtain u where a: "node_admitted V i depth metadata s"
    and u: "below (an_firstChild (graph_node (va_graph V) i)) depth (entered V i s) = (Inr (), u)"
    and t: "t = u\<lparr>av_states := (av_states u)[unat i := 2]\<rparr>"
    by (auto simp: validateNode_Inr)
  from below [OF within_entered [OF w a] u] obtain us
    where us: "chain_found V (an_firstChild (graph_node (va_graph V) i)) (depth + 1) us (entered V i s) u"
    by blast
  have i: "unat i < length (av_states s)" "av_states s ! unat i = 0"
    using a w by (auto simp: node_admitted_def in_budget_def Let_def)
  have t': "t = visited (unat i # chain_indices us)
       (archive_node_parts (va_graph V) (graph_node (va_graph V) i) + chain_parts (va_graph V) us) s"
    using us t by (simp add: chain_found_def visited_entered)
  have "in_budget V t" using us t by (auto simp: chain_found_def in_budget_def)
  with a us t' show ?thesis
    by (intro that [of us]) (auto simp: chain_found_def untouched_at_entered [OF i])
qed

lemma chain_found_Cons:
  assumes "chain_at (va_graph V) (an_firstChild (graph_node (va_graph V) i)) us"
    and "chain_ok (va_graph V) (va_limits V) (depth + 1) us" and "untouched_at (unat i # chain_indices us) s"
    and "u = visited (unat i # chain_indices us)
       (archive_node_parts (va_graph V) (graph_node (va_graph V) i) + chain_parts (va_graph V) us) s"
    and "node_admitted V i depth (has_flag (node_flags_of (graph_node (va_graph V) i)) FlagPartialIndent) s"
    and "i \<noteq> invalidIndex" and "indentation_ok (va_graph V) (graph_node (va_graph V) i)"
    and "chain_found V (an_nextSibling (graph_node (va_graph V) i)) depth ts u t"
    and "in_budget V s"
  shows "chain_found V i depth (ITree i us # ts) s t"
proof -
  let ?ks = "unat i # chain_indices us"
  have states: "av_states u ! k = (if k \<in> set ?ks then 2 else av_states s ! k)" if "k < length (av_states s)" for k
    using that assms(4) by (auto simp: visited_def nth_marked)
  have ts: "untouched_at (chain_indices ts) u" and at: "chain_at (va_graph V) (an_nextSibling (graph_node (va_graph V) i)) ts"
    using assms(8) by (simp_all add: chain_found_def)
  have bound: "k < length (av_states s)" if "k \<in> set (chain_indices ts)" for k
  proof -
    have "chain_at g j vs \<Longrightarrow> \<forall>k\<in>set (chain_indices vs). k < length (ag_nodes g)" for g j vs
      by (induction g j vs rule: chain_at.induct) auto
    with at that assms(9) show ?thesis by (auto simp: in_budget_def)
  qed
  have "untouched_at (?ks @ chain_indices ts) s"
    using assms(3) ts states bound by (fastforce simp: untouched_at_def split: if_splits)
  with assms show ?thesis
    by (auto simp: chain_found_def visited_visited node_admitted_def Let_def ac_simps)
qed

lemma validateChildren_found:
  "in_budget V s \<Longrightarrow> validateChildren n V i depth s = (Inr (), t) \<Longrightarrow> \<exists>ts. chain_found V i (depth + 1) ts s t"
proof (induction n arbitrary: i depth s t)
  case 0
  then show ?case by simp
next
  case (Suc n)
  let ?c = "graph_node (va_graph V) i"
  show ?case
  proof (cases "i = invalidIndex")
    case True
    with Suc.prems have "chain_found V i (depth + 1) [] s t" by (simp add: chain_found_def untouched_at_def)
    then show ?thesis by blast
  next
    case False
    with Suc.prems obtain u where child: "indentation_ok (va_graph V) ?c"
      and node: "validateNode (validateChildren n V) V i (depth + 1) (has_flag (node_flags_of ?c) FlagPartialIndent) s = (Inr (), u)"
      and rest: "validateChildren n V (an_nextSibling ?c) depth u = (Inr (), t)"
      by (auto simp: bind_eff_Inr_iff then_eff_Inr_iff validated_iffs)
    obtain us where us: "node_admitted V i (depth + 1) (has_flag (node_flags_of ?c) FlagPartialIndent) s"
        "chain_at (va_graph V) (an_firstChild ?c) us" "chain_ok (va_graph V) (va_limits V) (depth + 1 + 1) us"
        "untouched_at (unat i # chain_indices us) s"
        "u = visited (unat i # chain_indices us) (archive_node_parts (va_graph V) ?c + chain_parts (va_graph V) us) s"
        "in_budget V u"
      using validateNode_found [OF _ node Suc.prems(1)] Suc.IH by metis
    from Suc.IH [OF us(6) rest] obtain ts where "chain_found V (an_nextSibling ?c) (depth + 1) ts u t" by blast
    from chain_found_Cons [OF us(2-5) us(1) False child this Suc.prems(1)] show ?thesis by blast
  qed
qed

section \<open>Chains are accepted\<close>

lemma chain_at_bound: "chain_at g i ts \<Longrightarrow> k \<in> set (chain_indices ts) \<Longrightarrow> k < length (ag_nodes g)"
  by (induction g i ts rule: chain_at.induct) auto

lemma chain_at_sibling: "chain_at g i ts \<Longrightarrow> i \<noteq> invalidIndex \<Longrightarrow> unat i < length (ag_nodes g)"
  by (cases "(g, i, ts)" rule: chain_at.cases) auto

lemma validateNode_accepts:
  assumes below: "below (an_firstChild (graph_node (va_graph V) i)) depth (entered V i s)
      = (Inr (), visited ks p (entered V i s))"
    and "node_admitted V i depth metadata s"
  shows "validateNode below V i depth metadata s
      = (Inr (), visited (unat i # ks) (archive_node_parts (va_graph V) (graph_node (va_graph V) i) + p) s)"
  using assms by (subst validateNode_Inr) (auto simp: visited_entered)

lemma admitted_iff:
  assumes "untouched_at (unat i # ks) s" and "in_budget V (visited (unat i # ks)
      (archive_node_parts (va_graph V) (graph_node (va_graph V) i) + p) s)"
    and "unat i < length (ag_nodes (va_graph V))"
    and "depth < min (al_maxNestingDepth (va_limits V)) renderNestingCeiling"
    and "fields_ok (va_graph V) (graph_node (va_graph V) i) metadata"
    and "archive_node_parts (va_graph V) (graph_node (va_graph V) i) \<le> al_maxDataPartsPerNode (va_limits V)"
  shows "node_admitted V i depth metadata s"
  using assms by (auto simp: node_admitted_def Let_def within_visited untouched_at_def)

lemma untouched_at_rest:
  assumes "untouched_at (ks @ js) s" and "\<And>k. k \<in> set js \<Longrightarrow> k < length (av_states s)"
  shows "untouched_at js (visited ks p s)"
  using assms by (auto simp: untouched_at_def visited_def nth_marked)

lemma validateChildren_accepts:
  "chain_found V i (depth + 1) ts s t \<Longrightarrow> in_budget V s \<Longrightarrow> length (chain_indices ts) < n \<Longrightarrow>
     validateChildren n V i depth s = (Inr (), t)"
proof (induction ts arbitrary: i depth s t n rule: chain_indices.induct)
  case 1
  then show ?case by (cases n) (auto simp: chain_found_def)
next
  case (2 j us ts)
  let ?g = "va_graph V" and ?c = "graph_node (va_graph V) j" and ?ks = "chain_indices us"
  let ?p = "chain_parts (va_graph V) us"
  let ?u = "visited (unat j # ?ks) (archive_node_parts ?g ?c + ?p) s"
  from 2 obtain m where n: "n = Suc m" and m: "length ?ks < m" "length (chain_indices ts) < m" by (cases n) auto
  have i: "i = j" "j \<noteq> invalidIndex" "unat j < length (ag_nodes ?g)"
    and us: "chain_at ?g (an_firstChild ?c) us" and ts: "chain_at ?g (an_nextSibling ?c) ts"
    and ok: "chain_ok ?g (va_limits V) (depth + 1) (ITree j us # ts)"
    and un: "untouched_at ((unat j # ?ks) @ chain_indices ts) s"
    and t: "t = visited (chain_indices ts) (chain_parts ?g ts) ?u" and w: "in_budget V t"
    using 2(3) by (auto simp: chain_found_def visited_visited ac_simps)
  have len: "length (av_states s) = length (ag_nodes ?g)" using 2(4) by (simp add: in_budget_def)
  have wu: "in_budget V ?u" using w t len by (simp add: within_visited) (simp add: visited_def)
  have un_u: "untouched_at (unat j # ?ks) s" using un by (auto simp: untouched_at_def)
  have adm: "node_admitted V j (depth + 1) (has_flag (node_flags_of ?c) FlagPartialIndent) s"
    using ok i by (intro admitted_iff [OF un_u wu]) auto
  have s0: "av_states s ! unat j = 0" "unat j < length (av_states s)"
    using un i len by (auto simp: untouched_at_def)
  have "chain_found V (an_firstChild ?c) (depth + 1 + 1) us (entered V j s) (visited ?ks ?p (entered V j s))"
    using us ok un_u wu len s0
    by (auto simp: chain_found_def untouched_at_entered within_visited) (auto simp: entered_def)
  from 2(1) [OF this within_entered [OF 2(4) adm] m(1)]
  have node: "validateNode (validateChildren m V) V j (depth + 1) (has_flag (node_flags_of ?c) FlagPartialIndent) s
      = (Inr (), ?u)"
    by (intro validateNode_accepts adm)
  have "chain_found V (an_nextSibling ?c) (depth + 1) ts ?u t"
    using ts ok t w untouched_at_rest [OF un] chain_at_bound [OF ts] len by (auto simp: chain_found_def)
  from 2(2) [OF this wu m(2)] have rest: "validateChildren m V (an_nextSibling ?c) depth ?u = (Inr (), t)" .
  have child: "validateChild V j = Inr (has_flag (node_flags_of ?c) FlagPartialIndent)"
    using i ok chain_at_sibling [OF ts] by (auto simp: validateChild_Inr)
  show ?case using i n child node rest by (simp add: bind_eff_def then_eff_def lift_result_def)
qed

section \<open>Whole trees\<close>

definition itree_at :: "archive_graph \<Rightarrow> itree \<Rightarrow> bool" where
  "itree_at g t \<longleftrightarrow> unat (root_index t) < length (ag_nodes g)
     \<and> an_nextSibling (graph_node g (root_index t)) = invalidIndex
     \<and> chain_at g (an_firstChild (graph_node g (root_index t))) (subtrees t)"

definition itree_indices :: "itree \<Rightarrow> nat list" where
  "itree_indices t = unat (root_index t) # chain_indices (subtrees t)"

definition itree_parts :: "archive_graph \<Rightarrow> itree \<Rightarrow> nat" where
  "itree_parts g t = archive_node_parts g (graph_node g (root_index t)) + chain_parts g (subtrees t)"

definition itree_found :: "validation \<Rightarrow> itree \<Rightarrow> validator \<Rightarrow> validator \<Rightarrow> bool" where
  "itree_found V t s u \<longleftrightarrow> itree_at (va_graph V) t \<and> itree_ok (va_graph V) (va_limits V) t
     \<and> untouched_at (itree_indices t) s \<and> u = visited (itree_indices t) (itree_parts (va_graph V) t) s \<and> in_budget V u"

lemma itree_at_bound: "itree_at g t \<Longrightarrow> k \<in> set (itree_indices t) \<Longrightarrow> k < length (ag_nodes g)"
  by (auto simp: itree_at_def itree_indices_def dest: chain_at_bound)

lemma indices_fit: "distinct ks \<Longrightarrow> (\<And>k. k \<in> set ks \<Longrightarrow> k < n) \<Longrightarrow> length ks \<le> (n :: nat)"
  by (metis card_lessThan card_mono distinct_card finite_lessThan lessThan_iff subsetI)

lemma validateTree_Inr:
  assumes w: "in_budget V s" and "an_nextSibling (graph_node (va_graph V) i) = invalidIndex"
  shows "validateTree V i s = (Inr (), u) \<longleftrightarrow> (\<exists>t. root_index t = i \<and> itree_found V t s u)"
proof
  assume run: "validateTree V i s = (Inr (), u)"
  obtain us where us: "node_admitted V i 0 False s"
      "chain_at (va_graph V) (an_firstChild (graph_node (va_graph V) i)) us"
      "chain_ok (va_graph V) (va_limits V) (0 + 1) us" "untouched_at (unat i # chain_indices us) s"
      "u = visited (unat i # chain_indices us)
         (archive_node_parts (va_graph V) (graph_node (va_graph V) i) + chain_parts (va_graph V) us) s" "in_budget V u"
    using validateNode_found [OF _ run [unfolded validateTree_def] w] validateChildren_found by metis
  have "itree_found V (ITree i us) s u"
    using us assms(2)
    by (simp add: itree_found_def itree_at_def itree_ok_def itree_indices_def itree_parts_def node_admitted_def Let_def)
  then show "\<exists>t. root_index t = i \<and> itree_found V t s u" by (metis itree.sel(1))
next
  assume "\<exists>t. root_index t = i \<and> itree_found V t s u"
  then obtain us where f: "itree_found V (ITree i us) s u" by (metis itree.collapse)
  let ?ks = "chain_indices us"
  have at: "itree_at (va_graph V) (ITree i us)" and ok: "itree_ok (va_graph V) (va_limits V) (ITree i us)"
    and un: "untouched_at (unat i # ?ks) s"
    and u: "u = visited (unat i # ?ks) (archive_node_parts (va_graph V) (graph_node (va_graph V) i) + chain_parts (va_graph V) us) s"
    and wu: "in_budget V u"
    using f by (auto simp: itree_found_def itree_indices_def itree_parts_def)
  have len: "length (av_states s) = length (ag_nodes (va_graph V))" using w by (simp add: in_budget_def)
  have s0: "av_states s ! unat i = 0" "unat i < length (av_states s)"
    using un at len by (auto simp: untouched_at_def itree_at_def)
  have adm: "node_admitted V i 0 False s"
    using ok at by (intro admitted_iff [OF un wu [unfolded u]]) (auto simp: itree_ok_def itree_at_def Let_def)
  have "length (unat i # ?ks) \<le> length (ag_nodes (va_graph V))"
    using un itree_at_bound [OF at] by (intro indices_fit) (auto simp: untouched_at_def itree_indices_def)
  then have levels: "length ?ks < validation_levels V" by (simp add: validation_levels_def)
  have "chain_found V (an_firstChild (graph_node (va_graph V) i)) (0 + 1) us (entered V i s)
      (visited ?ks (chain_parts (va_graph V) us) (entered V i s))"
    using at ok un wu u len s0
    by (auto simp: chain_found_def untouched_at_entered within_visited itree_at_def itree_ok_def Let_def)
      (auto simp: entered_def)
  note kids = validateChildren_accepts [OF this within_entered [OF w adm] levels]
  show "validateTree V i s = (Inr (), u)"
    unfolding validateTree_def u by (intro validateNode_accepts kids adm)
qed

lemma node_type_root: "node_type_of n = TypeRoot \<longleftrightarrow> unat (an_type n) = node_type_value TypeRoot"
  by (auto simp: node_type_of_def node_type_of_value_def serializable_types_def)

section \<open>The whole archive\<close>

text \<open>Several trees in a row, as the partials are visited.\<close>

definition trees_found :: "validation \<Rightarrow> itree list \<Rightarrow> validator \<Rightarrow> validator \<Rightarrow> bool" where
  "trees_found V ts s u \<longleftrightarrow>
     list_all (itree_at (va_graph V)) ts \<and> list_all (itree_ok (va_graph V) (va_limits V)) ts
     \<and> untouched_at (concat (map itree_indices ts)) s
     \<and> u = visited (concat (map itree_indices ts)) (sum_list (map (itree_parts (va_graph V)) ts)) s \<and> in_budget V u"

lemma concat_bound:
  "list_all (itree_at g) ts \<Longrightarrow> k \<in> set (concat (map itree_indices ts)) \<Longrightarrow> k < length (ag_nodes g)"
  by (auto simp: list_all_iff dest: itree_at_bound)

lemma trees_found_Cons:
  assumes "in_budget V s"
  shows "trees_found V (t # ts) s u \<longleftrightarrow> (\<exists>v. itree_found V t s v \<and> trees_found V ts v u)"
proof
  let ?v = "visited (itree_indices t) (itree_parts (va_graph V) t) s"
  assume f: "trees_found V (t # ts) s u"
  then have len: "length (av_states s) = length (ag_nodes (va_graph V))" and w: "in_budget V u"
    using assms by (auto simp: trees_found_def in_budget_def)
  have "in_budget V ?v"
    using f len by (auto simp: trees_found_def within_visited)
  moreover have "untouched_at (concat (map itree_indices ts)) ?v"
    using f len by (intro untouched_at_rest) (auto simp: trees_found_def list_all_iff dest: itree_at_bound)
  ultimately have "itree_found V t s ?v \<and> trees_found V ts ?v u"
    using f by (auto simp: trees_found_def itree_found_def visited_visited untouched_at_def)
  then show "\<exists>v. itree_found V t s v \<and> trees_found V ts v u" by blast
next
  assume "\<exists>v. itree_found V t s v \<and> trees_found V ts v u"
  then obtain v where t: "itree_found V t s v" and ts: "trees_found V ts v u" by blast
  have len: "length (av_states s) = length (ag_nodes (va_graph V))" using assms by (simp add: in_budget_def)
  have v: "v = visited (itree_indices t) (itree_parts (va_graph V) t) s" using t by (auto simp: itree_found_def)
  have "av_states v ! k = (if k \<in> set (itree_indices t) then 2 else av_states s ! k)"
    if "k \<in> set (concat (map itree_indices ts))" for k
  proof -
    have "list_all (itree_at (va_graph V)) ts" using ts by (simp add: trees_found_def)
    from concat_bound [OF this that] len show ?thesis by (simp add: v visited_def nth_marked)
  qed
  then have "untouched_at (itree_indices t @ concat (map itree_indices ts)) s"
    using t ts by (fastforce simp: untouched_at_def itree_found_def trees_found_def split: if_splits)
  then show "trees_found V (t # ts) s u"
    using t ts by (auto simp: trees_found_def itree_found_def visited_visited)
qed

lemma trees_found_Nil: "in_budget V s \<Longrightarrow> trees_found V [] s u \<longleftrightarrow> u = s"
  by (auto simp: trees_found_def untouched_at_def)

definition partial_name :: "archive_graph \<Rightarrow> archive_partial \<Rightarrow> string" where
  "partial_name g p = archiveSliceView g (ap_name p)"

definition names_ok :: "archive_graph \<Rightarrow> string option \<Rightarrow> archive_partial list \<Rightarrow> bool" where
  "names_ok g previous ps \<longleftrightarrow> list_all (\<lambda>p. slice_ok g (ap_name p)) ps
     \<and> list_all (\<lambda>p. partial_name g p \<noteq> []) ps
     \<and> sorted_wrt (<) ((case previous of None \<Rightarrow> [] | Some q \<Rightarrow> [q]) @ map (partial_name g) ps)"

lemma names_ok_Cons:
  "names_ok g previous (p # ps) \<longleftrightarrow> slice_ok g (ap_name p) \<and> partial_name g p \<noteq> []
     \<and> (case previous of None \<Rightarrow> True | Some q \<Rightarrow> q < partial_name g p) \<and> names_ok g (Some (partial_name g p)) ps"
  by (auto simp: names_ok_def split: option.splits)

lemma tree_found_within: "itree_found V t s u \<Longrightarrow> in_budget V u"
  by (auto simp: itree_found_def)

lemma validatePartial_Inr:
  "in_budget V s \<Longrightarrow> validatePartial V i s = (Inr (), u) \<longleftrightarrow> (\<exists>t. root_index t = i \<and> itree_found V t s u)"
  by (auto simp: validatePartial_def then_eff_Inr_iff validateTree_Inr itree_found_def itree_at_def)

lemma validateRoot_Inr:
  "in_budget V s \<Longrightarrow> validateRoot V i s = (Inr (), u) \<longleftrightarrow>
     node_type_of (graph_node (va_graph V) i) = TypeRoot \<and> (\<exists>t. root_index t = i \<and> itree_found V t s u)"
  by (auto simp: validateRoot_def then_eff_Inr_iff validateTree_Inr itree_found_def itree_at_def node_type_root)

lemma validatePartials_Inr:
  "in_budget V s \<Longrightarrow> validatePartials V previous ps s = (Inr (), u) \<longleftrightarrow>
     names_ok (va_graph V) previous ps \<and> (\<exists>ts. map root_index ts = map ap_root ps \<and> trees_found V ts s u)"
proof (induction ps arbitrary: previous s)
  case Nil
  then show ?case by (auto simp: names_ok_def trees_found_Nil split: option.splits)
next
  case (Cons p ps)
  have IH: "itree_found V t s v \<Longrightarrow> validatePartials V (Some (partial_name (va_graph V) p)) ps v = (Inr (), u) \<longleftrightarrow>
     names_ok (va_graph V) (Some (partial_name (va_graph V) p)) ps
     \<and> (\<exists>ts. map root_index ts = map ap_root ps \<and> trees_found V ts v u)" for t v
    by (rule Cons.IH) (rule tree_found_within)
  have trees: "(\<exists>ts. map root_index ts = map ap_root (p # ps) \<and> trees_found V ts s u) \<longleftrightarrow>
      (\<exists>t v ts. root_index t = ap_root p \<and> itree_found V t s v \<and> map root_index ts = map ap_root ps \<and> trees_found V ts v u)"
  proof
    assume "\<exists>ts. map root_index ts = map ap_root (p # ps) \<and> trees_found V ts s u"
    then show "\<exists>t v ts. root_index t = ap_root p \<and> itree_found V t s v \<and> map root_index ts = map ap_root ps \<and> trees_found V ts v u"
      by (auto simp: map_eq_Cons_conv trees_found_Cons [OF Cons.prems]) blast
  next
    assume "\<exists>t v ts. root_index t = ap_root p \<and> itree_found V t s v \<and> map root_index ts = map ap_root ps \<and> trees_found V ts v u"
    then obtain t v ts where "root_index t = ap_root p" "map root_index ts = map ap_root ps"
      "itree_found V t s v" "trees_found V ts v u" by blast
    then show "\<exists>ts. map root_index ts = map ap_root (p # ps) \<and> trees_found V ts s u"
      by (intro exI [of _ "t # ts"]) (auto simp: trees_found_Cons [OF Cons.prems])
  qed
  have "validatePartials V previous (p # ps) s = (Inr (), u) \<longleftrightarrow>
      slice_ok (va_graph V) (ap_name p) \<and> partial_name (va_graph V) p \<noteq> []
      \<and> (case previous of None \<Rightarrow> True | Some q \<Rightarrow> q < partial_name (va_graph V) p)
      \<and> (\<exists>v. validatePartial V (ap_root p) s = (Inr (), v)
           \<and> validatePartials V (Some (partial_name (va_graph V) p)) ps v = (Inr (), u))"
    by (auto simp: bind_eff_Inr_iff then_eff_Inr_iff trans [OF eq_commute validateString_Inr] partial_name_def
        split: option.splits)
  then show ?case
    unfolding names_ok_Cons trees validatePartial_Inr [OF Cons.prems] using IH by blast
qed

text \<open>
  The trees of an archive: one for the root and one for each partial, which share no node and
  leave none out.
\<close>

definition archive_trees :: "archive_graph \<Rightarrow> itree \<Rightarrow> itree list \<Rightarrow> bool" where
  "archive_trees g t ts \<longleftrightarrow> root_index t = ag_root g \<and> map root_index ts = map ap_root (ag_partials g)
     \<and> list_all (itree_at g) (t # ts)
     \<and> distinct (concat (map itree_indices (t # ts)))
     \<and> set (concat (map itree_indices (t # ts))) = {..<length (ag_nodes g)}"

definition archive_well_formed :: "archive_graph \<Rightarrow> archive_limits \<Rightarrow> bool" where
  "archive_well_formed g L \<longleftrightarrow>
     ag_magic g = archiveGraphMagic \<and> ag_version g = archiveSchemaVersion \<and> ag_nodes g \<noteq> []
     \<and> length (ag_nodes g) \<le> al_maxNodes L \<and> length (ag_strings g) \<le> al_maxTotalStringBytes L
     \<and> node_type_of (graph_node g (ag_root g)) = TypeRoot \<and> names_ok g None (ag_partials g)
     \<and> (\<exists>t ts. archive_trees g t ts \<and> list_all (itree_ok g L) (t # ts)
          \<and> sum_list (map (itree_parts g) (t # ts)) \<le> al_maxTotalDataParts L)"

lemma new_validator_found:
  assumes "length (ag_nodes g) \<le> al_maxNodes (va_limits V)" and [simp]: "va_graph V = g"
  shows "trees_found V ts (new_validator g) u \<and> av_nodes u = length (ag_nodes g) \<longleftrightarrow>
     list_all (itree_at g) ts \<and> list_all (itree_ok g (va_limits V)) ts
     \<and> distinct (concat (map itree_indices ts)) \<and> set (concat (map itree_indices ts)) = {..<length (ag_nodes g)}
     \<and> sum_list (map (itree_parts g) ts) \<le> al_maxTotalDataParts (va_limits V)
     \<and> u = visited (concat (map itree_indices ts)) (sum_list (map (itree_parts g) ts)) (new_validator g)"
  (is "?found \<longleftrightarrow> ?spec")
proof
  let ?ks = "concat (map itree_indices ts)"
  assume f: ?found
  then have at: "list_all (itree_at g) ts" and d: "distinct ?ks" and n: "length ?ks = length (ag_nodes g)"
    by (auto simp: trees_found_def untouched_at_def visited_def new_validator_def)
  have "set ?ks \<subseteq> {..<length (ag_nodes g)}" using at by (auto simp: list_all_iff dest: itree_at_bound)
  moreover have "card (set ?ks) = card {..<length (ag_nodes g)}" using d n by (simp only: distinct_card) simp
  ultimately have "set ?ks = {..<length (ag_nodes g)}" by (intro card_subset_eq) simp_all
  with f d show ?spec by (auto simp: trees_found_def within_visited new_validator_def)
next
  let ?ks = "concat (map itree_indices ts)"
  assume s: ?spec
  then have "length ?ks = length (ag_nodes g)" by (metis card_lessThan distinct_card)
  moreover have "untouched_at ?ks (new_validator g)" using s by (auto simp: untouched_at_def new_validator_def)
  ultimately show ?found
    using s assms(1) by (auto simp: trees_found_def in_budget_def new_validator_def visited_def)
qed

lemma validateGraph_Inr:
  assumes "length (ag_nodes g) \<le> al_maxNodes (va_limits V)" and g: "va_graph V = g"
  shows "fst (validateGraph V (new_validator g)) = Inr () \<longleftrightarrow>
     node_type_of (graph_node g (ag_root g)) = TypeRoot \<and> names_ok g None (ag_partials g)
     \<and> (\<exists>t ts. archive_trees g t ts \<and> list_all (itree_ok g (va_limits V)) (t # ts)
          \<and> sum_list (map (itree_parts g) (t # ts)) \<le> al_maxTotalDataParts (va_limits V))"
proof -
  have w: "in_budget V (new_validator g)" using g by (simp add: in_budget_def new_validator_def)
  have "fst (validateGraph V (new_validator g)) = Inr () \<longleftrightarrow>
      (\<exists>s u. validateRoot V (ag_root g) (new_validator g) = (Inr (), s)
         \<and> validatePartials V None (ag_partials g) s = (Inr (), u) \<and> av_nodes u = length (ag_nodes g))"
  proof -
    have "fst (validateGraph V (new_validator g)) = Inr () \<longleftrightarrow> (\<exists>u. validateGraph V (new_validator g) = (Inr (), u))"
      by (metis fst_conv prod.collapse)
    then show ?thesis using g by (auto simp: validateGraph_def then_eff_Inr_iff)
  qed
  also have "\<dots> \<longleftrightarrow> node_type_of (graph_node g (ag_root g)) = TypeRoot \<and> names_ok g None (ag_partials g)
      \<and> (\<exists>t ts. root_index t = ag_root g \<and> map root_index ts = map ap_root (ag_partials g)
           \<and> (\<exists>u. trees_found V (t # ts) (new_validator g) u \<and> av_nodes u = length (ag_nodes g)))"
    unfolding validateRoot_Inr [OF w] trees_found_Cons [OF w] g
    using validatePartials_Inr tree_found_within g by blast
  also have "\<dots> \<longleftrightarrow> node_type_of (graph_node g (ag_root g)) = TypeRoot \<and> names_ok g None (ag_partials g)
      \<and> (\<exists>t ts. archive_trees g t ts \<and> list_all (itree_ok g (va_limits V)) (t # ts)
          \<and> sum_list (map (itree_parts g) (t # ts)) \<le> al_maxTotalDataParts (va_limits V))"
    unfolding new_validator_found [OF assms] archive_trees_def by blast
  finally show ?thesis .
qed

lemma validateGraphHeader_Inr:
  "validateGraphHeader V n = Inr () \<longleftrightarrow>
     ag_magic (va_graph V) = archiveGraphMagic \<and> ag_nodes (va_graph V) \<noteq> []
     \<and> ag_version (va_graph V) = archiveSchemaVersion
     \<and> length (ag_nodes (va_graph V)) \<le> al_maxNodes (va_limits V)
     \<and> (n = 0 \<or> unat (ag_serializedSize (va_graph V)) = n)
     \<and> length (ag_strings (va_graph V)) \<le> al_maxTotalStringBytes (va_limits V)"
  by (auto simp: validateGraphHeader_def Let_def)

lemma archive_checks_iff:
  "validateGraphHeader \<lparr>va_graph = g, va_limits = limits, va_context = c\<rparr> n = Inr ()
     \<and> fst (validateGraph \<lparr>va_graph = g, va_limits = limits, va_context = c\<rparr> (new_validator g)) = Inr () \<longleftrightarrow>
   archive_well_formed g limits \<and> (n = 0 \<or> unat (ag_serializedSize g) = n)"
  using validateGraph_Inr [of g "\<lparr>va_graph = g, va_limits = limits, va_context = c\<rparr>"]
  by (auto simp: validateGraphHeader_Inr archive_well_formed_def)

text \<open>
  C6. The validator accepts exactly the well-formed archives within the limits: the right magic
  and schema, nodes that are the disjoint union of the root's tree and the partials' trees with
  none left over, every node valid, every string range inside the string table, partial names
  not empty and strictly increasing, and nesting, node, string and data-part limits kept; for
  loaded bytes also the recorded length. No cycle, shared node or dangling index passes.
\<close>

theorem validateArchive_iff:
  "validateArchive g limits inputBytes context = Inr () \<longleftrightarrow>
     archive_well_formed g limits \<and> (inputBytes = 0 \<or> unat (ag_serializedSize g) = inputBytes)"
  unfolding archive_checks_iff [of g limits "context" inputBytes, symmetric]
  by (simp add: validateArchive_def bind_result_Inr_iff Let_def)

text \<open>
  C29. The bound on the validator's recursion is never what ends it: any larger number of levels
  gives the same verdict on every graph, cyclic ones included.
\<close>

theorem validation_levels_suffice:
  assumes "validation_levels V \<le> n"
  shows "validateNode (validateChildren n V) V index 0 False (new_validator (va_graph V))
      = validateTree V index (new_validator (va_graph V))"
  unfolding validateTree_def
proof (rule validateNode_levels)
  fix i d t assume "untouched t < untouched (new_validator (va_graph V))"
    and len: "length (av_states t) = length (ag_nodes (va_graph V))"
  have "untouched t \<le> length (av_states t)"
  proof -
    have "untouched t \<le> card {..<length (av_states t)}" unfolding untouched_def by (rule card_mono) auto
    then show ?thesis by simp
  qed
  then show "validateChildren n V i d t = validateChildren (validation_levels V) V i d t"
    using assms len by (intro validateChildren_levels) (auto simp: validation_levels_def)
qed (simp add: new_validator_def)

end
