(* ===== verification/Archive_Build_Props.thy ===== *)
theory Archive_Build_Props
  imports Archive Archive_Valid
begin

text \<open>
  What the builder promises: the graph it returns holds the template and its partials. The view
  of the graph's root is the tree that went in, as far as an archive keeps it, and looking up a
  partial finds what the renderer would have found among the partials that went in.
\<close>

section \<open>Dotted names\<close>

text \<open>Both the splitting a node keeps and the cursor over an archived name yield these pieces.\<close>

fun pieces :: "string \<Rightarrow> string list" where
  "pieces [] = [[]]"
| "pieces (c # cs) =
     (if c = CHR ''.'' then [] # pieces cs
      else (case pieces cs of [] \<Rightarrow> [[c]] | p # ps \<Rightarrow> (c # p) # ps))"

lemma pieces_not_Nil [simp]: "pieces v \<noteq> []"
  by (induction v) (auto split: list.splits)

lemma length_pieces: "length (pieces v) = data_part_count v"
  by (induction v) (auto simp: data_part_count_def split: list.splits)

lemma pieces_None: "find_idx (\<lambda>c. c = CHR ''.'') v = None \<Longrightarrow> pieces v = [v]"
  by (induction v) (auto split: if_splits)

lemma pieces_Some:
  "find_idx (\<lambda>c. c = CHR ''.'') v = Some i \<Longrightarrow> pieces v = take i v # pieces (drop (Suc i) v)"
  by (induction v arbitrary: i) (auto split: if_splits list.splits)

lemma find_sub_dot: "find_sub ''.'' v = find_idx (\<lambda>c. c = CHR ''.'') v"
  by (induction v) auto

lemma explode_loop_pieces: "explode_loop ''.'' v start = pieces (drop start v)"
proof (induction "''.''" v start rule: explode_loop.induct)
  case (1 v start)
  show ?case
  proof (cases "find_idx (\<lambda>c. c = CHR ''.'') (drop start v)")
    case None
    then show ?thesis by (subst explode_loop.simps) (simp add: find_sub_dot pieces_None)
  next
    case (Some i)
    then have "explode_loop ''.'' v (start + i + 1) = pieces (drop (start + i + 1) v)"
      using 1 by (simp add: find_sub_dot)
    with Some show ?thesis
      by (subst explode_loop.simps) (simp add: find_sub_dot pieces_Some [OF Some] ac_simps)
  qed
qed

lemma cursor_pieces:
  "pc_valid c \<Longrightarrow> pc_stop c = find_dot (pc_value c) (pc_start c) \<Longrightarrow>
     length (pieces (drop (pc_start c) (pc_value c))) \<le> n \<Longrightarrow>
     cursor_values n c = pieces (drop (pc_start c) (pc_value c))"
proof (induction n arbitrary: c)
  case 0
  then show ?case by simp
next
  case (Suc n)
  show ?case
  proof (cases "find_idx (\<lambda>c. c = CHR ''.'') (drop (pc_start c) (pc_value c))")
    case None
    with Suc.prems show ?thesis
      by (cases n) (auto simp: find_dot_def find_from_def part_value_def part_advance_def pieces_None)
  next
    case (Some i)
    have "cursor_values n (part_advance c) = pieces (drop (pc_start c + i + 1) (pc_value c))"
      using Suc.IH [of "part_advance c"] Suc.prems pieces_Some [OF Some] Some
      by (simp add: part_advance_def find_dot_def find_from_def ac_simps)
    with Suc.prems pieces_Some [OF Some] Some show ?thesis
      by (simp add: find_dot_def find_from_def part_value_def ac_simps)
  qed
qed

text \<open>
  The parts the cursor gives for a name are those \<open>setData\<close> keeps in a node: none for a name
  without a dot.
\<close>

lemma cursor_data_parts:
  "cursor_values (data_part_count v) (if \<not> type_and ty TypeHasDot then no_parts else first_part v)
     = data_parts_of ty v"
proof (cases "type_and ty TypeHasDot \<and> find_idx (\<lambda>c. c = CHR ''.'') v \<noteq> None")
  case True
  then have "cursor_values (data_part_count v) (first_part v) = pieces v"
    using cursor_pieces [of "first_part v" "data_part_count v"]
    by (simp add: first_part_def find_dot_def find_from_def length_pieces)
  with True show ?thesis by (simp add: data_parts_of_def explode_def explode_loop_pieces)
next
  case False
  then show ?thesis
    by (cases "data_part_count v")
      (auto simp: data_parts_of_def no_parts_def first_part_def find_dot_def find_from_def)
qed

section \<open>Slices\<close>

definition strings_of :: "builder \<Rightarrow> string" where
  "strings_of s = ag_strings (bd_graph s)"

definition nodes_of :: "builder \<Rightarrow> archive_node list" where
  "nodes_of s = ag_nodes (bd_graph s)"

lemma slice_extend:
  assumes "slice_ok g v" and "ag_strings g' = ag_strings g @ w"
  shows "slice_ok g' v" and "archiveSliceView g' v = archiveSliceView g v"
  using assms by (auto simp: slice_ok_def archiveSliceView_def)

lemma unat_small: "n \<le> max_uint32 \<Longrightarrow> unat (word_of_nat n :: 32 word) = n"
  by (simp add: max_uint32_def unsigned_of_nat take_bit_nat_eq_self)

lemma slice_text:
  assumes g: "ag_strings g = pre @ v @ post" and len: "length pre + length v \<le> max_uint32"
  shows "slice_ok g \<lparr>as_offset = word_of_nat (length pre), as_length = word_of_nat (length v)\<rparr>"
    and "archiveSliceView g \<lparr>as_offset = word_of_nat (length pre), as_length = word_of_nat (length v)\<rparr> = v"
proof -
  have u: "unat (word_of_nat (length pre) :: 32 word) = length pre" "unat (word_of_nat (length v) :: 32 word) = length v"
    using len by (auto intro: unat_small)
  show "slice_ok g \<lparr>as_offset = word_of_nat (length pre), as_length = word_of_nat (length v)\<rparr>"
    unfolding slice_ok_def archive_slice.simps u g by simp
  show "archiveSliceView g \<lparr>as_offset = word_of_nat (length pre), as_length = word_of_nat (length v)\<rparr> = v"
  proof (cases "v = []")
    case False
    then have "(word_of_nat (length v) :: 32 word) \<noteq> 0" using u(2) by (metis length_0_conv unsigned_0)
    then show ?thesis unfolding archiveSliceView_def archive_slice.simps u g by simp
  qed (simp add: archiveSliceView_def)
qed

section \<open>Fields\<close>

definition opt_text :: "string option \<Rightarrow> string" where
  "opt_text v = (case v of None \<Rightarrow> [] | Some t \<Rightarrow> t)"

definition grow_strings :: "string \<Rightarrow> builder \<Rightarrow> builder" where
  "grow_strings w s = s\<lparr>bd_graph := (bd_graph s)\<lparr>ag_strings := ag_strings (bd_graph s) @ w\<rparr>\<rparr>"

lemma grow_strings_simps [simp]:
  "strings_of (grow_strings w s) = strings_of s @ w" "nodes_of (grow_strings w s) = nodes_of s"
  "bd_sourceOffsets (grow_strings w s) = bd_sourceOffsets s"
  "ag_partials (bd_graph (grow_strings w s)) = ag_partials (bd_graph s)"
  by (simp_all add: grow_strings_def strings_of_def nodes_of_def)

lemma appendString_eq:
  "appendString v s = (Inr \<lparr>as_offset = word_of_nat (length (strings_of s)), as_length = word_of_nat (length v)\<rparr>,
     grow_strings v s)"
  by (simp add: appendString_def eff_defs strings_of_def grow_strings_def)

definition text_slice :: "nat \<Rightarrow> string option \<Rightarrow> archive_slice" where
  "text_slice offset v =
     (case v of None \<Rightarrow> empty_slice
      | Some t \<Rightarrow> \<lparr>as_offset = word_of_nat offset, as_length = word_of_nat (length t)\<rparr>)"

lemma appendPresent_eq:
  "appendPresent v b put n s =
     (Inr (case v of None \<Rightarrow> n
           | Some t \<Rightarrow> put (text_slice (length (strings_of s)) v) (n\<lparr>an_presence := an_presence n OR b\<rparr>)),
      grow_strings (opt_text v) s)"
  by (cases v)
    (simp_all add: appendPresent_def bind_eff_def appendString_eq text_slice_def opt_text_def grow_strings_def ret_def)

text \<open>A field of the node holds a text of the tree, or is absent with it.\<close>

definition field_holds :: "archive_graph \<Rightarrow> archive_node \<Rightarrow> archive_slice \<Rightarrow> 8 word \<Rightarrow> string option \<Rightarrow> bool" where
  "field_holds g a v b t \<longleftrightarrow> slice_ok g v \<and> view_string g a v b = t \<and> (t = None \<longrightarrow> v = empty_slice)"

lemma empty_slice_ok [simp]: "slice_ok g empty_slice" "archiveSliceView g empty_slice = []"
  by (simp_all add: slice_ok_def empty_slice_def archiveSliceView_def)

lemma field_holds_text:
  assumes "ag_strings g = pre @ opt_text t @ post" and "length pre + length (opt_text t) \<le> max_uint32"
    and "has_presence a b \<longleftrightarrow> t \<noteq> None"
  shows "field_holds g a (text_slice (length pre) t) b t"
  using assms slice_text [of g pre "opt_text t" post]
  by (cases t) (auto simp: field_holds_def view_string_def text_slice_def opt_text_def)

lemma field_holds_extend:
  "field_holds g a v b t \<Longrightarrow> ag_strings g' = ag_strings g @ w \<Longrightarrow> field_holds g' a v b t"
  using slice_extend [of g v g' w] by (auto simp: field_holds_def view_string_def)

definition basic_node :: "node \<Rightarrow> nat \<Rightarrow> archive_node" where
  "basic_node n o' =
     new_archive_node
       \<lparr>an_type := word_of_nat (node_type_value (ntype n)), an_flags := word_of_int (nflags n),
        an_presence := (if ndata n = None then 0 else HasData)
          OR (if startSequence n = None then 0 else HasStartSequence)
          OR (if stopSequence n = None then 0 else HasStopSequence),
        an_data := text_slice o' (ndata n),
        an_startSequence := text_slice (o' + length (opt_text (ndata n))) (startSequence n),
        an_stopSequence := text_slice (o' + length (opt_text (ndata n)) + length (opt_text (startSequence n)))
          (stopSequence n)\<rparr>"

lemma appendFields_eq:
  "appendFields n s = appendOriginal n (basic_node n (length (strings_of s)))
     (grow_strings (opt_text (ndata n) @ opt_text (startSequence n) @ opt_text (stopSequence n)) s)"
proof -
  have grow: "grow_strings w (grow_strings v s) = grow_strings (v @ w) s" for v w and s :: builder
    by (simp add: grow_strings_def)
  show ?thesis
    unfolding appendFields_def bind_eff_def appendPresent_eq
    by (cases "ndata n"; cases "startSequence n"; cases "stopSequence n")
      (simp_all add: grow basic_node_def new_archive_node_def text_slice_def opt_text_def HasData_def
        HasStartSequence_def HasStopSequence_def)
qed

section \<open>Source buffers\<close>

text \<open>
  The identity of a source buffer stands for one string: \<open>texts\<close> gives it. A section's range
  lies in its buffer, as in every tree the tokenizer returns.
\<close>

definition well_sourced :: "(nat \<Rightarrow> string) \<Rightarrow> node \<Rightarrow> bool" where
  "well_sourced texts n \<longleftrightarrow>
     (case sectionSource n of None \<Rightarrow> True
      | Some src \<Rightarrow> buffer_text src = texts (buffer_id src) \<and> sectionBegin n \<le> length (buffer_text src))"

definition section_source :: "node \<Rightarrow> source_buffer option" where
  "section_source n = (if ntype n = TypeSection then sectionSource n else None)"

lemma original_source:
  "originalSectionText n = map_option (\<lambda>src. take (sectionLength n) (drop (sectionBegin n) (buffer_text src))) (section_source n)"
  by (simp add: originalSectionText_def section_source_def split: option.split)

definition source_bytes :: "nat set \<Rightarrow> node \<Rightarrow> nat" where
  "source_bytes K n = (case section_source n of None \<Rightarrow> 0
     | Some src \<Rightarrow> if buffer_id src \<in> K then 0 else length (buffer_text src))"

definition node_bytes :: "nat set \<Rightarrow> node \<Rightarrow> nat" where
  "node_bytes K n = length (opt_text (ndata n)) + length (opt_text (startSequence n))
     + length (opt_text (stopSequence n)) + source_bytes K n"

definition sources_after :: "nat set \<Rightarrow> node \<Rightarrow> nat set" where
  "sources_after K n = (case section_source n of None \<Rightarrow> K | Some src \<Rightarrow> insert (buffer_id src) K)"

text \<open>Where the buffers in \<open>K\<close> lie in the string table; the others are not in it yet.\<close>

definition places :: "(nat \<Rightarrow> string) \<Rightarrow> nat set \<Rightarrow> builder \<Rightarrow> bool" where
  "places texts K s \<longleftrightarrow>
     (\<forall>ident\<in>K. \<exists>offset. map_of (bd_sourceOffsets s) ident = Some offset
        \<and> unat offset + length (texts ident) \<le> length (strings_of s)
        \<and> take (length (texts ident)) (drop (unat offset) (strings_of s)) = texts ident)
     \<and> (\<forall>ident offset. ident \<notin> K \<longrightarrow> map_of (bd_sourceOffsets s) ident = Some offset \<longrightarrow> offset = invalidIndex)"

lemma places_same:
  "strings_of t = strings_of s \<Longrightarrow> bd_sourceOffsets t = bd_sourceOffsets s \<Longrightarrow> places texts K t = places texts K s"
  by (simp add: places_def)

lemma places_grow: "places texts K s \<Longrightarrow> places texts K (grow_strings w s)"
  by (fastforce simp: places_def)

definition place :: "nat \<Rightarrow> 32 word \<Rightarrow> builder \<Rightarrow> builder" where
  "place ident offset s = s\<lparr>bd_sourceOffsets := (ident, offset) # bd_sourceOffsets s\<rparr>"

lemma place_simps [simp]:
  "strings_of (place ident offset s) = strings_of s" "nodes_of (place ident offset s) = nodes_of s"
  "bd_graph (place ident offset s) = bd_graph s"
  "bd_sourceOffsets (place ident offset s) = (ident, offset) # bd_sourceOffsets s"
  by (simp_all add: place_def strings_of_def nodes_of_def)

lemma sourceOffset_run:
  assumes run: "sourceOffset src s = (Inr offset, t)" and pl: "places texts K s"
    and agree: "buffer_text src = texts (buffer_id src)"
    and room: "length (strings_of s) + (if buffer_id src \<in> K then 0 else length (buffer_text src)) \<le> max_uint32"
  shows "places texts (insert (buffer_id src) K) t"
    and "unat offset + length (buffer_text src) \<le> length (strings_of t)"
    and "take (length (buffer_text src)) (drop (unat offset) (strings_of t)) = buffer_text src"
    and "\<exists>w. strings_of t = strings_of s @ w \<and> length w = (if buffer_id src \<in> K then 0 else length (buffer_text src))"
    and "nodes_of t = nodes_of s" and "ag_partials (bd_graph t) = ag_partials (bd_graph s)"
proof -
  let ?ident = "buffer_id src" and ?v = "buffer_text src"
  obtain known where k: "map_of (bd_sourceOffsets s) ?ident = Some known"
    using run by (auto simp: sourceOffset_def bind_eff_Inr_iff split: option.splits)
  have placed: "unat known + length ?v \<le> length (strings_of s)"
      "take (length ?v) (drop (unat known) (strings_of s)) = ?v" if "?ident \<in> K"
    using pl that k agree by (auto simp: places_def)
  have "(offset = known \<and> t = s \<and> ?ident \<in> K) \<or>
     (offset = word_of_nat (length (strings_of s)) \<and> t = place ?ident offset (grow_strings ?v s)
       \<and> length ?v = (if ?ident \<in> K then 0 else length ?v))"
  proof (cases "known = invalidIndex")
    case True
    have "unat known = max_uint32" using True by (simp add: invalidIndex_def max_uint32_def)
    moreover have "length (strings_of s) \<le> max_uint32" using room by simp
    ultimately have "length ?v = 0" if "?ident \<in> K" using placed(1) [OF that] by linarith
    with True run k show ?thesis
      by (auto simp: sourceOffset_def bind_eff_Inr_iff then_eff_Inr_iff appendString_eq place_def)
  next
    case False
    with pl k have "?ident \<in> K" by (auto simp: places_def)
    with False run k show ?thesis by (auto simp: sourceOffset_def bind_eff_Inr_iff)
  qed
  then have all: "places texts (insert ?ident K) t \<and> unat offset + length ?v \<le> length (strings_of t)
     \<and> take (length ?v) (drop (unat offset) (strings_of t)) = ?v
     \<and> (\<exists>w. strings_of t = strings_of s @ w \<and> length w = (if ?ident \<in> K then 0 else length ?v))
     \<and> nodes_of t = nodes_of s \<and> ag_partials (bd_graph t) = ag_partials (bd_graph s)"
  proof (elim disjE conjE)
    assume "offset = known" "t = s" "?ident \<in> K"
    with placed pl show ?thesis by (simp add: insert_absorb)
  next
    assume o': "offset = word_of_nat (length (strings_of s))" and t: "t = place ?ident offset (grow_strings ?v s)"
      and v: "length ?v = (if ?ident \<in> K then 0 else length ?v)"
    have u: "unat offset = length (strings_of s)"
      unfolding o' by (rule unat_small) (use room in simp)
    have "places texts (insert ?ident K) t"
      using places_grow [OF pl, of ?v] u agree by (auto simp: places_def t)
    with u v t show ?thesis by auto
  qed
  show "places texts (insert ?ident K) t" "unat offset + length ?v \<le> length (strings_of t)"
    "take (length ?v) (drop (unat offset) (strings_of t)) = ?v"
    "\<exists>w. strings_of t = strings_of s @ w \<and> length w = (if ?ident \<in> K then 0 else length ?v)"
    "nodes_of t = nodes_of s" "ag_partials (bd_graph t) = ag_partials (bd_graph s)"
    using all by blast+
qed

section \<open>Stored nodes\<close>

text \<open>No other presence bit is set.\<close>

definition known_presence :: "archive_node \<Rightarrow> bool" where
  "known_presence a \<longleftrightarrow>
     an_presence a AND NOT (HasData OR HasStartSequence OR HasStopSequence OR HasOriginalSectionText) = 0"

lemma known_presence_links [simp]:
  "known_presence (a\<lparr>an_nextSibling := i\<rparr>) = known_presence a" "known_presence (a\<lparr>an_firstChild := i\<rparr>) = known_presence a"
  by (simp_all add: known_presence_def)

definition stored :: "archive_graph \<Rightarrow> archive_node \<Rightarrow> node \<Rightarrow> bool" where
  "stored g a n \<longleftrightarrow> node_type_of a = ntype n \<and> node_flags_of a = nflags n
     \<and> field_holds g a (an_data a) HasData (ndata n)
     \<and> field_holds g a (an_startSequence a) HasStartSequence (startSequence n)
     \<and> field_holds g a (an_stopSequence a) HasStopSequence (stopSequence n)
     \<and> field_holds g a (an_originalSectionText a) HasOriginalSectionText (originalSectionText n)
     \<and> known_presence a
     \<and> an_reserved0 a = 0 \<and> an_reserved1 a = 0 \<and> an_reserved2 a = 0"

lemma stored_links [simp]:
  "stored g (a\<lparr>an_nextSibling := i\<rparr>) n = stored g a n" "stored g (a\<lparr>an_firstChild := i\<rparr>) n = stored g a n"
  by (simp_all add: stored_def node_type_of_def node_flags_of_def field_holds_def view_string_def has_presence_def)

lemma stored_extend: "stored g a n \<Longrightarrow> ag_strings g' = ag_strings g @ w \<Longrightarrow> stored g' a n"
  by (auto simp: stored_def intro: field_holds_extend)

lemma type_roundtrip:
  "isSerializableType ty \<Longrightarrow> node_type_of_value (unat (word_of_nat (node_type_value ty) :: 16 word)) = ty"
  by (cases ty) (simp_all add: isSerializableType_def isSerializableTypeValue_def serializable_types_def node_type_of_value_def)

lemma flags_roundtrip: "0 \<le> f \<Longrightarrow> f \<le> 65535 \<Longrightarrow> uint (word_of_int f :: 16 word) = f"
  by (simp add: unsigned_of_int take_bit_int_eq_self)

lemma basic_node_presence:
  "has_presence (basic_node n p) HasData \<longleftrightarrow> ndata n \<noteq> None"
  "has_presence (basic_node n p) HasStartSequence \<longleftrightarrow> startSequence n \<noteq> None"
  "has_presence (basic_node n p) HasStopSequence \<longleftrightarrow> stopSequence n \<noteq> None"
  "\<not> has_presence (basic_node n p) HasOriginalSectionText"
  by (cases "ndata n = None"; cases "startSequence n = None"; cases "stopSequence n = None";
      simp add: has_presence_def basic_node_def presence_defs)+

lemma basic_node_clean:
  "known_presence (basic_node n p)"
  "known_presence ((basic_node n p)\<lparr>an_presence := an_presence (basic_node n p) OR HasOriginalSectionText,
     an_originalSectionText := v\<rparr>)"
  "an_reserved0 (basic_node n p) = 0" "an_reserved1 (basic_node n p) = 0" "an_reserved2 (basic_node n p) = 0"
  by (simp_all add: known_presence_def basic_node_def new_archive_node_def presence_defs bit.conj_disj_distrib2)

lemma basic_node_fields:
  "an_data (basic_node n p) = text_slice p (ndata n)"
  "an_startSequence (basic_node n p) = text_slice (p + length (opt_text (ndata n))) (startSequence n)"
  "an_stopSequence (basic_node n p) =
     text_slice (p + length (opt_text (ndata n)) + length (opt_text (startSequence n))) (stopSequence n)"
  "an_originalSectionText (basic_node n p) = empty_slice"
  "an_firstChild (basic_node n p) = invalidIndex" "an_nextSibling (basic_node n p) = invalidIndex"
  "an_type (basic_node n p) = word_of_nat (node_type_value (ntype n))"
  "an_flags (basic_node n p) = word_of_int (nflags n)"
  by (simp_all add: basic_node_def new_archive_node_def)

lemma field_holds_presence:
  "field_holds g a v b t \<Longrightarrow> has_presence a' b = has_presence a b \<Longrightarrow> field_holds g a' v b t"
  by (simp add: field_holds_def view_string_def)

lemma basic_node_holds:
  assumes g: "ag_strings g = strings @ opt_text (ndata n) @ opt_text (startSequence n) @ opt_text (stopSequence n) @ w"
    and room: "length strings + length (opt_text (ndata n)) + length (opt_text (startSequence n))
        + length (opt_text (stopSequence n)) \<le> max_uint32"
  shows "field_holds g (basic_node n (length strings)) (an_data (basic_node n (length strings))) HasData (ndata n)"
    and "field_holds g (basic_node n (length strings)) (an_startSequence (basic_node n (length strings)))
        HasStartSequence (startSequence n)"
    and "field_holds g (basic_node n (length strings)) (an_stopSequence (basic_node n (length strings)))
        HasStopSequence (stopSequence n)"
proof -
  let ?a = "basic_node n (length strings)"
  show "field_holds g ?a (an_data ?a) HasData (ndata n)"
    unfolding basic_node_fields
    using field_holds_text [of g strings "ndata n" _ ?a HasData] g room by (simp add: basic_node_presence)
  show "field_holds g ?a (an_startSequence ?a) HasStartSequence (startSequence n)"
    unfolding basic_node_fields
    using field_holds_text [of g "strings @ opt_text (ndata n)" "startSequence n" _ ?a HasStartSequence] g room
    by (simp add: basic_node_presence)
  show "field_holds g ?a (an_stopSequence ?a) HasStopSequence (stopSequence n)"
    unfolding basic_node_fields
    using field_holds_text [of g "strings @ opt_text (ndata n) @ opt_text (startSequence n)" "stopSequence n" _ ?a
        HasStopSequence] g room
    by (simp add: basic_node_presence ac_simps)
qed

text \<open>The original text of a section is a part of its buffer, which is in the table.\<close>

lemma original_slice:
  assumes "unat offset + length v \<le> length (ag_strings g)" and "take (length v) (drop (unat offset) (ag_strings g)) = v"
    and "b \<le> length v" and "length (ag_strings g) \<le> max_uint32"
  shows "slice_ok g \<lparr>as_offset = word_of_nat (unat offset + b), as_length = word_of_nat (length (take l (drop b v)))\<rparr>"
    and "archiveSliceView g \<lparr>as_offset = word_of_nat (unat offset + b), as_length = word_of_nat (length (take l (drop b v)))\<rparr>
       = take l (drop b v)"
proof -
  let ?pre = "take (unat offset + b) (ag_strings g)" and ?t = "take l (drop b v)"
  define m where "m = min l (length v - b)"
  define D where "D = drop (unat offset + b) (ag_strings g)"
  have "drop b v = take (length v - b) D"
    by (subst assms(2) [symmetric]) (simp add: drop_take D_def add.commute)
  then have t: "?t = take m D" by (simp add: m_def min.commute)
  have "?t @ drop m D = D" by (simp add: t)
  then have g: "ag_strings g = ?pre @ ?t @ drop m D" by (simp add: D_def)
  have pre: "length ?pre = unat offset + b" using assms by simp
  have "length ?pre + length ?t \<le> max_uint32"
    using assms(4) arg_cong [OF g, of length, unfolded length_append] by linarith
  from slice_text [OF g this] show
    "slice_ok g \<lparr>as_offset = word_of_nat (unat offset + b), as_length = word_of_nat (length ?t)\<rparr>"
    "archiveSliceView g \<lparr>as_offset = word_of_nat (unat offset + b), as_length = word_of_nat (length ?t)\<rparr> = ?t"
    unfolding pre by simp_all
qed

text \<open>Everything the fields of a node add to the tables.\<close>

lemma appendFields_run:
  assumes run: "appendFields n s = (Inr a, t)" and pl: "places texts K s" and src: "well_sourced texts n"
    and room: "length (strings_of s) + node_bytes K n \<le> max_uint32"
    and ty: "isSerializableType (ntype n)" and fl: "0 \<le> nflags n" "nflags n \<le> 65535"
  shows "stored (bd_graph t) a n" and "places texts (sources_after K n) t"
    and "\<exists>w. strings_of t = strings_of s @ w \<and> length w = node_bytes K n"
    and "nodes_of t = nodes_of s" and "ag_partials (bd_graph t) = ag_partials (bd_graph s)"
    and "an_firstChild a = invalidIndex" and "an_nextSibling a = invalidIndex"
proof -
  let ?b = "basic_node n (length (strings_of s))"
  let ?v = "opt_text (ndata n) @ opt_text (startSequence n) @ opt_text (stopSequence n)"
  let ?u = "grow_strings ?v s"
  note run' = run [unfolded appendFields_eq]
  have kinds: "node_type_of ?b = ntype n" "node_flags_of ?b = nflags n"
    using ty fl by (simp_all add: node_type_of_def node_flags_of_def basic_node_fields type_roundtrip flags_roundtrip)
  have basics: "field_holds g ?b (an_data ?b) HasData (ndata n)"
      "field_holds g ?b (an_startSequence ?b) HasStartSequence (startSequence n)"
      "field_holds g ?b (an_stopSequence ?b) HasStopSequence (stopSequence n)"
    if "ag_strings g = strings_of ?u @ w" for g w
    using basic_node_holds [of g "strings_of s" n w] that room by (simp_all add: node_bytes_def)
  have all: "stored (bd_graph t) a n \<and> places texts (sources_after K n) t
     \<and> (\<exists>w. strings_of t = strings_of s @ w \<and> length w = node_bytes K n)
     \<and> nodes_of t = nodes_of s \<and> ag_partials (bd_graph t) = ag_partials (bd_graph s)
     \<and> an_firstChild a = invalidIndex \<and> an_nextSibling a = invalidIndex"
  proof (cases "section_source n")
    case None
    then have o': "originalSectionText n = None" by (simp add: original_source)
    with run' have at: "a = ?b" "t = ?u" by (simp_all add: appendOriginal_def)
    have "field_holds (bd_graph t) ?b (an_originalSectionText ?b) HasOriginalSectionText None"
      by (simp add: field_holds_def view_string_def basic_node_presence basic_node_fields)
    moreover have "ag_strings (bd_graph t) = strings_of ?u @ []" by (simp add: at strings_of_def [symmetric])
    note basics [OF this]
    ultimately have "stored (bd_graph t) ?b n" using kinds o' by (simp add: stored_def basic_node_clean)
    then show ?thesis
      using pl at None
      by (simp add: places_grow sources_after_def node_bytes_def source_bytes_def basic_node_fields)
  next
    case (Some sb)
    then have sec: "sectionSource n = Some sb" by (simp add: section_source_def split: if_splits)
    define text' where "text' = take (sectionLength n) (drop (sectionBegin n) (buffer_text sb))"
    have o': "originalSectionText n = Some text'" using Some by (simp add: original_source text'_def)
    from run' sec o' obtain offset where off: "sourceOffset sb ?u = (Inr offset, t)"
      and a: "a = ?b\<lparr>an_presence := an_presence ?b OR HasOriginalSectionText,
          an_originalSectionText := \<lparr>as_offset = word_of_nat (unat offset + sectionBegin n),
            as_length = word_of_nat (length text')\<rparr>\<rparr>"
      by (auto simp: appendOriginal_def bind_eff_Inr_iff)
    have agree: "buffer_text sb = texts (buffer_id sb)" "sectionBegin n \<le> length (buffer_text sb)"
      using src sec by (auto simp: well_sourced_def)
    have room': "length (strings_of ?u) + (if buffer_id sb \<in> K then 0 else length (buffer_text sb)) \<le> max_uint32"
      using room Some by (simp add: node_bytes_def source_bytes_def)
    note off_run = sourceOffset_run [OF off places_grow [OF pl] agree(1) room']
    obtain w where w: "strings_of t = strings_of ?u @ w"
      "length w = (if buffer_id sb \<in> K then 0 else length (buffer_text sb))" using off_run(4) by blast
    have bound: "length (ag_strings (bd_graph t)) \<le> max_uint32"
      using w room' by (simp add: strings_of_def [symmetric])
    have pres: "has_presence a HasData = has_presence ?b HasData"
        "has_presence a HasStartSequence = has_presence ?b HasStartSequence"
        "has_presence a HasStopSequence = has_presence ?b HasStopSequence" "has_presence a HasOriginalSectionText"
      by (simp_all add: a has_presence_def presence_defs bit.conj_disj_distrib2)
    have "field_holds (bd_graph t) a (an_originalSectionText a) HasOriginalSectionText (Some text')"
      using original_slice [OF off_run(2,3) [unfolded strings_of_def] agree(2) bound, of "sectionLength n"] pres
      by (simp add: field_holds_def view_string_def a text'_def)
    moreover have "an_data a = an_data ?b" "an_startSequence a = an_startSequence ?b"
      "an_stopSequence a = an_stopSequence ?b" "node_type_of a = node_type_of ?b" "node_flags_of a = node_flags_of ?b"
      "an_firstChild a = invalidIndex" "an_nextSibling a = invalidIndex"
      "an_reserved0 a = 0" "an_reserved1 a = 0" "an_reserved2 a = 0"
      by (simp_all add: a node_type_of_def node_flags_of_def basic_node_fields basic_node_clean)
    moreover have "known_presence a" by (simp add: a basic_node_clean)
    moreover have gs: "ag_strings (bd_graph t) = strings_of ?u @ w" using w by (simp add: strings_of_def [symmetric])
    moreover note field_holds_presence [OF basics(1) [OF gs] pres(1)] field_holds_presence [OF basics(2) [OF gs] pres(2)]
      field_holds_presence [OF basics(3) [OF gs] pres(3)]
    ultimately have "stored (bd_graph t) a n"
      using kinds o' by (simp add: stored_def)
    with off_run w Some show ?thesis
      by (simp add: sources_after_def node_bytes_def source_bytes_def a basic_node_fields)
  qed
  show "stored (bd_graph t) a n" "places texts (sources_after K n) t"
    "\<exists>w. strings_of t = strings_of s @ w \<and> length w = node_bytes K n" "nodes_of t = nodes_of s"
    "ag_partials (bd_graph t) = ag_partials (bd_graph s)" "an_firstChild a = invalidIndex" "an_nextSibling a = invalidIndex"
    using all by blast+
qed

section \<open>Stored trees\<close>

text \<open>The links from an index hold a list of children, with the index trees they form.\<close>

fun rep_chain :: "archive_graph \<Rightarrow> 32 word \<Rightarrow> itree list \<Rightarrow> node option list \<Rightarrow> bool" where
  "rep_chain g i [] cs = (i = invalidIndex \<and> cs = [])"
| "rep_chain g i (ITree j us # ts) cs =
     (i = j \<and> j \<noteq> invalidIndex \<and> unat j < length (ag_nodes g)
      \<and> (\<exists>c cs'. cs = Some c # cs' \<and> stored g (graph_node g j) c \<and> child c = None
           \<and> rep_chain g (an_firstChild (graph_node g j)) us (children c)
           \<and> rep_chain g (an_nextSibling (graph_node g j)) ts cs'))"

text \<open>Appending to the tables, with the sibling links of some old nodes set.\<close>

definition kept :: "nat set \<Rightarrow> builder \<Rightarrow> builder \<Rightarrow> bool" where
  "kept P s t \<longleftrightarrow> length (nodes_of s) \<le> length (nodes_of t) \<and> (\<exists>w. strings_of t = strings_of s @ w)
     \<and> ag_partials (bd_graph t) = ag_partials (bd_graph s)
     \<and> (\<forall>k < length (nodes_of s). nodes_of t ! k = nodes_of s ! k
          \<or> (k \<in> P \<and> (\<exists>i. nodes_of t ! k = (nodes_of s ! k)\<lparr>an_nextSibling := i\<rparr>)))"

lemma kept_refl [simp]: "kept P s s"
  by (simp add: kept_def)

lemma kept_trans:
  assumes "kept P s t" and "kept Q t u" and "\<And>k. k \<in> Q \<Longrightarrow> k < length (nodes_of s) \<Longrightarrow> k \<in> R" and "P \<subseteq> R"
  shows "kept R s u"
  unfolding kept_def
proof (intro conjI allI impI)
  show "length (nodes_of s) \<le> length (nodes_of u)" "\<exists>w. strings_of u = strings_of s @ w"
    "ag_partials (bd_graph u) = ag_partials (bd_graph s)"
    using assms(1,2) by (auto simp: kept_def)
  fix k assume k: "k < length (nodes_of s)"
  then have k': "k < length (nodes_of t)" using assms(1) by (simp add: kept_def)
  have a: "nodes_of t ! k = nodes_of s ! k \<or> (k \<in> P \<and> (\<exists>i. nodes_of t ! k = (nodes_of s ! k)\<lparr>an_nextSibling := i\<rparr>))"
    using assms(1) k by (simp add: kept_def)
  have b: "nodes_of u ! k = nodes_of t ! k \<or> (k \<in> Q \<and> (\<exists>i. nodes_of u ! k = (nodes_of t ! k)\<lparr>an_nextSibling := i\<rparr>))"
    using assms(2) k' by (simp add: kept_def)
  from a b show "nodes_of u ! k = nodes_of s ! k \<or> (k \<in> R \<and> (\<exists>i. nodes_of u ! k = (nodes_of s ! k)\<lparr>an_nextSibling := i\<rparr>))"
    using assms(3) [OF _ k] assms(4) by (auto 4 3)
qed

lemma kept_node: "kept P s t \<Longrightarrow> k < length (nodes_of s) \<Longrightarrow> k \<notin> P \<Longrightarrow> nodes_of t ! k = nodes_of s ! k"
  by (auto simp: kept_def)

lemma graph_node_of: "graph_node (bd_graph s) i = nodes_of s ! unat i"
  by (simp add: graph_node_def nodes_of_def)

text \<open>Only the nodes of the trees and the strings so far matter.\<close>

lemma rep_chain_agree:
  "rep_chain g i ts cs \<Longrightarrow> (\<And>k. k \<in> set (chain_indices ts) \<Longrightarrow> ag_nodes g' ! k = ag_nodes g ! k) \<Longrightarrow>
     length (ag_nodes g) \<le> length (ag_nodes g') \<Longrightarrow> ag_strings g' = ag_strings g @ w \<Longrightarrow> rep_chain g' i ts cs"
proof (induction g i ts cs rule: rep_chain.induct)
  case (1 g i cs)
  then show ?case by simp
next
  case (2 g i j us ts cs)
  from 2(3) obtain c cs' where i: "i = j" "j \<noteq> invalidIndex" "unat j < length (ag_nodes g)"
    and cs: "cs = Some c # cs'" "stored g (graph_node g j) c" "child c = None"
    and us: "rep_chain g (an_firstChild (graph_node g j)) us (children c)"
    and ts: "rep_chain g (an_nextSibling (graph_node g j)) ts cs'"
    by auto
  have j: "graph_node g' j = graph_node g j" using 2(4) [of "unat j"] by (simp add: graph_node_def)
  have "rep_chain g' (an_firstChild (graph_node g j)) us (children c)"
    by (rule 2(1) [OF us _ 2(5,6)]) (rule 2(4), simp)
  moreover have "rep_chain g' (an_nextSibling (graph_node g j)) ts cs'"
    by (rule 2(2) [OF ts _ 2(5,6)]) (rule 2(4), simp)
  ultimately show ?case using i cs stored_extend [OF cs(2) 2(6)] 2(5) by (simp add: j)
qed

lemma rep_chain_bound: "rep_chain g i ts cs \<Longrightarrow> k \<in> set (chain_indices ts) \<Longrightarrow> k < length (ag_nodes g)"
  by (induction g i ts cs rule: rep_chain.induct) auto

lemma rep_chain_kept:
  assumes "rep_chain (bd_graph s) i ts cs" and "kept P s t" and "set (chain_indices ts) \<inter> P = {}"
  shows "rep_chain (bd_graph t) i ts cs"
proof -
  obtain w where w: "ag_strings (bd_graph t) = ag_strings (bd_graph s) @ w"
    using assms(2) by (auto simp: kept_def strings_of_def)
  have "ag_nodes (bd_graph t) ! k = ag_nodes (bd_graph s) ! k" if "k \<in> set (chain_indices ts)" for k
    using kept_node [OF assms(2), of k] that assms(3) rep_chain_bound [OF assms(1) that] by (auto simp: nodes_of_def)
  moreover have "length (ag_nodes (bd_graph s)) \<le> length (ag_nodes (bd_graph t))"
    using assms(2) by (simp add: kept_def nodes_of_def)
  ultimately show ?thesis using rep_chain_agree [OF assms(1) _ _ w] by blast
qed

section \<open>Appending a tree\<close>

function preorder :: "node \<Rightarrow> node list" where
  "preorder n = n # concat (map (\<lambda>c. case c of None \<Rightarrow> [] | Some m \<Rightarrow> preorder m) (children n))"
  by pat_completeness auto
termination
  by (relation "measure size") (auto simp: size_children)

declare preorder.simps [simp del]

definition forest :: "node option \<Rightarrow> node list" where
  "forest c = (case c of None \<Rightarrow> [] | Some m \<Rightarrow> preorder m)"

lemma forest_Some: "forest (Some m) = preorder m"
  by (simp add: forest_def)

lemma preorder_eq: "preorder n = n # concat (map forest (children n))"
  by (subst preorder.simps) (simp add: forest_def [abs_def])

text \<open>The bytes a list of nodes needs when the buffers in \<open>K\<close> are known, and those known after it.\<close>

primrec bytes_of :: "nat set \<Rightarrow> node list \<Rightarrow> nat" where
  "bytes_of K [] = 0"
| "bytes_of K (n # ns) = node_bytes K n + bytes_of (sources_after K n) ns"

primrec sources_of :: "nat set \<Rightarrow> node list \<Rightarrow> nat set" where
  "sources_of K [] = K"
| "sources_of K (n # ns) = sources_of (sources_after K n) ns"

lemma bytes_of_append: "bytes_of K (xs @ ys) = bytes_of K xs + bytes_of (sources_of K xs) ys"
  by (induction xs arbitrary: K) simp_all

lemma sources_of_append: "sources_of K (xs @ ys) = sources_of (sources_of K xs) ys"
  by (induction xs arbitrary: K) simp_all

definition ready_for :: "(nat \<Rightarrow> string) \<Rightarrow> nat set \<Rightarrow> builder \<Rightarrow> node list \<Rightarrow> bool" where
  "ready_for texts K s ns \<longleftrightarrow> places texts K s \<and> length (strings_of s) + bytes_of K ns \<le> max_uint32
     \<and> length (nodes_of s) \<le> max_uint32 \<and> list_all (well_sourced texts) ns"

text \<open>What both the appending of a tree and of a row of trees achieve.\<close>

definition grown :: "(nat \<Rightarrow> string) \<Rightarrow> nat set \<Rightarrow> nat set \<Rightarrow> node list \<Rightarrow> builder \<Rightarrow> builder \<Rightarrow> bool" where
  "grown texts P K ns s t \<longleftrightarrow> kept P s t \<and> length (strings_of t) = length (strings_of s) + bytes_of K ns
     \<and> places texts (sources_of K ns) t \<and> length (nodes_of t) \<le> max_uint32"

definition appended :: "(nat \<Rightarrow> string) \<Rightarrow> nat set \<Rightarrow> builder \<Rightarrow> node \<Rightarrow> 32 word \<Rightarrow> builder \<Rightarrow> itree list \<Rightarrow> bool" where
  "appended texts K s n i t us \<longleftrightarrow> grown texts {} K (preorder n) s t
     \<and> unat i = length (nodes_of s) \<and> i \<noteq> invalidIndex \<and> length (nodes_of s) < length (nodes_of t)
     \<and> stored (bd_graph t) (graph_node (bd_graph t) i) n \<and> child n = None
     \<and> rep_chain (bd_graph t) (an_firstChild (graph_node (bd_graph t) i)) us (children n)
     \<and> an_nextSibling (graph_node (bd_graph t) i) = invalidIndex
     \<and> chain_indices us = [Suc (length (nodes_of s)) ..< length (nodes_of t)]"

lemma ready_for_next:
  assumes "ready_for texts K s (xs @ ys)" and "grown texts P K xs s t"
  shows "ready_for texts (sources_of K xs) t ys"
  using assms by (auto simp: ready_for_def grown_def bytes_of_append)

lemma ready_for_first: "ready_for texts K s (xs @ ys) \<Longrightarrow> ready_for texts K s xs"
  by (auto simp: ready_for_def bytes_of_append)

lemma set_sibling_simps [simp]:
  "strings_of (set_sibling p i s) = strings_of s" "bd_sourceOffsets (set_sibling p i s) = bd_sourceOffsets s"
  "length (nodes_of (set_sibling p i s)) = length (nodes_of s)"
  "ag_partials (bd_graph (set_sibling p i s)) = ag_partials (bd_graph s)"
  by (simp_all add: set_sibling_def strings_of_def nodes_of_def)

lemma set_sibling_nth:
  "k < length (nodes_of s) \<Longrightarrow> nodes_of (set_sibling p i s) ! k =
     (if k = unat p then (nodes_of s ! k)\<lparr>an_nextSibling := i\<rparr> else nodes_of s ! k)"
  by (simp add: set_sibling_def nodes_of_def nth_list_update)

lemma kept_set_sibling: "kept {unat p} s (set_sibling p i s)"
  by (auto simp: kept_def set_sibling_nth)

lemma grown_trans:
  assumes "grown texts P K xs s t" and "kept Q t u" and "strings_of u = strings_of t"
    and "bd_sourceOffsets u = bd_sourceOffsets t" and "length (nodes_of u) = length (nodes_of t)"
    and "grown texts R (sources_of K xs) ys u v"
    and "\<And>k. k \<in> Q \<union> R \<Longrightarrow> k < length (nodes_of s) \<Longrightarrow> k \<in> S" and "P \<subseteq> S"
  shows "grown texts S K (xs @ ys) s v"
proof -
  have "kept S s u"
    by (rule kept_trans [OF _ assms(2), of P]) (use assms in \<open>auto simp: grown_def\<close>)
  moreover have "kept R u v" using assms(6) by (simp add: grown_def)
  ultimately have "kept S s v"
    by (rule kept_trans) (use assms(7) in auto)
  with assms show ?thesis by (simp add: grown_def bytes_of_append sources_of_append)
qed

lemma upt_join: "a \<le> b \<Longrightarrow> b \<le> c \<Longrightarrow> [a ..< b] @ [b ..< c] = [a ..< c]"
  by (metis le_Suc_ex upt_add_eq_append)

lemma link_step:
  assumes c: "appended texts K s m i u us" and row: "grown texts {unat i} (sources_of K (preorder m)) ns v t"
    and v: "v = u \<or> (\<exists>p. v = set_sibling p i u \<and> unat p < length (nodes_of s))"
    and ts: "rep_chain (bd_graph t) (an_nextSibling (graph_node (bd_graph t) i)) ts cs"
    and ind: "chain_indices ts = [length (nodes_of u) ..< length (nodes_of t)]"
  shows "rep_chain (bd_graph t) i (ITree i us # ts) (Some m # cs)"
    and "chain_indices (ITree i us # ts) = [length (nodes_of s) ..< length (nodes_of t)]"
proof -
  have len: "unat i = length (nodes_of s)" "length (nodes_of s) < length (nodes_of u)"
    and lv: "length (nodes_of v) = length (nodes_of u)" and lt: "length (nodes_of v) \<le> length (nodes_of t)"
    using c v row by (auto simp: appended_def grown_def kept_def)
  obtain P where P: "kept P u v" "\<And>k. k \<in> P \<Longrightarrow> k < length (nodes_of s)"
  proof (cases "v = u")
    case True
    then show ?thesis using that [of "{}"] by simp
  next
    case False
    with v obtain p where "v = set_sibling p i u" "unat p < length (nodes_of s)" by blast
    then show ?thesis using that [of "{unat p}"] kept_set_sibling by simp
  qed
  have kvt: "kept {unat i} v t" using row by (simp add: grown_def)
  have k: "kept (P \<union> {unat i}) u t" by (rule kept_trans [OF P(1) kvt]) auto
  have node: "\<exists>x. nodes_of t ! unat i = (nodes_of u ! unat i)\<lparr>an_nextSibling := x\<rparr>"
  proof -
    have "nodes_of v ! unat i = nodes_of u ! unat i"
      using kept_node [OF P(1)] P(2) len by force
    moreover have "nodes_of t ! unat i = nodes_of v ! unat i \<or> (\<exists>x. nodes_of t ! unat i = (nodes_of v ! unat i)\<lparr>an_nextSibling := x\<rparr>)"
      using kvt len lv by (auto simp: kept_def)
    moreover have "nodes_of u ! unat i = (nodes_of u ! unat i)\<lparr>an_nextSibling := an_nextSibling (nodes_of u ! unat i)\<rparr>"
      by simp
    ultimately show ?thesis by metis
  qed
  obtain w where w: "ag_strings (bd_graph t) = ag_strings (bd_graph u) @ w"
    using k by (auto simp: kept_def strings_of_def)
  have "rep_chain (bd_graph u) (an_firstChild (nodes_of u ! unat i)) us (children m)"
    and idx: "chain_indices us = [Suc (length (nodes_of s)) ..< length (nodes_of u)]"
    and st: "stored (bd_graph u) (nodes_of u ! unat i) m" and i: "i \<noteq> invalidIndex" and ch: "child m = None"
    using c by (auto simp: appended_def graph_node_of)
  moreover have "set (chain_indices us) \<inter> (P \<union> {unat i}) = {}" using idx P(2) len by fastforce
  ultimately have us: "rep_chain (bd_graph t) (an_firstChild (nodes_of u ! unat i)) us (children m)"
    using rep_chain_kept [OF _ k] by blast
  have "unat i < length (ag_nodes (bd_graph t))" using len lv lt by (simp add: nodes_of_def)
  then show "rep_chain (bd_graph t) i (ITree i us # ts) (Some m # cs)"
    using node us i ch ts stored_extend [OF st w] by (auto simp: graph_node_of)
  show "chain_indices (ITree i us # ts) = [length (nodes_of s) ..< length (nodes_of t)]"
    using idx ind len lt lv by (simp add: upt_conv_Cons upt_join)
qed

definition appends :: "(nat \<Rightarrow> string) \<Rightarrow> (node option \<Rightarrow> 32 word bd) \<Rightarrow> node option \<Rightarrow> bool" where
  "appends texts f c \<longleftrightarrow> (\<forall>K s i t. f c s = (Inr i, t) \<longrightarrow> ready_for texts K s (forest c) \<longrightarrow>
     (\<exists>m us. c = Some m \<and> appended texts K s m i t us))"

lemma ready_for_set_sibling: "ready_for texts K (set_sibling p i s) ns = ready_for texts K s ns"
  by (simp add: ready_for_def places_def)

lemma grown_Nil [simp]: "places texts K s \<Longrightarrow> length (nodes_of s) \<le> max_uint32 \<Longrightarrow> grown texts P K [] s s"
  by (simp add: grown_def)

lemma link_rest:
  assumes "list_all (appends texts f) cs" and "link_children f cs first p s = (Inr r, t)" and "first \<noteq> invalidIndex"
    and "ready_for texts K s (concat (map forest cs))" and "unat p < length (nodes_of s)"
    and "an_nextSibling (nodes_of s ! unat p) = invalidIndex"
  shows "r = first \<and> (\<exists>ts. grown texts {unat p} K (concat (map forest cs)) s t
     \<and> rep_chain (bd_graph t) (an_nextSibling (nodes_of t ! unat p)) ts cs
     \<and> chain_indices ts = [length (nodes_of s) ..< length (nodes_of t)])"
  using assms
proof (induction cs arbitrary: p s K)
  case Nil
  then have "t = s" "r = first" by simp_all
  with Nil have "grown texts {unat p} K [] s t \<and> rep_chain (bd_graph t) (an_nextSibling (nodes_of t ! unat p)) [] []
     \<and> chain_indices [] = [length (nodes_of s) ..< length (nodes_of t)]"
    by (simp add: ready_for_def)
  with \<open>r = first\<close> show ?case by (metis list.simps(8) concat.simps(1))
next
  case (Cons c cs)
  from Cons.prems(2,3) obtain i u where c: "f c s = (Inr i, u)"
    and rest: "link_children f cs first i (set_sibling p i u) = (Inr r, t)"
    by (auto simp: bind_eff_Inr_iff then_eff_Inr_iff)
  obtain m us where m: "c = Some m" and ap: "appended texts K s m i u us"
    using Cons.prems(1) c ready_for_first [of texts K s "forest c"] Cons.prems(4) by (fastforce simp: appends_def)
  let ?v = "set_sibling p i u" and ?K = "sources_of K (preorder m)"
  have len: "unat i = length (nodes_of s)" "length (nodes_of s) < length (nodes_of u)"
    and g: "grown texts {} K (preorder m) s u" and nx: "an_nextSibling (nodes_of u ! unat i) = invalidIndex"
    using ap by (auto simp: appended_def graph_node_of)
  have p: "unat p < length (nodes_of u)" "unat p \<noteq> unat i" using Cons.prems(5) len by auto
  have ready: "ready_for texts ?K ?v (concat (map forest cs))"
    using ready_for_next [OF _ g] Cons.prems(4) forest_Some [of m] m by (simp add: ready_for_set_sibling)
  have "an_nextSibling (nodes_of ?v ! unat i) = invalidIndex"
    using nx p len by (simp add: set_sibling_nth)
  with Cons.IH [OF _ rest Cons.prems(3) ready] Cons.prems(1) len obtain ts where r: "r = first"
    and gr: "grown texts {unat i} ?K (concat (map forest cs)) ?v t"
    and ts: "rep_chain (bd_graph t) (an_nextSibling (nodes_of t ! unat i)) ts cs"
    and ind: "chain_indices ts = [length (nodes_of ?v) ..< length (nodes_of t)]"
    by auto
  have "grown texts {unat p} K (preorder m @ concat (map forest cs)) s t"
    by (rule grown_trans [OF g kept_set_sibling _ _ _ gr]) (use len in auto)
  moreover have "rep_chain (bd_graph t) i (ITree i us # ts) (Some m # cs)"
    "chain_indices (ITree i us # ts) = [length (nodes_of s) ..< length (nodes_of t)]"
    using link_step [OF ap gr _ ts [folded graph_node_of]] Cons.prems(5) ind by auto
  moreover have "an_nextSibling (nodes_of t ! unat p) = i"
  proof -
    have "kept {unat i} ?v t" using gr by (simp add: grown_def)
    then have "nodes_of t ! unat p = nodes_of ?v ! unat p" using p by (intro kept_node) auto
    then show ?thesis using p by (simp add: set_sibling_nth)
  qed
  ultimately show ?case using r m by (auto simp: forest_Some intro!: exI [of _ "ITree i us # ts"])
qed

lemma link_first:
  assumes "list_all (appends texts f) cs" and "link_children f cs invalidIndex invalidIndex s = (Inr r, t)"
    and "ready_for texts K s (concat (map forest cs))"
  shows "\<exists>ts. grown texts {} K (concat (map forest cs)) s t \<and> rep_chain (bd_graph t) r ts cs
     \<and> chain_indices ts = [length (nodes_of s) ..< length (nodes_of t)]"
proof (cases cs)
  case Nil
  with assms have "grown texts {} K [] s t \<and> rep_chain (bd_graph t) r [] []
     \<and> chain_indices [] = [length (nodes_of s) ..< length (nodes_of t)]"
    by (simp add: ready_for_def)
  with Nil show ?thesis by (metis list.simps(8) concat.simps(1))
next
  case (Cons c cs')
  from assms(2) Cons obtain i u where c: "f c s = (Inr i, u)" and rest: "link_children f cs' i i u = (Inr r, t)"
    by (auto simp: bind_eff_Inr_iff)
  obtain m us where m: "c = Some m" and ap: "appended texts K s m i u us"
    using assms(1,3) Cons c ready_for_first [of texts K s "forest c"] by (fastforce simp: appends_def)
  let ?K = "sources_of K (preorder m)"
  have len: "unat i = length (nodes_of s)" "length (nodes_of s) < length (nodes_of u)" "i \<noteq> invalidIndex"
    and g: "grown texts {} K (preorder m) s u" and nx: "an_nextSibling (nodes_of u ! unat i) = invalidIndex"
    using ap by (auto simp: appended_def graph_node_of)
  have ready: "ready_for texts ?K u (concat (map forest cs'))"
    using ready_for_next [OF _ g] assms(3) forest_Some [of m] m Cons by simp
  from link_rest [OF _ rest len(3) ready _ nx] assms(1) Cons len obtain ts where r: "r = i"
    and gr: "grown texts {unat i} ?K (concat (map forest cs')) u t"
    and ts: "rep_chain (bd_graph t) (an_nextSibling (nodes_of t ! unat i)) ts cs'"
    and ind: "chain_indices ts = [length (nodes_of u) ..< length (nodes_of t)]"
    by auto
  have "grown texts {} K (preorder m @ concat (map forest cs')) s t"
    by (rule grown_trans [OF g kept_refl [of "{}"] _ _ _ gr]) (use len in auto)
  with link_step [OF ap gr _ ts [folded graph_node_of] ind] r m Cons show ?thesis
    by (auto simp: forest_Some intro!: exI [of _ "ITree i us # ts"])
qed

text \<open>\<open>appendNode\<close> stores the tree it is given, and \<open>appendable\<close> is all it checks.\<close>

lemma emplace_node_eq:
  "emplace_node s = (Inr (word_of_nat (length (nodes_of s))),
     s\<lparr>bd_graph := (bd_graph s)\<lparr>ag_nodes := ag_nodes (bd_graph s) @ [new_archive_node]\<rparr>\<rparr>)"
  by (simp add: emplace_node_def eff_defs nodes_of_def)

lemma appendable_Inr:
  "appendable n s = (Inr u, t) \<longleftrightarrow> t = s \<and> length (nodes_of s) \<noteq> max_uint32 \<and> child n = None
     \<and> 0 \<le> nflags n \<and> nflags n \<le> 65535 \<and> isSerializableType (ntype n)"
  by (auto simp: appendable_def then_eff_Inr_iff nodes_of_def)

lemma list_all_concat: "list_all P (concat xss) \<longleftrightarrow> list_all (list_all P) xss"
  by (induction xss) auto

lemma appendNode_stores:
  "archive_appendNode n s = (Inr i, t) \<Longrightarrow> ready_for texts K s (preorder n) \<Longrightarrow> \<exists>us. appended texts K s n i t us"
proof (induction n arbitrary: K s i t rule: node_induct)
  case (node n)
  let ?f = "\<lambda>c. case c of None \<Rightarrow> throw null_archive_child | Some m \<Rightarrow> archive_appendNode m"
  let ?e = "s\<lparr>bd_graph := (bd_graph s)\<lparr>ag_nodes := ag_nodes (bd_graph s) @ [new_archive_node]\<rparr>\<rparr>"
  let ?n = "length (nodes_of s)"
  from node.prems(1) obtain a u v first where ok: "?n \<noteq> max_uint32" "child n = None" "0 \<le> nflags n" "nflags n \<le> 65535"
      "isSerializableType (ntype n)"
    and fields: "appendFields n ?e = (Inr a, u)"
    and kids: "link_children ?f (children n) invalidIndex invalidIndex u = (Inr first, v)"
    and i: "i = word_of_nat ?n" and t: "t = set_node i (a\<lparr>an_firstChild := first\<rparr>) v"
    by (subst (asm) archive_appendNode.simps)
      (auto simp: then_eff_Inr_iff bind_eff_Inr_iff appendable_Inr emplace_node_eq)
  have e: "strings_of ?e = strings_of s" "nodes_of ?e = nodes_of s @ [new_archive_node]"
    "bd_sourceOffsets ?e = bd_sourceOffsets s" "ag_partials (bd_graph ?e) = ag_partials (bd_graph s)"
    by (simp_all add: strings_of_def nodes_of_def)
  have pl: "places texts K ?e" and src: "well_sourced texts n"
    and room: "length (strings_of s) + node_bytes K n \<le> max_uint32" and max: "?n \<le> max_uint32"
    using node.prems(2) by (simp_all add: ready_for_def preorder_eq places_def e)
  note stores = appendFields_run [OF fields pl src _ ok(5,3,4), unfolded e, OF room]
  have lu: "length (nodes_of u) = Suc ?n" using stores(4) by simp
  obtain w where w: "strings_of u = strings_of s @ w" "length w = node_bytes K n" using stores(3) by blast
  have ready: "ready_for texts (sources_after K n) u (concat (map forest (children n)))"
    using node.prems(2) stores(2) w lu max ok(1) by (simp add: ready_for_def preorder_eq)
  have "list_all (appends texts ?f) (children n)"
    using node.IH by (auto simp: list_all_iff appends_def forest_def split: option.split)
  from link_first [OF this kids ready] obtain ts where
    g: "grown texts {} (sources_after K n) (concat (map forest (children n))) u v"
    and ts: "rep_chain (bd_graph v) first ts (children n)"
    and ind: "chain_indices ts = [Suc ?n ..< length (nodes_of v)]"
    unfolding lu by blast
  have ui: "unat i = ?n" using max ok(1) unfolding i by (intro unat_small)
  have ini: "i \<noteq> invalidIndex" using ui ok(1) by (auto simp: invalidIndex_def max_uint32_def)
  have nodes_t: "nodes_of t = (nodes_of v)[?n := a\<lparr>an_firstChild := first\<rparr>]"
    and same: "strings_of t = strings_of v" "bd_sourceOffsets t = bd_sourceOffsets v"
      "ag_partials (bd_graph t) = ag_partials (bd_graph v)"
    using ui by (simp_all add: t set_node_def nodes_of_def strings_of_def)
  have lv: "Suc ?n \<le> length (nodes_of v)" and kuv: "kept {} u v" using g lu by (simp_all add: grown_def kept_def)
  have at: "nodes_of t ! unat i = a\<lparr>an_firstChild := first\<rparr>" using ui lv nodes_t by simp
  have old: "nodes_of t ! k = nodes_of s ! k" if "k < ?n" for k
    using that kept_node [OF kuv, of k] lu stores(4) nodes_t by (simp add: nth_append)
  obtain w' where w': "strings_of v = strings_of u @ w'" using kuv by (auto simp: kept_def)
  have "kept {} s t"
    using old w w' same lv nodes_t stores(5) kuv by (auto simp: kept_def)
  then have "grown texts {} K (preorder n) s t"
    using g w same nodes_t places_same [OF same(1,2)] by (simp add: grown_def preorder_eq)
  moreover have "stored (bd_graph t) (graph_node (bd_graph t) i) n"
    using stored_extend [OF stores(1), of "bd_graph t" w'] w' same at by (simp add: graph_node_of strings_of_def)
  moreover have "rep_chain (bd_graph t) first ts (children n)"
  proof (rule rep_chain_agree [OF ts])
    show "ag_nodes (bd_graph t) ! k = ag_nodes (bd_graph v) ! k" if "k \<in> set (chain_indices ts)" for k
      using that ind nodes_t by (simp add: nodes_of_def)
    show "length (ag_nodes (bd_graph v)) \<le> length (ag_nodes (bd_graph t))" using nodes_t by (simp add: nodes_of_def)
    show "ag_strings (bd_graph t) = ag_strings (bd_graph v) @ []" using same by (simp add: strings_of_def)
  qed
  ultimately have "appended texts K s n i t ts"
    using ui ini ok at stores(7) ind lv nodes_t by (simp add: appended_def graph_node_of)
  then show ?case by blast
qed

end
