(* ===== verification/Archive_Stored.thy ===== *)
theory Archive_Stored
  imports Archive_Build_Props
begin

text \<open>
  What the builder counts, and which partials it takes. Counting charges the bytes that appending
  uses, a shared source buffer once, so that no offset wraps round; the effective partials are
  the caller's before the root's own, sorted by name.
\<close>

section \<open>Counting\<close>

text \<open>The buffers counted so far, none of them placed.\<close>

definition tracked :: "nat set \<Rightarrow> builder \<Rightarrow> bool" where
  "tracked K s \<longleftrightarrow> (\<forall>k. map_of (bd_sourceOffsets s) k = (if k \<in> K then Some invalidIndex else None))"

lemma tracked_places: "tracked K s \<Longrightarrow> places texts {} s"
  by (simp add: tracked_def places_def split: if_splits)

definition counted :: "nat set \<Rightarrow> nat set \<Rightarrow> nat \<Rightarrow> builder \<Rightarrow> builder \<Rightarrow> bool" where
  "counted K K' bytes s t \<longleftrightarrow> bd_graph t = bd_graph s \<and> bd_stringBytes t = bd_stringBytes s + bytes
     \<and> (bd_stringBytes s \<le> max_uint32 \<longrightarrow> bd_stringBytes t \<le> max_uint32)
     \<and> (tracked K s \<longrightarrow> tracked K' t)"

lemma counted_refl: "counted K K 0 s s"
  by (simp add: counted_def)

lemma counted_trans: "counted K K' b s t \<Longrightarrow> counted K' K'' c t u \<Longrightarrow> counted K K'' (b + c) s u"
  by (auto simp: counted_def)

lemma validateMinimumSize_run: "validateMinimumSize abi limits s = (Inr u, t) \<Longrightarrow> t = s"
  by (auto simp: validateMinimumSize_def bind_eff_Inr_iff then_eff_Inr_iff)

lemma addStringBytes_counted: "addStringBytes abi limits n s = (Inr u, t) \<Longrightarrow> counted K K n s t"
  by (auto simp: addStringBytes_def then_eff_Inr_iff counted_def tracked_def dest!: validateMinimumSize_run)

lemma addOptionalBytes_counted:
  "addOptionalBytes abi limits v s = (Inr u, t) \<Longrightarrow> counted K K (length (opt_text v)) s t"
  by (auto simp: addOptionalBytes_def opt_text_def counted_refl dest: addStringBytes_counted split: option.splits)

lemma addPartialName_counted:
  assumes "addPartialName abi limits k s = (Inr u, t)"
  shows "counted K K (length k) s t"
proof -
  let ?s = "s\<lparr>bd_partialCount := bd_partialCount s + 1\<rparr>"
  have "addStringBytes abi limits (length k) ?s = (Inr (), t)"
    using assms by (auto simp: addPartialName_def then_eff_Inr_iff dest!: validateMinimumSize_run)
  from addStringBytes_counted [OF this, of K] show ?thesis by (auto simp: counted_def tracked_def)
qed

lemma countSource_counted:
  assumes "countSource abi limits n s = (Inr u, t)" and tr: "tracked K s"
  shows "counted K (sources_after K n) (source_bytes K n) s t"
proof (cases "section_source n")
  case None
  with assms show ?thesis
    by (simp add: countSource_def original_source sources_after_def source_bytes_def counted_refl)
next
  case (Some src)
  then have sec: "sectionSource n = Some src" by (simp add: section_source_def split: if_splits)
  show ?thesis
  proof (cases "buffer_id src \<in> K")
    case True
    with assms sec Some show ?thesis
      by (simp add: countSource_def original_source bind_eff_Inr_iff tracked_def sources_after_def source_bytes_def
          insert_absorb counted_refl)
  next
    case False
    with assms sec Some obtain v where v: "addStringBytes abi limits (length (buffer_text src)) s = (Inr (), v)"
      and t: "t = v\<lparr>bd_sourceOffsets := (buffer_id src, invalidIndex) # bd_sourceOffsets v\<rparr>"
      by (auto simp: countSource_def original_source bind_eff_Inr_iff then_eff_Inr_iff tracked_def)
    from addStringBytes_counted [OF v, of K] False Some t show ?thesis
      by (auto simp: counted_def tracked_def sources_after_def source_bytes_def)
  qed
qed

lemma countDataParts_counted: "countDataParts limits n s = (Inr u, t) \<Longrightarrow> counted K K 0 s t"
  by (auto simp: countDataParts_def then_eff_Inr_iff counted_def tracked_def split: option.splits if_splits)

lemma countFields_counted:
  assumes run: "countFields abi limits depth n s = (Inr u, t)" and tr: "tracked K s"
  shows "counted K (sources_after K n) (node_bytes K n) s t"
proof -
  let ?s = "s\<lparr>bd_nodeCount := bd_nodeCount s + 1\<rparr>"
  from run obtain a b c d where a: "addOptionalBytes abi limits (ndata n) ?s = (Inr (), a)"
    and b: "addOptionalBytes abi limits (startSequence n) a = (Inr (), b)"
    and c: "addOptionalBytes abi limits (stopSequence n) b = (Inr (), c)"
    and d: "countSource abi limits n c = (Inr (), d)" and e: "countDataParts limits n d = (Inr u, t)"
    by (auto simp: countFields_def then_eff_Inr_iff dest!: validateMinimumSize_run)
  have "counted K K 0 s ?s" by (simp add: counted_def tracked_def)
  note abc = counted_trans [OF counted_trans [OF counted_trans [OF this addOptionalBytes_counted [OF a]]
      addOptionalBytes_counted [OF b]] addOptionalBytes_counted [OF c]]
  have "tracked K c" using abc tr by (simp add: counted_def)
  from counted_trans [OF counted_trans [OF abc countSource_counted [OF d this]] countDataParts_counted [OF e]]
  show ?thesis by (simp add: node_bytes_def add.assoc)
qed

text \<open>Counting a row is counting its members one after the other.\<close>

lemma each_counted:
  assumes "each_eff f cs s = (Inr u, t)" and "tracked K s"
    and "\<And>c K s t. c \<in> set cs \<Longrightarrow> f c s = (Inr (), t) \<Longrightarrow> tracked K s \<Longrightarrow>
      counted K (sources_of K (g c)) (bytes_of K (g c)) s t"
  shows "counted K (sources_of K (concat (map g cs))) (bytes_of K (concat (map g cs))) s t"
  using assms
proof (induction cs arbitrary: s K)
  case Nil
  then show ?case by (simp add: counted_refl)
next
  case (Cons c cs)
  then obtain v where v: "f c s = (Inr (), v)" and rest: "each_eff f cs v = (Inr u, t)"
    by (auto simp: then_eff_Inr_iff)
  have step: "counted K (sources_of K (g c)) (bytes_of K (g c)) s v"
    using Cons.prems(2,3) v by simp
  then have "tracked (sources_of K (g c)) v" using Cons.prems(2) by (simp add: counted_def)
  from counted_trans [OF step Cons.IH [OF rest this Cons.prems(3)]] show ?case
    by (simp add: bytes_of_append sources_of_append)
qed

lemma countNode_counted:
  "countNode abi limits depth n s = (Inr u, t) \<Longrightarrow> tracked K s \<Longrightarrow>
     counted K (sources_of K (preorder n)) (bytes_of K (preorder n)) s t"
proof (induction n arbitrary: depth s u t K rule: node_induct)
  case (node n)
  define f where "f = (\<lambda>c. case c of None \<Rightarrow> throw null_archive_child | Some m \<Rightarrow> countNode abi limits (depth + 1) m)"
  have f: "f None = throw null_archive_child" "f (Some m) = countNode abi limits (depth + 1) m" for m
    by (simp_all add: f_def)
  from node.prems(1) obtain v where v: "countFields abi limits depth n s = (Inr (), v)"
    and kids: "each_eff f (children n) v = (Inr u, t)"
    by (subst (asm) countNode.simps) (auto simp: then_eff_Inr_iff f_def)
  note first = countFields_counted [OF v node.prems(2)]
  have each: "counted K' (sources_of K' (forest c)) (bytes_of K' (forest c)) x y"
    if "c \<in> set (children n)" "f c x = (Inr (), y)" "tracked K' x" for c K' x y
  proof (cases c rule: option.exhaust)
    case (Some m)
    with that node.IH [of m "depth + 1" x "()" y K'] show ?thesis by (simp add: f forest_Some)
  qed (use that in \<open>simp add: f\<close>)
  have "tracked (sources_after K n) v" using first node.prems(2) by (simp add: counted_def)
  from each_counted [OF kids this each, of "\<lambda>c. c"]
  have "counted (sources_after K n) (sources_of (sources_after K n) (concat (map forest (children n))))
      (bytes_of (sources_after K n) (concat (map forest (children n)))) v t"
    by simp
  from counted_trans [OF first this] show ?case by (simp add: preorder_eq)
qed

section \<open>Effective partials\<close>

definition names_sorted :: "effective_partials \<Rightarrow> bool" where
  "names_sorted e \<longleftrightarrow> sorted_wrt (<) (map fst e)"

definition names_bytes :: "effective_partials \<Rightarrow> nat" where
  "names_bytes e = sum_list (map (\<lambda>p. length (fst p)) e)"

lemma effective_put_keys: "set (map fst (effective_put k v e)) = insert k (set (map fst e))"
  by (induction e) auto

lemma effective_put_sorted: "names_sorted e \<Longrightarrow> names_sorted (effective_put k v e)"
proof (induction e)
  case (Cons p e)
  then have IH: "names_sorted (effective_put k v e)" by (simp add: names_sorted_def)
  show ?case
  proof (cases "fst p < k")
    case True
    have "\<forall>x\<in>set (map fst (effective_put k v e)). fst p < x"
      using True Cons.prems unfolding effective_put_keys by (auto simp: names_sorted_def)
    with True IH show ?thesis by (auto simp: names_sorted_def)
  next
    case False
    then consider "k < fst p" | "k = fst p" by fastforce
    then show ?thesis using Cons.prems by cases (force simp: names_sorted_def)+
  qed
qed (simp add: names_sorted_def)

lemma map_of_absent: "names_sorted (p # e) \<Longrightarrow> x \<le> fst p \<Longrightarrow> map_of e x = None"
  by (force simp: names_sorted_def map_of_eq_None_iff)

lemma effective_put_lookup: "names_sorted e \<Longrightarrow> map_of (effective_put k v e) x = (if x = k then Some v else map_of e x)"
proof (induction e)
  case (Cons p e)
  then have IH: "map_of (effective_put k v e) x = (if x = k then Some v else map_of e x)" by (simp add: names_sorted_def)
  show ?case
    using IH by (cases p) auto
qed simp

lemma effective_put_bytes:
  "names_sorted e \<Longrightarrow> names_bytes (effective_put k v e) = names_bytes e + (if map_of e k = None then length k else 0)"
proof (induction e)
  case (Cons p e)
  then have IH: "names_bytes (effective_put k v e) = names_bytes e + (if map_of e k = None then length k else 0)"
    by (simp add: names_sorted_def)
  show ?case
  proof (cases "k < fst p")
    case True
    then show ?thesis using map_of_absent [OF Cons.prems, of k] by (cases p) (auto simp: names_bytes_def)
  next
    case False
    then show ?thesis using IH by (cases p) (auto simp: names_bytes_def)
  qed
qed (simp add: names_bytes_def)

text \<open>What a collection found: a sorted map with this lookup, its names charged.\<close>

definition collected :: "effective_partials \<Rightarrow> effective_partials \<Rightarrow> (string \<Rightarrow> node option) \<Rightarrow> builder \<Rightarrow> builder \<Rightarrow> bool" where
  "collected e e' f s t \<longleftrightarrow> names_sorted e' \<and> map_of e' = f \<and> names_bytes e \<le> names_bytes e'
     \<and> (\<forall>K. counted K K (names_bytes e' - names_bytes e) s t)"

lemma collected_refl: "names_sorted e \<Longrightarrow> collected e e (map_of e) s s"
  by (simp add: collected_def counted_refl)

lemma collected_step:
  assumes "\<forall>K. counted K K (names_bytes e' - names_bytes e) s t" and "names_bytes e \<le> names_bytes e'" and "collected e' e'' f t u"
  shows "collected e e'' f s u"
proof -
  have "counted K K (names_bytes e'' - names_bytes e) s u" for K
  proof -
    have "counted K K ((names_bytes e' - names_bytes e) + (names_bytes e'' - names_bytes e')) s u"
      by (rule counted_trans) (use assms in \<open>auto simp: collected_def\<close>)
    then show ?thesis using assms by (simp add: collected_def)
  qed
  with assms show ?thesis by (auto simp: collected_def)
qed

lemma put_counted:
  assumes "names_sorted e" and "name_if_new abi limits k e s = (Inr u, t)"
  shows "\<forall>K. counted K K (names_bytes (effective_put k v e) - names_bytes e) s t"
    and "names_bytes e \<le> names_bytes (effective_put k v e)"
  using assms(2) addPartialName_counted
  by (auto simp: effective_put_bytes [OF assms(1)] name_if_new_def counted_refl split: if_splits)

lemma collect_fallback_run:
  "collect_fallback abi limits ps e s = (Inr e', t) \<Longrightarrow> names_sorted e \<Longrightarrow> distinct (map fst ps) \<Longrightarrow>
     collected e e' (\<lambda>x. case map_of e x of Some p \<Rightarrow> Some p | None \<Rightarrow> lookup_partial x ps) s t"
proof (induction abi limits ps e arbitrary: s rule: collect_fallback.induct)
  case (1 abi limits e)
  have "(\<lambda>x. case map_of e x of Some p \<Rightarrow> Some p | None \<Rightarrow> lookup_partial x []) = map_of e"
    by (auto simp: lookup_partial_def fun_eq_iff split: option.split)
  with 1 collected_refl show ?case by auto
next
  case (2 abi limits k ps e)
  have "(\<lambda>x. case map_of e x of Some p \<Rightarrow> Some p | None \<Rightarrow> lookup_partial x ((k, None) # ps))
      = (\<lambda>x. case map_of e x of Some p \<Rightarrow> Some p | None \<Rightarrow> lookup_partial x ps)"
    using 2(4) by (auto simp: lookup_partial_def fun_eq_iff split: option.split) (metis fst_conv image_eqI map_of_SomeD)
  with 2 show ?case by simp
next
  case (3 abi limits k p ps e)
  show ?case
  proof (cases "map_of e k = None")
    case True
    with 3(3) obtain u where u: "addPartialName abi limits k s = (Inr (), u)"
      and rest: "collect_fallback abi limits ps (effective_put k p e) u = (Inr e', t)"
      by (auto simp: then_eff_Inr_iff)
    have sorted: "names_sorted (effective_put k p e)" using 3(4) by (rule effective_put_sorted)
    have "name_if_new abi limits k e s = (Inr (), u)" using True u by (simp add: name_if_new_def)
    note step = put_counted [OF 3(4) this, of p]
    have lookup: "(\<lambda>x. case map_of (effective_put k p e) x of Some p \<Rightarrow> Some p | None \<Rightarrow> lookup_partial x ps)
        = (\<lambda>x. case map_of e x of Some p \<Rightarrow> Some p | None \<Rightarrow> lookup_partial x ((k, Some p) # ps))"
    proof
      fix x
      show "(case map_of (effective_put k p e) x of Some p \<Rightarrow> Some p | None \<Rightarrow> lookup_partial x ps)
        = (case map_of e x of Some p \<Rightarrow> Some p | None \<Rightarrow> lookup_partial x ((k, Some p) # ps))"
        using True by (cases "x = k") (simp_all add: effective_put_lookup [OF 3(4)] lookup_partial_def split: option.split)
    qed
    from collected_step [OF step 3(1) [OF True rest sorted]] 3(5) show ?thesis unfolding lookup by simp
  next
    case False
    then obtain q where q: "map_of e k = Some q" by blast
    have lookup: "(\<lambda>x. case map_of e x of Some p \<Rightarrow> Some p | None \<Rightarrow> lookup_partial x ((k, Some p) # ps))
        = (\<lambda>x. case map_of e x of Some p \<Rightarrow> Some p | None \<Rightarrow> lookup_partial x ps)"
      using q by (auto simp: lookup_partial_def fun_eq_iff split: option.split)
    have "collect_fallback abi limits ps e s = (Inr e', t)" using 3(3) q by simp
    from 3(2) [OF False this 3(4)] 3(5) show ?thesis unfolding lookup by simp
  qed
qed

lemma override_lookup:
  assumes "names_sorted e" and "k \<notin> fst ` set ps"
  shows "(\<lambda>x. case lookup_partial x ps of Some q \<Rightarrow> Some q | None \<Rightarrow> map_of (effective_put k p e) x)
      = (\<lambda>x. case lookup_partial x ((k, Some p) # ps) of Some q \<Rightarrow> Some q | None \<Rightarrow> map_of e x)"
proof -
  have "lookup_partial k ps = None"
    using assms(2) by (auto simp: lookup_partial_def split: option.split) (metis fst_conv image_eqI map_of_SomeD)
  then show ?thesis
    by (auto simp: fun_eq_iff effective_put_lookup [OF assms(1)] lookup_partial_def split: option.splits)
qed

lemma collect_overriding_run:
  "collect_overriding abi limits ps e s = (Inr e', t) \<Longrightarrow> names_sorted e \<Longrightarrow> distinct (map fst ps) \<Longrightarrow>
     collected e e' (\<lambda>x. case lookup_partial x ps of Some p \<Rightarrow> Some p | None \<Rightarrow> map_of e x) s t"
proof (induction abi limits ps e arbitrary: s rule: collect_overriding.induct)
  case (1 abi limits e)
  then show ?case using collected_refl [of e s] by (auto simp: lookup_partial_def)
next
  case (2 abi limits k ps e)
  have "(\<lambda>x. case lookup_partial x ((k, None) # ps) of Some p \<Rightarrow> Some p | None \<Rightarrow> map_of e x)
      = (\<lambda>x. case lookup_partial x ps of Some p \<Rightarrow> Some p | None \<Rightarrow> map_of e x)"
    using 2(4) by (auto simp: lookup_partial_def fun_eq_iff split: option.split) (metis fst_conv image_eqI map_of_SomeD)
  with 2 show ?case by simp
next
  case (3 abi limits k p ps e)
  from 3(2) obtain u where u: "name_if_new abi limits k e s = (Inr (), u)"
    and rest: "collect_overriding abi limits ps (effective_put k p e) u = (Inr e', t)"
    by (auto simp: then_eff_Inr_iff)
  from collected_step [OF put_counted [OF 3(3) u] 3(1) [OF rest effective_put_sorted [OF 3(3)]]] 3(4)
  show ?case using override_lookup [OF 3(3), of k ps p] by simp
qed

lemma collect_compiled_run:
  "collect_compiled abi limits ps e s = (Inr e', t) \<Longrightarrow> names_sorted e \<Longrightarrow> distinct (map fst ps) \<Longrightarrow>
     collected e e' (\<lambda>x. case lookup_partial x ps of Some p \<Rightarrow> Some p | None \<Rightarrow> map_of e x) s t
     \<and> list_all (\<lambda>p. snd p \<noteq> None) ps"
proof (induction ps arbitrary: e s)
  case Nil
  then show ?case using collected_refl [of e s] by (auto simp: lookup_partial_def)
next
  case (Cons q ps)
  obtain k c where q: "q = (k, c)" by (cases q)
  from Cons.prems(1) q obtain u p where u: "name_if_new abi limits k e s = (Inr (), u)" and c: "c = Some p"
    and rest: "collect_compiled abi limits ps (effective_put k p e) u = (Inr e', t)"
    by (cases c) (auto simp: then_eff_Inr_iff)
  note IH = Cons.IH [OF rest effective_put_sorted [OF Cons.prems(2)]]
  from collected_step [OF put_counted [OF Cons.prems(2) u] conjunct1 [OF IH]] IH Cons.prems(3) q c
  show ?case using override_lookup [OF Cons.prems(2), of k ps p] by simp
qed

text \<open>The partials a builder was given, whichever form they had.\<close>

definition given_partials :: "partial_source \<Rightarrow> partial_map" where
  "given_partials source = (case source of OwnedPartials ps \<Rightarrow> ps | CompiledPartials ps \<Rightarrow> ps)"

text \<open>What a name stands for: the given partial, else the root's own.\<close>

definition effective_partial :: "node \<Rightarrow> partial_source \<Rightarrow> string \<Rightarrow> node option" where
  "effective_partial root source name =
     (case lookup_partial name (given_partials source) of
        Some p \<Rightarrow> Some p
      | None \<Rightarrow> lookup_partial name (partials root))"

definition distinct_keys :: "node \<Rightarrow> partial_source \<Rightarrow> bool" where
  "distinct_keys root source \<longleftrightarrow> distinct (map fst (partials root)) \<and> distinct (map fst (given_partials source))"

lemma collectEffectivePartials_run:
  assumes run: "collectEffectivePartials abi limits (partials root) source s = (Inr e, t)"
    and keys: "distinct_keys root source"
  shows "names_sorted e" and "map_of e = effective_partial root source" and "counted K K (names_bytes e) s t"
proof -
  from run obtain e' u where fallback: "collect_fallback abi limits (partials root) [] s = (Inr e', u)"
    and over: "(case source of OwnedPartials ps \<Rightarrow> collect_overriding abi limits ps e'
        | CompiledPartials ps \<Rightarrow> collect_compiled abi limits ps e') u = (Inr e, t)"
    by (auto simp: collectEffectivePartials_def bind_eff_Inr_iff)
  have "names_sorted []" by (simp add: names_sorted_def)
  from collect_fallback_run [OF fallback this] keys
  have own: "collected [] e' (\<lambda>x. lookup_partial x (partials root)) s u"
    by (simp add: distinct_keys_def)
  then have sorted: "names_sorted e'" and map: "map_of e' = (\<lambda>x. lookup_partial x (partials root))"
    by (simp_all add: collected_def)
  have "collected e' e (\<lambda>x. case lookup_partial x (given_partials source) of Some p \<Rightarrow> Some p | None \<Rightarrow> map_of e' x) u t"
    using over collect_overriding_run [OF _ sorted] collect_compiled_run [OF _ sorted] keys
    by (cases source) (auto simp: distinct_keys_def given_partials_def)
  then have "collected e' e (effective_partial root source) u t"
    unfolding map effective_partial_def [abs_def] .
  with own collected_step [of e' "[]" s u e] have "collected [] e (effective_partial root source) s t"
    by (simp add: collected_def)
  then show "names_sorted e" "map_of e = effective_partial root source" "counted K K (names_bytes e) s t"
    by (simp_all add: collected_def names_bytes_def)
qed

lemma collected_partials_full:
  assumes "collectEffectivePartials abi limits (partials root) (CompiledPartials ps) s = (Inr e, t)"
    and "distinct_keys root (CompiledPartials ps)"
  shows "list_all (\<lambda>p. snd p \<noteq> None) ps"
proof -
  from assms(1) obtain e' u where fallback: "collect_fallback abi limits (partials root) [] s = (Inr e', u)"
    and over: "collect_compiled abi limits ps e' u = (Inr e, t)"
    by (auto simp: collectEffectivePartials_def bind_eff_Inr_iff)
  have "names_sorted []" by (simp add: names_sorted_def)
  from collect_fallback_run [OF fallback this] assms(2) have "names_sorted e'"
    by (simp add: distinct_keys_def collected_def)
  from collect_compiled_run [OF over this] assms(2) show ?thesis by (simp add: distinct_keys_def given_partials_def)
qed

end
