(* ===== verification/Archive_Counted.thy ===== *)
theory Archive_Counted
  imports Archive_Stored
begin

text \<open>
  What the counting of the builder has checked when it ends: the nesting and the data parts of
  every node, and the totals of nodes, data parts and string bytes against their limits.
\<close>

text \<open>The data parts a node is charged for.\<close>

definition node_parts :: "node \<Rightarrow> nat" where
  "node_parts n =
     (case ndata n of None \<Rightarrow> 0
      | Some d \<Rightarrow> if isSerializableType (ntype n) \<and> type_and (ntype n) TypeHasDot then data_part_count d else 0)"

text \<open>Nesting and data parts of every node, as the builder checks them at a depth.\<close>

function tree_within :: "archive_limits \<Rightarrow> nat \<Rightarrow> node \<Rightarrow> bool" where
  "tree_within L depth n \<longleftrightarrow>
     depth < min (al_maxNestingDepth L) renderNestingCeiling \<and> node_parts n \<le> al_maxDataPartsPerNode L
     \<and> (\<forall>c\<in>set (children n). case c of None \<Rightarrow> False | Some m \<Rightarrow> tree_within L (depth + 1) m)"
  by pat_completeness auto
termination
  by (relation "measure (\<lambda>(L, depth, n). size n)") (auto simp: size_children)

declare tree_within.simps [simp del]

text \<open>Nodes and data parts added to the counters, which stay within their limits, as the strings do.\<close>

definition charged :: "archive_limits \<Rightarrow> nat \<Rightarrow> nat \<Rightarrow> builder \<Rightarrow> builder \<Rightarrow> bool" where
  "charged L nodes parts s t \<longleftrightarrow> bd_nodeCount t = bd_nodeCount s + nodes \<and> bd_dataParts t = bd_dataParts s + parts
     \<and> (bd_nodeCount s \<le> al_maxNodes L \<longrightarrow> bd_nodeCount t \<le> al_maxNodes L)
     \<and> (bd_dataParts s \<le> al_maxTotalDataParts L \<longrightarrow> bd_dataParts t \<le> al_maxTotalDataParts L)
     \<and> (bd_stringBytes s \<le> al_maxTotalStringBytes L \<longrightarrow> bd_stringBytes t \<le> al_maxTotalStringBytes L)"

lemma charged_refl: "charged L 0 0 s s"
  by (simp add: charged_def)

lemma charged_trans: "charged L j p s t \<Longrightarrow> charged L k q t u \<Longrightarrow> charged L (j + k) (p + q) s u"
  by (auto simp: charged_def)

lemma charged_order [simp]: "reflp (charged L 0 0)" "transp (charged L 0 0)"
  using charged_refl charged_trans [of L 0 0 _ _ 0 0] by (auto intro!: reflpI transpI)

lemma steps_minimum_size [eff_steps]: "steps (charged L 0 0) (validateMinimumSize abi L)"
  by (auto simp: validateMinimumSize_def intro!: eff_steps)

lemma steps_addStringBytes [eff_steps]: "steps (charged L 0 0) (addStringBytes abi L n)"
proof -
  have "charged L 0 0 s (snd (addStringBytes abi L n s))" for s
  proof (cases "bd_stringBytes s + n \<le> max_uint32 \<and> bd_stringBytes s + n \<le> al_maxTotalStringBytes L")
    case True
    let ?s = "s\<lparr>bd_stringBytes := bd_stringBytes s + n\<rparr>"
    have "addStringBytes abi L n s = validateMinimumSize abi L ?s"
      using True by (auto simp: addStringBytes_def eff_defs)
    moreover have "charged L 0 0 s ?s" using True by (simp add: charged_def)
    moreover have "charged L 0 0 ?s (snd (validateMinimumSize abi L ?s))"
      using steps_minimum_size by (simp add: steps_def)
    ultimately show ?thesis using charged_trans [of L 0 0 s ?s 0 0] by simp
  next
    case False
    then have "snd (addStringBytes abi L n s) = s" by (auto simp: addStringBytes_def eff_defs)
    then show ?thesis by (simp add: charged_refl)
  qed
  then show ?thesis by (simp add: steps_def)
qed

lemma steps_addOptionalBytes [eff_steps]: "steps (charged L 0 0) (addOptionalBytes abi L v)"
  by (auto simp: addOptionalBytes_def intro!: eff_steps split: option.split)

lemma steps_addPartialName [eff_steps]: "steps (charged L 0 0) (addPartialName abi L k)"
  by (auto simp: addPartialName_def charged_def intro!: eff_steps steps_writes)

lemma steps_name_if_new [eff_steps]: "steps (charged L 0 0) (name_if_new abi L k e)"
  by (auto simp: name_if_new_def intro!: eff_steps)

lemma steps_countSource [eff_steps]: "steps (charged L 0 0) (countSource abi L n)"
  by (auto simp: countSource_def charged_def intro!: eff_steps steps_writes split: option.split)

lemma steps_collect [eff_steps]:
  "steps (charged L 0 0) (collect_fallback abi L ps e)" "steps (charged L 0 0) (collect_overriding abi L ps e)"
  "steps (charged L 0 0) (collect_compiled abi L cs e)"
proof -
  show "steps (charged L 0 0) (collect_fallback abi L ps e)"
    by (induction abi L ps e rule: collect_fallback.induct) (auto intro!: eff_steps)
  show "steps (charged L 0 0) (collect_overriding abi L ps e)"
    by (induction abi L ps e rule: collect_overriding.induct) (auto intro!: eff_steps)
  show "steps (charged L 0 0) (collect_compiled abi L cs e)"
    by (induction abi L cs e rule: collect_compiled.induct) (auto intro!: eff_steps split: option.split)
qed

lemma steps_collectEffectivePartials: "steps (charged L 0 0) (collectEffectivePartials abi L ps source)"
  by (auto simp: collectEffectivePartials_def intro!: eff_steps split: partial_source.split)

lemma countDataParts_charged:
  assumes "countDataParts L n s = (Inr u, t)"
  shows "charged L 0 (node_parts n) s t" and "node_parts n \<le> al_maxDataPartsPerNode L"
  using assms by (auto simp: countDataParts_def node_parts_def charged_def then_eff_Inr_iff split: option.splits if_splits)

lemma countFields_charged:
  assumes "countFields abi L depth n s = (Inr u, t)"
  shows "charged L 1 (node_parts n) s t" and "node_parts n \<le> al_maxDataPartsPerNode L"
    and "depth < min (al_maxNestingDepth L) renderNestingCeiling"
proof -
  let ?s = "s\<lparr>bd_nodeCount := bd_nodeCount s + 1\<rparr>"
  define m where "m = then_eff (addOptionalBytes abi L (ndata n)) (then_eff (addOptionalBytes abi L (startSequence n))
      (then_eff (addOptionalBytes abi L (stopSequence n)) (countSource abi L n)))"
  from assms obtain v where v: "m ?s = (Inr (), v)"
    and w: "countDataParts L n v = (Inr u, t)" and room: "bd_nodeCount s < al_maxNodes L"
    and depth: "depth < min (al_maxNestingDepth L) renderNestingCeiling"
    by (auto simp: countFields_def m_def then_eff_Inr_iff dest!: validateMinimumSize_run)
  have "steps (charged L 0 0) m" unfolding m_def by (intro eff_steps) simp_all
  from stepsD [OF this v] have "charged L 0 0 ?s v" .
  moreover have "charged L 1 0 s ?s" using room by (simp add: charged_def)
  ultimately have "charged L 1 0 s v" using charged_trans [of L 1 0 s ?s 0 0 v] by simp
  from charged_trans [OF this countDataParts_charged(1) [OF w]] show "charged L 1 (node_parts n) s t" by simp
  show "node_parts n \<le> al_maxDataPartsPerNode L" by (rule countDataParts_charged [OF w])
  show "depth < min (al_maxNestingDepth L) renderNestingCeiling" by (rule depth)
qed

definition parts_of :: "node list \<Rightarrow> nat" where
  "parts_of ns = sum_list (map node_parts ns)"

lemma parts_of_simps [simp]:
  "parts_of [] = 0" "parts_of (n # ns) = node_parts n + parts_of ns" "parts_of (ns @ ms) = parts_of ns + parts_of ms"
  by (simp_all add: parts_of_def)

lemma each_charged:
  assumes "each_eff f cs s = (Inr u, t)"
    and "\<And>c s t. c \<in> set cs \<Longrightarrow> f c s = (Inr (), t) \<Longrightarrow> charged L (length (g c)) (parts_of (g c)) s t"
  shows "charged L (length (concat (map g cs))) (parts_of (concat (map g cs))) s t"
  using assms
proof (induction cs arbitrary: s)
  case Nil
  then show ?case by (simp add: charged_refl)
next
  case (Cons c cs)
  from Cons.prems(1) obtain v where v: "f c s = (Inr (), v)" and rest: "each_eff f cs v = (Inr u, t)"
    by (auto simp: then_eff_Inr_iff)
  have "charged L (length (g c)) (parts_of (g c)) s v" using Cons.prems(2) [OF _ v] by simp
  moreover have "charged L (length (concat (map g cs))) (parts_of (concat (map g cs))) v t"
    by (rule Cons.IH [OF rest]) (rule Cons.prems(2), simp)
  ultimately show ?case by (simp add: charged_trans)
qed

lemma each_eff_runs:
  "each_eff f cs s = (Inr u, t) \<Longrightarrow> c \<in> set cs \<Longrightarrow> \<exists>x y. f c x = (Inr (), y)"
proof (induction cs arbitrary: s)
  case (Cons d cs)
  from Cons.prems(1) obtain v where "f d s = (Inr (), v)" and "each_eff f cs v = (Inr u, t)"
    by (auto simp: then_eff_Inr_iff)
  with Cons.IH Cons.prems(2) show ?case by (cases "c = d") auto
qed simp

lemma countNode_charged:
  "countNode abi L depth n s = (Inr u, t) \<Longrightarrow>
     tree_within L depth n \<and> charged L (length (preorder n)) (parts_of (preorder n)) s t"
proof (induction n arbitrary: depth s u t rule: node_induct)
  case (node n)
  define f where "f = (\<lambda>c. case c of None \<Rightarrow> throw null_archive_child | Some m \<Rightarrow> countNode abi L (depth + 1) m)"
  from node.prems obtain v where v: "countFields abi L depth n s = (Inr (), v)"
    and kids: "each_eff f (children n) v = (Inr u, t)"
    by (subst (asm) countNode.simps) (auto simp: then_eff_Inr_iff f_def)
  have each: "\<exists>m. c = Some m \<and> tree_within L (depth + 1) m \<and> charged L (length (forest c)) (parts_of (forest c)) x y"
    if "c \<in> set (children n)" "f c x = (Inr (), y)" for c x y
  proof (cases c rule: option.exhaust)
    case (Some m)
    with that node.IH [of m "depth + 1" x "()" y] show ?thesis by (simp add: f_def forest_Some)
  qed (use that in \<open>simp add: f_def\<close>)
  have "charged L (length (concat (map forest (children n)))) (parts_of (concat (map forest (children n)))) v t"
    by (rule each_charged [OF kids]) (use each in blast)
  from charged_trans [OF countFields_charged(1) [OF v] this]
  have "charged L (length (preorder n)) (parts_of (preorder n)) s t" by (simp add: preorder_eq)
  moreover have "\<forall>c\<in>set (children n). case c of None \<Rightarrow> False | Some m \<Rightarrow> tree_within L (depth + 1) m"
    using each each_eff_runs [OF kids] by (fastforce split: option.split)
  ultimately show ?case
    using countFields_charged(2,3) [OF v] by (subst tree_within.simps) simp
qed

end
