(* ===== verification/Archive_Roundtrip.thy ===== *)
theory Archive_Roundtrip
  imports Archive_Counted
begin

text \<open>
  The builder as a whole. Every template and partial that went in is held by the graph that
  comes out, and the views the renderer reads the graph through give it back.
\<close>

section \<open>Growing graphs\<close>

definition extends :: "archive_graph \<Rightarrow> archive_graph \<Rightarrow> bool" where
  "extends g g' \<longleftrightarrow> (\<exists>ns w. ag_nodes g' = ag_nodes g @ ns \<and> ag_strings g' = ag_strings g @ w)"

lemma extends_refl [simp]: "extends g g"
  by (simp add: extends_def)

lemma extends_trans: "extends g g' \<Longrightarrow> extends g' g'' \<Longrightarrow> extends g g''"
  by (auto simp: extends_def)

lemma extends_fields [simp]:
  "extends g (g'\<lparr>ag_root := i\<rparr>) = extends g g'" "extends g (g'\<lparr>ag_partials := ps\<rparr>) = extends g g'"
  by (simp_all add: extends_def)

lemma extends_kept:
  assumes "kept {} s t"
  shows "extends (bd_graph s) (bd_graph t)"
proof -
  have "nodes_of t = nodes_of s @ drop (length (nodes_of s)) (nodes_of t)"
    by (rule nth_equalityI) (use assms in \<open>auto simp: kept_def nth_append\<close>)
  moreover obtain w where "strings_of t = strings_of s @ w" using assms by (auto simp: kept_def)
  ultimately show ?thesis unfolding extends_def nodes_of_def strings_of_def by blast
qed

lemma extends_grow: "extends (bd_graph s) (bd_graph (grow_strings w s))"
  by (simp add: extends_def grow_strings_def)

lemma rep_chain_extends:
  assumes "rep_chain g i ts cs" and "extends g g'"
  shows "rep_chain g' i ts cs"
proof -
  obtain ns w where g': "ag_nodes g' = ag_nodes g @ ns" "ag_strings g' = ag_strings g @ w"
    using assms(2) by (auto simp: extends_def)
  from assms(1) show ?thesis
    by (rule rep_chain_agree) (use g' rep_chain_bound [OF assms(1)] in \<open>auto simp: nth_append\<close>)
qed

section \<open>The header\<close>

text \<open>Appending nodes and partials leaves the header of the graph as it is.\<close>

definition header_kept :: "builder \<Rightarrow> builder \<Rightarrow> bool" where
  "header_kept s t \<longleftrightarrow> ag_root (bd_graph t) = ag_root (bd_graph s) \<and> ag_magic (bd_graph t) = ag_magic (bd_graph s)
     \<and> ag_version (bd_graph t) = ag_version (bd_graph s)"

lemma header_kept_order [simp]: "reflp header_kept" "transp header_kept"
  by (auto simp: header_kept_def intro!: reflpI transpI)

lemma steps_appendString [eff_steps]: "steps header_kept (appendString v)"
  by (auto simp: appendString_def header_kept_def intro!: eff_steps steps_writes)

lemma steps_sourceOffset: "steps header_kept (sourceOffset src)"
  by (auto simp: sourceOffset_def header_kept_def intro!: eff_steps steps_writes split: option.split)

lemma steps_appendFields: "steps header_kept (appendFields n)"
  by (auto simp: appendFields_def appendPresent_def appendOriginal_def intro!: eff_steps steps_sourceOffset
      split: option.split)

lemma steps_link_children:
  "(\<And>c. c \<in> set cs \<Longrightarrow> steps header_kept (f c)) \<Longrightarrow> steps header_kept (link_children f cs first previous)"
  by (induction cs arbitrary: first previous)
    (auto simp: header_kept_def set_sibling_def intro!: eff_steps steps_writes)

lemma steps_appendNode: "steps header_kept (archive_appendNode n)"
proof (induction n rule: node_induct)
  case (node n)
  have "steps header_kept emplace_node" "steps header_kept (writes (set_node index a))" for index a
    by (auto simp: emplace_node_def set_node_def header_kept_def intro!: eff_steps steps_writes)
  with node show ?case
    by (subst archive_appendNode.simps)
      (auto simp: appendable_def intro!: eff_steps steps_appendFields steps_link_children split: option.split)
qed

lemma steps_appendPartial: "steps header_kept (appendPartial p)"
  by (auto simp: appendPartial_def header_kept_def intro!: eff_steps steps_appendNode steps_writes)

section \<open>The root and the partials\<close>

text \<open>A tree of its own at an index, within the nodes the graph has.\<close>

definition holds_tree :: "archive_graph \<Rightarrow> 32 word \<Rightarrow> node \<Rightarrow> bool" where
  "holds_tree g i n \<longleftrightarrow> (\<exists>us. rep_chain g i [ITree i us] [Some n] \<and> distinct (chain_indices [ITree i us]))"

lemma holds_tree_extends: "holds_tree g i n \<Longrightarrow> extends g g' \<Longrightarrow> holds_tree g' i n"
  unfolding holds_tree_def by (blast intro: rep_chain_extends)

lemma appended_holds:
  assumes "appended texts K s n i t us"
  shows "holds_tree (bd_graph t) i n"
proof -
  have "rep_chain (bd_graph t) i [ITree i us] [Some n]"
    using assms by (auto simp: appended_def grown_def nodes_of_def)
  moreover have "distinct (chain_indices [ITree i us])"
    using assms by (simp add: appended_def)
  ultimately show ?thesis by (auto simp: holds_tree_def)
qed

text \<open>Trees side by side: the nodes from one index to another, each tree after the one before it.\<close>

definition packed :: "archive_graph \<Rightarrow> nat \<Rightarrow> nat \<Rightarrow> itree list \<Rightarrow> node list \<Rightarrow> bool" where
  "packed g a b ts ns \<longleftrightarrow> a \<le> b \<and> concat (map itree_indices ts) = [a ..< b]
     \<and> list_all2 (\<lambda>t n. rep_chain g (root_index t) [t] [Some n]) ts ns"

lemma packed_extends: "packed g a b ts ns \<Longrightarrow> extends g g' \<Longrightarrow> packed g' a b ts ns"
  by (auto simp: packed_def elim!: list_all2_mono dest: rep_chain_extends)

lemma packed_Cons: "packed g a b [t] [n] \<Longrightarrow> packed g b c ts ns \<Longrightarrow> packed g a c (t # ts) (n # ns)"
  by (auto simp: packed_def upt_join)

lemma appended_packed:
  "appended texts K s n i t us \<Longrightarrow> packed (bd_graph t) (length (nodes_of s)) (length (nodes_of t)) [ITree i us] [n]"
  by (auto simp: packed_def appended_def itree_indices_def upt_conv_Cons nodes_of_def)

definition holds_partial :: "archive_graph \<Rightarrow> archive_partial \<Rightarrow> string \<times> node \<Rightarrow> bool" where
  "holds_partial g p e \<longleftrightarrow> slice_ok g (ap_name p) \<and> archiveSliceView g (ap_name p) = fst e
     \<and> holds_tree g (ap_root p) (snd e)"

lemma holds_partial_extends: "holds_partial g p e \<Longrightarrow> extends g g' \<Longrightarrow> holds_partial g' p e"
  unfolding holds_partial_def by (metis extends_def holds_tree_extends slice_extend)

definition partial_nodes :: "effective_partials \<Rightarrow> node list" where
  "partial_nodes e = concat (map (\<lambda>p. preorder (snd p)) e)"

definition partials_room :: "(nat \<Rightarrow> string) \<Rightarrow> nat set \<Rightarrow> builder \<Rightarrow> effective_partials \<Rightarrow> bool" where
  "partials_room texts K s e \<longleftrightarrow> places texts K s
     \<and> length (strings_of s) + names_bytes e + bytes_of K (partial_nodes e) \<le> max_uint32
     \<and> length (nodes_of s) \<le> max_uint32 \<and> list_all (well_sourced texts) (partial_nodes e)"

definition add_partial :: "archive_slice \<Rightarrow> 32 word \<Rightarrow> builder \<Rightarrow> builder" where
  "add_partial name root s = s\<lparr>bd_graph := (bd_graph s)\<lparr>ag_partials :=
     ag_partials (bd_graph s) @ [\<lparr>ap_name = name, ap_root = root\<rparr>]\<rparr>\<rparr>"

lemma add_partial_simps [simp]:
  "strings_of (add_partial name root s) = strings_of s" "nodes_of (add_partial name root s) = nodes_of s"
  "bd_sourceOffsets (add_partial name root s) = bd_sourceOffsets s"
  "ag_partials (bd_graph (add_partial name root s)) = ag_partials (bd_graph s) @ [\<lparr>ap_name = name, ap_root = root\<rparr>]"
  "ag_root (bd_graph (add_partial name root s)) = ag_root (bd_graph s)"
  "extends g (bd_graph (add_partial name root s)) = extends g (bd_graph s)"
  by (simp_all add: add_partial_def strings_of_def nodes_of_def)

lemma appendPartial_run:
  assumes run: "appendPartial (k, n) s = (Inr u, t)" and room: "partials_room texts K s ((k, n) # e)"
  shows "partials_room texts (sources_of K (preorder n)) t e"
    and "\<exists>p us. ag_partials (bd_graph t) = ag_partials (bd_graph s) @ [p] \<and> holds_partial (bd_graph t) p (k, n)
      \<and> packed (bd_graph t) (length (nodes_of s)) (length (nodes_of t)) [ITree (ap_root p) us] [n]"
    and "extends (bd_graph s) (bd_graph t)"
    and "length (strings_of t) = length (strings_of s) + length k + bytes_of K (preorder n)"
proof -
  let ?v = "grow_strings k s" and ?name = "\<lparr>as_offset = word_of_nat (length (strings_of s)), as_length = word_of_nat (length k)\<rparr>"
  from run obtain i w where app: "archive_appendNode n ?v = (Inr i, w)" and t: "t = add_partial ?name i w"
    by (auto simp: appendPartial_def bind_eff_Inr_iff appendString_eq add_partial_def)
  have "ready_for texts K ?v (preorder n)"
    using room places_grow [of texts K s k]
    by (simp add: partials_room_def ready_for_def partial_nodes_def names_bytes_def bytes_of_append)
  from appendNode_stores [OF app this] obtain us where ap: "appended texts K ?v n i w us" by blast
  then have kept: "kept {} ?v w" and g: "grown texts {} K (preorder n) ?v w" by (simp_all add: appended_def grown_def)
  show "partials_room texts (sources_of K (preorder n)) t e"
    using room g places_same [of t w texts]
    by (simp add: partials_room_def t grown_def partial_nodes_def names_bytes_def bytes_of_append)
  have ext: "extends (bd_graph ?v) (bd_graph t)" using extends_kept [OF kept] by (simp add: t)
  show "extends (bd_graph s) (bd_graph t)" by (rule extends_trans [OF extends_grow ext])
  have "slice_ok (bd_graph ?v) ?name" "archiveSliceView (bd_graph ?v) ?name = k"
    using slice_text [of "bd_graph ?v" "strings_of s" k "[]"] room
    by (simp_all add: partials_room_def names_bytes_def grow_strings_def strings_of_def)
  then have "slice_ok (bd_graph t) ?name" "archiveSliceView (bd_graph t) ?name = k"
    using slice_extend [of "bd_graph ?v" ?name "bd_graph t"] ext by (auto simp: extends_def)
  moreover have "holds_tree (bd_graph t) i n"
    using holds_tree_extends [OF appended_holds [OF ap], of "bd_graph t"] by (simp add: t)
  moreover have "ag_partials (bd_graph t) = ag_partials (bd_graph s) @ [\<lparr>ap_name = ?name, ap_root = i\<rparr>]"
    using kept by (simp add: t kept_def)
  moreover have "packed (bd_graph t) (length (nodes_of s)) (length (nodes_of t)) [ITree i us] [n]"
    using packed_extends [OF appended_packed [OF ap], of "bd_graph t"] by (simp add: t)
  ultimately show "\<exists>p us. ag_partials (bd_graph t) = ag_partials (bd_graph s) @ [p] \<and> holds_partial (bd_graph t) p (k, n)
      \<and> packed (bd_graph t) (length (nodes_of s)) (length (nodes_of t)) [ITree (ap_root p) us] [n]"
    by (auto simp: holds_partial_def)
  show "length (strings_of t) = length (strings_of s) + length k + bytes_of K (preorder n)"
    using g by (simp add: t grown_def)
qed

lemma appendPartials_run:
  "each_eff appendPartial e s = (Inr u, t) \<Longrightarrow> partials_room texts K s e \<Longrightarrow>
     extends (bd_graph s) (bd_graph t)
     \<and> length (strings_of t) = length (strings_of s) + names_bytes e + bytes_of K (partial_nodes e)
     \<and> (\<exists>ps ts. ag_partials (bd_graph t) = ag_partials (bd_graph s) @ ps \<and> list_all2 (holds_partial (bd_graph t)) ps e
          \<and> map root_index ts = map ap_root ps
          \<and> packed (bd_graph t) (length (nodes_of s)) (length (nodes_of t)) ts (map snd e))"
proof (induction e arbitrary: s K)
  case Nil
  then show ?case by (simp add: names_bytes_def partial_nodes_def packed_def)
next
  case (Cons x e)
  obtain k n where x: "x = (k, n)" by (cases x)
  from Cons.prems(1) x obtain v where v: "appendPartial (k, n) s = (Inr (), v)" and rest: "each_eff appendPartial e v = (Inr u, t)"
    by (auto simp: then_eff_Inr_iff)
  note first = appendPartial_run [OF v Cons.prems(2) [unfolded x]]
  from first(2) obtain p us where p: "ag_partials (bd_graph v) = ag_partials (bd_graph s) @ [p]"
    "holds_partial (bd_graph v) p (k, n)"
    and pk: "packed (bd_graph v) (length (nodes_of s)) (length (nodes_of v)) [ITree (ap_root p) us] [n]" by blast
  from Cons.IH [OF rest first(1)] obtain ps ts where ps: "extends (bd_graph v) (bd_graph t)"
    "ag_partials (bd_graph t) = ag_partials (bd_graph v) @ ps" "list_all2 (holds_partial (bd_graph t)) ps e"
    "map root_index ts = map ap_root ps" "packed (bd_graph t) (length (nodes_of v)) (length (nodes_of t)) ts (map snd e)"
    and strings: "length (strings_of t) = length (strings_of v) + names_bytes e
      + bytes_of (sources_of K (preorder n)) (partial_nodes e)" by blast
  have "list_all2 (holds_partial (bd_graph t)) (p # ps) (x # e)"
    using ps(1,3) holds_partial_extends [OF p(2)] x by simp
  moreover have "packed (bd_graph t) (length (nodes_of s)) (length (nodes_of t)) (ITree (ap_root p) us # ts) (map snd (x # e))"
    using packed_Cons [OF packed_extends [OF pk ps(1)] ps(5)] x by simp
  moreover have "length (strings_of t) = length (strings_of s) + names_bytes (x # e) + bytes_of K (partial_nodes (x # e))"
    using strings first(4) x by (simp add: names_bytes_def partial_nodes_def bytes_of_append)
  moreover have "map root_index (ITree (ap_root p) us # ts) = map ap_root (p # ps)" using ps(4) by simp
  moreover have "ag_partials (bd_graph t) = ag_partials (bd_graph s) @ p # ps" using ps(2) p(1) by simp
  ultimately show ?case using extends_trans [OF first(3) ps(1)] by blast
qed

definition holds_template :: "archive_graph \<Rightarrow> node \<Rightarrow> effective_partials \<Rightarrow> bool" where
  "holds_template g root e \<longleftrightarrow> holds_tree g (ag_root g) root \<and> list_all2 (holds_partial g) (ag_partials g) e"

definition sourced_template :: "(nat \<Rightarrow> string) \<Rightarrow> node \<Rightarrow> partial_source \<Rightarrow> bool" where
  "sourced_template texts root source \<longleftrightarrow> list_all (well_sourced texts) (preorder root)
     \<and> (\<forall>name p. effective_partial root source name = Some p \<longrightarrow> list_all (well_sourced texts) (preorder p))"

text \<open>The trees fill the table of nodes, and everything in the graph is within the limits.\<close>

definition built_within :: "archive_limits \<Rightarrow> archive_graph \<Rightarrow> node \<Rightarrow> effective_partials \<Rightarrow> bool" where
  "built_within L g root e \<longleftrightarrow> ag_magic g = archiveGraphMagic \<and> ag_version g = archiveSchemaVersion
     \<and> length (concat (map preorder (root # map snd e))) \<le> al_maxNodes L
     \<and> length (ag_strings g) \<le> al_maxTotalStringBytes L
     \<and> parts_of (concat (map preorder (root # map snd e))) \<le> al_maxTotalDataParts L
     \<and> list_all (tree_within L 0) (root # map snd e)
     \<and> (\<exists>t ts. root_index t = ag_root g \<and> map root_index ts = map ap_root (ag_partials g)
          \<and> packed g 0 (length (ag_nodes g)) (t # ts) (root # map snd e))"

lemma names_sorted_distinct: "names_sorted e \<Longrightarrow> distinct (map fst e)"
  by (simp add: names_sorted_def strict_sorted_iff)

lemma buildWithPartials_run:
  assumes run: "buildWithPartials abi limits root source new_archive_builder = (Inr g, t)"
    and keys: "distinct_keys root source" and src: "sourced_template texts root source"
  obtains e where "names_sorted e" "map_of e = effective_partial root source" "holds_template g root e"
    "built_within limits g root e"
proof -
  let ?s = "new_archive_builder"
  from run obtain u1 e u2 u3 i u4 where count: "countNode abi limits 0 root ?s = (Inr (), u1)"
    and collect: "collectEffectivePartials abi limits (partials root) source u1 = (Inr e, u2)"
    and each: "each_eff (\<lambda>p. countNode abi limits 0 (snd p)) e u2 = (Inr (), u3)"
    and append: "archive_appendNode root u3 = (Inr i, u4)"
    and rest: "each_eff appendPartial e (u4\<lparr>bd_graph := (bd_graph u4)\<lparr>ag_root := i\<rparr>\<rparr>) = (Inr (), t)"
    and g: "g = bd_graph t"
    by (auto simp: buildWithPartials_def then_eff_Inr_iff bind_eff_Inr_iff dest!: validateMinimumSize_run)
  let ?K = "sources_of {} (preorder root)" and ?v = "u4\<lparr>bd_graph := (bd_graph u4)\<lparr>ag_root := i\<rparr>\<rparr>"
  note names = collectEffectivePartials_run [OF collect keys]
  have tr: "tracked {} ?s" by (simp add: tracked_def new_archive_builder_def)
  note c1 = countNode_counted [OF count tr]
  note c2 = counted_trans [OF c1 names(3) [of ?K]]
  have "tracked ?K u2" using c2 tr by (simp add: counted_def)
  from each_counted [OF each this, of "\<lambda>p. preorder (snd p)"] countNode_counted
  have "counted ?K (sources_of ?K (partial_nodes e)) (bytes_of ?K (partial_nodes e)) u2 u3"
    by (simp add: partial_nodes_def)
  note c3 = counted_trans [OF c2 this]
  have small: "bytes_of {} (preorder root) + names_bytes e + bytes_of ?K (partial_nodes e) \<le> max_uint32"
    and graph: "bd_graph u3 = new_archive_graph" and "\<exists>K. tracked K u3"
    using c3 tr by (auto simp: counted_def new_archive_builder_def)
  then have pl: "places texts {} u3" using tracked_places by blast
  have empty: "strings_of u3 = []" "nodes_of u3 = []"
    using graph by (simp_all add: strings_of_def nodes_of_def new_archive_graph_def)
  have "ready_for texts {} u3 (preorder root)"
    using pl small src by (simp add: ready_for_def empty sourced_template_def)
  from appendNode_stores [OF append this] obtain us where ap: "appended texts {} u3 root i u4 us" by blast
  then have gr: "grown texts {} {} (preorder root) u3 u4" by (simp add: appended_def)
  have same: "strings_of ?v = strings_of u4" "nodes_of ?v = nodes_of u4" "bd_sourceOffsets ?v = bd_sourceOffsets u4"
    by (simp_all add: strings_of_def nodes_of_def)
  have "list_all (well_sourced texts) (preorder (snd p))" if "p \<in> set e" for p
  proof -
    have "map_of e (fst p) = Some (snd p)"
      using that names_sorted_distinct [OF names(1)] by (cases p) auto
    then show ?thesis using src names(2) by (auto simp: sourced_template_def)
  qed
  then have "list_all (well_sourced texts) (partial_nodes e)" by (auto simp: partial_nodes_def list_all_iff)
  then have "partials_room texts ?K ?v e"
    using gr small places_same [of ?v u4 texts] by (simp add: partials_room_def grown_def same empty)
  from appendPartials_run [OF rest this] obtain ps ts where ext: "extends (bd_graph ?v) (bd_graph t)"
    and ps: "ag_partials (bd_graph t) = ag_partials (bd_graph ?v) @ ps" "list_all2 (holds_partial (bd_graph t)) ps e"
    and ts: "map root_index ts = map ap_root ps"
      "packed (bd_graph t) (length (nodes_of u4)) (length (nodes_of t)) ts (map snd e)"
    and strings: "length (strings_of t) = length (strings_of u4) + names_bytes e + bytes_of ?K (partial_nodes e)"
    unfolding same by blast
  have "steps header_kept (each_eff appendPartial e)" by (intro eff_steps steps_appendPartial) simp_all
  from stepsD [OF this rest] have root: "ag_root g = i" by (simp add: header_kept_def g)
  have none: "ag_partials (bd_graph ?v) = []"
    using gr graph by (simp add: grown_def kept_def new_archive_graph_def)
  moreover have "holds_tree (bd_graph t) i root"
    using holds_tree_extends [OF appended_holds [OF ap], of "bd_graph t"] ext by (simp add: extends_def)
  ultimately have "holds_template g root e" using root ps none by (simp add: holds_template_def g)
  moreover have "built_within limits g root e"
  proof -
    have pk: "packed g 0 (length (ag_nodes g)) (ITree i us # ts) (root # map snd e)"
      using packed_Cons [OF packed_extends [OF appended_packed [OF ap]] ts(2)] ext empty(2)
      by (simp add: g nodes_of_def extends_def)
    have trees: "map root_index ts = map ap_root (ag_partials g)" using ts(1) ps(1) none by (simp add: g)
    have size: "length (ag_strings g) = bd_stringBytes u3"
      using strings gr c3 tr by (simp add: counted_def grown_def g strings_of_def new_archive_builder_def new_archive_graph_def)
    have header: "ag_magic g = archiveGraphMagic" "ag_version g = archiveSchemaVersion"
      using stepsD [OF \<open>steps header_kept (each_eff appendPartial e)\<close> rest] stepsD [OF steps_appendNode append] graph
      by (simp_all add: header_kept_def g new_archive_graph_def)
    have count_p: "tree_within limits 0 (snd p) \<and> charged limits (length (preorder (snd p))) (parts_of (preorder (snd p))) x y"
      if "countNode abi limits 0 (snd p) x = (Inr (), y)" for p x y
      by (rule countNode_charged [OF that])
    have within: "list_all (tree_within limits 0) (root # map snd e)"
      using countNode_charged [OF count] each_eff_runs [OF each] count_p by (fastforce simp: list_all_iff)
    have c: "charged limits (length (preorder root)) (parts_of (preorder root)) ?s u1" using countNode_charged [OF count] by blast
    have names: "charged limits 0 0 u1 u2" by (rule stepsD [OF steps_collectEffectivePartials collect])
    have rest: "charged limits (length (partial_nodes e)) (parts_of (partial_nodes e)) u2 u3"
      unfolding partial_nodes_def by (rule each_charged [OF each]) (use count_p in blast)
    have "charged limits (length (preorder root) + length (partial_nodes e))
        (parts_of (preorder root) + parts_of (partial_nodes e)) ?s u3"
      using charged_trans [OF charged_trans [OF c names] rest] by simp
    moreover have "concat (map preorder (root # map snd e)) = preorder root @ partial_nodes e"
      by (simp add: partial_nodes_def comp_def)
    ultimately show ?thesis
      using pk trees size header within root
      by (auto simp: built_within_def charged_def new_archive_builder_def intro!: exI [of _ "ITree i us"] exI [of _ ts])
  qed
  ultimately show ?thesis using names that by blast
qed

section \<open>What the views give back\<close>

text \<open>
  A node as the archive keeps it: data parts recomputed from the data, no container child and no
  partials of its own, and of a section's source only the section's own text.
\<close>

definition archived_node :: "node \<Rightarrow> node option list \<Rightarrow> node" where
  "archived_node n cs =
     Node (ntype n) (nflags n) (ndata n) (data_parts_of (ntype n) (opt_text (ndata n))) cs None []
       (startSequence n) (stopSequence n) (map_option (Buffer 0) (originalSectionText n)) 0
       (case originalSectionText n of None \<Rightarrow> 0 | Some t \<Rightarrow> length t)"

function archived_form :: "node \<Rightarrow> node" where
  "archived_form n = archived_node n (map (map_option archived_form) (children n))"
  by pat_completeness auto
termination
  by (relation "measure size") (auto simp: size_children)

declare archived_form.simps [simp del]

lemma stored_view:
  assumes "stored g a n"
  shows "view_node g a cs = archived_node n (map Some cs)"
proof -
  have data: "field_holds g a (an_data a) HasData (ndata n)" using assms by (simp add: stored_def)
  then have "archiveSliceView g (an_data a) = opt_text (ndata n)"
    by (cases "ndata n") (auto simp: field_holds_def view_string_def opt_text_def split: if_splits)
  then show ?thesis
    using assms cursor_data_parts [of "opt_text (ndata n)" "ntype n"]
    by (simp add: view_node_def archived_node_def stored_def field_holds_def view_data_def view_startSequence_def
        view_stopSequence_def view_originalSectionText_def view_dataParts_def split: option.split if_splits)
qed

lemma rep_chain_views:
  "rep_chain g i ts cs \<Longrightarrow> length (chain_indices ts) \<le> m \<Longrightarrow>
     map Some (view_children m g i) = map (map_option archived_form) cs"
proof (induction g i ts cs arbitrary: m rule: rep_chain.induct)
  case (1 g i cs)
  then show ?case by (cases m) auto
next
  case (2 g i j us ts cs)
  then obtain m' where m: "m = Suc m'" by (cases m) auto
  from 2(3) obtain c cs' where i: "i = j" "j \<noteq> invalidIndex"
    and cs: "cs = Some c # cs'" "stored g (graph_node g j) c"
    and us: "rep_chain g (an_firstChild (graph_node g j)) us (children c)"
    and ts: "rep_chain g (an_nextSibling (graph_node g j)) ts cs'"
    by auto
  have "map Some (view_children m' g (an_firstChild (graph_node g j))) = map (map_option archived_form) (children c)"
    by (rule 2(1) [OF us]) (use 2(4) m in simp)
  moreover have "map Some (view_children m' g (an_nextSibling (graph_node g j))) = map (map_option archived_form) cs'"
    by (rule 2(2) [OF ts]) (use 2(4) m in simp)
  ultimately show ?case
    using i m cs by (simp add: stored_view archived_form.simps [of c])
qed

lemma distinct_bound_length: "distinct ks \<Longrightarrow> \<forall>k\<in>set ks. k < (n::nat) \<Longrightarrow> length ks \<le> n"
  by (metis card_lessThan card_mono distinct_card finite_lessThan lessThan_iff subsetI)

lemma holds_tree_view:
  assumes "holds_tree g i n"
  shows "archive_view g i = archived_form n"
proof -
  from assms obtain us where us: "rep_chain g i [ITree i us] [Some n]" and d: "distinct (chain_indices [ITree i us])"
    by (auto simp: holds_tree_def)
  have "length (chain_indices [ITree i us]) \<le> length (ag_nodes g)"
    by (rule distinct_bound_length [OF d]) (use rep_chain_bound [OF us] in blast)
  then have "length (chain_indices us) \<le> length (ag_nodes g)" by simp
  with rep_chain_views [of g "an_firstChild (graph_node g i)" us "children n"] us
  have "map Some (view_children (length (ag_nodes g)) g (an_firstChild (graph_node g i))) = map (map_option archived_form) (children n)"
    by simp
  moreover have "stored g (graph_node g i) n" using us by simp
  ultimately show ?thesis by (simp add: archive_view_def stored_view [of g _ n] archived_form.simps [of n])
qed

lemma held_partials_lookup:
  "list_all2 (holds_partial g) ps e \<Longrightarrow> names_sorted e \<Longrightarrow>
     (case dropWhile (\<lambda>p. archiveSliceView g (ap_name p) < name) ps of
        [] \<Rightarrow> Inr None
      | p # _ \<Rightarrow>
          if archiveSliceView g (ap_name p) \<noteq> name then Inr None
          else Inr (Some (archive_view g (ap_root p)))) = (Inr (map_option archived_form (map_of e name)) :: node option result)"
proof (induction ps e rule: list_all2_induct)
  case Nil
  then show ?case by simp
next
  case (Cons p ps x e)
  obtain k n where x: "x = (k, n)" by (cases x)
  have p: "archiveSliceView g (ap_name p) = k" "archive_view g (ap_root p) = archived_form n"
    using Cons(1) holds_tree_view by (auto simp: holds_partial_def x)
  have sorted: "names_sorted e" using Cons.prems by (simp add: names_sorted_def)
  consider "k < name" | "name = k" | "name < k" by fastforce
  then show ?case
  proof cases
    case 1
    then have "k \<noteq> name" by auto
    then show ?thesis using 1 Cons.IH [OF sorted] by (simp add: p(1) x)
  next
    case 2
    then show ?thesis by (simp add: p x)
  next
    case 3
    then have "map_of e name = None" using map_of_absent [OF Cons.prems, of name] by (simp add: x)
    with 3 show ?thesis by (auto simp: p x)
  qed
qed

lemma holds_template_partials:
  assumes "holds_template g root e" and "names_sorted e"
  shows "archive_partials g name = Inr (map_option archived_form (map_of e name))"
  using held_partials_lookup [of g "ag_partials g" e name] assms
  by (simp add: holds_template_def archive_partials_def archive_partial_lower_bound_def)

text \<open>
  C12. Building an archive loses nothing the renderer reads: when the builder returns a graph, the
  view of its root is the template that went in, and looking up a name among the archive's
  partials gives what a render of the owned template would have found, the given partial or
  else the root's own. Whatever sections share a source buffer, and whatever the sizes, no
  offset or index has wrapped round.
\<close>

theorem built_archive_views:
  assumes "buildArchive abi limits root source = Inr g"
    and "distinct_keys root source" and "sourced_template texts root source"
  shows "archive_view g (ag_root g) = archived_form root
     \<and> archive_partials g name = Inr (map_option archived_form (effective_partial root source name))"
proof -
  obtain t where "buildWithPartials abi limits root source new_archive_builder = (Inr g, t)"
    using assms(1) by (auto simp: buildArchive_def) (metis prod.collapse)
  from buildWithPartials_run [OF this assms(2,3)] obtain e where e: "names_sorted e"
    "map_of e = effective_partial root source" "holds_template g root e" by blast
  with holds_template_partials [OF e(3,1)] holds_tree_view show ?thesis by (simp add: holds_template_def)
qed

end
