(* ===== verification/Archive_Accepted.thy ===== *)
theory Archive_Accepted
  imports Archive_Roundtrip
begin

text \<open>
  The builder and the validator agree: a graph built from a template the library can compile
  passes the validator under the limits it was built with, so writing it fails only for lack of
  room. What the builder counted is what the validator counts again.
\<close>

section \<open>Nodes\<close>

text \<open>What a compiled template is known to keep of each node.\<close>

definition archivable_node :: "node \<Rightarrow> bool" where
  "archivable_node n \<longleftrightarrow>
     validateNodeShape (ntype n) (nflags n) (ndata n \<noteq> None) (length (children n)) = Inr ()
     \<and> validatePartialIndentationChildren (children n) = Inr ()
     \<and> (startSequence n = None \<longleftrightarrow> stopSequence n = None)
     \<and> (startSequence n \<noteq> None \<longrightarrow> ntype n = TypeSection)"

lemma view_present: "view_string g a v b = Some t \<Longrightarrow> has_presence a b \<and> archiveSliceView g v = t"
  by (auto simp: view_string_def split: if_splits)

lemma field_presence: "field_holds g a v b t \<Longrightarrow> has_presence a b \<longleftrightarrow> t \<noteq> None"
  by (auto simp: field_holds_def view_string_def split: if_splits)

lemma find_absent: "v \<notin> f ` set xs \<Longrightarrow> List.find (\<lambda>x. f x = v) xs = None"
  by (induction xs) auto

lemma stored_fields:
  assumes "stored g a n" and ok: "archivable_node n" and "an_firstChild a \<noteq> invalidIndex \<Longrightarrow> children n \<noteq> []"
  shows "fields_ok g a (has_flag (nflags n) FlagPartialIndent)"
proof -
  have kind: "node_type_of a = ntype n" "node_flags_of a = nflags n" "known_presence a"
    "an_reserved0 a = 0" "an_reserved1 a = 0" "an_reserved2 a = 0"
    and fields: "field_holds g a (an_data a) HasData (ndata n)"
      "field_holds g a (an_startSequence a) HasStartSequence (startSequence n)"
      "field_holds g a (an_stopSequence a) HasStopSequence (stopSequence n)"
      "field_holds g a (an_originalSectionText a) HasOriginalSectionText (originalSectionText n)"
    using assms(1) by (simp_all add: stored_def)
  have shape: "isSerializableType (ntype n)" "\<not> invalid_flags (ntype n) (nflags n)" "ntype n = TypeRoot \<longleftrightarrow> ndata n = None"
    "children n \<noteq> [] \<longrightarrow> typeAllowsChildren (ntype n)"
    using ok by (auto simp: archivable_node_def validateNodeShape_def split: if_splits)
  have ty: "isSerializableTypeValue (unat (an_type a))"
  proof (rule ccontr)
    assume "\<not> ?thesis"
    then have "List.find (\<lambda>t. node_type_value t = unat (an_type a)) serializable_types = None"
      using find_absent [of _ node_type_value] by (simp add: isSerializableTypeValue_def)
    then have "node_type_of a = TypeNone" by (simp add: node_type_of_def node_type_of_value_def)
    with shape(1) kind(1) show False by (simp add: isSerializableType_def isSerializableTypeValue_def serializable_types_def)
  qed
  have original: "originalSectionText n \<noteq> None \<longrightarrow> ntype n = TypeSection"
    by (auto simp: originalSectionText_def split: if_splits)
  have slices: "slice_ok g (an_data a)" "slice_ok g (an_startSequence a)" "slice_ok g (an_stopSequence a)"
    "slice_ok g (an_originalSectionText a)" "ndata n = None \<longrightarrow> an_data a = empty_slice"
    "startSequence n = None \<longrightarrow> an_startSequence a = empty_slice" "stopSequence n = None \<longrightarrow> an_stopSequence a = empty_slice"
    "originalSectionText n = None \<longrightarrow> an_originalSectionText a = empty_slice"
    using fields by (simp_all add: field_holds_def)
  note present = fields [THEN field_presence]
  have header: "archive_header_ok a (has_flag (nflags n) FlagPartialIndent)"
    using kind ty shape by (simp add: archive_header_ok_def known_presence_def)
  have "\<not> invalid_delimiters a"
    using ok slices kind by (auto simp: invalid_delimiters_def present archivable_node_def empty_slice_def Let_def)
  moreover have "\<not> invalid_section_text a"
    using original slices kind by (auto simp: invalid_section_text_def present empty_slice_def Let_def)
  ultimately show ?thesis
    using header slices shape kind assms(3) by (auto simp: fields_ok_def present empty_slice_def)
qed

lemma stored_parts:
  assumes "stored g a n" and "archivable_node n"
  shows "archive_node_parts g a = node_parts n"
proof -
  have "isSerializableType (ntype n)" "ntype n = TypeRoot \<longleftrightarrow> ndata n = None"
    using assms(2) by (auto simp: archivable_node_def validateNodeShape_def split: if_splits)
  moreover have "node_type_of a = ntype n" "view_string g a (an_data a) HasData = ndata n"
    using assms(1) by (simp_all add: stored_def field_holds_def)
  moreover have "\<not> type_and TypeRoot TypeHasDot" by (simp add: type_and_def)
  ultimately show ?thesis
    by (cases "ndata n") (auto simp: archive_node_parts_def node_parts_def dest: view_present)
qed

lemma validate_tail:
  assumes "validatePartialIndentationChildren (Some c # cs) = Inr ()" and "\<And>p. Some p \<in> set cs \<Longrightarrow> archivable_node p"
  shows "validatePartialIndentationChildren cs = Inr ()"
    and "has_flag (nflags c) FlagPartialIndent \<Longrightarrow> isPartialIndentationMetadata c
       \<and> (\<exists>p rest. cs = Some p # rest \<and> ntype p = TypePartial)"
proof -
  have partial: "nflags p AND FlagPartialIndent = 0" if "Some p \<in> set cs" "ntype p = TypePartial" for p
    using assms(2) [OF that(1)] that(2)
    by (auto simp: archivable_node_def validateNodeShape_def invalid_flags_def has_flag_def split: if_splits)
  show "validatePartialIndentationChildren cs = Inr ()"
    using assms(1) partial by (auto split: if_splits list.splits option.splits)
  show "has_flag (nflags c) FlagPartialIndent \<Longrightarrow> isPartialIndentationMetadata c
       \<and> (\<exists>p rest. cs = Some p # rest \<and> ntype p = TypePartial)"
    using assms(1) by (auto simp: has_flag_def split: if_splits list.splits option.splits)
qed

section \<open>Trees\<close>

lemma rep_chain_links: "rep_chain g i ts cs \<Longrightarrow> chain_at g i ts"
  by (induction g i ts cs rule: rep_chain.induct) auto

lemma rep_chain_size: "rep_chain g i ts cs \<Longrightarrow> length (chain_indices ts) = length (concat (map forest cs))"
  by (induction g i ts cs rule: rep_chain.induct) (auto simp: forest_Some preorder_eq)

lemma rep_chain_first: "rep_chain g i us cs \<Longrightarrow> i \<noteq> invalidIndex \<Longrightarrow> cs \<noteq> []"
  by (cases "(g, i, us, cs)" rule: rep_chain.cases) auto

lemma rep_chain_parts:
  "rep_chain g i ts cs \<Longrightarrow> list_all archivable_node (concat (map forest cs)) \<Longrightarrow>
     chain_parts g ts = parts_of (concat (map forest cs))"
proof (induction g i ts cs rule: rep_chain.induct)
  case (2 g i j us ts cs)
  then obtain c cs' where cs: "cs = Some c # cs'" "stored g (graph_node g j) c"
    "rep_chain g (an_firstChild (graph_node g j)) us (children c)" "rep_chain g (an_nextSibling (graph_node g j)) ts cs'"
    by auto
  with 2 show ?case by (simp add: forest_Some preorder_eq stored_parts)
qed simp

lemma archivable_children:
  "list_all archivable_node (concat (map forest cs)) \<Longrightarrow> Some p \<in> set cs \<Longrightarrow> archivable_node p"
proof -
  assume all: "list_all archivable_node (concat (map forest cs))" and "Some p \<in> set cs"
  moreover have "p \<in> set (forest (Some p))" by (simp add: forest_Some preorder_eq)
  ultimately have "p \<in> set (concat (map forest cs))" by force
  with all show "archivable_node p" by (simp only: list_all_iff)
qed

lemma rep_chain_ok:
  "rep_chain g i ts cs \<Longrightarrow> list_all archivable_node (concat (map forest cs)) \<Longrightarrow>
     validatePartialIndentationChildren cs = Inr () \<Longrightarrow>
     (\<And>m. Some m \<in> set cs \<Longrightarrow> tree_within L d m) \<Longrightarrow> chain_ok g L d ts"
proof (induction g i ts cs arbitrary: d rule: rep_chain.induct)
  case (2 g i j us ts cs)
  let ?a = "graph_node g j"
  from 2(3) obtain c cs' where cs: "cs = Some c # cs'" and st: "stored g ?a c"
    and us: "rep_chain g (an_firstChild ?a) us (children c)" and ts: "rep_chain g (an_nextSibling ?a) ts cs'"
    by auto
  have ok: "archivable_node c" "list_all archivable_node (concat (map forest (children c)))"
    "list_all archivable_node (concat (map forest cs'))"
    using 2(4) by (simp_all add: cs forest_Some preorder_eq)
  have within: "tree_within L d c" using 2(6) by (simp add: cs)
  have flags: "node_flags_of ?a = nflags c" "node_type_of ?a = ntype c" using st by (simp_all add: stored_def)
  have "validatePartialIndentationChildren (Some c # cs') = Inr ()" using 2(5) cs by simp
  note tail = validate_tail [OF this archivable_children [OF ok(3)]]
  have "indentation_ok g ?a"
    unfolding indentation_ok_def
  proof
    assume "has_flag (node_flags_of ?a) FlagPartialIndent"
    with tail(2) flags obtain p rest where m: "isPartialIndentationMetadata c" and p: "cs' = Some p # rest" "ntype p = TypePartial"
      by auto
    from ts p obtain j' where next': "an_nextSibling ?a = j'" "j' \<noteq> invalidIndex" "stored g (graph_node g j') p"
      by (cases "(g, an_nextSibling ?a, ts, cs')" rule: rep_chain.cases) auto
    moreover have "field_holds g ?a (an_data ?a) HasData (ndata c)" using st by (simp add: stored_def)
    ultimately show "node_type_of ?a = TypeOutput \<and> node_flags_of ?a = (FlagLambdaOnly OR FlagPartialIndent)
        \<and> has_presence ?a HasData \<and> an_nextSibling ?a \<noteq> invalidIndex \<and> slice_ok g (an_data ?a)
        \<and> list_all is_indent (archiveSliceView g (an_data ?a)) \<and> node_type_of (graph_node g (an_nextSibling ?a)) = TypePartial"
      using m p flags
      by (auto simp: isPartialIndentationMetadata_def stored_def field_holds_def dest!: view_present split: option.splits)
  qed
  moreover have "chain_ok g L (d + 1) us"
  proof (rule 2(1) [OF us ok(2)])
    show "validatePartialIndentationChildren (children c) = Inr ()" using ok(1) by (simp add: archivable_node_def)
    show "tree_within L (d + 1) m" if "Some m \<in> set (children c)" for m
      using within that by (subst (asm) tree_within.simps) force
  qed
  moreover have "chain_ok g L d ts"
  proof (rule 2(2) [OF ts ok(3)])
    show "validatePartialIndentationChildren cs' = Inr ()" by (rule tail(1))
    show "tree_within L d m" if "Some m \<in> set cs'" for m by (rule 2(6)) (simp add: cs that)
  qed
  moreover have "d < min (al_maxNestingDepth L) renderNestingCeiling" "node_parts c \<le> al_maxDataPartsPerNode L"
    using within by (subst (asm) tree_within.simps, simp)+
  moreover have "fields_ok g ?a (has_flag (node_flags_of ?a) FlagPartialIndent)"
    unfolding flags by (rule stored_fields [OF st ok(1) rep_chain_first [OF us]])
  ultimately show ?case by (simp add: stored_parts [OF st ok(1)])
qed simp

text \<open>A whole tree that the builder placed is one the validator accepts.\<close>

definition archivable_tree :: "node \<Rightarrow> bool" where
  "archivable_tree n \<longleftrightarrow> list_all archivable_node (preorder n) \<and> \<not> has_flag (nflags n) FlagPartialIndent"

lemma placed_tree:
  assumes rep: "rep_chain g (root_index t) [t] [Some n]" and ok: "archivable_tree n"
  shows "itree_at g t" and "itree_parts g t = parts_of (preorder n)" and "length (itree_indices t) = length (preorder n)"
    and "tree_within L 0 n \<Longrightarrow> itree_ok g L t"
proof -
  obtain j us where t: "t = ITree j us" by (cases t)
  let ?a = "graph_node g j"
  have st: "stored g ?a n" and us: "rep_chain g (an_firstChild ?a) us (children n)"
    using rep by (simp_all add: t)
  have kids: "archivable_node n" "list_all archivable_node (concat (map forest (children n)))"
    using ok by (simp_all add: archivable_tree_def preorder_eq)
  show "itree_at g t" using rep rep_chain_links [OF us] by (simp add: t itree_at_def)
  show "itree_parts g t = parts_of (preorder n)"
    using rep_chain_parts [OF us kids(2)] stored_parts [OF st kids(1)] by (simp add: t itree_parts_def preorder_eq)
  show "length (itree_indices t) = length (preorder n)"
    using rep_chain_size [OF us] by (simp add: t itree_indices_def preorder_eq)
  assume within: "tree_within L 0 n"
  have "chain_ok g L 1 us"
  proof (rule rep_chain_ok [OF us kids(2)])
    show "validatePartialIndentationChildren (children n) = Inr ()" using kids(1) by (simp add: archivable_node_def)
    show "tree_within L 1 m" if "Some m \<in> set (children n)" for m
      using within that by (subst (asm) tree_within.simps) force
  qed
  moreover have "fields_ok g ?a False"
    using stored_fields [OF st kids(1) rep_chain_first [OF us]] ok by (simp add: archivable_tree_def)
  moreover have "0 < min (al_maxNestingDepth L) renderNestingCeiling" "node_parts n \<le> al_maxDataPartsPerNode L"
    using within by (subst (asm) tree_within.simps, simp)+
  ultimately show "itree_ok g L t" by (simp add: t itree_ok_def Let_def stored_parts [OF st kids(1)])
qed

lemma placed_trees:
  "list_all2 (\<lambda>t n. rep_chain g (root_index t) [t] [Some n]) ts ns \<Longrightarrow> list_all archivable_tree ns \<Longrightarrow>
     list_all (tree_within L 0) ns \<Longrightarrow>
     list_all (itree_at g) ts \<and> list_all (itree_ok g L) ts
     \<and> sum_list (map (itree_parts g) ts) = parts_of (concat (map preorder ns))
     \<and> length (concat (map itree_indices ts)) = length (concat (map preorder ns))"
proof (induction ts ns rule: list_all2_induct)
  case (Cons t ts n ns)
  note tree = placed_tree [OF Cons.hyps(1)]
  show ?case using Cons tree by simp
qed simp

section \<open>Templates\<close>

definition archivable_template :: "node \<Rightarrow> partial_source \<Rightarrow> bool" where
  "archivable_template root source \<longleftrightarrow> ntype root = TypeRoot \<and> archivable_tree root
     \<and> (\<forall>name p. effective_partial root source name = Some p \<longrightarrow> name \<noteq> [] \<and> archivable_tree p)"

lemma held_names:
  assumes "list_all2 (holds_partial g) ps e" and "names_sorted e" and "\<And>p. p \<in> set e \<Longrightarrow> fst p \<noteq> []"
  shows "names_ok g None ps"
proof -
  have "map (partial_name g) ps = map fst e"
    using assms(1) by (induction ps e rule: list_all2_induct) (simp_all add: holds_partial_def partial_name_def)
  moreover have "list_all (\<lambda>p. slice_ok g (ap_name p)) ps"
    using assms(1) by (induction ps e rule: list_all2_induct) (simp_all add: holds_partial_def)
  moreover have "list_all (\<lambda>p. partial_name g p \<noteq> []) ps"
    using assms(1,3) by (induction ps e rule: list_all2_induct) (auto simp: holds_partial_def partial_name_def)
  ultimately show ?thesis using assms(2) by (simp add: names_ok_def names_sorted_def)
qed

text \<open>
  The validator never rejects what the builder made of a well-formed template: nesting, counts,
  string ranges, flags, delimiters, indentation metadata and partial names that were accepted
  when the archive was built are accepted again when it is checked, under the same limits.
\<close>

lemma built_archive_is_valid:
  assumes "buildArchive abi limits root source = Inr g"
    and "distinct_keys root source" and "sourced_template texts root source" and "archivable_template root source"
  shows "validateArchive g limits 0 Writing = Inr ()"
proof -
  from assms(1) obtain s where "buildWithPartials abi limits root source new_archive_builder = (Inr g, s)"
    by (auto simp: buildArchive_def) (metis prod.collapse)
  from buildWithPartials_run [OF this assms(2,3)] obtain e where e: "names_sorted e"
      "map_of e = effective_partial root source" "holds_template g root e" and built: "built_within limits g root e"
    by blast
  from built obtain t ts where roots: "root_index t = ag_root g" "map root_index ts = map ap_root (ag_partials g)"
    and pk: "packed g 0 (length (ag_nodes g)) (t # ts) (root # map snd e)"
    and within: "list_all (tree_within limits 0) (root # map snd e)"
    by (auto simp: built_within_def)
  have given: "effective_partial root source (fst p) = Some (snd p)" if "p \<in> set e" for p
  proof -
    have "map_of e (fst p) = Some (snd p)" using that names_sorted_distinct [OF e(1)] by (simp add: map_of_is_SomeI)
    then show ?thesis by (simp only: e(2))
  qed
  have ok: "list_all archivable_tree (root # map snd e)" and names: "\<And>p. p \<in> set e \<Longrightarrow> fst p \<noteq> []"
    using assms(4) given by (fastforce simp: archivable_template_def list_all_iff)+
  have rep: "list_all2 (\<lambda>t n. rep_chain g (root_index t) [t] [Some n]) (t # ts) (root # map snd e)"
    and indices: "concat (map itree_indices (t # ts)) = [0 ..< length (ag_nodes g)]"
    using pk by (simp_all only: packed_def)
  note trees = placed_trees [OF rep ok within]
  have size: "length (ag_nodes g) = length (concat (map preorder (root # map snd e)))"
    using trees indices by (metis length_upt diff_zero)
  have all: "archive_trees g t ts"
    using roots trees indices by (simp only: archive_trees_def) (simp add: atLeast0LessThan)
  moreover have "node_type_of (graph_node g (ag_root g)) = TypeRoot"
    using rep assms(4) roots(1) by (cases t) (auto simp: stored_def archivable_template_def)
  moreover have "ag_nodes g \<noteq> []" using size by (auto simp: preorder_eq)
  moreover have "names_ok g None (ag_partials g)"
    using e(3) held_names [OF _ e(1) names] by (simp add: holds_template_def)
  moreover have "list_all (itree_ok g limits) (t # ts)
      \<and> sum_list (map (itree_parts g) (t # ts)) \<le> al_maxTotalDataParts limits"
    using trees built by (simp add: built_within_def)
  with all have "\<exists>t ts. archive_trees g t ts \<and> list_all (itree_ok g limits) (t # ts)
      \<and> sum_list (map (itree_parts g) (t # ts)) \<le> al_maxTotalDataParts limits" by blast
  moreover have "ag_magic g = archiveGraphMagic" "ag_version g = archiveSchemaVersion"
    "length (ag_nodes g) \<le> al_maxNodes limits" "length (ag_strings g) \<le> al_maxTotalStringBytes limits"
    using built size by (simp_all add: built_within_def)
  ultimately have "archive_well_formed g limits" unfolding archive_well_formed_def by blast
  then show ?thesis
    using archive_checks_iff [of g limits Writing 0] by (simp add: validateArchive_def bind_result_Inr_iff Let_def)
qed

end
