(* ===== verification/Archive_Format_Props.thy ===== *)
theory Archive_Format_Props
  imports Archive_Format
begin

text \<open>
  What the outside of an archive promises: the preamble is read from exactly the bytes that
  were framed, an archive of a build whose layout differs is refused, cache tags of different
  builds differ, and a payload whose vector headers pass holds the vectors they describe.
\<close>

section \<open>Little-endian numbers\<close>

lemma bit_read_fold:
  "bit (fold (\<lambda>i v. v OR push_bit (i * 8) (ucast (b i :: byte))) [0..<k] (0 :: 64 word)) n
     \<longleftrightarrow> n < 64 \<and> n < 8 * k \<and> bit (b (n div 8)) (n mod 8)"
proof (induction k)
  case 0
  then show ?case by simp
next
  case (Suc k)
  have "bit (push_bit (k * 8) (ucast (b k)) :: 64 word) n \<longleftrightarrow> n < 64 \<and> k * 8 \<le> n \<and> n - k * 8 < 8 \<and> bit (b k) (n - k * 8)"
    by (auto simp: bit_push_bit_iff bit_ucast_iff dest: bit_imp_le_length)
  moreover have "n div 8 = k \<and> n mod 8 = n - k * 8" if "k * 8 \<le> n" "n - k * 8 < 8"
  proof -
    from that obtain m where "n = k * 8 + m" "m < 8" by (metis le_Suc_ex add_diff_cancel_left')
    then show ?thesis by simp
  qed
  moreover have "k * 8 \<le> n" "n - k * 8 < 8" if "n div 8 = k" using that by (auto simp: div_nat_eqI)
  ultimately show ?case
    using Suc.IH by (auto simp: bit_or_iff)
qed

lemma bit_readLittleEndian:
  "bit (readLittleEndian bytes offset) n \<longleftrightarrow> n < 64 \<and> bit (bytes ! (offset + n div 8)) (n mod 8)"
  unfolding readLittleEndian_def using bit_read_fold [of "\<lambda>i. bytes ! (offset + i)" 8 n] by auto

lemma length_value_bytes [simp]: "length (value_bytes v) = 8"
  by (simp add: value_bytes_def)

lemma bit_value_bytes: "i < 8 \<Longrightarrow> bit (value_bytes v ! i) j \<longleftrightarrow> j < 8 \<and> bit v (8 * i + j)"
  by (auto simp: value_bytes_def bit_ucast_iff bit_drop_bit_eq ac_simps dest: bit_imp_le_length)

lemma readLittleEndian_iff:
  assumes "offset + 8 \<le> length bytes"
  shows "readLittleEndian bytes offset = v \<longleftrightarrow> take 8 (drop offset bytes) = value_bytes v"
proof
  assume v: "readLittleEndian bytes offset = v"
  show "take 8 (drop offset bytes) = value_bytes v"
  proof (rule nth_equalityI)
    show "length (take 8 (drop offset bytes)) = length (value_bytes v)" using assms by simp
    fix i assume "i < length (take 8 (drop offset bytes))"
    then have i: "i < 8" by simp
    have "bit (bytes ! (offset + i)) j \<longleftrightarrow> bit (value_bytes v ! i) j" for j
    proof (cases "j < 8")
      case True
      then have "(8 * i + j) div 8 = i" "(8 * i + j) mod 8 = j" "8 * i + j < 64" using i by auto
      then show ?thesis using bit_readLittleEndian [of bytes offset "8 * i + j"] v i True by (simp add: bit_value_bytes)
    next
      case False
      then show ?thesis using i bit_imp_le_length by (fastforce simp: bit_value_bytes)
    qed
    then show "take 8 (drop offset bytes) ! i = value_bytes v ! i"
      using i assms by (simp add: bit_eq_iff)
  qed
next
  assume eq: "take 8 (drop offset bytes) = value_bytes v"
  show "readLittleEndian bytes offset = v"
  proof (rule bit_eqI)
    fix n assume "possible_bit TYPE(64 word) n"
    then have n: "n < 64" by simp
    then have "bytes ! (offset + n div 8) = value_bytes v ! (n div 8)"
      using eq [symmetric] assms by simp
    with n show "bit (readLittleEndian bytes offset) n = bit v n"
      by (simp add: bit_readLittleEndian bit_value_bytes)
  qed
qed

lemma write_fold:
  "offset + k \<le> length bytes \<Longrightarrow> k \<le> 8 \<Longrightarrow>
     fold (\<lambda>i bs. bs[offset + i := ucast (drop_bit (i * 8) v)]) [0..<k] bytes
       = take offset bytes @ take k (value_bytes v) @ drop (offset + k) bytes"
proof (induction k)
  case 0
  then show ?case by simp
next
  case (Suc k)
  then have "take (Suc k) (value_bytes v) = take k (value_bytes v) @ [ucast (drop_bit (k * 8) v)]"
    by (simp add: take_Suc_conv_app_nth) (simp add: value_bytes_def)
  moreover have "drop (offset + k) bytes = bytes ! (offset + k) # drop (Suc (offset + k)) bytes"
    using Suc.prems by (simp add: Cons_nth_drop_Suc)
  ultimately show ?case using Suc by (simp add: list_update_append min_def)
qed

lemma writeLittleEndian_eq:
  "offset + 8 \<le> length bytes \<Longrightarrow>
     writeLittleEndian bytes offset v = take offset bytes @ value_bytes v @ drop (offset + 8) bytes"
  using write_fold [of offset 8 bytes v] by (simp add: writeLittleEndian_def)

section \<open>The preamble\<close>

lemma preamble_sizes [simp]:
  "length archivePreambleMagic = 8" "archivePreambleSize = 24"
  "archiveFormatGenerationOffset = 8" "archiveCompatibilityFingerprintOffset = 16"
  by (simp_all add: archivePreambleMagic_def archivePreambleSize_def
      archiveFormatGenerationOffset_def archiveCompatibilityFingerprintOffset_def)

definition preamble :: "archive_abi \<Rightarrow> byte list" where
  "preamble abi = archivePreambleMagic @ value_bytes archiveFormatGeneration
     @ value_bytes (archiveCompatibilityFingerprint abi)"

lemma length_preamble [simp]: "length (preamble abi) = 24"
  by (simp add: preamble_def)

lemma preamble_not_Nil [simp]: "preamble abi \<noteq> []"
  using length_preamble [of abi] by (auto simp del: length_preamble)

lemma frameArchive_eq:
  "frameArchive abi payload limits =
     (if 24 + length payload \<le> al_maxArchiveBytes limits then Inr (preamble abi @ payload)
      else Inl archive_output_limit)"
  by (auto simp: frameArchive_def Let_def writeLittleEndian_eq preamble_def)

lemma preamble_parts:
  assumes "24 \<le> length bytes"
  shows "take 24 bytes = preamble abi \<longleftrightarrow>
     take 8 bytes = archivePreambleMagic \<and> readLittleEndian bytes 8 = archiveFormatGeneration
     \<and> readLittleEndian bytes 16 = archiveCompatibilityFingerprint abi"
proof -
  have "take 24 bytes = take 8 bytes @ take 8 (drop 8 bytes) @ take 8 (drop 16 bytes)"
    using take_add [of 8 16 bytes] take_add [of 8 8 "drop 8 bytes"] by simp
  then show ?thesis
    using assms by (simp add: preamble_def readLittleEndian_iff append_eq_append_conv)
qed

lemma readArchivePreamble_accepts:
  "readArchivePreamble abi bytes limits = Inr payload \<longleftrightarrow>
     payload \<noteq> [] \<and> length bytes \<le> al_maxArchiveBytes limits \<and> bytes = preamble abi @ payload"
proof -
  have "readArchivePreamble abi bytes limits = Inr payload \<longleftrightarrow>
      length bytes \<le> al_maxArchiveBytes limits \<and> 24 \<le> length bytes \<and> take 24 bytes = preamble abi
      \<and> length bytes \<noteq> 24 \<and> payload = drop 24 bytes"
    using preamble_parts [of bytes abi] by (auto simp: readArchivePreamble_def)
  moreover have "take 24 bytes = preamble abi \<and> payload = drop 24 bytes \<longleftrightarrow> bytes = preamble abi @ payload"
    by (metis append_eq_conv_conj append_take_drop_id length_preamble)
  ultimately show ?thesis by auto
qed

text \<open>
  C27. The preamble is accepted exactly on the bytes that framing a payload that is not empty
  gives under the same limits, and then that payload is what is read: no other magic, format
  generation, fingerprint, length or trailing byte is accepted, and everything framed within
  the limit is.
\<close>

theorem readArchivePreamble_iff:
  "readArchivePreamble abi bytes limits = Inr payload \<longleftrightarrow>
     payload \<noteq> [] \<and> frameArchive abi payload limits = Inr bytes"
  by (auto simp: readArchivePreamble_accepts frameArchive_eq)

section \<open>The fingerprint\<close>

text \<open>The numbers a fingerprint is computed from, in the order they go in.\<close>

definition type_values :: "type_layout \<Rightarrow> 64 word list" where
  "type_values t = [of_nat (tl_sizeof t), of_nat (tl_alignof t)]"

definition vector_values :: "vector_layout \<Rightarrow> 64 word list" where
  "vector_values v = type_values (vl_vector v) @ type_values (vl_pointer v)
     @ map of_nat ([vl_el v, vl_used_size v, vl_allocated_size v, vl_self_allocated v] @ vl_fill v
         @ [vl_pointer_offset v])"

definition layout_values :: "archive_abi \<Rightarrow> 64 word list" where
  "layout_values abi =
     [archiveFormatGeneration, ucast archiveSchemaVersion, archiveGraphMagic, archive_representation abi,
      of_nat (ab_data_start abi)]
     @ type_values (ab_hash_t abi) @ [1] @ type_values (ab_void_pointer abi) @ type_values (ab_offset_t abi)
     @ type_values (ab_slice abi) @ map of_nat (ab_slice_members abi)
     @ type_values (ab_node abi) @ map of_nat (ab_node_members abi)
     @ type_values (ab_partial abi) @ map of_nat (ab_partial_members abi)
     @ type_values (ab_graph abi)
     @ map of_nat (ab_graph_header abi @ [ab_graph_nodes abi, ab_graph_partials abi, ab_graph_strings abi])
     @ vector_values (ab_nodes_vector abi) @ vector_values (ab_partials_vector abi)
     @ vector_values (ab_strings_vector abi) @ [ab_type_version abi]"

lemma foldl_map_args: "foldl (\<lambda>h x. f h (g x)) h xs = foldl f h (map g xs)"
  by (induction xs arbitrary: h) simp_all

lemma appendOffsets_values: "appendOffsets offsets h = foldl appendCompatibilityValue h (map of_nat offsets)"
  by (simp add: appendOffsets_def appendCompatibilityOffset_def [abs_def] foldl_map_args)

lemma appendTypeLayout_values: "appendTypeLayout t h = foldl appendCompatibilityValue h (type_values t)"
  by (simp add: appendTypeLayout_def type_values_def)

lemma appendVectorLayout_values: "appendVectorLayout v h = foldl appendCompatibilityValue h (vector_values v)"
  by (simp add: appendVectorLayout_def appendOffsets_values appendTypeLayout_values vector_values_def)

lemma fingerprint_values:
  "archiveCompatibilityFingerprint abi = foldl appendCompatibilityValue fnv_basis (layout_values abi)"
  by (simp add: archiveCompatibilityFingerprint_def Let_def appendOffsets_values appendTypeLayout_values
      appendVectorLayout_values appendCompatibilityOffset_def layout_values_def)

text \<open>One byte step can be undone: the prime has an inverse modulo the word size.\<close>

lemma fnv_inverse: "fnv_prime * 14886173955864302971 = 1"
  by (simp add: fnv_prime_def)

lemma fnv_byte_inject: "fnv_byte h b = fnv_byte h' b' \<longleftrightarrow> h XOR ucast b = h' XOR ucast b'"
proof
  assume "fnv_byte h b = fnv_byte h' b'"
  then have "(h XOR ucast b) * (fnv_prime * 14886173955864302971)
      = (h' XOR ucast b') * (fnv_prime * 14886173955864302971)"
    by (simp only: fnv_byte_def mult.assoc [symmetric])
  then show "h XOR ucast b = h' XOR ucast b'" by (simp add: fnv_inverse)
qed (simp add: fnv_byte_def)

lemma xor_cancel: "(h :: 64 word) XOR x = h XOR y \<longleftrightarrow> x = y"
  by (auto simp: bit_eq_iff bit_xor_iff)

lemma fnv_bytes_inject: "foldl fnv_byte h bs = foldl fnv_byte h' bs \<longleftrightarrow> h = h'"
proof (induction bs arbitrary: h h')
  case (Cons b bs)
  have "h XOR ucast b = h' XOR ucast b \<longleftrightarrow> h = h'"
    using xor_cancel [of "ucast b" h h'] by (simp only: xor.commute)
  with Cons show ?case by (simp add: fnv_byte_inject)
qed simp

lemma append_values_inject:
  "foldl appendCompatibilityValue h vs = foldl appendCompatibilityValue h' vs \<longleftrightarrow> h = h'"
  by (induction vs arbitrary: h h') (simp_all add: appendCompatibilityValue_def fnv_bytes_inject)

lemma small_value_bits:
  assumes "v < (256 :: 64 word)"
  shows "take_bit 8 v = v"
proof -
  have "unat v < 2 ^ 8" using assms by (simp add: word_less_nat_alt)
  then show ?thesis by (simp only: word_unat_eq_iff unsigned_take_bit_eq take_bit_nat_eq_self)
qed

lemma small_value_bytes:
  assumes "v < (256 :: 64 word)"
  shows "value_bytes v = ucast v # replicate 7 0"
proof -
  have "drop_bit (i * 8) v = 0" if "0 < i" for i
  proof -
    have "drop_bit (i * 8) v = drop_bit (i * 8) (take_bit 8 v)" using assms by (simp add: small_value_bits)
    also have "\<dots> = 0" using that by (simp add: drop_bit_take_bit)
    finally show ?thesis .
  qed
  then have "ucast (drop_bit (i * 8) v) = (0 :: byte)" if "0 < i" for i using that by simp
  from this [of 1] this [of 2] this [of 3] this [of 4] this [of 5] this [of 6] this [of 7]
  show ?thesis by (simp add: value_bytes_def upt_rec numeral_eq_Suc)
qed

lemma small_value_inject:
  assumes "v < 256" and "w < 256" and "v \<noteq> w"
  shows "appendCompatibilityValue h v \<noteq> appendCompatibilityValue h w"
proof
  assume "appendCompatibilityValue h v = appendCompatibilityValue h w"
  then have "fnv_byte h (ucast v) = fnv_byte h (ucast w)"
    using assms by (simp add: appendCompatibilityValue_def small_value_bytes fnv_bytes_inject)
  then have "(ucast (ucast v :: byte) :: 64 word) = ucast (ucast w :: byte)"
    by (simp add: fnv_byte_inject xor_cancel)
  moreover have "ucast (ucast x :: byte) = take_bit 8 x" for x :: "64 word"
    by (rule bit_eqI) (auto simp: bit_ucast_iff bit_take_bit_iff)
  ultimately show False using assms by (simp add: small_value_bits)
qed

section \<open>The tag\<close>

lemma hex_digits_inject:
  "i < 16 \<Longrightarrow> j < 16 \<Longrightarrow> ''0123456789abcdef'' ! i = ''0123456789abcdef'' ! j \<longleftrightarrow> i = j"
  by (rule nth_eq_iff_index_eq) simp_all

lemma nibble_bit:
  "j < 4 \<Longrightarrow> bit (drop_bit k (f :: 64 word) AND 0xF) j \<longleftrightarrow> bit f (k + j)"
proof -
  assume "j < 4"
  then have "bit (0xF :: 64 word) j" by (auto simp: less_Suc_eq numeral_eq_Suc)
  then show ?thesis by (simp add: bit_and_iff bit_drop_bit_eq)
qed

lemma tag_inject: "makeArchiveCompatibilityTag f = makeArchiveCompatibilityTag f' \<longleftrightarrow> f = f'"
proof
  assume eq: "makeArchiveCompatibilityTag f = makeArchiveCompatibilityTag f'"
  have nibbles: "drop_bit ((15 - i) * 4) f AND 0xF = drop_bit ((15 - i) * 4) f' AND 0xF" if "i < 16" for i
  proof -
    have "unat (x AND 0xF) < 16" for x :: "64 word"
    proof -
      have "x AND 0xF = take_bit 4 x" by (simp add: take_bit_eq_mask mask_eq_exp_minus_1)
      then show ?thesis using take_bit_nat_less_exp [of 4 "unat x"] by (simp add: unsigned_take_bit_eq)
    qed
    moreover have "''0123456789abcdef'' ! unat (drop_bit ((15 - i) * 4) f AND 0xF)
        = ''0123456789abcdef'' ! unat (drop_bit ((15 - i) * 4) f' AND 0xF)"
      using eq that by (simp add: makeArchiveCompatibilityTag_def)
    ultimately have "unat (drop_bit ((15 - i) * 4) f AND 0xF) = unat (drop_bit ((15 - i) * 4) f' AND 0xF)"
      by (simp add: hex_digits_inject)
    then show ?thesis by (simp only: word_unat_eq_iff)
  qed
  show "f = f'"
  proof (rule bit_eqI)
    fix n assume "possible_bit TYPE(64 word) n"
    then have n: "n < 64" by simp
    define i where "i = 15 - n div 4"
    have i: "i < 16" "(15 - i) * 4 + n mod 4 = n" using n by (auto simp: i_def)
    have "bit f n \<longleftrightarrow> bit (drop_bit ((15 - i) * 4) f AND 0xF) (n mod 4)"
      using i nibble_bit [of "n mod 4" "(15 - i) * 4" f] by simp
    also have "\<dots> \<longleftrightarrow> bit f' n"
      using i nibble_bit [of "n mod 4" "(15 - i) * 4" f'] nibbles [OF i(1)] by simp
    finally show "bit f n = bit f' n" .
  qed
qed simp

text \<open>An archive of a build with another fingerprint is refused before anything in it is read.\<close>

definition unsupported_compatibility :: exn where
  "unsupported_compatibility = ArchiveReadException UnsupportedFormat ''Unsupported libmustache archive compatibility''"

lemma other_fingerprint_refused:
  assumes differ: "archiveCompatibilityFingerprint a \<noteq> archiveCompatibilityFingerprint b"
    and "frameArchive a payload limits = Inr bytes"
  shows "readArchivePreamble b bytes limits = Inl unsupported_compatibility"
proof -
  have bytes: "bytes = preamble a @ payload" "24 + length payload \<le> al_maxArchiveBytes limits"
    using assms(2) by (simp_all add: frameArchive_eq split: if_splits)
  have "readLittleEndian bytes 8 = archiveFormatGeneration"
    and "readLittleEndian bytes 16 = archiveCompatibilityFingerprint a"
    and "take 8 bytes = archivePreambleMagic"
    using preamble_parts [of bytes a] bytes by simp_all
  with differ show ?thesis
    using bytes by (simp add: readArchivePreamble_def failArchive_def unsupported_compatibility_def)
qed

text \<open>
  Two builds whose layouts differ in one number, below 256 in both as sizes, alignments and
  member offsets are, have different fingerprints and different cache tags, and the one
  refuses every archive of the other as an unsupported format, whatever its payload.
\<close>

theorem other_layout_is_refused:
  assumes "layout_values a = xs @ v # ys" and "layout_values b = xs @ w # ys"
    and "v \<noteq> w" and "v < 256" and "w < 256"
    and "frameArchive a payload limits = Inr bytes"
  shows "archivedTemplateCompatibilityTag a \<noteq> archivedTemplateCompatibilityTag b
    \<and> readArchivePreamble b bytes limits
        = Inl (ArchiveReadException UnsupportedFormat ''Unsupported libmustache archive compatibility'')"
proof -
  have differ: "archiveCompatibilityFingerprint a \<noteq> archiveCompatibilityFingerprint b"
    using assms(1-5) small_value_inject by (simp add: fingerprint_values append_values_inject)
  with other_fingerprint_refused [OF differ assms(6)] show ?thesis
    by (simp add: archivedTemplateCompatibilityTag_def tag_inject unsupported_compatibility_def)
qed

text \<open>The layout of a 64-bit build, with 24-byte vectors behind a 24-byte header.\<close>

definition sample_vector :: vector_layout where
  "sample_vector =
     \<lparr>vl_vector = \<lparr>tl_sizeof = 24, tl_alignof = 8\<rparr>, vl_pointer = \<lparr>tl_sizeof = 8, tl_alignof = 8\<rparr>,
      vl_el = 0, vl_used_size = 8, vl_allocated_size = 12, vl_self_allocated = 16,
      vl_fill = [17, 18, 20], vl_pointer_offset = 0\<rparr>"

definition sample_abi :: archive_abi where
  "sample_abi =
     \<lparr>ab_runtime_version = True, ab_integrity = True, ab_data_start = 16,
      ab_hash_t = \<lparr>tl_sizeof = 8, tl_alignof = 8\<rparr>, ab_void_pointer = \<lparr>tl_sizeof = 8, tl_alignof = 8\<rparr>,
      ab_offset_t = \<lparr>tl_sizeof = 8, tl_alignof = 8\<rparr>,
      ab_slice = \<lparr>tl_sizeof = 8, tl_alignof = 4\<rparr>, ab_slice_members = [0, 4],
      ab_node = \<lparr>tl_sizeof = 48, tl_alignof = 4\<rparr>,
      ab_node_members = [0, 8, 16, 24, 32, 36, 40, 42, 44, 45, 46, 47],
      ab_partial = \<lparr>tl_sizeof = 12, tl_alignof = 4\<rparr>, ab_partial_members = [0, 8],
      ab_graph = \<lparr>tl_sizeof = 96, tl_alignof = 8\<rparr>, ab_graph_header = [0, 8, 12, 16],
      ab_graph_nodes = 24, ab_graph_partials = 48, ab_graph_strings = 72,
      ab_nodes_vector = sample_vector, ab_partials_vector = sample_vector,
      ab_strings_vector = sample_vector, ab_type_version = 42\<rparr>"

theorem other_layout_is_refused_witness:
  "readArchivePreamble (sample_abi\<lparr>ab_data_start := 24\<rparr>) (preamble sample_abi @ [7]) default_archive_limits
     = Inl (ArchiveReadException UnsupportedFormat ''Unsupported libmustache archive compatibility'')"
proof -
  let ?xs = "[archiveFormatGeneration, ucast archiveSchemaVersion, archiveGraphMagic, archive_representation sample_abi]"
  let ?ys = "drop 5 (layout_values sample_abi)"
  have "layout_values sample_abi = ?xs @ 16 # ?ys"
    by (simp add: layout_values_def sample_abi_def)
  moreover have "layout_values (sample_abi\<lparr>ab_data_start := 24\<rparr>) = ?xs @ 24 # ?ys"
    by (simp add: layout_values_def sample_abi_def archive_representation_def)
  moreover have "frameArchive sample_abi [7] default_archive_limits = Inr (preamble sample_abi @ [7])"
    by (simp add: frameArchive_eq default_archive_limits_def)
  ultimately show ?thesis
    using other_layout_is_refused [of sample_abi ?xs 16 ?ys "sample_abi\<lparr>ab_data_start := 24\<rparr>" 24] by simp
qed

section \<open>Vector headers\<close>

text \<open>
  What a vector header must describe: no vector at all, or elements that lie in the payload
  and at addresses fit for them.
\<close>

definition vector_in_payload ::
    "type_layout \<Rightarrow> vector_layout \<Rightarrow> nat \<Rightarrow> byte list \<Rightarrow> nat \<Rightarrow> bool" where
  "vector_in_payload element layout address payload start \<longleftrightarrow>
     (\<exists>h. readVectorHeader layout payload start = Inr h
        \<and> vh_selfAllocated h = 0 \<and> vh_allocatedSize h = vh_usedSize h
        \<and> (if vh_usedSize h = 0 then vh_relativeOffset h = null_offset
           else vh_relativeOffset h \<noteq> null_offset
              \<and> vh_usedSize h \<le> (2 ^ 64 - 1) div tl_sizeof element
              \<and> (\<exists>d. int d = int (start + vl_el layout + vl_pointer_offset layout) + vh_relativeOffset h
                   \<and> d + vh_usedSize h * tl_sizeof element \<le> length payload
                   \<and> (address + d) mod tl_alignof element = 0)))"

lemma vector_data_offset_iff:
  assumes "p \<le> n"
  shows "vector_data_offset n p rel = Inr d \<longleftrightarrow> int d = int p + rel \<and> d \<le> n"
proof (cases "rel < 0")
  case True
  define m where "m = nat (- (rel + 1)) + 1"
  have m: "int m = - rel" using True by (simp add: m_def)
  have "vector_data_offset n p rel = (if m > p then Inl (invalid_archive ''Invalid Cista archive vector pointer'') else Inr (p - m))"
    using True by (simp add: vector_data_offset_def m_def)
  with m assms show ?thesis by (auto split: if_splits)
next
  case False
  with assms show ?thesis by (auto simp: vector_data_offset_def)
qed

lemma check_vector_range_iff:
  "check_vector_range element address n d used = Inr () \<longleftrightarrow>
     used \<le> (2 ^ 64 - 1) div tl_sizeof element \<and> d + used * tl_sizeof element \<le> n
     \<and> (address + d) mod tl_alignof element = 0"
  by (auto simp: check_vector_range_def)

lemma readNativeArchiveField_room: "readNativeArchiveField w payload offset = Inr v \<Longrightarrow> offset + w \<le> length payload"
  by (auto simp: readNativeArchiveField_def split: if_splits)

lemma readVectorHeader_room:
  "readVectorHeader layout payload start = Inr h \<Longrightarrow>
     start + vl_el layout + vl_pointer_offset layout \<le> length payload"
  by (auto simp: readVectorHeader_def bind_result_Inr_iff dest!: readNativeArchiveField_room)

lemma validateSerializedVector_iff:
  "validateSerializedVector element layout address payload graphOffset vectorOffset = Inr () \<longleftrightarrow>
     vector_in_payload element layout address payload (graphOffset + vectorOffset)"
proof (cases "readVectorHeader layout payload (graphOffset + vectorOffset)")
  case (Inl e)
  then show ?thesis by (simp add: validateSerializedVector_def vector_in_payload_def)
next
  case (Inr h)
  note room = readVectorHeader_room [OF Inr]
  show ?thesis
    using Inr vector_data_offset_iff [OF room, of "vh_relativeOffset h"]
    by (auto simp: validateSerializedVector_def vector_in_payload_def bind_result_Inr_iff check_vector_range_iff
        split: if_splits)
qed

text \<open>What the layout of the build says of a payload: the header and the three vectors are in it.\<close>

definition graph_in_payload :: "archive_abi \<Rightarrow> nat \<Rightarrow> byte list \<Rightarrow> bool" where
  "graph_in_payload abi address payload \<longleftrightarrow>
     ab_data_start abi + tl_sizeof (ab_graph abi) \<le> length payload
     \<and> vector_in_payload (ab_node abi) (ab_nodes_vector abi) address payload (ab_data_start abi + ab_graph_nodes abi)
     \<and> vector_in_payload (ab_partial abi) (ab_partials_vector abi) address payload (ab_data_start abi + ab_graph_partials abi)
     \<and> vector_in_payload byte_layout (ab_strings_vector abi) address payload (ab_data_start abi + ab_graph_strings abi)"

lemma graph_in_payload_validates:
  "graph_in_payload abi address payload \<Longrightarrow> validateArchiveGraphLayout abi address payload = Inr ()"
  by (auto simp: graph_in_payload_def validateArchiveGraphLayout_def bind_result_Inr_iff validateSerializedVector_iff)

text \<open>
  C28. A payload passes the layout check exactly when the graph header and all three vectors it
  describes lie within it: each vector is absent, or its elements are inside the payload, at
  an aligned address, with a byte size that does not wrap round.
\<close>

theorem validateArchiveGraphLayout_iff:
  "validateArchiveGraphLayout abi address payload = Inr () \<longleftrightarrow>
     ab_data_start abi + tl_sizeof (ab_graph abi) \<le> length payload
     \<and> vector_in_payload (ab_node abi) (ab_nodes_vector abi) address payload (ab_data_start abi + ab_graph_nodes abi)
     \<and> vector_in_payload (ab_partial abi) (ab_partials_vector abi) address payload (ab_data_start abi + ab_graph_partials abi)
     \<and> vector_in_payload byte_layout (ab_strings_vector abi) address payload (ab_data_start abi + ab_graph_strings abi)"
  by (auto simp: validateArchiveGraphLayout_def bind_result_Inr_iff validateSerializedVector_iff)

end
