(* ===== verification/Archive_Files.thy ===== *)
theory Archive_Files
  imports Archive_Roundtrip Archive_Format_Props
begin

text \<open>
  Archives as bytes. The counting target and the buffer agree, so that the size counted is the
  size written; a handle always holds a validated graph; and what was serialized loads, and its
  views are the template and the partials that went in.
\<close>

section \<open>Counting and writing\<close>

text \<open>The counter sees of a buffer its length.\<close>

definition counts_as :: "(nat, 'a) eff \<Rightarrow> (byte list, 'a) eff \<Rightarrow> bool" where
  "counts_as f m \<longleftrightarrow> (\<forall>buf. f (length buf) = (fst (m buf), length (snd (m buf))))"

lemma counts_as_bind:
  assumes "counts_as f m" and "\<And>x. counts_as (f' x) (m' x)"
  shows "counts_as (bind_eff f f') (bind_eff m m')"
  unfolding counts_as_def
proof
  fix buf
  have "f (length buf) = (fst (m buf), length (snd (m buf)))" using assms(1) by (simp add: counts_as_def)
  then show "bind_eff f f' (length buf) = (fst (bind_eff m m' buf), length (snd (bind_eff m m' buf)))"
    using assms(2) by (auto simp: bind_eff_def counts_as_def split: sum.split prod.split)
qed

lemma counts_as_then: "counts_as f m \<Longrightarrow> counts_as k l \<Longrightarrow> counts_as (then_eff f k) (then_eff m l)"
  unfolding then_eff_def by (rule counts_as_bind)

lemma counts_as_ret: "counts_as (ret x) (ret x)" "counts_as (throw e) (throw e)"
  by (simp_all add: counts_as_def ret_def throw_def)

lemma write_start_bounds:
  "write_start maximum used amount alignment = Inr start \<Longrightarrow> used \<le> start \<and> start + amount \<le> maximum"
proof (cases "alignment \<le> 1")
  case False
  define r where "r = used mod alignment"
  have "r \<le> alignment" using False by (simp add: r_def less_imp_le)
  then show "write_start maximum used amount alignment = Inr start \<Longrightarrow> used \<le> start \<and> start + amount \<le> maximum"
    using False by (auto simp: write_start_def alignedSize_def bind_result_Inr_iff r_def [symmetric] split: if_splits)
qed (auto simp: write_start_def alignedSize_def bind_result_Inr_iff split: if_splits)

text \<open>
  What both targets promise the writer: a write starts at the next aligned place and ends where
  the next one begins, or it throws, for lack of room alone, and changes nothing.
\<close>

locale serializer_target =
  fixes write_to :: "byte list \<Rightarrow> nat \<Rightarrow> ('s, nat) eff" and extent :: "'s \<Rightarrow> nat" and maximum :: nat
  assumes write_place: "fst (write_to bytes alignment s) = write_start maximum (extent s) (length bytes) alignment"
    and write_grows: "write_start maximum (extent s) (length bytes) alignment = Inr start \<Longrightarrow>
      extent (snd (write_to bytes alignment s)) = start + length bytes"
    and write_refused: "write_start maximum (extent s) (length bytes) alignment = Inl e \<Longrightarrow>
      snd (write_to bytes alignment s) = s"
begin

lemma within: "extent s \<le> maximum \<Longrightarrow> extent (snd (write_to bytes alignment s)) \<le> maximum"
  using write_grows write_refused write_start_bounds
  by (cases "write_start maximum (extent s) (length bytes) alignment") fastforce+

lemma monotone: "extent s \<le> extent (snd (write_to bytes alignment s))"
  using write_grows write_refused write_start_bounds
  by (cases "write_start maximum (extent s) (length bytes) alignment") fastforce+

lemma type_version_written:
  assumes "extent s = 0"
  shows "fst (writeArchiveTypeVersion abi write_to s) = (if 8 \<le> maximum then Inr () else Inl archive_output_limit)"
proof -
  have "fst (write_to (value_bytes (ab_type_version abi)) 0 s) = (if 8 \<le> maximum then Inr 0 else Inl archive_output_limit)"
    using assms by (auto simp: write_place write_start_def alignedSize_def max_offset_def)
  then show ?thesis
    by (cases "write_to (value_bytes (ab_type_version abi)) 0 s")
      (auto simp: writeArchiveTypeVersion_def bind_eff_def ret_def split: if_splits)
qed

end

interpretation counting: serializer_target "counter_write maximum" "\<lambda>used. used" maximum for maximum
  by unfold_locales (simp_all add: counter_write_def split: sum.split)

interpretation buffering: serializer_target "buffer_write maximum" length maximum for maximum
  by unfold_locales (auto simp: buffer_write_def dest: write_start_bounds split: sum.split)

text \<open>On a fresh target the type version fits or the limit is reported; its place is never wrong.\<close>

lemma fresh_type_version:
  "fst (writeArchiveTypeVersion abi (buffer_write maximum) []) = (if 8 \<le> maximum then Inr () else Inl archive_output_limit)"
  by (rule buffering.type_version_written) simp

lemma counts_as_write:
  "length bytes = length bytes' \<Longrightarrow> counts_as (counter_write maximum bytes alignment) (buffer_write maximum bytes' alignment)"
  by (auto simp: counts_as_def counter_write_def buffer_write_def dest: write_start_bounds split: sum.split)

lemma counts_as_patch: "length bytes = length bytes' \<Longrightarrow> counts_as (counter_patch pos bytes) (buffer_patch pos bytes')"
  by (auto simp: counts_as_def counter_patch_def buffer_patch_def eff_defs)

text \<open>Requests that write as many bytes at the same places.\<close>

fun same_shape :: "cista_request \<Rightarrow> cista_request \<Rightarrow> bool" where
  "same_shape (RequestWrite bytes alignment) (RequestWrite bytes' alignment') = (length bytes = length bytes' \<and> alignment = alignment')"
| "same_shape (RequestPatch pos bytes) (RequestPatch pos' bytes') = (pos = pos' \<and> length bytes = length bytes')"
| "same_shape (RequestChecksum pos start) (RequestChecksum pos' start') = (pos = pos')"
| "same_shape r r' = False"

lemma counts_as_request: "same_shape r r' \<Longrightarrow> counts_as (counter_request maximum r) (buffer_request C maximum r')"
proof (induction r r' rule: same_shape.induct)
  case (1 bytes alignment bytes' alignment')
  then show ?case by (auto simp: counter_request_def buffer_request_def intro: counts_as_then counts_as_write counts_as_ret)
next
  case (2 pos bytes pos' bytes')
  then show ?case by (auto simp: counter_request_def buffer_request_def intro: counts_as_patch)
next
  case (3 pos start pos' start')
  have "counts_as (counter_patch pos (value_bytes 0)) (buffer_patch pos (value_bytes h))" for h
    by (simp add: counts_as_patch)
  with 3 show ?case by (simp add: counter_request_def buffer_request_def counts_as_def bind_eff_def reads_def)
qed simp_all

lemma counts_as_each:
  "list_all2 (\<lambda>r r'. counts_as (f r) (m r')) rs rs' \<Longrightarrow> counts_as (each_eff f rs) (each_eff m rs')"
  by (induction rs rs' rule: list_all2_induct) (simp_all add: counts_as_ret counts_as_then)

lemma counts_as_payload:
  assumes "list_all2 same_shape rs rs'"
  shows "counts_as (then_eff (writeArchiveTypeVersion abi (counter_write maximum)) (each_eff (counter_request maximum) rs))
     (then_eff (writeArchiveTypeVersion abi (buffer_write maximum)) (each_eff (buffer_request C maximum) rs'))"
proof (rule counts_as_then)
  show "counts_as (writeArchiveTypeVersion abi (counter_write maximum)) (writeArchiveTypeVersion abi (buffer_write maximum))"
    unfolding writeArchiveTypeVersion_def by (intro counts_as_bind counts_as_write) (simp_all add: counts_as_ret)
  show "counts_as (each_eff (counter_request maximum) rs) (each_eff (buffer_request C maximum) rs')"
    using assms by (intro counts_as_each) (auto elim: list_all2_mono intro: counts_as_request)
qed

definition stays_within :: "nat \<Rightarrow> nat \<Rightarrow> nat \<Rightarrow> bool" where
  "stays_within maximum used used' \<longleftrightarrow> (used \<le> maximum \<longrightarrow> used' \<le> maximum)"

lemma stays_within_order [simp]: "reflp (stays_within maximum)" "transp (stays_within maximum)"
  by (auto simp: stays_within_def intro!: reflpI transpI)

lemma steps_counter_write [eff_steps]: "steps (stays_within maximum) (counter_write maximum bytes alignment)"
  using counting.within by (auto simp: steps_def stays_within_def)

lemma steps_count:
  "steps (stays_within maximum)
     (then_eff (writeArchiveTypeVersion abi (counter_write maximum)) (each_eff (counter_request maximum) rs))"
  by (auto simp: writeArchiveTypeVersion_def counter_request_def counter_patch_def intro!: eff_steps split: cista_request.split)

lemma count_payload_Inr:
  assumes "count_payload abi C maximum g = Inr n" and "list_all2 same_shape (co_requests C g) (co_requests C g')"
  obtains payload where "write_payload abi C maximum n g' = Inr payload" and "length payload = n" and "n \<le> maximum"
proof -
  let ?count = "then_eff (writeArchiveTypeVersion abi (counter_write maximum)) (each_eff (counter_request maximum) (co_requests C g))"
  let ?fill = "then_eff (writeArchiveTypeVersion abi (buffer_write maximum)) (each_eff (buffer_request C maximum) (co_requests C g'))"
  have count: "?count 0 = (Inr (), n)"
    using assms(1) by (auto simp: count_payload_def bind_eff_def reads_def split: prod.splits sum.splits)
  have "?count (length ([] :: byte list)) = (fst (?fill []), length (snd (?fill [])))"
    using counts_as_payload [OF assms(2)] unfolding counts_as_def by blast
  with count obtain payload where payload: "?fill [] = (Inr (), payload)" "length payload = n"
    by (cases "?fill []") auto
  have "n \<le> maximum" using stepsD [OF steps_count count] by (simp add: stays_within_def)
  with payload show ?thesis
    by (intro that [of payload]) (simp_all add: write_payload_def bind_eff_def reads_def lift_result_def buffer_release_def)
qed

text \<open>
  The size counted is the size written: when counting the payload of a graph gives a size,
  writing the graph with that size recorded in it succeeds within the same limit and gives
  exactly so many bytes, as long as recording the size changes no request's length or place.
  The check for a size that changed while framing then never fails.
\<close>

theorem counted_size_is_written:
  assumes "count_payload abi C maximum g = Inr n"
    and "list_all2 same_shape (co_requests C g) (co_requests C (g\<lparr>ag_serializedSize := word_of_nat n\<rparr>))"
  shows "\<exists>payload. write_payload abi C maximum n (g\<lparr>ag_serializedSize := word_of_nat n\<rparr>) = Inr payload
     \<and> length payload = n \<and> n \<le> maximum"
  by (rule count_payload_Inr [OF assms]) blast

section \<open>Recording the size\<close>

text \<open>Only the length check reads the recorded size.\<close>

lemma resized_views [simp]:
  "graph_node (g\<lparr>ag_serializedSize := n\<rparr>) i = graph_node g i"
  "archiveSliceView (g\<lparr>ag_serializedSize := n\<rparr>) v = archiveSliceView g v"
  "slice_ok (g\<lparr>ag_serializedSize := n\<rparr>) v = slice_ok g v"
  by (simp_all add: graph_node_def archiveSliceView_def slice_ok_def)

lemma resized_nodes [simp]:
  "fields_ok (g\<lparr>ag_serializedSize := n\<rparr>) a b = fields_ok g a b"
  "indentation_ok (g\<lparr>ag_serializedSize := n\<rparr>) a = indentation_ok g a"
  "archive_node_parts (g\<lparr>ag_serializedSize := n\<rparr>) a = archive_node_parts g a"
  "partial_name (g\<lparr>ag_serializedSize := n\<rparr>) = partial_name g"
  by (simp_all add: fun_eq_iff fields_ok_def indentation_ok_def archive_node_parts_def partial_name_def)

lemma resized_chains [simp]:
  "chain_at (g\<lparr>ag_serializedSize := n\<rparr>) i ts = chain_at g i ts"
  "chain_parts (g\<lparr>ag_serializedSize := n\<rparr>) ts = chain_parts g ts"
  by (induction g i ts rule: chain_at.induct) simp_all

lemma resized_chain_ok [simp]: "chain_ok (g\<lparr>ag_serializedSize := n\<rparr>) L d ts = chain_ok g L d ts"
  by (induction g L d ts rule: chain_ok.induct) simp_all

lemma resized_trees [simp]:
  "itree_at (g\<lparr>ag_serializedSize := n\<rparr>) = itree_at g" "itree_ok (g\<lparr>ag_serializedSize := n\<rparr>) = itree_ok g"
  "itree_parts (g\<lparr>ag_serializedSize := n\<rparr>) = itree_parts g"
  by (simp_all add: fun_eq_iff itree_at_def itree_ok_def itree_parts_def)

lemma resized_well_formed [simp]: "archive_well_formed (g\<lparr>ag_serializedSize := n\<rparr>) L = archive_well_formed g L"
  by (simp add: archive_well_formed_def archive_trees_def names_ok_def)

lemma resized_holds: "holds_template g root e \<Longrightarrow> holds_template (g\<lparr>ag_serializedSize := n\<rparr>) root e"
proof -
  have "extends g (g\<lparr>ag_serializedSize := n\<rparr>)" by (simp add: extends_def)
  then show "holds_template g root e \<Longrightarrow> ?thesis"
    by (auto simp: holds_template_def intro: holds_tree_extends elim!: list_all2_mono holds_partial_extends)
qed

section \<open>Loading what was written\<close>

text \<open>
  What is asked of the cista library for a graph: its deserializer, on the bytes the serializer
  wrote for it, gives the graph back, and in those bytes the graph header and the vectors it
  points to lie where the layout of the build puts them. That the reader's own check accepts
  such bytes is proved, not asked.
\<close>

definition codec_reads_back :: "archive_abi \<Rightarrow> archive_codec \<Rightarrow> nat \<Rightarrow> archive_graph \<Rightarrow> bool" where
  "codec_reads_back abi C maximum g \<longleftrightarrow>
     (\<forall>n payload. write_payload abi C maximum n g = Inr payload \<longrightarrow>
        co_deserialize C payload = Inr (Some g) \<and> graph_in_payload abi (co_address C) payload)"

lemma validateArchiveTypeVersion_context:
  "validateArchiveTypeVersion abi payload c = Inr () \<Longrightarrow> validateArchiveTypeVersion abi payload c' = Inr ()"
  by (simp add: validateArchiveTypeVersion_def split: if_splits)

lemma write_payload_length: "write_payload abi C maximum n g = Inr payload \<Longrightarrow> length payload = n \<and> n \<le> maximum"
  by (auto simp: write_payload_def buffer_release_def bind_eff_def reads_def lift_result_def
      split: if_splits prod.splits sum.splits)

lemma serializeGraph_loads:
  assumes run: "serializeGraph abi C limits g = Inr bytes"
    and codec: "\<And>n. codec_reads_back abi C (al_maxArchiveBytes limits - archivePreambleSize) (g\<lparr>ag_serializedSize := n\<rparr>)"
    and max: "al_maxArchiveBytes limits < 2 ^ 64" and aligned: "co_address C mod tl_alignof (ab_graph abi) = 0"
  obtains n where "loadArchivedTemplate abi C bytes limits = Inr (Some (bytes, g\<lparr>ag_serializedSize := n\<rparr>))"
proof -
  let ?m = "al_maxArchiveBytes limits - archivePreambleSize"
  from run obtain n payload where valid: "validateArchive g limits 0 Writing = Inr ()"
    and payload: "write_payload abi C ?m n (g\<lparr>ag_serializedSize := word_of_nat n\<rparr>) = Inr payload"
    and version: "validateArchiveTypeVersion abi payload Writing = Inr ()" and frame: "frameArchive abi payload limits = Inr bytes"
    by (auto simp: serializeGraph_def Let_def bind_result_Inr_iff)
  let ?g = "g\<lparr>ag_serializedSize := word_of_nat n\<rparr>"
  have len: "length payload = n" "n < 2 ^ 64" using write_payload_length [OF payload] max by auto
  have "payload \<noteq> []" using version by (auto simp: validateArchiveTypeVersion_def)
  with frame have pre: "readArchivePreamble abi bytes limits = Inr payload" "length bytes \<le> al_maxArchiveBytes limits"
    by (auto simp: readArchivePreamble_accepts frameArchive_eq split: if_splits)
  have "unat (ag_serializedSize ?g) = length payload"
    using len by (simp add: unsigned_of_nat take_bit_nat_eq_self)
  moreover have "archive_well_formed g limits"
    using valid archive_checks_iff [of g limits Writing 0] by (simp add: validateArchive_def bind_result_Inr_iff Let_def)
  ultimately have "validateArchive ?g limits (length payload) Loading = Inr ()"
    using archive_checks_iff [of ?g limits Loading "length payload"]
    by (simp add: validateArchive_def bind_result_Inr_iff Let_def)
  moreover have "co_deserialize C payload = Inr (Some ?g)" "validateArchiveGraphLayout abi (co_address C) payload = Inr ()"
    using codec [of "word_of_nat n"] payload by (auto simp: codec_reads_back_def graph_in_payload_validates)
  ultimately have "readArchive abi C bytes limits = Inr ?g"
    using pre aligned validateArchiveTypeVersion_context [OF version, of Loading]
    by (simp add: readArchive_def deserialize_payload_def throw_if_def)
  then have "loadArchivedTemplate abi C bytes limits = Inr (Some (bytes, ?g))"
    using pre(2) by (simp add: loadArchivedTemplate_def validateProtectedArchive_def)
  then show ?thesis by (rule that)
qed

lemma serialized_archive_holds:
  assumes "serializeCistaArchive abi C root source limits = Inr bytes"
    and "distinct_keys root source" and "sourced_template texts root source"
    and "\<And>g n. buildArchive abi limits root source = Inr g \<Longrightarrow>
      codec_reads_back abi C (al_maxArchiveBytes limits - archivePreambleSize) (g\<lparr>ag_serializedSize := n\<rparr>)"
    and "al_maxArchiveBytes limits < 2 ^ 64" and "co_address C mod tl_alignof (ab_graph abi) = 0"
  obtains g e where "loadArchivedTemplate abi C bytes limits = Inr (Some (bytes, g))"
    "names_sorted e" "map_of e = effective_partial root source" "holds_template g root e"
proof -
  from assms(1) obtain g where g: "buildArchive abi limits root source = Inr g" and bytes: "serializeGraph abi C limits g = Inr bytes"
    by (auto simp: serializeCistaArchive_def bind_result_Inr_iff split: if_splits)
  obtain t where "buildWithPartials abi limits root source new_archive_builder = (Inr g, t)"
    using g by (auto simp: buildArchive_def) (metis prod.collapse)
  from buildWithPartials_run [OF this assms(2,3)] obtain e where e: "names_sorted e"
    "map_of e = effective_partial root source" "holds_template g root e" by blast
  from serializeGraph_loads [OF bytes assms(4) [OF g] assms(5,6)] obtain n
    where "loadArchivedTemplate abi C bytes limits = Inr (Some (bytes, g\<lparr>ag_serializedSize := n\<rparr>))" by blast
  with e resized_holds [OF e(3)] that show ?thesis by blast
qed

lemma serialized_partials_full:
  assumes "serializeCistaArchive abi C root (CompiledPartials ps) limits = Inr bytes"
    and "distinct_keys root (CompiledPartials ps)"
  shows "list_all (\<lambda>p. snd p \<noteq> None) ps"
proof -
  from assms(1) obtain g where g: "buildArchive abi limits root (CompiledPartials ps) = Inr g"
    by (auto simp: serializeCistaArchive_def bind_result_Inr_iff split: if_splits)
  then obtain t' where "buildWithPartials abi limits root (CompiledPartials ps) new_archive_builder = (Inr g, t')"
    by (auto simp: buildArchive_def) (metis prod.collapse)
  then obtain s e t where "collectEffectivePartials abi limits (partials root) (CompiledPartials ps) s = (Inr e, t)"
    by (auto simp: buildWithPartials_def then_eff_Inr_iff bind_eff_Inr_iff)
  then show ?thesis using collected_partials_full assms(2) by blast
qed

text \<open>
  C17. Serializing and loading is lossless: bytes written for a template and its partials load,
  in a build that reads back what its serializer writes, and the views of the loaded archive
  are the template that went in and, under each name, the given partial or else the root's own.
\<close>

theorem serialized_template_loads:
  assumes "serializeCistaArchive abi C root source limits = Inr bytes"
    and "distinct_keys root source" and "sourced_template texts root source"
    and "\<And>g n. buildArchive abi limits root source = Inr g \<Longrightarrow>
      codec_reads_back abi C (al_maxArchiveBytes limits - archivePreambleSize) (g\<lparr>ag_serializedSize := n\<rparr>)"
    and "al_maxArchiveBytes limits < 2 ^ 64" and "co_address C mod tl_alignof (ab_graph abi) = 0"
  shows "\<exists>g. loadArchivedTemplate abi C bytes limits = Inr (Some (bytes, g))
     \<and> archive_view g (ag_root g) = archived_form root
     \<and> (\<forall>name. archive_partials g name = Inr (map_option archived_form (effective_partial root source name)))"
proof -
  from serialized_archive_holds [OF assms] obtain g e where
    load: "loadArchivedTemplate abi C bytes limits = Inr (Some (bytes, g))"
    and e: "names_sorted e" "map_of e = effective_partial root source" "holds_template g root e" by blast
  then show ?thesis
    using holds_template_partials [OF e(3,1)] holds_tree_view by (auto simp: holds_template_def)
qed

section \<open>Failures of loading\<close>

text \<open>Everything the reader throws is a read failure, whichever check throws it.\<close>

definition read_failure :: "exn \<Rightarrow> bool" where
  "read_failure e \<longleftrightarrow> (\<exists>reason message. e = ArchiveReadException reason message)"

definition result_fails :: "'a result \<Rightarrow> bool" where
  "result_fails r \<longleftrightarrow> (\<forall>e. r = Inl e \<longrightarrow> read_failure e)"

definition run_fails :: "('s, 'a) eff \<Rightarrow> bool" where
  "run_fails m \<longleftrightarrow> (\<forall>s. result_fails (fst (m s)))"

named_theorems failure_rules "rules that take result_fails and run_fails apart"

lemma read_failures [failure_rules]:
  "read_failure (failArchive Loading reason message)" "read_failure (invalid_archive message)"
  "read_failure truncated_graph_header"
  by (simp_all add: read_failure_def failArchive_def invalid_archive_def truncated_graph_header_def)

lemma validator_failures [failure_rules]:
  "va_context V = Loading \<Longrightarrow> read_failure (av_fail V reason message)"
  "va_context V = Loading \<Longrightarrow> read_failure (av_invalid V message)"
  "va_context V = Loading \<Longrightarrow> read_failure (av_exceeded V message)"
  "va_context V = Loading \<Longrightarrow> read_failure (invalid_indentation_metadata V)"
  by (simp_all add: av_fail_def av_invalid_def av_exceeded_def invalid_indentation_metadata_def failure_rules)

lemma result_fails_rules [failure_rules]:
  "result_fails (Inr x)" "read_failure e \<Longrightarrow> result_fails (Inl e)" "read_failure e \<Longrightarrow> result_fails (throw_if b e)"
  by (simp_all add: result_fails_def throw_if_def)

lemma result_fails_bind [failure_rules]:
  "result_fails m \<Longrightarrow> (\<And>x. result_fails (f x)) \<Longrightarrow> result_fails (bind_result m f)"
  by (auto simp: result_fails_def bind_result_Inl_iff)

lemma result_fails_if [failure_rules]:
  "(b \<Longrightarrow> result_fails m) \<Longrightarrow> (\<not> b \<Longrightarrow> result_fails k) \<Longrightarrow> result_fails (if b then m else k)"
  by simp

lemma run_fails_rules [failure_rules]:
  "run_fails (ret x)" "read_failure e \<Longrightarrow> run_fails (throw e)" "run_fails (writes f)" "run_fails (reads g)"
  "read_failure e \<Longrightarrow> run_fails (throw_when b e)" "result_fails r \<Longrightarrow> run_fails (lift_result r)"
  by (simp_all add: run_fails_def eff_defs failure_rules)

lemma run_fails_bind [failure_rules]:
  assumes "run_fails m" and "\<And>x. run_fails (f x)"
  shows "run_fails (bind_eff m f)"
  unfolding run_fails_def
proof
  fix s
  have "result_fails (fst (m s))" "\<And>x t. result_fails (fst (f x t))" using assms by (simp_all add: run_fails_def)
  then show "result_fails (fst (bind_eff m f s))"
    by (cases "m s") (auto simp: bind_eff_def result_fails_def split: sum.split)
qed

lemma run_fails_then [failure_rules]: "run_fails m \<Longrightarrow> run_fails k \<Longrightarrow> run_fails (then_eff m k)"
  unfolding then_eff_def by (rule run_fails_bind)

lemma run_fails_if [failure_rules]:
  "(b \<Longrightarrow> run_fails m) \<Longrightarrow> (\<not> b \<Longrightarrow> run_fails k) \<Longrightarrow> run_fails (if b then m else k)"
  by simp

lemma run_fails_node:
  assumes "va_context V = Loading" and "\<And>i d. run_fails (below i d)"
  shows "run_fails (validateNode below V index depth metadata)"
  unfolding validateNode_def enterNode_def validateFields_def validateHeader_def validateNodeText_def validateSection_def
    validateDataParts_def Let_def validateString_def
  by (intro failure_rules assms)

lemma run_fails_children: "va_context V = Loading \<Longrightarrow> run_fails (validateChildren n V index depth)"
proof (induction n arbitrary: index depth)
  case (Suc n)
  then show ?case
    unfolding validateChildren.simps validateChild_def validateIndentation_def validateString_def Let_def
    by (intro failure_rules run_fails_node)
qed (simp add: failure_rules)

lemma run_fails_tree: "va_context V = Loading \<Longrightarrow> run_fails (validateTree V index)"
  unfolding validateTree_def by (intro run_fails_node run_fails_children)

lemma run_fails_partials: "va_context V = Loading \<Longrightarrow> run_fails (validatePartials V previous ps)"
  by (induction V previous ps rule: validatePartials.induct)
    (auto simp: validatePartial_def validateString_def intro!: failure_rules run_fails_tree)

lemma validateArchive_fails: "result_fails (validateArchive g limits n Loading)"
proof -
  let ?V = "\<lparr>va_graph = g, va_limits = limits, va_context = Loading\<rparr>"
  have "run_fails (validateGraph ?V)"
    unfolding validateGraph_def validateRoot_def by (intro failure_rules run_fails_tree run_fails_partials) simp_all
  moreover have "result_fails (validateGraphHeader ?V n)"
    unfolding validateGraphHeader_def Let_def by (intro failure_rules) simp_all
  ultimately show ?thesis
    by (auto simp: validateArchive_def Let_def run_fails_def intro!: result_fails_bind)
qed

lemma validateSerializedVector_fails: "result_fails (validateSerializedVector element layout address payload start n)"
  unfolding validateSerializedVector_def readVectorHeader_def readNativeArchiveField_def vector_data_offset_def
    check_vector_range_def
  by (intro failure_rules)

lemma readArchive_fails: "result_fails (readArchive abi C bytes limits)"
  unfolding readArchive_def readArchivePreamble_def validateArchiveTypeVersion_def validateArchiveGraphLayout_def
    deserialize_payload_def
  by (intro failure_rules validateSerializedVector_fails validateArchive_fails)
    (auto intro!: failure_rules split: sum.split option.split)

text \<open>
  C18. A handle always holds a graph it may be rendered from: loading either gives the bytes with
  a well-formed archive within the limits whose recorded length is the payload's, or fails with
  one of the three public categories, the limit one for too much input.
\<close>

theorem loadArchivedTemplate_outcome:
  "case loadArchivedTemplate abi C bytes limits of
     Inr a \<Rightarrow> (\<exists>g. a = Some (bytes, g) \<and> archive_well_formed g limits \<and> length bytes \<le> al_maxArchiveBytes limits
        \<and> length bytes = 24 + unat (ag_serializedSize g))
   | Inl e \<Rightarrow> (\<exists>category message. e = ArchivedTemplateException category message
        \<and> (length bytes \<le> al_maxArchiveBytes limits \<or> category = ErrorLimitExceeded))"
proof (cases "length bytes \<le> al_maxArchiveBytes limits")
  case False
  then show ?thesis by (simp add: loadArchivedTemplate_def)
next
  case True
  show ?thesis
  proof (cases "readArchive abi C bytes limits")
    case (Inl e)
    with readArchive_fails [of abi C bytes limits] True show ?thesis
      by (auto simp: loadArchivedTemplate_def validateProtectedArchive_def result_fails_def read_failure_def)
  next
    case (Inr g)
    then obtain payload where "readArchivePreamble abi bytes limits = Inr payload"
      and "validateArchive g limits (length payload) Loading = Inr ()" and version: "8 \<le> length payload"
      by (auto simp: readArchive_def bind_result_Inr_iff validateArchiveTypeVersion_def split: if_splits)
    then have "archive_well_formed g limits" "length bytes = 24 + unat (ag_serializedSize g)"
      using archive_checks_iff [of g limits Loading "length payload"]
      by (auto simp: readArchivePreamble_accepts validateArchive_def bind_result_Inr_iff Let_def)
    with Inr True show ?thesis by (simp add: loadArchivedTemplate_def validateProtectedArchive_def)
  qed
qed

end
