(* ===== verification/Archive_Render.thy ===== *)
theory Archive_Render
  imports Archive_Files Facade_Props
begin

text \<open>
  Rendering a loaded archive is rendering the template it was made from, callbacks included.
  The renderer of an archive differs from the one of a compiled template in the fields that
  hold the tree and the partials, which nothing reads once a render has begun, and in the nodes
  it walks, which agree in everything the renderer reads.
\<close>

section \<open>Nodes that read alike\<close>

inductive reads_alike :: "node \<Rightarrow> node \<Rightarrow> bool" where
  reads_alikeI: "ntype n' = ntype n \<Longrightarrow> nflags n' = nflags n \<Longrightarrow> ndata n' = ndata n \<Longrightarrow> dataParts n' = dataParts n \<Longrightarrow>
     startSequence n' = startSequence n \<Longrightarrow> stopSequence n' = stopSequence n \<Longrightarrow>
     originalSectionText n' = originalSectionText n \<Longrightarrow> rel_option reads_alike (child n) (child n') \<Longrightarrow>
     list_all2 (rel_option reads_alike) (children n) (children n') \<Longrightarrow> reads_alike n n'"
  monos list.rel_mono option.rel_mono

inductive_simps reads_alike_iff: "reads_alike n n'"

lemma reads_alikeD:
  assumes "reads_alike n n'"
  shows "ntype n' = ntype n" "nflags n' = nflags n" "ndata n' = ndata n" "dataParts n' = dataParts n"
    "startSequence n' = startSequence n" "stopSequence n' = stopSequence n"
    "originalSectionText n' = originalSectionText n" "rel_option reads_alike (child n) (child n')"
    "list_all2 (rel_option reads_alike) (children n) (children n')"
  using assms by (simp_all add: reads_alike_iff)

abbreviation alike_option :: "node option \<Rightarrow> node option \<Rightarrow> bool" where
  "alike_option \<equiv> rel_option reads_alike"

lemma reads_alike_refl [simp]: "reads_alike n n"
proof (induction n rule: measure_induct_rule [where f = size])
  case (less n)
  have "alike_option c c" if "c = child n \<or> c \<in> set (children n)" for c
    using that less size_child [of n] size_children [of _ n] by (cases c) auto
  then show ?case by (auto simp: reads_alike_iff list_all2_same)
qed

lemma alike_option_refl [simp]: "alike_option c c"
  by (cases c) simp_all

section \<open>Operations that do not see the difference\<close>

type_synonym render_sources = "node option \<times> partial_map option \<times> partial_lookup option"

definition swapped :: "render_sources \<Rightarrow> 'w renderer \<Rightarrow> 'w renderer" where
  "swapped w s = s\<lparr>r_node := fst w, r_partials := fst (snd w), r_partialResolver := snd (snd w)\<rparr>"

definition alike :: "render_sources \<Rightarrow> ('w, 'a) rend \<Rightarrow> ('w, 'a) rend \<Rightarrow> bool" where
  "alike w m m' \<longleftrightarrow> (\<forall>s. r_rendering s \<longrightarrow>
     m' (swapped w s) = (fst (m s), swapped w (snd (m s))) \<and> r_rendering (snd (m s)))"

named_theorems alike_rules "rules that take alike apart"

lemma swapped_fields [simp]:
  "r_data (swapped w s) = r_data s" "r_stack (swapped w s) = r_stack s" "r_output (swapped w s) = r_output s"
  "r_limits (swapped w s) = r_limits s" "r_lambdaStringMode (swapped w s) = r_lambdaStringMode s"
  "r_outputBytes (swapped w s) = r_outputBytes s" "r_nodeVisits (swapped w s) = r_nodeVisits s"
  "r_lambdaTemplateBytes (swapped w s) = r_lambdaTemplateBytes s"
  "r_indentationStack (swapped w s) = r_indentationStack s" "r_activeDepth (swapped w s) = r_activeDepth s"
  "r_rendering (swapped w s) = r_rendering s" "r_lambdaCallbackDepth (swapped w s) = r_lambdaCallbackDepth s"
  "r_strictPaths (swapped w s) = r_strictPaths s" "r_strings (swapped w s) = r_strings s"
  "r_nextString (swapped w s) = r_nextString s" "r_contexts (swapped w s) = r_contexts s"
  "r_scopes (swapped w s) = r_scopes s" "r_nextId (swapped w s) = r_nextId s" "r_world (swapped w s) = r_world s"
  by (simp_all add: swapped_def)

lemma swapped_reads [simp]:
  "output_maximum mx (swapped w s) = output_maximum mx s"
  "lambda_tokenizer_limits (swapped w s) = lambda_tokenizer_limits s"
  "limited_by_render_budget (swapped w s) = limited_by_render_budget s"
  "context_state c (swapped w s) = context_state c s" "context_active c (swapped w s) = context_active c s"
  by (simp_all add: output_maximum_def lambda_tokenizer_limits_def limited_by_render_budget_def context_state_def
      context_active_def)

lemma alike_ret [alike_rules]: "alike w (ret x) (ret x)" "alike w (throw e) (throw e)"
  "alike w (lift_result r) (lift_result r)"
  by (simp_all add: alike_def eff_defs)

lemma alike_reads [alike_rules]: "(\<And>s. f (swapped w s) = f s) \<Longrightarrow> alike w (reads f) (reads f)"
  by (simp add: alike_def reads_def)

lemma alike_writes [alike_rules]:
  "(\<And>s. f (swapped w s) = swapped w (f s)) \<Longrightarrow> (\<And>s. r_rendering s \<Longrightarrow> r_rendering (f s)) \<Longrightarrow> alike w (writes f) (writes f)"
  by (simp add: alike_def writes_def)

lemma alike_throw_when [alike_rules]: "(\<And>s. b (swapped w s) = b s) \<Longrightarrow> alike w (throw_when b e) (throw_when b e)"
  by (simp add: alike_def throw_when_def)

lemma alike_bind [alike_rules]:
  assumes "alike w m m'" and "\<And>x. alike w (f x) (f' x)"
  shows "alike w (bind_eff m f) (bind_eff m' f')"
  unfolding alike_def
proof (intro allI impI)
  fix s :: "'a renderer"
  assume "r_rendering s"
  with assms(1) have "m' (swapped w s) = (fst (m s), swapped w (snd (m s)))" "r_rendering (snd (m s))"
    by (simp_all add: alike_def)
  then show "bind_eff m' f' (swapped w s) = (fst (bind_eff m f s), swapped w (snd (bind_eff m f s)))
      \<and> r_rendering (snd (bind_eff m f s))"
    using assms(2) by (cases "m s") (auto simp: bind_eff_def alike_def split: sum.split)
qed

lemma alike_then [alike_rules]: "alike w m m' \<Longrightarrow> alike w k k' \<Longrightarrow> alike w (then_eff m k) (then_eff m' k')"
  unfolding then_eff_def by (rule alike_bind)

lemma alike_if [alike_rules]: "alike w m m' \<Longrightarrow> alike w k k' \<Longrightarrow> alike w (if b then m else k) (if b then m' else k')"
  by simp

lemma alike_case_option [alike_rules]:
  "alike w f f' \<Longrightarrow> (\<And>x. alike w (g x) (g' x)) \<Longrightarrow>
     alike w (case x of None \<Rightarrow> f | Some y \<Rightarrow> g y) (case x of None \<Rightarrow> f' | Some y \<Rightarrow> g' y)"
  by (cases x) simp_all

lemma alike_case_list [alike_rules]:
  "alike w f f' \<Longrightarrow> (\<And>x xs. alike w (g x xs) (g' x xs)) \<Longrightarrow>
     alike w (case ys of [] \<Rightarrow> f | x # xs \<Rightarrow> g x xs) (case ys of [] \<Rightarrow> f' | x # xs \<Rightarrow> g' x xs)"
  by (cases ys) simp_all

lemma alike_each [alike_rules]:
  "(\<And>x. x \<in> set xs \<Longrightarrow> alike w (f x) (f' x)) \<Longrightarrow> alike w (each_eff f xs) (each_eff f' xs)"
  by (induction xs) (simp_all add: alike_rules)

lemma alike_attempt [alike_rules]:
  assumes "alike w m m'"
  shows "alike w (attempt m) (attempt m')"
  unfolding alike_def
proof (intro allI impI)
  fix s :: "'a renderer"
  assume "r_rendering s"
  with assms have "m' (swapped w s) = (fst (m s), swapped w (snd (m s)))" "r_rendering (snd (m s))"
    by (simp_all add: alike_def)
  then show "attempt m' (swapped w s) = (fst (attempt m s), swapped w (snd (attempt m s))) \<and> r_rendering (snd (attempt m s))"
    by (cases "m s") (simp add: attempt_def)
qed

lemma alike_on_exit [alike_rules]:
  assumes "alike w m m'" and "\<And>s. f (swapped w s) = swapped w (f s)" and "\<And>s. r_rendering s \<Longrightarrow> r_rendering (f s)"
  shows "alike w (on_exit f m) (on_exit f m')"
  unfolding alike_def
proof (intro allI impI)
  fix s :: "'a renderer"
  assume "r_rendering s"
  with assms(1) have "m' (swapped w s) = (fst (m s), swapped w (snd (m s)))" "r_rendering (snd (m s))"
    by (simp_all add: alike_def)
  then show "on_exit f m' (swapped w s) = (fst (on_exit f m s), swapped w (snd (on_exit f m s)))
      \<and> r_rendering (snd (on_exit f m s))"
    using assms(2,3) by (cases "m s") (simp add: on_exit_def)
qed

text \<open>What the renderer refuses while it renders, it refuses in both.\<close>

lemma alike_refused [alike_rules]: "alike w (then_eff already_rendering m) (then_eff already_rendering m')"
  by (simp add: alike_def already_rendering_def eff_defs)

section \<open>Output and budgets\<close>

lemma alike_basic [alike_rules]:
  "alike w (consumeOutputBytes k) (consumeOutputBytes k)" "alike w (consumeLambdaTemplate k) (consumeLambdaTemplate k)"
  "alike w consumeNodeVisit consumeNodeVisit" "alike w (string_append b v) (string_append b v)"
  "alike w new_string new_string" "alike w fresh_id fresh_id" "alike w (write_line_start at) (write_line_start at)"
  "alike w (nesting_check depth) (nesting_check depth)"
  unfolding consumeOutputBytes_def consumeLambdaTemplate_def consumeNodeVisit_def string_append_def new_string_def
    fresh_id_def write_line_start_def nesting_check_def
  by (intro alike_rules; simp add: swapped_def)+

lemma alike_with_output [alike_rules]: "(\<And>b. alike w (f b) (f' b)) \<Longrightarrow> alike w (with_output f) (with_output f')"
  unfolding with_output_def by (intro alike_rules) simp_all

lemma alike_append_out [alike_rules]: "alike w (append_out mx v) (append_out mx v)"
  unfolding append_out_def by (intro alike_rules) simp_all

lemma alike_append_escaped [alike_rules]: "alike w (append_escaped mx v b) (append_escaped mx v b)"
  unfolding append_escaped_def by (intro alike_rules) (simp_all add: output_maximum_def swapped_def)

lemma alike_begin_line [alike_rules]: "alike w (begin_line mx) (begin_line mx)"
  unfolding begin_line_def appendIndentation_def by (intro alike_rules) simp_all

lemma alike_append_lines [alike_rules]: "alike w (append_lines mx v) (append_lines mx v)"
proof (induction mx v rule: append_lines.induct)
  case (1 mx v)
  then show ?case
    by (subst (1 2) append_lines.simps) (auto intro!: alike_rules split: option.split)
qed

lemma alike_template_output [alike_rules]:
  "alike w (appendTemplateOutput mx v) (appendTemplateOutput mx v)"
  "alike w (consumeTemplateSource v) (consumeTemplateSource v)" "alike w (beginTemplateTag mx) (beginTemplateTag mx)"
  unfolding appendTemplateOutput_def consumeTemplateSource_def beginTemplateTag_def
  by (intro alike_rules; simp)+

lemma alike_consumeLambdaNodes [alike_rules]: "alike w (consumeLambdaNodes n) (consumeLambdaNodes n)"
proof (induction n rule: consumeLambdaNodes.induct)
  case 1
  then show ?case by (simp add: consumeLambdaNodes.simps alike_rules)
next
  case (2 n)
  then show ?case
    by (cases "child n"; subst (1 2) consumeLambdaNodes.simps(2)) (simp_all add: alike_rules)
qed

lemma alike_tokenizeLambda [alike_rules]: "alike w (tokenizeLambda tk source root esc) (tokenizeLambda tk source root esc)"
  unfolding tokenizeLambda_def
  by (intro alike_rules) (simp_all split: sum.split)

lemma alike_appendLambdaTemplate [alike_rules]: "alike w (appendLambdaTemplate mx out v) (appendLambdaTemplate mx out v)"
  unfolding appendLambdaTemplate_def by (intro alike_rules)

section \<open>Guards and contexts\<close>

lemma alike_guards [alike_rules]:
  assumes "alike w m m'"
  shows "alike w (with_indentation cs m) (with_indentation cs m')" "alike w (with_context d m) (with_context d m')"
    "alike w (to_output b m) (to_output b m')" "alike w (at_depth depth m) (at_depth depth m')"
    "alike w (with_scope self engine m) (with_scope self engine m')"
    "alike w (with_callback_frame c m) (with_callback_frame c m')"
  unfolding with_indentation_def with_context_def to_output_def at_depth_def with_scope_def with_callback_frame_def
  by (intro alike_rules assms; simp add: swapped_def context_invalidate_def)+

lemma alike_contexts [alike_rules]:
  "alike w (new_context start stop esc) (new_context start stop esc)" "alike w (require_active c) (require_active c)"
  "alike w (legacyRenderer c) (legacyRenderer c)"
  unfolding new_context_def require_active_def legacyRenderer_def
  by (intro alike_rules; simp add: swapped_def context_state_def)+

section \<open>Callbacks\<close>

definition alike_rec :: "render_sources \<Rightarrow> 'w node_renderer \<Rightarrow> 'w node_renderer \<Rightarrow> bool" where
  "alike_rec w rec rec' \<longleftrightarrow> (\<forall>n n' d i b. alike_option n n' \<longrightarrow> alike w (rec n d i b) (rec' n' d i b))"

lemma alike_recD: "alike_rec w rec rec' \<Longrightarrow> alike_option n n' \<Longrightarrow> alike w (rec n d i b) (rec' n' d i b)"
  by (simp add: alike_rec_def)

lemma alike_rec_same: "alike_rec w rec rec' \<Longrightarrow> alike w (rec n d i b) (rec' n d i b)"
  by (simp add: alike_rec_def)

lemma alike_renderForLambda [alike_rules]:
  "alike_rec w rec rec' \<Longrightarrow> alike w (renderForLambda E rec n out) (renderForLambda E rec' n out)"
  unfolding renderForLambda_def
  by (intro alike_rules) (simp_all add: alike_rec_same)

lemma alike_context_renders [alike_rules]:
  assumes "alike_rec w rec rec'"
  shows "alike w (context_render E rec c n b) (context_render E rec' c n b)"
    "alike w (context_render_owned E rec c n) (context_render_owned E rec' c n)"
    "alike w (context_renderTemplate E rec c source) (context_renderTemplate E rec' c source)"
  unfolding context_renderTemplate_def context_renderResult_def context_render_owned_def context_render_def
  by (intro alike_rules assms; simp)+

lemma alike_renderAgain [alike_rules]:
  "alike w (bind_eff (reads r_node) (renderRoot rec)) (bind_eff (reads r_node) (renderRoot rec'))"
  by (simp add: alike_def renderRoot_def already_rendering_def eff_defs)

lemma alike_run_renderer_call [alike_rules]: "alike w (run_renderer_call c) (run_renderer_call c)"
  unfolding run_renderer_call_def
  by (cases c) (simp_all add: renderer_clear_def renderer_init_def setNode_def renderer_setData_def setPartials_def
      setOutput_def setLambdaStringMode_def alike_rules)

lemma alike_run_callback [alike_rules]:
  assumes "alike_rec w rec rec'"
  shows "alike w (run_callback E rec cb) (run_callback E rec' cb)"
  by (induction cb) (auto intro!: alike_rules assms, simp add: swapped_def)

lemma alike_invokeSectionLambda [alike_rules]:
  "alike_rec w rec rec' \<Longrightarrow>
     alike w (invokeSectionLambda E rec l text start stop esc) (invokeSectionLambda E rec' l text start stop esc)"
  unfolding invokeSectionLambda_def by (intro alike_rules)

section \<open>Nodes\<close>

lemma alike_validatePartialIndentation:
  assumes "alike_option c c'" and "alike_option d d'"
  shows "validatePartialIndentation c' d' = validatePartialIndentation c d"
  using assms
  by (cases c; cases c'; cases d; cases d')
    (simp_all add: validatePartialIndentation_def indentation_metadata_def reads_alikeD)

lemma alike_head_child: "list_all2 alike_option cs cs' \<Longrightarrow> alike_option (head_child cs) (head_child cs')"
  by (cases cs; cases cs') (simp_all add: head_child_def)

lemma alike_renderChildren [alike_rules]:
  "alike_rec w rec rec' \<Longrightarrow> list_all2 alike_option cs cs' \<Longrightarrow> alike w (renderChildren rec depth cs) (renderChildren rec' depth cs')"
proof (induction rec depth cs arbitrary: cs' rule: renderChildren.induct)
  case (1 rec depth)
  then show ?case by (simp add: alike_rules)
next
  case (2 rec depth c rest)
  from 2(4) obtain c' rest' where cs': "cs' = c' # rest'" and c: "alike_option c c'" and rest: "list_all2 alike_option rest rest'"
    by (auto simp: list_all2_Cons1)
  have h: "alike_option (head_child rest) (head_child rest')" by (rule alike_head_child [OF rest])
  have tl: "list_all2 alike_option (tl rest) (tl rest')" using rest by (cases rest; cases rest') simp_all
  have step: "alike w (if ind = None then then_eff (rec c (depth + 1) None False) (renderChildren rec depth rest)
        else then_eff (rec c (depth + 1) None True) (then_eff (rec (head_child rest) (depth + 1) ind False)
          (renderChildren rec depth (tl rest))))
     (if ind = None then then_eff (rec' c' (depth + 1) None False) (renderChildren rec' depth rest')
        else then_eff (rec' c' (depth + 1) None True) (then_eff (rec' (head_child rest') (depth + 1) ind False)
          (renderChildren rec' depth (tl rest'))))" for ind
    using 2(1) [OF _ 2(3) rest] 2(2) [OF _ 2(3) tl] alike_recD [OF 2(3) c] alike_recD [OF 2(3) h]
    by (auto intro!: alike_rules)
  show ?case
    unfolding cs' renderChildren.simps alike_validatePartialIndentation [OF c h]
    by (intro alike_bind alike_ret step)
qed

lemma alike_append_pieces [alike_rules]: "alike w (append_pieces mx ps out) (append_pieces mx ps out)"
  by (induction ps arbitrary: out) (simp_all add: alike_rules)

lemma alike_appendLambdaTag [alike_rules]:
  "reads_alike n n' \<Longrightarrow> alike w (appendLambdaTag mx start stop n out) (appendLambdaTag mx start stop n' out)"
  unfolding appendLambdaTag_def append_tag_text_def Let_def
  by (simp only: reads_alikeD requireNodeData_def) (intro alike_rules)

lemma alike_append_children:
  "list_all2 alike_option cs cs' \<Longrightarrow>
     (\<And>c c' out. c \<in> set cs \<Longrightarrow> alike_option c c' \<Longrightarrow> alike w (f c out) (f' c' out)) \<Longrightarrow>
     alike w (append_children f cs out) (append_children f' cs' out)"
proof (induction cs cs' arbitrary: out rule: list_all2_induct)
  case (Cons c cs c' cs')
  then show ?case
    using alike_validatePartialIndentation [OF Cons(1) alike_head_child [OF Cons(2)]]
    by (auto intro!: alike_rules)
qed (simp add: alike_rules)

lemma alike_appendLambdaNodeTemplate [alike_rules]:
  "alike_option n n' \<Longrightarrow>
     alike w (appendLambdaNodeTemplate mx start stop depth n out :: ('w, string) rend)
       (appendLambdaNodeTemplate mx start stop depth n' out)"
proof (induction mx start stop depth n out arbitrary: n' rule: appendLambdaNodeTemplate.induct)
  case (1 mx start stop depth out)
  then show ?case by (simp add: appendLambdaNodeTemplate.simps alike_rules)
next
  case (2 mx start stop depth n out)
  then obtain m where n': "n' = Some m" and m: "reads_alike n m" by (cases n') auto
  have "alike w (append_children (appendLambdaNodeTemplate mx start stop (depth + 1)) (children n) out' :: ('w, string) rend)
      (append_children (appendLambdaNodeTemplate mx start stop (depth + 1)) (children m) out')"
    if "appends_children (ntype n)" "\<not> (\<not> type_and (ntype n) TypeHasNoString \<and> ndata n = None)" for out'
    by (rule alike_append_children [OF reads_alikeD(9) [OF m]]) (insert that 2(1), simp)
  with m show ?case
    unfolding n'
    by (subst (1 2) appendLambdaNodeTemplate.simps(2);
      cases "\<not> type_and (ntype n) TypeHasNoString \<and> ndata n = None"; cases "appends_children (ntype n)")
      (auto simp: reads_alikeD intro!: alike_rules)
qed

lemma alike_lambdaSectionText [alike_rules]:
  assumes "reads_alike n n'"
  shows "alike w (lambdaSectionText mx n start stop depth) (lambdaSectionText mx n' start stop depth)"
proof -
  have "alike w (section_child mx start stop depth c out) (section_child mx start stop depth c' out)"
    if "alike_option c c'" for c c' out
    using that unfolding section_child_def
    by (cases c; cases c') (auto simp: reads_alikeD intro!: alike_rules)
  then show ?thesis
    unfolding lambdaSectionText_def using assms
    by (auto simp: reads_alikeD intro!: alike_rules alike_append_children split: option.split)
qed

lemma alike_append_value [alike_rules]: "reads_alike n n' \<Longrightarrow> alike w (append_value E n v) (append_value E n' v)"
  unfolding append_value_def by (simp only: reads_alikeD) (intro alike_rules)

lemma alike_renderLambdaTemplate [alike_rules]:
  assumes rec: "alike_rec w rec rec'" and n: "reads_alike n n'"
  shows "alike w (renderLambdaTemplate E rec n depth parsed) (renderLambdaTemplate E rec' n' depth parsed)"
  unfolding renderLambdaTemplate_def reads_alikeD(2) [OF n]
  by (intro alike_rules alike_rec_same [OF rec]) simp_all

lemma alike_renderValueLambda [alike_rules]:
  "alike_rec w rec rec' \<Longrightarrow> reads_alike n n' \<Longrightarrow>
     alike w (renderValueLambda E rec n i depth) (renderValueLambda E rec' n' i depth)"
  unfolding renderValueLambda_def by (intro alike_rules) simp_all

lemma alike_renderValue [alike_rules]:
  "alike_rec w rec rec' \<Longrightarrow> reads_alike n n' \<Longrightarrow>
     alike w (renderValue E rec n v depth) (renderValue E rec' n' v depth)"
  unfolding renderValue_def by (auto intro!: alike_rules split: data.split option.split)

lemma alike_renderSectionLambda [alike_rules]:
  assumes rec: "alike_rec w rec rec'" and n: "reads_alike n n'"
  shows "alike w (renderSectionLambda E rec n l depth) (renderSectionLambda E rec' n' l depth)"
  unfolding renderSectionLambda_def prod.case reads_alikeD(2,5,6) [OF n]
  by (intro alike_rules assms alike_rec_same [OF rec]) simp_all

lemma alike_renderSection [alike_rules]:
  "alike_rec w rec rec' \<Longrightarrow> reads_alike n n' \<Longrightarrow> (\<And>d. alike w (f d) (f' d)) \<Longrightarrow>
     alike w (renderSection E rec n v depth f) (renderSection E rec' n' v depth f')"
  unfolding renderSection_def by (auto intro!: alike_rules split: data.split)

definition alike_partials :: "partial_lookup \<Rightarrow> partial_lookup \<Rightarrow> bool" where
  "alike_partials P P' \<longleftrightarrow> (\<forall>name. rel_sum (=) alike_option (P name) (P' name))"

lemma alike_renderPartial [alike_rules]:
  assumes "alike_rec w rec rec'" and "reads_alike n n'" and "alike_partials P P'"
  shows "alike w (renderPartial E P rec n depth ind) (renderPartial E P' rec' n' depth ind)"
proof -
  have found: "alike w (bind_eff (lift_result (P name)) (\<lambda>found. case found of None \<Rightarrow> ret ()
        | Some p \<Rightarrow> with_indentation cs (rec (Some p) (depth + 1) None False)))
      (bind_eff (lift_result (P' name)) (\<lambda>found. case found of None \<Rightarrow> ret ()
        | Some p \<Rightarrow> with_indentation cs (rec' (Some p) (depth + 1) None False)))" for name cs
  proof -
    have "rel_sum (=) alike_option (P name) (P' name)" using assms(3) by (simp add: alike_partials_def)
    then show ?thesis
    proof cases
      case (1 e e')
      then show ?thesis by (simp add: bind_eff_def lift_result_def throw_def alike_def)
    next
      case (2 p p')
      have step: "alike w (case p of None \<Rightarrow> ret () | Some p \<Rightarrow> with_indentation cs (rec (Some p) (depth + 1) None False))
         (case p' of None \<Rightarrow> ret () | Some p \<Rightarrow> with_indentation cs (rec' (Some p) (depth + 1) None False))"
        using 2(3) alike_recD [OF assms(1)] by (cases p; cases p') (auto intro!: alike_rules)
      have lift: "bind_eff (lift_result (Inr x)) f = f x" for x and f :: "node option \<Rightarrow> ('a, unit) rend"
        by (simp add: fun_eq_iff bind_eff_def lift_result_def)
      show ?thesis unfolding 2(1,2) lift by (rule step)
    qed
  qed
  show ?thesis
    unfolding renderPartial_def reads_alikeD(3) [OF assms(2)]
    by (intro alike_rules found) simp_all
qed

lemma alike_data_lookup: "reads_alike n n' \<Longrightarrow> data_lookup strict ctx n' = data_lookup strict ctx n"
  unfolding data_lookup_def by (simp only: reads_alikeD)

lemma alike_node_value [alike_rules]: "reads_alike n n' \<Longrightarrow> alike w (node_value n) (node_value n')"
  unfolding node_value_def
  by (simp only: reads_alikeD alike_data_lookup) (intro alike_rules; simp)

lemma alike_switch [alike_rules]:
  assumes rec: "alike_rec w rec rec'" and n: "reads_alike n n'" and P: "alike_partials P P'"
  shows "alike w (renderNode_switch E P rec n depth ind v) (renderNode_switch E P' rec' n' depth ind v)"
proof -
  have kids: "alike w (with_context d (renderChildren rec depth (children n))) (with_context d (renderChildren rec' depth (children n')))"
    "alike w (renderChildren rec depth (children n)) (renderChildren rec' depth (children n'))" for d
    using reads_alikeD(9) [OF n] rec by (auto intro!: alike_rules)
  have c: "alike w (if child n = None then throw e else rec (child n) (depth + 1) None False)
      (if child n' = None then throw e else rec' (child n') (depth + 1) None False)" for e
    using reads_alikeD(8) [OF n] alike_recD [OF rec] by (cases "child n"; cases "child n'") (auto intro!: alike_rules)
  show ?thesis
    unfolding renderNode_switch_def Let_def reads_alikeD(1-3) [OF n]
    by (cases "ntype n"; simp only: node_type.case; (intro alike_rules kids c assms)?)
qed

lemma alike_body:
  assumes rec: "alike_rec w rec rec'" and P: "alike_partials P P'"
  shows "alike_rec w (renderNode_body E P rec) (renderNode_body E P' rec')"
  unfolding alike_rec_def
proof (intro allI impI)
  fix c c' d i b
  assume "alike_option c c'"
  then show "alike w (renderNode_body E P rec c d i b) (renderNode_body E P' rec' c' d i b)"
  proof cases
    case None
    then show ?thesis by (simp add: renderNode_body_def alike_rules)
  next
    case (Some n n')
    show ?thesis
      unfolding renderNode_body_def Some(1,2) option.case indentation_metadata_def
      by (simp only: reads_alikeD(1-3) [OF Some(3)]) (intro alike_rules Some(3) assms; simp)
  qed
qed

lemma alike_render_level: "alike_partials P P' \<Longrightarrow> alike_rec w (render_level E P k) (render_level E P' k)"
proof (induction k)
  case 0
  then show ?case by (simp add: alike_rec_def alike_rules)
next
  case (Suc k)
  then show ?case by (simp add: alike_body)
qed

section \<open>Whole renders\<close>

lemma swapped_begin_end [simp]:
  "begin_render (swapped w s) = swapped w (begin_render s)" "end_render (swapped w s) = swapped w (end_render s)"
  "r_rendering (begin_render s)"
  by (simp_all add: begin_render_def end_render_def swapped_def split: option.split)

lemma swapped_renderRoot:
  assumes rec: "alike_rec w rec rec'" and c: "alike_option c c'" and idle: "\<not> r_rendering s"
  shows "renderRoot rec' c' (swapped w s) = (fst (renderRoot rec c s), swapped w (snd (renderRoot rec c s)))"
proof -
  let ?m = "then_eff (writes push_root_data) (rec c 0 None False)"
  let ?m' = "then_eff (writes push_root_data) (rec' c' 0 None False)"
  have "alike w ?m ?m'"
    by (intro alike_rules alike_recD [OF rec c]) (simp_all add: push_root_data_def swapped_def)
  then have inner: "?m' (swapped w (begin_render s)) = (fst (?m (begin_render s)), swapped w (snd (?m (begin_render s))))"
    by (simp add: alike_def)
  obtain r t where m: "?m (begin_render s) = (r, t)" by (cases "?m (begin_render s)")
  have null: "c' = None \<longleftrightarrow> c = None" using c by (cases c; cases c') simp_all
  have run: "renderRoot k n x = (if n = None then (Inl (Exception ''Empty tree''), x)
      else if r_data x = None then (Inl (Exception ''Empty data''), x)
      else case r_output x of None \<Rightarrow> (Inl (Exception ''Missing output buffer''), x)
        | Some b \<Rightarrow> if length (r_strings x b) > maxOutputBytes (r_limits x) then (Inl output_limit, x)
            else (case then_eff (writes push_root_data) (k n 0 None False) (begin_render x) of (r, t) \<Rightarrow> (r, end_render t)))"
    if "\<not> r_rendering x" for k n x
    using that
    by (simp add: renderRoot_def already_rendering_def with_output_def eff_defs split: option.split)
  show ?thesis
    using idle inner m by (simp add: run null split: option.split)
qed

text \<open>The archive starts from what the compiled template starts from, but for the tree and the partials.\<close>

definition no_sources :: render_sources where
  "no_sources = (None, None, None)"

lemma archived_call_eq:
  "renderProtectedArchive E g data limits mode (fresh_renderer s) =
     (case renderRoot (renderNode E (archive_partials g)) (Some (archive_view g (ag_root g)))
             (swapped no_sources (call_renderer s mode root data ps limits)) of
        (Inl e, t) \<Rightarrow> (Inl e, t) | (Inr u, t) \<Rightarrow> (Inr (r_strings t (r_nextString s)), t))"
  using mode_round [of mode]
  by (auto simp: renderProtectedArchive_def archived_setup_def new_string_def setLambdaStringMode_def renderer_init_def
      renderer_clear_def already_rendering_def eff_defs fresh_renderer_def new_renderer_def call_renderer_def
      swapped_def no_sources_def split: prod.splits sum.splits)

lemma leave_swapped: "leave_surroundings (swapped w t) s = leave_surroundings t s"
  by (simp add: leave_surroundings_def)

lemma archived_call_alike:
  assumes "reads_alike root (archive_view g (ag_root g))"
    and "alike_partials (owned_partials (Some (compiled_resolver ps)) None (Some root)) (archive_partials g)"
  shows "renderProtectedArchive E g data limits mode (fresh_renderer s) =
     (case compiled_call E mode root data ps limits (fresh_renderer s) of (r, t) \<Rightarrow> (r, swapped no_sources t))"
proof -
  let ?P = "owned_partials (Some (compiled_resolver ps)) None (Some root)" and ?b = "call_renderer s mode root data ps limits"
  have rec: "alike_rec no_sources (renderNode E ?P) (renderNode E (archive_partials g))"
    unfolding renderNode_def by (rule alike_render_level [OF assms(2)])
  have "renderer_render E ?b = renderRoot (renderNode E ?P) (Some root) ?b"
    by (simp add: renderer_render_def bind_eff_def reads_def call_renderer_def fresh_renderer_def new_renderer_def)
  moreover have "renderRoot (renderNode E (archive_partials g)) (Some (archive_view g (ag_root g))) (swapped no_sources ?b) =
      (fst (renderRoot (renderNode E ?P) (Some root) ?b), swapped no_sources (snd (renderRoot (renderNode E ?P) (Some root) ?b)))"
    by (rule swapped_renderRoot [OF rec]) (simp_all add: assms(1) call_renderer_select)
  ultimately show ?thesis
    unfolding archived_call_eq [of E g data limits mode s root ps] compiled_call_eq
    by (cases "renderRoot (renderNode E ?P) (Some root) ?b") (auto split: sum.split)
qed

lemma with_mode_call:
  "render_with_mode E (Some root) data ps limits (mode_number mode) s =
     (case compiled_call E mode root data ps limits (fresh_renderer s) of (r, t) \<Rightarrow> (r, leave_surroundings t s))"
proof -
  have "fresh_renderer ((fresh_renderer s)\<lparr>r_lambdaStringMode := mode\<rparr>) = fresh_renderer s"
    by (simp add: fresh_renderer_def new_renderer_def)
  moreover have "\<not> r_rendering (fresh_renderer s)" by (simp add: fresh_renderer_def new_renderer_def)
  moreover have "leave_surroundings (leave_surroundings t ((fresh_renderer s)\<lparr>r_lambdaStringMode := mode\<rparr>)) s = leave_surroundings t s" for t
    by (simp add: leave_surroundings_def)
  ultimately show ?thesis
    using mode_round [of mode]
    by (auto simp: render_with_mode_def mustache_setLambdaStringMode_def on_renderer_def setLambdaStringMode_def
        already_rendering_def eff_defs new_mustache_def render_compiled_def compiled_empty_def split: prod.split)
qed

lemma render_archived_alike:
  assumes "reads_alike root (archive_view g (ag_root g))"
    and "alike_partials (owned_partials (Some (compiled_resolver ps)) None (Some root)) (archive_partials g)"
  shows "render_archived E (Some (bytes, g)) data limits mode s =
     render_with_mode E (Some root) data ps limits (mode_number mode) s"
  unfolding with_mode_call render_archived_def
  by (simp add: archived_call_alike [OF assms] leave_swapped split: prod.split)

section \<open>The archived form reads alike\<close>

text \<open>
  Nodes an archive keeps whole: no container child, and the data parts that \<open>setData\<close> keeps for
  the data. The tokenizer makes no other.
\<close>

definition plain_node :: "node \<Rightarrow> bool" where
  "plain_node n \<longleftrightarrow> child n = None \<and> dataParts n = data_parts_of (ntype n) (opt_text (ndata n))"

lemma archived_node_fields [simp]:
  "ntype (archived_node n cs) = ntype n" "nflags (archived_node n cs) = nflags n" "ndata (archived_node n cs) = ndata n"
  "dataParts (archived_node n cs) = data_parts_of (ntype n) (opt_text (ndata n))"
  "startSequence (archived_node n cs) = startSequence n" "stopSequence (archived_node n cs) = stopSequence n"
  "children (archived_node n cs) = cs" "child (archived_node n cs) = None"
  by (simp_all add: archived_node_def)

lemma archived_node_text [simp]: "originalSectionText (archived_node n cs) = originalSectionText n"
proof (cases "originalSectionText n")
  case (Some t)
  then have "ntype n = TypeSection" by (simp add: originalSectionText_def split: if_splits)
  with Some show ?thesis
    by (simp add: originalSectionText_def [of "archived_node n cs"]) (simp add: archived_node_def)
qed (simp add: originalSectionText_def [of "archived_node n cs"], simp add: archived_node_def)

lemma archived_reads_alike: "list_all plain_node (preorder n) \<Longrightarrow> reads_alike n (archived_form n)"
proof (induction n rule: node_induct)
  case (node n)
  have plain: "plain_node n" "\<And>m. Some m \<in> set (children n) \<Longrightarrow> list_all plain_node (preorder m)"
    using node.prems [unfolded preorder_eq [of n]] by (auto simp: list_all_iff forest_Some [symmetric])
  then have "alike_option c (map_option archived_form c)" if "c \<in> set (children n)" for c
    using that node.IH by (cases c) auto
  then have "list_all2 alike_option (children n) (map (map_option archived_form) (children n))"
    by (simp add: list_all2_map2 list_all2_same)
  then have "reads_alike n (archived_node n (map (map_option archived_form) (children n)))"
    using plain(1) by (intro reads_alikeI) (simp_all only: archived_node_fields archived_node_text plain_node_def option.rel_inject)
  then show ?case by (simp only: archived_form.simps [of n])
qed

lemma compiled_lookup:
  assumes "list_all (\<lambda>p. snd p \<noteq> None) ps"
  shows "owned_partials (Some (compiled_resolver ps)) None (Some root) name = Inr (effective_partial root (CompiledPartials ps) name)"
proof (cases "map_of ps name")
  case (Some c)
  then have "(name, c) \<in> set ps" by (rule map_of_SomeD)
  with assms obtain p where "c = Some p" by (auto simp: list_all_iff)
  with Some show ?thesis
    by (simp add: owned_partials_def compiled_resolver_def effective_partial_def given_partials_def lookup_partial_def
        compiled_empty_def)
qed (simp add: owned_partials_def compiled_resolver_def effective_partial_def given_partials_def lookup_partial_def)

definition plain_template :: "node \<Rightarrow> partial_source \<Rightarrow> bool" where
  "plain_template root source \<longleftrightarrow> list_all plain_node (preorder root)
     \<and> (\<forall>name p. effective_partial root source name = Some p \<longrightarrow> list_all plain_node (preorder p))"

lemma archive_partials_alike:
  assumes "list_all (\<lambda>p. snd p \<noteq> None) ps" and "plain_template root (CompiledPartials ps)"
    and "\<And>name. archive_partials g name = Inr (map_option archived_form (effective_partial root (CompiledPartials ps) name))"
  shows "alike_partials (owned_partials (Some (compiled_resolver ps)) None (Some root)) (archive_partials g)"
  unfolding alike_partials_def
proof
  fix name
  have "alike_option (effective_partial root (CompiledPartials ps) name)
      (map_option archived_form (effective_partial root (CompiledPartials ps) name))"
    using assms(2) archived_reads_alike
    by (cases "effective_partial root (CompiledPartials ps) name") (auto simp: plain_template_def)
  then show "rel_sum (=) alike_option (owned_partials (Some (compiled_resolver ps)) None (Some root) name) (archive_partials g name)"
    by (simp add: compiled_lookup [OF assms(1)] assms(3))
qed

text \<open>
  An archive renders as the template it was made from: a compiled template and its compiled
  partials, serialized and loaded again, render with any data, limits and lambda mode to the same
  string or the same error as a render of the compiled template with these partials, and have
  the same effects outside, whatever callbacks the data holds and whatever they do.
\<close>

lemma archive_renders_as_template:
  assumes "serializeArchivedCompiled abi C (Some root) ps limits = Inr bytes"
    and "distinct_keys root (CompiledPartials ps)" and "sourced_template texts root (CompiledPartials ps)"
    and "plain_template root (CompiledPartials ps)"
    and "\<And>g n. buildArchive abi limits root (CompiledPartials ps) = Inr g \<Longrightarrow>
      codec_reads_back abi C (al_maxArchiveBytes limits - archivePreambleSize) (g\<lparr>ag_serializedSize := n\<rparr>)"
    and "al_maxArchiveBytes limits < 2 ^ 64" and "co_address C mod tl_alignof (ab_graph abi) = 0"
  shows "\<exists>a. loadArchivedTemplate abi C bytes limits = Inr a
     \<and> (\<forall>data rl mode s. render_archived E a data rl mode s
          = render_with_mode E (Some root) data ps rl (mode_number mode) s)"
proof -
  from assms(1) have ser: "serializeCistaArchive abi C root (CompiledPartials ps) limits = Inr bytes"
    by (simp add: serializeArchivedCompiled_def)
  from serialized_archive_holds [OF ser assms(2,3,5,6,7)] obtain g e where
    load: "loadArchivedTemplate abi C bytes limits = Inr (Some (bytes, g))"
    and e: "names_sorted e" "map_of e = effective_partial root (CompiledPartials ps)" "holds_template g root e"
    by blast
  have root: "archive_view g (ag_root g) = archived_form root"
    using e(3) holds_tree_view by (simp add: holds_template_def)
  have ps: "archive_partials g name = Inr (map_option archived_form (effective_partial root (CompiledPartials ps) name))" for name
    using holds_template_partials [OF e(3,1)] e(2) by simp
  have "reads_alike root (archive_view g (ag_root g))"
    unfolding root using assms(4) by (intro archived_reads_alike) (simp add: plain_template_def)
  moreover have "list_all (\<lambda>p. snd p \<noteq> None) ps" by (rule serialized_partials_full [OF ser assms(2)])
  ultimately show ?thesis
    using load render_archived_alike archive_partials_alike [OF _ assms(4) ps] by blast
qed

end
