(* ===== verification/Archive_Compiled.thy ===== *)
theory Archive_Compiled
  imports Archive_Accepted Archive_Render Tokenizer_Props
begin

text \<open>
  Archives of compiled templates: whatever the tokenizer returns meets what the builder, the
  validator and the views ask of a template, so that for templates from \<open>compile\<close> the theorems
  about archives hold without further conditions on the trees.
\<close>

section \<open>Trees of the tokenizer\<close>

lemma tree_ok_preorder: "tree_ok i tmpl n \<Longrightarrow> list_all (node_ok i tmpl) (preorder n)"
proof (induction n rule: node_induct)
  case (node n)
  have root: "node_ok i tmpl n" and kids: "case c of None \<Rightarrow> False | Some m \<Rightarrow> tree_ok i tmpl m" if "c \<in> set (children n)" for c
    using node.prems that by (simp_all add: tree_ok.simps [of i tmpl n])
  have "list_all (node_ok i tmpl) (forest c)" if "c \<in> set (children n)" for c
  proof (cases c)
    case (Some m)
    with kids [OF that] that node.IH [of m] show ?thesis by (simp add: forest_Some)
  qed (use kids [OF that] in simp)
  moreover have "node_ok i tmpl n" using node.prems by (simp add: tree_ok.simps [of i tmpl n])
  ultimately show ?case by (auto simp: preorder_eq list_all_iff)
qed

lemma node_ok_archivable: "node_ok i tmpl n \<Longrightarrow> archivable_node n"
  by (auto simp: node_ok_def archivable_node_def section_ok_def split: if_splits)

lemma node_ok_plain: "node_ok i tmpl n \<Longrightarrow> plain_node n"
  by (auto simp: node_ok_def plain_node_def parts_ok_def opt_text_def data_parts_of_def split: option.splits)

lemma node_ok_sourced: "node_ok i (texts i) n \<Longrightarrow> well_sourced texts n"
  by (auto simp: node_ok_def section_ok_def well_sourced_def split: if_splits option.splits)

lemma tree_ok_kept:
  assumes "tree_ok i (texts i) n" and "ntype n = TypeRoot"
  shows "archivable_tree n" and "list_all plain_node (preorder n)" and "list_all (well_sourced texts) (preorder n)"
proof -
  note all = tree_ok_preorder [OF assms(1)]
  show "list_all plain_node (preorder n)" by (rule list.pred_mono_strong [OF all]) (rule node_ok_plain)
  show "list_all (well_sourced texts) (preorder n)" by (rule list.pred_mono_strong [OF all]) (rule node_ok_sourced)
  have "list_all archivable_node (preorder n)" by (rule list.pred_mono_strong [OF all]) (rule node_ok_archivable)
  moreover from this have "archivable_node n" by (simp add: preorder_eq)
  then have "\<not> has_flag (nflags n) FlagPartialIndent"
    using assms(2) by (auto simp: archivable_node_def validateNodeShape_def invalid_flags_def has_flag_def split: if_splits)
  ultimately show "archivable_tree n" by (simp add: archivable_tree_def)
qed

section \<open>Compiled templates\<close>

text \<open>
  Compiled from a text by some \<open>Mustache\<close>, whatever its delimiters. Every call keeps a source of its
  own; \<open>texts\<close> names them.
\<close>

definition from_source :: "(nat \<Rightarrow> string) \<Rightarrow> compiled \<Rightarrow> bool" where
  "from_source texts c \<longleftrightarrow> (\<exists>(m :: unit mustache) i lim. mustache_compile m i (texts i) lim = Inr c)"

lemma compile_from_source: "compile i (texts i) lim = Inr c \<Longrightarrow> from_source texts c"
  unfolding compile_def from_source_def by blast

lemma from_source_tree:
  assumes "from_source texts c"
  obtains i n where "c = Some n" "tree_ok i (texts i) n" "ntype n = TypeRoot" "partials n = []"
proof -
  from assms obtain m :: "unit mustache" and i lim n where c: "c = Some n"
    and tok: "tokenize (m_tokenizer m) i (texts i) (Some empty_node) lim False = Inr n"
    by (auto simp: from_source_def mustache_compile_def bind_result_Inr_iff)
  from tok have "partials n = []" by (rule tokenize_Inr) (auto simp: empty_node_def)
  with that [of n i] c tokenize_tree [OF tok] show ?thesis by simp
qed

text \<open>A template and partials with distinct, non-empty names, all of them compiled.\<close>

definition compiled_template :: "(nat \<Rightarrow> string) \<Rightarrow> node \<Rightarrow> compiled_partials \<Rightarrow> bool" where
  "compiled_template texts root ps \<longleftrightarrow> from_source texts (Some root) \<and> distinct (map fst ps)
     \<and> (\<forall>(name, c) \<in> set ps. name \<noteq> [] \<and> from_source texts c)"

lemma compiled_template_kept:
  assumes "compiled_template texts root ps"
  shows "distinct_keys root (CompiledPartials ps)" and "sourced_template texts root (CompiledPartials ps)"
    and "plain_template root (CompiledPartials ps)" and "archivable_template root (CompiledPartials ps)"
proof -
  from assms obtain i where root: "tree_ok i (texts i) root" "ntype root = TypeRoot" "partials root = []"
    by (auto simp: compiled_template_def elim: from_source_tree)
  have partial: "name \<noteq> [] \<and> archivable_tree p \<and> list_all plain_node (preorder p) \<and> list_all (well_sourced texts) (preorder p)"
    if "effective_partial root (CompiledPartials ps) name = Some p" for name p
  proof -
    have "(name, Some p) \<in> set ps"
      using that root(3) by (auto simp: effective_partial_def given_partials_def lookup_partial_def split: option.splits
          dest: map_of_SomeD)
    then have "name \<noteq> []" and "from_source texts (Some p)" using assms by (auto simp: compiled_template_def)
    moreover from this(2) obtain j where "tree_ok j (texts j) p" "ntype p = TypeRoot" by (auto elim: from_source_tree)
    ultimately show ?thesis using tree_ok_kept by blast
  qed
  show "distinct_keys root (CompiledPartials ps)"
    using assms root(3) by (simp add: distinct_keys_def given_partials_def compiled_template_def)
  show "sourced_template texts root (CompiledPartials ps)" "plain_template root (CompiledPartials ps)"
    "archivable_template root (CompiledPartials ps)"
    using partial tree_ok_kept [of i texts root] root(1,2)
    by (auto simp: sourced_template_def plain_template_def archivable_template_def)
qed

text \<open>
  C13. The validator never rejects an archive built from compiled templates: nesting, counts,
  string ranges, flags, delimiters, indentation metadata and partial names that the builder let
  through under some limits pass the checks of the writer under the same limits.
\<close>

theorem compiled_archive_is_valid:
  assumes "compiled_template texts root ps" and "buildArchive abi limits root (CompiledPartials ps) = Inr g"
  shows "validateArchive g limits 0 Writing = Inr ()"
  by (rule built_archive_is_valid [OF assms(2) compiled_template_kept(1,2,4) [OF assms(1)]])

text \<open>
  C4. An archive renders as the template it was made from: a compiled template and its compiled
  partials, serialized and loaded again, render with any data, limits and lambda mode to the same
  string or the same error as a render of the compiled template with these partials, and have
  the same effects outside, whatever callbacks the data holds and whatever they do.
\<close>

theorem compiled_archive_renders:
  assumes "compiled_template texts root ps" and "serializeArchivedCompiled abi C (Some root) ps limits = Inr bytes"
    and "\<And>g n. buildArchive abi limits root (CompiledPartials ps) = Inr g \<Longrightarrow>
      codec_reads_back abi C (al_maxArchiveBytes limits - archivePreambleSize) (g\<lparr>ag_serializedSize := n\<rparr>)"
    and "al_maxArchiveBytes limits < 2 ^ 64" and "co_address C mod tl_alignof (ab_graph abi) = 0"
  shows "\<exists>a. loadArchivedTemplate abi C bytes limits = Inr a
     \<and> (\<forall>data rl mode s. render_archived E a data rl mode s
          = render_with_mode E (Some root) data ps rl (mode_number mode) s)"
  by (rule archive_renders_as_template [OF assms(2) compiled_template_kept(1,2,3) [OF assms(1)] assms(3-5)])

end
