(* ===== verification/Archive_Modes.thy ===== *)
theory Archive_Modes
  imports Archive_Compiled
begin

text \<open>
  The builds of src/archive/cista.cpp that measure what the checks of an archive cost: the four
  security modes of \<open>CistaSecurityMode\<close>, the functions that take one, and the checksums they are
  compared with. The library itself has the last mode only.
\<close>

section \<open>Modes of the cista library\<close>

datatype cista_flag =
    UNCHECKED | WITH_VERSION | WITH_INTEGRITY | SERIALIZE_BIG_ENDIAN | DEEP_CHECK | CAST
  | WITH_STATIC_VERSION | SKIP_INTEGRITY | SKIP_VERSION

type_synonym cista_mode = "cista_flag set"

definition cista_integrity_start :: "cista_mode \<Rightarrow> nat" where
  "cista_integrity_start m =
     (if WITH_VERSION \<in> m \<or> WITH_STATIC_VERSION \<in> m \<or> SKIP_VERSION \<in> m then 8 else 0)"

definition cista_data_start :: "cista_mode \<Rightarrow> nat" where
  "cista_data_start m =
     (let start = cista_integrity_start m in
      if WITH_INTEGRITY \<in> m \<or> SKIP_INTEGRITY \<in> m then start + 8 else start)"

text \<open>
  A build: whether the archive code is compiled for the library alone, whether the version is
  computed at run time, the layouts of its compiler, what the cista library does in a mode, and
  the two checksums of other libraries, one of which a build may lack.
\<close>

record cista_build =
  cb_production_only :: bool
  cb_runtime_version :: bool
  cb_layout :: archive_abi
  cb_codec :: "cista_mode \<Rightarrow> archive_codec"
  cb_crc32 :: "(byte list \<Rightarrow> 32 word) option"
  cb_xxh3 :: "byte list \<Rightarrow> 64 word"

definition archiveVersionMode :: "cista_build \<Rightarrow> cista_mode" where
  "archiveVersionMode B = (if cb_runtime_version B then {WITH_VERSION} else {WITH_STATIC_VERSION})"

definition archiveModeDeepCheckAndIntegrity :: "cista_build \<Rightarrow> cista_mode" where
  "archiveModeDeepCheckAndIntegrity B = archiveVersionMode B \<union> {WITH_INTEGRITY} \<union> {DEEP_CHECK}"

definition archiveModeNeither :: "cista_build \<Rightarrow> cista_mode" where
  "archiveModeNeither B = archiveVersionMode B"

definition archiveModeDeepCheck :: "cista_build \<Rightarrow> cista_mode" where
  "archiveModeDeepCheck B = archiveVersionMode B \<union> {DEEP_CHECK}"

definition archiveModeIntegrity :: "cista_build \<Rightarrow> cista_mode" where
  "archiveModeIntegrity B = archiveVersionMode B \<union> {WITH_INTEGRITY}"

text \<open>What the code asserts of a mode, and the mode the cista library is called with.\<close>

definition archive_mode_ok :: "cista_mode \<Rightarrow> bool" where
  "archive_mode_ok m \<longleftrightarrow> (WITH_VERSION \<in> m) \<noteq> (WITH_STATIC_VERSION \<in> m)
     \<and> SKIP_VERSION \<notin> m \<and> SKIP_INTEGRITY \<notin> m \<and> UNCHECKED \<notin> m \<and> CAST \<notin> m"

definition archiveCistaExecutionMode :: "cista_build \<Rightarrow> cista_mode \<Rightarrow> cista_mode" where
  "archiveCistaExecutionMode B m =
     {SKIP_VERSION}
     \<union> (if WITH_INTEGRITY \<in> m then {WITH_INTEGRITY} else {})
     \<union> (if \<not> cb_production_only B \<and> DEEP_CHECK \<in> m then {DEEP_CHECK} else {})
     \<union> (if SERIALIZE_BIG_ENDIAN \<in> m then {SERIALIZE_BIG_ENDIAN} else {})"

definition mode_abi :: "cista_build \<Rightarrow> cista_mode \<Rightarrow> archive_abi" where
  "mode_abi B m = (cb_layout B)
     \<lparr>ab_runtime_version := WITH_VERSION \<in> m, ab_integrity := WITH_INTEGRITY \<in> m,
      ab_data_start := cista_data_start m\<rparr>"

definition mode_codec :: "cista_build \<Rightarrow> cista_mode \<Rightarrow> archive_codec" where
  "mode_codec B m = cb_codec B (archiveCistaExecutionMode B m)"

section \<open>Operations in a mode\<close>

definition serializeCistaArchiveWithMode ::
    "cista_build \<Rightarrow> cista_mode \<Rightarrow> node \<Rightarrow> partial_map \<Rightarrow> archive_limits \<Rightarrow> byte list result" where
  "serializeCistaArchiveWithMode B m root ps limits =
     serializeCistaArchive (mode_abi B m) (mode_codec B m) root (OwnedPartials ps) limits"

definition validateCistaArchiveWithMode ::
    "cista_build \<Rightarrow> cista_mode \<Rightarrow> byte list \<Rightarrow> archive_limits \<Rightarrow> unit result" where
  "validateCistaArchiveWithMode B m bytes limits =
     bind_result (readArchive (mode_abi B m) (mode_codec B m) bytes limits) (\<lambda>_. Inr ())"

definition render_graph :: "'w render_env \<Rightarrow> archive_graph \<Rightarrow> data \<Rightarrow> render_limits \<Rightarrow> ('w, string) rend" where
  "render_graph E g data limits =
     bind_eff new_string (\<lambda>out.
       then_eff (renderer_init None (Some data) None (Some out) limits)
         (then_eff (renderRoot (renderNode E (archive_partials g)) (Some (archive_view g (ag_root g))))
           (reads (\<lambda>s. r_strings s out))))"

definition renderCistaArchiveWithMode ::
    "cista_build \<Rightarrow> cista_mode \<Rightarrow> 'w render_env \<Rightarrow> byte list \<Rightarrow> data \<Rightarrow> archive_limits \<Rightarrow> render_limits
       \<Rightarrow> ('w, string) rend" where
  "renderCistaArchiveWithMode B m E bytes data archiveLimits renderLimits s =
     (case readArchive (mode_abi B m) (mode_codec B m) bytes archiveLimits of
        Inl e \<Rightarrow> (Inl e, s)
      | Inr g \<Rightarrow>
          (case render_graph E g data renderLimits (fresh_renderer s) of
             (r, t) \<Rightarrow> (r, leave_surroundings t s)))"

section \<open>Operations by security mode\<close>

text \<open>An enumeration argument that holds none of the enumerators is \<open>None\<close>.\<close>

datatype CistaSecurityMode = Neither | DeepCheck | Integrity | DeepCheckAndIntegrity

definition unknown_security_mode :: exn where
  "unknown_security_mode = Exception ''Unknown Cista security mode''"

definition serializeCistaArchive_mode ::
    "cista_build \<Rightarrow> node \<Rightarrow> partial_map \<Rightarrow> CistaSecurityMode option \<Rightarrow> archive_limits \<Rightarrow> byte list result" where
  "serializeCistaArchive_mode B root ps mode limits =
     (case mode of
        Some Neither \<Rightarrow> serializeCistaArchiveWithMode B (archiveModeNeither B) root ps limits
      | Some DeepCheck \<Rightarrow> serializeCistaArchiveWithMode B (archiveModeDeepCheck B) root ps limits
      | Some Integrity \<Rightarrow> serializeCistaArchiveWithMode B (archiveModeIntegrity B) root ps limits
      | Some DeepCheckAndIntegrity \<Rightarrow>
          serializeCistaArchiveWithMode B (archiveModeDeepCheckAndIntegrity B) root ps limits
      | None \<Rightarrow> Inl unknown_security_mode)"

definition serializeCistaArchive_default ::
    "cista_build \<Rightarrow> node \<Rightarrow> partial_map \<Rightarrow> archive_limits \<Rightarrow> byte list result" where
  "serializeCistaArchive_default B root ps limits =
     serializeCistaArchive_mode B root ps (Some DeepCheckAndIntegrity) limits"

definition validateCistaArchive_mode ::
    "cista_build \<Rightarrow> byte list \<Rightarrow> CistaSecurityMode option \<Rightarrow> archive_limits \<Rightarrow> unit result" where
  "validateCistaArchive_mode B bytes mode limits =
     (case mode of
        Some Neither \<Rightarrow> validateCistaArchiveWithMode B (archiveModeNeither B) bytes limits
      | Some DeepCheck \<Rightarrow> validateCistaArchiveWithMode B (archiveModeDeepCheck B) bytes limits
      | Some Integrity \<Rightarrow> validateCistaArchiveWithMode B (archiveModeIntegrity B) bytes limits
      | Some DeepCheckAndIntegrity \<Rightarrow>
          validateCistaArchiveWithMode B (archiveModeDeepCheckAndIntegrity B) bytes limits
      | None \<Rightarrow> Inl unknown_security_mode)"

definition validateCistaArchive_default :: "cista_build \<Rightarrow> byte list \<Rightarrow> archive_limits \<Rightarrow> unit result" where
  "validateCistaArchive_default B bytes limits =
     validateCistaArchive_mode B bytes (Some DeepCheckAndIntegrity) limits"

definition renderCistaArchive_mode ::
    "cista_build \<Rightarrow> 'w render_env \<Rightarrow> byte list \<Rightarrow> data \<Rightarrow> CistaSecurityMode option \<Rightarrow> archive_limits
       \<Rightarrow> render_limits \<Rightarrow> ('w, string) rend" where
  "renderCistaArchive_mode B E bytes data mode archiveLimits renderLimits =
     (case mode of
        Some Neither \<Rightarrow> renderCistaArchiveWithMode B (archiveModeNeither B) E bytes data archiveLimits renderLimits
      | Some DeepCheck \<Rightarrow> renderCistaArchiveWithMode B (archiveModeDeepCheck B) E bytes data archiveLimits renderLimits
      | Some Integrity \<Rightarrow> renderCistaArchiveWithMode B (archiveModeIntegrity B) E bytes data archiveLimits renderLimits
      | Some DeepCheckAndIntegrity \<Rightarrow>
          renderCistaArchiveWithMode B (archiveModeDeepCheckAndIntegrity B) E bytes data archiveLimits renderLimits
      | None \<Rightarrow> throw unknown_security_mode)"

definition renderCistaArchive_default ::
    "cista_build \<Rightarrow> 'w render_env \<Rightarrow> byte list \<Rightarrow> data \<Rightarrow> archive_limits \<Rightarrow> render_limits \<Rightarrow> ('w, string) rend" where
  "renderCistaArchive_default B E bytes data archiveLimits renderLimits =
     renderCistaArchive_mode B E bytes data (Some DeepCheckAndIntegrity) archiveLimits renderLimits"

section \<open>Names and checksums\<close>

definition cistaSecurityModeName :: "CistaSecurityMode option \<Rightarrow> string" where
  "cistaSecurityModeName mode =
     (case mode of
        Some Neither \<Rightarrow> ''neither''
      | Some DeepCheck \<Rightarrow> ''deep_check''
      | Some Integrity \<Rightarrow> ''integrity''
      | Some DeepCheckAndIntegrity \<Rightarrow> ''deep_check_integrity''
      | None \<Rightarrow> ''unknown'')"

definition cistaVersionModeName :: "cista_build \<Rightarrow> string" where
  "cistaVersionModeName B = (if cb_runtime_version B then ''version'' else ''static_version'')"

definition cistaIntegrityAlgorithmName :: "cista_build \<Rightarrow> string" where
  "cistaIntegrityAlgorithmName B = (if cb_runtime_version B then ''cista_xxh3_64'' else ''cista_fnv1a_64'')"

datatype CistaChecksumAlgorithm = NoChecksum | Fnv1a64 | Crc32 | Xxh3_64

definition cistaChecksumAlgorithmName :: "CistaChecksumAlgorithm option \<Rightarrow> string" where
  "cistaChecksumAlgorithmName algorithm =
     (case algorithm of
        Some NoChecksum \<Rightarrow> ''none''
      | Some Fnv1a64 \<Rightarrow> ''fnv1a_64''
      | Some Crc32 \<Rightarrow> ''crc32''
      | Some Xxh3_64 \<Rightarrow> ''xxh3_64''
      | None \<Rightarrow> ''unknown'')"

definition checksumCistaArchive ::
    "cista_build \<Rightarrow> byte list \<Rightarrow> CistaChecksumAlgorithm option \<Rightarrow> 64 word result" where
  "checksumCistaArchive B bytes algorithm =
     (case algorithm of
        Some NoChecksum \<Rightarrow> Inr 0
      | Some Fnv1a64 \<Rightarrow> Inr (foldl fnv_byte fnv_basis bytes)
      | Some Crc32 \<Rightarrow>
          (case cb_crc32 B of
             Some crc32 \<Rightarrow> Inr (ucast (crc32 bytes))
           | None \<Rightarrow> Inl (Exception ''zlib CRC-32 is unavailable in this build''))
      | Some Xxh3_64 \<Rightarrow> Inr (cb_xxh3 B bytes)
      | None \<Rightarrow> Inl (Exception ''Unknown Cista checksum algorithm''))"

section \<open>Formats\<close>

definition mode_of :: "cista_build \<Rightarrow> CistaSecurityMode \<Rightarrow> cista_mode" where
  "mode_of B mode =
     (case mode of
        Neither \<Rightarrow> archiveModeNeither B | DeepCheck \<Rightarrow> archiveModeDeepCheck B
      | Integrity \<Rightarrow> archiveModeIntegrity B | DeepCheckAndIntegrity \<Rightarrow> archiveModeDeepCheckAndIntegrity B)"

definition with_integrity :: "CistaSecurityMode \<Rightarrow> bool" where
  "with_integrity mode \<longleftrightarrow> mode \<in> {Integrity, DeepCheckAndIntegrity}"

lemmas mode_defs = mode_of_def archiveModeNeither_def archiveModeDeepCheck_def archiveModeIntegrity_def
  archiveModeDeepCheckAndIntegrity_def archiveVersionMode_def

lemma by_mode:
  "serializeCistaArchive_mode B root ps (Some mode) limits = serializeCistaArchiveWithMode B (mode_of B mode) root ps limits"
  "validateCistaArchive_mode B bytes (Some mode) limits = validateCistaArchiveWithMode B (mode_of B mode) bytes limits"
  "renderCistaArchive_mode B E bytes data (Some mode) limits rl = renderCistaArchiveWithMode B (mode_of B mode) E bytes data limits rl"
  by (cases mode; simp add: serializeCistaArchive_mode_def validateCistaArchive_mode_def renderCistaArchive_mode_def mode_of_def)+

text \<open>
  The modes meet what the code asserts, and the mode of the cista library keeps the positions of
  the graph and of its checksum.
\<close>

lemma archive_modes_ok:
  "archive_mode_ok (mode_of B mode)"
  "cista_data_start (archiveCistaExecutionMode B (mode_of B mode)) = cista_data_start (mode_of B mode)"
  "cista_integrity_start (archiveCistaExecutionMode B (mode_of B mode)) = cista_integrity_start (mode_of B mode)"
  by (cases mode; simp add: archive_mode_ok_def mode_defs archiveCistaExecutionMode_def cista_data_start_def
      cista_integrity_start_def)+

lemma execution_mode_deep_check:
  "DEEP_CHECK \<in> archiveCistaExecutionMode B (mode_of B mode) \<longleftrightarrow>
     \<not> cb_production_only B \<and> mode \<in> {DeepCheck, DeepCheckAndIntegrity}"
  by (cases mode) (auto simp: mode_defs archiveCistaExecutionMode_def)

text \<open>Of the layout, a mode only decides whether there is a checksum, and with it where the graph begins.\<close>

definition format_abi :: "cista_build \<Rightarrow> bool \<Rightarrow> archive_abi" where
  "format_abi B integrity = (cb_layout B)
     \<lparr>ab_runtime_version := cb_runtime_version B, ab_integrity := integrity,
      ab_data_start := if integrity then 16 else 8\<rparr>"

lemma mode_abi_format: "mode_abi B (mode_of B mode) = format_abi B (with_integrity mode)"
  by (cases mode) (auto simp: mode_abi_def format_abi_def mode_defs with_integrity_def cista_data_start_def
      cista_integrity_start_def)

lemma integrity_formats_differ:
  "archiveCompatibilityFingerprint (format_abi B True) \<noteq> archiveCompatibilityFingerprint (format_abi B False)"
proof -
  let ?first = "foldl appendCompatibilityValue fnv_basis"
  have versions: "?first [3, 2, 0x4D55535443495354, 13, 16] \<noteq> ?first [3, 2, 0x4D55535443495354, 1, 8]"
    "?first [3, 2, 0x4D55535443495354, 22, 16] \<noteq> ?first [3, 2, 0x4D55535443495354, 2, 8]"
    by code_simp+
  have "layout_values (format_abi B i) =
      [3, 2, 0x4D55535443495354, archive_representation (format_abi B i), if i then 16 else 8] @ drop 5 (layout_values (cb_layout B))"
    for i
    by (simp add: layout_values_def format_abi_def archiveFormatGeneration_def archiveSchemaVersion_def archiveGraphMagic_def)
  moreover have "archive_representation (format_abi B i) =
      (if cb_runtime_version B then if i then 13 else 1 else if i then 22 else 2)" for i
    by (simp add: archive_representation_def format_abi_def)
  ultimately show ?thesis
    using versions by (simp add: fingerprint_values append_values_inject)
qed

lemma mode_fingerprints:
  "archiveCompatibilityFingerprint (mode_abi B (mode_of B mode)) = archiveCompatibilityFingerprint (mode_abi B (mode_of B other))
     \<longleftrightarrow> with_integrity mode = with_integrity other"
  using integrity_formats_differ [of B] by (cases "with_integrity mode"; cases "with_integrity other") (simp_all add: mode_abi_format)

section \<open>Renders in a mode\<close>

text \<open>The same render of the tree itself, with the given partials.\<close>

definition owned_call ::
    "'w render_env \<Rightarrow> node \<Rightarrow> partial_map \<Rightarrow> data \<Rightarrow> render_limits \<Rightarrow> ('w, string) rend" where
  "owned_call E root ps data limits =
     bind_eff new_string (\<lambda>out.
       then_eff (renderer_init (Some root) (Some data) (Some ps) (Some out) limits)
         (then_eff (renderer_render E) (reads (\<lambda>s. r_strings s out))))"

definition render_tree ::
    "'w render_env \<Rightarrow> node \<Rightarrow> partial_map \<Rightarrow> data \<Rightarrow> render_limits \<Rightarrow> ('w, string) rend" where
  "render_tree E root ps data limits s =
     (case owned_call E root ps data limits (fresh_renderer s) of (r, t) \<Rightarrow> (r, leave_surroundings t s))"

definition tree_renderer :: "'w renderer \<Rightarrow> node \<Rightarrow> partial_map \<Rightarrow> data \<Rightarrow> render_limits \<Rightarrow> 'w renderer" where
  "tree_renderer s root ps data limits =
     (fresh_renderer s)
       \<lparr>r_strings := (r_strings s)(r_nextString s := []), r_nextString := Suc (r_nextString s),
        r_node := Some root, r_data := Some data, r_partials := if ps = [] then None else Some ps,
        r_output := Some (r_nextString s), r_limits := limits\<rparr>"

lemmas call_defs = new_string_def renderer_init_def renderer_clear_def already_rendering_def eff_defs fresh_renderer_def
  new_renderer_def

lemma owned_call_eq:
  "owned_call E root ps data limits (fresh_renderer s) =
     (case renderer_render E (tree_renderer s root ps data limits) of
        (Inl e, t) \<Rightarrow> (Inl e, t) | (Inr u, t) \<Rightarrow> (Inr (r_strings t (r_nextString s)), t))"
  by (cases ps) (auto simp: owned_call_def tree_renderer_def call_defs split: prod.splits sum.splits)

lemma render_graph_eq:
  "render_graph E g data limits (fresh_renderer s) =
     (case renderRoot (renderNode E (archive_partials g)) (Some (archive_view g (ag_root g)))
             (swapped no_sources (tree_renderer s root ps data limits)) of
        (Inl e, t) \<Rightarrow> (Inl e, t) | (Inr u, t) \<Rightarrow> (Inr (r_strings t (r_nextString s)), t))"
  by (auto simp: render_graph_def tree_renderer_def call_defs swapped_def no_sources_def split: prod.splits sum.splits)

lemma tree_partials:
  "owned_partials None (if ps = [] then None else Some ps) (Some root) name = Inr (effective_partial root (OwnedPartials ps) name)"
  by (auto simp: owned_partials_def effective_partial_def given_partials_def lookup_partial_def split: option.split)

lemma render_graph_alike:
  assumes view: "archive_view g (ag_root g) = archived_form root"
    and partials: "\<And>name. archive_partials g name = Inr (map_option archived_form (effective_partial root (OwnedPartials ps) name))"
    and plain: "plain_template root (OwnedPartials ps)"
  shows "render_graph E g data limits (fresh_renderer s) =
     (case owned_call E root ps data limits (fresh_renderer s) of (r, t) \<Rightarrow> (r, swapped no_sources t))"
proof -
  let ?b = "tree_renderer s root ps data limits"
  let ?P = "owned_partials (r_partialResolver ?b) (r_partials ?b) (Some root)"
  have P: "?P = (\<lambda>name. Inr (effective_partial root (OwnedPartials ps) name))"
    using tree_partials [of ps root] by (simp add: tree_renderer_def fresh_renderer_def new_renderer_def fun_eq_iff)
  have "alike_option (effective_partial root (OwnedPartials ps) name)
      (map_option archived_form (effective_partial root (OwnedPartials ps) name))" for name
    using plain archived_reads_alike
    by (cases "effective_partial root (OwnedPartials ps) name") (auto simp: plain_template_def)
  then have "alike_partials ?P (archive_partials g)"
    unfolding alike_partials_def by (simp add: P partials)
  then have rec: "alike_rec no_sources (renderNode E ?P) (renderNode E (archive_partials g))"
    unfolding renderNode_def by (rule alike_render_level)
  have root: "reads_alike root (archive_view g (ag_root g))"
    unfolding view using plain by (intro archived_reads_alike) (simp add: plain_template_def)
  have "renderer_render E ?b = renderRoot (renderNode E ?P) (Some root) ?b"
    by (simp add: renderer_render_def bind_eff_def reads_def tree_renderer_def fresh_renderer_def new_renderer_def)
  moreover have "renderRoot (renderNode E (archive_partials g)) (Some (archive_view g (ag_root g))) (swapped no_sources ?b) =
      (fst (renderRoot (renderNode E ?P) (Some root) ?b), swapped no_sources (snd (renderRoot (renderNode E ?P) (Some root) ?b)))"
    by (rule swapped_renderRoot [OF rec]) (simp_all add: root tree_renderer_def fresh_renderer_def new_renderer_def)
  ultimately show ?thesis
    unfolding render_graph_eq [of E g data limits s root ps] owned_call_eq
    by (cases "renderRoot (renderNode E ?P) (Some root) ?b") (auto split: sum.split)
qed

lemma loaded_graph: "loadArchivedTemplate abi C bytes limits = Inr (Some (bytes, g)) \<Longrightarrow> readArchive abi C bytes limits = Inr g"
  by (auto simp: loadArchivedTemplate_def validateProtectedArchive_def bind_result_Inr_iff split: if_splits sum.splits exn.splits)

lemma serialized_frame:
  assumes "serializeCistaArchive abi C root source limits = Inr bytes"
  obtains payload where "frameArchive abi payload limits = Inr bytes"
  using assms by (auto simp: serializeCistaArchive_def serializeGraph_def Let_def bind_result_Inr_iff split: if_splits)

lemma other_format_refused:
  assumes "frameArchive (mode_abi B (mode_of B mode)) payload limits = Inr bytes"
    and "with_integrity other \<noteq> with_integrity mode"
  shows "readArchive (mode_abi B (mode_of B other)) C bytes limits = Inl unsupported_compatibility"
proof -
  have "archiveCompatibilityFingerprint (mode_abi B (mode_of B mode)) \<noteq> archiveCompatibilityFingerprint (mode_abi B (mode_of B other))"
    using assms(2) mode_fingerprints by metis
  from other_fingerprint_refused [OF this assms(1)] show ?thesis by (simp add: readArchive_def)
qed

text \<open>
  C34. In every security mode an archive is what it was made from, and archives do not mix: bytes
  written in a mode are validated in that mode and render as the tree with the given partials
  does, with any data, limits and callbacks, while the modes that disagree on the checksum
  refuse them as an unsupported format before they read the payload.
\<close>

theorem security_modes_agree:
  assumes "serializeCistaArchive_mode B root ps (Some mode) limits = Inr bytes"
    and "distinct_keys root (OwnedPartials ps)" and "sourced_template texts root (OwnedPartials ps)"
    and "plain_template root (OwnedPartials ps)"
    and "\<And>g n. buildArchive (mode_abi B (mode_of B mode)) limits root (OwnedPartials ps) = Inr g \<Longrightarrow>
      codec_reads_back (mode_abi B (mode_of B mode)) (mode_codec B (mode_of B mode))
        (al_maxArchiveBytes limits - archivePreambleSize) (g\<lparr>ag_serializedSize := n\<rparr>)"
    and "al_maxArchiveBytes limits < 2 ^ 64"
    and "co_address (mode_codec B (mode_of B mode)) mod tl_alignof (ab_graph (mode_abi B (mode_of B mode))) = 0"
  shows "validateCistaArchive_mode B bytes (Some mode) limits = Inr ()
     \<and> (\<forall>data rl s. renderCistaArchive_mode B E bytes data (Some mode) limits rl s = render_tree E root ps data rl s)
     \<and> (\<forall>other. with_integrity other \<noteq> with_integrity mode \<longrightarrow>
          validateCistaArchive_mode B bytes (Some other) limits = Inl unsupported_compatibility
          \<and> (\<forall>data rl s. renderCistaArchive_mode B E bytes data (Some other) limits rl s = (Inl unsupported_compatibility, s)))"
proof -
  let ?abi = "mode_abi B (mode_of B mode)" and ?C = "mode_codec B (mode_of B mode)"
  from assms(1) have ser: "serializeCistaArchive ?abi ?C root (OwnedPartials ps) limits = Inr bytes"
    by (simp add: by_mode serializeCistaArchiveWithMode_def)
  from serialized_archive_holds [OF ser assms(2,3,5,6,7)] obtain g e where
    load: "loadArchivedTemplate ?abi ?C bytes limits = Inr (Some (bytes, g))"
    and e: "names_sorted e" "map_of e = effective_partial root (OwnedPartials ps)" "holds_template g root e" by blast
  note read = loaded_graph [OF load]
  have root: "archive_view g (ag_root g) = archived_form root"
    using e(3) holds_tree_view by (simp add: holds_template_def)
  have ps: "archive_partials g name = Inr (map_option archived_form (effective_partial root (OwnedPartials ps) name))" for name
    using holds_template_partials [OF e(3,1)] e(2) by simp
  have "renderCistaArchive_mode B E bytes data (Some mode) limits rl s = render_tree E root ps data rl s" for data rl s
    by (simp add: by_mode renderCistaArchiveWithMode_def read render_graph_alike [OF root ps assms(4)] render_tree_def
        leave_swapped split: prod.split)
  moreover have "validateCistaArchive_mode B bytes (Some mode) limits = Inr ()"
    by (simp add: by_mode validateCistaArchiveWithMode_def read)
  moreover obtain payload where "frameArchive ?abi payload limits = Inr bytes" by (rule serialized_frame [OF ser])
  note refused = other_format_refused [OF this]
  ultimately show ?thesis
    by (simp add: by_mode validateCistaArchiveWithMode_def renderCistaArchiveWithMode_def refused)
qed

section \<open>Checksums\<close>

text \<open>A byte that changes changes the FNV-1a checksum, wherever it is.\<close>

lemma fnv_checksum_detects:
  assumes "b \<noteq> b'"
  shows "checksumCistaArchive B (xs @ b # ys) (Some Fnv1a64) \<noteq> checksumCistaArchive B (xs @ b' # ys) (Some Fnv1a64)"
proof -
  have "bit (ucast x :: 64 word) n = bit x n" for x :: byte and n
    using bit_imp_le_length [of x n] by (auto simp: bit_ucast_iff)
  with assms have "(ucast b :: 64 word) \<noteq> ucast b'" by (metis bit_eq_iff)
  then show ?thesis by (simp add: checksumCistaArchive_def fnv_bytes_inject fnv_byte_inject xor_cancel)
qed

end
