(* ===== verification/Node_View.thy ===== *)
theory Node_View
  imports Engine
begin

text \<open>
  The render engine is a template over a view of nodes. This theory writes its traversal the way
  the template has it, over the operations of a view and its two cursors (\<open>node_view\<close>), with
  the view of owned nodes; the interface \<open>node_source\<close> says when a view sees a node, and under it the
  traversal through the view is the traversal over the nodes of theory Engine. Archive_View
  gives the view of archives.
\<close>

section \<open>Borrowed strings\<close>

text \<open>
  \<open>RenderString\<close>: a string, the owned string it is borrowed from if there is one, and whether it
  is there at all. The lookups take the owned string or a copy of the view.
\<close>

record render_string =
  rs_value :: string
  rs_owned :: "string option"
  rs_present :: bool

definition absent_string :: render_string where
  "absent_string = \<lparr>rs_value = [], rs_owned = None, rs_present = False\<rparr>"

definition fromOwned :: "string option \<Rightarrow> render_string" where
  "fromOwned value =
     (case value of None \<Rightarrow> absent_string | Some v \<Rightarrow> \<lparr>rs_value = v, rs_owned = Some v, rs_present = True\<rparr>)"

definition fromView :: "string \<Rightarrow> render_string" where
  "fromView value = \<lparr>rs_value = value, rs_owned = None, rs_present = True\<rparr>"

definition lookup_key :: "render_string \<Rightarrow> string" where
  "lookup_key r = (case rs_owned r of None \<Rightarrow> rs_value r | Some v \<Rightarrow> v)"

text \<open>What a borrowed string stands for, and that its owned string, if any, is the same.\<close>

definition rs_text :: "render_string \<Rightarrow> string option" where
  "rs_text r = (if rs_present r then Some (rs_value r) else None)"

definition stands_for :: "render_string \<Rightarrow> string option \<Rightarrow> bool" where
  "stands_for r t \<longleftrightarrow> rs_text r = t \<and> (t \<noteq> None \<longrightarrow> lookup_key r = rs_value r)"

lemma stands_for_iff:
  "stands_for r None \<longleftrightarrow> \<not> rs_present r"
  "stands_for r (Some v) \<longleftrightarrow> rs_present r \<and> rs_value r = v \<and> lookup_key r = v"
  by (auto simp: stands_for_def rs_text_def split: if_splits)

lemma stands_for_intros [simp]:
  "stands_for absent_string None" "stands_for (fromOwned t) t" "stands_for (fromView v) (Some v)"
  by (auto simp: stands_for_def absent_string_def fromOwned_def fromView_def rs_text_def lookup_key_def split: option.split)

lemma absent_string_present [simp]: "\<not> rs_present absent_string"
  by (simp add: absent_string_def)

lemma stands_for_present: "stands_for r t \<Longrightarrow> rs_present r \<longleftrightarrow> t \<noteq> None"
  by (auto simp: stands_for_def rs_text_def split: if_splits)

section \<open>Views and cursors\<close>

text \<open>
  The operations the engine asks of a view, of its cursor over name components and of its cursor
  over children. The two bounds are not in the code: they end the loops of the model, and a
  view promises that its cursors are through by then.
\<close>

record ('v, 'p, 'c) node_view =
  nv_null :: 'v
  nv_valid :: "'v \<Rightarrow> bool"
  nv_type :: "'v \<Rightarrow> node_type"
  nv_flags :: "'v \<Rightarrow> int"
  nv_data :: "'v \<Rightarrow> render_string"
  nv_dataParts :: "'v \<Rightarrow> 'p"
  nv_children :: "'v \<Rightarrow> 'c"
  nv_containerChild :: "'v \<Rightarrow> 'v"
  nv_startSequence :: "'v \<Rightarrow> render_string"
  nv_stopSequence :: "'v \<Rightarrow> render_string"
  nv_originalSectionText :: "'v \<Rightarrow> render_string"
  parts_valid :: "'p \<Rightarrow> bool"
  parts_value :: "'p \<Rightarrow> render_string"
  parts_advance :: "'p \<Rightarrow> 'p"
  parts_bound :: "'p \<Rightarrow> nat"
  children_valid :: "'c \<Rightarrow> bool"
  children_value :: "'c \<Rightarrow> 'v"
  children_advance :: "'c \<Rightarrow> 'c"
  children_bound :: "'c \<Rightarrow> nat"

text \<open>A renderer of what a view sees, and a partial source that finds views of one kind.\<close>

type_synonym ('v, 'w) view_renderer = "'v \<Rightarrow> nat \<Rightarrow> render_string \<Rightarrow> bool \<Rightarrow> ('w, unit) rend"

type_synonym 'v view_partials = "render_string \<Rightarrow> 'v option result"

section \<open>The traversal over a view\<close>

definition view_indentation_metadata :: "('v, 'p, 'c) node_view \<Rightarrow> 'v \<Rightarrow> bool" where
  "view_indentation_metadata V v \<longleftrightarrow>
     nv_type V v = TypeOutput \<and> nv_flags V v = indentation_flags
     \<and> rs_present (nv_data V v) \<and> isPartialIndentation (rs_value (nv_data V v))"

definition view_validatePartialIndentation :: "('v, 'p, 'c) node_view \<Rightarrow> 'v \<Rightarrow> 'v \<Rightarrow> render_string result" where
  "view_validatePartialIndentation V c nextChild =
     (if \<not> nv_valid V c \<or> \<not> has_flag (nv_flags V c) FlagPartialIndent then Inr absent_string
      else if \<not> view_indentation_metadata V c \<or> \<not> nv_valid V nextChild \<or> nv_type V nextChild \<noteq> TypePartial
      then Inl invalid_indentation
      else Inr (nv_data V c))"

text \<open>The view after the one just read: the cursor's, or the null view at the end.\<close>

definition next_child :: "('v, 'p, 'c) node_view \<Rightarrow> 'c \<Rightarrow> 'v" where
  "next_child V c = (if children_valid V c then children_value V c else nv_null V)"

primrec view_children_loop ::
    "nat \<Rightarrow> ('v, 'p, 'c) node_view \<Rightarrow> ('v, 'w) view_renderer \<Rightarrow> nat \<Rightarrow> 'c \<Rightarrow> ('w, unit) rend" where
  "view_children_loop 0 V rec depth c = ret ()"
| "view_children_loop (Suc n) V rec depth c =
     (if \<not> children_valid V c then ret ()
      else bind_eff (lift_result (view_validatePartialIndentation V (children_value V c)
                                    (next_child V (children_advance V c)))) (\<lambda>ind.
        if \<not> rs_present ind
        then then_eff (rec (children_value V c) (depth + 1) absent_string False)
               (view_children_loop n V rec depth (children_advance V c))
        else then_eff (rec (children_value V c) (depth + 1) absent_string True)
               (then_eff (rec (next_child V (children_advance V c)) (depth + 1) ind False)
                 (view_children_loop n V rec depth (children_advance V (children_advance V c))))))"

definition view_renderChildren ::
    "('v, 'p, 'c) node_view \<Rightarrow> ('v, 'w) view_renderer \<Rightarrow> 'v \<Rightarrow> nat \<Rightarrow> ('w, unit) rend" where
  "view_renderChildren V rec v depth =
     view_children_loop (children_bound V (nv_children V v)) V rec depth (nv_children V v)"

text \<open>What is read of a node to print its tag, or to render a value: its type, flags and data.\<close>

definition view_head :: "('v, 'p, 'c) node_view \<Rightarrow> 'v \<Rightarrow> node" where
  "view_head V v =
     Node (nv_type V v) (nv_flags V v) (rs_text (nv_data V v)) [] [] None [] None None None 0 0"

primrec view_append_loop ::
    "nat \<Rightarrow> ('v, 'p, 'c) node_view \<Rightarrow> ('v \<Rightarrow> string \<Rightarrow> ('w, string) rend) \<Rightarrow> 'c \<Rightarrow> string \<Rightarrow> ('w, string) rend" where
  "view_append_loop 0 V f c out = ret out"
| "view_append_loop (Suc n) V f c out =
     (if \<not> children_valid V c then ret out
      else bind_eff (lift_result (view_validatePartialIndentation V (children_value V c)
                                    (next_child V (children_advance V c)))) (\<lambda>_.
        bind_eff (f (children_value V c) out) (view_append_loop n V f (children_advance V c))))"

definition view_append_children ::
    "('v, 'p, 'c) node_view \<Rightarrow> ('v \<Rightarrow> string \<Rightarrow> ('w, string) rend) \<Rightarrow> 'v \<Rightarrow> string \<Rightarrow> ('w, string) rend" where
  "view_append_children V f v out =
     view_append_loop (children_bound V (nv_children V v)) V f (nv_children V v) out"

text \<open>The recursion goes one level deeper with every call, and the depth is checked first.\<close>

primrec view_append_level ::
    "nat \<Rightarrow> ('v, 'p, 'c) node_view \<Rightarrow> nat \<Rightarrow> string \<Rightarrow> string \<Rightarrow> nat \<Rightarrow> 'v \<Rightarrow> string \<Rightarrow> ('w, string) rend" where
  "view_append_level 0 V mx start stop depth v out = throw nesting_limit"
| "view_append_level (Suc n) V mx start stop depth v out =
     (if \<not> nv_valid V v then throw (Exception ''Invalid null child node'')
      else then_eff (nesting_check depth)
        (then_eff consumeNodeVisit
          (if \<not> type_and (nv_type V v) TypeHasNoString \<and> \<not> rs_present (nv_data V v)
           then throw (Exception ''Invalid node without data'')
           else bind_eff (appendLambdaTag mx start stop (view_head V v) out) (\<lambda>out'.
             if appends_children (nv_type V v)
             then view_append_children V (view_append_level n V mx start stop (depth + 1)) v out'
             else ret out'))))"

definition view_appendLambdaNodeTemplate ::
    "('v, 'p, 'c) node_view \<Rightarrow> nat \<Rightarrow> string \<Rightarrow> string \<Rightarrow> nat \<Rightarrow> 'v \<Rightarrow> string \<Rightarrow> ('w, string) rend" where
  "view_appendLambdaNodeTemplate V = view_append_level (Suc renderNestingCeiling) V"

definition view_section_child ::
    "('v, 'p, 'c) node_view \<Rightarrow> nat \<Rightarrow> string \<Rightarrow> string \<Rightarrow> nat \<Rightarrow> 'v \<Rightarrow> string \<Rightarrow> ('w, string) rend" where
  "view_section_child V mx start stop depth c out =
     (if \<not> nv_valid V c then throw (Exception ''Invalid null child node'')
      else if nv_type V c = TypeStop then then_eff (nesting_check (depth + 1)) (then_eff consumeNodeVisit (ret out))
      else view_appendLambdaNodeTemplate V mx start stop (depth + 1) c out)"

definition view_lambdaSectionText ::
    "('v, 'p, 'c) node_view \<Rightarrow> nat \<Rightarrow> 'v \<Rightarrow> string \<Rightarrow> string \<Rightarrow> nat \<Rightarrow> ('w, string) rend" where
  "view_lambdaSectionText V mx v start stop depth =
     (if rs_present (nv_originalSectionText V v)
      then appendLambdaTemplate mx (Some []) (rs_value (nv_originalSectionText V v))
      else view_append_children V (view_section_child V mx start stop depth) v [])"

primrec view_walk_parts :: "nat \<Rightarrow> ('v, 'p, 'c) node_view \<Rightarrow> data option \<Rightarrow> 'p \<Rightarrow> data option" where
  "view_walk_parts 0 V reference p = reference"
| "view_walk_parts (Suc n) V reference p =
     (case reference of
        None \<Rightarrow> None
      | Some r \<Rightarrow>
          if \<not> parts_valid V p then Some r
          else if type_of_data r \<noteq> DTypeMap then None
          else view_walk_parts n V (findInMap (Some r) (lookup_key (parts_value V p))) (parts_advance V p))"

definition view_lookup :: "('v, 'p, 'c) node_view \<Rightarrow> bool \<Rightarrow> data list \<Rightarrow> 'v \<Rightarrow> data option result" where
  "view_lookup V strict contexts v =
     (let name = nv_data V v; p = nv_dataParts V v in
      if \<not> rs_present name then Inl (Exception ''Invalid node without data'')
      else Inr (if rs_value name = ''.'' then Some (hd contexts)
                else if strict then findInMap (Some (hd contexts)) (lookup_key name)
                else view_walk_parts (parts_bound V p) V
                       (search_contexts (lookup_key (if parts_valid V p then parts_value V p else name)) contexts)
                       (if parts_valid V p then parts_advance V p else p)))"

definition view_renderSectionLambda ::
    "'w render_env \<Rightarrow> ('v, 'p, 'c) node_view \<Rightarrow> 'w node_renderer \<Rightarrow> 'v \<Rightarrow> nat option \<Rightarrow> nat \<Rightarrow> ('w, unit) rend" where
  "view_renderSectionLambda E V owned v l depth =
     (let start = rs_value (nv_startSequence V v); stop = rs_value (nv_stopSequence V v);
          escape = has_flag (nv_flags V v) FlagEscape in
      if \<not> rs_present (nv_startSequence V v) \<or> \<not> rs_present (nv_stopSequence V v)
      then throw (Exception ''Missing section delimiters'')
      else bind_eff (view_lambdaSectionText V (env_max_size E) v start stop depth) (\<lambda>text.
        bind_eff (invokeSectionLambda E owned l text start stop escape) (\<lambda>result.
        bind_eff (reads r_lambdaStringMode) (\<lambda>mode.
          if isLiteralResult mode result then append_out (env_max_size E) (lr_text result)
          else then_eff (consumeLambdaTemplate (length (lr_text result)))
            (bind_eff (lift_result (bind_result (setStartSequence start new_tokenizer) (setStopSequence stop))) (\<lambda>tk.
             bind_eff (tokenizeLambda (Some tk) (lr_text result) (Some empty_node) escape) (\<lambda>parsed.
             with_indentation [] (owned (Some parsed) (depth + 1) None False))))))))"

definition view_renderSection ::
    "'w render_env \<Rightarrow> ('v, 'p, 'c) node_view \<Rightarrow> 'w node_renderer \<Rightarrow> 'v \<Rightarrow> data \<Rightarrow> nat \<Rightarrow> (data \<Rightarrow> ('w, unit) rend)
       \<Rightarrow> ('w, unit) rend" where
  "view_renderSection E V owned v value depth renderWithContext =
     (case value of
        DList ds \<Rightarrow> each_eff renderWithContext ds
      | DArray ds \<Rightarrow> each_eff renderWithContext ds
      | DLambda l \<Rightarrow> view_renderSectionLambda E V owned v l depth
      | DNone \<Rightarrow> ret ()
      | _ \<Rightarrow> renderWithContext value)"

definition view_renderPartial ::
    "'w render_env \<Rightarrow> ('v, 'p, 'c) node_view \<Rightarrow> 'q view_partials \<Rightarrow> ('q, 'w) view_renderer \<Rightarrow> 'v \<Rightarrow> nat \<Rightarrow> render_string
       \<Rightarrow> ('w, unit) rend" where
  "view_renderPartial E V source found v depth ind =
     then_eff (beginTemplateTag (env_max_size E))
       (if \<not> rs_present (nv_data V v) then throw (Exception ''Invalid node without data'')
        else bind_eff (reads (\<lambda>s. partial_indentation (rs_text ind) (r_indentationStack s))) (\<lambda>indentation.
          bind_eff (lift_result (source (nv_data V v))) (\<lambda>p.
            case p of
              None \<Rightarrow> ret ()
            | Some q \<Rightarrow> with_indentation indentation (found q (depth + 1) absent_string False))))"

definition view_switch ::
    "'w render_env \<Rightarrow> ('v, 'p, 'c) node_view \<Rightarrow> 'q view_partials \<Rightarrow> ('v, 'w) view_renderer \<Rightarrow> 'w node_renderer
       \<Rightarrow> ('q, 'w) view_renderer \<Rightarrow> 'v \<Rightarrow> nat \<Rightarrow> render_string \<Rightarrow> data option \<Rightarrow> ('w, unit) rend" where
  "view_switch E V source rec owned found v depth ind value =
     (let mx = env_max_size E;
          renderWithContext = (\<lambda>d. with_context d (view_renderChildren V rec v depth))
      in case nv_type V v of
        TypeNone \<Rightarrow> ret ()
      | TypeComment \<Rightarrow> beginTemplateTag mx
      | TypeStop \<Rightarrow> beginTemplateTag mx
      | TypeInlinePartial \<Rightarrow> beginTemplateTag mx
      | TypeRoot \<Rightarrow> view_renderChildren V rec v depth
      | TypeOutput \<Rightarrow>
          (if \<not> rs_present (nv_data V v) then ret ()
           else if has_flag (nv_flags V v) FlagLambdaOnly then consumeTemplateSource (rs_value (nv_data V v))
           else appendTemplateOutput mx (rs_value (nv_data V v)))
      | TypeContainer \<Rightarrow>
          (if \<not> nv_valid V (nv_containerChild V v) then throw (Exception ''Empty container node'')
           else rec (nv_containerChild V v) (depth + 1) absent_string False)
      | TypeTag \<Rightarrow> then_eff (beginTemplateTag mx)
          (case value of
             None \<Rightarrow> ret ()
           | Some d \<Rightarrow> if isEmpty d then ret () else renderValue E owned (view_head V v) d depth)
      | TypeVariable \<Rightarrow> then_eff (beginTemplateTag mx)
          (case value of
             None \<Rightarrow> ret ()
           | Some d \<Rightarrow> if isEmpty d then ret () else renderValue E owned (view_head V v) d depth)
      | TypeNegate \<Rightarrow> then_eff (beginTemplateTag mx)
          (if value_is_empty value then view_renderChildren V rec v depth else ret ())
      | TypeSection \<Rightarrow> then_eff (beginTemplateTag mx)
          (case value of
             None \<Rightarrow> ret ()
           | Some d \<Rightarrow> if isEmpty d then ret () else view_renderSection E V owned v d depth renderWithContext)
      | TypePartial \<Rightarrow> view_renderPartial E V source found v depth ind
      | _ \<Rightarrow> throw (Exception ''Unknown tree node type''))"

definition view_value :: "('v, 'p, 'c) node_view \<Rightarrow> 'v \<Rightarrow> ('w, data option) rend" where
  "view_value V v =
     (if type_and (nv_type V v) TypeHasData
      then bind_eff (reads (\<lambda>s. view_lookup V (r_strictPaths s) (r_stack s) v)) lift_result
      else ret None)"

text \<open>
  \<open>renderNode\<close>, over the renderers of the next level: of the same kind of view, of the owned nodes
  that lambdas produce, and of the partials found.
\<close>

definition view_body ::
    "'w render_env \<Rightarrow> ('v, 'p, 'c) node_view \<Rightarrow> 'q view_partials \<Rightarrow> ('v, 'w) view_renderer \<Rightarrow> 'w node_renderer
       \<Rightarrow> ('q, 'w) view_renderer \<Rightarrow> ('v, 'w) view_renderer" where
  "view_body E V source rec owned found v depth ind metadata =
     (if \<not> nv_valid V v then throw (Exception ''Empty tree node'')
      else then_eff (nesting_check depth)
        (then_eff consumeNodeVisit
          (if has_flag (nv_flags V v) FlagPartialIndent \<and> \<not> (metadata \<and> view_indentation_metadata V v)
           then throw invalid_indentation
           else at_depth depth
             (then_eff (throw_when (\<lambda>s. r_stack s = []) (Exception ''Whoops, empty data''))
               (if \<not> type_and (nv_type V v) TypeHasNoString \<and> \<not> rs_present (nv_data V v)
                then throw (Exception ''Whoops, empty tag'')
                else bind_eff (view_value V v)
                  (view_switch E V source rec owned found v depth ind))))))"

definition view_root :: "('v, 'p, 'c) node_view \<Rightarrow> ('v, 'w) view_renderer \<Rightarrow> 'v \<Rightarrow> ('w, unit) rend" where
  "view_root V rec root =
     then_eff already_rendering
       (if \<not> nv_valid V root then throw (Exception ''Empty tree'')
        else then_eff (throw_when (\<lambda>s. r_data s = None) (Exception ''Empty data''))
          (with_output (\<lambda>b.
            then_eff (throw_when (\<lambda>s. length (r_strings s b) > maxOutputBytes (r_limits s)) output_limit)
              (then_eff (writes begin_render)
                (on_exit end_render
                  (then_eff (writes push_root_data) (rec root 0 absent_string False)))))))"

section \<open>The view of owned nodes\<close>

text \<open>
  \<open>OwnedNodeView\<close> is a pointer to a node. Its cursors are a pointer to the vector, which is null
  in a cursor made by the default constructor, and an index. That there is something to point at
  is an assertion in the code, and what the engine tests before it reads.
\<close>

record 'a vector_cursor =
  vc_vector :: "'a list option"
  vc_index :: nat

definition start_cursor :: "'a list \<Rightarrow> 'a vector_cursor" where
  "start_cursor xs = \<lparr>vc_vector = Some xs, vc_index = 0\<rparr>"

definition vector_cursor_valid :: "'a vector_cursor \<Rightarrow> bool" where
  "vector_cursor_valid c = (case vc_vector c of None \<Rightarrow> False | Some xs \<Rightarrow> vc_index c < length xs)"

definition vector_cursor_item :: "'a vector_cursor \<Rightarrow> 'a" where
  "vector_cursor_item c = the (vc_vector c) ! vc_index c"

definition vector_cursor_advance :: "'a vector_cursor \<Rightarrow> 'a vector_cursor" where
  "vector_cursor_advance c = c\<lparr>vc_index := vc_index c + 1\<rparr>"

definition vector_cursor_rest :: "'a vector_cursor \<Rightarrow> nat" where
  "vector_cursor_rest c = (case vc_vector c of None \<Rightarrow> 0 | Some xs \<Rightarrow> length xs - vc_index c)"

definition data_part_value :: "string vector_cursor \<Rightarrow> render_string" where
  "data_part_value c = fromOwned (Some (vector_cursor_item c))"

definition owned_originalSectionText :: "node option \<Rightarrow> render_string" where
  "owned_originalSectionText v =
     (case originalSectionText (the v) of None \<Rightarrow> absent_string | Some text \<Rightarrow> fromView text)"

definition owned_view :: "(node option, string vector_cursor, node option vector_cursor) node_view" where
  "owned_view =
     \<lparr>nv_null = None,
      nv_valid = (\<lambda>v. v \<noteq> None),
      nv_type = (\<lambda>v. ntype (the v)),
      nv_flags = (\<lambda>v. nflags (the v)),
      nv_data = (\<lambda>v. fromOwned (ndata (the v))),
      nv_dataParts = (\<lambda>v. start_cursor (dataParts (the v))),
      nv_children = (\<lambda>v. start_cursor (children (the v))),
      nv_containerChild = (\<lambda>v. child (the v)),
      nv_startSequence = (\<lambda>v. fromOwned (startSequence (the v))),
      nv_stopSequence = (\<lambda>v. fromOwned (stopSequence (the v))),
      nv_originalSectionText = owned_originalSectionText,
      parts_valid = vector_cursor_valid,
      parts_value = data_part_value,
      parts_advance = vector_cursor_advance,
      parts_bound = vector_cursor_rest,
      children_valid = vector_cursor_valid,
      children_value = vector_cursor_item,
      children_advance = vector_cursor_advance,
      children_bound = vector_cursor_rest\<rparr>"

text \<open>\<open>OwnedPartialSource::withPartial\<close> looks its three tables up with the owned key.\<close>

definition owned_view_partials ::
    "partial_lookup option \<Rightarrow> partial_map option \<Rightarrow> node option \<Rightarrow> node option view_partials" where
  "owned_view_partials resolver external root name =
     bind_result (owned_partials resolver external root (lookup_key name)) (\<lambda>p. Inr (map_option Some p))"

section \<open>Levels\<close>

text \<open>
  An engine renders the views it was started with and, for lambdas, owned nodes, both with the
  same partial source. The throw at level 0 is that of \<open>render_level\<close>.
\<close>

primrec view_level ::
    "'w render_env \<Rightarrow> ('v, 'p, 'c) node_view \<Rightarrow> 'v view_partials \<Rightarrow> nat
       \<Rightarrow> (node option, 'w) view_renderer \<times> ('v, 'w) view_renderer" where
  "view_level E V source 0 = (\<lambda>v depth ind metadata. throw nesting_limit, \<lambda>v depth ind metadata. throw nesting_limit)"
| "view_level E V source (Suc n) =
     (case view_level E V source n of (owned, rec) \<Rightarrow>
        let renderOwnedNode = (\<lambda>c depth ind. owned c depth (fromOwned ind)) in
        (view_body E owned_view source owned renderOwnedNode rec,
         view_body E V source rec renderOwnedNode rec))"

definition view_renderNode ::
    "'w render_env \<Rightarrow> ('v, 'p, 'c) node_view \<Rightarrow> 'v view_partials \<Rightarrow> ('v, 'w) view_renderer" where
  "view_renderNode E V source = snd (view_level E V source render_levels)"

section \<open>When a view sees a node\<close>

text \<open>
  The contract of a view: what it gives for a node is what the node holds, its cursors run
  through the name components and the children, and are through within their bounds.
\<close>

locale node_source =
  fixes V :: "('v, 'p, 'c) node_view"
    and sees :: "'v \<Rightarrow> node option \<Rightarrow> bool"
    and runs_parts :: "'p \<Rightarrow> string list \<Rightarrow> bool"
    and runs_children :: "'c \<Rightarrow> node option list \<Rightarrow> bool"
  assumes sees_null: "sees (nv_null V) None"
    and sees_valid: "sees v m \<Longrightarrow> nv_valid V v \<longleftrightarrow> m \<noteq> None"
    and sees_type: "sees v (Some n) \<Longrightarrow> nv_type V v = ntype n"
    and sees_flags: "sees v (Some n) \<Longrightarrow> nv_flags V v = nflags n"
    and sees_data: "sees v (Some n) \<Longrightarrow> stands_for (nv_data V v) (ndata n)"
    and sees_start: "sees v (Some n) \<Longrightarrow> stands_for (nv_startSequence V v) (startSequence n)"
    and sees_stop: "sees v (Some n) \<Longrightarrow> stands_for (nv_stopSequence V v) (stopSequence n)"
    and sees_text: "sees v (Some n) \<Longrightarrow> stands_for (nv_originalSectionText V v) (originalSectionText n)"
    and sees_container: "sees v (Some n) \<Longrightarrow> sees (nv_containerChild V v) (child n)"
    and sees_parts: "sees v (Some n) \<Longrightarrow> runs_parts (nv_dataParts V v) (dataParts n)"
    and sees_children: "sees v (Some n) \<Longrightarrow> runs_children (nv_children V v) (children n)"
    and parts_end: "runs_parts p [] \<Longrightarrow> \<not> parts_valid V p"
    and parts_step: "runs_parts p (x # xs) \<Longrightarrow> parts_valid V p \<and> lookup_key (parts_value V p) = x
                       \<and> runs_parts (parts_advance V p) xs"
    and parts_within: "runs_parts p xs \<Longrightarrow> length xs \<le> parts_bound V p"
    and children_end: "runs_children c [] \<Longrightarrow> \<not> children_valid V c"
    and children_step: "runs_children c (m # ms) \<Longrightarrow> children_valid V c \<and> sees (children_value V c) m
                          \<and> runs_children (children_advance V c) ms"
    and children_within: "runs_children c ms \<Longrightarrow> length ms \<le> children_bound V c"

text \<open>A renderer of views follows one of nodes when it does the same for a node the view sees.\<close>

definition follows ::
    "('v \<Rightarrow> node option \<Rightarrow> bool) \<Rightarrow> ('v, 'w) view_renderer \<Rightarrow> 'w node_renderer \<Rightarrow> bool" where
  "follows R vr rec \<longleftrightarrow> (\<forall>v c depth r metadata. R v c \<longrightarrow> vr v depth r metadata = rec c depth (rs_text r) metadata)"

definition sources_agree :: "('q \<Rightarrow> node option \<Rightarrow> bool) \<Rightarrow> 'q view_partials \<Rightarrow> partial_lookup \<Rightarrow> bool" where
  "sources_agree R source lookups \<longleftrightarrow>
     (\<forall>r name. stands_for r (Some name) \<longrightarrow> rel_sum (=) (rel_option (\<lambda>q n. R q (Some n))) (source r) (lookups name))"

lemma followsD: "follows R vr rec \<Longrightarrow> R v c \<Longrightarrow> vr v depth r metadata = rec c depth (rs_text r) metadata"
  by (simp add: follows_def)

lemma rs_text_absent [simp]: "rs_text absent_string = None" "rs_text (fromOwned t) = t"
  by (simp_all add: rs_text_def absent_string_def fromOwned_def split: option.split)

lemma bind_lift: "bind_eff (lift_result (Inl e)) f = throw e" "bind_eff (lift_result (Inr x)) f = f x"
  by (intro ext; simp add: eff_defs)+

lemma nesting_check_fails: "renderNestingCeiling \<le> depth \<Longrightarrow> then_eff (nesting_check depth) k = throw nesting_limit"
  by (intro ext) (simp add: nesting_check_def eff_defs)

text \<open>Values and tags are rendered from the type, the flags and the data of a node alone.\<close>

lemma renderValue_flags: "nflags n = nflags m \<Longrightarrow> renderValue E rec n = renderValue E rec m"
proof -
  assume f: "nflags n = nflags m"
  then have "append_value E n = append_value E m" by (intro ext) (simp add: append_value_def)
  moreover from this f have "renderValueLambda E rec n = renderValueLambda E rec m"
    by (intro ext) (simp add: renderValueLambda_def renderLambdaTemplate_def [of E rec n, abs_def]
        renderLambdaTemplate_def [of E rec m, abs_def] cong: if_cong)
  ultimately show ?thesis by (intro ext) (simp add: renderValue_def split: data.split option.split)
qed

lemma appendLambdaTag_head:
  "ntype n = ntype m \<Longrightarrow> nflags n = nflags m \<Longrightarrow> ndata n = ndata m \<Longrightarrow>
     appendLambdaTag mx start stop n out = appendLambdaTag mx start stop m out"
  by (simp add: appendLambdaTag_def append_tag_text_def requireNodeData_def Let_def)

context node_source begin

lemma seen_present: "sees v (Some n) \<Longrightarrow> rs_present (nv_data V v) \<longleftrightarrow> ndata n \<noteq> None"
  using sees_data stands_for_present by blast

lemma seen_data_text: "sees v (Some n) \<Longrightarrow> rs_text (nv_data V v) = ndata n"
  using sees_data by (simp add: stands_for_def)

lemma head_seen: "sees v (Some n) \<Longrightarrow> ntype (view_head V v) = ntype n \<and> nflags (view_head V v) = nflags n
    \<and> ndata (view_head V v) = ndata n"
  by (simp add: view_head_def sees_type sees_flags seen_data_text)

lemma metadata_seen: "sees v (Some n) \<Longrightarrow> view_indentation_metadata V v \<longleftrightarrow> indentation_metadata n"
  using sees_data [of v n]
  by (cases "ndata n") (auto simp: view_indentation_metadata_def indentation_metadata_def sees_type sees_flags stands_for_iff)

lemma seen_next: "runs_children c xs \<Longrightarrow> sees (next_child V c) (head_child xs)"
  by (cases xs) (auto simp: next_child_def head_child_def sees_null dest: children_end children_step)

lemma validate_seen:
  assumes "sees v c" and "sees v' c'"
  shows "rel_sum (=) stands_for (view_validatePartialIndentation V v v') (validatePartialIndentation c c')"
  using assms
  by (auto simp: view_validatePartialIndentation_def validatePartialIndentation_def sees_valid sees_flags sees_type
      metadata_seen sees_data split: option.splits)

text \<open>A step of a loop over children, in the order of the code: read, advance, look at the next.\<close>

lemma validate_cases:
  assumes "runs_children c (x # xs)"
  obtains e where "view_validatePartialIndentation V (children_value V c) (next_child V (children_advance V c)) = Inl e"
      "validatePartialIndentation x (head_child xs) = Inl e"
  | r t where "view_validatePartialIndentation V (children_value V c) (next_child V (children_advance V c)) = Inr r"
      "validatePartialIndentation x (head_child xs) = Inr t" "stands_for r t"
  using validate_seen [of "children_value V c" x "next_child V (children_advance V c)" "head_child xs"]
    children_step [OF assms] seen_next
  by (auto elim!: rel_sum.cases)

lemma validate_end: "validatePartialIndentation x None \<noteq> Inr (Some t)"
  by (simp add: validatePartialIndentation_def split: option.split)

lemma children_loop_seen:
  assumes vr: "follows sees vr rec"
  shows "runs_children c xs \<Longrightarrow> length xs \<le> n \<Longrightarrow> view_children_loop n V vr depth c = renderChildren rec depth xs"
proof (induction n arbitrary: c xs rule: less_induct)
  case (less n)
  note runs = less.prems(1)
  show ?case
  proof (cases xs)
    case Nil
    with runs show ?thesis by (cases n) (auto dest: children_end)
  next
    case (Cons x rest)
    with less.prems obtain k where n: "n = Suc k" by (cases n) auto
    let ?next = "next_child V (children_advance V c)"
    have step: "children_valid V c" "sees (children_value V c) x" "runs_children (children_advance V c) rest"
      using children_step runs Cons by auto
    have rest: "view_children_loop k V vr depth (children_advance V c) = renderChildren rec depth rest"
      using less.IH [of k] step(3) less.prems(2) Cons n by simp
    show ?thesis
    proof (rule validate_cases [of c x rest])
      fix r t
      assume v: "view_validatePartialIndentation V (children_value V c) ?next = Inr r"
        "validatePartialIndentation x (head_child rest) = Inr t" and r: "stands_for r t"
      show ?thesis
      proof (cases t)
        case None
        with v r step rest Cons n show ?thesis
          by (simp add: bind_lift followsD [OF vr] stands_for_present)
      next
        case (Some d)
        with v(2) obtain y ys where ys: "rest = y # ys" by (cases rest) (auto simp: head_child_def validate_end)
        then have "runs_children (children_advance V (children_advance V c)) ys" "sees ?next y"
          using step(3) seen_next [OF step(3)] children_step by (auto simp: head_child_def)
        moreover have "view_children_loop k V vr depth (children_advance V (children_advance V c)) = renderChildren rec depth ys"
          using less.IH [of k] calculation(1) less.prems(2) Cons n ys by simp
        ultimately show ?thesis
          using v r step Cons n ys Some
          by (simp add: bind_lift followsD [OF vr] stands_for_present head_child_def) (simp add: stands_for_def)
      qed
    qed (use runs Cons step n in \<open>simp_all add: bind_lift\<close>)
  qed
qed

lemma renderChildren_seen:
  "follows sees vr rec \<Longrightarrow> sees v (Some n) \<Longrightarrow> view_renderChildren V vr v depth = renderChildren rec depth (children n)"
  unfolding view_renderChildren_def
  by (rule children_loop_seen [OF _ sees_children children_within [OF sees_children]])

section \<open>Section text and lookups through a view\<close>

lemma append_loop_seen:
  assumes f: "\<And>v x out. x \<in> set xs \<Longrightarrow> sees v x \<Longrightarrow> vf v out = f x out"
  shows "runs_children c xs \<Longrightarrow> length xs \<le> n \<Longrightarrow> view_append_loop n V vf c out = append_children f xs out"
  using f
proof (induction xs arbitrary: n c out)
  case Nil
  then show ?case by (cases n) (auto dest: children_end)
next
  case (Cons x xs)
  then obtain k where n: "n = Suc k" by (cases n) auto
  have step: "children_valid V c" "sees (children_value V c) x" "runs_children (children_advance V c) xs"
    using children_step Cons.prems(1) by auto
  have "view_append_loop k V vf (children_advance V c) = append_children f xs"
    using Cons.IH [OF step(3)] Cons.prems(2,3) n by (intro ext) simp
  then show ?case
    using step n Cons.prems(3) [of x "children_value V c"]
    by (cases rule: validate_cases [OF Cons.prems(1)]) (auto simp: bind_lift)
qed

lemma append_children_seen:
  assumes "sees v (Some n)" and "\<And>v x out. x \<in> set (children n) \<Longrightarrow> sees v x \<Longrightarrow> vf v out = f x out"
  shows "view_append_children V vf v out = append_children f (children n) out"
  unfolding view_append_children_def
  by (rule append_loop_seen [OF assms(2) sees_children children_within [OF sees_children]]) (use assms(1) in auto)

lemma append_level_seen:
  "sees v c \<Longrightarrow> renderNestingCeiling < n + depth \<Longrightarrow> 0 < n \<Longrightarrow>
     view_append_level n V mx start stop depth v out = (appendLambdaNodeTemplate mx start stop depth c out :: ('w, string) rend)"
proof (induction n arbitrary: depth v c out)
  case 0
  then show ?case by simp
next
  case (Suc n)
  show ?case
  proof (cases c)
    case None
    with Suc.prems(1) show ?thesis by (simp add: sees_valid appendLambdaNodeTemplate.simps)
  next
    case (Some m)
    with Suc.prems(1) have seen: "sees v (Some m)" and valid: "nv_valid V v" by (auto simp: sees_valid)
    show ?thesis
    proof (cases "renderNestingCeiling \<le> depth")
      case True
      with Some valid show ?thesis by (simp add: appendLambdaNodeTemplate.simps nesting_check_fails)
    next
      case False
      with Suc.prems(2) have deeper: "renderNestingCeiling < n + Suc depth" "0 < n" by auto
      have kids: "view_append_children V (view_append_level n V mx start stop (Suc depth)) v out' =
          (append_children (appendLambdaNodeTemplate mx start stop (Suc depth)) (children m) out' :: ('w, string) rend)" for out'
        by (rule append_children_seen [OF seen]) (rule Suc.IH [OF _ deeper])
      show ?thesis
        using valid head_seen [OF seen] seen_present [OF seen] sees_type [OF seen] Some
        by (simp add: appendLambdaNodeTemplate.simps kids appendLambdaTag_head [of "view_head V v" m] cong: if_cong)
    qed
  qed
qed

lemma appendLambdaNodeTemplate_seen:
  "sees v c \<Longrightarrow> view_appendLambdaNodeTemplate V mx start stop depth v out = appendLambdaNodeTemplate mx start stop depth c out"
  unfolding view_appendLambdaNodeTemplate_def by (rule append_level_seen) simp_all

lemma section_child_seen:
  "sees v c \<Longrightarrow> view_section_child V mx start stop depth v out = section_child mx start stop depth c out"
  by (cases c) (simp_all add: view_section_child_def section_child_def sees_valid sees_type appendLambdaNodeTemplate_seen)

lemma lambdaSectionText_seen:
  assumes "sees v (Some n)"
  shows "view_lambdaSectionText V mx v start stop depth = lambdaSectionText mx n start stop depth"
  using sees_text [OF assms] append_children_seen [OF assms section_child_seen]
  by (cases "originalSectionText n") (simp_all add: view_lambdaSectionText_def lambdaSectionText_def stands_for_iff)

lemma walk_parts_seen:
  "runs_parts p xs \<Longrightarrow> length xs \<le> n \<Longrightarrow> view_walk_parts n V reference p = walk_parts reference xs"
proof (induction xs arbitrary: n p reference)
  case Nil
  then show ?case by (cases n; cases reference) (auto dest: parts_end)
next
  case (Cons x xs)
  then obtain k where "n = Suc k" by (cases n) auto
  with Cons parts_step [OF Cons.prems(1)] show ?case by (cases reference) auto
qed

lemma lookup_seen:
  assumes "sees v (Some n)"
  shows "view_lookup V strict contexts v = data_lookup strict contexts n"
proof -
  let ?p = "nv_dataParts V v"
  have runs: "runs_parts ?p (dataParts n)" using assms by (rule sees_parts)
  have parts: "view_walk_parts (parts_bound V ?p) V
        (search_contexts (lookup_key (if parts_valid V ?p then parts_value V ?p else nv_data V v)) contexts)
        (if parts_valid V ?p then parts_advance V ?p else ?p)
      = (case dataParts n of [] \<Rightarrow> search_contexts name contexts | p # ps \<Rightarrow> walk_parts (search_contexts p contexts) ps)"
    if "ndata n = Some name" for name
  proof (cases "dataParts n")
    case Nil
    then have "\<not> parts_valid V ?p" "walk_parts r [] = r" for r using runs parts_end by (auto, cases r) auto
    with Nil runs that sees_data [OF assms] show ?thesis
      by (simp add: walk_parts_seen [of _ "[]"] stands_for_iff)
  next
    case (Cons x xs)
    with runs parts_step [of ?p x xs] parts_within [OF runs] show ?thesis
      by (simp add: walk_parts_seen [of _ xs])
  qed
  show ?thesis
    using sees_data [OF assms] parts
    by (cases "ndata n") (auto simp: view_lookup_def data_lookup_def stands_for_iff Let_def)
qed

section \<open>Nodes through a view\<close>

lemma value_seen: "sees v (Some n) \<Longrightarrow> view_value V v = node_value n"
  by (simp add: view_value_def node_value_def sees_type lookup_seen)

lemma renderSectionLambda_seen:
  assumes "sees v (Some n)"
  shows "view_renderSectionLambda E V rec v l depth = renderSectionLambda E rec n l depth"
  using sees_start [OF assms] sees_stop [OF assms] sees_flags [OF assms]
  by (cases "startSequence n"; cases "stopSequence n")
    (simp_all add: view_renderSectionLambda_def renderSectionLambda_def stands_for_iff lambdaSectionText_seen [OF assms] Let_def)

lemma renderSection_seen:
  "sees v (Some n) \<Longrightarrow> view_renderSection E V rec v value depth k = renderSection E rec n value depth k"
  by (simp add: view_renderSection_def renderSection_def renderSectionLambda_seen split: data.split)

lemma renderPartial_seen:
  assumes seen: "sees v (Some n)" and found: "follows R vf rec" and sources: "sources_agree R source lookups"
  shows "view_renderPartial E V source vf v depth r = renderPartial E lookups rec n depth (rs_text r)"
proof (cases "ndata n")
  case None
  with seen show ?thesis by (simp add: view_renderPartial_def renderPartial_def seen_present)
next
  case (Some name)
  with sees_data [OF seen] sources have "rel_sum (=) (rel_option (\<lambda>q n. R q (Some n))) (source (nv_data V v)) (lookups name)"
    by (auto simp: sources_agree_def)
  then have "bind_eff (lift_result (source (nv_data V v))) (case_option (ret ()) (\<lambda>q. with_indentation indentation (vf q (Suc depth) absent_string False)))
      = bind_eff (lift_result (lookups name)) (case_option (ret ()) (\<lambda>q. with_indentation indentation (rec (Some q) (Suc depth) None False)))" for indentation
    by (cases rule: rel_sum.cases)
      (auto simp: bind_lift followsD [OF found] elim!: option.rel_cases)
  with seen Some show ?thesis by (simp add: view_renderPartial_def renderPartial_def seen_present)
qed

lemma switch_seen:
  assumes seen: "sees v (Some n)" and rec: "follows sees vr rec" and "follows R vf rec"
    and "sources_agree R source lookups"
  shows "view_switch E V source vr rec vf v depth r = renderNode_switch E lookups rec n depth (rs_text r)"
proof
  fix found
  have there: "rs_present (nv_data V v) \<Longrightarrow> ndata n = Some (rs_value (nv_data V v))" "\<not> rs_present (nv_data V v) \<Longrightarrow> ndata n = None"
    using seen_data_text [OF seen] by (simp_all add: rs_text_def)
  have container: "nv_valid V (nv_containerChild V v) \<longleftrightarrow> child n \<noteq> None"
    "vr (nv_containerChild V v) d absent_string False = rec (child n) d None False" for d
    using sees_container [OF seen] sees_valid followsD [OF rec] by auto
  note same = renderChildren_seen [OF rec seen] renderSection_seen [OF seen] renderPartial_seen [OF seen assms(3,4)]
    renderValue_flags [of "view_head V v" n] sees_type [OF seen] sees_flags [OF seen] head_seen [OF seen] container
  show "view_switch E V source vr rec vf v depth r found = renderNode_switch E lookups rec n depth (rs_text r) found"
    using there by (cases "ntype n") (auto simp: view_switch_def renderNode_switch_def Let_def same split: option.split)
qed

lemma body_follows:
  assumes "follows sees vr rec" and "follows R vf rec" and "sources_agree R source lookups"
  shows "follows sees (view_body E V source vr rec vf) (renderNode_body E lookups rec)"
  unfolding follows_def
proof (intro allI impI)
  fix v c depth r metadata
  assume seen: "sees v c"
  show "view_body E V source vr rec vf v depth r metadata = renderNode_body E lookups rec c depth (rs_text r) metadata"
  proof (cases c)
    case None
    with seen show ?thesis by (simp add: view_body_def renderNode_body_def sees_valid)
  next
    case (Some n)
    with seen have n: "sees v (Some n)" and valid: "nv_valid V v" by (auto simp: sees_valid)
    with Some show ?thesis
      by (auto simp: view_body_def renderNode_body_def sees_type sees_flags seen_present metadata_seen value_seen
          switch_seen [OF n assms])
  qed
qed

lemma root_seen:
  assumes "follows sees vr rec" and "sees v c"
  shows "view_root V vr v = renderRoot rec c"
  using sees_valid [OF assms(2)] followsD [OF assms] by (simp add: view_root_def renderRoot_def)

end

section \<open>Owned nodes\<close>

definition vector_run :: "'a vector_cursor \<Rightarrow> 'a list \<Rightarrow> bool" where
  "vector_run c xs \<longleftrightarrow> (\<exists>ys. vc_vector c = Some ys \<and> xs = drop (vc_index c) ys)"

lemma vector_run_start [simp]: "vector_run (start_cursor xs) xs"
  by (simp add: vector_run_def start_cursor_def)

lemma vector_run_end: "vector_run c [] \<Longrightarrow> \<not> vector_cursor_valid c"
  by (auto simp: vector_run_def vector_cursor_valid_def)

lemma vector_run_step:
  "vector_run c (x # xs) \<Longrightarrow> vector_cursor_valid c \<and> vector_cursor_item c = x \<and> vector_run (vector_cursor_advance c) xs"
proof -
  assume "vector_run c (x # xs)"
  then obtain ys where ys: "vc_vector c = Some ys" "drop (vc_index c) ys = x # xs" by (auto simp: vector_run_def)
  then have "vc_index c < length ys" by (metis drop_all linorder_not_le list.distinct(1))
  moreover from this ys(2) have "ys ! vc_index c = x" "drop (Suc (vc_index c)) ys = xs"
    by (simp_all add: Cons_nth_drop_Suc [symmetric])
  ultimately show ?thesis
    using ys(1) by (simp add: vector_run_def vector_cursor_valid_def vector_cursor_item_def vector_cursor_advance_def)
qed

lemma vector_run_within: "vector_run c xs \<Longrightarrow> length xs \<le> vector_cursor_rest c"
  by (auto simp: vector_run_def vector_cursor_rest_def)

interpretation owned: node_source owned_view "(=)" vector_run vector_run
proof
  show "stands_for (nv_originalSectionText owned_view v) (originalSectionText n)" if "v = Some n" for v n
    using that by (simp add: owned_view_def owned_originalSectionText_def split: option.split)
  show "parts_valid owned_view p \<and> lookup_key (parts_value owned_view p) = x \<and> vector_run (parts_advance owned_view p) xs"
    if "vector_run p (x # xs)" for p x xs
    using vector_run_step [OF that] by (simp add: owned_view_def data_part_value_def fromOwned_def lookup_key_def)
qed (auto simp: owned_view_def vector_run_within dest: vector_run_end vector_run_step)

lemma owned_sources_agree:
  "sources_agree (=) (owned_view_partials resolver external root) (owned_partials resolver external root)"
  unfolding sources_agree_def
proof (intro allI impI)
  fix r name
  assume "stands_for r (Some name)"
  then have "lookup_key r = name" by (simp add: stands_for_iff)
  then show "rel_sum (=) (rel_option (\<lambda>q n. q = Some n))
      (owned_view_partials resolver external root r) (owned_partials resolver external root name)"
    by (cases "owned_partials resolver external root name")
      (simp_all add: owned_view_partials_def option.rel_map option.rel_refl)
qed

section \<open>Rendering through a view\<close>

context node_source begin

lemma level_follows:
  assumes sources: "sources_agree sees source lookups"
  shows "follows (=) (fst (view_level E V source n)) (render_level E lookups n)
     \<and> follows sees (snd (view_level E V source n)) (render_level E lookups n)"
proof (induction n)
  case 0
  show ?case by (simp add: follows_def)
next
  case (Suc n)
  obtain vo vr where level: "view_level E V source n = (vo, vr)" by (cases "view_level E V source n")
  with Suc.IH have vo: "follows (=) vo (render_level E lookups n)" and vr: "follows sees vr (render_level E lookups n)"
    by simp_all
  have same: "(\<lambda>c depth ind. vo c depth (fromOwned ind)) = render_level E lookups n"
    by (intro ext) (simp add: followsD [OF vo])
  show ?case
    using owned.body_follows [OF vo vr sources] body_follows [OF vr vr sources] by (simp add: level same Let_def)
qed

lemma renders_seen:
  assumes "sources_agree sees source lookups" and "sees v c"
  shows "view_root V (view_renderNode E V source) v = renderRoot (renderNode E lookups) c"
  unfolding view_renderNode_def renderNode_def
  by (rule root_seen [OF _ assms(2)]) (use level_follows [OF assms(1)] in blast)

end

text \<open>\<open>Renderer::render\<close> through the views of its owned tree and partials.\<close>

definition owned_render :: "'w render_env \<Rightarrow> ('w, unit) rend" where
  "owned_render E =
     bind_eff (reads (\<lambda>s. owned_view_partials (r_partialResolver s) (r_partials s) (r_node s))) (\<lambda>source.
     bind_eff (reads r_node) (view_root owned_view (view_renderNode E owned_view source)))"

text \<open>
  C30. The engine as the template it is, instantiated with the view of owned nodes, renders as the
  traversal over trees does: reading through the view, running its two cursors, looking up with
  borrowed strings and switching to owned views for the templates of lambdas make no
  difference to the result, the output or any effect, and no cursor loop is cut short.
\<close>

theorem owned_render_iff: "owned_render E = renderer_render E"
  by (intro ext) (simp add: owned_render_def renderer_render_def bind_eff_def reads_def
      owned.renders_seen [OF owned_sources_agree refl])

end
