(* ===== verification/Archive_View.thy ===== *)
theory Archive_View
  imports Node_View Archive_Build_Props Archive
begin

text \<open>
  The view of archives the render engine is instantiated with: \<open>ArchiveNodeView\<close>, its two cursors
  and \<open>ArchivePartialSource\<close> of src/archive/cista.cpp, as a \<open>node_view\<close>. It provides \<open>node_source\<close>
  for every archive the validator has accepted, so that rendering in place, through indices and
  sibling links, is rendering the trees \<open>archive_view\<close> describes.
\<close>

section \<open>The operations of the view\<close>

record archive_node_view =
  view_graph :: "archive_graph option"
  view_index :: "32 word"

record archive_child_cursor =
  cursor_graph :: "archive_graph option"
  cursor_index :: "32 word"

definition null_archive_view :: archive_node_view where
  "null_archive_view = \<lparr>view_graph = None, view_index = invalidIndex\<rparr>"

definition view_of_index :: "archive_graph option \<Rightarrow> 32 word \<Rightarrow> archive_node_view" where
  "view_of_index g index = \<lparr>view_graph = g, view_index = index\<rparr>"

definition archive_view_valid :: "archive_node_view \<Rightarrow> bool" where
  "archive_view_valid v \<longleftrightarrow> view_graph v \<noteq> None \<and> view_index v \<noteq> invalidIndex"

text \<open>The graph a valid view points to, and its node.\<close>

definition viewed_graph :: "archive_node_view \<Rightarrow> archive_graph" where
  "viewed_graph v = the (view_graph v)"

definition viewed_node :: "archive_node_view \<Rightarrow> archive_node" where
  "viewed_node v = graph_node (viewed_graph v) (view_index v)"

definition viewed_string :: "archive_node_view \<Rightarrow> archive_slice \<Rightarrow> 8 word \<Rightarrow> render_string" where
  "viewed_string v w presence =
     (if \<not> has_presence (viewed_node v) presence then absent_string
      else fromView (archiveSliceView (viewed_graph v) w))"

definition archive_children :: "archive_node_view \<Rightarrow> archive_child_cursor" where
  "archive_children v = \<lparr>cursor_graph = view_graph v, cursor_index = an_firstChild (viewed_node v)\<rparr>"

definition archive_cursor_valid :: "archive_child_cursor \<Rightarrow> bool" where
  "archive_cursor_valid c \<longleftrightarrow> cursor_graph c \<noteq> None \<and> cursor_index c \<noteq> invalidIndex"

definition archive_cursor_value :: "archive_child_cursor \<Rightarrow> archive_node_view" where
  "archive_cursor_value c = view_of_index (cursor_graph c) (cursor_index c)"

definition archive_cursor_advance :: "archive_child_cursor \<Rightarrow> archive_child_cursor" where
  "archive_cursor_advance c =
     c\<lparr>cursor_index := an_nextSibling (graph_node (the (cursor_graph c)) (cursor_index c))\<rparr>"

definition archive_cursor_bound :: "archive_child_cursor \<Rightarrow> nat" where
  "archive_cursor_bound c = (case cursor_graph c of None \<Rightarrow> 0 | Some g \<Rightarrow> length (ag_nodes g))"

definition archive_node_ops :: "(archive_node_view, part_cursor, archive_child_cursor) node_view" where
  "archive_node_ops =
     \<lparr>nv_null = null_archive_view,
      nv_valid = archive_view_valid,
      nv_type = (\<lambda>v. node_type_of (viewed_node v)),
      nv_flags = (\<lambda>v. node_flags_of (viewed_node v)),
      nv_data = (\<lambda>v. viewed_string v (an_data (viewed_node v)) HasData),
      nv_dataParts = (\<lambda>v. view_dataParts (viewed_graph v) (viewed_node v)),
      nv_children = archive_children,
      nv_containerChild = (\<lambda>v. null_archive_view),
      nv_startSequence = (\<lambda>v. viewed_string v (an_startSequence (viewed_node v)) HasStartSequence),
      nv_stopSequence = (\<lambda>v. viewed_string v (an_stopSequence (viewed_node v)) HasStopSequence),
      nv_originalSectionText = (\<lambda>v. viewed_string v (an_originalSectionText (viewed_node v)) HasOriginalSectionText),
      parts_valid = pc_valid,
      parts_value = (\<lambda>c. fromView (part_value c)),
      parts_advance = part_advance,
      parts_bound = (\<lambda>c. Suc (length (pc_value c))),
      children_valid = archive_cursor_valid,
      children_value = archive_cursor_value,
      children_advance = archive_cursor_advance,
      children_bound = archive_cursor_bound\<rparr>"

text \<open>\<open>ArchivePartialSource::withPartial\<close>: it compares the string itself, owned or not.\<close>

definition archive_view_partials :: "archive_graph \<Rightarrow> archive_node_view view_partials" where
  "archive_view_partials g name =
     (case archive_partial_lower_bound g (rs_value name) of
        [] \<Rightarrow> Inr None
      | p # _ \<Rightarrow>
          if archiveSliceView g (ap_name p) \<noteq> rs_value name then Inr None
          else Inr (Some (view_of_index (Some g) (ap_root p))))"

text \<open>\<open>renderProtectedArchive\<close> as the code has it: the engine over the view of the root.\<close>

definition render_in_place ::
    "'w render_env \<Rightarrow> archive_graph \<Rightarrow> data \<Rightarrow> render_limits \<Rightarrow> LambdaStringMode \<Rightarrow> ('w, string) rend" where
  "render_in_place E g data limits mode =
     bind_eff new_string (\<lambda>out.
       then_eff (archived_setup mode data limits out)
         (then_eff (view_root archive_node_ops
                      (view_renderNode E archive_node_ops (archive_view_partials g))
                      (view_of_index (Some g) (ag_root g)))
           (reads (\<lambda>s. r_strings s out))))"

section \<open>The cursor over name components\<close>

definition part_run :: "part_cursor \<Rightarrow> string list \<Rightarrow> bool" where
  "part_run c xs \<longleftrightarrow>
     (if pc_valid c
      then xs = pieces (drop (pc_start c) (pc_value c)) \<and> pc_stop c = find_dot (pc_value c) (pc_start c)
      else xs = [])"

lemma part_run_end: "part_run c [] \<Longrightarrow> \<not> pc_valid c"
  by (auto simp: part_run_def eq_commute [of "[]"])

lemma part_run_step: "part_run c (x # xs) \<Longrightarrow> pc_valid c \<and> part_value c = x \<and> part_run (part_advance c) xs"
proof -
  assume "part_run c (x # xs)"
  then have valid: "pc_valid c" and ps: "pieces (drop (pc_start c) (pc_value c)) = x # xs"
    and stop: "pc_stop c = find_dot (pc_value c) (pc_start c)"
    by (auto simp: part_run_def split: if_splits)
  show ?thesis
  proof (cases "find_idx (\<lambda>c. c = CHR ''.'') (drop (pc_start c) (pc_value c))")
    case None
    with ps valid stop show ?thesis
      by (auto simp: find_dot_def find_from_def part_value_def part_advance_def pieces_None part_run_def
          simp flip: length_drop)
  next
    case (Some i)
    with ps valid stop show ?thesis
      by (auto simp: find_dot_def find_from_def part_value_def part_advance_def pieces_Some part_run_def ac_simps)
  qed
qed

lemma part_run_within: "part_run c xs \<Longrightarrow> length xs \<le> Suc (length (pc_value c))"
proof -
  have "length (pieces v) \<le> Suc (length v)" for v
    by (induction v rule: pieces.induct) (auto split: list.split)
  from this [of "drop (pc_start c) (pc_value c)"] show "part_run c xs \<Longrightarrow> ?thesis"
    by (auto simp: part_run_def split: if_splits)
qed

lemma part_run_values: "part_run c xs \<Longrightarrow> length xs \<le> n \<Longrightarrow> cursor_values n c = xs"
proof (induction xs arbitrary: n c)
  case Nil
  then show ?case using part_run_end by (cases n) auto
next
  case (Cons x xs)
  then obtain k where "n = Suc k" by (cases n) auto
  with Cons part_run_step [OF Cons.prems(1)] show ?case by simp
qed

lemma view_dataParts_run:
  "part_run (view_dataParts g n) (cursor_values (data_part_count (archiveSliceView g (an_data n))) (view_dataParts g n))"
proof -
  obtain xs where xs: "part_run (view_dataParts g n) xs" "length xs \<le> data_part_count (archiveSliceView g (an_data n))"
  proof (cases "pc_valid (view_dataParts g n)")
    case True
    with that [of "pieces (archiveSliceView g (an_data n))"] show ?thesis
      by (auto simp: view_dataParts_def part_run_def first_part_def no_parts_def length_pieces split: if_splits)
  qed (use that [of "[]"] in \<open>simp add: part_run_def\<close>)
  then show ?thesis by (simp add: part_run_values)
qed

section \<open>What the view of an accepted archive sees\<close>

text \<open>The tree at an index, and the trees of accepted nodes, which the view of the index sees.\<close>

primrec tree_view :: "archive_graph \<Rightarrow> itree \<Rightarrow> node" where
  "tree_view g (ITree i us) = view_node g (graph_node g i) (map (tree_view g) us)"

lemma chain_view:
  "chain_at g i ts \<Longrightarrow> length (chain_indices ts) \<le> m \<Longrightarrow> view_children m g i = map (tree_view g) ts"
proof (induction g i ts arbitrary: m rule: chain_at.induct)
  case (1 g i)
  then show ?case by (cases m) auto
next
  case (2 g i j us ts)
  then obtain k where "m = Suc k" by (cases m) auto
  with 2 show ?case by simp
qed

definition accepted_chain :: "archive_graph \<Rightarrow> 32 word \<Rightarrow> itree list \<Rightarrow> bool" where
  "accepted_chain g i ts \<longleftrightarrow> chain_at g i ts \<and> length (chain_indices ts) \<le> length (ag_nodes g)
     \<and> (\<exists>L depth. chain_ok g L depth ts)"

definition accepted_tree :: "archive_graph \<Rightarrow> itree \<Rightarrow> bool" where
  "accepted_tree g t \<longleftrightarrow> root_index t \<noteq> invalidIndex
     \<and> accepted_chain g (an_firstChild (graph_node g (root_index t))) (subtrees t)
     \<and> (\<exists>metadata. fields_ok g (graph_node g (root_index t)) metadata)"

lemma accepted_chain_Cons:
  "accepted_chain g i (t # ts) \<Longrightarrow> i = root_index t \<and> accepted_tree g t
     \<and> accepted_chain g (an_nextSibling (graph_node g i)) ts"
  by (cases t) (auto simp: accepted_chain_def accepted_tree_def)

definition archive_sees :: "archive_node_view \<Rightarrow> node option \<Rightarrow> bool" where
  "archive_sees v m \<longleftrightarrow>
     (case m of
        None \<Rightarrow> \<not> archive_view_valid v
      | Some n \<Rightarrow> \<exists>g t. v = view_of_index (Some g) (root_index t) \<and> accepted_tree g t \<and> n = tree_view g t)"

definition archive_runs :: "archive_child_cursor \<Rightarrow> node option list \<Rightarrow> bool" where
  "archive_runs c ms \<longleftrightarrow> (\<exists>g ts. cursor_graph c = Some g \<and> accepted_chain g (cursor_index c) ts
     \<and> ms = map (\<lambda>t. Some (tree_view g t)) ts)"

lemma archive_runs_end: "archive_runs c [] \<Longrightarrow> \<not> archive_cursor_valid c"
  by (auto simp: archive_runs_def archive_cursor_valid_def accepted_chain_def)

lemma archive_runs_step:
  assumes "archive_runs c (m # ms)"
  shows "archive_cursor_valid c \<and> archive_sees (archive_cursor_value c) m \<and> archive_runs (archive_cursor_advance c) ms"
proof -
  from assms obtain g t ts where g: "cursor_graph c = Some g" and run: "accepted_chain g (cursor_index c) (t # ts)"
    and m: "m = Some (tree_view g t)" "ms = map (\<lambda>t. Some (tree_view g t)) ts"
    by (auto simp: archive_runs_def)
  from accepted_chain_Cons [OF run] have "cursor_index c = root_index t" "accepted_tree g t"
    "accepted_chain g (an_nextSibling (graph_node g (cursor_index c))) ts"
    by auto
  with g m show ?thesis
    by (auto simp: archive_cursor_valid_def archive_cursor_value_def archive_cursor_advance_def archive_runs_def
        archive_sees_def accepted_tree_def)
qed

lemma length_chain_indices: "length ts \<le> length (chain_indices ts)"
  by (induction ts rule: chain_indices.induct) auto

lemma archive_runs_within: "archive_runs c ms \<Longrightarrow> length ms \<le> archive_cursor_bound c"
  by (auto simp: archive_runs_def archive_cursor_bound_def accepted_chain_def intro: le_trans [OF length_chain_indices])

text \<open>A node seen, field by field.\<close>

lemma archive_seen:
  assumes "archive_sees v (Some n)"
  obtains g us where "view_graph v = Some g" "accepted_tree g (ITree (view_index v) us)"
    "n = view_node g (viewed_node v) (map (tree_view g) us)"
proof -
  from assms obtain g t where "v = view_of_index (Some g) (root_index t)" "accepted_tree g t" "n = tree_view g t"
    by (auto simp: archive_sees_def)
  with that show ?thesis by (cases t) (simp add: view_of_index_def viewed_node_def viewed_graph_def)
qed

lemma viewed_string_stands:
  "view_graph v = Some g \<Longrightarrow> stands_for (viewed_string v w presence) (view_string g (viewed_node v) w presence)"
  by (simp add: viewed_string_def view_string_def viewed_graph_def)

lemma viewed_text:
  assumes "archive_sees v (Some n)"
  shows "stands_for (viewed_string v (an_originalSectionText (viewed_node v)) HasOriginalSectionText) (originalSectionText n)"
proof -
  obtain g us where g: "view_graph v = Some g" and t: "accepted_tree g (ITree (view_index v) us)"
    and n: "n = view_node g (viewed_node v) (map (tree_view g) us)"
    using assms by (rule archive_seen)
  have node: "viewed_node v = graph_node g (view_index v)" by (simp add: viewed_node_def viewed_graph_def g)
  have "\<not> invalid_section_text (viewed_node v)"
    using t by (auto simp: accepted_tree_def fields_ok_def node)
  then have "originalSectionText n = view_originalSectionText g (viewed_node v)"
    by (auto simp: n originalSectionText_def view_node_def view_originalSectionText_def view_string_def
        invalid_section_text_def split: option.split)
  then show ?thesis using viewed_string_stands [OF g] by (simp add: view_originalSectionText_def)
qed

interpretation archived: node_source archive_node_ops archive_sees part_run archive_runs
proof
  fix v m
  show "archive_sees v m \<Longrightarrow> nv_valid archive_node_ops v \<longleftrightarrow> m \<noteq> None"
    by (auto simp: archive_sees_def archive_node_ops_def archive_view_valid_def view_of_index_def accepted_tree_def
        split: option.splits)
next
  fix v n
  assume seen: "archive_sees v (Some n)"
  then obtain g us where g: "view_graph v = Some g" and t: "accepted_tree g (ITree (view_index v) us)"
    and n: "n = view_node g (viewed_node v) (map (tree_view g) us)"
    by (rule archive_seen)
  note at = n view_node_def viewed_graph_def g archive_node_ops_def
  show "nv_type archive_node_ops v = ntype n" "nv_flags archive_node_ops v = nflags n" by (simp_all add: at)
  show "stands_for (nv_data archive_node_ops v) (ndata n)"
    "stands_for (nv_startSequence archive_node_ops v) (startSequence n)"
    "stands_for (nv_stopSequence archive_node_ops v) (stopSequence n)"
    using viewed_string_stands [OF g]
    by (simp_all add: at view_data_def view_startSequence_def view_stopSequence_def)
  show "stands_for (nv_originalSectionText archive_node_ops v) (originalSectionText n)"
    using viewed_text [OF seen] by (simp add: archive_node_ops_def)
  show "archive_sees (nv_containerChild archive_node_ops v) (child n)"
    by (simp add: at archive_sees_def null_archive_view_def archive_view_valid_def)
  show "part_run (nv_dataParts archive_node_ops v) (dataParts n)"
    using view_dataParts_run by (simp add: at)
  show "archive_runs (nv_children archive_node_ops v) (children n)"
    using t by (auto simp: at archive_children_def archive_runs_def accepted_tree_def viewed_node_def)
next
  fix p x xs
  assume "part_run p (x # xs)"
  from part_run_step [OF this] show "parts_valid archive_node_ops p \<and> lookup_key (parts_value archive_node_ops p) = x
      \<and> part_run (parts_advance archive_node_ops p) xs"
    by (simp add: archive_node_ops_def fromView_def lookup_key_def)
qed (auto simp: archive_node_ops_def archive_sees_def null_archive_view_def archive_view_valid_def part_run_within
  archive_runs_within dest: part_run_end archive_runs_end archive_runs_step)

section \<open>Rendering in place\<close>

lemma accepted_archive_view: "accepted_tree g t \<Longrightarrow> archive_view g (root_index t) = tree_view g t"
  by (cases t) (auto simp: archive_view_def accepted_tree_def accepted_chain_def chain_view)

lemma accepted_tree_seen:
  "accepted_tree g t \<Longrightarrow> root_index t = i \<Longrightarrow> archive_sees (view_of_index (Some g) i) (Some (archive_view g i))"
  unfolding archive_sees_def using accepted_archive_view by fastforce

lemma well_formed_tree_accepted:
  assumes "itree_at g t" and "itree_ok g L t" and "distinct (itree_indices t)" and "length (ag_nodes g) < 2 ^ 32"
  shows "accepted_tree g t"
proof -
  have "length (itree_indices t) \<le> length (ag_nodes g)"
    using itree_at_bound [OF assms(1)] by (intro indices_fit assms(3))
  moreover have "root_index t \<noteq> invalidIndex"
    using assms(1,4) by (auto simp: itree_at_def invalidIndex_def)
  ultimately show ?thesis
    using assms(1,2)
    by (auto simp: accepted_tree_def accepted_chain_def itree_at_def itree_ok_def itree_indices_def Let_def)
qed

text \<open>The node table of a cista vector has a 32-bit size.\<close>

lemma accepted_archive_seen:
  assumes "archive_well_formed g L" and small: "length (ag_nodes g) < 2 ^ 32" and "i \<in> set (ag_root g # map ap_root (ag_partials g))"
  shows "archive_sees (view_of_index (Some g) i) (Some (archive_view g i))"
proof -
  obtain t ts where trees: "archive_trees g t ts" and ok: "list_all (itree_ok g L) (t # ts)"
    using assms(1) by (auto simp: archive_well_formed_def)
  from trees have "map root_index (t # ts) = ag_root g # map ap_root (ag_partials g)"
    by (simp add: archive_trees_def)
  with assms(3) have "i \<in> set (map root_index (t # ts))" by metis
  then obtain u where u: "u \<in> set (t # ts)" "root_index u = i" by auto
  with trees have "itree_at g u" "distinct (itree_indices u)"
    by (auto simp: archive_trees_def list_all_iff distinct_concat_iff)
  with u ok small show ?thesis
    by (intro accepted_tree_seen [of g u] well_formed_tree_accepted [of g u L]) (auto simp: list_all_iff)
qed

lemma archive_sources_agree:
  assumes "archive_well_formed g L" and "length (ag_nodes g) < 2 ^ 32"
  shows "sources_agree archive_sees (archive_view_partials g) (archive_partials g)"
  unfolding sources_agree_def
proof (intro allI impI)
  fix r name
  assume "stands_for r (Some name)"
  then have name: "rs_value r = name" by (simp add: stands_for_iff)
  have "archive_sees (view_of_index (Some g) (ap_root p)) (Some (archive_view g (ap_root p)))"
    if "archive_partial_lower_bound g name = p # ps" for p ps
  proof -
    have "p \<in> set (ag_partials g)"
      using that set_dropWhileD [of p _ "ag_partials g"] by (metis archive_partial_lower_bound_def list.set_intros(1))
    then show ?thesis by (intro accepted_archive_seen [OF assms]) simp
  qed
  then show "rel_sum (=) (rel_option (\<lambda>q n. archive_sees q (Some n))) (archive_view_partials g r) (archive_partials g name)"
    by (auto simp: archive_view_partials_def archive_partials_def name split: list.split)
qed

text \<open>
  C14. An archive the validator accepted is rendered in place as the trees it describes: the engine
  over views of the node table, with sibling links for children, a cursor over the stored name
  for its components and the sorted index for partials, has the result, output and effects of
  the traversal over trees. The loops over its cursors end where the chains do: the bounds the
  model gives them make no difference.
\<close>

theorem accepted_archive_renders_in_place:
  assumes "validateArchive g limits inputBytes context = Inr ()" and "length (ag_nodes g) < 2 ^ 32"
  shows "render_in_place E g data rl mode = renderProtectedArchive E g data rl mode"
proof -
  have wf: "archive_well_formed g limits"
    using assms(1) archive_checks_iff [of g limits "context" inputBytes]
    by (auto simp: validateArchive_def bind_result_Inr_iff Let_def)
  show ?thesis
    by (simp add: render_in_place_def renderProtectedArchive_def
        archived.renders_seen [OF archive_sources_agree [OF wf assms(2)] accepted_archive_seen [OF wf assms(2)]])
qed

end
