(* ===== verification/Render_Live.thy ===== *)
theory Render_Live
  imports Archive_Compiled
begin

text \<open>
  Compiled templates do render. What the tokenizer returns has a meaning in any data without
  lambdas as soon as the nesting of its sections and partials is within the limit, so that
  nothing but the budgets for visits and output can make a render fail.
\<close>

section \<open>Meanings that are always defined\<close>

definition defined :: "meaning \<Rightarrow> bool" where
  "defined m \<longleftrightarrow> (\<forall>fs. m fs \<noteq> None)"

named_theorems defined_rules "meanings that are defined"

lemma definedD: "defined m \<Longrightarrow> \<exists>v w fs'. m fs = Some (v, w, fs')"
  unfolding defined_def by (metis not_None_eq prod_cases3)

lemma defined_basic [defined_rules]:
  "defined m_skip" "defined (m_text w)" "defined m_visit" "defined (m_output v)" "defined m_tag" "defined (m_source v)"
  by (auto simp: defined_def m_skip_def m_text_def m_visit_def m_output_def m_tag_def m_source_def split: list.split)

lemma defined_seq [defined_rules]: "defined m \<Longrightarrow> defined k \<Longrightarrow> defined (m_seq m k)"
proof -
  assume m: "defined m" and k: "defined k"
  show ?thesis
    unfolding defined_def
  proof
    fix fs
    obtain v w fs1 where "m fs = Some (v, w, fs1)" using definedD [OF m] by blast
    moreover obtain v' w' fs2 where "k fs1 = Some (v', w', fs2)" using definedD [OF k] by blast
    ultimately show "m_seq m k fs \<noteq> None" by (simp add: m_seq_def)
  qed
qed

lemma defined_each [defined_rules]: "(\<And>x. x \<in> set xs \<Longrightarrow> defined (f x)) \<Longrightarrow> defined (m_each f xs)"
  by (induction xs) (simp_all add: defined_rules)

lemma defined_frame [defined_rules]: "defined m \<Longrightarrow> defined (m_frame cs m)"
  by (auto simp: defined_def m_frame_def split: option.splits)

lemma defined_value [defined_rules]: "defined (m_value tc n d)"
  by (cases d) (simp_all add: m_value_def m_scalar_def defined_rules)

section \<open>Nesting\<close>

text \<open>
  Every path through children and through the partials found by name ends within \<open>k\<close> nodes.
  Partials that contain themselves have no such bound.
\<close>

primrec nests_within :: "(string \<Rightarrow> node option) \<Rightarrow> nat \<Rightarrow> node option \<Rightarrow> bool" where
  "nests_within resolve 0 c = False"
| "nests_within resolve (Suc k) c =
     (case c of
        None \<Rightarrow> False
      | Some n \<Rightarrow> list_all (nests_within resolve k) (children n)
          \<and> (ntype n = TypePartial \<longrightarrow>
               (case resolve (the (ndata n)) of None \<Rightarrow> True | Some p \<Rightarrow> nests_within resolve k (Some p))))"

definition parsed :: "node \<Rightarrow> bool" where
  "parsed n \<longleftrightarrow> (\<exists>i tmpl. tree_ok i tmpl n)"

lemma parsed_node: "parsed n \<Longrightarrow> \<exists>i tmpl. node_ok i tmpl n"
  unfolding parsed_def using tree_ok.simps by blast

lemma parsed_children: "parsed n \<Longrightarrow> c \<in> set (children n) \<Longrightarrow> \<exists>m. c = Some m \<and> parsed m"
  unfolding parsed_def by (cases c) (fastforce simp: tree_ok.simps [of _ _ n])+

text \<open>What the renderer asks of a node before it looks at its type.\<close>

lemma parsed_shape:
  assumes "parsed n"
  shows "ntype n \<in> set serializable_types" and "ndata n = None \<longleftrightarrow> ntype n = TypeRoot"
    and "has_flag (nflags n) FlagPartialIndent \<Longrightarrow> ntype n = TypeOutput"
    and "validatePartialIndentationChildren (children n) = Inr ()"
proof -
  obtain i tmpl where ok: "node_ok i tmpl n" using parsed_node [OF assms] by blast
  then have shape: "isSerializableType (ntype n)" "\<not> invalid_flags (ntype n) (nflags n)"
    "ndata n = None \<longleftrightarrow> ntype n = TypeRoot"
    by (auto simp: node_ok_def validateNodeShape_def split: if_splits)
  from shape(1) show "ntype n \<in> set serializable_types"
    by (auto simp: isSerializableType_def isSerializableTypeValue_def node_type_value_inject)
  from shape(2) show "has_flag (nflags n) FlagPartialIndent \<Longrightarrow> ntype n = TypeOutput"
    by (auto simp: invalid_flags_def has_flag_def Let_def)
  from shape(3) show "ndata n = None \<longleftrightarrow> ntype n = TypeRoot" .
  from ok show "validatePartialIndentationChildren (children n) = Inr ()" by (simp add: node_ok_def)
qed

section \<open>Parsed templates have a meaning\<close>

lemma metadata_agrees: "isPartialIndentationMetadata n = indentation_metadata n"
  by (simp add: isPartialIndentationMetadata_def indentation_metadata_def indentation_flags_def isPartialIndentation_def
      is_indent_def [abs_def] split: option.split)

text \<open>
  Children whose indentation metadata is in order: a metadata node and its partial are one step,
  every other child another.
\<close>

lemma defined_children:
  assumes "validatePartialIndentationChildren cs = Inr ()" and "None \<notin> set cs"
    and "\<And>m ind. Some m \<in> set cs \<Longrightarrow> \<not> has_flag (nflags m) FlagPartialIndent \<Longrightarrow> defined (f (Some m) ind False)"
    and "\<And>m. Some m \<in> set cs \<Longrightarrow> indentation_metadata m \<Longrightarrow> defined (f (Some m) None True)"
    and "\<And>m. Some m \<in> set cs \<Longrightarrow> ntype m = TypePartial \<Longrightarrow> \<not> has_flag (nflags m) FlagPartialIndent"
  shows "defined (m_children f cs)"
  using assms
proof (induction cs rule: validatePartialIndentationChildren.induct)
  case 1
  then show ?case by (simp add: defined_rules)
next
  case (2 cs)
  then show ?case by simp
next
  case (3 c cs)
  show ?case
  proof (cases "has_flag (nflags c) FlagPartialIndent")
    case False
    then have "validatePartialIndentation (Some c) (head_child cs) = Inr None"
      by (simp add: validatePartialIndentation_def)
    moreover have "defined (m_children f cs)"
      by (rule "3.IH"(1)) (use "3.prems" False in \<open>auto simp: has_flag_def\<close>)
    ultimately show ?thesis using "3.prems"(3) [of c] False by (simp add: defined_rules)
  next
    case True
    with "3.prems"(1) have meta: "indentation_metadata c" by (auto simp: has_flag_def metadata_agrees split: if_splits)
    obtain p rest where cs: "cs = Some p # rest" and p: "ntype p = TypePartial"
      and rest: "validatePartialIndentationChildren rest = Inr ()"
      using "3.prems"(1) True by (auto simp: has_flag_def split: if_splits list.splits option.splits)
    have "defined (m_children f rest)"
      by (rule "3.IH"(2) [OF _ _ cs refl]) (use "3.prems" True meta p rest cs in \<open>auto simp: has_flag_def metadata_agrees\<close>)
    moreover have "validatePartialIndentation (Some c) (head_child cs) = Inr (ndata c)" "ndata c \<noteq> None"
      using True meta p by (auto simp: validatePartialIndentation_def head_child_def cs indentation_metadata_def split: option.splits)
    ultimately show ?thesis
      using "3.prems"(3) [of p "ndata c"] "3.prems"(4) [of c] "3.prems"(5) [of p] meta p
      by (auto simp: cs defined_rules head_child_def)
  qed
qed

definition parsed_partials :: "partial_lookup \<Rightarrow> (string \<Rightarrow> node option) \<Rightarrow> bool" where
  "parsed_partials P resolve \<longleftrightarrow>
     (\<forall>name. P name = Inr (resolve name) \<and> (\<forall>p. resolve name = Some p \<longrightarrow> parsed p \<and> ntype p = TypeRoot))"

lemma parsed_node_defined:
  assumes P: "parsed_partials P resolve"
  shows "nests_within resolve k (Some n) \<Longrightarrow> parsed n \<Longrightarrow> depth + k \<le> D \<Longrightarrow>
     (has_flag (nflags n) FlagPartialIndent \<Longrightarrow> metadata \<and> indentation_metadata n) \<Longrightarrow>
     defined (spec_node tc strict P D depth ctx (Some n) ind metadata)"
proof (induction k arbitrary: n depth ctx ind metadata)
  case 0
  then show ?case by simp
next
  case (Suc k)
  note shape = parsed_shape [OF Suc.prems(2)]
  let ?rec = "spec_node tc strict P D (Suc depth)"
  have below: "defined (?rec ctx (Some m) ind b)"
    if "nests_within resolve k (Some m)" "parsed m" "has_flag (nflags m) FlagPartialIndent \<Longrightarrow> b \<and> indentation_metadata m"
    for ctx m ind b
    by (rule Suc.IH) (use that Suc.prems(3) in auto)
  have kids: "defined (m_children (?rec ctx) (children n))" for ctx
  proof (rule defined_children [OF shape(4)])
    show "None \<notin> set (children n)" using parsed_children [OF Suc.prems(2)] by blast
  next
    fix m assume m: "Some m \<in> set (children n)"
    then have m': "parsed m" "nests_within resolve k (Some m)"
      using parsed_children [OF Suc.prems(2) m] Suc.prems(1) by (auto simp: list_all_iff)
    show "defined (?rec ctx (Some m) ind False)" if "\<not> has_flag (nflags m) FlagPartialIndent" for ind
      using below m' that by blast
    show "defined (?rec ctx (Some m) None True)" if "indentation_metadata m"
      using below m' that by blast
    show "\<not> has_flag (nflags m) FlagPartialIndent" if "ntype m = TypePartial"
      using parsed_shape(3) [OF m'(1)] that by auto
  qed
  have partial: "defined (m_partial P ?rec ctx n ind)" if "ntype n = TypePartial"
  proof -
    have "defined (\<lambda>fs. case P (the (ndata n)) of Inl e \<Rightarrow> m_fail fs | Inr None \<Rightarrow> m_skip fs
        | Inr (Some p) \<Rightarrow> m_frame (partial_indentation ind fs) (?rec ctx (Some p) None False) fs)"
    proof (cases "resolve (the (ndata n))")
      case None
      with P show ?thesis by (simp add: parsed_partials_def defined_def m_skip_def)
    next
      case (Some p)
      with P have p: "P (the (ndata n)) = Inr (Some p)" "parsed p" "ntype p = TypeRoot"
        unfolding parsed_partials_def by metis+
      have "nests_within resolve k (Some p)" using Suc.prems(1) that Some by simp
      with p have "defined (?rec ctx (Some p) None False)" using parsed_shape(3) [OF p(2)] below by fastforce
      then have "defined (m_frame cs (?rec ctx (Some p) None False))" for cs by (rule defined_frame)
      then show ?thesis by (simp add: defined_def p(1))
    qed
    then show ?thesis unfolding m_partial_def by (intro defined_rules)
  qed
  have "defined (m_switch tc strict P ?rec ctx n ind)"
    using shape(1) partial
    by (auto simp: m_switch_def Let_def serializable_types_def intro!: defined_rules kids)
  moreover have "\<not> (\<not> type_and (ntype n) TypeHasNoString \<and> ndata n = None)"
    using shape(2) by (auto simp: type_and_def)
  ultimately show ?case
    using Suc.prems(3,4) by (subst spec_node.simps) (auto intro!: defined_rules)
qed

section \<open>Compiled templates render\<close>

definition compiled_lookup_of :: "compiled_partials \<Rightarrow> string \<Rightarrow> node option" where
  "compiled_lookup_of ps name = (case map_of ps name of None \<Rightarrow> None | Some c \<Rightarrow> c)"

text \<open>A template and its partials, each made by \<open>compile\<close> from a text.\<close>

definition all_from_source :: "(nat \<Rightarrow> string) \<Rightarrow> node \<Rightarrow> compiled_partials \<Rightarrow> bool" where
  "all_from_source texts root ps \<longleftrightarrow> from_source texts (Some root) \<and> list_all (\<lambda>(name, c). from_source texts c) ps"

lemma from_source_parsed:
  assumes "from_source texts c"
  obtains n where "c = Some n" "parsed n" "ntype n = TypeRoot" "partials n = []"
  using assms by (auto simp: parsed_def elim!: from_source_tree)

lemma compiled_partials_parsed:
  assumes "all_from_source texts root ps"
  shows "parsed_partials (owned_partials (Some (compiled_resolver ps)) None (Some root)) (compiled_lookup_of ps)"
  unfolding parsed_partials_def
proof
  fix name
  have root: "partials root = []" using assms by (auto simp: all_from_source_def elim: from_source_parsed)
  show "owned_partials (Some (compiled_resolver ps)) None (Some root) name = Inr (compiled_lookup_of ps name)
      \<and> (\<forall>p. compiled_lookup_of ps name = Some p \<longrightarrow> parsed p \<and> ntype p = TypeRoot)"
  proof (cases "map_of ps name")
    case None
    with root show ?thesis
      by (simp add: owned_partials_def compiled_resolver_def lookup_partial_def compiled_lookup_of_def)
  next
    case (Some c)
    then have "(name, c) \<in> set ps" by (rule map_of_SomeD)
    with assms have "from_source texts c" by (auto simp: all_from_source_def list_all_iff)
    then obtain p where "c = Some p" "parsed p" "ntype p = TypeRoot" by (rule from_source_parsed)
    with Some show ?thesis
      by (simp add: owned_partials_def compiled_resolver_def compiled_lookup_of_def compiled_empty_def)
  qed
qed

text \<open>
  C5. Compiled templates do render: for a template and partials from \<open>compile\<close> and data without
  lambdas, when sections and partials nest within the limit, there are a number of visits and a
  text such that a render returns that text as soon as its budgets hold them, whatever \<open>Mustache\<close>
  it is called on, and returns nothing else. No template that was accepted is refused later, and
  only partials that include themselves can exhaust the nesting.
\<close>

theorem compiled_templates_render:
  assumes "all_from_source texts root ps" and "lambda_free data"
    and "nests_within (compiled_lookup_of ps) (min depth renderNestingCeiling) (Some root)"
  shows "\<exists>v w. \<forall>limits m out.
     fst (render_compiled E (Some root) data ps (limits\<lparr>maxNestingDepth := depth\<rparr>) m) = Inr out \<longleftrightarrow>
       out = w \<and> v \<le> maxNodeVisits limits \<and> length w \<le> min (maxOutputBytes limits) (env_max_size E)"
proof -
  have root: "parsed root" "ntype root = TypeRoot"
    using assms(1) by (auto simp: all_from_source_def elim: from_source_parsed)
  have "defined (spec_node (env_to_chars E) False (owned_partials (Some (compiled_resolver ps)) None (Some root))
      (min depth renderNestingCeiling) 0 [data] (Some root) None False)"
    using parsed_node_defined [OF compiled_partials_parsed [OF assms(1)] assms(3) root(1)] parsed_shape(3) [OF root(1)] root(2)
    by fastforce
  from definedD [OF this, of "[]"] obtain v w where
    "maxNestingDepth limits = depth \<Longrightarrow> compiled_meaning E root data ps limits = Some (v, w)" for limits
    by (auto simp: compiled_meaning_def)
  then have "fst (render_compiled E (Some root) data ps (limits\<lparr>maxNestingDepth := depth\<rparr>) m) = Inr out \<longleftrightarrow>
      out = w \<and> v \<le> maxNodeVisits limits \<and> length w \<le> min (maxOutputBytes limits) (env_max_size E)" for limits m out
    using compiled_call_iff [OF assms(2), of E "r_lambdaStringMode (m_renderer m)" root ps "limits\<lparr>maxNestingDepth := depth\<rparr>"
        "m_renderer m" out]
    by (auto simp: render_compiled_def compiled_empty_def split: prod.splits)
  then show ?thesis by blast
qed

text \<open>
  A template without partials nests as deep as its tree is high, and the tokenizer keeps that
  within its own limit.
\<close>

lemma height_nests_within:
  "parsed n \<Longrightarrow> node_height n \<le> k \<Longrightarrow> nests_within (\<lambda>_. None) k (Some n)"
proof (induction k arbitrary: n)
  case 0
  then show ?case using node_height_pos [of n] by simp
next
  case (Suc k)
  then show ?case
    using parsed_children [OF Suc.prems(1)] by (fastforce simp: list_all_iff node_height_le_iff [of n])
qed

lemma no_compiled_partials: "compiled_lookup_of [] = (\<lambda>_. None)"
  by (simp add: compiled_lookup_of_def fun_eq_iff)

lemma compile_nests_within:
  assumes "compile i tmpl L = Inr (Some n)"
  shows "nests_within (compiled_lookup_of []) (tkl_maxNestingDepth L + 2) (Some n)"
proof -
  have "parsed n"
    using compile_from_source [of i "\<lambda>_. tmpl"] assms by (auto elim: from_source_parsed)
  moreover have "node_height n \<le> tkl_maxNestingDepth L + 2"
    using assms by (auto simp: compile_def mustache_compile_def bind_result_Inr_iff dest!: tokenize_tree)
  ultimately show ?thesis
    by (simp only: no_compiled_partials height_nests_within)
qed

end
