(* ===== verification/Archive_Samples.thy ===== *)
theory Archive_Samples
  imports Archive_Modes Archive_View Render_Live
begin

text \<open>
  A template with a section, a partial of its own and a partial given by the caller, the graph
  the builder makes of it, a codec that writes the graph's header, and what the theorems say of
  them.
\<close>

section \<open>A template\<close>

definition sample_source_buffer :: source_buffer where
  "sample_source_buffer = Buffer 3 ''{{#a}}x{{/a}}''"

definition sample_text_node :: "string \<Rightarrow> node" where
  "sample_text_node v = Node TypeOutput 0 (Some v) [] [] None [] None None None 0 0"

definition sample_archived_partial :: "string \<Rightarrow> node" where
  "sample_archived_partial v = Node TypeRoot 0 None [] [Some (sample_text_node v)] None [] None None None 0 0"

definition sample_archived_root :: node where
  "sample_archived_root =
     Node TypeRoot 0 None []
       [Some (Node TypeSection 0 (Some ''a'') [] [Some (sample_text_node ''x'')] None []
          (Some ''{{'') (Some ''}}'') (Some sample_source_buffer) 6 1),
        Some (Node TypePartial 0 (Some ''p'') [] [] None [] None None None 0 0)]
       None [(''p'', Some (sample_archived_partial ''y''))] None None None 0 0"

definition sample_compiled_partials :: compiled_partials where
  "sample_compiled_partials = [(''q'', Some (sample_archived_partial ''z''))]"

definition sample_slice :: "32 word \<Rightarrow> 32 word \<Rightarrow> archive_slice" where
  "sample_slice offset n = \<lparr>as_offset = offset, as_length = n\<rparr>"

definition sample_graph :: archive_graph where
  "sample_graph = new_archive_graph
     \<lparr>ag_nodes :=
        [new_archive_node\<lparr>an_type := 1, an_firstChild := 1\<rparr>,
         new_archive_node\<lparr>an_type := 64, an_presence := 15, an_data := sample_slice 0 1,
           an_startSequence := sample_slice 1 2, an_stopSequence := sample_slice 3 2,
           an_originalSectionText := sample_slice 11 1, an_firstChild := 2, an_nextSibling := 3\<rparr>,
         new_archive_node\<lparr>an_type := 2, an_presence := 1, an_data := sample_slice 18 1\<rparr>,
         new_archive_node\<lparr>an_type := 512, an_presence := 1, an_data := sample_slice 19 1\<rparr>,
         new_archive_node\<lparr>an_type := 1, an_firstChild := 5\<rparr>,
         new_archive_node\<lparr>an_type := 2, an_presence := 1, an_data := sample_slice 21 1\<rparr>,
         new_archive_node\<lparr>an_type := 1, an_firstChild := 7\<rparr>,
         new_archive_node\<lparr>an_type := 2, an_presence := 1, an_data := sample_slice 23 1\<rparr>],
      ag_partials :=
        [\<lparr>ap_name = sample_slice 20 1, ap_root = 4\<rparr>, \<lparr>ap_name = sample_slice 22 1, ap_root = 6\<rparr>],
      ag_strings := ''a{{}}{{#a}}x{{/a}}xppyqz''\<rparr>"

lemmas sample_archive_defs = sample_archived_root_def sample_source_buffer_def sample_archived_partial_def
  sample_text_node_def sample_compiled_partials_def new_archive_builder_def default_archive_limits_def max_uint32_def
  sample_abi_def new_archive_graph_def renderNestingCeiling_def

lemmas count_defs = validateMinimumSize_def minimum_size_def addStringBytes_def addOptionalBytes_def countSource_def
  countDataParts_def countFields_def countNode.simps addPartialName_def originalSectionText_def data_part_count_def
  collectEffectivePartials_def name_if_new_def type_and_def

lemmas append_defs = archive_appendNode.simps appendable_def emplace_node_def appendFields_def appendPresent_def
  appendOriginal_def appendString_def sourceOffset_def set_sibling_def set_node_def appendPartial_def invalidIndex_def
  new_archive_node_def empty_slice_def presence_defs isSerializableType_def isSerializableTypeValue_def
  serializable_types_def

lemma sample_built:
  "buildArchive sample_abi default_archive_limits sample_archived_root (CompiledPartials sample_compiled_partials)
     = Inr sample_graph"
  by (simp add: buildArchive_def buildWithPartials_def count_defs append_defs sample_archive_defs sample_graph_def
      sample_slice_def eff_defs)

lemma sample_effective:
  "effective_partial sample_archived_root (CompiledPartials sample_compiled_partials) name =
     (if name = ''p'' then Some (sample_archived_partial ''y'') else if name = ''q'' then Some (sample_archived_partial ''z'')
      else None)"
  by (simp add: effective_partial_def given_partials_def sample_compiled_partials_def sample_archived_root_def
      lookup_partial_def)

lemma sample_keys: "distinct_keys sample_archived_root (CompiledPartials sample_compiled_partials)"
  by (simp add: distinct_keys_def given_partials_def sample_compiled_partials_def sample_archived_root_def)

lemma sample_partial_nodes: "preorder (sample_archived_partial v) = [sample_archived_partial v, sample_text_node v]"
  by (simp add: preorder.simps sample_archived_partial_def sample_text_node_def)

lemma sample_sourced:
  "sourced_template (\<lambda>_. ''{{#a}}x{{/a}}'') sample_archived_root (CompiledPartials sample_compiled_partials)"
proof -
  have "list_all (well_sourced (\<lambda>_. ''{{#a}}x{{/a}}'')) (preorder sample_archived_root)"
    by (simp add: preorder.simps sample_archived_root_def sample_text_node_def well_sourced_def sample_source_buffer_def)
  moreover have "well_sourced texts (sample_archived_partial v)" "well_sourced texts (sample_text_node v)" for texts v
    by (simp_all add: well_sourced_def sample_archived_partial_def sample_text_node_def)
  ultimately show ?thesis
    by (auto simp: sourced_template_def sample_effective sample_partial_nodes split: if_splits)
qed

lemma sample_plain: "plain_template sample_archived_root (CompiledPartials sample_compiled_partials)"
proof -
  have "list_all plain_node (preorder sample_archived_root)"
    by (simp add: preorder.simps sample_archived_root_def sample_text_node_def plain_node_def data_parts_of_def opt_text_def)
  moreover have "plain_node (sample_archived_partial v)" "plain_node (sample_text_node v)" for v
    by (simp_all add: plain_node_def sample_archived_partial_def sample_text_node_def data_parts_of_def opt_text_def type_and_def)
  ultimately show ?thesis
    by (auto simp: plain_template_def sample_effective sample_partial_nodes split: if_splits)
qed

section \<open>A codec\<close>

text \<open>It writes the header of a graph, with the vectors left out, and reads the recorded size back.\<close>

definition sample_null_vector :: "byte list" where
  "sample_null_vector = [0, 0, 0, 0, 0, 0, 0, 128, 0, 0, 0, 0, 0, 0, 0, 0, 0, 0, 0, 0, 0, 0, 0, 0]"

definition sample_graph_header :: "archive_graph \<Rightarrow> byte list" where
  "sample_graph_header g = value_bytes (ag_magic g) @ value_bytes (ucast (ag_version g)) @ value_bytes (ag_serializedSize g)
     @ sample_null_vector @ sample_null_vector @ sample_null_vector"

definition sample_codec :: "archive_graph \<Rightarrow> archive_codec" where
  "sample_codec h =
     \<lparr>co_requests = (\<lambda>g. [RequestWrite (value_bytes 0) 0, RequestWrite (sample_graph_header g) 8, RequestChecksum 8 16]),
      co_hash = (\<lambda>bytes. of_nat (length bytes)),
      co_deserialize = (\<lambda>payload. Inr (Some (h\<lparr>ag_serializedSize := readLittleEndian payload 32\<rparr>))),
      co_address = 0\<rparr>"

definition sample_payload :: "archive_graph \<Rightarrow> byte list" where
  "sample_payload g = value_bytes 42 @ value_bytes 96 @ sample_graph_header g"

lemma length_sample_header [simp]: "length (sample_graph_header g) = 96"
  by (simp add: sample_graph_header_def sample_null_vector_def)

lemma length_sample_payload [simp]: "length (sample_payload g) = 112"
  by (simp add: sample_payload_def)

lemmas sample_write_defs = writeArchiveTypeVersion_def sample_codec_def eff_defs write_start_def alignedSize_def max_offset_def

lemma sample_written:
  assumes "112 \<le> maximum"
  shows "write_payload sample_abi (sample_codec h) maximum n g = Inr payload \<longleftrightarrow> n = 112 \<and> payload = sample_payload g"
    and "count_payload sample_abi (sample_codec h) maximum g = Inr 112"
  using assms
  by (auto simp: write_payload_def count_payload_def sample_write_defs counter_request_def counter_write_def counter_patch_def
      buffer_request_def buffer_write_def buffer_patch_def buffer_checksum_def buffer_release_def sample_payload_def sample_abi_def)

lemma sample_layout: "graph_in_payload sample_abi 0 (sample_payload g)"
  by (simp add: graph_in_payload_def vector_in_payload_def readVectorHeader_def readNativeArchiveField_def
      sample_abi_def sample_vector_def sample_payload_def sample_graph_header_def sample_null_vector_def null_offset_def)

lemma sample_size: "readLittleEndian (sample_payload g) 32 = ag_serializedSize g"
  by (subst readLittleEndian_iff) (simp_all add: sample_payload_def sample_graph_header_def)

lemma sample_reads_back:
  "112 \<le> maximum \<Longrightarrow> codec_reads_back sample_abi (sample_codec h) maximum (h\<lparr>ag_serializedSize := n\<rparr>)"
  by (simp add: codec_reads_back_def sample_written) (simp add: sample_codec_def sample_size sample_layout)

definition sample_trees :: "itree list" where
  "sample_trees = [ITree 0 [ITree 1 [ITree 2 []], ITree 3 []], ITree 4 [ITree 5 []], ITree 6 [ITree 7 []]]"

lemmas sample_graph_defs = sample_graph_def new_archive_graph_def new_archive_node_def sample_slice_def empty_slice_def
  invalidIndex_def graph_node_def node_type_of_def node_flags_of_def node_type_of_value_def has_presence_def presence_defs

lemma sample_fields: "list_all (\<lambda>n. fields_ok sample_graph n False) (ag_nodes sample_graph)"
  by (simp add: fields_ok_def archive_header_ok_def sample_graph_defs slice_ok_def invalid_delimiters_def
      invalid_section_text_def isSerializableTypeValue_def serializable_types_def invalid_flags_def Let_def has_flag_def
      typeAllowsChildren_def type_and_def)

lemma sample_flags: "list_all (\<lambda>n. \<not> has_flag (node_flags_of n) FlagPartialIndent) (ag_nodes sample_graph)"
  by code_simp

lemma sample_parts: "map (archive_node_parts sample_graph) (ag_nodes sample_graph) = [0, 1, 0, 0, 0, 0, 0, 0]"
  by code_simp

lemma sample_names: "names_ok sample_graph None (ag_partials sample_graph)"
  by code_simp

lemma sample_nodes: "length (ag_nodes sample_graph) = 8" "length (ag_strings sample_graph) = 24"
  by (simp_all add: sample_graph_def)

lemma sample_node_ok:
  assumes "unat i < 8"
  shows "fields_ok sample_graph (graph_node sample_graph i) False"
    and "\<not> has_flag (node_flags_of (graph_node sample_graph i)) FlagPartialIndent"
    and "archive_node_parts sample_graph (graph_node sample_graph i) = [0, 1, 0, 0, 0, 0, 0, 0] ! unat i"
  using assms sample_fields sample_flags sample_nodes nth_map [of "unat i" "ag_nodes sample_graph" "archive_node_parts sample_graph"]
  by (simp_all add: list_all_length graph_node_def sample_parts)

lemma sample_valid: "validateArchive sample_graph default_archive_limits 0 Writing = Inr ()"
proof -
  let ?t = "hd sample_trees" and ?ts = "tl sample_trees"
  have "{..<8 :: nat} = {0, 1, 2, 3, 4, 5, 6, 7}" by auto
  then have "archive_trees sample_graph ?t ?ts"
    by (simp add: archive_trees_def sample_trees_def itree_at_def itree_indices_def sample_nodes) (simp add: sample_graph_defs)
  moreover have "list_all (itree_ok sample_graph default_archive_limits) (?t # ?ts)"
    by (simp add: itree_ok_def sample_trees_def sample_node_ok indentation_ok_def)
      (simp add: default_archive_limits_def renderNestingCeiling_def)
  moreover have "sum_list (map (itree_parts sample_graph) (?t # ?ts)) \<le> al_maxTotalDataParts default_archive_limits"
    by (simp add: itree_parts_def sample_trees_def sample_node_ok) (simp add: default_archive_limits_def)
  moreover have "node_type_of (graph_node sample_graph (ag_root sample_graph)) = TypeRoot"
    by (simp add: sample_graph_defs serializable_types_def)
  moreover have "ag_magic sample_graph = archiveGraphMagic" "ag_version sample_graph = archiveSchemaVersion"
    "ag_nodes sample_graph \<noteq> []" by (simp_all add: sample_graph_def new_archive_graph_def)
  ultimately have "archive_well_formed sample_graph default_archive_limits"
    using sample_names unfolding archive_well_formed_def by (simp add: sample_nodes) (auto simp: default_archive_limits_def)
  then show ?thesis
    using archive_checks_iff [of sample_graph default_archive_limits Writing 0]
    by (simp add: validateArchive_def bind_result_Inr_iff Let_def)
qed

definition sample_bytes :: "archive_graph \<Rightarrow> byte list" where
  "sample_bytes g = preamble sample_abi @ sample_payload (g\<lparr>ag_serializedSize := 112\<rparr>)"

lemma sample_serialized_graph:
  assumes "validateArchive g default_archive_limits 0 Writing = Inr ()"
  shows "serializeGraph sample_abi (sample_codec h) default_archive_limits g = Inr (sample_bytes g)"
proof -
  let ?m = "al_maxArchiveBytes default_archive_limits - 24"
  have m: "112 \<le> ?m" by (simp add: default_archive_limits_def)
  have "write_payload sample_abi (sample_codec h) ?m 112 (g\<lparr>ag_serializedSize := word_of_nat 112\<rparr>)
      = Inr (sample_payload (g\<lparr>ag_serializedSize := word_of_nat 112\<rparr>))"
    by (simp only: sample_written(1) [OF m])
  moreover have "validateArchiveTypeVersion sample_abi (sample_payload g) Writing = Inr ()" for g
  proof -
    have "readLittleEndian (sample_payload g) 0 = 42" by (subst readLittleEndian_iff) (simp_all add: sample_payload_def)
    then show ?thesis by (simp add: validateArchiveTypeVersion_def) (simp add: sample_abi_def)
  qed
  ultimately show ?thesis
    by (simp add: serializeGraph_def Let_def assms sample_written(2) [OF m] frameArchive_eq sample_bytes_def)
      (simp add: default_archive_limits_def)
qed

lemma sample_archive_bytes:
  "serializeArchivedCompiled sample_abi (sample_codec sample_graph) (Some sample_archived_root) sample_compiled_partials
      default_archive_limits = Inr (sample_bytes sample_graph)"
  by (simp add: serializeArchivedCompiled_def serializeCistaArchive_def sample_built sample_serialized_graph sample_valid)
    (simp add: default_archive_limits_def)

section \<open>A compiled template\<close>

text \<open>The sample of the tokenizer with a partial that is plain text.\<close>

definition sample_sources :: "nat \<Rightarrow> string" where
  "sample_sources i = (if i = 5 then sample_template else ''y'')"

definition sample_partials :: compiled_partials where
  "sample_partials = [(''p'', Some (text_root ''y''))]"

lemma sample_occurs: "\<not> occurs_in ''{{'' ''y''"
  by (auto simp: occurs_in_def Cons_eq_append_conv)

lemma sample_compiled: "compiled_template sample_sources sample_parse sample_partials"
proof -
  have "compile 5 (sample_sources 5) sample_tokenizer_limits = Inr (Some sample_parse)"
    by (simp add: compile_def mustache_compile_def new_mustache_def sample_sources_def sample_tokenized)
  moreover have "compile 6 (sample_sources 6) default_tokenizer_limits = Inr (Some (text_root ''y''))"
    using compile_text [of "''y''" default_tokenizer_limits 6] sample_occurs
    by (simp add: sample_sources_def default_tokenizer_limits_def)
  ultimately show ?thesis
    by (simp add: compiled_template_def sample_partials_def compile_from_source)
qed

definition sample_compiled_graph :: archive_graph where
  "sample_compiled_graph = new_archive_graph
     \<lparr>ag_nodes :=
        [new_archive_node\<lparr>an_type := 1, an_firstChild := 1\<rparr>,
         new_archive_node\<lparr>an_type := 2, an_presence := 1, an_data := sample_slice 0 1, an_nextSibling := 2\<rparr>,
         new_archive_node\<lparr>an_type := 64, an_presence := 15, an_data := sample_slice 1 1,
           an_startSequence := sample_slice 2 2, an_stopSequence := sample_slice 4 2,
           an_originalSectionText := sample_slice 13 7, an_firstChild := 3\<rparr>,
         new_archive_node\<lparr>an_type := 16, an_presence := 1, an_data := sample_slice 26 1, an_nextSibling := 4\<rparr>,
         new_archive_node\<lparr>an_type := 128, an_presence := 1, an_data := sample_slice 27 1\<rparr>,
         new_archive_node\<lparr>an_type := 1, an_firstChild := 6\<rparr>,
         new_archive_node\<lparr>an_type := 2, an_presence := 1, an_data := sample_slice 29 1\<rparr>],
      ag_partials := [\<lparr>ap_name = sample_slice 28 1, ap_root = 5\<rparr>],
      ag_strings := ''as{{}}'' @ sample_template @ ''xspy''\<rparr>"

lemma sample_compiled_built:
  "buildArchive sample_abi default_archive_limits sample_parse (CompiledPartials sample_partials) = Inr sample_compiled_graph"
  by (simp add: buildArchive_def buildWithPartials_def count_defs append_defs sample_archive_defs sample_compiled_graph_def
      sample_slice_def eff_defs sample_parse_def sample_partials_def sample_template_def text_root_def parsed_root_def tail_node_def
      FlagNone_def)

lemma sample_compiled_bytes:
  "serializeArchivedCompiled sample_abi (sample_codec sample_compiled_graph) (Some sample_parse) sample_partials
      default_archive_limits = Inr (sample_bytes sample_compiled_graph)"
  by (simp add: serializeArchivedCompiled_def serializeCistaArchive_def sample_compiled_built sample_serialized_graph
      built_archive_is_valid [OF sample_compiled_built compiled_template_kept(1,2,4) [OF sample_compiled]])
    (simp add: default_archive_limits_def)

section \<open>The theorems on the sample\<close>

theorem built_archive_views_witness:
  "buildArchive sample_abi default_archive_limits sample_archived_root (CompiledPartials sample_compiled_partials) = Inr sample_graph
     \<and> archive_view sample_graph (ag_root sample_graph) = archived_form sample_archived_root
     \<and> archive_partials sample_graph ''p'' = Inr (Some (archived_form (sample_archived_partial ''y'')))"
  using built_archive_views [OF sample_built sample_keys sample_sourced, of "''p''"] sample_built
  by (simp add: sample_effective)

theorem counted_size_is_written_witness:
  "\<exists>payload. write_payload sample_abi (sample_codec sample_graph) 200 112 (sample_graph\<lparr>ag_serializedSize := word_of_nat 112\<rparr>) = Inr payload
     \<and> length payload = 112 \<and> (112 :: nat) \<le> 200"
proof (rule counted_size_is_written)
  show "count_payload sample_abi (sample_codec sample_graph) 200 sample_graph = Inr 112" by (simp add: sample_written)
  show "list_all2 same_shape (co_requests (sample_codec sample_graph) sample_graph)
     (co_requests (sample_codec sample_graph) (sample_graph\<lparr>ag_serializedSize := word_of_nat 112\<rparr>))"
    by (simp add: sample_codec_def)
qed

lemma sample_codec_ok:
  "buildArchive sample_abi default_archive_limits root source = Inr g \<Longrightarrow>
     buildArchive sample_abi default_archive_limits root source = Inr h \<Longrightarrow>
     codec_reads_back sample_abi (sample_codec h) (al_maxArchiveBytes default_archive_limits - archivePreambleSize)
       (g\<lparr>ag_serializedSize := n\<rparr>)"
  "al_maxArchiveBytes default_archive_limits < 2 ^ 64" "co_address (sample_codec h) mod tl_alignof (ab_graph sample_abi) = 0"
proof -
  have "112 \<le> al_maxArchiveBytes default_archive_limits - archivePreambleSize" by (simp add: default_archive_limits_def)
  from sample_reads_back [OF this, of h n] show
    "buildArchive sample_abi default_archive_limits root source = Inr g \<Longrightarrow>
     buildArchive sample_abi default_archive_limits root source = Inr h \<Longrightarrow>
     codec_reads_back sample_abi (sample_codec h) (al_maxArchiveBytes default_archive_limits - archivePreambleSize)
       (g\<lparr>ag_serializedSize := n\<rparr>)"
    by simp
qed (simp_all add: default_archive_limits_def sample_codec_def)

theorem serialized_template_loads_witness:
  "\<exists>g. loadArchivedTemplate sample_abi (sample_codec sample_graph) (sample_bytes sample_graph) default_archive_limits
         = Inr (Some (sample_bytes sample_graph, g))
     \<and> archive_view g (ag_root g) = archived_form sample_archived_root
     \<and> (\<forall>name. archive_partials g name = Inr (map_option archived_form
          (effective_partial sample_archived_root (CompiledPartials sample_compiled_partials) name)))"
proof (rule serialized_template_loads [OF _ sample_keys sample_sourced sample_codec_ok(1) [OF _ sample_built] sample_codec_ok(2,3)])
  show "serializeCistaArchive sample_abi (sample_codec sample_graph) sample_archived_root (CompiledPartials sample_compiled_partials)
      default_archive_limits = Inr (sample_bytes sample_graph)"
    using sample_archive_bytes by (simp add: serializeArchivedCompiled_def)
qed

theorem compiled_archive_is_valid_witness:
  "validateArchive sample_compiled_graph default_archive_limits 0 Writing = Inr ()"
  by (rule compiled_archive_is_valid [OF sample_compiled sample_compiled_built])

theorem compiled_archive_renders_witness:
  "\<exists>a. loadArchivedTemplate sample_abi (sample_codec sample_compiled_graph) (sample_bytes sample_compiled_graph)
         default_archive_limits = Inr a
     \<and> (\<forall>data rl mode s. render_archived sample_env a data rl mode s
          = render_with_mode sample_env (Some sample_parse) data sample_partials rl (mode_number mode) s)"
  by (rule compiled_archive_renders [OF sample_compiled sample_compiled_bytes
      sample_codec_ok(1) [OF _ sample_compiled_built] sample_codec_ok(2,3)])

theorem validation_levels_suffice_witness:
  "let V = \<lparr>va_graph = new_archive_graph\<lparr>ag_nodes := [new_archive_node\<lparr>an_type := 1, an_firstChild := 0\<rparr>]\<rparr>,
            va_limits = default_archive_limits, va_context = Loading\<rparr>
   in validateNode (validateChildren 5 V) V 0 0 False (new_validator (va_graph V))
        = validateTree V 0 (new_validator (va_graph V))"
  unfolding Let_def by (rule validation_levels_suffice) (simp add: validation_levels_def)

theorem accepted_archive_renders_in_place_witness:
  "render_in_place sample_env sample_graph DNone default_render_limits ModeTemplate
     = renderProtectedArchive sample_env sample_graph DNone default_render_limits ModeTemplate"
  by (rule accepted_archive_renders_in_place [OF sample_valid]) (simp add: sample_nodes)

theorem compiled_templates_render_witness:
  "\<exists>v w. \<forall>limits m out.
     fst (render_compiled sample_env (Some sample_parse) (DMap [(''s'', DBoolean True)]) sample_partials
       (limits\<lparr>maxNestingDepth := 3\<rparr>) m) = Inr out \<longleftrightarrow>
       out = w \<and> v \<le> maxNodeVisits limits \<and> length w \<le> min (maxOutputBytes limits) (env_max_size sample_env)"
proof -
  have sources: "all_from_source sample_sources sample_parse sample_partials"
    using sample_compiled by (auto simp: all_from_source_def compiled_template_def list_all_iff)
  have free: "lambda_free (DMap [(''s'', DBoolean True)])" by simp
  have "nests_within (compiled_lookup_of sample_partials) (min 3 renderNestingCeiling) (Some sample_parse)"
  proof -
    have "min 3 renderNestingCeiling = Suc (Suc (Suc 0))" by (simp add: renderNestingCeiling_def)
    then show ?thesis by (simp add: sample_parse_def)
  qed
  from compiled_templates_render [OF sources free this] show ?thesis .
qed

text \<open>The first sample in a build whose last mode is the sample layout.\<close>

definition sample_build :: cista_build where
  "sample_build = \<lparr>cb_production_only = False, cb_runtime_version = True, cb_layout = sample_abi,
     cb_codec = (\<lambda>_. sample_codec sample_graph), cb_crc32 = None, cb_xxh3 = (\<lambda>_. 0)\<rparr>"

definition sample_given_partials :: partial_map where
  "sample_given_partials = [(''q'', Some (sample_archived_partial ''z''))]"

lemma sample_mode:
  "mode_abi sample_build (mode_of sample_build DeepCheckAndIntegrity) = sample_abi"
  "mode_codec sample_build m = sample_codec sample_graph"
  by (simp_all add: mode_abi_format format_abi_def with_integrity_def mode_codec_def sample_build_def sample_abi_def)

lemma sample_given_built:
  "buildArchive sample_abi default_archive_limits sample_archived_root (OwnedPartials sample_given_partials) = Inr sample_graph"
  by (simp add: buildArchive_def buildWithPartials_def count_defs append_defs sample_archive_defs sample_graph_def
      sample_slice_def eff_defs sample_given_partials_def)

lemma sample_given_effective:
  "effective_partial sample_archived_root (OwnedPartials sample_given_partials)
     = effective_partial sample_archived_root (CompiledPartials sample_compiled_partials)"
  by (simp add: fun_eq_iff effective_partial_def given_partials_def sample_given_partials_def sample_compiled_partials_def)

theorem security_modes_agree_witness:
  "validateCistaArchive_mode sample_build (sample_bytes sample_graph) (Some DeepCheckAndIntegrity) default_archive_limits = Inr ()
     \<and> (\<forall>s. renderCistaArchive_mode sample_build sample_env (sample_bytes sample_graph) DNone (Some DeepCheckAndIntegrity)
             default_archive_limits default_render_limits s
           = render_tree sample_env sample_archived_root sample_given_partials DNone default_render_limits s)
     \<and> validateCistaArchive_mode sample_build (sample_bytes sample_graph) (Some DeepCheck) default_archive_limits
         = Inl unsupported_compatibility"
proof -
  let ?source = "OwnedPartials sample_given_partials"
  have ser: "serializeCistaArchive_mode sample_build sample_archived_root sample_given_partials (Some DeepCheckAndIntegrity)
      default_archive_limits = Inr (sample_bytes sample_graph)"
    by (simp add: by_mode serializeCistaArchiveWithMode_def sample_mode serializeCistaArchive_def sample_given_built
        sample_serialized_graph sample_valid) (simp add: default_archive_limits_def)
  have keys: "distinct_keys sample_archived_root ?source"
    by (simp add: distinct_keys_def given_partials_def sample_given_partials_def sample_archived_root_def)
  have sourced: "sourced_template (\<lambda>_. ''{{#a}}x{{/a}}'') sample_archived_root ?source"
    using sample_sourced by (simp add: sourced_template_def sample_given_effective)
  have plain: "plain_template sample_archived_root ?source"
    using sample_plain by (simp add: plain_template_def sample_given_effective)
  have codec: "buildArchive (mode_abi sample_build (mode_of sample_build DeepCheckAndIntegrity)) default_archive_limits
        sample_archived_root ?source = Inr g \<Longrightarrow>
      codec_reads_back (mode_abi sample_build (mode_of sample_build DeepCheckAndIntegrity))
        (mode_codec sample_build (mode_of sample_build DeepCheckAndIntegrity))
        (al_maxArchiveBytes default_archive_limits - archivePreambleSize) (g\<lparr>ag_serializedSize := n\<rparr>)" for g n
    unfolding sample_mode by (rule sample_codec_ok(1) [OF _ sample_given_built])
  have aligned: "co_address (mode_codec sample_build (mode_of sample_build DeepCheckAndIntegrity))
      mod tl_alignof (ab_graph (mode_abi sample_build (mode_of sample_build DeepCheckAndIntegrity))) = 0"
    unfolding sample_mode by (rule sample_codec_ok(3))
  have "with_integrity DeepCheck \<noteq> with_integrity DeepCheckAndIntegrity" by (simp add: with_integrity_def)
  with security_modes_agree [OF ser keys sourced plain codec sample_codec_ok(2) aligned, of sample_env]
  show ?thesis by blast
qed

end
