(* ===== verification/Spec2Isabelle.thy ===== *)
theory Spec2Isabelle
  imports Stack Data_Object Lambda_Threads Serial_Props Json_Values Yaml_Cycles Cli_Props Archive_Version Archive_Samples
begin

text \<open>
  A model of libmustache, a C++ implementation of the Mustache template language, and the
  properties that make it correct. The sources are those of src/ and bin/ of the repository;
  every definition stands for the function, class or branch of the same name, and \<open>_\<close>
  joins what the code nests or overloads.

  Parts. A template is parsed by the tokenizer into a tree of nodes. A tree can be printed
  back to a template, written to a binary format and read from it, or rendered: the
  renderer walks it over data, a variant of strings, numbers, lists, maps and lambdas, and
  lambdas call back into the library while it does. Data comes from a JSON or a YAML parser.
  The facade puts these together in a class and in compiled templates that are parsed once,
  and the command line tool puts the facade between files and streams. A compiled template
  with its partials can be written to an archive, a flat table of nodes and strings in a
  framed payload, which is validated once when it is loaded and then rendered in place.

  Theories, with the code each models, in the order they build on each other:
  \<^item> Prelude: the vocabulary (exceptions, results, operations with state, string searches) and
    the interface \<open>bounded_counter\<close> of every resource limit.
  \<^item> Utils: src/utils.cpp. Stack: src/stack.hpp, with the interface \<open>lifo\<close>.
  \<^item> Node: src/node.hpp and the constructors, setters and source metadata of src/node.cpp.
    Template_String: \<open>to_template_string\<close>. Serial, Serial_Props: the legacy format,
    \<open>serializeValue\<close> and \<open>unserializeOwned\<close>.
  \<^item> Tokenizer, Tokenizer_Props: src/tokenizer.cpp.
  \<^item> Data: src/data.hpp and src/data.cpp without the parsers, with the interface
    \<open>keyed_map\<close>. Data_Object: the same class as objects that own a storage and lose it when they
    are moved. Charconv: \<open>std::from_chars\<close> and digit scans.
    Parse_Budget: src/parse_budget.hpp, with the interface \<open>budget_holder\<close>.
  \<^item> Json, Json_Props, Json_Values: src/json_parser.cpp. Yaml, Yaml_Props, Yaml_Spec,
    Yaml_Cycles: the YAML half of src/data.cpp.
  \<^item> Renderer, Renderer_Props: src/renderer.cpp. Lambda: src/lambda.cpp. Lambda_Threads: its
    contexts in the hands of several threads, a step relation with the mutex. Engine,
    Engine_Props, Render_Spec: src/render_engine.hpp. Node_View: the same engine as the template
    it is over a view of nodes, the interface \<open>node_source\<close>, and \<open>OwnedNodeView\<close> with its cursors.
  \<^item> Facade, Facade_Props: src/mustache.cpp and src/compiled_template.cpp.
    Cli, Cli_Props: bin/cli.cpp.
  \<^item> Archives, src/archive/cista.cpp: Archive_Format (limits, preamble, fingerprint, cache tag,
    the vector headers of a payload), Archive_Version (src/archive/cista_version.hpp: the type
    version), Archive_Graph (the tables, \<open>ArchiveValidator\<close>, the views of the renderer),
    Archive_Build (\<open>ArchiveBuilder\<close>), Archive (the targets of the serializer, writing,
    loading, rendering and the functions of src/archived_template.hpp), Archive_View
    (\<open>ArchiveNodeView\<close>, its cursors and \<open>ArchivePartialSource\<close> behind \<open>node_source\<close>). Their properties:
    Archive_Format_Props; Archive_Valid (the validator); Archive_Build_Props, Archive_Stored,
    Archive_Counted and Archive_Roundtrip (the builder and the views); Archive_Accepted (the
    validator on what the builder made); Archive_Files (the bytes); Archive_Render (rendering);
    Archive_Compiled (all of it for templates from \<open>compile\<close>); Archive_Modes (the security modes
    that are compiled for benchmarks, and their functions); Archive_Samples (concrete inputs for
    their theorems).
  \<^item> Render_Live: what the tokenizer returns always has a meaning, so compiled templates do render.

  State and operations. An object of the code is a record with its fields; a method that
  changes it is an operation \<open>eff\<close>, which takes the state to a result, or an
  exception, with the state it leaves: what was changed before a throw stays changed, and the
  scope guards of the code are written out as combinators that restore on both ways out. What
  a function only returns is a sum, \<open>Inl\<close> the exception. Strings the code writes through pointers
  live in a store, so that two pointers to one string are two names for it. Trees are values:
  the code does not change a tree while it is used. A child or partial pointer that may be
  null is an option. Bytes of a format and integers of the data have their width; sizes are
  natural numbers, each comparison that keeps the code's arithmetic from wrapping round
  being part of the definition.

  Interfaces. \<open>bounded_counter\<close> says what a limit promises (it grows by what was asked or the
  call throws, and never passes the limit); it is interpreted on the counters of the renderer,
  and every \<open>budget_holder\<close> gives two more, for strings and for entries.
  \<open>budget_holder\<close> is an object that charges a parse budget: the JSON handler, the YAML
  preflight and the YAML builder provide it, and their bounds are its lemmas.
  \<open>serializer_target\<close> is what both targets of the archive serializer, the size counter and the
  bounded buffer, promise the writer. \<open>node_source\<close> is what the render engine asks of a view of
  nodes: to show the fields of the node it sees and to run its cursors through the parts of a
  name and the children; the views of owned nodes and of accepted archives provide it.
  \<open>keyed_map\<close> is what lookups after an insertion return,
  provided by the maps of the data,
  and \<open>lifo\<close> is the stack the array implements.

  What the lemmas show.
  \<^item> Strings and stack: what each function computes, and inverses where there are any.
  \<^item> Trees: printing and serializing succeed exactly on stated conditions, with stated results;
    decoding is the inverse of encoding and accepts nothing else.
  \<^item> Tokenizer: the invariant of the scan loop (\<open>Tokenizer_Props\<close>), hence the shape,
    the limits and the source ranges of every tree it returns.
  \<^item> Data: objects behave as values (\<open>objects_are_values\<close>), so the other theories work with values.
  \<^item> Parsers: JSON events and YAML documents have a meaning of their own (\<open>jvalue\<close>,
    \<open>ytree\<close> with \<open>unfolds\<close>); the code returns that meaning when and only when it fits
    the limits. A YAML document with a cycle never converts, and where the limits allow the
    walk it is the alias check that stops it (\<open>only_cycle\<close>).
  \<^item> Rendering: \<open>render_step\<close> is what every operation keeps whatever callbacks do (limits,
    configuration, restored state, retired contexts). \<open>spec_node\<close> is the meaning of a
    template as a pure function, and \<open>denotes\<close> the refinement between them. Through any view that
    is a \<open>node_source\<close>, the engine does what the traversal over trees does (\<open>renders_seen\<close>).
    The trees of the tokenizer have a meaning in any data without lambdas (\<open>parsed_node_defined\<close>),
    so only the nesting of partials and the budgets can fail a compiled template.
  \<^item> Callback contexts in threads: in every interleaving one thread at a time uses a context and
    none once its callback is over; with the documented handoff, where a callback waits for a
    worker outside of its renders through the context, no schedule hangs (\<open>context_inv\<close>,
    \<open>handoff_inv\<close>), and \<open>join_inside_render_hangs\<close> shows a wait inside a render that does.
  \<^item> Facade and tool: the composition. Compiled templates render to their meaning; a text
    without tags goes unchanged from the template file to the output stream; options are
    read back from arguments; a failing run reports the exception
    that stopped it and writes nothing.
  \<^item> Archives: the validator accepts exactly \<open>archive_well_formed\<close> graphs, disjoint trees that
    cover the table of nodes; the views of a built graph are the template that went in
    (\<open>archived_form\<close>); what was written loads, and renders as the owned template does, with any
    callbacks (\<open>alike\<close>, a simulation between two renderers whose trees read alike). Trees of the
    tokenizer meet every condition of these theorems, and the validator accepts what the builder
    makes of them (\<open>archivable_node\<close>, \<open>tree_within\<close>).

  Levels. \<open>renderNode\<close> and the YAML \<open>createFromNode\<close> call themselves on
  structures that need not be smaller (recursive partials, callbacks, documents with cycles);
  each is built from one level of its body, and the ceiling of 256 the code checks makes 257
  levels enough: that more change nothing is \<open>render_levels_suffice\<close> in Engine_Props,
  and \<open>create_level_more\<close> in Yaml_Cycles. The archive validator follows indices that
  may form cycles; one level more than there are nodes is enough, as every call marks a node
  (\<open>validation_levels_suffice\<close> in Archive_Valid). The views of a validated archive recurse over
  as many levels as it has nodes, and the cursor over a dotted name takes one step for each of
  its parts; that both are enough is part of \<open>built_archive_views\<close>. The loops over the cursors of
  a view take as many steps as the view promises, which the laws of \<open>node_source\<close> make enough, and
  the source text of a section recurses over as many levels as the ceiling allows. Every other loop is structural recursion
  or a function with a termination proof, so all operations are total.

  Parameters. What the code relies on outside the repository is an argument of the model:
  the reader of the JSON library (the events it sends), libyaml (events and documents for an
  input), the spelling and the extraction of floating-point numbers, the longest string the
  platform allows, files and streams, and the texts of system errors. Of the cista library
  that archives are written with, \<open>archive_abi\<close> gives the sizes, alignments and member offsets
  of the compiled structures, \<open>type_hashing\<close> the hashes, and \<open>archive_codec\<close> what serializing a
  graph asks of its target and what the deserializer makes of a payload (\<open>cista_build\<close> gives one for
  each mode); theorems about loading
  what was written ask that it reads back what it wrote (\<open>codec_reads_back\<close>). The code of the user
  (lambdas) is a tree of the calls it makes with a branch for each answer, so that theorems
  hold for any callback.

  Not modelled. In src/archive, the reserved word of 32-bit Windows builds. Threads, apart from
  those that share a callback context: the documentation gives one thread at a time to an object;
  what rendering itself does is modelled for one thread, the registry of engines without its
  lock. Failing allocation. Objects that were moved from, apart from nodes and data, where the
  code gives them a meaning. The vendored libraries, the
  entry point of the tool, which connects the process streams to \<open>run\<close>, the benchmarks and
  the tests.
\<close>

end
